(* ===== verification/Prelude.thy ===== *)
theory Prelude
  imports Main "HOL-Library.List_Lexorder" "HOL-Library.Char_ord" "HOL-Library.Product_Lexorder"
begin

text \<open>
  Shared vocabulary of the development: clocks, results, SQL-like operations on tables kept as
  lists of rows, paging, and the generic facts about them.

  Conventions.
  \<^item> A JavaScript number that the code uses as an integer (a clock, a count, a sequence number)
    is an \<open>int\<close> or a \<open>nat\<close>; the code keeps all of them below \<open>2 ^ 53\<close>.
  \<^item> \<open>Date.now()\<close> is milliseconds; a SQLite \<open>integer\<close> column in drizzle's
    \<open>timestamp\<close> mode holds whole seconds (\<open>Math.floor(ms / 1000)\<close>).
  \<^item> A string is a list of characters, one per code unit.
  \<^item> A thrown error is the left value of a sum.
\<close>

type_synonym ms = int
type_synonym sec = int
type_synonym id = string

named_theorems row_simps \<open>how an operation on a table changes the fields of its rows\<close>
named_theorems keeps \<open>an operation keeps an invariant\<close>

subsection \<open>Clocks\<close>

definition toSec :: "ms \<Rightarrow> sec" where
  "toSec t = t div 1000"

lemma toSec_mono: "a \<le> b \<Longrightarrow> toSec a \<le> toSec b"
  by (simp add: toSec_def zdiv_mono1)

lemma toSec_add_second: "toSec (t + 1000 * k) = toSec t + k"
  by (simp add: toSec_def)

subsection \<open>Tables: UPDATE ... WHERE, and ORDER BY ... LIMIT\<close>

definition upd_where :: "('r \<Rightarrow> bool) \<Rightarrow> ('r \<Rightarrow> 'r) \<Rightarrow> 'r list \<Rightarrow> 'r list" where
  "upd_where P f rows = map (\<lambda>r. if P r then f r else r) rows"

lemma upd_where_Nil [simp]: "upd_where P f [] = []"
  by (simp add: upd_where_def)

lemma upd_where_Cons [simp]:
  "upd_where P f (r # rs) = (if P r then f r else r) # upd_where P f rs"
  by (simp add: upd_where_def)

lemma upd_where_append [simp]:
  "upd_where P f (xs @ ys) = upd_where P f xs @ upd_where P f ys"
  by (simp add: upd_where_def)

lemma length_upd_where [simp]: "length (upd_where P f rows) = length rows"
  by (simp add: upd_where_def)

lemma set_upd_where:
  "set (upd_where P f rows) = {f r | r. r \<in> set rows \<and> P r} \<union> {r \<in> set rows. \<not> P r}"
  by (auto simp: upd_where_def)

lemma in_upd_whereE:
  assumes "x \<in> set (upd_where P f rows)"
  obtains (changed) r where "r \<in> set rows" "P r" "x = f r"
  | (same) "x \<in> set rows" "\<not> P x"
  using assms by (auto simp: upd_where_def split: if_splits)

lemma map_upd_where: "(\<And>r. g (f r) = g r) \<Longrightarrow> map g (upd_where P f rows) = map g rows"
  by (induction rows) auto

lemma upd_where_id: "(\<And>r. r \<in> set rows \<Longrightarrow> \<not> P r) \<Longrightarrow> upd_where P f rows = rows"
  by (induction rows) auto

lemma upd_where_cong:
  "(\<And>r. r \<in> set rows \<Longrightarrow> P r = Q r) \<Longrightarrow> upd_where P f rows = upd_where Q f rows"
  by (induction rows) auto

lemma upd_where_twice:
  "(\<And>r. P (f r) \<Longrightarrow> f (f r) = f r) \<Longrightarrow> (\<And>r. Q r \<Longrightarrow> \<not> P r \<Longrightarrow> False) \<Longrightarrow>
   (\<And>r. P r \<Longrightarrow> Q (f r) \<Longrightarrow> f (f r) = f r) \<Longrightarrow>
   upd_where Q f (upd_where P f rows) = upd_where P f rows"
  by (induction rows) auto

text \<open>The rows an UPDATE ... RETURNING hands back: the changed rows, in table order.\<close>

definition returning :: "('r \<Rightarrow> bool) \<Rightarrow> ('r \<Rightarrow> 'r) \<Rightarrow> 'r list \<Rightarrow> 'r list" where
  "returning P f rows = map f (filter P rows)"

text \<open>\<open>ORDER BY key LIMIT n\<close>.\<close>

definition order_limit :: "('r \<Rightarrow> 'k::linorder) \<Rightarrow> nat \<Rightarrow> 'r list \<Rightarrow> 'r list" where
  "order_limit key n rows = take n (sort_key key rows)"

lemma length_order_limit: "length (order_limit key n rows) = min n (length rows)"
  by (simp add: order_limit_def)

lemma order_limit_sorted: "sorted (map key (order_limit key n rows))"
  by (simp add: order_limit_def take_map [symmetric] sorted_wrt_take)

lemma set_order_limit: "set (order_limit key n rows) \<subseteq> set rows"
  by (metis order_limit_def set_sort set_take_subset)

lemma order_limit_all: "length rows \<le> n \<Longrightarrow> set (order_limit key n rows) = set rows"
  by (simp add: order_limit_def)

lemma order_limit_empty_iff: "0 < n \<Longrightarrow> order_limit key n rows = [] \<longleftrightarrow> rows = []"
proof -
  assume "0 < n"
  then have "length (order_limit key n rows) = 0 \<longleftrightarrow> length rows = 0"
    by (auto simp: length_order_limit min_def)
  then show ?thesis by simp
qed

text \<open>A row left out by the limit sorts no lower than any row taken.\<close>

lemma order_limit_least:
  assumes "x \<in> set (order_limit key n rows)" "y \<in> set rows" "y \<notin> set (order_limit key n rows)"
  shows "key x \<le> key y"
proof -
  let ?s = "sort_key key rows"
  have split: "?s = take n ?s @ drop n ?s" by simp
  have "y \<in> set ?s" using assms(2) by simp
  then have "y \<in> set (drop n ?s)"
    using assms(3) split by (metis Un_iff order_limit_def set_append)
  moreover have "x \<in> set (take n ?s)" using assms(1) by (simp add: order_limit_def)
  moreover have "sorted (map key (take n ?s @ drop n ?s))" by simp
  ultimately show ?thesis
    by (auto simp: sorted_append simp del: append_take_drop_id)
qed

lemma length_filter_upd_where_le:
  "(\<And>r. Q (f r) \<Longrightarrow> P r \<Longrightarrow> Q r) \<Longrightarrow>
   length (filter Q (upd_where P f rows)) \<le> length (filter Q rows)"
  by (induction rows) auto

subsection \<open>Lists\<close>

text \<open>\<open>[...new Set(xs)]\<close>: the first occurrence of each element, in order.\<close>

fun uniq :: "'a list \<Rightarrow> 'a list" where
  "uniq [] = []"
| "uniq (x # xs) = x # filter (\<lambda>y. y \<noteq> x) (uniq xs)"

lemma set_uniq [simp]: "set (uniq xs) = set xs"
  by (induction xs) auto

lemma distinct_uniq [simp]: "distinct (uniq xs)"
  by (induction xs) auto

lemma uniq_distinct: "distinct xs \<Longrightarrow> uniq xs = xs"
  by (induction xs) (auto simp: filter_id_conv)

text \<open>The first row of a query that is expected to return one.\<close>

definition first_row :: "'a list \<Rightarrow> 'a option" where
  "first_row rows = (case rows of [] \<Rightarrow> None | r # _ \<Rightarrow> Some r)"

lemma first_row_simps [simp]: "first_row [] = None" "first_row (r # rs) = Some r"
  by (simp_all add: first_row_def)

lemma first_row_Some: "first_row rows = Some r \<Longrightarrow> r \<in> set rows"
  by (auto simp: first_row_def split: list.splits)

lemma first_row_None: "first_row rows = None \<longleftrightarrow> rows = []"
  by (auto simp: first_row_def split: list.splits)

lemma filter_key_singleton:
  "distinct (map key rows) \<Longrightarrow> r \<in> set rows \<Longrightarrow> filter (\<lambda>x. key x = key r) rows = [r]"
proof (induction rows)
  case (Cons a rows)
  show ?case
  proof (cases "a = r")
    case True
    then have "filter (\<lambda>x. key x = key r) rows = []"
      using Cons.prems(1) by (auto simp: filter_empty_conv image_iff)
    with True show ?thesis by simp
  next
    case False
    then have "r \<in> set rows" "key a \<noteq> key r" using Cons.prems by auto
    then show ?thesis using Cons.IH Cons.prems(1) by simp
  qed
qed simp

lemma first_row_key:
  "distinct (map key rows) \<Longrightarrow> r \<in> set rows \<Longrightarrow> first_row (filter (\<lambda>x. key x = key r) rows) = Some r"
  by (simp add: filter_key_singleton)

text \<open>Paging: \<open>for (offset = 0; offset < xs.length; offset += n) f(xs.slice(offset, offset + n))\<close>.\<close>

fun pages :: "nat \<Rightarrow> 'a list \<Rightarrow> 'a list list" where
  "pages n xs = (if xs = [] \<or> n = 0 then [] else take n xs # pages n (drop n xs))"

declare pages.simps [simp del]

lemma pages_Nil [simp]: "pages n [] = []"
  by (subst pages.simps) simp

lemma concat_pages: "0 < n \<Longrightarrow> concat (pages n xs) = xs"
proof (induction n xs rule: pages.induct)
  case (1 n xs)
  show ?case
  proof (cases "xs = []")
    case False
    with 1 have "concat (pages n (drop n xs)) = drop n xs" by simp
    with 1(2) False show ?thesis by (subst pages.simps) simp
  qed simp
qed

lemma pages_bounded: "p \<in> set (pages n xs) \<Longrightarrow> p \<noteq> [] \<and> length p \<le> n"
proof (induction n xs rule: pages.induct)
  case (1 n xs)
  show ?case
  proof (cases "xs = [] \<or> n = 0")
    case True
    with "1.prems" show ?thesis by (auto simp: pages.simps [of n xs])
  next
    case False
    with "1.prems" have "p = take n xs \<or> p \<in> set (pages n (drop n xs))"
      by (auto simp: pages.simps [of n xs])
    then show ?thesis using False "1.IH" by auto
  qed
qed

subsection \<open>\<open>sort\<close> with a comparator\<close>

text \<open>The stable sort of \<open>Array.prototype.sort\<close>, for a comparator that is a total preorder.\<close>

fun insert_by :: "('a \<Rightarrow> 'a \<Rightarrow> 'n::{zero,ord}) \<Rightarrow> 'a \<Rightarrow> 'a list \<Rightarrow> 'a list" where
  "insert_by cmp x [] = [x]"
| "insert_by cmp x (y # ys) = (if cmp x y \<le> 0 then x # y # ys else y # insert_by cmp x ys)"

definition js_sort :: "('a \<Rightarrow> 'a \<Rightarrow> 'n::{zero,ord}) \<Rightarrow> 'a list \<Rightarrow> 'a list" where
  "js_sort cmp xs = foldr (insert_by cmp) xs []"

lemma set_insert_by [simp]: "set (insert_by cmp x ys) = insert x (set ys)"
  by (induction ys) auto

lemma set_js_sort [simp]: "set (js_sort cmp xs) = set xs"
  by (induction xs) (auto simp: js_sort_def)

lemma js_sort_Nil_iff [simp]: "js_sort cmp xs = [] \<longleftrightarrow> xs = []"
  by (metis set_js_sort set_empty)

lemma sorted_js_sort:
  fixes cmp :: "'a \<Rightarrow> 'a \<Rightarrow> 'n::linordered_idom"
  assumes total: "\<And>x y. cmp x y \<le> 0 \<or> cmp y x \<le> 0" and trans: "\<And>x y z. cmp x y \<le> 0 \<Longrightarrow> cmp y z \<le> 0 \<Longrightarrow> cmp x z \<le> 0"
  shows "sorted_wrt (\<lambda>x y. cmp x y \<le> 0) (js_sort cmp xs)"
proof -
  have "sorted_wrt (\<lambda>x y. cmp x y \<le> 0) (insert_by cmp x ys)" if "sorted_wrt (\<lambda>x y. cmp x y \<le> 0) ys" for x ys
    using that
  proof (induction ys)
    case (Cons y ys)
    then show ?case using total [of x y] by (auto intro: trans)
  qed simp
  then show ?thesis by (induction xs) (auto simp: js_sort_def)
qed

subsection \<open>Coded errors\<close>

text \<open>\<open>codedError(message, code, status)\<close>, without the message.\<close>

datatype coded = codedError string nat

end
