(* ===== verification/JsString.thy ===== *)
theory JsString
  imports Prelude
begin

text \<open>
  The JavaScript string operations the code uses, on lists of code units: \<open>startsWith\<close>,
  \<open>includes\<close>, \<open>indexOf\<close>, \<open>slice\<close>, \<open>split\<close>, \<open>join\<close>, \<open>trim\<close>, decimal printing, and the
  facts about them that the components share. A HOL character is one of 256 code units, so
  the strings of the model are those whose code units are below 256.
\<close>

definition starts_with :: "string \<Rightarrow> string \<Rightarrow> bool" where
  "starts_with p s \<longleftrightarrow> take (length p) s = p"

definition ends_with :: "string \<Rightarrow> string \<Rightarrow> bool" where
  "ends_with p s \<longleftrightarrow> length p \<le> length s \<and> drop (length s - length p) s = p"

text \<open>\<open>s.slice(i, i + n)\<close>, which takes the characters i up to i + n, for offsets that are not negative.\<close>

definition substr :: "nat \<Rightarrow> nat \<Rightarrow> 'a list \<Rightarrow> 'a list" where
  "substr i n s = take n (drop i s)"

lemma starts_with_append [simp]: "starts_with p (p @ s)"
  by (simp add: starts_with_def)

lemma starts_with_iff: "starts_with p s \<longleftrightarrow> (\<exists>t. s = p @ t)"
  unfolding starts_with_def by (metis append_eq_conv_conj append_take_drop_id)

lemma ends_with_iff: "ends_with p s \<longleftrightarrow> (\<exists>t. s = t @ p)"
  unfolding ends_with_def
  by (metis append_take_drop_id append_eq_conv_conj diff_add_inverse2 length_append le_add2)

lemma length_substr: "i + n \<le> length s \<Longrightarrow> length (substr i n s) = n"
  by (simp add: substr_def)

lemma substr_append_right:
  "length p \<le> i \<Longrightarrow> substr i n (p @ s) = substr (i - length p) n s"
  by (simp add: substr_def)

lemma substr_append_left: "length s = n \<Longrightarrow> substr 0 n (s @ t) = s"
  by (simp add: substr_def)

lemma substr_update_outside:
  "k < i \<or> i + n \<le> k \<Longrightarrow> substr i n (s[k := c]) = substr i n s"
proof (rule nth_equalityI)
  fix j assume "k < i \<or> i + n \<le> k" "j < length (substr i n (s[k := c]))"
  then show "substr i n (s[k := c]) ! j = substr i n s ! j"
    by (auto simp: substr_def nth_list_update)
qed (simp add: substr_def)

subsection \<open>\<open>indexOf\<close> of a character\<close>

fun index_of :: "'a \<Rightarrow> 'a list \<Rightarrow> nat option" where
  "index_of c [] = None"
| "index_of c (x # xs) = (if x = c then Some 0 else map_option Suc (index_of c xs))"

lemma index_of_None: "index_of c xs = None \<longleftrightarrow> c \<notin> set xs"
  by (induction xs) auto

lemma index_of_Some: "index_of c xs = Some i \<Longrightarrow> i < length xs \<and> xs ! i = c"
  by (induction xs arbitrary: i) (auto split: if_splits)

lemma index_of_nth: "distinct xs \<Longrightarrow> i < length xs \<Longrightarrow> index_of (xs ! i) xs = Some i"
  by (induction xs arbitrary: i) (auto simp: nth_Cons split: nat.splits)

subsection \<open>\<open>split\<close> and \<open>join\<close> on one character\<close>

fun split_on :: "'a \<Rightarrow> 'a list \<Rightarrow> 'a list list" where
  "split_on c [] = [[]]"
| "split_on c (x # xs) =
     (if x = c then [] # split_on c xs
      else case split_on c xs of [] \<Rightarrow> [[x]] | s # ss \<Rightarrow> (x # s) # ss)"

fun join :: "'a list \<Rightarrow> 'a list list \<Rightarrow> 'a list" where
  "join c [] = []"
| "join c [s] = s"
| "join c (s # ss) = s @ c @ join c ss"

lemma split_on_nonempty [simp]: "split_on c s \<noteq> []"
  by (induction s) (auto split: list.splits)

lemma join_Cons_nonempty: "ss \<noteq> [] \<Longrightarrow> join c (s # ss) = s @ c @ join c ss"
  by (cases ss) auto

lemma join_cons_head: "join c ((x # s) # ss) = x # join c (s # ss)"
  by (cases ss) auto

lemma join_split_on: "join [c] (split_on c s) = s"
proof (induction s)
  case (Cons x xs)
  show ?case
  proof (cases "x = c")
    case True
    then show ?thesis using Cons by (simp add: join_Cons_nonempty)
  next
    case False
    obtain s ss where ss: "split_on c xs = s # ss"
      by (cases "split_on c xs") auto
    with False Cons show ?thesis by (simp add: join_cons_head)
  qed
qed simp

lemma split_on_no_sep: "p \<in> set (split_on c s) \<Longrightarrow> c \<notin> set p"
  by (induction s arbitrary: p) (auto split: if_splits list.splits)

lemma split_on_append_no_sep:
  "c \<notin> set p \<Longrightarrow> split_on c (p @ c # s) = p # split_on c s"
  by (induction p) auto

lemma split_on_single: "c \<notin> set p \<Longrightarrow> split_on c p = [p]"
  by (induction p) auto

lemma split_on_join:
  "ss \<noteq> [] \<Longrightarrow> (\<And>p. p \<in> set ss \<Longrightarrow> c \<notin> set p) \<Longrightarrow> split_on c (join [c] ss) = ss"
proof (induction ss)
  case (Cons s ts)
  then show ?case
    by (cases ts) (simp_all add: split_on_append_no_sep split_on_single)
qed simp

subsection \<open>\<open>trim\<close>\<close>

definition is_ws :: "char \<Rightarrow> bool" where
  "is_ws c \<longleftrightarrow> of_char c \<in> ({9, 10, 11, 12, 13, 32, 160} :: nat set)"

definition trim :: "string \<Rightarrow> string" where
  "trim s = rev (dropWhile is_ws (rev (dropWhile is_ws s)))"

subsection \<open>Decimal numerals\<close>

definition dec_digit :: "nat \<Rightarrow> char" where
  "dec_digit d = char_of (48 + d)"

fun show_dec_acc :: "nat \<Rightarrow> string \<Rightarrow> string" where
  "show_dec_acc n out =
     (if n < 10 then dec_digit n # out else show_dec_acc (n div 10) (dec_digit (n mod 10) # out))"

declare show_dec_acc.simps [simp del]

definition show_dec :: "nat \<Rightarrow> string" where
  "show_dec n = show_dec_acc n []"

definition is_dec :: "char \<Rightarrow> bool" where
  "is_dec c \<longleftrightarrow> 48 \<le> (of_char c :: nat) \<and> (of_char c :: nat) \<le> 57"

definition read_dec :: "string \<Rightarrow> nat" where
  "read_dec s = foldl (\<lambda>v c. v * 10 + (of_char c - 48)) 0 s"

text \<open>A decimal numeral as \<open>(0|[1-9][0-9]*)\<close> matches it.\<close>

definition is_numeral_string :: "string \<Rightarrow> bool" where
  "is_numeral_string s \<longleftrightarrow>
     s = ''0'' \<or> (s \<noteq> [] \<and> list_all is_dec s \<and> hd s \<noteq> CHR ''0'')"

lemma char_of_48 [simp]: "char_of (48 :: nat) = CHR ''0''"
  using char_of_char [where 'a = nat, of "CHR ''0''"] by simp

lemma of_char_dec_digit: "d < 10 \<Longrightarrow> (of_char (dec_digit d) :: nat) = 48 + d"
  by (simp add: dec_digit_def)

lemma dec_digit_of_char: "is_dec c \<Longrightarrow> dec_digit (of_char c - 48) = c"
  by (simp add: is_dec_def dec_digit_def)

lemma is_dec_dec_digit: "d < 10 \<Longrightarrow> is_dec (dec_digit d)"
  by (simp add: is_dec_def of_char_dec_digit)

lemma read_show_dec_acc:
  "foldl (\<lambda>v c. v * 10 + (of_char c - 48)) 0 (show_dec_acc n out)
     = foldl (\<lambda>v c. v * 10 + (of_char c - 48)) n out"
proof (induction n out rule: show_dec_acc.induct)
  case (1 n out)
  show ?case
  proof (cases "n < 10")
    case True
    then show ?thesis by (simp add: show_dec_acc.simps [of n] of_char_dec_digit)
  next
    case False
    then have "foldl (\<lambda>v c. v * 10 + (of_char c - 48)) 0 (show_dec_acc n out)
        = foldl (\<lambda>v c. v * 10 + (of_char c - 48)) (n div 10 * 10 + n mod 10) out"
      using 1 by (simp add: show_dec_acc.simps [of n] of_char_dec_digit)
    then show ?thesis by simp
  qed
qed

lemma read_show_dec [simp]: "read_dec (show_dec n) = n"
  by (simp add: read_dec_def show_dec_def read_show_dec_acc)

lemma show_dec_acc_snoc:
  "d < 10 \<Longrightarrow> 0 < v \<Longrightarrow> show_dec_acc (v * 10 + d) out = show_dec_acc v (dec_digit d # out)"
  by (subst show_dec_acc.simps) simp

lemma show_dec_acc_fold:
  "list_all is_dec s \<Longrightarrow> 0 < v \<Longrightarrow>
   show_dec_acc (foldl (\<lambda>v c. v * 10 + (of_char c - 48)) v s) out = show_dec_acc v (s @ out)"
proof (induction s arbitrary: v out rule: rev_induct)
  case (snoc c s)
  let ?w = "foldl (\<lambda>v c. v * 10 + (of_char c - 48)) v s"
  have pos: "0 < foldl (\<lambda>v c. v * 10 + (of_char c - 48)) u t" if "0 < u" for u :: nat and t
    using that by (induction t arbitrary: u) auto
  have c: "is_dec c" "list_all is_dec s" using snoc.prems by auto
  then have "of_char c - (48::nat) < 10" by (auto simp: is_dec_def)
  then have "show_dec_acc (?w * 10 + (of_char c - 48)) out = show_dec_acc ?w (c # out)"
    using show_dec_acc_snoc [of "of_char c - 48" ?w out] pos [OF snoc.prems(2), of s] c
    by (simp add: dec_digit_of_char)
  then show ?case using snoc.IH [OF c(2) snoc.prems(2)] by simp
qed simp

lemma show_read_dec: "is_numeral_string s \<Longrightarrow> show_dec (read_dec s) = s"
proof (cases s)
  case (Cons c cs)
  assume num: "is_numeral_string s"
  show ?thesis
  proof (cases "s = ''0''")
    case True
    then show ?thesis by (simp add: read_dec_def show_dec_def show_dec_acc.simps dec_digit_def)
  next
    case False
    with num Cons have c: "is_dec c" "list_all is_dec cs" "c \<noteq> CHR ''0''"
      by (auto simp: is_numeral_string_def)
    have "of_char c \<noteq> (48::nat)"
    proof
      assume "of_char c = (48::nat)"
      then have "char_of (of_char c :: nat) = char_of (48::nat)" by simp
      then show False using c(3) by simp
    qed
    then have d: "0 < of_char c - (48::nat)" "of_char c - (48::nat) < 10"
      using c(1) by (auto simp: is_dec_def)
    then have "show_dec_acc (of_char c - 48) cs = c # cs"
      using c(1) by (simp add: show_dec_acc.simps [of "of_char c - 48"] dec_digit_of_char)
    then show ?thesis
      using show_dec_acc_fold [OF c(2) d(1), of "[]"] Cons
      by (simp add: read_dec_def show_dec_def)
  qed
qed (simp add: is_numeral_string_def)

text \<open>A string that counts as set: not null and not empty.\<close>

definition truthy :: "string option \<Rightarrow> string option" where
  "truthy s = (case s of Some [] \<Rightarrow> None | _ \<Rightarrow> s)"

subsection \<open>\<open>split\<close> on a string, and case\<close>

text \<open>\<open>s.split(sep)\<close> for a separator that is not empty.\<close>

fun split_str :: "string \<Rightarrow> string \<Rightarrow> string list" where
  "split_str sep [] = [[]]"
| "split_str sep (c # s) =
     (if starts_with sep (c # s) then [] # split_str sep (drop (length sep - 1) s)
      else case split_str sep s of [] \<Rightarrow> [[c]] | p # ps \<Rightarrow> (c # p) # ps)"

lemma split_str_nonempty [simp]: "split_str sep s \<noteq> []"
  by (induction sep s rule: split_str.induct) (auto split: list.splits)

lemma split_str_absent:
  assumes "\<And>i. \<not> starts_with sep (drop i s)"
  shows "split_str sep s = [s]"
  using assms
proof (induction s)
  case (Cons c s)
  have "\<not> starts_with sep (drop i s)" for i using Cons.prems [of "Suc i"] by simp
  with Cons.IH have "split_str sep s = [s]" by blast
  with Cons.prems [of 0] show ?case by simp
qed simp

text \<open>\<open>toLowerCase\<close> of the code units below 256.\<close>

definition lower_unit :: "char \<Rightarrow> char" where
  "lower_unit c =
     (let n = of_char c :: nat
      in if (65 \<le> n \<and> n \<le> 90) \<or> (192 \<le> n \<and> n \<le> 222 \<and> n \<noteq> 215) then char_of (n + 32) else c)"

definition toLowerCase :: "string \<Rightarrow> string" where
  "toLowerCase s = map lower_unit s"

lemma toLowerCase_append [simp]: "toLowerCase (s @ t) = toLowerCase s @ toLowerCase t"
  by (simp add: toLowerCase_def)

lemma lower_unit_id: "(of_char c :: nat) < 65 \<Longrightarrow> lower_unit c = c"
  by (simp add: lower_unit_def)

lemma lower_unit_idem [simp]: "lower_unit (lower_unit c) = lower_unit c"
proof -
  have "(of_char c :: nat) < 256" by (rule nat_of_char_less_256)
  then show ?thesis by (auto simp: lower_unit_def Let_def simp del: char_of_def)
qed

lemma toLowerCase_idem [simp]: "toLowerCase (toLowerCase s) = toLowerCase s"
  by (simp add: toLowerCase_def)

subsection \<open>Numbers\<close>

text \<open>\<open>Number.isSafeInteger\<close>.\<close>

definition isSafeInteger :: "int \<Rightarrow> bool" where
  "isSafeInteger n \<longleftrightarrow> - (2 ^ 53 - 1) \<le> n \<and> n \<le> 2 ^ 53 - 1"

end
