(* ===== verification/Crc32.thy ===== *)
theory Crc32
  imports Prelude "HOL-Library.Word"
begin

text \<open>
  CRC-32 as \<open>packages/types/src/credentials.ts\<close> computes it, and the two injectivity facts that
  make it detect every change of one character: a step loses nothing of the register, and
  nothing of the character.
\<close>

unbundle bit_operations_syntax

subsection \<open>CRC-32\<close>

text \<open>\<open>CRC_TABLE[n]\<close>, as a function of its index: the eight shift steps the code tabulates.\<close>

definition crc_bit_step :: "32 word \<Rightarrow> 32 word" where
  "crc_bit_step c = (if bit c 0 then 0xedb88320 XOR drop_bit 1 c else drop_bit 1 c)"

definition CRC_TABLE :: "32 word \<Rightarrow> 32 word" where
  "CRC_TABLE n = (crc_bit_step ^^ 8) n"

definition crc_step :: "32 word \<Rightarrow> char \<Rightarrow> 32 word" where
  "crc_step crc ch = CRC_TABLE ((crc XOR of_nat (of_char ch)) AND 0xff) XOR drop_bit 8 crc"

definition crc32 :: "string \<Rightarrow> 32 word" where
  "crc32 text = foldl crc_step 0xffffffff text XOR 0xffffffff"

lemma word_xor_eq_0: "x XOR y = 0 \<Longrightarrow> x = y" for x y :: "32 word"
proof -
  assume "x XOR y = 0"
  then have "x XOR (x XOR y) = x" by simp
  then show "x = y" by (simp add: xor.assoc [symmetric])
qed

lemma word_xor_cancel: "x XOR z = y XOR z \<Longrightarrow> x = y" for x y z :: "32 word"
proof -
  assume "x XOR z = y XOR z"
  then have "(x XOR z) XOR z = (y XOR z) XOR z" by simp
  then show "x = y" by (simp add: xor.assoc)
qed

lemma crc_bit_step_xor: "crc_bit_step (x XOR y) = crc_bit_step x XOR crc_bit_step y"
  by (rule bit_eqI) (auto simp: crc_bit_step_def bit_simps)

lemma crc_table_xor: "CRC_TABLE (x XOR y) = CRC_TABLE x XOR CRC_TABLE y"
proof -
  have "(crc_bit_step ^^ n) (x XOR y) = (crc_bit_step ^^ n) x XOR (crc_bit_step ^^ n) y" for n
    by (induction n) (simp_all add: crc_bit_step_xor)
  then show ?thesis by (simp add: CRC_TABLE_def)
qed

lemma crc_bit_step_zero: "crc_bit_step z = 0 \<Longrightarrow> z = 0"
proof -
  assume z: "crc_bit_step z = 0"
  have "\<not> bit z 0"
  proof
    assume b: "bit z 0"
    then have "bit (crc_bit_step z) 31"
      by (auto simp: crc_bit_step_def bit_simps dest: bit_imp_le_length)
    with z show False by simp
  qed
  with z have d: "drop_bit 1 z = 0" by (simp add: crc_bit_step_def)
  show "z = 0"
  proof (rule bit_eqI)
    fix n
    show "bit z n = bit 0 n"
    proof (cases n)
      case (Suc m)
      have "bit (drop_bit 1 z) m = bit z n" by (simp add: bit_simps Suc)
      with d show ?thesis by simp
    qed (use \<open>\<not> bit z 0\<close> in simp)
  qed
qed

lemma inj_crc_bit_step: "crc_bit_step x = crc_bit_step y \<Longrightarrow> x = y"
  using crc_bit_step_zero [of "x XOR y"] by (simp add: crc_bit_step_xor word_xor_eq_0)

lemma crc_bit_step_shift:
  "k + 24 < 32 \<Longrightarrow> take_bit 24 r = r \<Longrightarrow> crc_bit_step (push_bit (Suc k) r) = push_bit k r"
proof -
  assume k: "k + 24 < 32" and r: "take_bit 24 r = r"
  have hi: "\<not> bit r n" if "24 \<le> n" for n
    using that by (subst r [symmetric]) (simp add: bit_take_bit_iff)
  show ?thesis
    using k hi [of "_ - k"] by (intro bit_eqI) (auto simp: crc_bit_step_def bit_simps simp del: push_bit_Suc intro: ccontr)
qed

lemma crc_table_shift: "take_bit 24 r = r \<Longrightarrow> CRC_TABLE (push_bit 8 r) = r"
proof -
  assume r: "take_bit 24 r = r"
  have "(crc_bit_step ^^ k) (push_bit k r) = r" if "k \<le> 8" for k
    using that
  proof (induction k)
    case (Suc k)
    then have "crc_bit_step (push_bit (Suc k) r) = push_bit k r"
      by (intro crc_bit_step_shift r) simp
    with Suc show ?case by (simp add: funpow_Suc_right del: funpow.simps push_bit_Suc)
  qed simp
  then show ?thesis by (simp add: CRC_TABLE_def)
qed

lemma inj_crc_table: "CRC_TABLE x = CRC_TABLE y \<Longrightarrow> x = y"
proof -
  have "(crc_bit_step ^^ n) x = (crc_bit_step ^^ n) y \<Longrightarrow> x = y" for n
    by (induction n) (auto dest: inj_crc_bit_step)
  then show "CRC_TABLE x = CRC_TABLE y \<Longrightarrow> x = y" unfolding CRC_TABLE_def .
qed

text \<open>The top byte of a table entry determines its index.\<close>

lemma crc_table_top_byte:
  assumes "take_bit 8 x = x" "take_bit 8 y = y" "drop_bit 24 (CRC_TABLE x) = drop_bit 24 (CRC_TABLE y)"
  shows "x = y"
proof -
  let ?z = "x XOR y" let ?r = "CRC_TABLE ?z"
  have "drop_bit 24 ?r = 0" using assms(3) by (simp add: crc_table_xor)
  then have "take_bit 24 ?r = ?r" 
    by (metis bits_ident add.right_neutral push_bit_of_0 add_0)
  then have "CRC_TABLE (push_bit 8 ?r) = CRC_TABLE ?z" by (rule crc_table_shift)
  then have sh: "push_bit 8 ?r = ?z" by (rule inj_crc_table)
  have "take_bit 8 ?z = ?z" using assms by simp
  then have "?z = 0" using sh by (metis take_bit_push_bit take_bit_0 push_bit_of_0 diff_self_eq_0)
  then show ?thesis by (rule word_xor_eq_0)
qed


lemma and_0xff: "x AND 0xff = take_bit 8 x" for x :: "32 word"
  by (simp add: take_bit_eq_mask mask_eq_exp_minus_1)

lemma crc_step_inj_char: "crc_step c a = crc_step c b \<Longrightarrow> a = b"
proof -
  let ?A = "of_nat (of_char a) :: 32 word" and ?B = "of_nat (of_char b) :: 32 word"
  assume "crc_step c a = crc_step c b"
  then have "CRC_TABLE ((c XOR ?A) AND 0xff) = CRC_TABLE ((c XOR ?B) AND 0xff)"
    unfolding crc_step_def by (rule word_xor_cancel)
  then have "(c XOR ?A) AND 0xff = (c XOR ?B) AND 0xff" by (rule inj_crc_table)
  then have "take_bit 8 (c XOR ?A) = take_bit 8 (c XOR ?B)"
    by (simp add: take_bit_eq_mask mask_eq_exp_minus_1)
  then have "take_bit 8 ?A XOR take_bit 8 c = take_bit 8 ?B XOR take_bit 8 c"
    by (simp add: take_bit_xor xor.commute)
  then have "take_bit 8 ?A = take_bit 8 ?B" by (rule word_xor_cancel)
  then have "?A = ?B" by (simp add: take_bit_of_nat take_bit_nat_eq_self)
  then have "unat ?A = unat ?B" by simp
  moreover have "unat (of_nat (of_char ch) :: 32 word) = of_char ch" for ch
    using less_trans [OF nat_of_char_less_256 [of ch], of "4294967296"] by (simp add: unat_of_nat take_bit_eq_mod)
  ultimately have "(of_char a :: nat) = of_char b" by (simp only:)
  then show "a = b" by simp
qed

lemma crc_step_inj_state: "crc_step c a = crc_step d a \<Longrightarrow> c = d"
proof -
  let ?A = "of_nat (of_char a) :: 32 word"
  let ?x = "(c XOR ?A) AND 0xff" and ?y = "(d XOR ?A) AND 0xff"
  assume eq: "crc_step c a = crc_step d a"
  have hi: "drop_bit 24 (drop_bit 8 w) = 0" for w :: "32 word"
    by (rule bit_eqI) (auto simp: bit_simps dest: bit_imp_le_length)
  have top: "drop_bit 24 (CRC_TABLE ?x) = drop_bit 24 (CRC_TABLE ?y)"
    using arg_cong [OF eq, of "drop_bit 24"] by (simp add: crc_step_def drop_bit_xor hi del: drop_bit_drop_bit)
  have lows: "take_bit 8 ?x = ?x" "take_bit 8 ?y = ?y"
    unfolding and_0xff by simp_all
  have xy: "?x = ?y" by (rule crc_table_top_byte [OF lows top])
  then have "take_bit 8 (c XOR ?A) = take_bit 8 (d XOR ?A)" unfolding and_0xff .
  then have "take_bit 8 c XOR take_bit 8 ?A = take_bit 8 d XOR take_bit 8 ?A" unfolding take_bit_xor .
  then have lo: "take_bit 8 c = take_bit 8 d" by (rule word_xor_cancel)
  have "CRC_TABLE ?y XOR drop_bit 8 c = CRC_TABLE ?y XOR drop_bit 8 d"
    using eq unfolding crc_step_def by (simp only: xy)
  then have "drop_bit 8 c XOR CRC_TABLE ?y = drop_bit 8 d XOR CRC_TABLE ?y"
    unfolding xor.commute [of "CRC_TABLE ?y"] .
  then have "drop_bit 8 c = drop_bit 8 d" by (rule word_xor_cancel)
  then have "push_bit 8 (drop_bit 8 c) + take_bit 8 c = push_bit 8 (drop_bit 8 d) + take_bit 8 d"
    using lo by (simp only:)
  then show "c = d" by (simp only: bits_ident)
qed

lemma foldl_crc_step_inj: "foldl crc_step c xs = foldl crc_step d xs \<Longrightarrow> c = d"
  by (induction xs arbitrary: c d) (auto dest: crc_step_inj_state)

lemma crc32_detects_one_change:
  assumes "i < length s" "c \<noteq> s ! i"
  shows "crc32 (s[i := c]) \<noteq> crc32 s"
proof
  assume "crc32 (s[i := c]) = crc32 s"
  then have "foldl crc_step 0xffffffff (s[i := c]) = foldl crc_step 0xffffffff s"
    unfolding crc32_def by (rule word_xor_cancel)
  moreover have "s = take i s @ s ! i # drop (Suc i) s" "s[i := c] = take i s @ c # drop (Suc i) s"
    using assms(1) by (auto simp: id_take_nth_drop upd_conv_take_nth_drop)
  ultimately have "foldl crc_step (crc_step (foldl crc_step 0xffffffff (take i s)) c) (drop (Suc i) s)
      = foldl crc_step (crc_step (foldl crc_step 0xffffffff (take i s)) (s ! i)) (drop (Suc i) s)"
    by (metis foldl_append foldl_Cons)
  then show False using assms(2) by (blast dest: foldl_crc_step_inj crc_step_inj_char)
qed

end
