(* ===== verification/Credentials.thy ===== *)
theory Credentials
  imports JsString Crc32
begin

text \<open>
  Credentials (\<open>packages/types/src/credentials.ts\<close>): the base62 codec, CRC-32, the \<open>ar_\<close> family's
  encoder, the classifier of both families and the masking used for display.
  BigInts are \<open>int\<close> or \<open>nat\<close>; the CRC register is a 32-bit word. A thrown \<open>Error\<close> is
  \<open>Inl\<close> with its message.
\<close>

unbundle bit_operations_syntax

datatype credential_kind = KWorkspace | KAgent | KNode | KObserver | KWebhook

datatype parsed_credential =
    Legacy credential_kind
  | Ar credential_kind (pc_workspaceId: string) (pc_tag: string) (pc_keyVersion: char)

datatype credential_family = FLegacy | FAr

fun LEGACY_CREDENTIAL_PREFIXES :: "credential_kind \<Rightarrow> string" where
  "LEGACY_CREDENTIAL_PREFIXES KWorkspace = ''rk_live_''"
| "LEGACY_CREDENTIAL_PREFIXES KAgent = ''at_live_''"
| "LEGACY_CREDENTIAL_PREFIXES KNode = ''nt_live_''"
| "LEGACY_CREDENTIAL_PREFIXES KObserver = ''ot_live_''"
| "LEGACY_CREDENTIAL_PREFIXES KWebhook = ''wh_live_''"

fun AR_KIND_CODES :: "credential_kind \<Rightarrow> string" where
  "AR_KIND_CODES KWorkspace = ''ws''"
| "AR_KIND_CODES KAgent = ''ag''"
| "AR_KIND_CODES KNode = ''nd''"
| "AR_KIND_CODES KObserver = ''ob''"
| "AR_KIND_CODES KWebhook = ''wh''"

definition KINDS :: "credential_kind list" where
  "KINDS = [KWorkspace, KAgent, KNode, KObserver, KWebhook]"

definition KIND_BY_CODE :: "string \<Rightarrow> credential_kind option" where
  "KIND_BY_CODE code = first_row (filter (\<lambda>k. AR_KIND_CODES k = code) KINDS)"

definition AR_WORKSPACE_ID_LENGTH :: nat where "AR_WORKSPACE_ID_LENGTH = 11"
definition AR_SECRET_LENGTH :: nat where "AR_SECRET_LENGTH = 43"
definition AR_CHECKSUM_LENGTH :: nat where "AR_CHECKSUM_LENGTH = 6"
definition AR_SECRET_BYTES :: nat where "AR_SECRET_BYTES = 32"
definition MAX_SNOWFLAKE :: nat where "MAX_SNOWFLAKE = 2 ^ 64 - 1"

lemmas ar_lengths =
  AR_WORKSPACE_ID_LENGTH_def AR_SECRET_LENGTH_def AR_CHECKSUM_LENGTH_def AR_SECRET_BYTES_def

subsection \<open>base62\<close>

definition BASE62 :: string where
  "BASE62 = ''0123456789ABCDEFGHIJKLMNOPQRSTUVWXYZabcdefghijklmnopqrstuvwxyz''"

fun base62_loop :: "nat \<Rightarrow> string \<Rightarrow> string" where
  "base62_loop rest out =
     (if rest = 0 then out else base62_loop (rest div 62) (BASE62 ! (rest mod 62) # out))"

declare base62_loop.simps [simp del]

lemma base62_loop_0 [simp]: "base62_loop 0 out = out"
  by (simp add: base62_loop.simps)

definition base62Encode :: "int \<Rightarrow> nat \<Rightarrow> string + string" where
  "base62Encode value width =
     (if value < 0 then Inl ''base62 encodes non-negative integers''
      else let out = base62_loop (nat value) []
           in if length out > width then Inl ''Value does not fit base62 characters''
              else Inr (replicate (width - length out) CHR ''0'' @ out))"

fun base62_digits :: "nat \<Rightarrow> string \<Rightarrow> nat option" where
  "base62_digits value [] = Some value"
| "base62_digits value (c # cs) =
     (case index_of c BASE62 of None \<Rightarrow> None | Some d \<Rightarrow> base62_digits (value * 62 + d) cs)"

definition base62Decode :: "string \<Rightarrow> string + nat" where
  "base62Decode text = (case base62_digits 0 text of None \<Rightarrow> Inl ''Not base62'' | Some v \<Rightarrow> Inr v)"

definition is_base62 :: "char \<Rightarrow> bool" where
  "is_base62 c \<longleftrightarrow> c \<in> set BASE62"

lemma length_BASE62: "length BASE62 = 62"
  by (simp add: BASE62_def)

lemma distinct_BASE62: "distinct BASE62"
  by (simp add: BASE62_def)

lemma index_of_BASE62: "d < 62 \<Longrightarrow> index_of (BASE62 ! d) BASE62 = Some d"
  by (rule index_of_nth [OF distinct_BASE62]) (simp add: length_BASE62)

lemma is_base62_nth: "d < 62 \<Longrightarrow> is_base62 (BASE62 ! d)"
  by (simp add: is_base62_def length_BASE62)

lemma zero_digit: "BASE62 ! 0 = CHR ''0''" "index_of (CHR ''0'') BASE62 = Some 0"
  by (simp_all add: BASE62_def)

lemma base62_digits_loop: "base62_digits 0 (base62_loop n out) = base62_digits n out"
proof (induction n out rule: base62_loop.induct)
  case (1 n out)
  show ?case
  proof (cases "n = 0")
    case True
    then show ?thesis by (simp add: base62_loop.simps)
  next
    case False
    then have "base62_digits 0 (base62_loop n out) = base62_digits (n div 62) (BASE62 ! (n mod 62) # out)"
      using 1 by (simp add: base62_loop.simps [of n])
    then show ?thesis by (simp add: index_of_BASE62)
  qed
qed

lemma base62_digits_zeros: "base62_digits 0 (replicate k CHR ''0'' @ s) = base62_digits 0 s"
  by (induction k) (simp_all add: zero_digit)

lemma length_base62_loop: "n < 62 ^ w \<Longrightarrow> length (base62_loop n out) \<le> w + length out"
proof (induction n out arbitrary: w rule: base62_loop.induct)
  case (1 n out)
  show ?case
  proof (cases "n = 0")
    case True
    then show ?thesis by (simp add: base62_loop.simps)
  next
    case False
    with "1.prems" obtain v where w: "w = Suc v" by (cases w) auto
    with "1.prems" have "n div 62 < 62 ^ v" by (simp add: less_mult_imp_div_less mult.commute)
    with "1.IH" [OF False] w False show ?thesis by (simp add: base62_loop.simps [of n])
  qed
qed

lemma base62_loop_alphabet:
  "list_all is_base62 out \<Longrightarrow> list_all is_base62 (base62_loop n out)"
proof (induction n out rule: base62_loop.induct)
  case (1 n out)
  then show ?case
    by (cases "n = 0") (simp_all add: base62_loop.simps [of n] is_base62_nth)
qed

lemma base62Encode_ok:
  assumes "v < 62 ^ w"
  obtains s where "base62Encode (int v) w = Inr s" "length s = w" "list_all is_base62 s"
    "base62Decode s = Inr v"
proof
  let ?out = "base62_loop v []"
  let ?s = "replicate (w - length ?out) CHR ''0'' @ ?out"
  have len: "length ?out \<le> w" using length_base62_loop [OF assms, of "[]"] by simp
  then show "base62Encode (int v) w = Inr ?s" by (simp add: base62Encode_def Let_def)
  show "length ?s = w" using len by simp
  have "is_base62 CHR ''0''" using is_base62_nth [of 0] by (simp add: zero_digit)
  then have "list_all is_base62 (replicate (w - length ?out) CHR ''0'')"
    by (simp add: list_all_length)
  then show "list_all is_base62 ?s" by (simp add: base62_loop_alphabet)
  show "base62Decode ?s = Inr v"
    by (simp add: base62Decode_def base62_digits_zeros base62_digits_loop)
qed

lemma base62_digits_inj:
  "base62_digits v s = Some r \<Longrightarrow> base62_digits u t = Some r \<Longrightarrow> length s = length t \<Longrightarrow> v = u \<and> s = t"
proof (induction s arbitrary: v u t)
  case Nil
  then show ?case by simp
next
  case (Cons c cs)
  then obtain c' cs' where t: "t = c' # cs'" by (cases t) auto
  from Cons.prems t obtain d d' where
    d: "index_of c BASE62 = Some d" "base62_digits (v * 62 + d) cs = Some r" and
    d': "index_of c' BASE62 = Some d'" "base62_digits (u * 62 + d') cs' = Some r"
    by (auto split: option.splits)
  have lt: "d < 62" "d' < 62"
    using index_of_Some [OF d(1)] index_of_Some [OF d'(1)] by (simp_all add: length_BASE62)
  have "v * 62 + d = u * 62 + d' \<and> cs = cs'"
    using Cons.IH [OF d(2) d'(2)] Cons.prems(3) t by simp
  then have eq: "v * 62 + d = u * 62 + d'" and cs: "cs = cs'" by simp_all
  have "d = (v * 62 + d) mod 62" using lt by simp
  also have "\<dots> = (u * 62 + d') mod 62" unfolding eq ..
  also have "\<dots> = d'" using lt by simp
  finally have d_eq: "d = d'" .
  have "BASE62 ! d = c" "BASE62 ! d' = c'"
    using index_of_Some [OF d(1)] index_of_Some [OF d'(1)] by simp_all
  then show ?case using t cs eq d_eq by simp
qed

lemma base62Decode_inj:
  "base62Decode s = Inr v \<Longrightarrow> base62Decode t = Inr v \<Longrightarrow> length s = length t \<Longrightarrow> s = t"
  by (auto simp: base62Decode_def split: option.splits dest: base62_digits_inj)


subsection \<open>The checksum\<close>

definition arChecksum :: "string \<Rightarrow> string + string" where
  "arChecksum body = base62Encode (uint (crc32 body)) AR_CHECKSUM_LENGTH"

subsection \<open>Workspace ids\<close>

definition is_snowflake_text :: "string \<Rightarrow> bool" where
  "is_snowflake_text s \<longleftrightarrow> is_numeral_string s \<and> length s \<le> 20"

definition encodeArWorkspaceId :: "string \<Rightarrow> string + string" where
  "encodeArWorkspaceId workspaceId =
     (let value = (if is_snowflake_text workspaceId then int (read_dec workspaceId) else - 1)
      in if value < 0 \<or> value > int MAX_SNOWFLAKE then Inl ''Workspace id is not a 64-bit snowflake''
         else base62Encode value AR_WORKSPACE_ID_LENGTH)"

definition isArWorkspaceId :: "string \<Rightarrow> bool" where
  "isArWorkspaceId workspaceId = (case encodeArWorkspaceId workspaceId of Inl _ \<Rightarrow> False | Inr _ \<Rightarrow> True)"

definition bytesToBigInt :: "8 word list \<Rightarrow> int" where
  "bytesToBigInt bytes = foldl (\<lambda>value byte. push_bit 8 value OR uint byte) 0 bytes"

subsection \<open>Encoding and parsing\<close>

definition is_ar_tag :: "string \<Rightarrow> bool" where
  "is_ar_tag tag \<longleftrightarrow>
     length tag = 11 \<and> list_all is_base62 (tl tag)
       \<and> 97 \<le> (of_char (hd tag) :: nat) \<and> (of_char (hd tag) :: nat) \<le> 122"

definition encodeArCredential ::
  "credential_kind \<Rightarrow> string \<Rightarrow> string \<Rightarrow> 8 word list \<Rightarrow> string + string" where
  "encodeArCredential kind workspaceId tag secret =
     (if \<not> is_ar_tag tag then Inl ''A credential tag is a key version letter plus 10 base62 characters''
      else if length secret \<noteq> AR_SECRET_BYTES then Inl ''A credential secret is 32 bytes''
      else case encodeArWorkspaceId workspaceId of Inl e \<Rightarrow> Inl e
      | Inr wsid \<Rightarrow>
        (case base62Encode (bytesToBigInt secret) AR_SECRET_LENGTH of Inl e \<Rightarrow> Inl e
         | Inr sec62 \<Rightarrow>
           (let body = ''ar_'' @ AR_KIND_CODES kind @ ''_'' @ wsid @ ''_'' @ tag @ ''_'' @ sec62
            in case arChecksum body of Inl e \<Rightarrow> Inl e | Inr crc \<Rightarrow> Inr (body @ crc))))"

text \<open>
  The regular expression \<open>AR\<close>: every field has a fixed width, so it matches by position. The
  result is its five groups.
\<close>

definition AR_exec :: "string \<Rightarrow> (string \<times> string \<times> string \<times> string \<times> string) option" where
  "AR_exec t =
     (if length t = 79 \<and> substr 0 3 t = ''ar_'' \<and> substr 3 2 t \<in> set (map AR_KIND_CODES KINDS)
         \<and> substr 5 1 t = ''_'' \<and> list_all is_base62 (substr 6 11 t)
         \<and> substr 17 1 t = ''_'' \<and> is_ar_tag (substr 18 11 t)
         \<and> substr 29 1 t = ''_'' \<and> list_all is_base62 (substr 30 43 t) \<and> list_all is_base62 (substr 73 6 t)
      then Some (substr 3 2 t, substr 6 11 t, substr 18 11 t, substr 30 43 t, substr 73 6 t)
      else None)"

definition legacy_kind :: "string \<Rightarrow> credential_kind option" where
  "legacy_kind token = first_row (filter (\<lambda>k. starts_with (LEGACY_CREDENTIAL_PREFIXES k) token) KINDS)"

definition parseCredential :: "string \<Rightarrow> parsed_credential option" where
  "parseCredential token =
     (case AR_exec token of
        Some (code, wsid, tag, secret, crc) \<Rightarrow>
          (if arChecksum (take (length token - AR_CHECKSUM_LENGTH) token) \<noteq> Inr crc then None
           else case base62Decode wsid of Inl _ \<Rightarrow> None
           | Inr workspace \<Rightarrow>
             if workspace > MAX_SNOWFLAKE then None
             else map_option (\<lambda>kind. Ar kind (show_dec workspace) tag (hd tag)) (KIND_BY_CODE code))
      | None \<Rightarrow> map_option Legacy (legacy_kind token))"

fun pc_kind :: "parsed_credential \<Rightarrow> credential_kind" where
  "pc_kind (Legacy k) = k"
| "pc_kind (Ar k _ _ _) = k"

fun pc_family :: "parsed_credential \<Rightarrow> credential_family" where
  "pc_family (Legacy _) = FLegacy"
| "pc_family (Ar _ _ _ _) = FAr"

definition credentialKind :: "string \<Rightarrow> credential_kind option" where
  "credentialKind token = map_option pc_kind (parseCredential token)"

definition credentialFamily :: "string \<Rightarrow> credential_family option" where
  "credentialFamily token = map_option pc_family (parseCredential token)"

definition credentialWorkspaceId :: "string \<Rightarrow> string option" where
  "credentialWorkspaceId token =
     (case parseCredential token of Some (Ar _ w _ _) \<Rightarrow> Some w | _ \<Rightarrow> None)"

definition isWorkspaceKey :: "string \<Rightarrow> bool" where
  "isWorkspaceKey token \<longleftrightarrow> credentialKind token = Some KWorkspace"

definition isObserverToken :: "string \<Rightarrow> bool" where
  "isObserverToken token \<longleftrightarrow> credentialKind token = Some KObserver"

definition maskCredential :: "string \<Rightarrow> string" where
  "maskCredential token =
     (if credentialFamily token = Some FAr
      then let end = length token - AR_CHECKSUM_LENGTH; start = end - AR_SECRET_LENGTH
           in take start token @ substr start 4 token @ ''...'' @ substr (end - 4) 4 token
      else if length token \<le> 16 then token
      else take 12 token @ ''...'' @ drop (length token - 4) token)"

subsection \<open>The shape of an encoded credential\<close>

lemma arChecksum_Inr:
  obtains s where "arChecksum body = Inr s" "length s = 6" "list_all is_base62 s"
    "base62Decode s = Inr (unat (crc32 body))"
proof -
  have "unat (crc32 body) < 2 ^ 32" using unsigned_less [of "crc32 body", where 'a = nat] by simp
  then have lt: "unat (crc32 body) < 62 ^ 6" by simp
  obtain s where "base62Encode (int (unat (crc32 body))) 6 = Inr s" "length s = 6"
    "list_all is_base62 s" "base62Decode s = Inr (unat (crc32 body))"
    by (rule base62Encode_ok [OF lt])
  then show thesis by (intro that [of s]) (simp_all add: arChecksum_def AR_CHECKSUM_LENGTH_def)
qed

lemma arChecksum_eqD: "arChecksum a = arChecksum b \<Longrightarrow> crc32 a = crc32 b"
proof -
  assume eq: "arChecksum a = arChecksum b"
  obtain s t where "arChecksum a = Inr s" "base62Decode s = Inr (unat (crc32 a))"
    "arChecksum b = Inr t" "base62Decode t = Inr (unat (crc32 b))"
    by (metis arChecksum_Inr)
  with eq have "unat (crc32 a) = unat (crc32 b)" by simp
  then show "crc32 a = crc32 b" by (simp add: word_unat_eq_iff)
qed

lemma bytesToBigInt_bounds: "0 \<le> bytesToBigInt bs \<and> bytesToBigInt bs < 2 ^ (8 * length bs)"
proof (induction bs rule: rev_induct)
  case Nil
  then show ?case by (simp add: bytesToBigInt_def)
next
  case (snoc b bs)
  let ?v = "bytesToBigInt bs" and ?k = "8 * length bs + 8"
  have step: "bytesToBigInt (bs @ [b]) = push_bit 8 ?v OR uint b" by (simp add: bytesToBigInt_def)
  have v: "push_bit 8 ?v < 2 ^ ?k" using snoc by (simp add: push_bit_eq_mult power_add)
  have "uint b < 2 ^ 8" using uint_lt2p [of b] by simp
  also have "(2::int) ^ 8 \<le> 2 ^ ?k" by (rule power_increasing) auto
  finally have "push_bit 8 ?v OR uint b < 2 ^ ?k" using snoc v by (intro OR_upper) auto
  moreover have "0 \<le> push_bit 8 ?v OR uint b" using snoc by simp
  ultimately show ?case using step by (simp add: add.commute)
qed

lemma secret_base62:
  assumes "length secret = AR_SECRET_BYTES"
  obtains s where "base62Encode (bytesToBigInt secret) AR_SECRET_LENGTH = Inr s" "length s = 43"
    "list_all is_base62 s"
proof -
  have b: "0 \<le> bytesToBigInt secret" "bytesToBigInt secret < 2 ^ 256"
    using bytesToBigInt_bounds [of secret] assms by (simp_all add: AR_SECRET_BYTES_def)
  then have "nat (bytesToBigInt secret) < 62 ^ 43" by (simp add: nat_less_iff)
  from base62Encode_ok [OF this] obtain s where
    "base62Encode (int (nat (bytesToBigInt secret))) 43 = Inr s" "length s = 43" "list_all is_base62 s"
    by metis
  then show thesis using b by (intro that [of s]) (simp_all add: AR_SECRET_LENGTH_def)
qed

lemma workspace_base62:
  assumes "encodeArWorkspaceId w = Inr wsid"
  shows "length wsid = 11" "list_all is_base62 wsid" "base62Decode wsid = Inr (read_dec w)"
    "read_dec w \<le> MAX_SNOWFLAKE" "is_numeral_string w"
proof -
  from assms have num: "is_snowflake_text w" "read_dec w \<le> MAX_SNOWFLAKE"
    and enc: "base62Encode (int (read_dec w)) 11 = Inr wsid"
    by (auto simp: encodeArWorkspaceId_def Let_def AR_WORKSPACE_ID_LENGTH_def split: if_splits)
  have "read_dec w < 62 ^ 11" using num(2) by (simp add: MAX_SNOWFLAKE_def)
  from base62Encode_ok [OF this] enc
  show "length wsid = 11" "list_all is_base62 wsid" "base62Decode wsid = Inr (read_dec w)"
    by (metis sum.inject(2))+
  show "read_dec w \<le> MAX_SNOWFLAKE" "is_numeral_string w"
    using num by (simp_all add: is_snowflake_text_def)
qed

lemma length_AR_KIND_CODES [simp]: "length (AR_KIND_CODES k) = 2"
  by (cases k) simp_all

lemma KINDS_all: "k \<in> set KINDS"
  by (cases k) (simp_all add: KINDS_def)

lemma KIND_BY_CODE_code [simp]: "KIND_BY_CODE (AR_KIND_CODES k) = Some k"
  by (cases k) (simp_all add: KIND_BY_CODE_def KINDS_def)

definition ar_body :: "credential_kind \<Rightarrow> string \<Rightarrow> string \<Rightarrow> string \<Rightarrow> string" where
  "ar_body kind wsid tag sec62 = ''ar_'' @ AR_KIND_CODES kind @ ''_'' @ wsid @ ''_'' @ tag @ ''_'' @ sec62"

lemma encodeArCredential_Inr:
  assumes "encodeArCredential kind w tag secret = Inr tok"
  obtains wsid sec62 crc where
    "encodeArWorkspaceId w = Inr wsid" "is_ar_tag tag" "length sec62 = 43" "list_all is_base62 sec62"
    "arChecksum (ar_body kind wsid tag sec62) = Inr crc" "length crc = 6" "list_all is_base62 crc"
    "tok = ar_body kind wsid tag sec62 @ crc" "base62Encode (bytesToBigInt secret) AR_SECRET_LENGTH = Inr sec62"
proof -
  from assms have tag: "is_ar_tag tag" "length secret = AR_SECRET_BYTES"
    by (auto simp: encodeArCredential_def split: if_splits)
  from assms tag obtain wsid where wsid: "encodeArWorkspaceId w = Inr wsid"
    by (auto simp: encodeArCredential_def split: sum.splits)
  obtain sec62 where sec: "base62Encode (bytesToBigInt secret) AR_SECRET_LENGTH = Inr sec62"
    "length sec62 = 43" "list_all is_base62 sec62"
    by (rule secret_base62 [OF tag(2)])
  obtain crc where crc: "arChecksum (ar_body kind wsid tag sec62) = Inr crc" "length crc = 6"
    "list_all is_base62 crc"
    by (rule arChecksum_Inr)
  have "tok = ar_body kind wsid tag sec62 @ crc"
    using assms tag wsid sec crc(1)
    by (simp add: encodeArCredential_def ar_body_def Let_def)
  then show thesis using that wsid tag sec crc by blast
qed

lemma length_ar_body:
  "length wsid = 11 \<Longrightarrow> length tag = 11 \<Longrightarrow> length sec62 = 43 \<Longrightarrow> length (ar_body kind wsid tag sec62) = 73"
  by (simp add: ar_body_def)

lemma AR_exec_encoded:
  assumes "length wsid = 11" "list_all is_base62 wsid" "is_ar_tag tag" "length sec62 = 43"
    "list_all is_base62 sec62" "length crc = 6" "list_all is_base62 crc"
  shows "AR_exec (ar_body kind wsid tag sec62 @ crc)
           = Some (AR_KIND_CODES kind, wsid, tag, sec62, crc)"
proof -
  let ?t = "ar_body kind wsid tag sec62 @ crc"
  have tag: "length tag = 11" using assms(3) by (simp add: is_ar_tag_def)
  note sub = substr_append_right substr_append_left
  have "substr 0 3 ?t = ''ar_''" "substr 3 2 ?t = AR_KIND_CODES kind" "substr 5 1 ?t = ''_''"
    "substr 6 11 ?t = wsid" "substr 17 1 ?t = ''_''" "substr 18 11 ?t = tag" "substr 29 1 ?t = ''_''"
    "substr 30 43 ?t = sec62" "substr 73 6 ?t = crc"
    using assms tag by (simp_all add: ar_body_def substr_def)
  moreover have "length ?t = 79" using assms tag by (simp add: length_ar_body)
  ultimately show ?thesis using assms by (simp add: AR_exec_def KINDS_all)
qed

subsection \<open>When encoding succeeds\<close>

lemma encodeArWorkspaceId_total:
  assumes "is_snowflake_text w" "read_dec w \<le> MAX_SNOWFLAKE"
  obtains wsid where "encodeArWorkspaceId w = Inr wsid"
proof -
  have "read_dec w < 62 ^ 11" using assms(2) by (simp add: MAX_SNOWFLAKE_def)
  from base62Encode_ok [OF this] obtain s where "base62Encode (int (read_dec w)) 11 = Inr s" by metis
  with assms that show thesis
    by (simp add: encodeArWorkspaceId_def AR_WORKSPACE_ID_LENGTH_def)
qed

lemma encodeArCredential_total:
  assumes "encodeArWorkspaceId w = Inr wsid" "is_ar_tag tag" "length secret = AR_SECRET_BYTES"
  obtains tok where "encodeArCredential kind w tag secret = Inr tok"
proof -
  obtain s where s: "base62Encode (bytesToBigInt secret) AR_SECRET_LENGTH = Inr s"
    by (rule secret_base62 [OF assms(3)])
  obtain c where c: "arChecksum (ar_body kind wsid tag s) = Inr c"
    by (rule arChecksum_Inr)
  show thesis
    using assms s c by (intro that) (simp add: encodeArCredential_def ar_body_def Let_def)
qed

lemma encode_example:
  obtains tok where "encodeArCredential KAgent ''7'' ''a0123456789'' (replicate 32 b) = Inr tok"
proof -
  have "is_snowflake_text ''7''" "read_dec ''7'' = 7"
    by (simp_all add: is_snowflake_text_def is_numeral_string_def is_dec_def read_dec_def)
  then obtain wsid where w: "encodeArWorkspaceId ''7'' = Inr wsid"
    by (auto intro: encodeArWorkspaceId_total simp: MAX_SNOWFLAKE_def)
  have t: "is_ar_tag ''a0123456789''" by code_simp
  show thesis
    by (rule encodeArCredential_total [OF w t]) (auto simp: AR_SECRET_BYTES_def intro: that)
qed

lemma length_encoded: "encodeArCredential kind w tag secret = Inr tok \<Longrightarrow> length tok = 79"
  by (erule encodeArCredential_Inr) (auto simp: length_ar_body is_ar_tag_def dest: workspace_base62(1))

subsection \<open>What the classifier does\<close>

lemma parse_encoded:
  assumes "encodeArCredential kind w tag secret = Inr tok"
  shows "parseCredential tok = Some (Ar kind w tag (hd tag))"
proof -
  from assms obtain wsid sec62 crc where
    w: "encodeArWorkspaceId w = Inr wsid" and p: "is_ar_tag tag" "length sec62 = 43" "list_all is_base62 sec62"
    "arChecksum (ar_body kind wsid tag sec62) = Inr crc" "length crc = 6" "list_all is_base62 crc" and
    tok: "tok = ar_body kind wsid tag sec62 @ crc"
    by (rule encodeArCredential_Inr)
  note ws = workspace_base62 [OF w]
  have "AR_exec tok = Some (AR_KIND_CODES kind, wsid, tag, sec62, crc)"
    unfolding tok by (intro AR_exec_encoded ws p)
  moreover have "take (length tok - AR_CHECKSUM_LENGTH) tok = ar_body kind wsid tag sec62"
    using p(5) by (simp add: tok AR_CHECKSUM_LENGTH_def)
  ultimately show ?thesis
    using ws p(4) by (simp add: parseCredential_def show_read_dec)
qed

text \<open>C25: An encoded credential parses back: the classifier reads the kind, the workspace id
  (the same decimal string), the tag and the key version that were encoded.\<close>

theorem parse_encodeArCredential:
  assumes "encodeArCredential kind w tag secret = Inr tok"
  shows "parseCredential tok = Some (Ar kind w tag (hd tag)) \<and> credentialKind tok = Some kind
    \<and> credentialWorkspaceId tok = Some w"
  using parse_encoded [OF assms] by (simp add: credentialKind_def credentialWorkspaceId_def)

lemma parse_encodeArCredential_witness:
  "\<exists>tok. encodeArCredential KAgent ''7'' ''a0123456789'' (replicate 32 1) = Inr tok
     \<and> parseCredential tok = Some (Ar KAgent ''7'' ''a0123456789'' CHR ''a'')"
proof -
  obtain tok where "encodeArCredential KAgent ''7'' ''a0123456789'' (replicate 32 1) = Inr tok"
    by (rule encode_example)
  with parse_encodeArCredential [OF this] show ?thesis by auto
qed

lemma not_legacy_if:
  assumes "t ! 3 \<noteq> CHR ''l'' \<or> t ! 4 \<noteq> CHR ''i''"
  shows "legacy_kind t = None"
proof -
  have "\<not> starts_with (LEGACY_CREDENTIAL_PREFIXES k) t" for k
    using assms by (cases k) (auto simp: starts_with_iff)
  then show ?thesis by (simp add: legacy_kind_def first_row_None)
qed

lemma AR_exec_fields:
  "AR_exec t = Some (code, wsid, tag, sec62, crc) \<Longrightarrow>
     length t = 79 \<and> code = substr 3 2 t \<and> wsid = substr 6 11 t \<and> tag = substr 18 11 t \<and> sec62 = substr 30 43 t
       \<and> crc = substr 73 6 t \<and> list_all is_base62 wsid \<and> is_ar_tag tag"
  by (auto simp: AR_exec_def split: if_splits)

text \<open>C29: A typo is refused offline: a credential with any one of its 79 characters replaced by any
  other character is no credential of either family.\<close>

theorem parse_detects_one_change:
  assumes enc: "encodeArCredential kind w tag secret = Inr tok" and i: "i < length tok" "c \<noteq> tok ! i"
  shows "parseCredential (tok[i := c]) = None"
proof -
  from enc obtain wsid sec62 crc where
    w: "encodeArWorkspaceId w = Inr wsid" and tag: "is_ar_tag tag" "length sec62 = 43"
    and crc: "arChecksum (ar_body kind wsid tag sec62) = Inr crc" "length crc = 6" and
    tok: "tok = ar_body kind wsid tag sec62 @ crc"
    by (rule encodeArCredential_Inr)
  let ?body = "ar_body kind wsid tag sec62" and ?t = "tok[i := c]"
  have len: "length ?body = 73"
    using workspace_base62(1) [OF w] tag by (simp add: length_ar_body is_ar_tag_def)
  have "tok ! 3 \<noteq> CHR ''l''" "tok ! 4 \<noteq> CHR ''i''"
    by (cases kind; simp add: tok ar_body_def)+
  then have "?t ! 3 \<noteq> CHR ''l'' \<or> ?t ! 4 \<noteq> CHR ''i''" by (cases "i = 3") auto
  then have legacy: "legacy_kind ?t = None" by (rule not_legacy_if)
  have "arChecksum (take 73 ?t) \<noteq> Inr (substr 73 6 ?t)"
  proof (cases "i < 73")
    case True
    then have "take 73 ?t = ?body[i := c]" "substr 73 6 ?t = crc"
      using len crc(2) by (simp_all add: tok substr_def list_update_append)
    moreover have "crc32 (?body[i := c]) \<noteq> crc32 ?body"
      using True len i(2) by (intro crc32_detects_one_change) (simp_all add: tok nth_append)
    ultimately show ?thesis using crc(1) by (metis arChecksum_eqD)
  next
    case False
    then have "take 73 ?t = ?body" "substr 73 6 ?t = crc[i - 73 := c]"
      using len crc(2) by (simp_all add: tok substr_def list_update_append)
    moreover have "crc[i - 73 := c] \<noteq> crc"
    proof
      assume "crc[i - 73 := c] = crc"
      moreover have "crc[i - 73 := c] ! (i - 73) = c" using False i(1) len crc(2) by (simp add: tok)
      ultimately show False using i False len by (simp add: tok nth_append)
    qed
    ultimately show ?thesis using crc(1) by simp
  qed
  moreover have "length ?t = 79" using len crc(2) by (simp add: tok)
  ultimately show ?thesis
    using legacy by (auto simp: parseCredential_def AR_CHECKSUM_LENGTH_def dest: AR_exec_fields split: option.splits)
qed

lemma parse_detects_one_change_witness:
  "\<exists>tok. encodeArCredential KAgent ''7'' ''a0123456789'' (replicate 32 1) = Inr tok
     \<and> parseCredential (tok[40 := CHR ''_'']) = None"
proof -
  obtain tok where t: "encodeArCredential KAgent ''7'' ''a0123456789'' (replicate 32 1) = Inr tok"
    by (rule encode_example)
  from t obtain wsid sec62 crc where s: "encodeArWorkspaceId ''7'' = Inr wsid" "length sec62 = 43"
      "list_all is_base62 sec62" "tok = ar_body KAgent wsid ''a0123456789'' sec62 @ crc"
    by (rule encodeArCredential_Inr) blast
  then have "tok ! 40 = sec62 ! 10"
    by (simp add: ar_body_def nth_append workspace_base62(1) [OF s(1)])
  moreover have "is_base62 (sec62 ! 10)" using s by (simp add: list_all_length)
  moreover have "\<not> is_base62 CHR ''_''" by (simp add: is_base62_def BASE62_def)
  ultimately have "CHR ''_'' \<noteq> tok ! 40" by metis
  with parse_detects_one_change [OF t, of 40] length_encoded [OF t] t show ?thesis by auto
qed

text \<open>Displaying a credential shows at most eight characters of its secret: two credentials for the
  same kind, workspace and tag whose secrets begin with the same four characters and end with the
  same four have the same mask.\<close>

theorem maskCredential_hides:
  assumes "encodeArCredential kind w tag s1 = Inr t1" "encodeArCredential kind w tag s2 = Inr t2"
    and "substr 30 4 t1 = substr 30 4 t2" "substr 69 4 t1 = substr 69 4 t2"
  shows "maskCredential t1 = maskCredential t2"
proof -
  have mask: "maskCredential t = ar_body kind wsid tag (substr 30 4 t @ ''...'' @ substr 69 4 t)"
    if enc: "encodeArCredential kind w tag s = Inr t" and w: "encodeArWorkspaceId w = Inr wsid" for s t wsid
  proof -
    from enc w obtain sec62 crc where t: "is_ar_tag tag" "t = ar_body kind wsid tag sec62 @ crc"
      by (elim encodeArCredential_Inr) auto
    have fam: "credentialFamily t = Some FAr"
      by (simp add: credentialFamily_def parse_encoded [OF enc])
    have "take 30 t = ar_body kind wsid tag []"
      using t workspace_base62(1) [OF w] by (simp add: ar_body_def is_ar_tag_def)
    then show ?thesis
      using fam length_encoded [OF enc] by (simp add: maskCredential_def ar_lengths Let_def ar_body_def)
  qed
  from assms(1) obtain wsid where w: "encodeArWorkspaceId w = Inr wsid"
    by (rule encodeArCredential_Inr) blast
  show ?thesis using mask [OF assms(1) w] mask [OF assms(2) w] assms(3,4) by simp
qed

subsection \<open>Canonical workspace ids\<close>

lemma length_show_dec_acc: "n < 10 ^ w \<Longrightarrow> 0 < w \<Longrightarrow> length (show_dec_acc n out) \<le> w + length out"
proof (induction n out arbitrary: w rule: show_dec_acc.induct)
  case (1 n out)
  show ?case
  proof (cases "n < 10")
    case True
    then show ?thesis using "1.prems" by (simp add: show_dec_acc.simps [of n])
  next
    case False
    with "1.prems" obtain v where w: "w = Suc v" "0 < v"
      by (cases w; cases "w - 1") auto
    with "1.prems" have "n div 10 < 10 ^ v" by (simp add: less_mult_imp_div_less mult.commute)
    with "1.IH" [OF False] w False show ?thesis by (simp add: show_dec_acc.simps [of n])
  qed
qed

lemma numeral_show_dec_acc:
  "0 < n \<Longrightarrow> list_all is_dec out \<Longrightarrow> list_all is_dec (show_dec_acc n out) \<and> show_dec_acc n out \<noteq> []
     \<and> hd (show_dec_acc n out) \<noteq> CHR ''0''"
proof (induction n out rule: show_dec_acc.induct)
  case (1 n out)
  show ?case
  proof (cases "n < 10")
    case True
    have "dec_digit n \<noteq> CHR ''0''"
    proof
      assume "dec_digit n = CHR ''0''"
      then have "(of_char (dec_digit n) :: nat) = 48" by simp
      with True "1.prems" show False by (simp add: of_char_dec_digit)
    qed
    then show ?thesis using True "1.prems" by (simp add: show_dec_acc.simps [of n] is_dec_dec_digit)
  next
    case False
    then have "0 < n div 10" "list_all is_dec (dec_digit (n mod 10) # out)"
      using "1.prems" by (simp_all add: is_dec_dec_digit)
    from "1.IH" [OF False this] False show ?thesis by (simp add: show_dec_acc.simps [of n])
  qed
qed

lemma is_numeral_show_dec: "is_numeral_string (show_dec n)"
proof (cases "n = 0")
  case True
  then show ?thesis
    by (simp add: show_dec_def show_dec_acc.simps dec_digit_def is_numeral_string_def)
next
  case False
  then show ?thesis using numeral_show_dec_acc [of n "[]"] by (simp add: show_dec_def is_numeral_string_def)
qed

lemma encodeArWorkspaceId_show_dec:
  assumes v: "base62Decode wsid = Inr v" "v \<le> MAX_SNOWFLAKE" "length wsid = 11"
  shows "encodeArWorkspaceId (show_dec v) = Inr wsid"
proof -
  have "v < 10 ^ 20" using v(2) by (simp add: MAX_SNOWFLAKE_def)
  then have "length (show_dec v) \<le> 20" using length_show_dec_acc [of v 20 "[]"] by (simp add: show_dec_def)
  then have snow: "is_snowflake_text (show_dec v)" by (simp add: is_snowflake_text_def is_numeral_show_dec)
  have "v < 62 ^ 11" using v(2) by (simp add: MAX_SNOWFLAKE_def)
  from base62Encode_ok [OF this] obtain s where s: "base62Encode (int v) 11 = Inr s" "length s = 11" "base62Decode s = Inr v"
    by metis
  have "s = wsid" using base62Decode_inj [OF s(3) v(1)] s(2) v(3) by simp
  then show ?thesis using s(1) snow v(2) by (simp add: encodeArWorkspaceId_def AR_WORKSPACE_ID_LENGTH_def)
qed

lemma drop_substr: "drop i s = substr i n s @ drop (i + n) s"
  unfolding substr_def by (metis append_take_drop_id drop_drop add.commute)

lemma AR_exec_shape:
  assumes "AR_exec t = Some (code, wsid, tag, sec62, crc)"
  shows "t = ''ar_'' @ code @ ''_'' @ wsid @ ''_'' @ tag @ ''_'' @ sec62 @ crc"
proof -
  have f: "length t = 79" "substr 0 3 t = ''ar_''" "substr 3 2 t = code" "substr 5 1 t = ''_''"
    "substr 6 11 t = wsid" "substr 17 1 t = ''_''" "substr 18 11 t = tag" "substr 29 1 t = ''_''"
    "substr 30 43 t = sec62" "substr 73 6 t = crc"
    using assms by (auto simp: AR_exec_def split: if_splits)
  have "t = drop 0 t" by simp
  also have "\<dots> = ''ar_'' @ drop 3 t" using drop_substr [of 0 t 3] f(2) by simp
  also have "drop 3 t = code @ drop 5 t" using drop_substr [of 3 t 2] f(3) by simp
  also have "drop 5 t = ''_'' @ drop 6 t" using drop_substr [of 5 t 1] f(4) by simp
  also have "drop 6 t = wsid @ drop 17 t" using drop_substr [of 6 t 11] f(5) by simp
  also have "drop 17 t = ''_'' @ drop 18 t" using drop_substr [of 17 t 1] f(6) by simp
  also have "drop 18 t = tag @ drop 29 t" using drop_substr [of 18 t 11] f(7) by simp
  also have "drop 29 t = ''_'' @ drop 30 t" using drop_substr [of 29 t 1] f(8) by simp
  also have "drop 30 t = sec62 @ drop 73 t" using drop_substr [of 30 t 43] f(9) by simp
  also have "drop 73 t = crc" using drop_substr [of 73 t 6] f(1,10) by simp
  finally show ?thesis by simp
qed

lemma KIND_BY_CODE_Some: "KIND_BY_CODE code = Some k \<Longrightarrow> AR_KIND_CODES k = code"
  unfolding KIND_BY_CODE_def by (drule first_row_Some) simp

text \<open>What the classifier accepts in the \<open>ar\<close> family is exactly what the encoder prints, field by field:
  the credential is its prefix, the kind's code, the canonical base62 form of the workspace id it
  names, its tag, a secret and the checksum of all that, so a gateway that routes by the workspace
  id of a parsed credential never confuses two workspaces.\<close>

theorem parseCredential_canonical:
  assumes "parseCredential tok = Some (Ar kind w tag v)"
  shows "\<exists>wsid sec62 crc. tok = ar_body kind wsid tag sec62 @ crc \<and> encodeArWorkspaceId w = Inr wsid
    \<and> arChecksum (ar_body kind wsid tag sec62) = Inr crc \<and> is_ar_tag tag \<and> v = hd tag"
proof -
  from assms obtain code wsid sec62 crc n where
    ex: "AR_exec tok = Some (code, wsid, tag, sec62, crc)" and
    crc: "arChecksum (take (length tok - AR_CHECKSUM_LENGTH) tok) = Inr crc" and
    n: "base62Decode wsid = Inr n" "n \<le> MAX_SNOWFLAKE" "w = show_dec n" and
    k: "KIND_BY_CODE code = Some kind" "v = hd tag"
    by (auto simp: parseCredential_def split: option.splits if_splits sum.splits)
  note f = AR_exec_fields [OF ex]
  have len: "length wsid = 11" "length crc = 6" using f by (simp_all add: substr_def)
  have tok: "tok = ar_body kind wsid tag sec62 @ crc"
    using AR_exec_shape [OF ex] KIND_BY_CODE_Some [OF k(1)] by (simp add: ar_body_def)
  then have "take (length tok - AR_CHECKSUM_LENGTH) tok = ar_body kind wsid tag sec62"
    using len(2) by (simp add: AR_CHECKSUM_LENGTH_def)
  with crc have "arChecksum (ar_body kind wsid tag sec62) = Inr crc" by simp
  moreover have "encodeArWorkspaceId w = Inr wsid"
    unfolding n(3) by (rule encodeArWorkspaceId_show_dec [OF n(1,2) len(1)])
  ultimately show ?thesis using tok k(2) f by blast
qed

lemma parseCredential_canonical_witness:
  "\<exists>tok wsid sec62 crc. parseCredential tok = Some (Ar KAgent ''7'' ''a0123456789'' CHR ''a'')
     \<and> tok = ar_body KAgent wsid ''a0123456789'' sec62 @ crc \<and> encodeArWorkspaceId ''7'' = Inr wsid"
proof -
  obtain tok where "encodeArCredential KAgent ''7'' ''a0123456789'' (replicate 32 1) = Inr tok"
    by (rule encode_example)
  from parse_encoded [OF this]
  have p: "parseCredential tok = Some (Ar KAgent ''7'' ''a0123456789'' CHR ''a'')" by simp
  from parseCredential_canonical [OF p] p show ?thesis by blast
qed

lemma sec62_field:
  assumes "encodeArCredential kind w tag secret = Inr tok" "base62Encode (bytesToBigInt secret) AR_SECRET_LENGTH = Inr s"
  shows "substr 30 43 tok = s"
proof -
  from assms(1) obtain wsid sec62 crc where
    "encodeArWorkspaceId w = Inr wsid" "is_ar_tag tag" "length sec62 = 43" "length crc = 6"
    "tok = ar_body kind wsid tag sec62 @ crc" "base62Encode (bytesToBigInt secret) AR_SECRET_LENGTH = Inr sec62"
    by (rule encodeArCredential_Inr)
  with assms(2) show ?thesis
    by (simp add: ar_body_def substr_def is_ar_tag_def workspace_base62(1))
qed

lemma substr_substr: "j + m \<le> n \<Longrightarrow> substr j m (substr i n t) = substr (i + j) m t"
  by (simp add: substr_def drop_take min_def add.commute)

text \<open>Two secrets that differ in the fifth base62 character from the end only.\<close>

lemma maskCredential_hides_witness:
  "\<exists>t1 t2. encodeArCredential KAgent ''7'' ''a0123456789'' (replicate 32 0) = Inr t1
     \<and> encodeArCredential KAgent ''7'' ''a0123456789'' (replicate 28 0 @ [0x36, 0x9b, 0x13, 0xe0]) = Inr t2
     \<and> t1 \<noteq> t2 \<and> maskCredential t1 = maskCredential t2"
proof -
  have w: "is_snowflake_text ''7''" "read_dec ''7'' \<le> MAX_SNOWFLAKE"
    by (simp_all add: is_snowflake_text_def is_numeral_string_def is_dec_def read_dec_def MAX_SNOWFLAKE_def)
  obtain wsid where wsid: "encodeArWorkspaceId ''7'' = Inr wsid" by (rule encodeArWorkspaceId_total [OF w])
  have tag: "is_ar_tag ''a0123456789''" by code_simp
  obtain t1 where t1: "encodeArCredential KAgent ''7'' ''a0123456789'' (replicate 32 0) = Inr t1"
    by (rule encodeArCredential_total [OF wsid tag]) (auto simp: AR_SECRET_BYTES_def)
  obtain t2 where t2: "encodeArCredential KAgent ''7'' ''a0123456789'' (replicate 28 0 @ [0x36, 0x9b, 0x13, 0xe0]) = Inr t2"
    by (rule encodeArCredential_total [OF wsid tag]) (auto simp: AR_SECRET_BYTES_def)
  have "bytesToBigInt (replicate 32 0) = 0" by code_simp
  then have "base62Encode (bytesToBigInt (replicate 32 0)) AR_SECRET_LENGTH = Inr (replicate 43 CHR ''0'')"
    by (simp add: base62Encode_def AR_SECRET_LENGTH_def)
  note s1 = sec62_field [OF t1 this]
  have "bytesToBigInt (replicate 28 0 @ [0x36, 0x9b, 0x13, 0xe0]) = 916132832" by code_simp
  then have "base62Encode (bytesToBigInt (replicate 28 0 @ [0x36, 0x9b, 0x13, 0xe0])) AR_SECRET_LENGTH
      = Inr (replicate 37 CHR ''0'' @ ''100000'')"
    by (simp add: base62Encode_def AR_SECRET_LENGTH_def base62_loop.simps zero_digit) (simp add: BASE62_def)
  note s2 = sec62_field [OF t2 this]
  have head: "substr 30 4 t = substr 0 4 (substr 30 43 t)" and tail: "substr 69 4 t = substr 39 4 (substr 30 43 t)" for t :: string
    by (simp_all add: substr_substr)
  have "substr 30 4 t1 = substr 30 4 t2"
    unfolding head [of t1] head [of t2] s1 s2 by code_simp
  moreover have "substr 69 4 t1 = substr 69 4 t2"
    unfolding tail [of t1] tail [of t2] s1 s2 by code_simp
  ultimately
  have "maskCredential t1 = maskCredential t2" by (rule maskCredential_hides [OF t1 t2])
  moreover have "replicate 43 CHR ''0'' \<noteq> replicate 37 CHR ''0'' @ ''100000''" by code_simp
  then have "t1 \<noteq> t2" using s1 s2 by metis
  ultimately show ?thesis using t1 t2 by blast
qed

end
