(* ===== verification/TokenKind.thy ===== *)
theory TokenKind
  imports Credentials
begin

text \<open>
  Minting and authorising credentials: \<open>auth/credentials.ts\<close> (the families a deployment mints, the
  credential built from hex secret material) and \<open>auth/tokenKind.ts\<close> (which kinds of token an
  operation accepts). The deployment's tagger is a service behind a port
  (\<open>CredentialTagger\<close>): it is a parameter, the function from a workspace id to its current tag.
\<close>

subsection \<open>Settings bound to a database handle\<close>

record credential_settings =
  cs_format :: credential_family
  cs_tagger :: "nat option"

text \<open>\<open>configureCredentials\<close>: a tagger is compared by identity, here the number of the tagger object.\<close>

definition configureCredentials ::
  "credential_settings option \<Rightarrow> credential_settings \<Rightarrow> string + credential_settings" where
  "configureCredentials bound next =
     (if cs_format next = FAr \<and> cs_tagger next = None
      then Inl ''credentialFormat 'ar' needs a credentialTagger''
      else case bound of
        Some b \<Rightarrow>
          (if cs_format b \<noteq> cs_format next \<or> cs_tagger b \<noteq> cs_tagger next
           then Inl ''This database handle already mints other credentials''
           else Inr next)
      | None \<Rightarrow> Inr next)"

definition credentialFormat :: "credential_settings option \<Rightarrow> credential_family" where
  "credentialFormat bound = (case bound of Some b \<Rightarrow> cs_format b | None \<Rightarrow> FLegacy)"

lemma configureCredentials_keeps:
  "configureCredentials (Some b) next = Inr c \<Longrightarrow> cs_format c = cs_format b \<and> cs_tagger c = cs_tagger b"
  by (auto simp: configureCredentials_def split: if_splits)

lemma configureCredentials_ar_has_tagger:
  "configureCredentials b next = Inr c \<Longrightarrow> cs_format c = FAr \<Longrightarrow> cs_tagger c \<noteq> None"
  by (auto simp: configureCredentials_def split: if_splits option.splits)

subsection \<open>Minting from hex secret material\<close>

fun LEGACY_SECRET_BYTES :: "credential_kind \<Rightarrow> nat" where
  "LEGACY_SECRET_BYTES KWorkspace = 16"
| "LEGACY_SECRET_BYTES KAgent = 16"
| "LEGACY_SECRET_BYTES KNode = 24"
| "LEGACY_SECRET_BYTES KObserver = 24"
| "LEGACY_SECRET_BYTES KWebhook = 24"

definition hex_digit :: "char \<Rightarrow> nat option" where
  "hex_digit c =
     (if is_dec c then Some (of_char c - 48)
      else if 97 \<le> (of_char c :: nat) \<and> (of_char c :: nat) \<le> 102 then Some (of_char c - 87)
      else None)"

definition is_hex :: "string \<Rightarrow> bool" where
  "is_hex s \<longleftrightarrow> s \<noteq> [] \<and> list_all (\<lambda>c. hex_digit c \<noteq> None) s"

text \<open>\<open>hexToBytes\<close> on text that the caller has already matched against \<open>[0-9a-f]+\<close>; a trailing odd
  character is dropped by \<open>new Uint8Array(hex.length / 2)\<close>.\<close>

fun hexToBytes :: "string \<Rightarrow> 8 word list" where
  "hexToBytes (a # b # rest) =
     of_nat (16 * the (hex_digit a) + the (hex_digit b)) # hexToBytes rest"
| "hexToBytes _ = []"

lemma length_hexToBytes [simp]: "length (hexToBytes s) = length s div 2"
  by (induction s rule: hexToBytes.induct) auto

definition credentialFromHex ::
  "(string \<Rightarrow> string) option \<Rightarrow> credential_family \<Rightarrow> credential_kind \<Rightarrow> string \<Rightarrow> string \<Rightarrow> string option
     \<Rightarrow> string + string" where
  "credentialFromHex tagger format kind workspaceId hex tag =
     (if \<not> is_hex hex then Inl ''Credential secret material must be lowercase hex''
      else if format = FAr then
        (if \<not> isArWorkspaceId workspaceId then Inl ''invalid_request''
         else if length hex < AR_SECRET_BYTES * 2 then Inl ''Credential secret material is too short''
         else case tag of
           Some t \<Rightarrow>
             (if t = '''' then
                (case tagger of
                   None \<Rightarrow> Inl ''Minting an ar_ credential needs EngineConfig.credentialTagger''
                 | Some _ \<Rightarrow> encodeArCredential kind workspaceId t (hexToBytes (take (AR_SECRET_BYTES * 2) hex)))
              else encodeArCredential kind workspaceId t (hexToBytes (take (AR_SECRET_BYTES * 2) hex)))
         | None \<Rightarrow>
             (case tagger of
                None \<Rightarrow> Inl ''Minting an ar_ credential needs EngineConfig.credentialTagger''
              | Some tg \<Rightarrow>
                  encodeArCredential kind workspaceId (tg workspaceId) (hexToBytes (take (AR_SECRET_BYTES * 2) hex))))
      else let len = LEGACY_SECRET_BYTES kind * 2
        in if length hex < len then Inl ''Credential secret material is too short''
           else Inr (LEGACY_CREDENTIAL_PREFIXES kind @ take len hex))"

text \<open>\<open>derivationFamilies\<close>: every family a derived credential may have been committed in, the current one
  first. \<open>tags\<close> is what the tagger knows for the workspace.\<close>

datatype derivation_family = DLegacy | DAr string

definition derivationFamilies ::
  "credential_settings option \<Rightarrow> (string \<Rightarrow> string list) \<Rightarrow> string \<Rightarrow> derivation_family list" where
  "derivationFamilies bound tags workspaceId =
     (let tagger = (if isArWorkspaceId workspaceId then Option.bind bound cs_tagger else None);
          ar = (if tagger = None then [] else map DAr (tags workspaceId))
      in if credentialFormat bound = FAr then ar @ [DLegacy] else DLegacy # ar)"

lemma legacy_in_derivationFamilies: "DLegacy \<in> set (derivationFamilies bound tags w)"
  by (simp add: derivationFamilies_def Let_def)

subsection \<open>Which tokens an operation accepts\<close>

datatype auth_token_kind = TWorkspace | TAgent | TNode | TObserver

datatype auth_require = RWorkspace | RAgent | RNode | RObserver | RAny | RSender

record parsed_auth_token =
  pt_kind :: auth_token_kind
  pt_token :: string
  pt_family :: credential_family
  pt_workspaceId :: "string option"

fun auth_kind :: "credential_kind \<Rightarrow> auth_token_kind option" where
  "auth_kind KWorkspace = Some TWorkspace"
| "auth_kind KAgent = Some TAgent"
| "auth_kind KNode = Some TNode"
| "auth_kind KObserver = Some TObserver"
| "auth_kind KWebhook = None"

definition parseAuthToken :: "string \<Rightarrow> parsed_auth_token option" where
  "parseAuthToken token =
     (case parseCredential token of
        None \<Rightarrow> None
      | Some (Legacy k) \<Rightarrow>
          map_option (\<lambda>a. \<lparr>pt_kind = a, pt_token = token, pt_family = FLegacy, pt_workspaceId = None\<rparr>) (auth_kind k)
      | Some (Ar k w _ _) \<Rightarrow>
          map_option (\<lambda>a. \<lparr>pt_kind = a, pt_token = token, pt_family = FAr, pt_workspaceId = Some w\<rparr>) (auth_kind k))"

fun tokenKindLabel :: "auth_token_kind \<Rightarrow> string" where
  "tokenKindLabel TWorkspace = ''Workspace key''"
| "tokenKindLabel TAgent = ''Agent token''"
| "tokenKindLabel TNode = ''Node token''"
| "tokenKindLabel TObserver = ''Observer token''"

fun credential_of :: "auth_token_kind \<Rightarrow> credential_kind" where
  "credential_of TWorkspace = KWorkspace"
| "credential_of TAgent = KAgent"
| "credential_of TNode = KNode"
| "credential_of TObserver = KObserver"

definition credentialShape :: "credential_kind \<Rightarrow> credential_family \<Rightarrow> string" where
  "credentialShape kind format =
     (if format = FAr then ''ar_'' @ AR_KIND_CODES kind @ ''_...''
      else LEGACY_CREDENTIAL_PREFIXES kind @ ''...'')"

definition requiredTokenMessage :: "auth_token_kind \<Rightarrow> credential_family \<Rightarrow> string" where
  "requiredTokenMessage kind format =
     tokenKindLabel kind @ '' required ('' @ credentialShape (credential_of kind) format @ '')''"

fun allowedKindsByRequire :: "auth_require \<Rightarrow> auth_token_kind list" where
  "allowedKindsByRequire RWorkspace = [TWorkspace]"
| "allowedKindsByRequire RAgent = [TAgent]"
| "allowedKindsByRequire RNode = [TNode]"
| "allowedKindsByRequire RObserver = [TObserver]"
| "allowedKindsByRequire RAny = [TWorkspace, TAgent]"
| "allowedKindsByRequire RSender = [TWorkspace, TAgent, TNode]"

text \<open>The kind a requirement other than \<open>any\<close> and \<open>sender\<close> names.\<close>

fun named_kind :: "auth_require \<Rightarrow> auth_token_kind option" where
  "named_kind RWorkspace = Some TWorkspace"
| "named_kind RAgent = Some TAgent"
| "named_kind RNode = Some TNode"
| "named_kind RObserver = Some TObserver"
| "named_kind RAny = None"
| "named_kind RSender = None"

definition validateTokenRequirement ::
  "auth_token_kind \<Rightarrow> auth_require \<Rightarrow> credential_family \<Rightarrow> (string \<times> string) + unit" where
  "validateTokenRequirement tokenKind req format =
     (if tokenKind \<in> set (allowedKindsByRequire req) then Inr ()
      else if tokenKind = TNode then Inl (''node_token_forbidden'', ''Node token cannot perform this operation'')
      else if tokenKind = TObserver
        then Inl (''observer_token_forbidden'', ''Observer token cannot perform this operation'')
      else case named_kind req of
        None \<Rightarrow> Inl (''unauthorized'', ''Invalid token format'')
      | Some k \<Rightarrow> Inl (''unauthorized'', requiredTokenMessage k format))"

text \<open>The whole check of a presented token, as a route makes it.\<close>

definition admits :: "string \<Rightarrow> auth_require \<Rightarrow> bool" where
  "admits token req =
     (case parseAuthToken token of
        None \<Rightarrow> False
      | Some p \<Rightarrow> validateTokenRequirement (pt_kind p) req FLegacy = Inr ())"

subsection \<open>Minted credentials are classified as what was minted\<close>

lemma legacy_not_ar: "AR_exec (LEGACY_CREDENTIAL_PREFIXES k @ s) = None"
  by (cases k) (simp_all add: AR_exec_def substr_def)

lemma legacy_kind_prefix: "legacy_kind (LEGACY_CREDENTIAL_PREFIXES k @ s) = Some k"
  by (cases k) (simp_all add: legacy_kind_def KINDS_def starts_with_def)

lemma credentialFromHex_ar:
  assumes "credentialFromHex tagger FAr kind w hex tag = Inr tok"
  obtains t where "encodeArCredential kind w t (hexToBytes (take (AR_SECRET_BYTES * 2) hex)) = Inr tok"
  using assms by (auto simp: credentialFromHex_def split: if_splits option.splits)

text \<open>Whatever family and kind a deployment mints, the classifier reads back: the family, the kind, and for
  the \<open>ar\<close> family the workspace; for an API credential, the token kind and nothing more than what a
  token of that kind may do.\<close>

theorem minted_credential_classified:
  assumes "credentialFromHex tagger format kind w hex tag = Inr tok"
  shows "credentialKind tok = Some kind \<and> credentialFamily tok = Some format
    \<and> credentialWorkspaceId tok = (if format = FAr then Some w else None)
    \<and> (\<forall>req. admits tok req = (\<exists>a. auth_kind kind = Some a \<and> a \<in> set (allowedKindsByRequire req)))"
proof (cases format)
  case FAr
  with assms obtain t where "encodeArCredential kind w t (hexToBytes (take (AR_SECRET_BYTES * 2) hex)) = Inr tok"
    using credentialFromHex_ar by metis
  from parse_encoded [OF this] FAr show ?thesis
    by (cases kind)
      (auto simp: credentialKind_def credentialFamily_def credentialWorkspaceId_def admits_def
        parseAuthToken_def validateTokenRequirement_def split: option.splits)
next
  case FLegacy
  with assms obtain s where "tok = LEGACY_CREDENTIAL_PREFIXES kind @ s"
    by (auto simp: credentialFromHex_def Let_def split: if_splits)
  then have "parseCredential tok = Some (Legacy kind)"
    by (simp add: parseCredential_def legacy_not_ar legacy_kind_prefix)
  with FLegacy show ?thesis
    by (cases kind)
      (auto simp: credentialKind_def credentialFamily_def credentialWorkspaceId_def admits_def
        parseAuthToken_def validateTokenRequirement_def split: option.splits)
qed

lemma minted_credential_classified_witness:
  "credentialFromHex None FLegacy KNode ''x'' (replicate 48 CHR ''a'') None
      = Inr (''nt_live_'' @ replicate 48 CHR ''a'')
   \<and> credentialKind (''nt_live_'' @ replicate 48 CHR ''a'') = Some KNode"
proof -
  have "is_hex (replicate 48 CHR ''a'')" by (simp add: is_hex_def hex_digit_def is_dec_def list_all_length)
  then have m: "credentialFromHex None FLegacy KNode ''x'' (replicate 48 CHR ''a'') None
      = Inr (''nt_live_'' @ replicate 48 CHR ''a'')"
    by (simp add: credentialFromHex_def)
  with minted_credential_classified [OF m] show ?thesis by simp
qed

end
