(* ===== verification/Json.thy ===== *)
theory Json
  imports JsString
begin

text \<open>
  JSON values and their canonical text (\<open>canonicalJson\<close> of \<open>engine/action.ts\<close>, \<open>canonical\<close> of
  \<open>engine/taskInvocation.ts\<close>), by which the engine decides that a retried request has the payload of
  the first one. A number is kept as the text \<open>JSON.stringify\<close> prints for it; an object is the list of
  its properties in insertion order. \<open>canonicalJson_iff\<close>: two values have the same canonical text
  exactly when they are equal up to the order of properties.
\<close>

datatype json =
    JNull | JBool bool | JNum string | JStr string | JArr "json list" | JObj "(string \<times> json) list"

subsection \<open>\<open>JSON.stringify\<close> of a string\<close>

definition quote :: char where "quote = CHR 0x22"
definition backslash :: char where "backslash = CHR 0x5C"

definition HEX :: string where "HEX = ''0123456789abcdef''"

definition json_char :: "char \<Rightarrow> string" where
  "json_char c =
     (if c = quote then [backslash, quote]
      else if c = backslash then [backslash, backslash]
      else if c = CHR 0x08 then backslash # ''b''
      else if c = CHR 0x0C then backslash # ''f''
      else if c = CHR 0x0A then backslash # ''n''
      else if c = CHR 0x0D then backslash # ''r''
      else if c = CHR 0x09 then backslash # ''t''
      else if (of_char c :: nat) < 32
        then backslash # ''u00'' @ [HEX ! (of_char c div 16), HEX ! (of_char c mod 16)]
      else [c])"

definition json_string :: "string \<Rightarrow> string" where
  "json_string s = [quote] @ concat (map json_char s) @ [quote]"

text \<open>Reading one character back.\<close>

fun unescape :: "string \<Rightarrow> (char \<times> string) option" where
  "unescape [] = None"
| "unescape (c # s) =
     (if c \<noteq> backslash then Some (c, s)
      else case s of
        [] \<Rightarrow> None
      | d # r \<Rightarrow>
          if d = CHR ''u''
          then (case r of _ # _ # x # y # r' \<Rightarrow>
                  Some (char_of (16 * the (index_of x HEX) + the (index_of y HEX)), r') | _ \<Rightarrow> None)
          else if d = CHR ''b'' then Some (CHR 0x08, r) else if d = CHR ''f'' then Some (CHR 0x0C, r)
          else if d = CHR ''n'' then Some (CHR 0x0A, r) else if d = CHR ''r'' then Some (CHR 0x0D, r)
          else if d = CHR ''t'' then Some (CHR 0x09, r) else Some (d, r))"

lemma length_HEX [simp]: "length HEX = 16"
  by (simp add: HEX_def)

lemma distinct_HEX: "distinct HEX"
  by (simp add: HEX_def)

lemma unescape_json_char: "unescape (json_char c @ s) = Some (c, s)"
proof -
  have hex: "the (index_of (HEX ! i) HEX) = i" if "i < 16" for i
    using that by (simp add: index_of_nth [OF distinct_HEX])
  have "char_of (16 * (of_char c div 16) + of_char c mod 16 :: nat) = c" by simp
  moreover have "of_char c div 16 < (16::nat)" if "(of_char c :: nat) < 32" using that by simp
  ultimately show ?thesis
    by (auto simp: json_char_def quote_def backslash_def hex simp del: char_of_def)
qed

lemma json_char_head: "\<exists>d r. json_char c = d # r \<and> d \<noteq> quote"
  by (auto simp: json_char_def quote_def backslash_def)

lemma json_string_prefix:
  "concat (map json_char s) @ quote # r = concat (map json_char t) @ quote # q \<Longrightarrow> s = t \<and> r = q"
proof (induction s arbitrary: t)
  case Nil
  then show ?case
  proof (cases t)
    case (Cons c t')
    then show ?thesis using Nil json_char_head [of c] by auto
  qed simp
next
  case (Cons c s)
  then show ?case
  proof (cases t)
    case Nil
    then show ?thesis using Cons.prems json_char_head [of c] by auto
  next
    case (Cons d t')
    have "unescape (json_char c @ (concat (map json_char s) @ quote # r))
        = unescape (json_char d @ (concat (map json_char t') @ quote # q))"
      using Cons.prems Cons by simp
    then have "c = d" "concat (map json_char s) @ quote # r = concat (map json_char t') @ quote # q"
      unfolding unescape_json_char by simp_all
    with Cons.IH Cons show ?thesis by blast
  qed
qed

subsection \<open>Canonical text\<close>

definition json_pair :: "string \<times> string \<Rightarrow> string" where
  "json_pair p = json_string (fst p) @ '':'' @ snd p"

fun canonicalJson :: "json \<Rightarrow> string" where
  "canonicalJson JNull = ''null''"
| "canonicalJson (JBool b) = (if b then ''true'' else ''false'')"
| "canonicalJson (JNum n) = n"
| "canonicalJson (JStr s) = json_string s"
| "canonicalJson (JArr vs) = ''['' @ join '','' (map canonicalJson vs) @ '']''"
| "canonicalJson (JObj kvs) =
     ''{'' @ join '','' (map json_pair (sort_key fst (map (\<lambda>(k, v). (k, canonicalJson v)) kvs))) @ ''}''"

subsection \<open>Equality up to the order of properties\<close>

fun norm_json :: "json \<Rightarrow> json" where
  "norm_json (JArr vs) = JArr (map norm_json vs)"
| "norm_json (JObj kvs) = JObj (sort_key fst (map (\<lambda>(k, v). (k, norm_json v)) kvs))"
| "norm_json v = v"

fun ser :: "json \<Rightarrow> string" where
  "ser JNull = ''null''"
| "ser (JBool b) = (if b then ''true'' else ''false'')"
| "ser (JNum n) = n"
| "ser (JStr s) = json_string s"
| "ser (JArr vs) = ''['' @ join '','' (map ser vs) @ '']''"
| "ser (JObj kvs) = ''{'' @ join '','' (map (\<lambda>(k, v). json_string k @ '':'' @ ser v) kvs) @ ''}''"

text \<open>What a JSON value is: its numbers are printed numbers.\<close>

definition num_chars :: "char set" where
  "num_chars = set ''0123456789+-.eE''"

fun wf_json :: "json \<Rightarrow> bool" where
  "wf_json (JNum n) \<longleftrightarrow> n \<noteq> [] \<and> hd n \<in> set ''0123456789-'' \<and> set n \<subseteq> num_chars"
| "wf_json (JArr vs) \<longleftrightarrow> list_all wf_json vs"
| "wf_json (JObj kvs) \<longleftrightarrow> list_all (\<lambda>(k, v). wf_json v) kvs"
| "wf_json _ \<longleftrightarrow> True"

lemma sort_key_map_snd:
  "sort_key fst (map (\<lambda>(k, v). (k, f v)) kvs) = map (\<lambda>(k, v). (k, f v)) (sort_key fst kvs)"
proof -
  have "insort_key fst (k, f v) (map (\<lambda>(k, v). (k, f v)) xs) = map (\<lambda>(k, v). (k, f v)) (insort_key fst (k, v) xs)"
    for k :: 'a and v xs by (induction xs) auto
  then show ?thesis by (induction kvs) (auto simp: sort_key_def)
qed

lemma ser_norm: "ser (norm_json v) = canonicalJson v"
proof (induction v rule: norm_json.induct)
  case (1 vs)
  then show ?case by (simp cong: map_cong)
next
  case (2 kvs)
  let ?n = "\<lambda>(k, v). (k, norm_json v)"
  have m: "map (\<lambda>(k, v). (k, ser v)) (map ?n kvs) = map (\<lambda>(k, v). (k, canonicalJson v)) kvs"
    using 2 by (auto simp: comp_def)
  have "sort_key fst (map (\<lambda>(k, v). (k, canonicalJson v)) kvs) = map (\<lambda>(k, v). (k, ser v)) (sort_key fst (map ?n kvs))"
    using sort_key_map_snd [of ser "map ?n kvs"] unfolding m .
  then show ?case by (simp add: json_pair_def case_prod_unfold comp_def)
qed simp_all

lemma wf_norm: "wf_json v \<Longrightarrow> wf_json (norm_json v)"
proof (induction v rule: norm_json.induct)
  case (2 kvs)
  have "wf_json (norm_json v)" if "(k, v) \<in> set kvs" for k v
    using 2 that by (fastforce simp: list_all_iff)
  then show ?case by (auto simp: list_all_iff)
qed (auto simp: list_all_iff)

subsection \<open>The text determines the value\<close>

definition delim :: "string \<Rightarrow> bool" where
  "delim s \<longleftrightarrow> s = [] \<or> hd s \<in> set '',]}''"

lemma delim_Cons [simp]: "delim (c # s) \<longleftrightarrow> c \<in> set '',]}''"
  by (simp add: delim_def)

definition readable :: "('v \<Rightarrow> string) \<Rightarrow> 'v set \<Rightarrow> 'v set \<Rightarrow> bool" where
  "readable f V W \<longleftrightarrow> (\<forall>v \<in> V. \<forall>w \<in> W. \<forall>s t. delim s \<longrightarrow> delim t \<longrightarrow> f v @ s = f w @ t \<longrightarrow> v = w \<and> s = t)
     \<and> (\<forall>v \<in> V \<union> W. f v \<noteq> [] \<and> hd (f v) \<notin> set '',]}'')"

lemma join_readable:
  assumes "readable f (set vs) (set ws)" "c \<in> set '']}''"
    "join '','' (map f vs) @ c # s = join '','' (map f ws) @ c # t"
  shows "vs = ws \<and> s = t"
  using assms
proof (induction vs arbitrary: ws)
  case Nil
  then show ?case by (cases ws; cases "tl ws") (auto simp: readable_def neq_Nil_conv)
next
  case (Cons v vs)
  show ?case
  proof (cases ws)
    case Nil
    then show ?thesis using Cons.prems by (cases vs) (auto simp: readable_def neq_Nil_conv)
  next
    case (Cons w ws')
    define a where "a = (if vs = [] then c # s else '','' @ join '','' (map f vs) @ c # s)"
    define b where "b = (if ws' = [] then c # t else '','' @ join '','' (map f ws') @ c # t)"
    have "f v @ a = f w @ b"
      using Cons.prems(3) \<open>ws = w # ws'\<close> by (auto simp: a_def b_def join_Cons_nonempty)
    moreover have "delim a" "delim b" using Cons.prems(2) by (auto simp: a_def b_def)
    ultimately have eq: "v = w" "a = b"
      using Cons.prems(1) \<open>ws = w # ws'\<close> unfolding readable_def by (auto dest: bspec)
    have "readable f (set vs) (set ws')" using Cons.prems(1) \<open>ws = w # ws'\<close> by (auto simp: readable_def)
    moreover have "join '','' (map f vs) @ c # s = join '','' (map f ws') @ c # t"
      using eq(2) Cons.prems(2) by (auto simp: a_def b_def split: if_splits)
    ultimately have "vs = ws' \<and> s = t" using Cons.IH Cons.prems(2) by blast
    with eq(1) \<open>ws = w # ws'\<close> show ?thesis by simp
  qed
qed

lemma ser_head:
  "wf_json v \<Longrightarrow> ser v \<noteq> [] \<and> hd (ser v) \<notin> set '',]}''"
  by (cases v) (auto simp: json_string_def quote_def)

lemma number_end:
  assumes "set m \<subseteq> num_chars" "set n \<subseteq> num_chars" "delim s" "delim t" "m @ s = n @ t"
  shows "m = n \<and> s = t"
proof -
  have stop: "takeWhile (\<lambda>c. c \<in> num_chars) (m @ s) = m" if "set m \<subseteq> num_chars" "delim s" for m s
  proof -
    have "takeWhile (\<lambda>c. c \<in> num_chars) s = []"
      using that(2) by (cases s) (auto simp: num_chars_def)
    then show ?thesis using that(1) by (subst takeWhile_append2) auto
  qed
  have "m = n" using stop [OF assms(1,3)] stop [OF assms(2,4)] assms(5) by simp
  with assms(5) show ?thesis by simp
qed

definition same_text :: "json \<Rightarrow> json \<Rightarrow> bool" where
  "same_text v w \<longleftrightarrow> (\<forall>s t. delim s \<longrightarrow> delim t \<longrightarrow> ser v @ s = ser w @ t \<longrightarrow> v = w \<and> s = t)"

lemma readable_ser:
  assumes "\<And>v w. v \<in> set vs \<Longrightarrow> wf_json v \<Longrightarrow> wf_json w \<Longrightarrow> same_text v w" "list_all wf_json vs" "list_all wf_json ws"
  shows "readable ser (set vs) (set ws)"
  using assms ser_head unfolding readable_def same_text_def list_all_iff by blast

lemma readable_pairs:
  assumes "\<And>k v w. (k, v) \<in> set kvs \<Longrightarrow> wf_json w \<Longrightarrow> same_text v w"
    and wf: "list_all (\<lambda>(k, v). wf_json v) kvs" "list_all (\<lambda>(k, v). wf_json v) kws"
  shows "readable (\<lambda>(k, v). json_string k @ '':'' @ ser v) (set kvs) (set kws)"
  unfolding readable_def
proof (intro conjI ballI allI impI)
  fix p q s t
  assume p: "p \<in> set kvs" and q: "q \<in> set kws" and d: "delim s" "delim t"
    and eq: "(case p of (k, v) \<Rightarrow> json_string k @ '':'' @ ser v) @ s = (case q of (k, v) \<Rightarrow> json_string k @ '':'' @ ser v) @ t"
  obtain k v l w where kv: "p = (k, v)" "q = (l, w)" by (cases p; cases q)
  have "concat (map json_char k) @ quote # '':'' @ ser v @ s = concat (map json_char l) @ quote # '':'' @ ser w @ t"
    using eq kv by (simp add: json_string_def)
  then have "k = l" "'':'' @ ser v @ s = '':'' @ ser w @ t" using json_string_prefix by blast+
  moreover have "same_text v w" using assms(1) p q wf(2) kv by (force simp: list_all_iff)
  ultimately have "p = q \<and> s = t" using kv d by (simp add: same_text_def)
  then show "p = q" "s = t" by simp_all
qed (auto simp: json_string_def quote_def)

lemma same_text_wf: "wf_json v \<Longrightarrow> wf_json w \<Longrightarrow> same_text v w"
proof (induction v arbitrary: w)
  case (JNum n)
  show ?case
    unfolding same_text_def
  proof (intro allI impI)
    fix s t assume a: "delim s" "delim t" "ser (JNum n) @ s = ser w @ t"
    show "JNum n = w \<and> s = t"
    proof (cases w)
      case (JNum m)
      then show ?thesis using a JNum.prems number_end [of n m s t] by auto
    qed (use a JNum.prems in \<open>auto simp: neq_Nil_conv json_string_def quote_def split: if_splits\<close>)
  qed
next
  case (JStr x)
  show ?case
    unfolding same_text_def
  proof (intro allI impI)
    fix s t assume a: "delim s" "delim t" "ser (JStr x) @ s = ser w @ t"
    show "JStr x = w \<and> s = t"
    proof (cases w)
      case (JStr y)
      then show ?thesis using a json_string_prefix [of x s y t] by (simp add: json_string_def)
    qed (use a JStr.prems in \<open>auto simp: neq_Nil_conv json_string_def quote_def split: if_splits\<close>)
  qed
next
  case (JArr vs)
  show ?case
    unfolding same_text_def
  proof (intro allI impI)
    fix s t assume a: "delim s" "delim t" "ser (JArr vs) @ s = ser w @ t"
    show "JArr vs = w \<and> s = t"
    proof (cases w)
      case (JArr ws)
      have "readable ser (set vs) (set ws)"
        using JArr.IH JArr.prems \<open>w = JArr ws\<close> by (intro readable_ser) simp_all
      from join_readable [OF this, of "CHR '']''" s t] show ?thesis using a \<open>w = JArr ws\<close> by simp
    qed (use a JArr.prems in \<open>auto simp: neq_Nil_conv json_string_def quote_def split: if_splits\<close>)
  qed
next
  case (JObj kvs)
  show ?case
    unfolding same_text_def
  proof (intro allI impI)
    fix s t assume a: "delim s" "delim t" "ser (JObj kvs) @ s = ser w @ t"
    show "JObj kvs = w \<and> s = t"
    proof (cases w)
      case (JObj kws)
      have IH: "same_text v u" if "(k, v) \<in> set kvs" "wf_json u" for k v u
        using JObj.IH [of "(k, v)" v u] JObj.prems(1) that by (force simp: list_all_iff)
      have "readable (\<lambda>(k, v). json_string k @ '':'' @ ser v) (set kvs) (set kws)"
        using IH JObj.prems \<open>w = JObj kws\<close> by (intro readable_pairs) simp_all
      from join_readable [OF this, of "CHR ''}''" s t] show ?thesis using a \<open>w = JObj kws\<close> by simp
    qed (use a JObj.prems in \<open>auto simp: neq_Nil_conv json_string_def quote_def split: if_splits\<close>)
  qed
next
  case JNull
  show ?case
    unfolding same_text_def
    by (cases w) (use JNull in \<open>auto simp: neq_Nil_conv json_string_def quote_def split: if_splits\<close>)
next
  case (JBool b)
  show ?case
    unfolding same_text_def
    by (cases w) (use JBool in \<open>auto simp: neq_Nil_conv json_string_def quote_def split: if_splits\<close>)
qed

subsection \<open>Retries compare payloads by their canonical text\<close>

text \<open>The canonical text identifies a payload up to the order of object properties: two well formed
  JSON values have the same \<open>canonicalJson\<close> exactly when sorting every object of theirs by property
  name makes them equal. So two requests with the same idempotency key count as a retry only if they
  carry the same payload, and a retry that lists the properties in another order is recognised.\<close>
theorem canonicalJson_iff:
  assumes "wf_json a" "wf_json b"
  shows "canonicalJson a = canonicalJson b \<longleftrightarrow> norm_json a = norm_json b"
proof
  assume "canonicalJson a = canonicalJson b"
  then have "ser (norm_json a) @ [] = ser (norm_json b) @ []" by (simp add: ser_norm)
  moreover have "same_text (norm_json a) (norm_json b)"
    using assms wf_norm same_text_wf by blast
  ultimately show "norm_json a = norm_json b" unfolding same_text_def by (auto simp: delim_def)
next
  assume "norm_json a = norm_json b"
  then show "canonicalJson a = canonicalJson b" by (metis ser_norm)
qed

definition ex_payload :: "bool \<Rightarrow> json" where
  "ex_payload swap =
     (let x = (''to'', JStr ''al, b''); y = (''n'', JArr [JNum ''-1.5e3'', JNull, JBool True])
      in JObj (if swap then [y, x] else [x, y]))"

theorem canonicalJson_iff_witness:
  "canonicalJson (ex_payload True) = canonicalJson (ex_payload False) \<and>
   canonicalJson (ex_payload True) \<noteq> canonicalJson (JObj [(''to'', JStr ''al'')])"
  using canonicalJson_iff [of "ex_payload True" "ex_payload False"]
    canonicalJson_iff [of "ex_payload True" "JObj [(''to'', JStr ''al'')]"]
  by (simp add: ex_payload_def num_chars_def)

end
