(* ===== verification/Schema.thy ===== *)
theory Schema
  imports Json Complex_Main
begin

text \<open>
  The tables of \<open>packages/engine/src/db/schema.ts\<close> that the modelled operations read or write, one
  record per table with the columns they use (a nullable column is an \<open>option\<close>, a timestamp column
  is whole seconds), and the database as the record of its tables. A table is the list of its rows.
  Columns no modelled operation touches (token hashes, JSON metadata, topics) are left out.
\<close>

subsection \<open>Rows\<close>

datatype dstatus = Queued | Delivered | Acked | Failed | DeadLettered

record agent_row =
  a_id :: id
  a_ws :: id
  a_name :: string
  a_type :: string
  a_status :: string
  a_locationType :: string
  a_locationNodeId :: "id option"
  a_providerName :: string
  a_resumable :: bool
  a_sessionRef :: "string option"
  a_originNodeId :: "id option"
  a_ackSeq :: int
  a_seq :: int
  a_lastSeen :: sec
  a_statusBefore :: "string option"
  a_liveRev :: int

record delivery_row =
  d_id :: id
  d_ws :: id
  d_messageId :: id
  d_agentId :: id
  d_mode :: string
  d_reason :: "string option"
  d_priority :: string
  d_status :: dstatus
  d_seq :: int
  d_locationType :: string
  d_locationNodeId :: "id option"
  d_routeNodeId :: "id option"
  d_routeNodeKind :: "string option"
  d_routeNodeRole :: "string option"
  d_adapter :: "string option"
  d_dispatchAttempts :: int
  d_nextAttemptAt :: "sec option"
  d_lastDispatchError :: "string option"
  d_expiresAt :: "sec option"
  d_deliveredAt :: "sec option"
  d_ackedAt :: "sec option"
  d_deadLetteredAt :: "sec option"
  d_retryable :: "bool option"
  d_availableAt :: "sec option"
  d_error :: "string option"
  d_createdAt :: sec
  d_updatedAt :: "sec option"

record message_row =
  m_id :: id
  m_ws :: id
  m_channelId :: id
  m_agentId :: id
  m_threadId :: "id option"
  m_body :: string
  m_createdAt :: sec

record channel_member =
  cm_channelId :: id
  cm_agentId :: id
  cm_lastReadId :: "id option"
  cm_isMuted :: bool

record dm_conversation =
  dc_id :: id
  dc_ws :: id
  dc_channelId :: id
  dc_dmType :: string

record dm_participant =
  dp_conversationId :: id
  dp_agentId :: id
  dp_leftAt :: "sec option"
  dp_lastReadId :: "id option"

record read_receipt =
  rr_messageId :: id
  rr_agentId :: id
  rr_readAt :: sec

record binding_row =
  b_ws :: id
  b_agentId :: id
  b_nodeId :: id
  b_status :: string

text \<open>
  An entry of a capability manifest; the columns that hold one keep it as JSON, and an old row may list
  bare names. A load is a finite measurement.
\<close>

record fleet_capability =
  cap_name :: string
  cap_kind :: "string option"
  cap_global :: "bool option"
  cap_queue :: "bool option"
  cap_executionMode :: "string option"

datatype manifest_item = CapName string | CapObj fleet_capability

record node_row =
  n_id :: id
  n_ws :: id
  n_name :: string
  n_kind :: string
  n_role :: string
  n_adapter :: string
  n_status :: string
  n_lastHeartbeatAt :: "sec option"
  n_machineId :: "string option"
  n_capabilities :: "manifest_item list"
  n_maxAgents :: int
  n_activeAgents :: int
  n_reservedAgents :: int
  n_version :: string
  n_handlersLive :: bool
  n_load :: rat
  n_loadReported :: bool
  n_provenLiveAt :: "sec option"
  n_livenessRevision :: int

record provider_row =
  p_ws :: id
  p_nodeId :: id
  p_name :: string
  p_status :: string
  p_lastHeartbeatAt :: "sec option"
  p_id :: id
  p_instanceId :: string
  p_capabilities :: "fleet_capability list"
  p_maxAgents :: int
  p_activeAgents :: int
  p_load :: rat
  p_loadReported :: bool
  p_handlersLive :: bool
  p_version :: string
  p_livenessRevision :: int

record action_row =
  ac_id :: id
  ac_ws :: id
  ac_name :: string
  ac_handlerAgentId :: "id option"
  ac_handlerNodeId :: "id option"
  ac_handlerProvider :: "string option"
  ac_isGlobal :: bool
  ac_queue :: bool
  ac_executionMode :: string
  ac_availableTo :: "string list option"
  ac_isActive :: bool
  ac_createdAt :: sec

text \<open>
  The task part of an invocation. An instant that the code keeps as an ISO 8601 text in UTC, which it
  compares as text, is the instant in milliseconds: texts of that fixed form compare as their instants.
\<close>

record task_state =
  ts_runId :: string
  ts_stepId :: string
  ts_dispatchId :: string
  ts_timeoutMs :: int
  ts_deadline :: ms
  ts_executionId :: "string option"
  ts_workerGeneration :: "string option"
  ts_acceptedAt :: "ms option"
  ts_accounting :: "json option"

datatype inv_status = Pending | Dispatched | Invoked | Running | Completed | Failed_inv

datatype inv_origin = LegacyUnknown | RegisteredAction | Builtin

record inv_row =
  i_id :: id
  i_ws :: id
  i_actionId :: "id option"
  i_actionName :: string
  i_origin :: inv_origin
  i_callerId :: "id option"
  i_callerName :: "string option"
  i_handlerAgentId :: "id option"
  i_handlerNodeId :: "id option"
  i_input :: json
  i_taskState :: "task_state option"
  i_output :: json
  i_status :: inv_status
  i_error :: "string option"
  i_durationMs :: "int option"
  i_dispatchedNodeId :: "id option"
  i_dispatchedAt :: "sec option"
  i_nodeLivenessRevision :: int
  i_providerAcceptedAttempt :: "int option"
  i_spawnReservedAt :: "sec option"
  i_attemptedNodeIds :: "id list"
  i_dispatchAttempts :: int
  i_dispatchedProvider :: "string option"
  i_retryAfterAt :: "sec option"
  i_handlerUnreachableSince :: "sec option"
  i_createdAt :: sec
  i_completedAt :: "sec option"

record db =
  agents :: "agent_row list"
  deliveries :: "delivery_row list"
  messages :: "message_row list"
  channelMembers :: "channel_member list"
  dmConversations :: "dm_conversation list"
  dmParticipants :: "dm_participant list"
  readReceipts :: "read_receipt list"
  agentNodeBindings :: "binding_row list"
  nodes :: "node_row list"
  nodeProviders :: "provider_row list"
  actions :: "action_row list"
  invocations :: "inv_row list"

subsection \<open>Lookups by key\<close>

definition agent_by_id :: "db \<Rightarrow> id \<Rightarrow> agent_row option" where
  "agent_by_id db i = first_row (filter (\<lambda>a. a_id a = i) (agents db))"

definition message_by_id :: "db \<Rightarrow> id \<Rightarrow> message_row option" where
  "message_by_id db i = first_row (filter (\<lambda>m. m_id m = i) (messages db))"

definition conversation_by_channel :: "db \<Rightarrow> id \<Rightarrow> dm_conversation option" where
  "conversation_by_channel db ch = first_row (filter (\<lambda>c. dc_channelId c = ch) (dmConversations db))"

lemma agent_by_id_Some: "agent_by_id db i = Some a \<Longrightarrow> a \<in> set (agents db) \<and> a_id a = i"
  unfolding agent_by_id_def by (drule first_row_Some) simp

lemma agent_by_id_eq:
  "distinct (map a_id (agents db)) \<Longrightarrow> a \<in> set (agents db) \<Longrightarrow> agent_by_id db (a_id a) = Some a"
  unfolding agent_by_id_def by (rule first_row_key)

lemma message_by_id_Some: "message_by_id db i = Some m \<Longrightarrow> m \<in> set (messages db) \<and> m_id m = i"
  unfolding message_by_id_def by (drule first_row_Some) simp

lemma message_by_id_eq:
  "distinct (map m_id (messages db)) \<Longrightarrow> m \<in> set (messages db) \<Longrightarrow> message_by_id db (m_id m) = Some m"
  unfolding message_by_id_def by (rule first_row_key)

text \<open>\<open>CAST(text AS BIGINT)\<close> of SQLite: the value of the longest prefix of decimal digits.\<close>

definition cast_bigint :: "string \<Rightarrow> nat" where
  "cast_bigint s = read_dec (takeWhile is_dec s)"

subsection \<open>SQL conditions\<close>

text \<open>A condition of a WHERE clause is true, false or NULL; a row is taken only when it is true.\<close>

type_synonym truth = "bool option"

definition sql_eq :: "'a option \<Rightarrow> 'a option \<Rightarrow> truth" where
  "sql_eq x y = (case (x, y) of (Some a, Some b) \<Rightarrow> Some (a = b) | _ \<Rightarrow> None)"

definition sql_and :: "truth \<Rightarrow> truth \<Rightarrow> truth" where
  "sql_and x y = (if x = Some False \<or> y = Some False then Some False
     else if x = None \<or> y = None then None else Some True)"

definition sql_not :: "truth \<Rightarrow> truth" where
  "sql_not x = map_option Not x"

subsection \<open>Delivery rows\<close>

definition active :: "delivery_row \<Rightarrow> bool" where
  "active d \<longleftrightarrow> d_status d = Queued \<or> d_status d = Delivered"

definition settled :: "delivery_row \<Rightarrow> bool" where
  "settled d \<longleftrightarrow> d_status d = Acked \<or> d_status d = DeadLettered"

text \<open>\<open>expires_at IS NULL OR expires_at > unixepoch()\<close>.\<close>

definition unexpired :: "sec \<Rightarrow> delivery_row \<Rightarrow> bool" where
  "unexpired now d \<longleftrightarrow> (case d_expiresAt d of None \<Rightarrow> True | Some e \<Rightarrow> e > now)"

definition same_key :: "delivery_row \<Rightarrow> delivery_row \<Rightarrow> bool" where
  "same_key d e \<longleftrightarrow> d_id d = d_id e \<and> d_ws d = d_ws e \<and> d_messageId d = d_messageId e
     \<and> d_agentId d = d_agentId e \<and> d_seq d = d_seq e"

lemma same_key_refl [simp]: "same_key d d"
  by (simp add: same_key_def)

lemma same_key_trans: "same_key d e \<Longrightarrow> same_key e f \<Longrightarrow> same_key d f"
  by (simp add: same_key_def)

lemma active_not_settled: "active d \<Longrightarrow> \<not> settled d"
  by (auto simp: active_def settled_def)

end
