(* ===== verification/Mailbox.thy ===== *)
theory Mailbox
  imports Schema
begin

text \<open>
  The mailbox: what the delivery tables promise, whichever operation touched them last.
  \<open>mb_inv\<close> is the invariant, \<open>mailbox_op\<close> is the contract every operation on the mailbox meets
  (interpreted on each operation in the theory that models it), and \<open>insert_delivery\<close> is one row of
  \<open>INSERT ... ON CONFLICT DO NOTHING\<close> with the trigger of migration 0029.
\<close>

subsection \<open>The invariant\<close>

definition row_ok :: "db \<Rightarrow> delivery_row \<Rightarrow> bool" where
  "row_ok db d \<longleftrightarrow>
     (\<exists>a \<in> set (agents db). a_id a = d_agentId d \<and> a_ws a = d_ws d \<and> 1 \<le> d_seq d \<and> d_seq d \<le> a_seq a
        \<and> (d_seq d \<le> a_ackSeq a \<longrightarrow> settled d))
   \<and> (\<exists>m \<in> set (messages db). m_id m = d_messageId d \<and> m_ws m = d_ws d)"

definition cm_key :: "channel_member \<Rightarrow> id \<times> id" where
  "cm_key m = (cm_channelId m, cm_agentId m)"

definition dp_key :: "dm_participant \<Rightarrow> id \<times> id" where
  "dp_key p = (dp_conversationId p, dp_agentId p)"

definition mb_inv :: "db \<Rightarrow> bool" where
  "mb_inv db \<longleftrightarrow>
     distinct (map a_id (agents db)) \<and> distinct (map m_id (messages db))
   \<and> distinct (map d_id (deliveries db))
   \<and> distinct (map (\<lambda>d. (d_messageId d, d_agentId d)) (deliveries db))
   \<and> distinct (map (\<lambda>d. (d_agentId d, d_seq d)) (deliveries db))
   \<and> distinct (map cm_key (channelMembers db)) \<and> distinct (map dp_key (dmParticipants db))
   \<and> (\<forall>a \<in> set (agents db). 0 \<le> a_seq a \<and> 0 \<le> a_ackSeq a)
   \<and> (\<forall>d \<in> set (deliveries db). row_ok db d)"

lemma mb_inv_distinct:
  assumes "mb_inv db"
  shows "distinct (map a_id (agents db))" "distinct (map m_id (messages db))" "distinct (map d_id (deliveries db))"
    "distinct (map (\<lambda>d. (d_messageId d, d_agentId d)) (deliveries db))"
    "distinct (map (\<lambda>d. (d_agentId d, d_seq d)) (deliveries db))"
    "distinct (map cm_key (channelMembers db))" "distinct (map dp_key (dmParticipants db))"
  using assms by (simp_all add: mb_inv_def)

lemma mb_inv_row: "mb_inv db \<Longrightarrow> d \<in> set (deliveries db) \<Longrightarrow> row_ok db d"
  by (simp add: mb_inv_def)

lemma mb_inv_agent:
  assumes "mb_inv db" "a \<in> set (agents db)" "b \<in> set (agents db)" "a_id a = a_id b"
  shows "a = b"
  using assms by (auto simp: mb_inv_def distinct_map dest: inj_onD)

lemma mb_inv_delivery:
  assumes "mb_inv db" "d \<in> set (deliveries db)" "e \<in> set (deliveries db)" "d_id d = d_id e"
  shows "d = e"
  using assms by (auto simp: mb_inv_def distinct_map dest: inj_onD)

lemma mb_inv_agent_row:
  assumes "mb_inv db" "d \<in> set (deliveries db)" "a \<in> set (agents db)" "a_id a = d_agentId d"
  shows "a_ws a = d_ws d" "1 \<le> d_seq d" "d_seq d \<le> a_seq a" "d_seq d \<le> a_ackSeq a \<Longrightarrow> settled d"
proof -
  obtain b where b: "b \<in> set (agents db)" "a_id b = d_agentId d" "a_ws b = d_ws d" "1 \<le> d_seq d"
    "d_seq d \<le> a_seq b" "d_seq d \<le> a_ackSeq b \<longrightarrow> settled d"
    using mb_inv_row [OF assms(1,2)] by (auto simp: row_ok_def)
  have "b = a" using mb_inv_agent [OF assms(1) b(1) assms(3)] b(2) assms(4) by simp
  with b show "a_ws a = d_ws d" "1 \<le> d_seq d" "d_seq d \<le> a_seq a" "d_seq d \<le> a_ackSeq a \<Longrightarrow> settled d" by simp_all
qed

subsection \<open>Updating delivery rows\<close>

text \<open>An update that changes no key column, and leaves nothing unsettled that was settled.\<close>

definition status_update :: "(delivery_row \<Rightarrow> bool) \<Rightarrow> (delivery_row \<Rightarrow> delivery_row) \<Rightarrow> bool" where
  "status_update P f \<longleftrightarrow>
     (\<forall>d. same_key d (f d)) \<and> (\<forall>d. P d \<longrightarrow> settled d \<longrightarrow> d_status (f d) = d_status d)"

lemma map_same_key:
  assumes "\<And>d. same_key d (f d)"
  shows "map d_id (upd_where P f ds) = map d_id ds"
    "map (\<lambda>d. (d_messageId d, d_agentId d)) (upd_where P f ds) = map (\<lambda>d. (d_messageId d, d_agentId d)) ds"
    "map (\<lambda>d. (d_agentId d, d_seq d)) (upd_where P f ds) = map (\<lambda>d. (d_agentId d, d_seq d)) ds"
  using assms by (simp_all add: map_upd_where same_key_def)

lemma row_ok_same_key:
  assumes "row_ok db d" "same_key d e" "settled d \<Longrightarrow> settled e" "agents db' = agents db" "messages db' = messages db"
  shows "row_ok db' e"
  using assms unfolding row_ok_def same_key_def by auto

lemma mb_inv_upd_deliveries:
  assumes inv: "mb_inv db" and upd: "status_update P f"
  shows "mb_inv (db\<lparr>deliveries := upd_where P f (deliveries db)\<rparr>)"
proof -
  have key: "\<And>d. same_key d (f d)" and st: "\<And>d. P d \<Longrightarrow> settled d \<Longrightarrow> d_status (f d) = d_status d"
    using upd by (simp_all add: status_update_def)
  have "row_ok (db\<lparr>deliveries := upd_where P f (deliveries db)\<rparr>) d"
    if "d \<in> set (upd_where P f (deliveries db))" for d
    using that
  proof (cases rule: in_upd_whereE)
    case (changed r)
    have "settled r \<Longrightarrow> settled d" using st [OF changed(2)] changed(3) by (simp add: settled_def)
    then show ?thesis
      using row_ok_same_key [OF mb_inv_row [OF inv changed(1)], of d] key changed(3) by simp
  next
    case same
    then show ?thesis using row_ok_same_key [OF mb_inv_row [OF inv same(1)], of d] by simp
  qed
  then show ?thesis
    using inv map_same_key [OF key, where P = P and ds = "deliveries db"] by (simp add: mb_inv_def)
qed

text \<open>Tables the invariant does not mention.\<close>

lemma mb_inv_other [simp]:
  "mb_inv (db\<lparr>dmConversations := x3\<rparr>) = mb_inv db"
  "mb_inv (db\<lparr>readReceipts := x4\<rparr>) = mb_inv db"
  "mb_inv (db\<lparr>agentNodeBindings := x5\<rparr>) = mb_inv db"
  "mb_inv (db\<lparr>nodes := x6\<rparr>) = mb_inv db"
  "mb_inv (db\<lparr>nodeProviders := x7\<rparr>) = mb_inv db"
  "mb_inv (db\<lparr>actions := x8\<rparr>) = mb_inv db"
  "mb_inv (db\<lparr>invocations := x9\<rparr>) = mb_inv db"
  by (simp_all add: mb_inv_def row_ok_def)

subsection \<open>The contract of a mailbox operation\<close>

locale mailbox_op =
  fixes op :: "db \<Rightarrow> db"
  assumes keeps_inv: "mb_inv db \<Longrightarrow> mb_inv (op db)"
    and keeps_settled: "mb_inv db \<Longrightarrow> d \<in> set (deliveries db) \<Longrightarrow> settled d \<Longrightarrow>
      \<exists>e \<in> set (deliveries (op db)). same_key d e \<and> d_status e = d_status d"
    and cursors_grow: "mb_inv db \<Longrightarrow> a \<in> set (agents db) \<Longrightarrow>
      \<exists>b \<in> set (agents (op db)). a_id b = a_id a \<and> a_ws b = a_ws a \<and> a_ackSeq a \<le> a_ackSeq b \<and> a_seq a \<le> a_seq b"
    and no_new_rows: "mb_inv db \<Longrightarrow> e \<in> set (deliveries (op db)) \<Longrightarrow> \<exists>d \<in> set (deliveries db). same_key d e"
begin

lemma never_reactivated:
  assumes "mb_inv db" "d \<in> set (deliveries db)" "settled d" "e \<in> set (deliveries (op db))" "d_id e = d_id d"
  shows "d_status e = d_status d"
proof -
  obtain e' where e': "e' \<in> set (deliveries (op db))" "same_key d e'" "d_status e' = d_status d"
    using keeps_settled [OF assms(1,2,3)] by blast
  have "e = e'"
    using mb_inv_delivery [OF keeps_inv [OF assms(1)] assms(4) e'(1)] assms(5) e'(2) by (simp add: same_key_def)
  with e' show ?thesis by simp
qed

lemma power_keeps_inv: "mb_inv db \<Longrightarrow> mb_inv ((op ^^ n) db)"
  by (induction n) (simp_all add: keeps_inv)

lemma cursor_hides_nothing:
  assumes "mb_inv db" "d \<in> set (deliveries (op db))" "a \<in> set (agents (op db))" "a_id a = d_agentId d" "active d"
  shows "a_ackSeq a < d_seq d"
  using mb_inv_agent_row(4) [OF keeps_inv [OF assms(1)] assms(2,3,4)] assms(5)
  by (meson active_not_settled linorder_not_less)

end

lemma same_status_refl: "d \<in> S \<Longrightarrow> \<exists>e \<in> S. same_key d e \<and> d_status e = d_status d"
  by (rule bexI [of _ d]) simp_all

lemma same_row_refl: "e \<in> S \<Longrightarrow> \<exists>d \<in> S. same_key d e"
  by (rule bexI [of _ e]) simp_all

lemma mailbox_op_id: "mailbox_op (\<lambda>db. db)"
  by unfold_locales (auto intro: same_status_refl same_row_refl)

lemma mailbox_op_comp:
  assumes "mailbox_op f" "mailbox_op g"
  shows "mailbox_op (\<lambda>db. g (f db))"
proof
  fix db assume "mb_inv db"
  then show "mb_inv (g (f db))" using assms by (simp add: mailbox_op.keeps_inv)
next
  fix db d assume d: "mb_inv db" "d \<in> set (deliveries db)" "settled d"
  obtain e where e: "e \<in> set (deliveries (f db))" "same_key d e" "d_status e = d_status d"
    using mailbox_op.keeps_settled [OF assms(1) d] by blast
  then have "settled e" using d(3) by (simp add: settled_def)
  from mailbox_op.keeps_settled [OF assms(2) mailbox_op.keeps_inv [OF assms(1) d(1)] e(1) this] e
  show "\<exists>e\<in>set (deliveries (g (f db))). same_key d e \<and> d_status e = d_status d"
    by (metis same_key_trans)
next
  fix db a assume a: "mb_inv db" "a \<in> set (agents db)"
  obtain b where b: "b \<in> set (agents (f db))" "a_id b = a_id a" "a_ws b = a_ws a" "a_ackSeq a \<le> a_ackSeq b" "a_seq a \<le> a_seq b"
    using mailbox_op.cursors_grow [OF assms(1) a] by blast
  from mailbox_op.cursors_grow [OF assms(2) mailbox_op.keeps_inv [OF assms(1) a(1)] b(1)] b
  show "\<exists>b\<in>set (agents (g (f db))). a_id b = a_id a \<and> a_ws b = a_ws a \<and> a_ackSeq a \<le> a_ackSeq b \<and> a_seq a \<le> a_seq b"
    by (metis order_trans)
next
  fix db e assume e: "mb_inv db" "e \<in> set (deliveries (g (f db)))"
  obtain d where d: "d \<in> set (deliveries (f db))" "same_key d e"
    using mailbox_op.no_new_rows [OF assms(2) mailbox_op.keeps_inv [OF assms(1) e(1)] e(2)] by blast
  from mailbox_op.no_new_rows [OF assms(1) e(1) d(1)] d(2)
  show "\<exists>d\<in>set (deliveries db). same_key d e" by (metis same_key_trans)
qed

lemma mailbox_op_foldl:
  "(\<And>x. mailbox_op (\<lambda>db. f db x)) \<Longrightarrow> mailbox_op (\<lambda>db. foldl f db xs)"
proof (induction xs)
  case Nil
  then show ?case by (simp add: mailbox_op_id)
next
  case (Cons x xs)
  then show ?case using mailbox_op_comp [of "\<lambda>db. f db x" "\<lambda>db. foldl f db xs"] by simp
qed

lemma mailbox_op_if:
  "mailbox_op f \<Longrightarrow> mailbox_op g \<Longrightarrow> mailbox_op (\<lambda>db. if P db then f db else g db)"
  unfolding mailbox_op_def by simp

lemma mailbox_op_upd_deliveries:
  assumes "status_update P f"
  shows "mailbox_op (\<lambda>db. db\<lparr>deliveries := upd_where P f (deliveries db)\<rparr>)"
proof
  fix db d assume d: "mb_inv db" "d \<in> set (deliveries db)" "settled d"
  let ?e = "if P d then f d else d"
  have "?e \<in> set (upd_where P f (deliveries db))" using d(2) by (auto simp: set_upd_where)
  moreover have "same_key d ?e \<and> d_status ?e = d_status d"
    using assms d(3) by (simp add: status_update_def)
  ultimately show "\<exists>e\<in>set (deliveries (db\<lparr>deliveries := upd_where P f (deliveries db)\<rparr>)).
      same_key d e \<and> d_status e = d_status d" by (intro bexI [of _ ?e]) simp_all
next
  fix db e assume "e \<in> set (deliveries (db\<lparr>deliveries := upd_where P f (deliveries db)\<rparr>))"
  then have "e \<in> set (upd_where P f (deliveries db))" by simp
  then show "\<exists>d\<in>set (deliveries db). same_key d e"
    by (cases rule: in_upd_whereE) (use assms in \<open>auto simp: status_update_def intro: same_row_refl\<close>)
qed (use assms in \<open>auto intro: mb_inv_upd_deliveries\<close>)

text \<open>An update of agent rows that moves neither cursor and no key.\<close>

definition agent_touch :: "(agent_row \<Rightarrow> agent_row) \<Rightarrow> bool" where
  "agent_touch f \<longleftrightarrow> (\<forall>a. a_id (f a) = a_id a \<and> a_ws (f a) = a_ws a \<and> a_seq (f a) = a_seq a
     \<and> a_ackSeq (f a) = a_ackSeq a)"

lemma mailbox_op_upd_agents:
  assumes "agent_touch f"
  shows "mailbox_op (\<lambda>db. db\<lparr>agents := upd_where P f (agents db)\<rparr>)"
proof
  have t: "a_id (f a) = a_id a" "a_ws (f a) = a_ws a" "a_seq (f a) = a_seq a" "a_ackSeq (f a) = a_ackSeq a" for a
    using assms by (simp_all add: agent_touch_def)
  fix db assume inv: "mb_inv db"
  let ?as = "upd_where P f (agents db)"
  have mem: "\<exists>b\<in>set ?as. a_id b = a_id a \<and> a_ws b = a_ws a \<and> a_seq b = a_seq a \<and> a_ackSeq b = a_ackSeq a"
    if "a \<in> set (agents db)" for a
    using that t by (intro bexI [of _ "if P a then f a else a"]) (auto simp: set_upd_where)
  show "mb_inv (db\<lparr>agents := ?as\<rparr>)"
    unfolding mb_inv_def
  proof (intro conjI ballI)
    fix d assume "d \<in> set (deliveries (db\<lparr>agents := ?as\<rparr>))"
    then have "row_ok db d" using inv by (simp add: mb_inv_def)
    then obtain a where a: "a \<in> set (agents db)" "a_id a = d_agentId d" "a_ws a = d_ws d" "1 \<le> d_seq d"
      "d_seq d \<le> a_seq a" "d_seq d \<le> a_ackSeq a \<longrightarrow> settled d"
      and m: "\<exists>m \<in> set (messages db). m_id m = d_messageId d \<and> m_ws m = d_ws d"
      by (auto simp: row_ok_def)
    obtain b where "b \<in> set ?as" "a_id b = a_id a" "a_ws b = a_ws a" "a_seq b = a_seq a" "a_ackSeq b = a_ackSeq a"
      using mem [OF a(1)] by blast
    with a m show "row_ok (db\<lparr>agents := ?as\<rparr>) d" by (auto simp: row_ok_def)
  next
    fix a assume "a \<in> set (agents (db\<lparr>agents := ?as\<rparr>))"
    then have "a \<in> set ?as" by simp
    then show "0 \<le> a_seq a" by (cases rule: in_upd_whereE) (use inv t in \<open>auto simp: mb_inv_def\<close>)
    from \<open>a \<in> set ?as\<close> show "0 \<le> a_ackSeq a"
      by (cases rule: in_upd_whereE) (use inv t in \<open>auto simp: mb_inv_def\<close>)
  qed (use inv in \<open>simp_all add: mb_inv_def map_upd_where t\<close>)
  show "\<exists>b\<in>set (agents (db\<lparr>agents := ?as\<rparr>)). a_id b = a_id a \<and> a_ws b = a_ws a \<and> a_ackSeq a \<le> a_ackSeq b \<and> a_seq a \<le> a_seq b"
    if "a \<in> set (agents db)" for a
    using mem [OF that] by auto
qed (auto intro: same_status_refl same_row_refl)

lemma mailbox_op_other:
  "(\<And>db. agents (f db) = agents db \<and> deliveries (f db) = deliveries db \<and> messages (f db) = messages db
     \<and> map cm_key (channelMembers (f db)) = map cm_key (channelMembers db)
     \<and> map dp_key (dmParticipants (f db)) = map dp_key (dmParticipants db)) \<Longrightarrow> mailbox_op f"
  by unfold_locales (auto simp: mb_inv_def row_ok_def intro: same_status_refl same_row_refl)

end
