(* ===== verification/DeliveryPolicy.thy ===== *)
theory DeliveryPolicy
  imports Schema
begin

text \<open>
  The workspace growth policy of \<open>engine/workspaceDeliveryPolicy.ts\<close>: the cap and reserve that a host's
  configuration resolves to, the active depth of a workspace, and the growth limit of an audience.
  A configured value is any JavaScript value: a number with an integral value, or something else.
  The host's request-time resolver is a parameter (its answer for the workspace).
\<close>

datatype cfg_num = IntNum int | OtherVal

fun positiveIntOrUndefined :: "cfg_num option \<Rightarrow> int option" where
  "positiveIntOrUndefined (Some (IntNum v)) = (if isSafeInteger v \<and> 0 < v then Some v else None)"
| "positiveIntOrUndefined _ = None"

fun nonnegativeIntOrUndefined :: "cfg_num option \<Rightarrow> int option" where
  "nonnegativeIntOrUndefined (Some (IntNum v)) = (if isSafeInteger v \<and> 0 \<le> v then Some v else None)"
| "nonnegativeIntOrUndefined _ = None"

record policy_fields =
  pf_cap :: "cfg_num option"
  pf_reserve :: "cfg_num option"

record policy_config =
  pc_fields :: policy_fields
  pc_workspaces :: "string \<Rightarrow> policy_fields option"
  pc_resolve :: "(string \<Rightarrow> policy_fields option) option"

record delivery_policy =
  dp_cap :: int
  dp_reserve :: int

definition orElse :: "'a option \<Rightarrow> 'a option \<Rightarrow> 'a option" where
  "orElse x y = (case x of Some v \<Rightarrow> Some v | None \<Rightarrow> y)"

definition resolveWorkspaceDeliveryPolicy :: "policy_config option \<Rightarrow> string \<Rightarrow> delivery_policy option" where
  "resolveWorkspaceDeliveryPolicy config workspaceId =
     (let scoped = Option.bind config (\<lambda>c. pc_workspaces c workspaceId);
          fields = map_option pc_fields config;
          cap = orElse (positiveIntOrUndefined (Option.bind scoped pf_cap))
                  (positiveIntOrUndefined (Option.bind fields pf_cap))
      in case cap of None \<Rightarrow> None
         | Some cap \<Rightarrow>
             let configuredReserve =
               (case orElse (nonnegativeIntOrUndefined (Option.bind scoped pf_reserve))
                       (nonnegativeIntOrUndefined (Option.bind fields pf_reserve)) of
                  Some r \<Rightarrow> r | None \<Rightarrow> 0)
             in Some \<lparr>dp_cap = cap, dp_reserve = min configuredReserve (cap - 1)\<rparr>)"

text \<open>\<open>dynamicWorkspaceDeliveryPolicySchema.parse\<close>: a missing reserve defaults to zero, anything else
  that is not a non-negative integer is a parse error.\<close>

definition parseDynamicPolicy :: "policy_fields \<Rightarrow> string + delivery_policy" where
  "parseDynamicPolicy d =
     (case positiveIntOrUndefined (pf_cap d) of
        None \<Rightarrow> Inl ''ZodError: cap''
      | Some cap \<Rightarrow>
          (case pf_reserve d of
             None \<Rightarrow> Inr \<lparr>dp_cap = cap, dp_reserve = min 0 (cap - 1)\<rparr>
           | Some v \<Rightarrow>
               (case nonnegativeIntOrUndefined (Some v) of
                  None \<Rightarrow> Inl ''ZodError: reserve''
                | Some r \<Rightarrow> Inr \<lparr>dp_cap = cap, dp_reserve = min r (cap - 1)\<rparr>)))"

definition resolveWorkspaceDeliveryPolicyFor ::
  "policy_config option \<Rightarrow> string \<Rightarrow> string + delivery_policy option" where
  "resolveWorkspaceDeliveryPolicyFor config workspaceId =
     (case Option.bind (Option.bind config pc_resolve) (\<lambda>resolve. resolve workspaceId) of
        Some dynamic \<Rightarrow> map_sum id Some (parseDynamicPolicy dynamic)
      | None \<Rightarrow> Inr (resolveWorkspaceDeliveryPolicy config workspaceId))"

subsection \<open>Depth and limit\<close>

datatype audience = Broadcast | Targeted

definition workspaceGrowthLimit :: "delivery_policy \<Rightarrow> audience \<Rightarrow> int" where
  "workspaceGrowthLimit policy audience =
     (let reserve = (if audience = Broadcast then max 0 (dp_reserve policy) else 0)
      in dp_cap policy - reserve)"

definition counts :: "sec \<Rightarrow> id \<Rightarrow> delivery_row \<Rightarrow> bool" where
  "counts now ws d \<longleftrightarrow> d_ws d = ws \<and> active d \<and> unexpired now d"

definition workspaceActiveDepth :: "sec \<Rightarrow> db \<Rightarrow> id \<Rightarrow> nat" where
  "workspaceActiveDepth now db ws = length (filter (counts now ws) (deliveries db))"

definition currentWorkspaceDepth :: "ms \<Rightarrow> db \<Rightarrow> id \<Rightarrow> nat" where
  "currentWorkspaceDepth now db ws =
     length (filter (\<lambda>d. d_ws d = ws \<and> (d_status d = Queued \<or> d_status d = Delivered) \<and> unexpired (toSec now) d)
       (deliveries db))"

lemma currentWorkspaceDepth_eq: "currentWorkspaceDepth now db ws = workspaceActiveDepth (toSec now) db ws"
  by (simp add: currentWorkspaceDepth_def workspaceActiveDepth_def counts_def active_def cong: filter_cong)

subsection \<open>Every resolved policy leaves room for broadcasts\<close>

lemma positiveInt_Some: "positiveIntOrUndefined v = Some n \<Longrightarrow> 0 < n"
  by (cases v rule: positiveIntOrUndefined.cases) (auto split: if_splits)

lemma nonnegativeInt_Some: "nonnegativeIntOrUndefined v = Some n \<Longrightarrow> 0 \<le> n"
  by (cases v rule: nonnegativeIntOrUndefined.cases) (auto split: if_splits)

lemma orElse_Some: "orElse x y = Some v \<Longrightarrow> x = Some v \<or> y = Some v"
  by (cases x) (simp_all add: orElse_def)

lemma static_policy_bounds:
  assumes "resolveWorkspaceDeliveryPolicy config w = Some p"
  shows "0 < dp_cap p \<and> 0 \<le> dp_reserve p \<and> dp_reserve p < dp_cap p"
proof -
  let ?scoped = "Option.bind config (\<lambda>c. pc_workspaces c w)" and ?f = "map_option pc_fields config"
  obtain cap where c: "orElse (positiveIntOrUndefined (Option.bind ?scoped pf_cap))
      (positiveIntOrUndefined (Option.bind ?f pf_cap)) = Some cap"
    using assms by (auto simp: resolveWorkspaceDeliveryPolicy_def Let_def split: option.splits)
  have "0 < cap" using orElse_Some [OF c] positiveInt_Some by blast
  moreover have "0 \<le> r" if "orElse (nonnegativeIntOrUndefined (Option.bind ?scoped pf_reserve))
      (nonnegativeIntOrUndefined (Option.bind ?f pf_reserve)) = Some r" for r
    using orElse_Some [OF that] nonnegativeInt_Some by blast
  ultimately show ?thesis
    using assms c by (auto simp: resolveWorkspaceDeliveryPolicy_def Let_def split: option.splits)
qed

lemma dynamic_policy_bounds:
  assumes "parseDynamicPolicy d = Inr p"
  shows "0 < dp_cap p \<and> 0 \<le> dp_reserve p \<and> dp_reserve p < dp_cap p"
  using assms
  by (auto simp: parseDynamicPolicy_def split: option.splits dest!: positiveInt_Some nonnegativeInt_Some)

text \<open>Whatever a host configures, statically or through its request-time resolver, a resolved policy has a
  positive cap and a reserve below it, so broadcasts are never starved: both audiences may grow a
  workspace, and a targeted send may always grow it at least as far as a broadcast.\<close>

theorem resolved_policy_admits:
  assumes "resolveWorkspaceDeliveryPolicyFor config w = Inr (Some p)"
  shows "0 < workspaceGrowthLimit p Broadcast \<and> workspaceGrowthLimit p Broadcast \<le> workspaceGrowthLimit p Targeted
    \<and> workspaceGrowthLimit p Targeted = dp_cap p"
proof -
  have "0 < dp_cap p \<and> 0 \<le> dp_reserve p \<and> dp_reserve p < dp_cap p"
    using assms static_policy_bounds [of config w p] dynamic_policy_bounds [of _ p]
    by (auto simp: resolveWorkspaceDeliveryPolicyFor_def map_sum_def split: option.splits sum.splits)
  then show ?thesis by (simp add: workspaceGrowthLimit_def)
qed

lemma resolved_policy_admits_witness:
  "0 < workspaceGrowthLimit \<lparr>dp_cap = 3, dp_reserve = 2\<rparr> Broadcast"
proof -
  have "resolveWorkspaceDeliveryPolicyFor (Some \<lparr>pc_fields = \<lparr>pf_cap = Some (IntNum 3), pf_reserve = Some (IntNum 9)\<rparr>,
      pc_workspaces = (\<lambda>_. None), pc_resolve = None\<rparr>) ''w'' = Inr (Some \<lparr>dp_cap = 3, dp_reserve = 2\<rparr>)"
    by (simp add: resolveWorkspaceDeliveryPolicyFor_def resolveWorkspaceDeliveryPolicy_def orElse_def isSafeInteger_def)
  from resolved_policy_admits [OF this] show ?thesis by simp
qed

end
