(* ===== verification/AtomicWrites.thy ===== *)
theory AtomicWrites
  imports Schema
begin

text \<open>
  The write port (\<open>ports/database.ts\<close>): running a list of write statements on a handle that has
  transactions (Node), an atomic batch (D1), or neither. A statement is a function from the database
  to a constraint error or the changed database. A constraint error is the column whose NOT NULL
  constraint failed, or another failure. An error that is thrown is the list of the error and its causes, outermost
  first; a driver (D1) may wrap the error of a statement in others.
\<close>

datatype constraint_error = NotNull string | OtherError string

datatype write_error =
    WorkspaceDeliveryCapacityError
  | AtomicRequired
  | Failed_write constraint_error

datatype constraint_kind =
    mailbox_capacity | workspace_delivery_capacity | a2a_registration_changed | address_changed | node_capacity

text \<open>What the message of one error says.\<close>

definition message_kind :: "constraint_error \<Rightarrow> constraint_kind option" where
  "message_kind e =
     (case e of
        OtherError _ \<Rightarrow> None
      | NotNull col \<Rightarrow>
          (if col = ''messages.agent_id'' \<or> col = ''a2a_inbound.workspace_id'' then Some a2a_registration_changed
           else if col = ''deliveries.workspace_id'' then Some mailbox_capacity
           else if col = ''deliveries.status'' then Some workspace_delivery_capacity
           else if col = ''messages.body'' then Some address_changed
           else if col = ''nodes.active_agents'' then Some node_capacity
           else None))"

fun databaseConstraintKind :: "constraint_error list \<Rightarrow> constraint_kind option" where
  "databaseConstraintKind [] = None"
| "databaseConstraintKind (e # causes) =
     (case message_kind e of Some k \<Rightarrow> Some k | None \<Rightarrow> databaseConstraintKind causes)"

lemma databaseConstraintKind_wrapped:
  "(\<And>w. w \<in> set wrappers \<Longrightarrow> message_kind w = None) \<Longrightarrow> databaseConstraintKind (wrappers @ causes) = databaseConstraintKind causes"
  by (induction wrappers) simp_all

datatype capability = WithTransaction | Batch | Bare

type_synonym statement = "db \<Rightarrow> constraint_error + db"

text \<open>\<open>runSequentially\<close>: the first failing statement stops the run; what ran before it stays.\<close>

fun runSequentially :: "statement list \<Rightarrow> db \<Rightarrow> constraint_error option \<times> db" where
  "runSequentially [] db = (None, db)"
| "runSequentially (s # ss) db =
     (case s db of Inl e \<Rightarrow> (Some e, db) | Inr db' \<Rightarrow> runSequentially ss db')"

text \<open>A transaction or a batch that fails leaves the database as it was.\<close>

definition executeAtomicWrites ::
  "capability \<Rightarrow> bool \<Rightarrow> statement list \<Rightarrow> db \<Rightarrow> write_error option \<times> db" where
  "executeAtomicWrites handle requireAtomic statements db =
     (if requireAtomic \<and> handle = Bare then (Some AtomicRequired, db)
      else case runSequentially statements db of
        (None, db') \<Rightarrow> (None, db')
      | (Some e, db') \<Rightarrow> (Some (Failed_write e), if handle = Bare then db' else db))"

definition runAtomicWrites ::
  "capability \<Rightarrow> bool \<Rightarrow> statement list \<Rightarrow> db \<Rightarrow> write_error option \<times> db" where
  "runAtomicWrites handle requireAtomic statements db =
     (case executeAtomicWrites handle requireAtomic statements db of
        (Some (Failed_write e), db') \<Rightarrow>
          (if databaseConstraintKind [e] = Some workspace_delivery_capacity
           then (Some WorkspaceDeliveryCapacityError, db')
           else (Some (Failed_write e), db'))
      | r \<Rightarrow> r)"

lemma runAtomicWrites_error_rolls_back:
  assumes "runAtomicWrites handle requireAtomic ss db = (Some e, db')" "requireAtomic \<or> handle \<noteq> Bare"
  shows "db' = db"
  using assms
  by (auto simp: runAtomicWrites_def executeAtomicWrites_def split: prod.splits option.splits write_error.splits if_splits)

lemma runAtomicWrites_ok:
  "runAtomicWrites handle requireAtomic ss db = (None, db') \<Longrightarrow> runSequentially ss db = (None, db')"
  by (auto simp: runAtomicWrites_def executeAtomicWrites_def split: prod.splits option.splits write_error.splits if_splits)

lemma runAtomicWrites_capacity:
  "runAtomicWrites handle requireAtomic ss db = (Some WorkspaceDeliveryCapacityError, db') \<Longrightarrow>
     fst (runSequentially ss db) = Some (NotNull ''deliveries.status'')"
  by (auto simp: runAtomicWrites_def executeAtomicWrites_def message_kind_def
      split: prod.splits option.splits write_error.splits if_splits constraint_error.splits)

end
