(* ===== verification/Liveness.thy ===== *)
theory Liveness
  imports Schema
begin

text \<open>
  Whether a node or one of its providers is up (\<open>engine/nodeLiveness.ts\<close>, the liveness tests of
  \<open>engine/placement.ts\<close> and \<open>engine/nodeProvider.ts\<close>, \<open>ports/nodeLiveness.ts\<close>): from the heartbeat
  column of the database, or from an authority when the deployment has one. The authority is a
  parameter: \<open>None\<close> when none is configured, else its answer per workspace and node, which is \<open>None\<close>
  when the call fails. Facts: being ready implies being live, which implies being allowed to own; an
  authority that does not answer makes nothing live, but releases no owner.
\<close>

definition NODE_LIVENESS_TTL_MS :: ms where "NODE_LIVENESS_TTL_MS = 45000"
definition PROVIDER_ATTACH_LIVENESS_MS :: ms where "PROVIDER_ATTACH_LIVENESS_MS = 35000"

subsection \<open>Snapshots\<close>

datatype liveness_status = LOnline | LOffline | LUnknown

record provider_snapshot =
  ps_name :: string
  ps_live :: bool
  ps_expires_at :: ms
  ps_last_received_at :: ms
  ps_handlers_live :: bool

record node_snapshot =
  ns_status :: liveness_status
  ns_providers :: "provider_snapshot list"

type_synonym authority = "(id \<Rightarrow> id \<Rightarrow> node_snapshot option) option"

definition inspectNodeLiveness :: "authority \<Rightarrow> id \<Rightarrow> id \<Rightarrow> node_snapshot option" where
  "inspectNodeLiveness auth ws nodeId =
     (case auth of None \<Rightarrow> None
      | Some inspect \<Rightarrow> Some (case inspect ws nodeId of
          Some s \<Rightarrow> s | None \<Rightarrow> \<lparr>ns_status = LUnknown, ns_providers = []\<rparr>))"

text \<open>A receipt lease that is running at \<open>now\<close>.\<close>

definition leased :: "ms \<Rightarrow> provider_snapshot \<Rightarrow> bool" where
  "leased now p \<longleftrightarrow> ps_live p \<and> ps_expires_at p > now \<and> ps_last_received_at p \<le> now"

definition snapshotOnline :: "ms \<Rightarrow> node_snapshot \<Rightarrow> bool" where
  "snapshotOnline now s \<longleftrightarrow> ns_status s = LOnline \<and> list_ex (leased now) (ns_providers s)"

subsection \<open>Liveness from the heartbeat columns\<close>

definition recent :: "ms \<Rightarrow> sec option \<Rightarrow> bool" where
  "recent now hb \<longleftrightarrow>
     (case hb of None \<Rightarrow> False | Some t \<Rightarrow> 0 \<le> now - 1000 * t \<and> now - 1000 * t \<le> NODE_LIVENESS_TTL_MS)"

definition isNodeLive :: "ms \<Rightarrow> node_row \<Rightarrow> bool" where
  "isNodeLive now n \<longleftrightarrow> n_status n = ''online'' \<and> recent now (n_lastHeartbeatAt n)"

definition isProviderLive :: "ms \<Rightarrow> provider_row \<Rightarrow> bool" where
  "isProviderLive now p \<longleftrightarrow> p_status p = ''online'' \<and> p_handlersLive p \<and> recent now (p_lastHeartbeatAt p)"

subsection \<open>Decisions\<close>

definition nodeLive :: "authority \<Rightarrow> ms \<Rightarrow> node_row \<Rightarrow> bool" where
  "nodeLive auth now n \<longleftrightarrow>
     (case inspectNodeLiveness auth (n_ws n) (n_id n) of Some s \<Rightarrow> snapshotOnline now s | None \<Rightarrow> isNodeLive now n)"

definition providerLive :: "authority \<Rightarrow> ms \<Rightarrow> id \<Rightarrow> id \<Rightarrow> provider_row \<Rightarrow> bool" where
  "providerLive auth now ws nodeId row \<longleftrightarrow>
     (case inspectNodeLiveness auth ws nodeId of
        None \<Rightarrow> isProviderLive now row
      | Some s \<Rightarrow> ns_status s = LOnline \<and>
          list_ex (\<lambda>p. ps_name p = p_name row \<and> leased now p \<and> ps_handlers_live p) (ns_providers s))"

definition nodeReady :: "authority \<Rightarrow> ms \<Rightarrow> node_row \<Rightarrow> bool" where
  "nodeReady auth now n \<longleftrightarrow>
     (case inspectNodeLiveness auth (n_ws n) (n_id n) of
        None \<Rightarrow> isNodeLive now n \<and> n_handlersLive n
      | Some s \<Rightarrow> ns_status s = LOnline \<and> list_ex (\<lambda>p. leased now p \<and> ps_handlers_live p) (ns_providers s))"

definition nodeMayOwn :: "authority \<Rightarrow> ms \<Rightarrow> node_row \<Rightarrow> bool" where
  "nodeMayOwn auth now n \<longleftrightarrow>
     (case inspectNodeLiveness auth (n_ws n) (n_id n) of Some s \<Rightarrow> ns_status s \<noteq> LOffline | None \<Rightarrow> isNodeLive now n)"

text \<open>Batches of eight: the answers of a batch are awaited together, and its rows are kept in order.\<close>

definition filterAsync :: "('a \<Rightarrow> bool) \<Rightarrow> 'a list \<Rightarrow> 'a list" where
  "filterAsync predicate rows = concat (map (filter predicate) (pages 8 rows))"

text \<open>One inspection for each distinct node; the workers take the identifiers in order.\<close>

definition inspectNodesLiveness :: "authority \<Rightarrow> id \<Rightarrow> id list \<Rightarrow> id \<rightharpoonup> node_snapshot" where
  "inspectNodesLiveness auth ws nodeIds =
     (if auth = None then Map.empty
      else foldl (\<lambda>m i. m(i := inspectNodeLiveness auth ws i)) Map.empty (uniq nodeIds))"

text \<open>The nodes whose owners are told to read their binding again; failures of the calls are swallowed.\<close>

definition invalidateDirectPresence :: "bool \<Rightarrow> id list \<Rightarrow> id list" where
  "invalidateDirectPresence canInvalidate agentIds =
     (if canInvalidate then map (\<lambda>a. ''node_direct_'' @ a) (uniq agentIds) else [])"

subsection \<open>Attaching a provider, reusing a row\<close>

datatype attach_decision = NoConflict | ProviderInstanceConflict

definition providerAttachDecision :: "string option \<Rightarrow> ms \<Rightarrow> string \<Rightarrow> ms \<Rightarrow> attach_decision" where
  "providerAttachDecision existingInstanceId existingLastSeen incomingInstanceId now =
     (case existingInstanceId of
        None \<Rightarrow> NoConflict
      | Some e \<Rightarrow>
          if e = incomingInstanceId then NoConflict
          else if now - existingLastSeen \<le> PROVIDER_ATTACH_LIVENESS_MS then ProviderInstanceConflict
          else NoConflict)"

definition isReusableForMachineMatch :: "ms \<Rightarrow> node_row \<Rightarrow> bool" where
  "isReusableForMachineMatch now n \<longleftrightarrow>
     (if isNodeLive now n then False
      else if (case n_lastHeartbeatAt n of None \<Rightarrow> False | Some h \<Rightarrow> 1000 * h > now) then False
      else case n_provenLiveAt n of
          None \<Rightarrow> False
        | Some proven \<Rightarrow> if 1000 * proven > now then False else now - 1000 * proven > NODE_LIVENESS_TTL_MS)"

subsection \<open>Facts\<close>

lemma filterAsync_filter [simp]: "filterAsync predicate rows = filter predicate rows"
proof -
  have "filterAsync predicate rows = filter predicate (concat (pages 8 rows))"
    by (simp add: filterAsync_def filter_concat)
  then show ?thesis by (simp add: concat_pages)
qed

lemma nodeReady_nodeLive: "nodeReady auth now n \<Longrightarrow> nodeLive auth now n"
  by (auto simp: nodeReady_def nodeLive_def snapshotOnline_def list_ex_iff split: option.splits)

lemma nodeLive_nodeMayOwn: "nodeLive auth now n \<Longrightarrow> nodeMayOwn auth now n"
  by (auto simp: nodeLive_def nodeMayOwn_def snapshotOnline_def split: option.splits)

lemma inspectNodesLiveness_lookup:
  assumes "auth \<noteq> None"
  shows "inspectNodesLiveness auth ws ids i = (if i \<in> set ids then inspectNodeLiveness auth ws i else None)"
proof -
  have "foldl (\<lambda>m i. m(i := inspectNodeLiveness auth ws i)) m xs i
      = (if i \<in> set xs then inspectNodeLiveness auth ws i else m i)" for m xs
    by (induction xs arbitrary: m) auto
  with assms show ?thesis by (auto simp: inspectNodesLiveness_def)
qed

text \<open>A deployment whose authority does not answer is safe on both sides: no node counts as ready or
  live, so no work is sent to it, and every node may still keep what it owns, so no incumbent identity is
  released to another location.\<close>
theorem authority_outage_is_safe:
  assumes "inspect (n_ws n) (n_id n) = None"
  shows "\<not> nodeReady (Some inspect) now n \<and> \<not> nodeLive (Some inspect) now n
    \<and> \<not> providerLive (Some inspect) now (n_ws n) (n_id n) p \<and> nodeMayOwn (Some inspect) now n"
  using assms
  by (simp add: nodeReady_def nodeLive_def providerLive_def nodeMayOwn_def inspectNodeLiveness_def snapshotOnline_def)

definition ex_node :: "id \<Rightarrow> string \<Rightarrow> node_row" where
  "ex_node i nm = \<lparr>n_id = i, n_ws = ''w'', n_name = nm, n_kind = ''ws'', n_role = ''broker'', n_adapter = ''ws.node.v1'',
     n_status = ''online'', n_lastHeartbeatAt = Some 100, n_machineId = None,
     n_capabilities = [CapObj \<lparr>cap_name = ''spawn:claude'', cap_kind = None, cap_global = None, cap_queue = None,
       cap_executionMode = None\<rparr>],
     n_maxAgents = 2, n_activeAgents = 0, n_reservedAgents = 0, n_version = ''1'', n_handlersLive = True, n_load = 0,
     n_loadReported = True, n_provenLiveAt = None, n_livenessRevision = 0\<rparr>"

definition ex_provider :: "id \<Rightarrow> string \<Rightarrow> provider_row" where
  "ex_provider nid nm = \<lparr>p_ws = ''w'', p_nodeId = nid, p_name = nm, p_status = ''online'', p_lastHeartbeatAt = Some 100,
     p_id = nid @ nm, p_instanceId = ''i'', p_capabilities = [], p_maxAgents = 2, p_activeAgents = 1, p_load = 1,
     p_loadReported = True, p_handlersLive = True, p_version = ''1'', p_livenessRevision = 0\<rparr>"

theorem authority_outage_is_safe_witness:
  "nodeMayOwn (Some (\<lambda>_ _. None)) 100000 (ex_node ''n1'' ''a'') \<and> \<not> nodeReady (Some (\<lambda>_ _. None)) 100000 (ex_node ''n1'' ''a'')
   \<and> nodeReady None 100000 (ex_node ''n1'' ''a'')"
  using authority_outage_is_safe [of "\<lambda>_ _. None" "ex_node ''n1'' ''a''" 100000 "ex_provider ''n1'' ''p''"]
  by (simp add: nodeReady_def inspectNodeLiveness_def isNodeLive_def recent_def NODE_LIVENESS_TTL_MS_def ex_node_def)

end
