(* ===== verification/DeliveryWrites.thy ===== *)
theory DeliveryWrites
  imports Mailbox DeliveryPolicy AtomicWrites Liveness
begin

text \<open>
  Delivery fan-out (\<open>engine/deliveryWrites.ts\<close>): the statement that materialises one row per recipient
  of a channel message, a group direct message or a direct message, with its routing, mute, identity,
  liveness and depth filters, the workspace admission guard, and the sequence number each row takes.

  A statement is evaluated on a snapshot: the rows it selects are computed from the tables as they
  were, and then inserted one by one. A row whose \<open>workspace_id\<close> or \<open>status\<close> comes out NULL violates
  a NOT NULL constraint, which fails the statement and rolls back the write that contains it: the
  result is then \<open>Inl\<close> and no table changes.
\<close>

subsection \<open>Recipients and their liveness\<close>

record recipient_lease =
  rl_agentId :: id
  rl_nodeId :: id
  rl_providerName :: string
  rl_expiresAt :: ms

definition deliveryId :: "id \<Rightarrow> id \<Rightarrow> id" where
  "deliveryId messageId agentId = ''del_'' @ messageId @ ''_'' @ agentId"

definition ttlSeconds :: "ms \<Rightarrow> sec" where
  "ttlSeconds ttlMs = max 1 ((ttlMs + 999) div 1000)"

definition nextDeliverySeq :: "agent_row \<Rightarrow> int" where
  "nextDeliverySeq a = max (a_seq a) (a_ackSeq a) + 1"

text \<open>The LEFT JOINs: the agent's active binding to the node it is located on, and its route's node.\<close>

definition active_binding :: "db \<Rightarrow> id \<Rightarrow> agent_row \<Rightarrow> binding_row option" where
  "active_binding db ws a =
     first_row (filter (\<lambda>b. b_ws b = ws \<and> b_agentId b = a_id a \<and> b_status b = ''active''
       \<and> a_locationType a = ''via_node'' \<and> a_locationNodeId a = Some (b_nodeId b)) (agentNodeBindings db))"

definition route_node_id :: "db \<Rightarrow> id \<Rightarrow> agent_row \<Rightarrow> id option" where
  "route_node_id db ws a =
     (case active_binding db ws a of Some b \<Rightarrow> Some (b_nodeId b) | None \<Rightarrow> a_locationNodeId a)"

definition route_node :: "db \<Rightarrow> id \<Rightarrow> agent_row \<Rightarrow> node_row option" where
  "route_node db ws a =
     first_row (filter (\<lambda>n. n_ws n = ws \<and> Some (n_id n) = route_node_id db ws a) (nodes db))"

definition authorityRecipient :: "sec \<Rightarrow> recipient_lease list \<Rightarrow> agent_row \<Rightarrow> bool" where
  "authorityRecipient now leases a \<longleftrightarrow>
     list_ex (\<lambda>l. rl_agentId l = a_id a \<and> a_locationNodeId a = Some (rl_nodeId l)
       \<and> rl_providerName l = a_providerName a \<and> now * 1000 + 999 < rl_expiresAt l) leases"

definition fresh_heartbeat :: "sec \<Rightarrow> sec option \<Rightarrow> bool" where
  "fresh_heartbeat now hb \<longleftrightarrow>
     (case hb of None \<Rightarrow> False | Some t \<Rightarrow> t \<ge> now - (NODE_LIVENESS_TTL_MS + 999) div 1000 \<and> t \<le> now)"

definition longOffline ::
  "sec \<Rightarrow> bool \<Rightarrow> ms \<Rightarrow> recipient_lease list \<Rightarrow> db \<Rightarrow> id \<Rightarrow> agent_row \<Rightarrow> bool" where
  "longOffline now authority offlineExcludeMs leases db ws a \<longleftrightarrow>
     offlineExcludeMs \<noteq> 0 \<and>
     a_status a \<in> {''offline'', ''active'', ''online''} \<and>
     a_lastSeen a < now - toSec offlineExcludeMs \<and>
     \<not> (let node = route_node db ws a in
        (case node of None \<Rightarrow> False | Some n \<Rightarrow> n_kind n = ''http_push'')
        \<or> authorityRecipient now leases a
        \<or> (\<not> authority \<and>
            (case node of None \<Rightarrow> False | Some n \<Rightarrow>
               n_status n \<noteq> ''offline'' \<and> fresh_heartbeat now (n_lastHeartbeatAt n) \<and>
               (n_role n = ''direct''
                \<or> list_ex (\<lambda>p. p_ws p = a_ws a \<and> p_nodeId p = n_id n \<and> p_name p = a_providerName a
                    \<and> p_status p = ''online'' \<and> fresh_heartbeat now (p_lastHeartbeatAt p)) (nodeProviders db)))))"

text \<open>\<open>belowDepthCapSql\<close>: the two indexed branches, unioned and limited to the cap.\<close>

definition belowDepthCap :: "sec \<Rightarrow> db \<Rightarrow> id \<Rightarrow> id \<Rightarrow> nat \<Rightarrow> bool" where
  "belowDepthCap now db ws agentId depthCap \<longleftrightarrow>
     length (take depthCap
       (filter (\<lambda>d. d_ws d = ws \<and> d_agentId d = agentId \<and> active d \<and> d_expiresAt d = None) (deliveries db)
        @ filter (\<lambda>d. d_ws d = ws \<and> d_agentId d = agentId \<and> active d
            \<and> (case d_expiresAt d of None \<Rightarrow> False | Some e \<Rightarrow> e > now)) (deliveries db))) < depthCap"

definition newDeliveryIdentity :: "db \<Rightarrow> id \<Rightarrow> id \<Rightarrow> bool" where
  "newDeliveryIdentity db messageId agentId \<longleftrightarrow>
     \<not> list_ex (\<lambda>d. d_messageId d = messageId \<and> d_agentId d = agentId) (deliveries db)"

subsection \<open>The row of one recipient\<close>

definition delivery_row_for ::
  "sec \<Rightarrow> db \<Rightarrow> id \<Rightarrow> id \<Rightarrow> id \<Rightarrow> string \<Rightarrow> string \<Rightarrow> ms \<Rightarrow> agent_row \<Rightarrow> delivery_row" where
  "delivery_row_for now db ws did messageId mode reason ttlMs a =
     \<lparr>d_id = did, d_ws = ws, d_messageId = messageId, d_agentId = a_id a, d_mode = mode,
      d_reason = Some reason, d_priority = ''normal'', d_status = Queued, d_seq = nextDeliverySeq a,
      d_locationType = (if active_binding db ws a \<noteq> None then ''via_node'' else a_locationType a),
      d_locationNodeId = route_node_id db ws a, d_routeNodeId = route_node_id db ws a,
      d_routeNodeKind = map_option n_kind (route_node db ws a),
      d_routeNodeRole = map_option n_role (route_node db ws a),
      d_adapter = map_option n_adapter (route_node db ws a),
      d_dispatchAttempts = 0, d_nextAttemptAt = None, d_lastDispatchError = None,
      d_expiresAt = Some (now + ttlSeconds ttlMs), d_deliveredAt = None, d_ackedAt = None,
      d_deadLetteredAt = None, d_retryable = None, d_availableAt = None, d_error = None,
      d_createdAt = now, d_updatedAt = None\<rparr>"

subsection \<open>The insert\<close>

text \<open>\<open>ON CONFLICT DO NOTHING\<close> on the unique keys of \<open>deliveries\<close>, and the trigger of migration 0029.\<close>

definition conflicts :: "delivery_row \<Rightarrow> delivery_row \<Rightarrow> bool" where
  "conflicts r e \<longleftrightarrow> d_id e = d_id r \<or> (d_messageId e = d_messageId r \<and> d_agentId e = d_agentId r)
     \<or> (d_ws e = d_ws r \<and> d_agentId e = d_agentId r \<and> d_seq e = d_seq r)"

definition advance_high_water :: "delivery_row \<Rightarrow> agent_row list \<Rightarrow> agent_row list" where
  "advance_high_water r = upd_where (\<lambda>a. a_id a = d_agentId r \<and> a_ws a = d_ws r)
     (\<lambda>a. a\<lparr>a_seq := max (a_seq a) (d_seq r)\<rparr>)"

definition insert_delivery :: "db \<Rightarrow> delivery_row \<Rightarrow> db" where
  "insert_delivery db r =
     (if list_ex (conflicts r) (deliveries db) then db
      else db\<lparr>deliveries := deliveries db @ [r], agents := advance_high_water r (agents db)\<rparr>)"

text \<open>
  \<open>deliveryAdmissionSelect\<close> and the NOT NULL constraints: a candidate carries whether its
  \<open>workspace_id\<close> guard passed; the workspace admission is one scalar for the whole statement.
\<close>

definition admission_allowed :: "sec \<Rightarrow> db \<Rightarrow> id \<Rightarrow> delivery_policy option \<Rightarrow> audience \<Rightarrow> nat \<Rightarrow> bool" where
  "admission_allowed now db ws policy audience n =
     (case policy of None \<Rightarrow> True
      | Some p \<Rightarrow> int (workspaceActiveDepth now db ws) + int n \<le> workspaceGrowthLimit p audience)"

definition run_insert ::
  "sec \<Rightarrow> db \<Rightarrow> id \<Rightarrow> delivery_policy option \<Rightarrow> audience \<Rightarrow> (bool \<times> delivery_row) list \<Rightarrow> constraint_error + db" where
  "run_insert now db ws policy audience cands =
     (if cands \<noteq> [] \<and> \<not> admission_allowed now db ws policy audience (length cands)
      then Inl (NotNull (if fst (hd cands) then ''deliveries.status'' else ''deliveries.workspace_id''))
      else if list_ex (\<lambda>(guard, _). \<not> guard) cands then Inl (NotNull ''deliveries.workspace_id'')
      else Inr (foldl insert_delivery db (map snd cands)))"

subsection \<open>The three statements\<close>

record fanout_input =
  fi_workspaceId :: id
  fi_messageId :: id
  fi_senderAgentId :: id
  fi_mode :: string
  fi_ttlMs :: ms
  fi_depthCap :: nat
  fi_offlineExcludeMs :: ms
  fi_leases :: "recipient_lease list"
  fi_policy :: "delivery_policy option"

definition channelReason :: "string list \<Rightarrow> string \<Rightarrow> agent_row \<Rightarrow> string" where
  "channelReason mentionHandles fallback a =
     (if mentionHandles = [] then fallback
      else if a_name a \<in> set mentionHandles then ''mention'' else fallback)"

definition channelMuteFilter :: "string list \<Rightarrow> channel_member \<Rightarrow> agent_row \<Rightarrow> bool" where
  "channelMuteFilter mentionHandles m a \<longleftrightarrow>
     (if mentionHandles = [] then \<not> cm_isMuted m else \<not> cm_isMuted m \<or> a_name a \<in> set mentionHandles)"

text \<open>The recipients a channel message is meant for: \<open>FROM channel_members JOIN agents WHERE ...\<close>.\<close>

definition channel_intended :: "db \<Rightarrow> id \<Rightarrow> id \<Rightarrow> id \<Rightarrow> string list \<Rightarrow> agent_row list" where
  "channel_intended db messageId channelId sender mentionHandles =
     concat (map (\<lambda>m.
       if cm_channelId m = channelId \<and> cm_agentId m \<noteq> sender \<and> newDeliveryIdentity db messageId (cm_agentId m)
       then (case agent_by_id db (cm_agentId m) of None \<Rightarrow> []
             | Some a \<Rightarrow> if channelMuteFilter mentionHandles m a then [a] else [])
       else []) (channelMembers db))"

definition group_intended :: "db \<Rightarrow> id \<Rightarrow> id \<Rightarrow> id \<Rightarrow> agent_row list" where
  "group_intended db messageId conversationId sender =
     concat (map (\<lambda>p.
       if dp_conversationId p = conversationId \<and> dp_leftAt p = None \<and> dp_agentId p \<noteq> sender
          \<and> newDeliveryIdentity db messageId (dp_agentId p)
       then (case agent_by_id db (dp_agentId p) of None \<Rightarrow> [] | Some a \<Rightarrow> [a])
       else []) (dmParticipants db))"

definition fanout_row :: "sec \<Rightarrow> db \<Rightarrow> fanout_input \<Rightarrow> string \<Rightarrow> agent_row \<Rightarrow> delivery_row" where
  "fanout_row now db i reason a =
     delivery_row_for now db (fi_workspaceId i) (deliveryId (fi_messageId i) (a_id a)) (fi_messageId i)
       (fi_mode i) reason (fi_ttlMs i) a"

definition buildChannelDeliveryWrite ::
  "ms \<Rightarrow> bool \<Rightarrow> fanout_input \<Rightarrow> id \<Rightarrow> string \<Rightarrow> string list \<Rightarrow> bool \<Rightarrow> audience \<Rightarrow> db \<Rightarrow> constraint_error + db" where
  "buildChannelDeliveryWrite t authority i channelId reason mentionHandles rejectOnOverflow audience db =
     (let now = toSec t;
          below = (\<lambda>a. belowDepthCap now db (fi_workspaceId i) (a_id a) (fi_depthCap i));
          recipients = filter (\<lambda>a. \<not> longOffline now authority (fi_offlineExcludeMs i) (fi_leases i) db (fi_workspaceId i) a
              \<and> (rejectOnOverflow \<or> below a))
            (channel_intended db (fi_messageId i) channelId (fi_senderAgentId i) mentionHandles)
      in run_insert now db (fi_workspaceId i) (fi_policy i) audience
           (map (\<lambda>a. (rejectOnOverflow \<longrightarrow> below a, fanout_row now db i (channelReason mentionHandles reason a) a))
             recipients))"

definition buildGroupDmDeliveryWrite ::
  "ms \<Rightarrow> bool \<Rightarrow> fanout_input \<Rightarrow> id \<Rightarrow> bool \<Rightarrow> db \<Rightarrow> constraint_error + db" where
  "buildGroupDmDeliveryWrite t authority i conversationId excludeLongOffline db =
     (let now = toSec t;
          recipients = filter (\<lambda>a.
              (excludeLongOffline \<longrightarrow>
                \<not> longOffline now authority (fi_offlineExcludeMs i) (fi_leases i) db (fi_workspaceId i) a)
              \<and> belowDepthCap now db (fi_workspaceId i) (a_id a) (fi_depthCap i))
            (group_intended db (fi_messageId i) conversationId (fi_senderAgentId i))
      in run_insert now db (fi_workspaceId i) (fi_policy i) Targeted
           (map (\<lambda>a. (True, fanout_row now db i ''dm'' a)) recipients))"

definition buildDirectDeliveryWrite ::
  "ms \<Rightarrow> fanout_input \<Rightarrow> id \<Rightarrow> string \<Rightarrow> id option \<Rightarrow> db \<Rightarrow> constraint_error + db" where
  "buildDirectDeliveryWrite t i agentId reason did db =
     (let now = toSec t;
          recipients = filter (\<lambda>a. a_id a = agentId \<and> a_ws a = fi_workspaceId i
              \<and> newDeliveryIdentity db (fi_messageId i) (a_id a)
              \<and> belowDepthCap now db (fi_workspaceId i) (a_id a) (fi_depthCap i)) (agents db)
      in run_insert now db (fi_workspaceId i) (fi_policy i) Targeted
           (map (\<lambda>a. (True, delivery_row_for now db (fi_workspaceId i)
                (case did of Some d \<Rightarrow> d | None \<Rightarrow> deliveryId (fi_messageId i) agentId)
                (fi_messageId i) (fi_mode i) reason (fi_ttlMs i) a)) recipients))"

subsection \<open>One insert\<close>

lemma set_advance_high_water:
  "b \<in> set (advance_high_water r as) \<Longrightarrow>
     \<exists>a \<in> set as. b = (if a_id a = d_agentId r \<and> a_ws a = d_ws r then a\<lparr>a_seq := max (a_seq a) (d_seq r)\<rparr> else a)"
  by (auto simp: advance_high_water_def elim!: in_upd_whereE)

lemma advance_high_water_mem:
  "a \<in> set as \<Longrightarrow>
     (if a_id a = d_agentId r \<and> a_ws a = d_ws r then a\<lparr>a_seq := max (a_seq a) (d_seq r)\<rparr> else a)
       \<in> set (advance_high_water r as)"
  by (auto simp: advance_high_water_def set_upd_where)

text \<open>A candidate for a mailbox: its agent and message exist, and its sequence number is above both cursors.\<close>

definition cand_ok :: "db \<Rightarrow> delivery_row \<Rightarrow> bool" where
  "cand_ok db r \<longleftrightarrow>
     (\<exists>a \<in> set (agents db). a_id a = d_agentId r \<and> a_ws a = d_ws r \<and> a_seq a < d_seq r \<and> a_ackSeq a < d_seq r)
   \<and> (\<exists>m \<in> set (messages db). m_id m = d_messageId r \<and> m_ws m = d_ws r)"

lemma insert_delivery_conflict: "list_ex (conflicts r) (deliveries db) \<Longrightarrow> insert_delivery db r = db"
  by (simp add: insert_delivery_def)

lemma insert_delivery_other [simp]:
  "messages (insert_delivery db r) = messages db" "channelMembers (insert_delivery db r) = channelMembers db"
  "dmParticipants (insert_delivery db r) = dmParticipants db" "nodes (insert_delivery db r) = nodes db"
  "agentNodeBindings (insert_delivery db r) = agentNodeBindings db"
  "nodeProviders (insert_delivery db r) = nodeProviders db"
  "actions (insert_delivery db r) = actions db"
  "invocations (insert_delivery db r) = invocations db"
  "dmConversations (insert_delivery db r) = dmConversations db"
  by (simp_all add: insert_delivery_def)

lemma mb_inv_insert:
  assumes inv: "mb_inv db" and cand: "cand_ok db r"
  shows "mb_inv (insert_delivery db r)"
proof (cases "list_ex (conflicts r) (deliveries db)")
  case True
  then show ?thesis using inv by (simp add: insert_delivery_conflict)
next
  case False
  let ?as = "advance_high_water r (agents db)"
  let ?db = "db\<lparr>deliveries := deliveries db @ [r], agents := ?as\<rparr>"
  have free: "\<not> conflicts r e" if "e \<in> set (deliveries db)" for e using False that by (auto simp: list_ex_iff)
  obtain a where a: "a \<in> set (agents db)" "a_id a = d_agentId r" "a_ws a = d_ws r" "a_seq a < d_seq r" "a_ackSeq a < d_seq r"
    and msg: "\<exists>m \<in> set (messages db). m_id m = d_messageId r \<and> m_ws m = d_ws r"
    using cand by (auto simp: cand_ok_def)
  have lower: "d_seq e < d_seq r" if "e \<in> set (deliveries db)" "d_agentId e = d_agentId r" for e
    using mb_inv_agent_row(3) [OF inv that(1) a(1)] that(2) a by simp
  have rows: "row_ok ?db e" if e: "e \<in> set (deliveries db)" for e
  proof -
    obtain b where b: "b \<in> set (agents db)" "a_id b = d_agentId e" "a_ws b = d_ws e" "1 \<le> d_seq e" "d_seq e \<le> a_seq b"
      "d_seq e \<le> a_ackSeq b \<longrightarrow> settled e" and m: "\<exists>m \<in> set (messages db). m_id m = d_messageId e \<and> m_ws m = d_ws e"
      using mb_inv_row [OF inv e] by (auto simp: row_ok_def)
    let ?b = "if a_id b = d_agentId r \<and> a_ws b = d_ws r then b\<lparr>a_seq := max (a_seq b) (d_seq r)\<rparr> else b"
    have "?b \<in> set ?as" using b(1) by (rule advance_high_water_mem)
    moreover have "a_id ?b = a_id b" "a_ws ?b = a_ws b" "a_seq b \<le> a_seq ?b" "a_ackSeq ?b = a_ackSeq b" by simp_all
    ultimately have "\<exists>a\<in>set ?as. a_id a = d_agentId e \<and> a_ws a = d_ws e \<and> 1 \<le> d_seq e \<and> d_seq e \<le> a_seq a
        \<and> (d_seq e \<le> a_ackSeq a \<longrightarrow> settled e)"
      using b by (intro bexI [of _ ?b]) auto
    with m show ?thesis by (simp add: row_ok_def)
  qed
  have "row_ok ?db r"
  proof -
    let ?b = "if a_id a = d_agentId r \<and> a_ws a = d_ws r then a\<lparr>a_seq := max (a_seq a) (d_seq r)\<rparr> else a"
    have "?b \<in> set ?as" using a(1) by (rule advance_high_water_mem)
    moreover have "0 \<le> a_seq a" using inv a(1) by (simp add: mb_inv_def)
    ultimately have "\<exists>a\<in>set ?as. a_id a = d_agentId r \<and> a_ws a = d_ws r \<and> 1 \<le> d_seq r \<and> d_seq r \<le> a_seq a
        \<and> (d_seq r \<le> a_ackSeq a \<longrightarrow> settled r)"
      using a by (intro bexI [of _ ?b]) auto
    with msg show ?thesis by (simp add: row_ok_def)
  qed
  moreover have "distinct (map d_id (deliveries ?db))" "distinct (map (\<lambda>d. (d_messageId d, d_agentId d)) (deliveries ?db))"
    using mb_inv_distinct(3,4) [OF inv] free by (force simp: conflicts_def)+
  moreover have "distinct (map (\<lambda>d. (d_agentId d, d_seq d)) (deliveries ?db))"
    using inv lower by (force simp: mb_inv_def)
  moreover have "map a_id ?as = map a_id (agents db)"
    unfolding advance_high_water_def by (rule map_upd_where) simp
  moreover have "0 \<le> a_seq b \<and> 0 \<le> a_ackSeq b" if "b \<in> set ?as" for b
    using set_advance_high_water [OF that] inv by (auto simp: mb_inv_def split: if_splits)
  ultimately have "mb_inv ?db" using inv rows by (auto simp: mb_inv_def)
  then show ?thesis using False by (simp add: insert_delivery_def)
qed

lemma cand_ok_insert:
  assumes "cand_ok db r" "d_agentId r \<noteq> d_agentId q"
  shows "cand_ok (insert_delivery db q) r"
proof -
  obtain a where a: "a \<in> set (agents db)" "a_id a = d_agentId r" "a_ws a = d_ws r" "a_seq a < d_seq r" "a_ackSeq a < d_seq r"
    using assms(1) by (auto simp: cand_ok_def)
  have "a \<in> set (agents (insert_delivery db q))"
    using advance_high_water_mem [OF a(1), of q] a(1,2) assms(2) by (simp add: insert_delivery_def)
  with a assms(1) show ?thesis by (auto simp: cand_ok_def)
qed

subsection \<open>All the inserts of a statement\<close>

lemma mb_inv_inserts:
  assumes "mb_inv db" "\<And>r. r \<in> set rs \<Longrightarrow> cand_ok db r" "distinct (map d_agentId rs)"
  shows "mb_inv (foldl insert_delivery db rs)"
  using assms
proof (induction rs arbitrary: db)
  case (Cons r rs)
  have "mb_inv (insert_delivery db r)" using Cons.prems by (intro mb_inv_insert) auto
  moreover have "cand_ok (insert_delivery db r) q" if "q \<in> set rs" for q
    using Cons.prems that by (intro cand_ok_insert) (force simp: image_iff)+
  ultimately show ?case using Cons.IH Cons.prems(3) by simp
qed simp

lemma inserts_other [simp]:
  "messages (foldl insert_delivery db rs) = messages db"
  by (induction rs arbitrary: db) simp_all

text \<open>The statement adds at most its candidates: it changes no existing row and advances the high water only.\<close>

lemma inserts_append:
  "\<exists>qs. deliveries (foldl insert_delivery db rs) = deliveries db @ qs \<and> set qs \<subseteq> set rs \<and> length qs \<le> length rs
     \<and> (\<forall>P. length (filter P qs) \<le> length (filter P rs))"
proof (induction rs arbitrary: db)
  case (Cons r rs)
  obtain qs where qs: "deliveries (foldl insert_delivery (insert_delivery db r) rs) = deliveries (insert_delivery db r) @ qs"
    "set qs \<subseteq> set rs" "length qs \<le> length rs" "\<forall>P. length (filter P qs) \<le> length (filter P rs)"
    using Cons.IH by blast
  show ?case
  proof (cases "list_ex (conflicts r) (deliveries db)")
    case True
    then have "insert_delivery db r = db" by (rule insert_delivery_conflict)
    with qs show ?thesis by (intro exI [of _ qs]) (auto intro: le_SucI)
  next
    case False
    then have "deliveries (insert_delivery db r) = deliveries db @ [r]" by (simp add: insert_delivery_def)
    with qs show ?thesis by (intro exI [of _ "r # qs"]) auto
  qed
qed simp

lemma agents_insert_delivery:
  "agents (insert_delivery db r) = agents db \<or> agents (insert_delivery db r) = advance_high_water r (agents db)"
  by (simp add: insert_delivery_def)

lemma inserts_cursors:
  "a \<in> set (agents db) \<Longrightarrow> \<exists>b \<in> set (agents (foldl insert_delivery db rs)).
     a_id b = a_id a \<and> a_ws b = a_ws a \<and> a_ackSeq b = a_ackSeq a \<and> a_seq a \<le> a_seq b"
proof (induction rs arbitrary: db a)
  case (Cons r rs)
  let ?b = "if a_id a = d_agentId r \<and> a_ws a = d_ws r then a\<lparr>a_seq := max (a_seq a) (d_seq r)\<rparr> else a"
  have "\<exists>b \<in> set (agents (insert_delivery db r)). a_id b = a_id a \<and> a_ws b = a_ws a \<and> a_ackSeq b = a_ackSeq a \<and> a_seq a \<le> a_seq b"
    using agents_insert_delivery [of db r] Cons.prems advance_high_water_mem [OF Cons.prems, of r]
    by (elim disjE; intro bexI [of _ a] bexI [of _ ?b]) auto
  then obtain b where b: "b \<in> set (agents (insert_delivery db r))" "a_id b = a_id a" "a_ws b = a_ws a"
    "a_ackSeq b = a_ackSeq a" "a_seq a \<le> a_seq b" by blast
  show ?case using Cons.IH [OF b(1)] b by (auto intro: order_trans)
qed auto

subsection \<open>The recipients of a statement\<close>

lemma map_concat_singletons:
  "(\<And>m. m \<in> set ms \<Longrightarrow> f m = [] \<or> (\<exists>a. f m = [a] \<and> g a = k m)) \<Longrightarrow>
     map g (concat (map f ms)) = map k (filter (\<lambda>m. f m \<noteq> []) ms)"
proof (induction ms)
  case (Cons m ms)
  have "f m = [] \<or> (\<exists>a. f m = [a] \<and> g a = k m)" using Cons.prems by simp
  moreover have "map g (concat (map f ms)) = map k (filter (\<lambda>m. f m \<noteq> []) ms)"
    using Cons.prems by (intro Cons.IH) simp
  ultimately show ?case by auto
qed simp

lemma distinct_map_snd_filter:
  "distinct (map (\<lambda>m. (c m, k m)) ms) \<Longrightarrow> (\<And>m. m \<in> set ms \<Longrightarrow> Q m \<Longrightarrow> c m = ch) \<Longrightarrow> distinct (map k (filter Q ms))"
  by (induction ms) (auto simp: image_iff)

lemma distinct_channel_intended:
  assumes "mb_inv db"
  shows "distinct (map a_id (channel_intended db mid ch sender mh))"
proof -
  let ?f = "\<lambda>m. if cm_channelId m = ch \<and> cm_agentId m \<noteq> sender \<and> newDeliveryIdentity db mid (cm_agentId m)
    then (case agent_by_id db (cm_agentId m) of None \<Rightarrow> [] | Some a \<Rightarrow> if channelMuteFilter mh m a then [a] else []) else []"
  have "map a_id (channel_intended db mid ch sender mh)
      = map cm_agentId (filter (\<lambda>m. ?f m \<noteq> []) (channelMembers db))"
    unfolding channel_intended_def
    by (rule map_concat_singletons) (auto split: option.splits dest: agent_by_id_Some)
  moreover have "distinct (map cm_agentId (filter (\<lambda>m. ?f m \<noteq> []) (channelMembers db)))"
    using mb_inv_distinct(6) [OF assms, unfolded cm_key_def [abs_def]]
    by (rule distinct_map_snd_filter [where ch = ch]) (auto split: if_splits)
  ultimately show ?thesis by simp
qed

lemma distinct_group_intended:
  assumes "mb_inv db"
  shows "distinct (map a_id (group_intended db mid c sender))"
proof -
  let ?f = "\<lambda>p. if dp_conversationId p = c \<and> dp_leftAt p = None \<and> dp_agentId p \<noteq> sender
      \<and> newDeliveryIdentity db mid (dp_agentId p)
    then (case agent_by_id db (dp_agentId p) of None \<Rightarrow> [] | Some a \<Rightarrow> [a]) else []"
  have "map a_id (group_intended db mid c sender) = map dp_agentId (filter (\<lambda>m. ?f m \<noteq> []) (dmParticipants db))"
    unfolding group_intended_def
    by (rule map_concat_singletons) (auto split: option.splits dest: agent_by_id_Some)
  moreover have "distinct (map dp_agentId (filter (\<lambda>m. ?f m \<noteq> []) (dmParticipants db)))"
    using mb_inv_distinct(7) [OF assms, unfolded dp_key_def [abs_def]]
    by (rule distinct_map_snd_filter [where ch = c]) (auto split: if_splits)
  ultimately show ?thesis by simp
qed

lemma channel_intended_mem:
  assumes "a \<in> set (channel_intended db mid ch sender mh)"
  obtains m where "m \<in> set (channelMembers db)" "cm_channelId m = ch" "cm_agentId m = a_id a" "a_id a \<noteq> sender"
    "newDeliveryIdentity db mid (a_id a)" "channelMuteFilter mh m a" "a \<in> set (agents db)"
  using assms by (auto simp: channel_intended_def split: if_splits option.splits dest!: agent_by_id_Some [OF sym])

lemma group_intended_mem:
  assumes "a \<in> set (group_intended db mid c sender)"
  obtains p where "p \<in> set (dmParticipants db)" "dp_conversationId p = c" "dp_agentId p = a_id a" "a_id a \<noteq> sender"
    "dp_leftAt p = None" "newDeliveryIdentity db mid (a_id a)" "a \<in> set (agents db)"
  using assms by (auto simp: group_intended_def split: if_splits option.splits dest!: agent_by_id_Some [OF sym])

subsection \<open>One statement of the three\<close>

text \<open>The three builders as one operation: which recipients, and the candidate of each.\<close>

datatype send =
    ToChannel id string "string list" bool audience
  | ToGroup id bool
  | ToAgent id string "id option"

fun send_write :: "ms \<Rightarrow> bool \<Rightarrow> fanout_input \<Rightarrow> send \<Rightarrow> db \<Rightarrow> constraint_error + db" where
  "send_write t authority i (ToChannel ch rsn mh rej aud) db = buildChannelDeliveryWrite t authority i ch rsn mh rej aud db"
| "send_write t authority i (ToGroup c ex) db = buildGroupDmDeliveryWrite t authority i c ex db"
| "send_write t authority i (ToAgent ag rsn did) db = buildDirectDeliveryWrite t i ag rsn did db"

fun send_audience :: "send \<Rightarrow> audience" where
  "send_audience (ToChannel _ _ _ _ aud) = aud"
| "send_audience _ = Targeted"

fun send_recipients :: "ms \<Rightarrow> bool \<Rightarrow> fanout_input \<Rightarrow> send \<Rightarrow> db \<Rightarrow> agent_row list" where
  "send_recipients t authority i (ToChannel ch rsn mh rej aud) db =
     filter (\<lambda>a. \<not> longOffline (toSec t) authority (fi_offlineExcludeMs i) (fi_leases i) db (fi_workspaceId i) a
         \<and> (rej \<or> belowDepthCap (toSec t) db (fi_workspaceId i) (a_id a) (fi_depthCap i)))
       (channel_intended db (fi_messageId i) ch (fi_senderAgentId i) mh)"
| "send_recipients t authority i (ToGroup c ex) db =
     filter (\<lambda>a. (ex \<longrightarrow> \<not> longOffline (toSec t) authority (fi_offlineExcludeMs i) (fi_leases i) db (fi_workspaceId i) a)
         \<and> belowDepthCap (toSec t) db (fi_workspaceId i) (a_id a) (fi_depthCap i))
       (group_intended db (fi_messageId i) c (fi_senderAgentId i))"
| "send_recipients t authority i (ToAgent ag rsn did) db =
     filter (\<lambda>a. a_id a = ag \<and> a_ws a = fi_workspaceId i \<and> newDeliveryIdentity db (fi_messageId i) (a_id a)
         \<and> belowDepthCap (toSec t) db (fi_workspaceId i) (a_id a) (fi_depthCap i)) (agents db)"

fun send_row :: "ms \<Rightarrow> fanout_input \<Rightarrow> send \<Rightarrow> db \<Rightarrow> agent_row \<Rightarrow> delivery_row" where
  "send_row t i (ToChannel ch rsn mh rej aud) db a = fanout_row (toSec t) db i (channelReason mh rsn a) a"
| "send_row t i (ToGroup c ex) db a = fanout_row (toSec t) db i ''dm'' a"
| "send_row t i (ToAgent ag rsn did) db a =
     delivery_row_for (toSec t) db (fi_workspaceId i)
       (case did of Some d \<Rightarrow> d | None \<Rightarrow> deliveryId (fi_messageId i) ag) (fi_messageId i) (fi_mode i) rsn (fi_ttlMs i) a"

fun send_guard :: "ms \<Rightarrow> fanout_input \<Rightarrow> send \<Rightarrow> db \<Rightarrow> agent_row \<Rightarrow> bool" where
  "send_guard t i (ToChannel ch rsn mh rej aud) db a =
     (rej \<longrightarrow> belowDepthCap (toSec t) db (fi_workspaceId i) (a_id a) (fi_depthCap i))"
| "send_guard t i _ db a = True"

lemma send_write_eq:
  "send_write t authority i s db =
     run_insert (toSec t) db (fi_workspaceId i) (fi_policy i) (send_audience s)
       (map (\<lambda>a. (send_guard t i s db a, send_row t i s db a)) (send_recipients t authority i s db))"
  by (cases s) (simp_all add: buildChannelDeliveryWrite_def buildGroupDmDeliveryWrite_def
      buildDirectDeliveryWrite_def Let_def)

lemma run_insert_Inr:
  "run_insert now db ws policy aud cands = Inr db' \<Longrightarrow>
     db' = foldl insert_delivery db (map snd cands) \<and> (\<forall>c \<in> set cands. fst c)
     \<and> (cands \<noteq> [] \<longrightarrow> admission_allowed now db ws policy aud (length cands))"
  by (auto simp: run_insert_def list_ex_iff split: if_splits)

lemma send_write_Inr:
  assumes "send_write t authority i s db = Inr db'"
  shows "db' = foldl insert_delivery db (map (send_row t i s db) (send_recipients t authority i s db))"
    and "send_recipients t authority i s db \<noteq> [] \<Longrightarrow>
      admission_allowed (toSec t) db (fi_workspaceId i) (fi_policy i) (send_audience s) (length (send_recipients t authority i s db))"
    and "a \<in> set (send_recipients t authority i s db) \<Longrightarrow>
      belowDepthCap (toSec t) db (fi_workspaceId i) (a_id a) (fi_depthCap i)"
proof -
  note r = run_insert_Inr [OF assms [unfolded send_write_eq]]
  show "db' = foldl insert_delivery db (map (send_row t i s db) (send_recipients t authority i s db))"
    using r by (simp add: comp_def)
  show "send_recipients t authority i s db \<noteq> [] \<Longrightarrow>
      admission_allowed (toSec t) db (fi_workspaceId i) (fi_policy i) (send_audience s) (length (send_recipients t authority i s db))"
    using r by simp
  assume a: "a \<in> set (send_recipients t authority i s db)"
  then have "send_guard t i s db a" using r by simp
  with a show "belowDepthCap (toSec t) db (fi_workspaceId i) (a_id a) (fi_depthCap i)"
    by (cases s) auto
qed

text \<open>The members of the channel, or the participants of the conversation, belong to the workspace of the message.\<close>

fun audience_in_workspace :: "send \<Rightarrow> db \<Rightarrow> id \<Rightarrow> bool" where
  "audience_in_workspace (ToChannel ch _ _ _ _) db ws \<longleftrightarrow>
     (\<forall>m \<in> set (channelMembers db). \<forall>a \<in> set (agents db). cm_channelId m = ch \<longrightarrow> cm_agentId m = a_id a \<longrightarrow> a_ws a = ws)"
| "audience_in_workspace (ToGroup c _) db ws \<longleftrightarrow>
     (\<forall>p \<in> set (dmParticipants db). \<forall>a \<in> set (agents db). dp_conversationId p = c \<longrightarrow> dp_agentId p = a_id a \<longrightarrow> a_ws a = ws)"
| "audience_in_workspace (ToAgent _ _ _) db ws \<longleftrightarrow> True"

lemma audience_messages [simp]: "audience_in_workspace s (db\<lparr>messages := x\<rparr>) ws = audience_in_workspace s db ws"
  by (cases s) simp_all

lemma send_recipients_mem:
  assumes "a \<in> set (send_recipients t authority i s db)" "audience_in_workspace s db (fi_workspaceId i)"
  shows "a \<in> set (agents db) \<and> a_ws a = fi_workspaceId i \<and> newDeliveryIdentity db (fi_messageId i) (a_id a)"
proof (cases s)
  case (ToChannel ch rsn mh rej aud)
  with assms show ?thesis by (auto elim!: channel_intended_mem)
next
  case (ToGroup c ex)
  with assms show ?thesis by (auto elim!: group_intended_mem)
next
  case (ToAgent ag rsn did)
  with assms show ?thesis by auto
qed

lemma distinct_send_recipients:
  "mb_inv db \<Longrightarrow> distinct (map a_id (send_recipients t authority i s db))"
  by (cases s) (auto intro!: distinct_map_filter distinct_channel_intended distinct_group_intended simp: mb_inv_def)

lemma send_row_fields [simp]:
  "d_agentId (send_row t i s db a) = a_id a" "d_ws (send_row t i s db a) = fi_workspaceId i"
  "d_messageId (send_row t i s db a) = fi_messageId i" "d_seq (send_row t i s db a) = nextDeliverySeq a"
  "d_status (send_row t i s db a) = Queued"
  "d_expiresAt (send_row t i s db a) = Some (toSec t + ttlSeconds (fi_ttlMs i))"
  by (cases s; simp add: fanout_row_def delivery_row_for_def)+

lemma send_row_cand:
  "a \<in> set (agents db) \<Longrightarrow> a_ws a = fi_workspaceId i \<Longrightarrow>
   \<exists>m \<in> set (messages db). m_id m = fi_messageId i \<and> m_ws m = fi_workspaceId i \<Longrightarrow> cand_ok db (send_row t i s db a)"
  by (auto simp: cand_ok_def nextDeliverySeq_def intro!: bexI [of _ a])

lemma mb_inv_send_write:
  assumes "mb_inv db" "audience_in_workspace s db (fi_workspaceId i)"
    "\<exists>m \<in> set (messages db). m_id m = fi_messageId i \<and> m_ws m = fi_workspaceId i"
    "send_write t authority i s db = Inr db'"
  shows "mb_inv db'"
  unfolding send_write_Inr(1) [OF assms(4)]
proof (rule mb_inv_inserts [OF assms(1)])
  show "distinct (map d_agentId (map (send_row t i s db) (send_recipients t authority i s db)))"
    using distinct_send_recipients [OF assms(1)] by (simp add: comp_def)
  show "cand_ok db r" if "r \<in> set (map (send_row t i s db) (send_recipients t authority i s db))" for r
    using that assms(2,3) send_recipients_mem by (fastforce intro: send_row_cand)
qed

subsection \<open>Depth, before and after\<close>

definition agentDepth :: "sec \<Rightarrow> db \<Rightarrow> id \<Rightarrow> id \<Rightarrow> nat" where
  "agentDepth now db ws agentId = length (filter (\<lambda>d. counts now ws d \<and> d_agentId d = agentId) (deliveries db))"

lemma filter_split_expiry:
  "length (filter (\<lambda>d. P d \<and> d_expiresAt d = None) ds)
     + length (filter (\<lambda>d. P d \<and> (case d_expiresAt d of None \<Rightarrow> False | Some e \<Rightarrow> e > now)) ds)
   = length (filter (\<lambda>d. P d \<and> unexpired now d) ds)"
  by (induction ds) (auto simp: unexpired_def split: option.splits)

lemma belowDepthCap_iff: "belowDepthCap now db ws agentId cap \<longleftrightarrow> agentDepth now db ws agentId < cap"
proof -
  have "length (filter (\<lambda>d. (d_ws d = ws \<and> d_agentId d = agentId \<and> active d) \<and> d_expiresAt d = None) (deliveries db))
     + length (filter (\<lambda>d. (d_ws d = ws \<and> d_agentId d = agentId \<and> active d)
         \<and> (case d_expiresAt d of None \<Rightarrow> False | Some e \<Rightarrow> e > now)) (deliveries db))
     = agentDepth now db ws agentId"
    unfolding filter_split_expiry by (simp add: agentDepth_def counts_def conj_ac cong: filter_cong)
  then show ?thesis unfolding belowDepthCap_def by (auto simp: conj_assoc min_def)
qed

lemma workspace_depth_inserts:
  "workspaceActiveDepth now (foldl insert_delivery db rs) ws \<le> workspaceActiveDepth now db ws + length rs"
proof -
  obtain qs where "deliveries (foldl insert_delivery db rs) = deliveries db @ qs" "length qs \<le> length rs"
    using inserts_append [of db rs] by blast
  moreover have "length (filter (counts now ws) qs) \<le> length qs" by simp
  ultimately have "length (filter (counts now ws) qs) \<le> length rs" by linarith
  then show ?thesis using \<open>deliveries _ = _\<close> by (simp add: workspaceActiveDepth_def)
qed

lemma agentDepth_inserts:
  "agentDepth now (foldl insert_delivery db rs) ws ag
     \<le> agentDepth now db ws ag + length (filter (\<lambda>r. d_agentId r = ag) rs)"
proof -
  obtain qs where qs: "deliveries (foldl insert_delivery db rs) = deliveries db @ qs"
    "\<forall>P. length (filter P qs) \<le> length (filter P rs)"
    using inserts_append [of db rs] by blast
  have "length (filter (\<lambda>d. counts now ws d \<and> d_agentId d = ag) qs)
      \<le> length (filter (\<lambda>d. counts now ws d \<and> d_agentId d = ag) rs)" using qs(2) by blast
  also have "\<dots> \<le> length (filter (\<lambda>r. d_agentId r = ag) rs)" by (induction rs) auto
  finally show ?thesis using qs(1) by (simp add: agentDepth_def)
qed

lemma length_filter_key: "distinct (map k xs) \<Longrightarrow> length (filter (\<lambda>x. k x = v) xs) \<le> 1"
  by (induction xs) (auto simp: filter_empty_conv image_iff)

lemma send_write_agentDepth:
  assumes ok: "send_write t authority i s db = Inr db'" and inv: "mb_inv db"
  shows "agentDepth (toSec t) db' (fi_workspaceId i) ag
      \<le> max (agentDepth (toSec t) db (fi_workspaceId i) ag) (fi_depthCap i)"
proof (cases "ag \<in> a_id ` set (send_recipients t authority i s db)")
  case True
  let ?rs = "send_recipients t authority i s db"
  from True obtain a where a: "a \<in> set ?rs" "a_id a = ag" by auto
  have "agentDepth (toSec t) db (fi_workspaceId i) ag < fi_depthCap i"
    using send_write_Inr(3) [OF ok a(1)] a(2) by (simp add: belowDepthCap_iff)
  moreover have "length (filter (\<lambda>r. d_agentId r = ag) (map (send_row t i s db) ?rs)) \<le> 1"
    using length_filter_key [OF distinct_send_recipients [OF inv]] by (simp add: filter_map comp_def)
  ultimately show ?thesis
    using agentDepth_inserts [of "toSec t" db "map (send_row t i s db) ?rs" "fi_workspaceId i" ag] send_write_Inr(1) [OF ok]
    by simp
next
  case False
  let ?rs = "send_recipients t authority i s db"
  have "filter (\<lambda>r. d_agentId r = ag) (map (send_row t i s db) ?rs) = []"
    using False by (auto simp: filter_empty_conv)
  then show ?thesis
    using agentDepth_inserts [of "toSec t" db "map (send_row t i s db) ?rs" "fi_workspaceId i" ag] send_write_Inr(1) [OF ok]
    by simp
qed

lemma send_write_workspaceDepth:
  assumes ok: "send_write t authority i s db = Inr db'" and "fi_policy i = Some p"
  shows "db' = db \<or> int (workspaceActiveDepth (toSec t) db' (fi_workspaceId i)) \<le> workspaceGrowthLimit p (send_audience s)"
proof (cases "send_recipients t authority i s db = []")
  case True
  then show ?thesis using send_write_Inr(1) [OF ok] by simp
next
  case False
  then have "int (workspaceActiveDepth (toSec t) db (fi_workspaceId i)) + int (length (send_recipients t authority i s db))
      \<le> workspaceGrowthLimit p (send_audience s)"
    using send_write_Inr(2) [OF ok] assms(2) by (simp add: admission_allowed_def)
  moreover have "workspaceActiveDepth (toSec t) db' (fi_workspaceId i)
      \<le> workspaceActiveDepth (toSec t) db (fi_workspaceId i) + length (send_recipients t authority i s db)"
    unfolding send_write_Inr(1) [OF ok] using workspace_depth_inserts by (metis length_map)
  ultimately show ?thesis by linarith
qed

subsection \<open>Posting a message: the message and its fan-out in one atomic write\<close>

text \<open>The batch of \<open>postMessage\<close> also writes session, attachment and log rows, in tables no delivery operation
  reads; those statements are left out. \<open>postMessage\<close> is the shape that the sends to a channel, a group and an agent share;
  \<open>engine/message.ts\<close> is its channel case.\<close>

definition insert_message :: "message_row \<Rightarrow> statement" where
  "insert_message m db =
     (if list_ex (\<lambda>x. m_id x = m_id m) (messages db) then Inl (OtherError ''UNIQUE constraint failed: messages.id'')
      else Inr (db\<lparr>messages := messages db @ [m]\<rparr>))"

definition postMessage ::
  "capability \<Rightarrow> ms \<Rightarrow> bool \<Rightarrow> fanout_input \<Rightarrow> message_row \<Rightarrow> send \<Rightarrow> db \<Rightarrow> write_error option \<times> db" where
  "postMessage handle t authority i m s db =
     runAtomicWrites handle (fi_policy i \<noteq> None) [insert_message m, send_write t authority i s] db"

lemma postMessage_ok:
  assumes "postMessage handle t authority i m s db = (None, db')"
  shows "m_id m \<notin> m_id ` set (messages db)"
    "send_write t authority i s (db\<lparr>messages := messages db @ [m]\<rparr>) = Inr db'"
proof -
  have "runSequentially [insert_message m, send_write t authority i s] db = (None, db')"
    using assms unfolding postMessage_def by (rule runAtomicWrites_ok)
  then show "m_id m \<notin> m_id ` set (messages db)"
    "send_write t authority i s (db\<lparr>messages := messages db @ [m]\<rparr>) = Inr db'"
    by (auto simp: insert_message_def list_ex_iff split: if_splits sum.splits)
qed

lemma mb_inv_insert_message:
  assumes "mb_inv db" "m_id m \<notin> m_id ` set (messages db)"
  shows "mb_inv (db\<lparr>messages := messages db @ [m]\<rparr>)"
proof -
  have "row_ok (db\<lparr>messages := messages db @ [m]\<rparr>) d" if "d \<in> set (deliveries db)" for d
    using mb_inv_row [OF assms(1) that] by (auto simp: row_ok_def)
  then show ?thesis using assms by (simp add: mb_inv_def)
qed

lemma depth_messages [simp]:
  "agentDepth now (db\<lparr>messages := x\<rparr>) ws ag = agentDepth now db ws ag"
  "workspaceActiveDepth now (db\<lparr>messages := x\<rparr>) ws = workspaceActiveDepth now db ws"
  by (simp_all add: agentDepth_def workspaceActiveDepth_def)

text \<open>C34: A send never overfills a mailbox or a workspace: after an accepted send, by whichever of the three
  fan-outs, no recipient holds more active deliveries than before or than the per-recipient cap
  allows, and where a growth policy applies the workspace is within its limit for that audience
  unless the send added no delivery.\<close>

theorem postMessage_bounded:
  assumes "postMessage handle t authority i m s db = (None, db')" "mb_inv db"
  shows "agentDepth (toSec t) db' (fi_workspaceId i) ag
      \<le> max (agentDepth (toSec t) db (fi_workspaceId i) ag) (fi_depthCap i)
    \<and> (case fi_policy i of None \<Rightarrow> True | Some p \<Rightarrow> deliveries db' = deliveries db
      \<or> int (workspaceActiveDepth (toSec t) db' (fi_workspaceId i)) \<le> workspaceGrowthLimit p (send_audience s))"
  using send_write_agentDepth [OF postMessage_ok(2) [OF assms(1)]]
    send_write_workspaceDepth [OF postMessage_ok(2) [OF assms(1)]]
    mb_inv_insert_message [OF assms(2) postMessage_ok(1) [OF assms(1)]]
  by (auto split: option.splits)

text \<open>C30: Sequence numbers are fresh: an accepted send keeps the mailbox invariant and every delivery it adds is
  queued, for an agent that had none for this message, at most one per agent, with a sequence number
  above every delivery that agent ever had and above the agent's cumulative acknowledgement, so a
  replay from the cursor cannot miss it.\<close>

theorem postMessage_sequences:
  assumes ok: "postMessage handle t authority i m s db = (None, db')" and inv: "mb_inv db"
    and m: "m_id m = fi_messageId i" "m_ws m = fi_workspaceId i" and aud: "audience_in_workspace s db (fi_workspaceId i)"
  shows "mb_inv db' \<and> (\<exists>qs. deliveries db' = deliveries db @ qs \<and> distinct (map d_agentId qs)
    \<and> (\<forall>q \<in> set qs. d_status q = Queued \<and> d_messageId q = fi_messageId i
        \<and> (\<exists>a \<in> set (agents db). a_id a = d_agentId q \<and> a_ws a = fi_workspaceId i \<and> a_ackSeq a < d_seq q)
        \<and> (\<forall>d \<in> set (deliveries db). d_agentId d = d_agentId q \<longrightarrow> d_seq d < d_seq q \<and> d_messageId d \<noteq> d_messageId q)))"
proof -
  let ?db = "db\<lparr>messages := messages db @ [m]\<rparr>"
  let ?rs = "send_recipients t authority i s ?db"
  note w = postMessage_ok [OF ok]
  have inv1: "mb_inv ?db" by (rule mb_inv_insert_message [OF inv w(1)])
  have aud1: "audience_in_workspace s ?db (fi_workspaceId i)" using aud by simp
  have msg: "\<exists>x \<in> set (messages ?db). m_id x = fi_messageId i \<and> m_ws x = fi_workspaceId i" using m by simp
  have inv': "mb_inv db'" by (rule mb_inv_send_write [OF inv1 aud1 msg w(2)])
  obtain qs where qs: "deliveries db' = deliveries db @ qs" "set qs \<subseteq> set (map (send_row t i s ?db) ?rs)"
    using inserts_append [of ?db "map (send_row t i s ?db) ?rs"] send_write_Inr(1) [OF w(2)] by auto
  have "distinct (map (\<lambda>d. (d_messageId d, d_agentId d)) qs)"
    using mb_inv_distinct(4) [OF inv'] qs(1) by simp
  moreover have "d_messageId q = fi_messageId i" if "q \<in> set qs" for q using qs(2) that by auto
  ultimately have dist: "distinct (map d_agentId qs)" by (induction qs) auto
  have "d_status q = Queued \<and> d_messageId q = fi_messageId i
      \<and> (\<exists>a \<in> set (agents db). a_id a = d_agentId q \<and> a_ws a = fi_workspaceId i \<and> a_ackSeq a < d_seq q)
      \<and> (\<forall>d \<in> set (deliveries db). d_agentId d = d_agentId q \<longrightarrow> d_seq d < d_seq q \<and> d_messageId d \<noteq> d_messageId q)"
    if q: "q \<in> set qs" for q
  proof -
    obtain a where a: "a \<in> set ?rs" "q = send_row t i s ?db a" using qs(2) q by auto
    have am: "a \<in> set (agents db)" "a_ws a = fi_workspaceId i" "newDeliveryIdentity ?db (fi_messageId i) (a_id a)"
      using send_recipients_mem [OF a(1) aud1] by simp_all
    have "d_seq d < d_seq q \<and> d_messageId d \<noteq> d_messageId q"
      if d: "d \<in> set (deliveries db)" "d_agentId d = a_id a" for d
      using mb_inv_agent_row(3) [OF inv d(1) am(1)] am(3) d a(2)
      by (auto simp: nextDeliverySeq_def newDeliveryIdentity_def list_ex_iff)
    then show ?thesis using a(2) am(1,2) by (auto simp: nextDeliverySeq_def intro!: bexI [of _ a])
  qed
  with inv' qs(1) dist show ?thesis by blast
qed

text \<open>Admission is all or nothing: where a growth policy applies and the send has no per-recipient refusal,
  an otherwise valid send is refused with the capacity error exactly when its recipients do not all fit
  under the workspace's limit; a refused send changes nothing, not even the message.\<close>

theorem postMessage_all_or_nothing:
  fixes t :: ms and authority :: bool
  assumes p: "fi_policy i = Some p" and h: "handle \<noteq> Bare" and fresh: "m_id m \<notin> m_id ` set (messages db)"
    and soft: "\<not> (\<exists>ch rsn mh aud. s = ToChannel ch rsn mh True aud)"
  defines "n \<equiv> length (send_recipients t authority i s (db\<lparr>messages := messages db @ [m]\<rparr>))"
  shows "(\<exists>db'. postMessage handle t authority i m s db = (None, db')
      \<and> (n = 0 \<or> int (workspaceActiveDepth (toSec t) db (fi_workspaceId i)) + int n \<le> workspaceGrowthLimit p (send_audience s)))
    \<or> (postMessage handle t authority i m s db = (Some WorkspaceDeliveryCapacityError, db)
      \<and> 0 < n \<and> int (workspaceActiveDepth (toSec t) db (fi_workspaceId i)) + int n > workspaceGrowthLimit p (send_audience s))"
proof -
  let ?db = "db\<lparr>messages := messages db @ [m]\<rparr>"
  let ?rs = "send_recipients t authority i s ?db"
  have guard: "send_guard t i s d a" for d a using soft by (cases s) auto
  let ?cands = "map (\<lambda>a. (send_guard t i s ?db a, send_row t i s ?db a)) ?rs"
  have ins: "insert_message m db = Inr ?db" using fresh by (auto simp: insert_message_def list_ex_iff image_iff)
  have noguard: "\<not> list_ex (\<lambda>(g, _). \<not> g) ?cands" using guard by (auto simp: list_ex_iff)
  have allowed: "admission_allowed (toSec t) ?db (fi_workspaceId i) (Some p) aud k =
      (int (workspaceActiveDepth (toSec t) db (fi_workspaceId i)) + int k \<le> workspaceGrowthLimit p aud)" for aud k
    by (simp add: admission_allowed_def)
  show ?thesis
  proof (cases "?rs \<noteq> [] \<and> \<not> admission_allowed (toSec t) ?db (fi_workspaceId i) (Some p) (send_audience s) (length ?rs)")
    case True
    then have "send_write t authority i s ?db = Inl (NotNull ''deliveries.status'')"
      using guard by (simp add: send_write_eq run_insert_def p hd_map)
    then have "postMessage handle t authority i m s db = (Some WorkspaceDeliveryCapacityError, db)"
      using ins h by (simp add: postMessage_def runAtomicWrites_def executeAtomicWrites_def message_kind_def)
    with True show ?thesis unfolding n_def allowed by auto
  next
    case False
    then obtain db' where "send_write t authority i s ?db = Inr db'"
      using noguard by (auto simp: send_write_eq run_insert_def p)
    then have "postMessage handle t authority i m s db = (None, db')"
      using ins h by (simp add: postMessage_def runAtomicWrites_def executeAtomicWrites_def)
    with False show ?thesis unfolding n_def allowed by auto
  qed
qed

subsection \<open>A small workspace\<close>

text \<open>Agents 1, 2 and 3 in channel 9 (3 has muted it); agent 2 has acknowledged up to 4.\<close>

definition ex_agent :: "id \<Rightarrow> string \<Rightarrow> agent_row" where
  "ex_agent i n = \<lparr>a_id = i, a_ws = ''w'', a_name = n, a_type = ''agent'', a_status = ''online'',
     a_locationType = ''self_connected'', a_locationNodeId = None, a_providerName = ''default'', a_resumable = False,
     a_sessionRef = None, a_originNodeId = None, a_ackSeq = 0, a_seq = 0, a_lastSeen = 100, a_statusBefore = None,
     a_liveRev = 0\<rparr>"

definition ex_db :: db where
  "ex_db = \<lparr>agents = [ex_agent ''1'' ''al'', (ex_agent ''2'' ''bo'')\<lparr>a_ackSeq := 4\<rparr>, ex_agent ''3'' ''cy''],
     deliveries = [], messages = [],
     channelMembers = map (\<lambda>i. \<lparr>cm_channelId = ''9'', cm_agentId = i, cm_lastReadId = None, cm_isMuted = (i = ''3'')\<rparr>)
       [''1'', ''2'', ''3''],
     dmConversations = [], dmParticipants = [], readReceipts = [], agentNodeBindings = [], nodes = [], nodeProviders = [],
     actions = [], invocations = []\<rparr>"

definition ex_input :: fanout_input where
  "ex_input = \<lparr>fi_workspaceId = ''w'', fi_messageId = ''7'', fi_senderAgentId = ''1'', fi_mode = ''immediate'',
     fi_ttlMs = 60000, fi_depthCap = 2, fi_offlineExcludeMs = 0, fi_leases = [],
     fi_policy = Some \<lparr>dp_cap = 5, dp_reserve = 1\<rparr>\<rparr>"

definition ex_msg :: message_row where
  "ex_msg = \<lparr>m_id = ''7'', m_ws = ''w'', m_channelId = ''9'', m_agentId = ''1'', m_threadId = None, m_body = ''hi'',
     m_createdAt = 100\<rparr>"

definition ex_send :: send where
  "ex_send = ToChannel ''9'' ''message'' [] False Broadcast"

definition ex_after :: db where
  "ex_after = snd (postMessage Batch 100000 False ex_input ex_msg ex_send ex_db)"

lemma ex_inv: "mb_inv ex_db"
  by (simp add: mb_inv_def ex_db_def ex_agent_def cm_key_def)

lemma ex_audience: "audience_in_workspace ex_send ex_db ''w''"
  by (simp add: ex_send_def ex_db_def ex_agent_def)

lemma ex_post: "postMessage Batch 100000 False ex_input ex_msg ex_send ex_db = (None, ex_after)"
proof -
  have "fst (postMessage Batch 100000 False ex_input ex_msg ex_send ex_db) = None" by code_simp
  then show ?thesis by (simp add: ex_after_def prod_eq_iff)
qed

lemma ex_after_deliveries: "map (\<lambda>d. (d_agentId d, d_seq d)) (deliveries ex_after) = [(''2'', 5)]"
  unfolding ex_after_def by code_simp

lemma postMessage_bounded_witness:
  "agentDepth 100 ex_after ''w'' ''2'' \<le> 2 \<and> workspaceActiveDepth 100 ex_after ''w'' \<le> 4"
proof -
  have "toSec 100000 = 100" "agentDepth 100 ex_db ''w'' ''2'' = 0" "deliveries ex_after \<noteq> []"
    using ex_after_deliveries by (auto simp: toSec_def agentDepth_def ex_db_def)
  then show ?thesis
    using postMessage_bounded [OF ex_post ex_inv, of "''2''"]
    by (auto simp: ex_input_def ex_send_def workspaceGrowthLimit_def ex_db_def)
qed

lemma postMessage_sequences_witness:
  "mb_inv ex_after \<and> map (\<lambda>d. (d_agentId d, d_seq d)) (deliveries ex_after) = [(''2'', 5)]"
proof -
  have "m_id ex_msg = fi_messageId ex_input" "m_ws ex_msg = fi_workspaceId ex_input"
    "audience_in_workspace ex_send ex_db (fi_workspaceId ex_input)"
    using ex_audience by (simp_all add: ex_msg_def ex_input_def)
  from postMessage_sequences [OF ex_post ex_inv this] ex_after_deliveries show ?thesis by blast
qed

lemma postMessage_all_or_nothing_witness:
  "postMessage Batch 100000 False (ex_input\<lparr>fi_policy := Some \<lparr>dp_cap = 1, dp_reserve = 1\<rparr>\<rparr>) ex_msg ex_send ex_db
     = (Some WorkspaceDeliveryCapacityError, ex_db)"
proof -
  let ?i = "ex_input\<lparr>fi_policy := Some \<lparr>dp_cap = 1, dp_reserve = 1\<rparr>\<rparr>"
  have f: "fst (postMessage Batch 100000 False ?i ex_msg ex_send ex_db) \<noteq> None" by code_simp
  have "fi_policy ?i = Some \<lparr>dp_cap = 1, dp_reserve = 1\<rparr>" "Batch \<noteq> Bare" "m_id ex_msg \<notin> m_id ` set (messages ex_db)"
    "\<not> (\<exists>ch rsn mh aud. ex_send = ToChannel ch rsn mh True aud)"
    by (simp_all add: ex_db_def ex_send_def)
  from postMessage_all_or_nothing [OF this, where t = 100000 and authority = False] f show ?thesis by auto
qed

end
