(* ===== verification/DeliveryOutcomes.thy ===== *)
theory DeliveryOutcomes
  imports DeliveryWrites
begin

text \<open>
  What a sender is told after a fan-out (\<open>fetch*DeliveryOutcomes\<close> of \<open>engine/deliveryWrites.ts\<close>): the
  records of the deliveries that were made, and a rejection for every intended recipient that got
  none, with its reason. Also \<open>prepareAuthorityFanout\<close>, the admission evidence of a deployment whose
  node liveness is answered by another service (its snapshot per node is a parameter).
\<close>

record fanout_record =
  fr_id :: id
  fr_agentId :: id
  fr_agentName :: string
  fr_messageId :: id
  fr_seq :: int
  fr_mode :: string
  fr_reason :: string
  fr_status :: dstatus
  fr_locationType :: string
  fr_locationNodeId :: "id option"
  fr_routeNodeId :: "id option"
  fr_routeNodeKind :: "string option"
  fr_routeNodeRole :: "string option"
  fr_adapter :: "string option"
  fr_nextAttemptAt :: "sec option"
  fr_expiresAt :: "sec option"

datatype rejection_reason = depth_cap | recipient_offline

record rejection_record =
  rj_agentId :: id
  rj_agentName :: string
  rj_messageId :: id
  rj_reason :: rejection_reason
  rj_error :: string
  rj_retryable :: bool

definition to_fanout_record :: "string \<Rightarrow> delivery_row \<Rightarrow> fanout_record" where
  "to_fanout_record name d =
     \<lparr>fr_id = d_id d, fr_agentId = d_agentId d, fr_agentName = name, fr_messageId = d_messageId d, fr_seq = d_seq d,
      fr_mode = d_mode d, fr_reason = (case d_reason d of Some r \<Rightarrow> r | None \<Rightarrow> ''message''), fr_status = d_status d,
      fr_locationType = d_locationType d, fr_locationNodeId = d_locationNodeId d, fr_routeNodeId = d_routeNodeId d,
      fr_routeNodeKind = d_routeNodeKind d, fr_routeNodeRole = d_routeNodeRole d, fr_adapter = d_adapter d,
      fr_nextAttemptAt = d_nextAttemptAt d, fr_expiresAt = d_expiresAt d\<rparr>"

definition fetchDeliveryFanoutRecords :: "db \<Rightarrow> id \<Rightarrow> fanout_record list" where
  "fetchDeliveryFanoutRecords db messageId =
     concat (map (\<lambda>d. case agent_by_id db (d_agentId d) of
         None \<Rightarrow> [] | Some a \<Rightarrow> [to_fanout_record (a_name a) d])
       (filter (\<lambda>d. d_messageId d = messageId) (deliveries db)))"

text \<open>The intended recipients come with whether they count as offline.\<close>

definition missingDeliveryRejections ::
  "(agent_row \<times> bool) list \<Rightarrow> fanout_record list \<Rightarrow> id \<Rightarrow> rejection_record list" where
  "missingDeliveryRejections intended records messageId =
     map (\<lambda>(a, offline).
         \<lparr>rj_agentId = a_id a, rj_agentName = a_name a, rj_messageId = messageId,
          rj_reason = (if offline then recipient_offline else depth_cap),
          rj_error = (if offline then ''recipient has been offline too long to receive new deliveries''
                      else ''mailbox depth cap exceeded''),
          rj_retryable = False\<rparr>)
       (filter (\<lambda>(a, _). a_id a \<notin> fr_agentId ` set records) intended)"

definition fetchChannelDeliveryOutcomes ::
  "ms \<Rightarrow> bool \<Rightarrow> fanout_input \<Rightarrow> id \<Rightarrow> string list \<Rightarrow> db \<Rightarrow> fanout_record list \<times> rejection_record list" where
  "fetchChannelDeliveryOutcomes t authority i channelId mentionHandles db =
     (let records = fetchDeliveryFanoutRecords db (fi_messageId i);
          intended = map (\<lambda>a. (a, longOffline (toSec t) authority (fi_offlineExcludeMs i) (fi_leases i) db (a_ws a) a))
            (channel_intended db (fi_messageId i) channelId (fi_senderAgentId i) mentionHandles)
      in (records, missingDeliveryRejections intended records (fi_messageId i)))"

definition fetchGroupDeliveryOutcomes ::
  "ms \<Rightarrow> bool \<Rightarrow> fanout_input \<Rightarrow> id \<Rightarrow> bool \<Rightarrow> db \<Rightarrow> fanout_record list \<times> rejection_record list" where
  "fetchGroupDeliveryOutcomes t authority i conversationId excludeLongOffline db =
     (let records = fetchDeliveryFanoutRecords db (fi_messageId i);
          intended = map (\<lambda>a. (a, excludeLongOffline \<and>
              longOffline (toSec t) authority (fi_offlineExcludeMs i) (fi_leases i) db (a_ws a) a))
            (group_intended db (fi_messageId i) conversationId (fi_senderAgentId i))
      in (records, missingDeliveryRejections intended records (fi_messageId i)))"

definition fetchDirectDeliveryOutcomes ::
  "fanout_input \<Rightarrow> id \<Rightarrow> db \<Rightarrow> fanout_record list \<times> rejection_record list" where
  "fetchDirectDeliveryOutcomes i recipientAgentId db =
     (let records = fetchDeliveryFanoutRecords db (fi_messageId i);
          intended = map (\<lambda>a. (a, False)) (filter (\<lambda>a. a_id a = recipientAgentId) (agents db))
      in (records, missingDeliveryRejections intended records (fi_messageId i)))"

subsection \<open>Admission evidence from a liveness authority\<close>

definition UNKNOWN_AUDIENCE_VALIDITY_MS :: ms where "UNKNOWN_AUDIENCE_VALIDITY_MS = 5000"

datatype fanout_audience = ChannelAudience id | ConversationAudience id

definition in_audience :: "db \<Rightarrow> fanout_audience \<Rightarrow> agent_row \<Rightarrow> bool" where
  "in_audience db aud a \<longleftrightarrow>
     (case aud of
        ConversationAudience c \<Rightarrow> list_ex (\<lambda>p. dp_conversationId p = c \<and> dp_agentId p = a_id a) (dmParticipants db)
      | ChannelAudience c \<Rightarrow> list_ex (\<lambda>m. cm_channelId m = c \<and> cm_agentId m = a_id a) (channelMembers db))"

definition lease_of :: "ms \<Rightarrow> (id \<Rightarrow> node_snapshot option) \<Rightarrow> agent_row \<Rightarrow> id \<Rightarrow> recipient_lease option" where
  "lease_of now snapshot a nodeId =
     (let unknown = Some \<lparr>rl_agentId = a_id a, rl_nodeId = nodeId, rl_providerName = a_providerName a,
                          rl_expiresAt = now + UNKNOWN_AUDIENCE_VALIDITY_MS\<rparr>
      in case snapshot nodeId of
           None \<Rightarrow> unknown
         | Some s \<Rightarrow>
             (case ns_status s of
                LUnknown \<Rightarrow> unknown
              | LOffline \<Rightarrow> None
              | LOnline \<Rightarrow>
                  map_option (\<lambda>p. \<lparr>rl_agentId = a_id a, rl_nodeId = nodeId, rl_providerName = a_providerName a,
                                   rl_expiresAt = ps_expires_at p\<rparr>)
                    (first_row (filter (\<lambda>p. ps_name p = a_providerName a \<and> ps_live p \<and> ps_expires_at p > now
                       \<and> ps_last_received_at p \<le> now) (ns_providers s)))))"

definition prepareAuthorityFanout ::
  "ms \<Rightarrow> bool \<Rightarrow> (id \<Rightarrow> node_snapshot option) \<Rightarrow> db \<Rightarrow> id \<Rightarrow> fanout_audience \<Rightarrow> recipient_lease list" where
  "prepareAuthorityFanout now authority snapshot db ws aud =
     (if \<not> authority then []
      else concat (map (\<lambda>a.
        if a_ws a = ws \<and> a_status a \<noteq> ''released'' \<and> a_locationType a = ''via_node'' \<and> in_audience db aud a
        then (case a_locationNodeId a of None \<Rightarrow> []
              | Some nid \<Rightarrow>
                  if list_ex (\<lambda>n. n_ws n = ws \<and> n_id n = nid) (nodes db)
                  then (case lease_of now snapshot a nid of None \<Rightarrow> [] | Some l \<Rightarrow> [l]) else [])
        else []) (agents db)))"

subsection \<open>Every intended recipient is accounted for\<close>

lemma inserts_agents_map:
  "\<exists>h. agents (foldl insert_delivery db rs) = map (\<lambda>a. a\<lparr>a_seq := h a\<rparr>) (agents db)"
proof (induction rs arbitrary: db)
  case Nil
  show ?case by (intro exI [of _ a_seq]) simp
next
  case (Cons r rs)
  obtain h where h: "agents (foldl insert_delivery (insert_delivery db r) rs)
      = map (\<lambda>a. a\<lparr>a_seq := h a\<rparr>) (agents (insert_delivery db r))"
    using Cons.IH by blast
  let ?f = "\<lambda>a. if a_id a = d_agentId r \<and> a_ws a = d_ws r then a\<lparr>a_seq := max (a_seq a) (d_seq r)\<rparr> else a"
  show ?case
  proof (cases "agents (insert_delivery db r) = agents db")
    case True
    then show ?thesis using h by (intro exI [of _ h]) simp
  next
    case False
    then have "agents (insert_delivery db r) = map ?f (agents db)"
      using agents_insert_delivery [of db r] by (simp add: advance_high_water_def upd_where_def)
    then have "agents (foldl insert_delivery db (r # rs)) = map (\<lambda>a. a\<lparr>a_seq := h (?f a)\<rparr>) (agents db)"
      using h by simp
    then show ?thesis by (rule exI [of _ "\<lambda>a. h (?f a)"])
  qed
qed

lemma agent_by_id_map:
  "agents db' = map (\<lambda>a. a\<lparr>a_seq := h a\<rparr>) (agents db) \<Longrightarrow>
     agent_by_id db' i = map_option (\<lambda>a. a\<lparr>a_seq := h a\<rparr>) (agent_by_id db i)"
proof -
  have "first_row (filter (\<lambda>a. a_id a = i) (map (\<lambda>a. a\<lparr>a_seq := h a\<rparr>) as))
      = map_option (\<lambda>a. a\<lparr>a_seq := h a\<rparr>) (first_row (filter (\<lambda>a. a_id a = i) as))" for as
    by (induction as) simp_all
  then show "agents db' = map (\<lambda>a. a\<lparr>a_seq := h a\<rparr>) (agents db) \<Longrightarrow> ?thesis" by (simp add: agent_by_id_def)
qed

lemma inserts_channelMembers [simp]:
  "channelMembers (foldl insert_delivery db rs) = channelMembers db"
  by (induction rs arbitrary: db) simp_all

lemma channelMute_seq [simp]: "channelMuteFilter mh m (a\<lparr>a_seq := x\<rparr>) = channelMuteFilter mh m a"
  by (simp add: channelMuteFilter_def)

lemma channel_intended_ids:
  "x \<in> a_id ` set (channel_intended db mid ch sender mh) \<longleftrightarrow>
     (\<exists>m \<in> set (channelMembers db). cm_channelId m = ch \<and> cm_agentId m = x \<and> x \<noteq> sender \<and> newDeliveryIdentity db mid x
        \<and> (\<exists>a. agent_by_id db x = Some a \<and> channelMuteFilter mh m a))" (is "?l \<longleftrightarrow> ?r")
proof
  assume ?l
  then obtain a m where am: "x = a_id a" "m \<in> set (channelMembers db)" "cm_channelId m = ch" "cm_agentId m \<noteq> sender"
    "newDeliveryIdentity db mid (cm_agentId m)" "agent_by_id db (cm_agentId m) = Some a" "channelMuteFilter mh m a"
    by (auto simp: channel_intended_def split: if_splits option.splits)
  with agent_by_id_Some [OF am(6)] show ?r by (intro bexI [of _ m]) auto
next
  assume ?r
  then obtain a m where am: "m \<in> set (channelMembers db)" "cm_channelId m = ch" "cm_agentId m = x" "x \<noteq> sender"
    "newDeliveryIdentity db mid x" "agent_by_id db x = Some a" "channelMuteFilter mh m a"
    by blast
  then have "a \<in> set (channel_intended db mid ch sender mh)"
    unfolding channel_intended_def set_concat set_map by (intro UnionI [OF imageI [OF imageI [of m]]]) auto
  with agent_by_id_Some [OF am(6)] show ?l by (auto intro!: image_eqI [of _ _ a])
qed

text \<open>After the inserts, the intended recipients are those of before that got no row.\<close>

lemma channel_intended_after:
  assumes "db' = foldl insert_delivery db rs"
  shows "a_id ` set (channel_intended db' mid ch sender mh)
    = {x \<in> a_id ` set (channel_intended db mid ch sender mh). newDeliveryIdentity db' mid x}"
proof -
  obtain h where h: "agents db' = map (\<lambda>a. a\<lparr>a_seq := h a\<rparr>) (agents db)"
    using inserts_agents_map [of db rs] assms by blast
  have cm: "channelMembers db' = channelMembers db" using assms by simp
  have ident: "newDeliveryIdentity db mid x" if "newDeliveryIdentity db' mid x" for x
    using that inserts_append [of db rs] assms by (auto simp: newDeliveryIdentity_def)
  show ?thesis
    unfolding set_eq_iff channel_intended_ids mem_Collect_eq cm agent_by_id_map [OF h] using ident by auto
qed

lemma fanout_record_ids:
  assumes "mb_inv db"
  shows "fr_agentId ` set (fetchDeliveryFanoutRecords db mid)
    = d_agentId ` {d \<in> set (deliveries db). d_messageId d = mid}"
proof -
  have one: "\<exists>a. agent_by_id db (d_agentId d) = Some a" if d: "d \<in> set (deliveries db)" for d
  proof -
    obtain a where "a \<in> set (agents db)" "a_id a = d_agentId d"
      using mb_inv_row [OF assms d] by (auto simp: row_ok_def)
    with agent_by_id_eq [OF mb_inv_distinct(1) [OF assms]] show ?thesis by metis
  qed
  have "fetchDeliveryFanoutRecords db mid
      = concat (map (\<lambda>d. [to_fanout_record (a_name (the (agent_by_id db (d_agentId d)))) d])
          (filter (\<lambda>d. d_messageId d = mid) (deliveries db)))"
    unfolding fetchDeliveryFanoutRecords_def using one
    by (intro arg_cong [of _ _ concat] map_cong refl) (auto split: option.splits)
  then show ?thesis by (force simp: to_fanout_record_def)
qed

lemma agent_by_id_messages [simp]: "agent_by_id (db\<lparr>messages := x\<rparr>) i = agent_by_id db i"
  by (simp add: agent_by_id_def)

lemma newDeliveryIdentity_iff:
  "newDeliveryIdentity db mid x \<longleftrightarrow> x \<notin> d_agentId ` {d \<in> set (deliveries db). d_messageId d = mid}"
  by (force simp: newDeliveryIdentity_def list_ex_iff)

lemma rejection_ids:
  "rj_agentId ` set (missingDeliveryRejections (map (\<lambda>a. (a, f a)) as) records mid)
    = a_id ` set as - fr_agentId ` set records"
  by (force simp: missingDeliveryRejections_def)

lemma no_delivery_of_new_message:
  "mb_inv db \<Longrightarrow> mid \<notin> m_id ` set (messages db) \<Longrightarrow> d \<in> set (deliveries db) \<Longrightarrow> d_messageId d \<noteq> mid"
  using mb_inv_row [of db d] by (force simp: row_ok_def)

text \<open>Every intended recipient of an accepted channel message is accounted for exactly once: the sender is told
  either of a delivery to it or of a rejection, never both, and of nobody else.\<close>

theorem channel_outcomes_partition:
  assumes ok: "postMessage handle t authority i m (ToChannel ch rsn mh rej aud) db = (None, db')" and inv: "mb_inv db"
    and m: "m_id m = fi_messageId i" "m_ws m = fi_workspaceId i" and audience: "audience_in_workspace (ToChannel ch rsn mh rej aud) db (fi_workspaceId i)"
    and oc: "fetchChannelDeliveryOutcomes t' authority i ch mh db' = (records, rejections)"
  shows "fr_agentId ` set records \<union> rj_agentId ` set rejections
      = a_id ` set (channel_intended db (fi_messageId i) ch (fi_senderAgentId i) mh)
    \<and> fr_agentId ` set records \<inter> rj_agentId ` set rejections = {}"
proof -
  let ?mid = "fi_messageId i" and ?sender = "fi_senderAgentId i"
  let ?db = "db\<lparr>messages := messages db @ [m]\<rparr>"
  let ?s = "ToChannel ch rsn mh rej aud"
  let ?rs = "map (send_row t i ?s ?db) (send_recipients t authority i ?s ?db)"
  note w = postMessage_ok [OF ok]
  have db': "db' = foldl insert_delivery ?db ?rs" by (rule send_write_Inr(1) [OF w(2)])
  have inv': "mb_inv db'"
    using mb_inv_insert_message [OF inv w(1)] m
    by (intro mb_inv_send_write [OF _ _ _ w(2)]) (use audience in \<open>auto simp: audience_messages simp del: audience_in_workspace.simps\<close>)
  have intended: "channel_intended ?db ?mid ch ?sender mh = channel_intended db ?mid ch ?sender mh"
    by (simp add: channel_intended_def newDeliveryIdentity_def cong: if_cong)
  have records: "fr_agentId ` set records = d_agentId ` {d \<in> set (deliveries db'). d_messageId d = ?mid}"
    using oc fanout_record_ids [OF inv'] by (auto simp: fetchChannelDeliveryOutcomes_def Let_def)
  obtain qs where qs: "deliveries db' = deliveries db @ qs" "set qs \<subseteq> set ?rs"
    using inserts_append [of ?db ?rs] db' by auto
  have "{d \<in> set (deliveries db'). d_messageId d = ?mid} \<subseteq> set ?rs"
    using qs no_delivery_of_new_message [OF inv w(1)] m(1) by auto
  then have "d_agentId ` {d \<in> set (deliveries db'). d_messageId d = ?mid} \<subseteq> d_agentId ` set ?rs" by (rule image_mono)
  also have "d_agentId ` set ?rs = a_id ` set (send_recipients t authority i ?s ?db)"
    by (simp only: set_map image_image send_row_fields)
  also have "\<dots> \<subseteq> a_id ` set (channel_intended ?db ?mid ch ?sender mh)" by auto
  finally have sub: "fr_agentId ` set records \<subseteq> a_id ` set (channel_intended db ?mid ch ?sender mh)"
    unfolding records intended .
  have recs: "records = fetchDeliveryFanoutRecords db' ?mid"
    and rej: "rejections = missingDeliveryRejections
        (map (\<lambda>a. (a, longOffline (toSec t') authority (fi_offlineExcludeMs i) (fi_leases i) db' (a_ws a) a))
          (channel_intended db' ?mid ch ?sender mh)) (fetchDeliveryFanoutRecords db' ?mid) ?mid"
    using oc by (auto simp: fetchChannelDeliveryOutcomes_def Let_def)
  have "rj_agentId ` set rejections
      = a_id ` set (channel_intended db' ?mid ch ?sender mh) - fr_agentId ` set records"
    unfolding rej rejection_ids recs [symmetric] ..
  also have "\<dots> = a_id ` set (channel_intended db ?mid ch ?sender mh) - fr_agentId ` set records"
    unfolding channel_intended_after [OF db'] intended records newDeliveryIdentity_iff by blast
  finally show ?thesis using sub by blast
qed

lemma channel_outcomes_partition_witness:
  "\<exists>records rejections. fetchChannelDeliveryOutcomes 100000 False ex_input ''9'' [] ex_after = (records, rejections)
     \<and> fr_agentId ` set records \<union> rj_agentId ` set rejections = {''2''}"
proof -
  obtain records rejections where
    oc: "fetchChannelDeliveryOutcomes 100000 False ex_input ''9'' [] ex_after = (records, rejections)"
    by fastforce
  have m: "m_id ex_msg = fi_messageId ex_input" "m_ws ex_msg = fi_workspaceId ex_input"
    "audience_in_workspace ex_send ex_db (fi_workspaceId ex_input)"
    using ex_audience by (simp_all add: ex_msg_def ex_input_def)
  have "a_id ` set (channel_intended ex_db ''7'' ''9'' ''1'' []) = {''2''}" by code_simp
  then show ?thesis
    using channel_outcomes_partition [OF ex_post [unfolded ex_send_def] ex_inv m(1,2) m(3) [unfolded ex_send_def] oc] oc by (auto simp: ex_input_def)
qed

end
