(* ===== verification/DeliveryOps.thy ===== *)
theory DeliveryOps
  imports Mailbox DeliveryPolicy AtomicWrites
begin

text \<open>
  Delivery transitions (\<open>engine/delivery.ts\<close>, \<open>engine/receipt.ts\<close>): acknowledging, failing and
  deferring one delivery, the cumulative acknowledgement of a node, marking deliveries delivered, and
  reading a message. Each operation takes the wall clock in milliseconds, the database, and returns
  what the function returns and the changed database.
\<close>

subsection \<open>Reading one delivery\<close>

definition channel_of :: "db \<Rightarrow> delivery_row \<Rightarrow> id" where
  "channel_of db d = (case message_by_id db (d_messageId d) of Some m \<Rightarrow> m_channelId m | None \<Rightarrow> '''')"

definition getOwnedDelivery :: "db \<Rightarrow> id \<Rightarrow> id \<Rightarrow> id \<Rightarrow> delivery_row option" where
  "getOwnedDelivery db ws agentId did =
     first_row (filter (\<lambda>d. d_id d = did \<and> d_ws d = ws \<and> d_agentId d = agentId
       \<and> message_by_id db (d_messageId d) \<noteq> None) (deliveries db))"

text \<open>A transition reports the delivery and whether this call changed it.\<close>

type_synonym transition_result = "(delivery_row \<times> bool) option"

definition resolveTransition :: "db \<Rightarrow> id \<Rightarrow> id \<Rightarrow> id \<Rightarrow> delivery_row option \<Rightarrow> transition_result" where
  "resolveTransition db ws agentId did updated =
     (case updated of
        Some u \<Rightarrow> Some (u, True)
      | None \<Rightarrow> map_option (\<lambda>d. (d, False)) (getOwnedDelivery db ws agentId did))"

subsection \<open>Acknowledging\<close>

definition ackable :: "delivery_row \<Rightarrow> bool" where
  "ackable d \<longleftrightarrow> d_status d \<notin> {Acked, DeadLettered}"

definition deliveryStillAckable :: "db \<Rightarrow> id \<Rightarrow> id \<Rightarrow> bool" where
  "deliveryStillAckable db ws did \<longleftrightarrow> list_ex (\<lambda>d. d_id d = did \<and> d_ws d = ws \<and> ackable d) (deliveries db)"

definition cursor_behind :: "id option \<Rightarrow> id \<Rightarrow> bool" where
  "cursor_behind lastRead messageId \<longleftrightarrow>
     (case lastRead of None \<Rightarrow> True | Some l \<Rightarrow> cast_bigint l < cast_bigint messageId)"

definition insert_receipt :: "sec \<Rightarrow> id \<Rightarrow> id \<Rightarrow> db \<Rightarrow> db" where
  "insert_receipt now messageId agentId db =
     (if list_ex (\<lambda>r. rr_messageId r = messageId \<and> rr_agentId r = agentId) (readReceipts db) then db
      else db\<lparr>readReceipts := readReceipts db @
        [\<lparr>rr_messageId = messageId, rr_agentId = agentId, rr_readAt = now\<rparr>]\<rparr>)"

definition advance_member_cursor :: "id \<Rightarrow> id \<Rightarrow> id \<Rightarrow> db \<Rightarrow> db" where
  "advance_member_cursor agentId channelId messageId db =
     db\<lparr>channelMembers := upd_where
        (\<lambda>m. cm_channelId m = channelId \<and> cm_agentId m = agentId \<and> cursor_behind (cm_lastReadId m) messageId)
        (\<lambda>m. m\<lparr>cm_lastReadId := Some messageId\<rparr>) (channelMembers db)\<rparr>"

definition advanceDmParticipantReadCursor :: "id \<Rightarrow> id \<Rightarrow> id \<Rightarrow> db \<Rightarrow> db" where
  "advanceDmParticipantReadCursor agentId channelId messageId db =
     db\<lparr>dmParticipants := upd_where
        (\<lambda>p. dp_agentId p = agentId \<and> dp_leftAt p = None
          \<and> list_ex (\<lambda>c. dc_id c = dp_conversationId p \<and> dc_channelId c = channelId) (dmConversations db)
          \<and> cursor_behind (dp_lastReadId p) messageId)
        (\<lambda>p. p\<lparr>dp_lastReadId := Some messageId\<rparr>) (dmParticipants db)\<rparr>"

text \<open>The three statements before the status update; each observes the status before it.\<close>

definition readCursorWrites :: "ms \<Rightarrow> id \<Rightarrow> id \<Rightarrow> db \<Rightarrow> delivery_row \<Rightarrow> db" where
  "readCursorWrites now ws agentId db d =
     (if deliveryStillAckable db ws (d_id d)
      then advanceDmParticipantReadCursor agentId (channel_of db d) (d_messageId d)
             (advance_member_cursor agentId (channel_of db d) (d_messageId d)
               (insert_receipt (toSec now) (d_messageId d) agentId db))
      else db)"

definition ack_set :: "ms \<Rightarrow> delivery_row \<Rightarrow> delivery_row" where
  "ack_set now d = d\<lparr>d_status := Acked, d_nextAttemptAt := None, d_lastDispatchError := None,
     d_ackedAt := Some (toSec now), d_updatedAt := Some (toSec now)\<rparr>"

definition touch_agent :: "ms \<Rightarrow> int option \<Rightarrow> agent_row \<Rightarrow> agent_row" where
  "touch_agent now advanceTo a =
     a\<lparr>a_ackSeq := (case advanceTo of None \<Rightarrow> a_ackSeq a
          | Some n \<Rightarrow> if a_ackSeq a < n then n else a_ackSeq a), a_lastSeen := toSec now\<rparr>"

definition ackRows :: "ms \<Rightarrow> id \<Rightarrow> id \<Rightarrow> delivery_row list \<Rightarrow> int option \<Rightarrow> db \<Rightarrow> delivery_row list \<times> db" where
  "ackRows now ws agentId rows advanceTo db =
     (let db1 = db\<lparr>agents := upd_where (\<lambda>a. a_ws a = ws \<and> a_id a = agentId) (touch_agent now advanceTo) (agents db)\<rparr>;
          db2 = foldl (readCursorWrites now ws agentId) db1 rows;
          P = (\<lambda>d. d_ws d = ws \<and> d_id d \<in> d_id ` set rows \<and> ackable d)
      in if rows = [] then ([], db2)
         else (returning P (ack_set now) (deliveries db2),
               db2\<lparr>deliveries := upd_where P (ack_set now) (deliveries db2)\<rparr>))"

definition ackDelivery :: "ms \<Rightarrow> id \<Rightarrow> id \<Rightarrow> id \<Rightarrow> db \<Rightarrow> transition_result \<times> db" where
  "ackDelivery now ws agentId did db =
     (case getOwnedDelivery db ws agentId did of
        None \<Rightarrow> (None, db)
      | Some existing \<Rightarrow>
          if d_status existing = Acked then (Some (existing, False), db)
          else let (updated, db') = ackRows now ws agentId [existing] None db
               in (resolveTransition db' ws agentId did (first_row updated), db'))"

subsection \<open>Failing and deferring\<close>

definition fail_set :: "ms \<Rightarrow> string option \<Rightarrow> bool option \<Rightarrow> delivery_row \<Rightarrow> delivery_row" where
  "fail_set now err retryable d =
     d\<lparr>d_status := Failed, d_error := err, d_retryable := retryable, d_updatedAt := Some (toSec now)\<rparr>"

definition failDelivery ::
  "ms \<Rightarrow> id \<Rightarrow> id \<Rightarrow> id \<Rightarrow> string option \<Rightarrow> bool option \<Rightarrow> db \<Rightarrow> transition_result \<times> db" where
  "failDelivery now ws agentId did err retryable db =
     (case getOwnedDelivery db ws agentId did of
        None \<Rightarrow> (None, db)
      | Some existing \<Rightarrow>
          if d_status existing \<in> {Acked, DeadLettered, Failed} then (Some (existing, False), db)
          else let P = (\<lambda>d. d_id d = did \<and> d_status d \<notin> {Acked, DeadLettered, Failed});
                   db' = db\<lparr>deliveries := upd_where P (fail_set now err retryable) (deliveries db)\<rparr>
               in (resolveTransition db' ws agentId did
                     (first_row (returning P (fail_set now err retryable) (deliveries db))), db'))"

definition defer_set :: "ms \<Rightarrow> sec \<Rightarrow> string option \<Rightarrow> delivery_row \<Rightarrow> delivery_row" where
  "defer_set now availableAt reason d =
     d\<lparr>d_status := Queued, d_availableAt := Some availableAt, d_reason := reason, d_updatedAt := Some (toSec now)\<rparr>"

text \<open>The no-op condition of a defer, with SQL's NULL: \<open>available_at\<close> and \<open>reason\<close> are nullable.\<close>

definition defer_noop :: "sec \<Rightarrow> string option \<Rightarrow> delivery_row \<Rightarrow> truth" where
  "defer_noop availableAt reason d =
     sql_and (sql_and (Some (d_status d = Queued)) (sql_eq (d_availableAt d) (Some availableAt)))
       (case reason of None \<Rightarrow> Some (d_reason d = None) | Some r \<Rightarrow> sql_eq (d_reason d) (Some r))"

definition defer_capacity_ok :: "ms \<Rightarrow> id \<Rightarrow> delivery_policy option \<Rightarrow> db \<Rightarrow> delivery_row \<Rightarrow> bool" where
  "defer_capacity_ok now ws policy db d \<longleftrightarrow>
     (case policy of None \<Rightarrow> True
      | Some p \<Rightarrow> d_status d \<noteq> Failed \<or> (case d_expiresAt d of None \<Rightarrow> False | Some e \<Rightarrow> e \<le> toSec now)
          \<or> int (workspaceActiveDepth (toSec now) db ws) < workspaceGrowthLimit p Targeted)"

definition deferDelivery ::
  "ms \<Rightarrow> id \<Rightarrow> id \<Rightarrow> id \<Rightarrow> ms \<Rightarrow> string option \<Rightarrow> delivery_policy option \<Rightarrow> db
     \<Rightarrow> (write_error + transition_result) \<times> db" where
  "deferDelivery now ws agentId did availableAt reason policy db =
     (case getOwnedDelivery db ws agentId did of
        None \<Rightarrow> (Inr None, db)
      | Some existing \<Rightarrow>
          if d_status existing \<in> {Acked, DeadLettered} then (Inr (Some (existing, False)), db)
          else let av = toSec availableAt;
                   P = (\<lambda>d. d_id d = did \<and> d_status d \<notin> {Acked, DeadLettered}
                          \<and> sql_not (defer_noop av reason d) = Some True \<and> defer_capacity_ok now ws policy db d);
                   updated = first_row (returning P (defer_set now av reason) (deliveries db));
                   db' = db\<lparr>deliveries := upd_where P (defer_set now av reason) (deliveries db)\<rparr>
               in (case (updated, policy, getOwnedDelivery db' ws agentId did) of
                     (None, Some _, Some current) \<Rightarrow>
                       (if d_status current = Failed \<and> (case d_expiresAt current of None \<Rightarrow> True | Some e \<Rightarrow> e * 1000 > now)
                        then Inl WorkspaceDeliveryCapacityError
                        else Inr (resolveTransition db' ws agentId did updated))
                   | _ \<Rightarrow> Inr (resolveTransition db' ws agentId did updated), db'))"

subsection \<open>Marking delivered, and reading\<close>

definition delivered_set :: "ms \<Rightarrow> delivery_row \<Rightarrow> delivery_row" where
  "delivered_set now d = d\<lparr>d_status := Delivered, d_nextAttemptAt := None, d_lastDispatchError := None,
     d_deliveredAt := Some (toSec now), d_updatedAt := Some (toSec now)\<rparr>"

definition mark_pred :: "id \<Rightarrow> id list \<Rightarrow> delivery_row \<Rightarrow> bool" where
  "mark_pred ws page d \<longleftrightarrow> d_ws d = ws \<and> d_id d \<in> set page \<and> d_status d = Queued"

definition mark_page :: "ms \<Rightarrow> id \<Rightarrow> id list \<times> db \<Rightarrow> id list \<Rightarrow> id list \<times> db" where
  "mark_page now ws acc page =
     (fst acc @ map d_id (returning (mark_pred ws page) (delivered_set now) (deliveries (snd acc))),
      (snd acc)\<lparr>deliveries := upd_where (mark_pred ws page) (delivered_set now) (deliveries (snd acc))\<rparr>)"

definition markDeliveriesDelivered :: "ms \<Rightarrow> id \<Rightarrow> id list \<Rightarrow> db \<Rightarrow> id list \<times> db" where
  "markDeliveriesDelivered now ws deliveryIds db = foldl (mark_page now ws) ([], db) (pages 50 (uniq deliveryIds))"

definition can_see :: "db \<Rightarrow> message_row \<Rightarrow> id \<Rightarrow> bool" where
  "can_see db msg agentId \<longleftrightarrow>
     list_ex (\<lambda>m. cm_channelId m = m_channelId msg \<and> cm_agentId m = agentId) (channelMembers db)
   \<or> list_ex (\<lambda>p. dp_agentId p = agentId \<and> dp_leftAt p = None
        \<and> list_ex (\<lambda>c. dc_id c = dp_conversationId p \<and> dc_channelId c = m_channelId msg) (dmConversations db))
       (dmParticipants db)"

definition read_set :: "ms \<Rightarrow> delivery_row \<Rightarrow> delivery_row" where
  "read_set now d = d\<lparr>d_status := Acked, d_ackedAt := Some (toSec now), d_updatedAt := Some (toSec now)\<rparr>"

definition markRead :: "ms \<Rightarrow> id \<Rightarrow> id \<Rightarrow> id \<Rightarrow> db \<Rightarrow> read_receipt option \<times> db" where
  "markRead now ws messageId agentId db =
     (case message_by_id db messageId of
        None \<Rightarrow> (None, db)
      | Some msg \<Rightarrow>
          if m_ws msg \<noteq> ws \<or> \<not> can_see db msg agentId then (None, db)
          else let db1 = insert_receipt (toSec now) messageId agentId db;
                   db2 = db1\<lparr>deliveries := upd_where
                           (\<lambda>d. d_messageId d = messageId \<and> d_agentId d = agentId \<and> active d)
                           (read_set now) (deliveries db1)\<rparr>;
                   db3 = advance_member_cursor agentId (m_channelId msg) messageId db2;
                   db4 = advanceDmParticipantReadCursor agentId (m_channelId msg) messageId db3
               in (first_row (filter (\<lambda>r. rr_messageId r = messageId \<and> rr_agentId r = agentId) (readReceipts db4)), db4))"

subsection \<open>The cumulative acknowledgement of a node\<close>

definition find_node_agent :: "db \<Rightarrow> id \<Rightarrow> id \<Rightarrow> string \<Rightarrow> string \<Rightarrow> agent_row option" where
  "find_node_agent db ws nodeId providerName agentName =
     first_row (filter (\<lambda>a. a_ws a = ws \<and> a_name a = agentName \<and> a_locationType a = ''via_node''
       \<and> a_locationNodeId a = Some nodeId \<and> a_providerName a = providerName) (agents db))"

definition pending_rows :: "db \<Rightarrow> id \<Rightarrow> id \<Rightarrow> int \<Rightarrow> delivery_row list" where
  "pending_rows db ws agentId upToSeq =
     sort_key d_seq (filter (\<lambda>d. d_ws d = ws \<and> d_agentId d = agentId \<and> d_seq d \<le> upToSeq \<and> ackable d
       \<and> message_by_id db (d_messageId d) \<noteq> None) (deliveries db))"

text \<open>The chunks of 50; only the last one moves the cursor.\<close>

fun ack_chunks :: "ms \<Rightarrow> id \<Rightarrow> id \<Rightarrow> int \<Rightarrow> delivery_row list list \<Rightarrow> id list \<times> db \<Rightarrow> id list \<times> db" where
  "ack_chunks now ws agentId upToSeq [] acc = acc"
| "ack_chunks now ws agentId upToSeq (chunk # rest) (ids, db) =
     (let (updated, db') = ackRows now ws agentId chunk (if rest = [] then Some upToSeq else None) db
      in ack_chunks now ws agentId upToSeq rest (ids @ map d_id updated, db'))"

record ack_result =
  ar_agentId :: id
  ar_agentName :: string
  ar_upToSeq :: int
  ar_acked :: nat
  ar_ids :: "id list"

definition ackDeliveriesUpToSeq ::
  "ms \<Rightarrow> id \<Rightarrow> id \<Rightarrow> string \<Rightarrow> string \<Rightarrow> int \<Rightarrow> db \<Rightarrow> ack_result option \<times> db" where
  "ackDeliveriesUpToSeq now ws nodeId providerName agentName upToSeq db =
     (case find_node_agent db ws nodeId providerName agentName of
        None \<Rightarrow> (None, db)
      | Some a \<Rightarrow>
          let result = (\<lambda>ids. Some \<lparr>ar_agentId = a_id a, ar_agentName = a_name a, ar_upToSeq = upToSeq,
                 ar_acked = length ids, ar_ids = ids\<rparr>)
          in if upToSeq \<le> a_ackSeq a then (result [], db)
             else let pending = pending_rows db ws (a_id a) upToSeq
               in if pending = [] then (result [], snd (ackRows now ws (a_id a) [] (Some upToSeq) db))
                  else let (ids, db') = ack_chunks now ws (a_id a) upToSeq (pages 50 pending) ([], db)
                       in (result ids, db'))"

subsection \<open>The cursor writes touch neither cursors nor deliveries\<close>

lemma map_member_cursor: "map cm_key (upd_where P (\<lambda>m. m\<lparr>cm_lastReadId := x\<rparr>) ms) = map cm_key ms"
  by (rule map_upd_where) (simp add: cm_key_def)

lemma map_dm_cursor: "map dp_key (upd_where P (\<lambda>m. m\<lparr>dp_lastReadId := x\<rparr>) ms) = map dp_key ms"
  by (rule map_upd_where) (simp add: dp_key_def)

lemma insert_receipt_other [row_simps]:
  "agents (insert_receipt now m a db) = agents db" "deliveries (insert_receipt now m a db) = deliveries db"
  "messages (insert_receipt now m a db) = messages db" "channelMembers (insert_receipt now m a db) = channelMembers db"
  "dmParticipants (insert_receipt now m a db) = dmParticipants db"
  by (simp_all add: insert_receipt_def)

lemma advance_member_cursor_other [row_simps]:
  "agents (advance_member_cursor a ch m db) = agents db" "deliveries (advance_member_cursor a ch m db) = deliveries db"
  "messages (advance_member_cursor a ch m db) = messages db"
  "map cm_key (channelMembers (advance_member_cursor a ch m db)) = map cm_key (channelMembers db)"
  "dmParticipants (advance_member_cursor a ch m db) = dmParticipants db"
  by (simp_all add: advance_member_cursor_def map_member_cursor)

lemma advanceDm_other [row_simps]:
  "agents (advanceDmParticipantReadCursor a ch m db) = agents db"
  "deliveries (advanceDmParticipantReadCursor a ch m db) = deliveries db"
  "messages (advanceDmParticipantReadCursor a ch m db) = messages db"
  "channelMembers (advanceDmParticipantReadCursor a ch m db) = channelMembers db"
  "map dp_key (dmParticipants (advanceDmParticipantReadCursor a ch m db)) = map dp_key (dmParticipants db)"
  by (simp_all add: advanceDmParticipantReadCursor_def map_dm_cursor)

lemma readCursorWrites_other [row_simps]:
  "agents (readCursorWrites now ws a db d) = agents db" "deliveries (readCursorWrites now ws a db d) = deliveries db"
  "messages (readCursorWrites now ws a db d) = messages db"
  "map cm_key (channelMembers (readCursorWrites now ws a db d)) = map cm_key (channelMembers db)"
  "map dp_key (dmParticipants (readCursorWrites now ws a db d)) = map dp_key (dmParticipants db)"
  by (simp_all add: readCursorWrites_def row_simps)

lemma readCursorWrites_fold [row_simps]:
  "agents (foldl (readCursorWrites now ws a) db ds) = agents db"
  "deliveries (foldl (readCursorWrites now ws a) db ds) = deliveries db"
  "messages (foldl (readCursorWrites now ws a) db ds) = messages db"
  "map cm_key (channelMembers (foldl (readCursorWrites now ws a) db ds)) = map cm_key (channelMembers db)"
  "map dp_key (dmParticipants (foldl (readCursorWrites now ws a) db ds)) = map dp_key (dmParticipants db)"
  by (induction ds arbitrary: db) (simp_all add: row_simps)

definition ack_pred :: "id \<Rightarrow> delivery_row list \<Rightarrow> delivery_row \<Rightarrow> bool" where
  "ack_pred ws rows d \<longleftrightarrow> d_ws d = ws \<and> d_id d \<in> d_id ` set rows \<and> ackable d"

lemma ackRows_result [row_simps]:
  "agents (snd (ackRows now ws ag rows adv db)) = upd_where (\<lambda>a. a_ws a = ws \<and> a_id a = ag) (touch_agent now adv) (agents db)"
  "deliveries (snd (ackRows now ws ag rows adv db)) = upd_where (ack_pred ws rows) (ack_set now) (deliveries db)"
  "messages (snd (ackRows now ws ag rows adv db)) = messages db"
  "map cm_key (channelMembers (snd (ackRows now ws ag rows adv db))) = map cm_key (channelMembers db)"
  "map dp_key (dmParticipants (snd (ackRows now ws ag rows adv db))) = map dp_key (dmParticipants db)"
  "fst (ackRows now ws ag rows adv db) = returning (ack_pred ws rows) (ack_set now) (deliveries db)"
proof -
  have P: "(\<lambda>d. d_ws d = ws \<and> d_id d \<in> d_id ` set rows \<and> ackable d) = ack_pred ws rows"
    by (simp add: fun_eq_iff ack_pred_def)
  have none: "ack_pred ws [] d = False" for d by (simp add: ack_pred_def)
  show "agents (snd (ackRows now ws ag rows adv db)) = upd_where (\<lambda>a. a_ws a = ws \<and> a_id a = ag) (touch_agent now adv) (agents db)"
    "messages (snd (ackRows now ws ag rows adv db)) = messages db"
    "map cm_key (channelMembers (snd (ackRows now ws ag rows adv db))) = map cm_key (channelMembers db)"
    "map dp_key (dmParticipants (snd (ackRows now ws ag rows adv db))) = map dp_key (dmParticipants db)"
    by (simp_all add: ackRows_def Let_def row_simps)
  show "deliveries (snd (ackRows now ws ag rows adv db)) = upd_where (ack_pred ws rows) (ack_set now) (deliveries db)"
    by (cases "rows = []") (simp_all add: ackRows_def Let_def row_simps P none upd_where_id)
  show "fst (ackRows now ws ag rows adv db) = returning (ack_pred ws rows) (ack_set now) (deliveries db)"
    by (cases "rows = []") (simp_all add: ackRows_def Let_def row_simps P none returning_def)
qed

lemma mb_inv_cong:
  assumes "agents x = agents y" "deliveries x = deliveries y" "messages x = messages y"
    "map cm_key (channelMembers x) = map cm_key (channelMembers y)"
    "map dp_key (dmParticipants x) = map dp_key (dmParticipants y)"
  shows "mb_inv x = mb_inv y"
  using assms by (simp add: mb_inv_def row_ok_def)

subsection \<open>The updates of the transitions\<close>

lemma ack_set_fields [simp]:
  "d_status (ack_set now d) = Acked" "same_key d (ack_set now d)" "d_id (ack_set now d) = d_id d"
  "\<not> ackable (ack_set now d)" "d_ws (ack_set now d) = d_ws d" "d_agentId (ack_set now d) = d_agentId d"
  "d_seq (ack_set now d) = d_seq d" "d_messageId (ack_set now d) = d_messageId d"
  by (simp_all add: ack_set_def same_key_def ackable_def)

lemma touch_agent_fields [simp]:
  "a_id (touch_agent now adv a) = a_id a" "a_ws (touch_agent now adv a) = a_ws a" "a_seq (touch_agent now adv a) = a_seq a"
  "a_ackSeq (touch_agent now None a) = a_ackSeq a" "a_ackSeq (touch_agent now (Some n) a) = max (a_ackSeq a) n"
  "touch_agent now adv (touch_agent now None a) = touch_agent now adv a"
  by (auto simp: touch_agent_def max_def split: option.splits)

lemma status_updates:
  "status_update (ack_pred ws rows) (ack_set now)"
  "status_update (\<lambda>d. d_id d = did \<and> d_status d \<notin> {Acked, DeadLettered, Failed}) (fail_set now err r)"
  "status_update (\<lambda>d. d_id d = did \<and> d_status d \<notin> {Acked, DeadLettered} \<and> Q d) (defer_set now av rsn)"
  "status_update (mark_pred ws page) (delivered_set now)"
  "status_update (\<lambda>d. d_messageId d = m \<and> d_agentId d = a \<and> active d) (read_set now)"
  by (auto simp: status_update_def ack_pred_def ackable_def settled_def active_def mark_pred_def fail_set_def defer_set_def
      delivered_set_def read_set_def same_key_def)

lemma mailbox_op_cong:
  assumes f: "mailbox_op f" and eq: "\<And>db. agents (g db) = agents (f db)" "\<And>db. deliveries (g db) = deliveries (f db)"
    "\<And>db. messages (g db) = messages (f db)"
    "\<And>db. map cm_key (channelMembers (g db)) = map cm_key (channelMembers (f db))"
    "\<And>db. map dp_key (dmParticipants (g db)) = map dp_key (dmParticipants (f db))"
  shows "mailbox_op g"
proof
  have inv: "mb_inv (g db) = mb_inv (f db)" for db by (rule mb_inv_cong) (simp_all add: eq)
  show "mb_inv (g db)" if "mb_inv db" for db
    unfolding inv using f that by (rule mailbox_op.keeps_inv)
  show "\<exists>e\<in>set (deliveries (g db)). same_key d e \<and> d_status e = d_status d"
    if "mb_inv db" "d \<in> set (deliveries db)" "settled d" for db d
    unfolding eq using mailbox_op.keeps_settled [OF f that] .
  show "\<exists>b\<in>set (agents (g db)). a_id b = a_id a \<and> a_ws b = a_ws a \<and> a_ackSeq a \<le> a_ackSeq b \<and> a_seq a \<le> a_seq b"
    if "mb_inv db" "a \<in> set (agents db)" for db a
    unfolding eq using mailbox_op.cursors_grow [OF f that] .
  show "\<exists>d\<in>set (deliveries db). same_key d e" if "mb_inv db" "e \<in> set (deliveries (g db))" for db e
    using mailbox_op.no_new_rows [OF f that(1)] that(2) unfolding eq .
qed

lemma mailbox_op_ackRows: "mailbox_op (\<lambda>db. snd (ackRows now ws ag rows None db))"
proof (rule mailbox_op_cong)
  let ?f = "\<lambda>db. db\<lparr>agents := upd_where (\<lambda>a. a_ws a = ws \<and> a_id a = ag) (touch_agent now None) (agents db)\<rparr>"
  let ?g = "\<lambda>db. db\<lparr>deliveries := upd_where (ack_pred ws rows) (ack_set now) (deliveries db)\<rparr>"
  show "mailbox_op (\<lambda>db. ?g (?f db))"
    by (rule mailbox_op_comp [OF mailbox_op_upd_agents mailbox_op_upd_deliveries [OF status_updates(1)]])
      (simp add: agent_touch_def)
qed (simp_all add: row_simps)

lemma mailbox_op_cases:
  assumes c: "\<And>db. \<exists>g. mailbox_op g \<and> f db = g db"
  shows "mailbox_op f"
proof
  show "mb_inv (f db)" if "mb_inv db" for db
  proof -
    obtain g where "mailbox_op g" "f db = g db" using c by blast
    then show ?thesis using that by (simp add: mailbox_op.keeps_inv)
  qed
  show "\<exists>e\<in>set (deliveries (f db)). same_key d e \<and> d_status e = d_status d"
    if "mb_inv db" "d \<in> set (deliveries db)" "settled d" for db d
  proof -
    obtain g where g: "mailbox_op g" "f db = g db" using c by blast
    show ?thesis unfolding g(2) by (rule mailbox_op.keeps_settled [OF g(1) that])
  qed
  show "\<exists>b\<in>set (agents (f db)). a_id b = a_id a \<and> a_ws b = a_ws a \<and> a_ackSeq a \<le> a_ackSeq b \<and> a_seq a \<le> a_seq b"
    if "mb_inv db" "a \<in> set (agents db)" for db a
  proof -
    obtain g where g: "mailbox_op g" "f db = g db" using c by blast
    show ?thesis unfolding g(2) by (rule mailbox_op.cursors_grow [OF g(1) that])
  qed
  show "\<exists>d\<in>set (deliveries db). same_key d e" if "mb_inv db" "e \<in> set (deliveries (f db))" for db e
  proof -
    obtain g where g: "mailbox_op g" "f db = g db" using c by blast
    show ?thesis using mailbox_op.no_new_rows [OF g(1) that(1)] that(2) unfolding g(2) .
  qed
qed

text \<open>An operation that leaves the database alone, or updates statuses.\<close>

lemma mailbox_op_status:
  assumes s: "\<And>db. status_update (P db) g"
    and f: "\<And>db. f db = db \<or> f db = db\<lparr>deliveries := upd_where (P db) g (deliveries db)\<rparr>"
  shows "mailbox_op f"
proof (rule mailbox_op_cases)
  fix db
  have "mailbox_op (\<lambda>d. d\<lparr>deliveries := upd_where (P db) g (deliveries d)\<rparr>)"
    by (rule mailbox_op_upd_deliveries [OF s])
  then show "\<exists>g. mailbox_op g \<and> f db = g db"
    using f [of db] mailbox_op_id by (elim disjE) (rule exI, erule conjI [rotated], simp)+
qed

lemma mailbox_op_ack: "mailbox_op (\<lambda>db. snd (ackDelivery now ws ag did db))"
proof (rule mailbox_op_cases)
  fix db
  have "snd (ackDelivery now ws ag did db) = db
      \<or> (\<exists>d. snd (ackDelivery now ws ag did db) = snd (ackRows now ws ag [d] None db))"
    by (auto simp: ackDelivery_def case_prod_unfold Let_def split: option.splits)
  then show "\<exists>g. mailbox_op g \<and> snd (ackDelivery now ws ag did db) = g db"
  proof
    assume "snd (ackDelivery now ws ag did db) = db"
    then show ?thesis by (intro exI [of _ "\<lambda>db. db"]) (simp add: mailbox_op_id)
  next
    assume "\<exists>d. snd (ackDelivery now ws ag did db) = snd (ackRows now ws ag [d] None db)"
    then obtain d where "snd (ackDelivery now ws ag did db) = snd (ackRows now ws ag [d] None db)" ..
    then show ?thesis
      by (intro exI [of _ "\<lambda>db. snd (ackRows now ws ag [d] None db)"]) (simp add: mailbox_op_ackRows)
  qed
qed

lemma failDelivery_db:
  "snd (failDelivery now ws ag did err r db) = db \<or> snd (failDelivery now ws ag did err r db)
     = db\<lparr>deliveries := upd_where (\<lambda>d. d_id d = did \<and> d_status d \<notin> {Acked, DeadLettered, Failed})
           (fail_set now err r) (deliveries db)\<rparr>"
  by (auto simp: failDelivery_def Let_def split: option.splits)

lemma mailbox_op_fail: "mailbox_op (\<lambda>db. snd (failDelivery now ws ag did err r db))"
  by (rule mailbox_op_status [OF status_updates(2) failDelivery_db])

lemma deferDelivery_db:
  "snd (deferDelivery now ws ag did av rsn policy db) = db \<or> snd (deferDelivery now ws ag did av rsn policy db)
     = db\<lparr>deliveries := upd_where (\<lambda>d. d_id d = did \<and> d_status d \<notin> {Acked, DeadLettered}
            \<and> (sql_not (defer_noop (toSec av) rsn d) = Some True \<and> defer_capacity_ok now ws policy db d))
           (defer_set now (toSec av) rsn) (deliveries db)\<rparr>"
  by (auto simp: deferDelivery_def Let_def split: option.splits)

lemma mailbox_op_defer: "mailbox_op (\<lambda>db. snd (deferDelivery now ws ag did av rsn policy db))"
  by (rule mailbox_op_status [OF status_updates(3) deferDelivery_db])

lemma mark_pages_snd:
  "snd (foldl (mark_page now ws) acc ps)
     = foldl (\<lambda>db p. db\<lparr>deliveries := upd_where (mark_pred ws p) (delivered_set now) (deliveries db)\<rparr>) (snd acc) ps"
  by (induction ps arbitrary: acc) (simp_all add: mark_page_def)

lemma mailbox_op_mark: "mailbox_op (\<lambda>db. snd (markDeliveriesDelivered now ws ids db))"
  unfolding markDeliveriesDelivered_def mark_pages_snd snd_conv
  by (rule mailbox_op_foldl) (rule mailbox_op_upd_deliveries [OF status_updates(4)])

definition read_allowed :: "id \<Rightarrow> id \<Rightarrow> id \<Rightarrow> db \<Rightarrow> bool" where
  "read_allowed ws mid ag db \<longleftrightarrow>
     (case message_by_id db mid of None \<Rightarrow> False | Some msg \<Rightarrow> m_ws msg = ws \<and> can_see db msg ag)"

lemma markRead_result [row_simps]:
  "agents (snd (markRead now ws mid ag db)) = agents db" "messages (snd (markRead now ws mid ag db)) = messages db"
  "map cm_key (channelMembers (snd (markRead now ws mid ag db))) = map cm_key (channelMembers db)"
  "map dp_key (dmParticipants (snd (markRead now ws mid ag db))) = map dp_key (dmParticipants db)"
  "deliveries (snd (markRead now ws mid ag db)) =
     (if read_allowed ws mid ag db
      then upd_where (\<lambda>d. d_messageId d = mid \<and> d_agentId d = ag \<and> active d) (read_set now) (deliveries db)
      else deliveries db)"
  by (auto simp: markRead_def Let_def row_simps read_allowed_def split: option.splits)

lemma mailbox_op_read: "mailbox_op (\<lambda>db. snd (markRead now ws mid ag db))"
proof (rule mailbox_op_cong)
  let ?P = "\<lambda>d. d_messageId d = mid \<and> d_agentId d = ag \<and> active d"
  show "mailbox_op (\<lambda>db. if read_allowed ws mid ag db
      then db\<lparr>deliveries := upd_where ?P (read_set now) (deliveries db)\<rparr> else db)"
    by (rule mailbox_op_if [OF mailbox_op_upd_deliveries [OF status_updates(5)] mailbox_op_id])
qed (simp_all add: row_simps)

subsection \<open>The cumulative acknowledgement\<close>

lemma upd_where_join:
  assumes "\<And>d. P d \<Longrightarrow> \<not> Q (f d)"
  shows "upd_where Q f (upd_where P f ds) = upd_where (\<lambda>d. P d \<or> Q d) f ds"
  using assms by (induction ds) auto

lemma ack_pred_join:
  "upd_where (ack_pred ws ys) (ack_set now) (upd_where (ack_pred ws xs) (ack_set now) ds)
     = upd_where (ack_pred ws (xs @ ys)) (ack_set now) ds"
proof -
  have "(\<lambda>d. ack_pred ws xs d \<or> ack_pred ws ys d) = ack_pred ws (xs @ ys)"
    by (auto simp: ack_pred_def fun_eq_iff)
  then show ?thesis by (simp add: upd_where_join ack_pred_def)
qed

text \<open>Chunking does not show: the rows end as one statement over all of them would leave them.\<close>

lemma ack_chunks_result:
  assumes "chunks \<noteq> []"
  shows "deliveries (snd (ack_chunks now ws ag n chunks (ids, db)))
      = upd_where (ack_pred ws (concat chunks)) (ack_set now) (deliveries db)
    \<and> agents (snd (ack_chunks now ws ag n chunks (ids, db)))
      = upd_where (\<lambda>a. a_ws a = ws \<and> a_id a = ag) (touch_agent now (Some n)) (agents db)
    \<and> messages (snd (ack_chunks now ws ag n chunks (ids, db))) = messages db
    \<and> map cm_key (channelMembers (snd (ack_chunks now ws ag n chunks (ids, db)))) = map cm_key (channelMembers db)
    \<and> map dp_key (dmParticipants (snd (ack_chunks now ws ag n chunks (ids, db)))) = map dp_key (dmParticipants db)"
  using assms
proof (induction chunks arbitrary: ids db)
  case (Cons c cs)
  let ?r = "ackRows now ws ag c (if cs = [] then Some n else None) db"
  have step: "ack_chunks now ws ag n (c # cs) (ids, db) = ack_chunks now ws ag n cs (ids @ map d_id (fst ?r), snd ?r)"
    by (simp add: case_prod_unfold Let_def)
  show ?case
  proof (cases "cs = []")
    case True
    then show ?thesis by (simp add: case_prod_unfold Let_def row_simps)
  next
    case False
    have agents: "upd_where (\<lambda>a. a_ws a = ws \<and> a_id a = ag) (touch_agent now (Some n))
        (upd_where (\<lambda>a. a_ws a = ws \<and> a_id a = ag) (touch_agent now None) as)
      = upd_where (\<lambda>a. a_ws a = ws \<and> a_id a = ag) (touch_agent now (Some n)) as" for as
      by (induction as) auto
    show ?thesis
      unfolding step using Cons.IH [OF False, of "ids @ map d_id (fst ?r)" "snd ?r"] False
      by (simp add: row_simps ack_pred_join agents)
  qed
qed simp

lemma pages_nonempty: "xs \<noteq> [] \<Longrightarrow> 0 < n \<Longrightarrow> pages n xs \<noteq> []"
  by (subst pages.simps) simp

lemma pending_rows_mem:
  assumes "mb_inv db"
  shows "set (pending_rows db ws ag n)
    = {d \<in> set (deliveries db). d_ws d = ws \<and> d_agentId d = ag \<and> d_seq d \<le> n \<and> ackable d}"
proof -
  have "message_by_id db (d_messageId d) \<noteq> None" if d: "d \<in> set (deliveries db)" for d
  proof -
    obtain m where "m \<in> set (messages db)" "m_id m = d_messageId d"
      using mb_inv_row [OF assms d] by (auto simp: row_ok_def)
    with message_by_id_eq [OF mb_inv_distinct(2) [OF assms]] show ?thesis by force
  qed
  then show ?thesis by (auto simp: pending_rows_def)
qed

lemma ack_pred_pending:
  assumes inv: "mb_inv db" and d: "d \<in> set (deliveries db)"
  shows "ack_pred ws (pending_rows db ws ag n) d \<longleftrightarrow> d_ws d = ws \<and> d_agentId d = ag \<and> d_seq d \<le> n \<and> ackable d"
proof -
  have "d_id d \<in> d_id ` set (pending_rows db ws ag n) \<longleftrightarrow> d \<in> set (pending_rows db ws ag n)"
    using mb_inv_delivery [OF inv d] unfolding pending_rows_mem [OF inv] by auto
  then show ?thesis using d unfolding ack_pred_def pending_rows_mem [OF inv] by auto
qed

text \<open>What a cumulative acknowledgement that moves the cursor leaves, whatever the number of chunks.\<close>

definition acked_up_to :: "id \<Rightarrow> id \<Rightarrow> int \<Rightarrow> delivery_row \<Rightarrow> bool" where
  "acked_up_to ws ag n d \<longleftrightarrow> d_ws d = ws \<and> d_agentId d = ag \<and> d_seq d \<le> n \<and> ackable d"

lemma ackUpTo_result:
  fixes now :: ms
  assumes inv: "mb_inv db" and a: "find_node_agent db ws nodeId prov name = Some a" and n: "a_ackSeq a < n"
  defines "db' \<equiv> snd (ackDeliveriesUpToSeq now ws nodeId prov name n db)"
  shows "deliveries db' = upd_where (acked_up_to ws (a_id a) n) (ack_set now) (deliveries db)"
    "agents db' = upd_where (\<lambda>b. a_ws b = ws \<and> a_id b = a_id a) (touch_agent now (Some n)) (agents db)"
    "messages db' = messages db" "map cm_key (channelMembers db') = map cm_key (channelMembers db)"
    "map dp_key (dmParticipants db') = map dp_key (dmParticipants db)"
proof -
  let ?pending = "pending_rows db ws (a_id a) n"
  have P: "upd_where (ack_pred ws ?pending) (ack_set now) (deliveries db)
      = upd_where (acked_up_to ws (a_id a) n) (ack_set now) (deliveries db)"
    by (rule upd_where_cong) (simp add: ack_pred_pending [OF inv] acked_up_to_def)
  have r: "deliveries db' = upd_where (ack_pred ws ?pending) (ack_set now) (deliveries db)
    \<and> agents db' = upd_where (\<lambda>b. a_ws b = ws \<and> a_id b = a_id a) (touch_agent now (Some n)) (agents db)
    \<and> messages db' = messages db \<and> map cm_key (channelMembers db') = map cm_key (channelMembers db)
    \<and> map dp_key (dmParticipants db') = map dp_key (dmParticipants db)"
  proof (cases "?pending = []")
    case True
    then show ?thesis using a n by (simp add: db'_def ackDeliveriesUpToSeq_def Let_def row_simps)
  next
    case False
    then have "db' = snd (ack_chunks now ws (a_id a) n (pages 50 ?pending) ([], db))"
      using a n by (simp add: db'_def ackDeliveriesUpToSeq_def Let_def case_prod_unfold)
    then show ?thesis
      using ack_chunks_result [OF pages_nonempty [OF False, of 50], of now ws "a_id a" n "[]" db]
      by (simp add: concat_pages)
  qed
  from r show "deliveries db' = upd_where (acked_up_to ws (a_id a) n) (ack_set now) (deliveries db)" unfolding P by blast
  from r show "agents db' = upd_where (\<lambda>b. a_ws b = ws \<and> a_id b = a_id a) (touch_agent now (Some n)) (agents db)"
    "messages db' = messages db" "map cm_key (channelMembers db') = map cm_key (channelMembers db)"
    "map dp_key (dmParticipants db') = map dp_key (dmParticipants db)" by blast+
qed

text \<open>Moving the cursor is safe once nothing below it is outstanding.\<close>

lemma mb_inv_advance:
  assumes inv: "mb_inv db"
    and done_below: "\<And>d. d \<in> set (deliveries db) \<Longrightarrow> d_ws d = ws \<Longrightarrow> d_agentId d = ag \<Longrightarrow> d_seq d \<le> n \<Longrightarrow> settled d"
  shows "mb_inv (db\<lparr>agents := upd_where (\<lambda>a. a_ws a = ws \<and> a_id a = ag) (touch_agent now (Some n)) (agents db)\<rparr>)"
proof -
  let ?as = "upd_where (\<lambda>a. a_ws a = ws \<and> a_id a = ag) (touch_agent now (Some n)) (agents db)"
  have "row_ok (db\<lparr>agents := ?as\<rparr>) d" if d: "d \<in> set (deliveries db)" for d
  proof -
    obtain a where a: "a \<in> set (agents db)" "a_id a = d_agentId d" "a_ws a = d_ws d" "1 \<le> d_seq d" "d_seq d \<le> a_seq a"
      "d_seq d \<le> a_ackSeq a \<longrightarrow> settled d" and m: "\<exists>m \<in> set (messages db). m_id m = d_messageId d \<and> m_ws m = d_ws d"
      using mb_inv_row [OF inv d] by (auto simp: row_ok_def)
    let ?b = "if a_ws a = ws \<and> a_id a = ag then touch_agent now (Some n) a else a"
    have "?b \<in> set ?as" using a(1) by (auto simp: set_upd_where)
    moreover have "d_seq d \<le> a_ackSeq ?b \<longrightarrow> settled d"
      using a done_below [OF d] by auto
    ultimately show ?thesis
      using a m by (auto simp: row_ok_def intro!: bexI [of _ ?b])
  qed
  moreover have "map a_id ?as = map a_id (agents db)" by (rule map_upd_where) simp
  moreover have "0 \<le> a_seq a \<and> 0 \<le> a_ackSeq a" if "a \<in> set ?as" for a
    using that inv by (cases rule: in_upd_whereE) (auto simp: mb_inv_def)
  ultimately show ?thesis using inv by (simp add: mb_inv_def)
qed

lemma settled_iff: "settled d \<longleftrightarrow> \<not> ackable d"
  by (auto simp: settled_def ackable_def)

lemma ackUpTo_same:
  "find_node_agent db ws nodeId prov name = None \<or>
   (\<exists>a. find_node_agent db ws nodeId prov name = Some a \<and> n \<le> a_ackSeq a) \<Longrightarrow>
   snd (ackDeliveriesUpToSeq now ws nodeId prov name n db) = db"
  by (auto simp: ackDeliveriesUpToSeq_def Let_def)

lemma mb_inv_ackUpTo:
  assumes inv: "mb_inv db"
  shows "mb_inv (snd (ackDeliveriesUpToSeq now ws nodeId prov name n db))" (is "mb_inv ?db'")
proof (cases "\<exists>a. find_node_agent db ws nodeId prov name = Some a \<and> a_ackSeq a < n")
  case False
  then show ?thesis
    using inv ackUpTo_same [of db ws nodeId prov name n now] by (metis linorder_not_less not_Some_eq)
next
  case True
  then obtain a where a: "find_node_agent db ws nodeId prov name = Some a" "a_ackSeq a < n" by blast
  note r = ackUpTo_result [OF inv a, of now]
  let ?P = "acked_up_to ws (a_id a) n"
  let ?db1 = "db\<lparr>deliveries := upd_where ?P (ack_set now) (deliveries db)\<rparr>"
  have inv1: "mb_inv ?db1"
    by (rule mb_inv_upd_deliveries [OF inv]) (auto simp: status_update_def acked_up_to_def settled_iff)
  have "settled d" if d: "d \<in> set (deliveries ?db1)" "d_ws d = ws" "d_agentId d = a_id a" "d_seq d \<le> n" for d
  proof -
    from d(1) have "d \<in> set (upd_where ?P (ack_set now) (deliveries db))" by simp
    then show ?thesis
    proof (cases rule: in_upd_whereE)
      case (changed r)
      then show ?thesis by (simp add: settled_iff)
    next
      case same
      then show ?thesis using d by (simp add: acked_up_to_def settled_iff)
    qed
  qed
  from mb_inv_advance [OF inv1 this]
  have "mb_inv (?db1\<lparr>agents := upd_where (\<lambda>b. a_ws b = ws \<and> a_id b = a_id a) (touch_agent now (Some n)) (agents db)\<rparr>)"
    by simp
  moreover have "mb_inv ?db' = mb_inv (?db1\<lparr>agents := upd_where (\<lambda>b. a_ws b = ws \<and> a_id b = a_id a)
      (touch_agent now (Some n)) (agents db)\<rparr>)"
    by (rule mb_inv_cong) (simp_all add: r)
  ultimately show ?thesis by simp
qed

lemma mailbox_op_ackUpTo: "mailbox_op (\<lambda>db. snd (ackDeliveriesUpToSeq now ws nodeId prov name n db))"
proof
  fix db assume inv: "mb_inv db"
  let ?db' = "snd (ackDeliveriesUpToSeq now ws nodeId prov name n db)"
  show "mb_inv ?db'" using inv by (rule mb_inv_ackUpTo)
  have cases: "?db' = db \<or> (\<exists>a. find_node_agent db ws nodeId prov name = Some a \<and> a_ackSeq a < n)"
    using ackUpTo_same [of db ws nodeId prov name n now] by (metis linorder_not_less not_Some_eq)
  show "\<exists>e\<in>set (deliveries ?db'). same_key d e \<and> d_status e = d_status d"
    if d: "d \<in> set (deliveries db)" "settled d" for d
    using cases
  proof
    assume "?db' = db"
    then show ?thesis using d by (simp add: same_status_refl)
  next
    assume "\<exists>a. find_node_agent db ws nodeId prov name = Some a \<and> a_ackSeq a < n"
    then obtain a where a: "find_node_agent db ws nodeId prov name = Some a" "a_ackSeq a < n" by blast
    have "d \<in> set (deliveries ?db')"
      unfolding ackUpTo_result(1) [OF inv a] using d by (auto simp: set_upd_where acked_up_to_def settled_iff)
    then show ?thesis by (rule same_status_refl)
  qed
  show "\<exists>b\<in>set (agents ?db'). a_id b = a_id c \<and> a_ws b = a_ws c \<and> a_ackSeq c \<le> a_ackSeq b \<and> a_seq c \<le> a_seq b"
    if c: "c \<in> set (agents db)" for c
    using cases
  proof
    assume "?db' = db"
    then show ?thesis using c by auto
  next
    assume "\<exists>a. find_node_agent db ws nodeId prov name = Some a \<and> a_ackSeq a < n"
    then obtain a where a: "find_node_agent db ws nodeId prov name = Some a" "a_ackSeq a < n" by blast
    let ?c = "if a_ws c = ws \<and> a_id c = a_id a then touch_agent now (Some n) c else c"
    have "?c \<in> set (agents ?db')"
      unfolding ackUpTo_result(2) [OF inv a] using c by (auto simp: set_upd_where)
    then show ?thesis by (intro bexI [of _ ?c]) auto
  qed
  show "\<exists>d\<in>set (deliveries db). same_key d e" if e: "e \<in> set (deliveries ?db')" for e
    using cases
  proof
    assume "?db' = db"
    then show ?thesis using e by (auto intro: same_row_refl)
  next
    assume "\<exists>a. find_node_agent db ws nodeId prov name = Some a \<and> a_ackSeq a < n"
    then obtain a where a: "find_node_agent db ws nodeId prov name = Some a" "a_ackSeq a < n" by blast
    have "e \<in> set (upd_where (acked_up_to ws (a_id a) n) (ack_set now) (deliveries db))"
      using e unfolding ackUpTo_result(1) [OF inv a] .
    then show ?thesis
    proof (cases rule: in_upd_whereE)
      case (changed r)
      then show ?thesis by (intro bexI [of _ r]) simp_all
    qed (auto intro: same_row_refl)
  qed
qed

subsection \<open>The contract, on every transition\<close>

interpretation ack: mailbox_op "\<lambda>db. snd (ackDelivery now ws ag did db)" for now ws ag did
  by (rule mailbox_op_ack)

interpretation fail: mailbox_op "\<lambda>db. snd (failDelivery now ws ag did err r db)" for now ws ag did err r
  by (rule mailbox_op_fail)

interpretation deferral: mailbox_op "\<lambda>db. snd (deferDelivery now ws ag did av rsn policy db)" for now ws ag did av rsn policy
  by (rule mailbox_op_defer)

interpretation delivered: mailbox_op "\<lambda>db. snd (markDeliveriesDelivered now ws ids db)" for now ws ids
  by (rule mailbox_op_mark)

interpretation reading: mailbox_op "\<lambda>db. snd (markRead now ws mid ag db)" for now ws mid ag
  by (rule mailbox_op_read)

interpretation cumulative: mailbox_op "\<lambda>db. snd (ackDeliveriesUpToSeq now ws nodeId prov name n db)"
  for now ws nodeId prov name n
  by (rule mailbox_op_ackUpTo)

end
