(* ===== verification/DeliverySpec.thy ===== *)
theory DeliverySpec
  imports DeliveryOps DeliveryWrites
begin

text \<open>
  The functional behaviour of the delivery transitions of \<open>DeliveryOps\<close>, on every branch, and what
  happens when a send commits between the read and the write of a cumulative acknowledgement.
\<close>

subsection \<open>Finding the delivery again\<close>

lemma getOwned_Some:
  assumes "getOwnedDelivery db ws ag did = Some d"
  shows "d \<in> set (deliveries db)" "d_id d = did" "d_ws d = ws" "d_agentId d = ag" "message_by_id db (d_messageId d) \<noteq> None"
  using assms unfolding getOwnedDelivery_def by (auto dest: first_row_Some)

lemma getOwned_eq:
  assumes "mb_inv db" "d \<in> set (deliveries db)"
  shows "getOwnedDelivery db (d_ws d) (d_agentId d) (d_id d) = Some d"
proof -
  obtain m where "m \<in> set (messages db)" "m_id m = d_messageId d"
    using mb_inv_row [OF assms] by (auto simp: row_ok_def)
  with message_by_id_eq [OF mb_inv_distinct(2) [OF assms(1)]] have m: "message_by_id db (d_messageId d) \<noteq> None" by force
  have "filter (\<lambda>e. d_id e = d_id d \<and> d_ws e = d_ws d \<and> d_agentId e = d_agentId d
      \<and> message_by_id db (d_messageId e) \<noteq> None) (deliveries db)
    = filter (\<lambda>e. d_id e = d_id d) (deliveries db)"
    using mb_inv_delivery [OF assms(1) _ assms(2)] m by (intro filter_cong refl) auto
  then show ?thesis
    using filter_key_singleton [OF mb_inv_distinct(3) [OF assms(1)] assms(2)] by (simp add: getOwnedDelivery_def)
qed

lemma returning_single:
  assumes "mb_inv db" "d \<in> set (deliveries db)" "\<And>e. P e \<Longrightarrow> d_id e = d_id d"
  shows "returning P f (deliveries db) = (if P d then [f d] else [])"
proof -
  have "filter P (deliveries db) = filter P (filter (\<lambda>e. d_id e = d_id d) (deliveries db))"
    by (simp add: assms(3) conj_commute cong: conj_cong)
  then show ?thesis
    using filter_key_singleton [OF mb_inv_distinct(3) [OF assms(1)] assms(2)] by (simp add: returning_def)
qed

lemma upd_where_none: "(\<And>d. d \<in> set ds \<Longrightarrow> \<not> P d) \<Longrightarrow> upd_where P f ds = ds"
  by (rule upd_where_id)

lemma first_row_key_upd:
  assumes "mb_inv db'" "e \<in> set (deliveries db')" "d_id e = did" "d_ws e = ws" "d_agentId e = ag"
  shows "resolveTransition db' ws ag did None = Some (e, False)"
  using getOwned_eq [OF assms(1,2)] assms(3-5) by (simp add: resolveTransition_def)

subsection \<open>One acknowledgement\<close>

text \<open>Acknowledging one delivery settles it and only it: an outstanding delivery becomes acked and is reported as
  changed, a settled one is reported unchanged and no delivery row changes; in no case does the
  agent's cumulative cursor move, so an out-of-order acknowledgement hides no lower delivery.\<close>

theorem ackDelivery_settles_one:
  fixes now :: ms
  assumes inv: "mb_inv db" and d: "d \<in> set (deliveries db)"
  defines "r \<equiv> ackDelivery now (d_ws d) (d_agentId d) (d_id d) db"
  shows "fst r = Some (if ackable d then (ack_set now d, True) else (d, False))
    \<and> deliveries (snd r) = upd_where (\<lambda>e. d_id e = d_id d \<and> ackable e) (ack_set now) (deliveries db)
    \<and> map (\<lambda>a. (a_id a, a_ackSeq a)) (agents (snd r)) = map (\<lambda>a. (a_id a, a_ackSeq a)) (agents db)"
proof (cases "d_status d = Acked")
  case True
  then have "\<not> ackable d" by (simp add: ackable_def)
  then have "upd_where (\<lambda>e. d_id e = d_id d \<and> ackable e) (ack_set now) (deliveries db) = deliveries db"
    using mb_inv_delivery [OF inv _ d] by (intro upd_where_none) auto
  then show ?thesis
    using True \<open>\<not> ackable d\<close> getOwned_eq [OF inv d] by (simp add: r_def ackDelivery_def)
next
  case False
  let ?q = "ackRows now (d_ws d) (d_agentId d) [d] None db"
  have r: "r = (resolveTransition (snd ?q) (d_ws d) (d_agentId d) (d_id d) (first_row (fst ?q)), snd ?q)"
    using False getOwned_eq [OF inv d] by (simp add: r_def ackDelivery_def case_prod_unfold Let_def)
  have upd: "upd_where (ack_pred (d_ws d) [d]) (ack_set now) (deliveries db)
      = upd_where (\<lambda>e. d_id e = d_id d \<and> ackable e) (ack_set now) (deliveries db)"
    using mb_inv_delivery [OF inv _ d] by (intro upd_where_cong) (auto simp: ack_pred_def)
  have ret: "fst ?q = (if ackable d then [ack_set now d] else [])"
    unfolding ackRows_result
    by (subst returning_single [OF inv d]) (auto simp: ack_pred_def)
  have inv': "mb_inv (snd ?q)" using inv by (rule mailbox_op.keeps_inv [OF mailbox_op_ackRows])
  have same: "resolveTransition (snd ?q) (d_ws d) (d_agentId d) (d_id d) None = Some (d, False)" if "\<not> ackable d"
  proof -
    have "d \<in> set (deliveries (snd ?q))"
      unfolding ackRows_result upd using d that by (auto simp: set_upd_where)
    then show ?thesis by (intro first_row_key_upd inv') auto
  qed
  have "fst r = Some (if ackable d then (ack_set now d, True) else (d, False))"
    using same by (auto simp: r ret resolveTransition_def)
  moreover have "deliveries (snd r) = upd_where (\<lambda>e. d_id e = d_id d \<and> ackable e) (ack_set now) (deliveries db)"
    by (simp add: r row_simps upd)
  moreover have "map (\<lambda>a. (a_id a, a_ackSeq a)) (agents (snd r)) = map (\<lambda>a. (a_id a, a_ackSeq a)) (agents db)"
    by (simp add: r row_simps map_upd_where)
  ultimately show ?thesis by blast
qed

subsection \<open>The cumulative acknowledgement\<close>

lemma filter_after_ack:
  "map d_id (filter (ack_pred ws xs) (upd_where (ack_pred ws c) (ack_set now) ds))
     = map d_id (filter (\<lambda>d. ack_pred ws xs d \<and> \<not> ack_pred ws c d) ds)"
  by (induction ds) (auto simp: ack_pred_def)

lemma length_filter_split:
  "length (filter P ds) + length (filter (\<lambda>d. Q d \<and> \<not> P d) ds) = length (filter (\<lambda>d. P d \<or> Q d) ds)"
  by (induction ds) auto

lemma ack_pred_append: "ack_pred ws (c @ cs) d \<longleftrightarrow> ack_pred ws c d \<or> ack_pred ws cs d"
  by (auto simp: ack_pred_def)

lemma ack_chunks_ids:
  "set (fst (ack_chunks now ws ag n chunks (ids, db))) = set ids \<union> d_id ` set (filter (ack_pred ws (concat chunks)) (deliveries db))
   \<and> length (fst (ack_chunks now ws ag n chunks (ids, db))) = length ids + length (filter (ack_pred ws (concat chunks)) (deliveries db))"
proof (induction chunks arbitrary: ids db)
  case Nil
  have "filter (ack_pred ws []) ds = []" for ds by (simp add: ack_pred_def filter_empty_conv)
  then show ?case by simp
next
  case (Cons c cs)
  let ?r = "ackRows now ws ag c (if cs = [] then Some n else None) db"
  let ?ids = "ids @ map d_id (fst ?r)"
  have step: "ack_chunks now ws ag n (c # cs) (ids, db) = ack_chunks now ws ag n cs (?ids, snd ?r)"
    by (simp add: case_prod_unfold Let_def)
  have ids: "map d_id (fst ?r) = map d_id (filter (ack_pred ws c) (deliveries db))"
    unfolding ackRows_result by (simp add: returning_def)
  have after: "map d_id (filter (ack_pred ws (concat cs)) (deliveries (snd ?r)))
      = map d_id (filter (\<lambda>d. ack_pred ws (concat cs) d \<and> \<not> ack_pred ws c d) (deliveries db))"
    unfolding ackRows_result by (rule filter_after_ack)
  have sets: "d_id ` set (filter (ack_pred ws (concat cs)) (deliveries (snd ?r)))
      = d_id ` set (filter (\<lambda>d. ack_pred ws (concat cs) d \<and> \<not> ack_pred ws c d) (deliveries db))"
    using arg_cong [OF after, of set] by simp
  have lens: "length (filter (ack_pred ws (concat cs)) (deliveries (snd ?r)))
      = length (filter (\<lambda>d. ack_pred ws (concat cs) d \<and> \<not> ack_pred ws c d) (deliveries db))"
    using arg_cong [OF after, of length] by simp
  have P: "ack_pred ws (concat (c # cs)) = (\<lambda>d. ack_pred ws c d \<or> ack_pred ws (concat cs) d)"
    by (simp add: fun_eq_iff ack_pred_append)
  have idset: "set ?ids = set ids \<union> d_id ` set (filter (ack_pred ws c) (deliveries db))"
    using arg_cong [OF ids, of set] by simp
  have idlen: "length ?ids = length ids + length (filter (ack_pred ws c) (deliveries db))"
    using arg_cong [OF ids, of length] by simp
  show ?case
    unfolding step P using Cons.IH [of ?ids "snd ?r"] sets lens idset idlen
      length_filter_split [of "ack_pred ws c" "deliveries db" "ack_pred ws (concat cs)"]
    by auto
qed

text \<open>A cumulative acknowledgement works as one step over the whole backlog, whatever its size and although it
  runs in chunks of fifty: every delivery of the agent up to the acknowledged sequence number that
  was still outstanding becomes acked and is reported, each once, nothing else changes, and the
  cursor moves to exactly that number; an acknowledgement at or below the cursor changes nothing.\<close>

theorem ackUpTo_settles_prefix:
  fixes now :: ms and n :: int
  assumes inv: "mb_inv db" and a: "find_node_agent db ws nodeId prov name = Some a"
  defines "r \<equiv> ackDeliveriesUpToSeq now ws nodeId prov name n db"
  shows "if n \<le> a_ackSeq a then snd r = db \<and> map_option ar_ids (fst r) = Some []
    else \<exists>ids. map_option ar_ids (fst r) = Some ids
      \<and> set ids = d_id ` set (filter (acked_up_to ws (a_id a) n) (deliveries db))
      \<and> length ids = length (filter (acked_up_to ws (a_id a) n) (deliveries db))
      \<and> deliveries (snd r) = upd_where (acked_up_to ws (a_id a) n) (ack_set now) (deliveries db)
      \<and> agents (snd r) = upd_where (\<lambda>b. a_ws b = ws \<and> a_id b = a_id a)
          (\<lambda>b. b\<lparr>a_ackSeq := max (a_ackSeq b) n, a_lastSeen := toSec now\<rparr>) (agents db)"
proof (cases "n \<le> a_ackSeq a")
  case True
  then show ?thesis using a by (simp add: r_def ackDeliveriesUpToSeq_def Let_def)
next
  case False
  then have n: "a_ackSeq a < n" by simp
  let ?p = "pending_rows db ws (a_id a) n"
  have P: "filter (ack_pred ws ?p) (deliveries db) = filter (acked_up_to ws (a_id a) n) (deliveries db)"
    by (intro filter_cong refl) (simp add: ack_pred_pending [OF inv] acked_up_to_def)
  have ids: "\<exists>ids. map_option ar_ids (fst r) = Some ids
      \<and> set ids = d_id ` set (filter (ack_pred ws ?p) (deliveries db)) \<and> length ids = length (filter (ack_pred ws ?p) (deliveries db))"
  proof (cases "?p = []")
    case True
    then show ?thesis using a False by (simp add: r_def ackDeliveriesUpToSeq_def Let_def ack_pred_def filter_empty_conv)
  next
    case nonempty: False
    then have "map_option ar_ids (fst r) = Some (fst (ack_chunks now ws (a_id a) n (pages 50 ?p) ([], db)))"
      using a False by (simp add: r_def ackDeliveriesUpToSeq_def Let_def case_prod_unfold)
    moreover have "concat (pages 50 ?p) = ?p" by (simp add: concat_pages)
    ultimately show ?thesis
      using ack_chunks_ids [of now ws "a_id a" n "pages 50 ?p" "[]" db]
      by (intro exI [of _ "fst (ack_chunks now ws (a_id a) n (pages 50 ?p) ([], db))"]) auto
  qed
  have touch: "touch_agent now (Some n) = (\<lambda>b. b\<lparr>a_ackSeq := max (a_ackSeq b) n, a_lastSeen := toSec now\<rparr>)"
    by (auto simp: touch_agent_def max_def fun_eq_iff)
  show ?thesis
    using False ids ackUpTo_result(1,2) [OF inv a n, of now, folded r_def] unfolding P touch by auto
qed

subsection \<open>Failing\<close>

lemma failDelivery_settled:
  "getOwnedDelivery db ws ag did = Some e \<Longrightarrow> d_status e \<in> {Acked, DeadLettered, Failed} \<Longrightarrow>
     snd (failDelivery now ws ag did err r db) = db"
  by (simp add: failDelivery_def)

text \<open>A failure is recorded once: failing an outstanding delivery stores its error and retryability, and failing
  a delivery that is acked, dead-lettered or already failed changes nothing and reports no change, so
  the first failure's account survives every retry.\<close>

theorem failDelivery_first_wins:
  fixes now :: ms
  assumes inv: "mb_inv db" and d: "d \<in> set (deliveries db)"
  shows "failDelivery now (d_ws d) (d_agentId d) (d_id d) err r db
    = (if d_status d \<in> {Acked, DeadLettered, Failed} then (Some (d, False), db)
       else (Some (fail_set now err r d, True),
             db\<lparr>deliveries := upd_where (\<lambda>e. d_id e = d_id d) (fail_set now err r) (deliveries db)\<rparr>))
    \<and> snd (failDelivery now' (d_ws d) (d_agentId d) (d_id d) err' r' (snd (failDelivery now (d_ws d) (d_agentId d) (d_id d) err r db)))
      = snd (failDelivery now (d_ws d) (d_agentId d) (d_id d) err r db)"
proof -
  let ?P = "\<lambda>e. d_id e = d_id d \<and> d_status e \<notin> {Acked, DeadLettered, Failed}"
  have first: "failDelivery now (d_ws d) (d_agentId d) (d_id d) err r db
    = (if d_status d \<in> {Acked, DeadLettered, Failed} then (Some (d, False), db)
       else (Some (fail_set now err r d, True),
             db\<lparr>deliveries := upd_where (\<lambda>e. d_id e = d_id d) (fail_set now err r) (deliveries db)\<rparr>))"
  proof (cases "d_status d \<in> {Acked, DeadLettered, Failed}")
    case True
    then show ?thesis using getOwned_eq [OF inv d] by (simp add: failDelivery_def)
  next
    case False
    have "upd_where ?P (fail_set now err r) (deliveries db) = upd_where (\<lambda>e. d_id e = d_id d) (fail_set now err r) (deliveries db)"
      using mb_inv_delivery [OF inv _ d] False by (intro upd_where_cong) auto
    moreover have "returning ?P (fail_set now err r) (deliveries db) = [fail_set now err r d]"
      by (subst returning_single [OF inv d]) (use False in auto)
    ultimately show ?thesis
      using False getOwned_eq [OF inv d] by (simp add: failDelivery_def Let_def resolveTransition_def)
  qed
  let ?db' = "snd (failDelivery now (d_ws d) (d_agentId d) (d_id d) err r db)"
  have inv': "mb_inv ?db'" using inv by (rule fail.keeps_inv)
  obtain e where e: "e \<in> set (deliveries ?db')" "same_key d e" "d_status e \<in> {Acked, DeadLettered, Failed}"
  proof (cases "d_status d \<in> {Acked, DeadLettered, Failed}")
    case True
    then show ?thesis using first d by (intro that [of d]) simp_all
  next
    case False
    then have "fail_set now err r d \<in> set (deliveries ?db')" using first d by (auto simp: set_upd_where)
    then show ?thesis by (intro that [of "fail_set now err r d"]) (simp_all add: fail_set_def same_key_def)
  qed
  have "snd (failDelivery now' (d_ws d) (d_agentId d) (d_id d) err' r' ?db') = ?db'"
    using failDelivery_settled [OF getOwned_eq [OF inv' e(1)] e(3)] e(2) by (simp add: same_key_def)
  with first show ?thesis by simp
qed

subsection \<open>Deferring\<close>

text \<open>Deferring an outstanding delivery to a time and a reason it does not already carry takes effect where the
  workspace has room: it is queued again, available at that time, with that reason.\<close>

theorem deferDelivery_takes_effect:
  assumes inv: "mb_inv db" and d: "d \<in> set (deliveries db)" "ackable d"
    and change: "d_status d \<noteq> Queued \<or> (\<exists>at0. d_availableAt d = Some at0 \<and> at0 \<noteq> toSec av) \<or> (rsn \<noteq> d_reason d \<and> rsn \<noteq> None \<and> d_reason d \<noteq> None)"
    and room: "defer_capacity_ok now (d_ws d) policy db d"
  shows "deferDelivery now (d_ws d) (d_agentId d) (d_id d) av rsn policy db
    = (Inr (Some (defer_set now (toSec av) rsn d, True)),
       db\<lparr>deliveries := upd_where (\<lambda>e. d_id e = d_id d) (defer_set now (toSec av) rsn) (deliveries db)\<rparr>)"
proof -
  let ?P = "\<lambda>e. d_id e = d_id d \<and> d_status e \<notin> {Acked, DeadLettered}
     \<and> sql_not (defer_noop (toSec av) rsn e) = Some True \<and> defer_capacity_ok now (d_ws d) policy db e"
  have noop: "sql_not (defer_noop (toSec av) rsn d) = Some True"
    using change by (auto simp: defer_noop_def sql_not_def sql_and_def sql_eq_def split: option.splits)
  have st: "d_status d \<notin> {Acked, DeadLettered}" using d(2) by (simp add: ackable_def)
  have "upd_where ?P (defer_set now (toSec av) rsn) (deliveries db)
      = upd_where (\<lambda>e. d_id e = d_id d) (defer_set now (toSec av) rsn) (deliveries db)"
    using mb_inv_delivery [OF inv _ d(1)] noop st room by (intro upd_where_cong) auto
  moreover have "returning ?P (defer_set now (toSec av) rsn) (deliveries db) = [defer_set now (toSec av) rsn d]"
    by (subst returning_single [OF inv d(1)]) (use noop st room in auto)
  ultimately show ?thesis
    using st getOwned_eq [OF inv d(1)] by (simp add: deferDelivery_def Let_def resolveTransition_def)
qed

text \<open>But a first defer that repeats the reason the delivery was queued with is lost: the no-op condition
  compares the still-NULL available_at, is therefore NULL rather than false, and the update matches no
  row, so the call reports no change and the delivery stays available now.\<close>

theorem deferDelivery_same_reason_lost:
  assumes inv: "mb_inv db" and d: "d \<in> set (deliveries db)" and q: "d_status d = Queued" "d_availableAt d = None"
    and rsn: "rsn = d_reason d"
  shows "deferDelivery now (d_ws d) (d_agentId d) (d_id d) av rsn policy db = (Inr (Some (d, False)), db)"
proof -
  let ?P = "\<lambda>e. d_id e = d_id d \<and> d_status e \<notin> {Acked, DeadLettered}
     \<and> sql_not (defer_noop (toSec av) rsn e) = Some True \<and> defer_capacity_ok now (d_ws d) policy db e"
  have noop: "sql_not (defer_noop (toSec av) rsn d) = None"
    using q rsn by (auto simp: defer_noop_def sql_not_def sql_and_def sql_eq_def split: option.splits)
  have none: "\<not> ?P e" if "e \<in> set (deliveries db)" for e
    using mb_inv_delivery [OF inv that d] noop by (metis option.distinct(1))
  have "upd_where ?P (defer_set now (toSec av) rsn) (deliveries db) = deliveries db"
    by (rule upd_where_none [OF none])
  moreover have "returning ?P (defer_set now (toSec av) rsn) (deliveries db) = []"
    by (subst returning_single [OF inv d]) (use noop in auto)
  ultimately show ?thesis
    using q getOwned_eq [OF inv d] by (cases policy) (simp_all add: deferDelivery_def Let_def resolveTransition_def)
qed

subsection \<open>Marking delivered\<close>

lemma mark_pages_rows:
  "deliveries (snd (foldl (mark_page now ws) acc ps))
     = upd_where (mark_pred ws (concat ps)) (delivered_set now) (deliveries (snd acc))"
proof (induction ps arbitrary: acc)
  case Nil
  show ?case by (simp add: mark_pred_def upd_where_id)
next
  case (Cons p ps)
  have "(\<lambda>d. mark_pred ws p d \<or> mark_pred ws (concat ps) d) = mark_pred ws (concat (p # ps))"
    by (auto simp: mark_pred_def fun_eq_iff)
  moreover have "upd_where (mark_pred ws (concat ps)) (delivered_set now)
      (upd_where (mark_pred ws p) (delivered_set now) (deliveries (snd acc)))
    = upd_where (\<lambda>d. mark_pred ws p d \<or> mark_pred ws (concat ps) d) (delivered_set now) (deliveries (snd acc))"
    by (rule upd_where_join) (simp add: mark_pred_def delivered_set_def)
  ultimately show ?case
    unfolding foldl_Cons Cons.IH by (simp add: mark_page_def)
qed

lemma marked_rows:
  "{d \<in> set (upd_where (mark_pred ws p) (delivered_set now) ds). mark_pred ws q d}
     = {d \<in> set ds. mark_pred ws q d \<and> \<not> mark_pred ws p d}"
proof -
  have "\<not> mark_pred ws q (delivered_set now d)" for d by (simp add: mark_pred_def delivered_set_def)
  then show ?thesis by (auto simp: set_upd_where)
qed

lemma mark_pages_ids:
  "set (fst (foldl (mark_page now ws) acc ps))
     = set (fst acc) \<union> d_id ` {d \<in> set (deliveries (snd acc)). mark_pred ws (concat ps) d}"
proof (induction ps arbitrary: acc)
  case Nil
  show ?case by (simp add: mark_pred_def)
next
  case (Cons p ps)
  let ?acc = "mark_page now ws acc p"
  have ids: "set (fst ?acc) = set (fst acc) \<union> d_id ` {d \<in> set (deliveries (snd acc)). mark_pred ws p d}"
    by (auto simp: mark_page_def returning_def delivered_set_def image_iff)
  have rest: "d_id ` {d \<in> set (deliveries (snd ?acc)). mark_pred ws (concat ps) d}
      = d_id ` {d \<in> set (deliveries (snd acc)). mark_pred ws (concat ps) d \<and> \<not> mark_pred ws p d}"
    unfolding mark_page_def snd_conv by (simp add: marked_rows)
  have P: "mark_pred ws (concat (p # ps)) d \<longleftrightarrow> mark_pred ws p d \<or> mark_pred ws (concat ps) d" for d
    by (auto simp: mark_pred_def)
  show ?case unfolding foldl_Cons Cons.IH ids rest P by blast
qed

text \<open>Marking deliveries delivered, in pages of fifty distinct ids, transitions exactly the listed deliveries of
  the workspace that are still queued, leaves every other row as it was (one acknowledged meanwhile is
  not reopened), and reports exactly the ids it transitioned.\<close>

theorem markDeliveriesDelivered_exact:
  fixes now :: ms and ws :: id and ids :: "id list" and db :: db
  defines "r \<equiv> markDeliveriesDelivered now ws ids db"
  shows "deliveries (snd r) = upd_where (\<lambda>d. d_ws d = ws \<and> d_id d \<in> set ids \<and> d_status d = Queued) (delivered_set now) (deliveries db)
    \<and> set (fst r) = d_id ` {d \<in> set (deliveries db). d_ws d = ws \<and> d_id d \<in> set ids \<and> d_status d = Queued}
    \<and> (\<forall>p \<in> set (pages 50 (uniq ids)). length p \<le> 50)"
proof -
  have P: "mark_pred ws (concat (pages 50 (uniq ids))) = (\<lambda>d. d_ws d = ws \<and> d_id d \<in> set ids \<and> d_status d = Queued)"
    by (simp add: concat_pages mark_pred_def fun_eq_iff)
  have "\<forall>p \<in> set (pages 50 (uniq ids)). length p \<le> 50" using pages_bounded by blast
  then show ?thesis
    using mark_pages_rows [of now ws "([], db)" "pages 50 (uniq ids)"] mark_pages_ids [of now ws "([], db)" "pages 50 (uniq ids)"]
    unfolding P by (simp add: r_def markDeliveriesDelivered_def)
qed

subsection \<open>On the small workspace\<close>

lemma ex_after_inv: "mb_inv ex_after"
proof -
  note w = postMessage_ok [OF ex_post]
  have "mb_inv (ex_db\<lparr>messages := messages ex_db @ [ex_msg]\<rparr>)" by (rule mb_inv_insert_message [OF ex_inv w(1)])
  then show ?thesis
    by (rule mb_inv_send_write [OF _ _ _ w(2)])
      (simp_all add: ex_send_def ex_db_def ex_agent_def ex_input_def ex_msg_def)
qed

text \<open>Agent 2, with its one delivery, as hosted on node n.\<close>

definition ex_hosted :: db where
  "ex_hosted = ex_after\<lparr>agents := upd_where (\<lambda>a. a_id a = ''2'')
     (\<lambda>a. a\<lparr>a_locationType := ''via_node'', a_locationNodeId := Some ''n''\<rparr>) (agents ex_after)\<rparr>"

definition ex_del :: delivery_row where
  "ex_del = hd (deliveries ex_after)"

lemma ex_hosted_inv: "mb_inv ex_hosted"
  using mailbox_op.keeps_inv [OF mailbox_op_upd_agents ex_after_inv] unfolding ex_hosted_def
  by (simp add: agent_touch_def)

lemma ex_deliveries: "deliveries ex_after = [ex_del]" "deliveries ex_hosted = [ex_del]"
proof -
  have "length (deliveries ex_after) = 1" using arg_cong [OF ex_after_deliveries, of length] by simp
  then show "deliveries ex_after = [ex_del]" by (cases "deliveries ex_after") (auto simp: ex_del_def)
  then show "deliveries ex_hosted = [ex_del]" by (simp add: ex_hosted_def)
qed

lemma ex_del_fields:
  "d_status ex_del = Queued" "d_availableAt ex_del = None" "d_reason ex_del = Some ''message''" "d_ws ex_del = ''w''"
  "d_agentId ex_del = ''2''" "d_id ex_del = ''del_7_2''" "d_seq ex_del = 5"
  unfolding ex_del_def ex_after_def by code_simp+

lemma ex_del_mem: "ex_del \<in> set (deliveries ex_after)" "ex_del \<in> set (deliveries ex_hosted)"
  by (simp_all add: ex_deliveries)

lemma ex_del_ackable: "ackable ex_del"
  by (simp add: ackable_def ex_del_fields)

lemma ex_find: "\<exists>a. find_node_agent ex_hosted ''w'' ''n'' ''default'' ''bo'' = Some a \<and> a_ackSeq a = 4 \<and> a_id a = ''2'' \<and> a_seq a = 5"
proof -
  have "case find_node_agent ex_hosted ''w'' ''n'' ''default'' ''bo'' of None \<Rightarrow> False
      | Some a \<Rightarrow> a_ackSeq a = 4 \<and> a_id a = ''2'' \<and> a_seq a = 5"
    unfolding ex_hosted_def ex_after_def by code_simp
  then show ?thesis by (auto split: option.splits)
qed

lemma ackDelivery_settles_one_witness:
  "fst (ackDelivery 101000 ''w'' ''2'' ''del_7_2'' ex_after) = Some (ack_set 101000 ex_del, True)"
  using ackDelivery_settles_one [OF ex_after_inv ex_del_mem(1), of 101000]
  by (simp add: ex_del_fields ex_del_ackable)

lemma ackUpTo_settles_prefix_witness:
  "\<exists>ids. map_option ar_ids (fst (ackDeliveriesUpToSeq 101000 ''w'' ''n'' ''default'' ''bo'' 5 ex_hosted)) = Some ids
     \<and> set ids = {''del_7_2''}"
proof -
  obtain a where a: "find_node_agent ex_hosted ''w'' ''n'' ''default'' ''bo'' = Some a" "a_ackSeq a = 4" "a_id a = ''2''"
    using ex_find by blast
  have "filter (acked_up_to ''w'' ''2'' 5) (deliveries ex_hosted) = [ex_del]"
    by (simp add: ex_deliveries acked_up_to_def ex_del_fields ex_del_ackable)
  then show ?thesis
    using ackUpTo_settles_prefix [OF ex_hosted_inv a(1), of 5 101000] a by (auto simp: ex_del_fields)
qed

lemma failDelivery_first_wins_witness:
  "fst (failDelivery 101000 ''w'' ''2'' ''del_7_2'' (Some ''e'') None ex_after) = Some (fail_set 101000 (Some ''e'') None ex_del, True)"
  using failDelivery_first_wins [OF ex_after_inv ex_del_mem(1), of 101000 "Some ''e''" None 102000 None "Some True"]
  by (simp add: ex_del_fields)

lemma deferDelivery_takes_effect_witness:
  "fst (deferDelivery 101000 ''w'' ''2'' ''del_7_2'' 200000 (Some ''later'') None ex_after)
     = Inr (Some (defer_set 101000 200 (Some ''later'') ex_del, True))"
  using deferDelivery_takes_effect [OF ex_after_inv ex_del_mem(1) ex_del_ackable, of 200000 "Some ''later''" 101000 None]
  by (simp add: ex_del_fields defer_capacity_ok_def toSec_def)

lemma deferDelivery_same_reason_lost_witness:
  "deferDelivery 101000 ''w'' ''2'' ''del_7_2'' 200000 (Some ''message'') None ex_after = (Inr (Some (ex_del, False)), ex_after)"
  using deferDelivery_same_reason_lost [OF ex_after_inv ex_del_mem(1), of "Some ''message''" 101000 200000 None]
  by (simp add: ex_del_fields)

lemma markDeliveriesDelivered_exact_witness:
  "set (fst (markDeliveriesDelivered 101000 ''w'' [''del_7_2'', ''x'', ''del_7_2''] ex_after)) = {''del_7_2''}"
  using markDeliveriesDelivered_exact [of 101000 "''w''" "[''del_7_2'', ''x'', ''del_7_2'']" ex_after]
  by (auto simp: ex_deliveries ex_del_fields)

end
