(* ===== verification/DeliverySweeps.thy ===== *)
theory DeliverySweeps
  imports DeliverySpec
begin

text \<open>
  The sweeps of \<open>engine/delivery.ts\<close> that dead-letter deliveries nobody will take: those past their time
  to live, and those routed to a node that has been offline past the grace period. Each handles a
  bounded batch of rows and reports how many it changed and whom to notify.
\<close>

definition DELIVERY_EXPIRY_BATCH_SIZE :: nat where "DELIVERY_EXPIRY_BATCH_SIZE = 50"

definition UNREACHABLE_NODE_GRACE_MS :: ms where "UNREACHABLE_NODE_GRACE_MS = 1800000"

datatype notice_reason = ttl_expired | node_unreachable

record failure_notice =
  fn_workspace_id :: id
  fn_delivery_id :: id
  fn_message_id :: id
  fn_sender_agent_id :: id
  fn_target_agent_id :: id
  fn_target_agent_name :: string
  fn_seq :: int
  fn_reason :: notice_reason
  fn_error :: string

record expired_batch =
  eb_expiredCount :: nat
  eb_notices :: "failure_notice list"

definition in_workspace :: "id option \<Rightarrow> delivery_row \<Rightarrow> bool" where
  "in_workspace ws d \<longleftrightarrow> (case ws of None \<Rightarrow> True | Some w \<Rightarrow> d_ws d = w)"

definition dead_letter_set :: "ms \<Rightarrow> string \<Rightarrow> delivery_row \<Rightarrow> delivery_row" where
  "dead_letter_set now err d = d\<lparr>d_status := DeadLettered, d_error := Some err, d_retryable := Some False,
     d_deadLetteredAt := Some (toSec now), d_updatedAt := Some (toSec now)\<rparr>"

text \<open>The joins of the due query: the message and the recipient exist.\<close>

definition joined :: "db \<Rightarrow> delivery_row \<Rightarrow> bool" where
  "joined db d \<longleftrightarrow> message_by_id db (d_messageId d) \<noteq> None \<and> agent_by_id db (d_agentId d) \<noteq> None"

definition notice_of :: "db \<Rightarrow> notice_reason \<Rightarrow> string \<Rightarrow> delivery_row \<Rightarrow> failure_notice" where
  "notice_of db rsn err d =
     \<lparr>fn_workspace_id = d_ws d, fn_delivery_id = d_id d, fn_message_id = d_messageId d,
      fn_sender_agent_id = m_agentId (the (message_by_id db (d_messageId d))), fn_target_agent_id = d_agentId d,
      fn_target_agent_name = a_name (the (agent_by_id db (d_agentId d))), fn_seq = d_seq d, fn_reason = rsn,
      fn_error = err\<rparr>"

text \<open>What both sweeps do with the due rows: the guarded update, and a notice for each row it changed
  whose message has a sender.\<close>

definition sweep_batch ::
  "ms \<Rightarrow> id option \<Rightarrow> notice_reason \<Rightarrow> string \<Rightarrow> (delivery_row \<Rightarrow> bool) \<Rightarrow> delivery_row list \<Rightarrow> db \<Rightarrow> expired_batch \<times> db" where
  "sweep_batch now ws rsn err still due db =
     (if due = [] then (\<lparr>eb_expiredCount = 0, eb_notices = []\<rparr>, db)
      else let P = (\<lambda>d. in_workspace ws d \<and> d_id d \<in> d_id ` set due \<and> d_status d \<notin> {Acked, DeadLettered, Failed} \<and> still d);
               updated = map d_id (filter P (deliveries db))
           in (\<lparr>eb_expiredCount = length updated,
                eb_notices = map (notice_of db rsn err)
                  (filter (\<lambda>d. m_agentId (the (message_by_id db (d_messageId d))) \<noteq> '''' \<and> d_id d \<in> set updated) due)\<rparr>,
               db\<lparr>deliveries := upd_where P (dead_letter_set now err) (deliveries db)\<rparr>))"

subsection \<open>Time to live\<close>

definition due_expired :: "ms \<Rightarrow> id option \<Rightarrow> db \<Rightarrow> delivery_row \<Rightarrow> bool" where
  "due_expired now ws db d \<longleftrightarrow> in_workspace ws d \<and> active d \<and> joined db d
     \<and> (case d_expiresAt d of None \<Rightarrow> False | Some e \<Rightarrow> e \<le> toSec now)"

definition expireDueDeliveryBatch :: "ms \<Rightarrow> id option \<Rightarrow> db \<Rightarrow> expired_batch \<times> db" where
  "expireDueDeliveryBatch now ws db =
     sweep_batch now ws ttl_expired ''delivery TTL expired'' (\<lambda>_. True)
       (order_limit (\<lambda>d. (the (d_expiresAt d), d_id d)) DELIVERY_EXPIRY_BATCH_SIZE
         (filter (due_expired now ws db) (deliveries db))) db"

definition expireDueDeliveries :: "ms \<Rightarrow> id option \<Rightarrow> db \<Rightarrow> failure_notice list \<times> db" where
  "expireDueDeliveries now ws db = apfst eb_notices (expireDueDeliveryBatch now ws db)"

subsection \<open>Unreachable nodes\<close>

definition node_by_id :: "db \<Rightarrow> id \<Rightarrow> node_row option" where
  "node_by_id db i = first_row (filter (\<lambda>n. n_id n = i) (nodes db))"

definition stale_node :: "sec \<Rightarrow> node_row \<Rightarrow> bool" where
  "stale_node staleBefore n \<longleftrightarrow> n_kind n = ''ws'' \<and> n_status n \<noteq> ''online''
     \<and> (case n_lastHeartbeatAt n of None \<Rightarrow> False | Some h \<Rightarrow> h < staleBefore)"

definition stale_route :: "sec \<Rightarrow> db \<Rightarrow> delivery_row \<Rightarrow> node_row option" where
  "stale_route staleBefore db d =
     (case d_locationNodeId d of None \<Rightarrow> None
      | Some i \<Rightarrow> (case node_by_id db i of None \<Rightarrow> None
         | Some n \<Rightarrow> if stale_node staleBefore n then Some n else None))"

definition due_unreachable :: "sec \<Rightarrow> id option \<Rightarrow> db \<Rightarrow> delivery_row \<Rightarrow> bool" where
  "due_unreachable staleBefore ws db d \<longleftrightarrow> in_workspace ws d \<and> active d \<and> joined db d \<and> stale_route staleBefore db d \<noteq> None"

text \<open>SQLite orders a NULL expiry first.\<close>

definition unreachable_order :: "sec \<Rightarrow> db \<Rightarrow> delivery_row \<Rightarrow> sec \<times> (nat \<times> sec) \<times> id" where
  "unreachable_order staleBefore db d =
     (the (n_lastHeartbeatAt (the (stale_route staleBefore db d))),
      (case d_expiresAt d of None \<Rightarrow> (0, 0) | Some e \<Rightarrow> (1, e)), d_id d)"

definition deadLetterUnreachableDeliveryBatch ::
  "ms \<Rightarrow> bool \<Rightarrow> ms option \<Rightarrow> id option \<Rightarrow> db \<Rightarrow> expired_batch \<times> db" where
  "deadLetterUnreachableDeliveryBatch now authority offlineGraceMs ws db =
     (if authority then (\<lparr>eb_expiredCount = 0, eb_notices = []\<rparr>, db)
      else let grace = (case offlineGraceMs of Some g \<Rightarrow> if g > 0 then g else UNREACHABLE_NODE_GRACE_MS
                        | None \<Rightarrow> UNREACHABLE_NODE_GRACE_MS);
               staleBefore = toSec (now - grace)
           in sweep_batch now ws node_unreachable ''target node unreachable''
                (\<lambda>d. stale_route staleBefore db d \<noteq> None)
                (order_limit (unreachable_order staleBefore db) DELIVERY_EXPIRY_BATCH_SIZE
                  (filter (due_unreachable staleBefore ws db) (deliveries db))) db)"

subsection \<open>The sweeps meet the mailbox contract\<close>

lemma dead_letter_status_update:
  "status_update (\<lambda>d. in_workspace ws d \<and> d_id d \<in> S \<and> d_status d \<notin> {Acked, DeadLettered, Failed} \<and> still d)
     (dead_letter_set now err)"
  by (auto simp: status_update_def settled_def dead_letter_set_def same_key_def)

lemma sweep_batch_db:
  "snd (sweep_batch now ws rsn err still due db) = db \<or> snd (sweep_batch now ws rsn err still due db)
     = db\<lparr>deliveries := upd_where (\<lambda>d. in_workspace ws d \<and> d_id d \<in> d_id ` set due
           \<and> d_status d \<notin> {Acked, DeadLettered, Failed} \<and> still d) (dead_letter_set now err) (deliveries db)\<rparr>"
  by (simp add: sweep_batch_def Let_def)

lemma mailbox_op_sweep:
  "mailbox_op (\<lambda>db. snd (sweep_batch now ws rsn err (still db) (due db) db))"
  by (rule mailbox_op_status [OF dead_letter_status_update sweep_batch_db])

lemma mailbox_op_expire: "mailbox_op (\<lambda>db. snd (expireDueDeliveryBatch now ws db))"
  unfolding expireDueDeliveryBatch_def by (rule mailbox_op_sweep)

lemma mailbox_op_unreachable: "mailbox_op (\<lambda>db. snd (deadLetterUnreachableDeliveryBatch now authority g ws db))"
proof (cases authority)
  case True
  then show ?thesis by (simp add: deadLetterUnreachableDeliveryBatch_def mailbox_op_id)
next
  case False
  then show ?thesis
    unfolding deadLetterUnreachableDeliveryBatch_def Let_def by (simp add: mailbox_op_sweep)
qed

interpretation expire: mailbox_op "\<lambda>db. snd (expireDueDeliveryBatch now ws db)" for now ws
  by (rule mailbox_op_expire)

interpretation unreachable: mailbox_op "\<lambda>db. snd (deadLetterUnreachableDeliveryBatch now authority g ws db)"
  for now authority g ws
  by (rule mailbox_op_unreachable)

subsection \<open>A batch takes its rows, and only them\<close>

lemma filter_upd_where_gone:
  "(\<And>d. P d \<Longrightarrow> \<not> Q (f d)) \<Longrightarrow> filter Q (upd_where P f ds) = filter (\<lambda>d. Q d \<and> \<not> P d) ds"
  by (induction ds) auto

lemma length_filter_diff:
  "(\<And>d. d \<in> set ds \<Longrightarrow> P d \<Longrightarrow> Q d) \<Longrightarrow>
     length (filter (\<lambda>d. Q d \<and> \<not> P d) ds) = length (filter Q ds) - length (filter P ds)"
proof (induction ds)
  case (Cons d ds)
  have "filter P ds = filter P (filter Q ds)"
    using Cons.prems by (auto simp: filter_filter intro!: filter_cong)
  then have "length (filter P ds) \<le> length (filter Q ds)" by (metis length_filter_le)
  then show ?case using Cons by (auto simp: Suc_diff_le)
qed simp

lemma distinct_length_eq: "distinct xs \<Longrightarrow> distinct ys \<Longrightarrow> set xs = set ys \<Longrightarrow> length xs = length ys"
  by (metis distinct_card)

lemma sweep_effect:
  fixes key :: "delivery_row \<Rightarrow> 'k::linorder" and rsn :: notice_reason
  assumes inv: "mb_inv db"
    and D: "\<And>d. D d \<Longrightarrow> in_workspace ws d \<and> active d \<and> still d"
    and gone: "\<And>d. \<not> D (dead_letter_set now err d)"
  defines "due \<equiv> order_limit key 50 (filter D (deliveries db))"
  defines "r \<equiv> sweep_batch now ws rsn err still due db"
  shows "deliveries (snd r) = upd_where (\<lambda>d. d \<in> set due) (dead_letter_set now err) (deliveries db)"
    and "eb_expiredCount (fst r) = min 50 (length (filter D (deliveries db)))"
    and "length (filter D (deliveries (snd r))) = length (filter D (deliveries db)) - 50"
    and "fn_delivery_id ` set (eb_notices (fst r)) \<subseteq> d_id ` set due"
    and "set due \<subseteq> set (filter D (deliveries db))"
proof -
  let ?P = "\<lambda>d. in_workspace ws d \<and> d_id d \<in> d_id ` set due \<and> d_status d \<notin> {Acked, DeadLettered, Failed} \<and> still d"
  show sub: "set due \<subseteq> set (filter D (deliveries db))" unfolding due_def by (rule set_order_limit)
  have P: "?P d \<longleftrightarrow> d \<in> set due" if d: "d \<in> set (deliveries db)" for d
  proof
    assume "?P d"
    then obtain e where "e \<in> set due" "d_id d = d_id e" by auto
    then show "d \<in> set due" using mb_inv_delivery [OF inv d, of e] sub by auto
  next
    assume "d \<in> set due"
    then have "D d" using sub by auto
    from D [OF this] \<open>d \<in> set due\<close> show "?P d" by (auto simp: active_def)
  qed
  have dist: "distinct (deliveries db)" using mb_inv_distinct(3) [OF inv] by (simp add: distinct_map)
  then have ddue: "distinct due" by (simp add: due_def order_limit_def)
  have "set (filter (\<lambda>d. d \<in> set due) (deliveries db)) = set due" using sub by auto
  then have len: "length (filter (\<lambda>d. d \<in> set due) (deliveries db)) = length due"
    using dist ddue by (intro distinct_length_eq) simp_all
  have lendue: "length due = min 50 (length (filter D (deliveries db)))"
    by (simp add: due_def length_order_limit)
  have cnt: "length (filter ?P (deliveries db)) = length due"
  proof -
    have "filter ?P (deliveries db) = filter (\<lambda>d. d \<in> set due) (deliveries db)" by (intro filter_cong refl P)
    then show ?thesis using len by (simp only:)
  qed
  have rows: "upd_where ?P (dead_letter_set now err) (deliveries db)
      = upd_where (\<lambda>d. d \<in> set due) (dead_letter_set now err) (deliveries db)"
    by (rule upd_where_cong) (rule P)
  show res: "deliveries (snd r) = upd_where (\<lambda>d. d \<in> set due) (dead_letter_set now err) (deliveries db)"
  proof (cases "due = []")
    case True
    then show ?thesis by (simp add: r_def sweep_batch_def upd_where_id)
  next
    case False
    then show ?thesis using rows by (simp add: r_def sweep_batch_def Let_def)
  qed
  show "eb_expiredCount (fst r) = min 50 (length (filter D (deliveries db)))"
    using lendue cnt by (cases "due = []") (simp_all add: r_def sweep_batch_def Let_def)
  show "fn_delivery_id ` set (eb_notices (fst r)) \<subseteq> d_id ` set due"
    by (auto simp: r_def sweep_batch_def Let_def notice_of_def)
  have "length (filter D (deliveries (snd r))) = length (filter (\<lambda>d. D d \<and> d \<notin> set due) (deliveries db))"
    unfolding res by (subst filter_upd_where_gone) (simp_all add: gone)
  also have "\<dots> = length (filter D (deliveries db)) - length (filter (\<lambda>d. d \<in> set due) (deliveries db))"
    using sub by (intro length_filter_diff) auto
  finally show "length (filter D (deliveries (snd r))) = length (filter D (deliveries db)) - 50"
    using len lendue by simp
qed

lemma joined_cong: "messages x = messages y \<Longrightarrow> agents x = agents y \<Longrightarrow> joined x = joined y"
  by (simp add: joined_def fun_eq_iff message_by_id_def agent_by_id_def)

lemma sweep_tables [row_simps]:
  "agents (snd (sweep_batch now ws rsn err still due db)) = agents db"
  "messages (snd (sweep_batch now ws rsn err still due db)) = messages db"
  "nodes (snd (sweep_batch now ws rsn err still due db)) = nodes db"
  by (simp_all add: sweep_batch_def Let_def)

lemma expire_effect:
  assumes inv: "mb_inv db"
  shows "eb_expiredCount (fst (expireDueDeliveryBatch now ws db)) = min 50 (length (filter (due_expired now ws db) (deliveries db)))"
    and "length (filter (due_expired now ws (snd (expireDueDeliveryBatch now ws db))) (deliveries (snd (expireDueDeliveryBatch now ws db))))
      = length (filter (due_expired now ws db) (deliveries db)) - 50"
    and "\<exists>due. set due \<subseteq> set (filter (due_expired now ws db) (deliveries db))
      \<and> deliveries (snd (expireDueDeliveryBatch now ws db))
          = upd_where (\<lambda>d. d \<in> set due) (dead_letter_set now ''delivery TTL expired'') (deliveries db)
      \<and> fn_delivery_id ` set (eb_notices (fst (expireDueDeliveryBatch now ws db))) \<subseteq> d_id ` set due
      \<and> (\<forall>d \<in> set due. \<forall>e \<in> set (filter (due_expired now ws db) (deliveries db)). e \<notin> set due \<longrightarrow> the (d_expiresAt d) \<le> the (d_expiresAt e))"
proof -
  let ?D = "due_expired now ws db" and ?err = "''delivery TTL expired''"
  let ?key = "\<lambda>d. (the (d_expiresAt d), d_id d)"
  let ?due = "order_limit ?key 50 (filter ?D (deliveries db))"
  have D: "in_workspace ws d \<and> active d \<and> True" if "?D d" for d using that by (simp add: due_expired_def)
  have gone: "\<not> ?D (dead_letter_set now ?err d)" for d
    by (simp add: due_expired_def dead_letter_set_def active_def)
  note e = sweep_effect(1-4) [where D = ?D and ws = ws and still = "\<lambda>_. True" and now = now and err = ?err and db = db
      and key = ?key and rsn = ttl_expired, OF inv D gone]
  have sub: "set ?due \<subseteq> set (filter ?D (deliveries db))" by (rule set_order_limit)
  have b: "expireDueDeliveryBatch now ws db = sweep_batch now ws ttl_expired ?err (\<lambda>_. True) ?due db"
    by (simp add: expireDueDeliveryBatch_def DELIVERY_EXPIRY_BATCH_SIZE_def)
  show "eb_expiredCount (fst (expireDueDeliveryBatch now ws db)) = min 50 (length (filter ?D (deliveries db)))"
    unfolding b by (rule e(2))
  have "due_expired now ws (snd (expireDueDeliveryBatch now ws db)) = ?D"
  proof -
    have "joined (snd (expireDueDeliveryBatch now ws db)) = joined db"
      by (rule joined_cong) (simp_all add: b row_simps)
    then show ?thesis by (simp add: due_expired_def fun_eq_iff)
  qed
  then show "length (filter (due_expired now ws (snd (expireDueDeliveryBatch now ws db))) (deliveries (snd (expireDueDeliveryBatch now ws db))))
      = length (filter ?D (deliveries db)) - 50"
    unfolding b using e(3) by simp
  have least: "the (d_expiresAt d) \<le> the (d_expiresAt x)"
    if "d \<in> set ?due" "x \<in> set (filter ?D (deliveries db))" "x \<notin> set ?due" for d x
    using order_limit_least [OF that] by (auto simp: less_eq_prod_def)
  show "\<exists>due. set due \<subseteq> set (filter ?D (deliveries db))
      \<and> deliveries (snd (expireDueDeliveryBatch now ws db)) = upd_where (\<lambda>d. d \<in> set due) (dead_letter_set now ?err) (deliveries db)
      \<and> fn_delivery_id ` set (eb_notices (fst (expireDueDeliveryBatch now ws db))) \<subseteq> d_id ` set due
      \<and> (\<forall>d \<in> set due. \<forall>e \<in> set (filter ?D (deliveries db)). e \<notin> set due \<longrightarrow> the (d_expiresAt d) \<le> the (d_expiresAt e))"
    using e(1,4) sub least unfolding b by (intro exI [of _ ?due]) blast
qed

text \<open>The expiry sweep drains: a batch dead-letters the fifty oldest due deliveries (all of them if fewer),
  reports exactly that many, notifies only for those, leaves every other delivery as it was, and
  enough batches at the same clock leave nothing due.\<close>

theorem expiry_drains:
  assumes inv: "mb_inv db"
  shows "eb_expiredCount (fst (expireDueDeliveryBatch now ws db)) = min 50 (length (filter (due_expired now ws db) (deliveries db)))
    \<and> (\<exists>due. set due \<subseteq> set (filter (due_expired now ws db) (deliveries db))
      \<and> deliveries (snd (expireDueDeliveryBatch now ws db))
          = upd_where (\<lambda>d. d \<in> set due) (dead_letter_set now ''delivery TTL expired'') (deliveries db)
      \<and> fn_delivery_id ` set (eb_notices (fst (expireDueDeliveryBatch now ws db))) \<subseteq> d_id ` set due
      \<and> (\<forall>d \<in> set due. \<forall>e \<in> set (filter (due_expired now ws db) (deliveries db)). e \<notin> set due \<longrightarrow> the (d_expiresAt d) \<le> the (d_expiresAt e)))
    \<and> (let k = (length (filter (due_expired now ws db) (deliveries db)) + 49) div 50;
           db' = ((\<lambda>db. snd (expireDueDeliveryBatch now ws db)) ^^ k) db
       in filter (due_expired now ws db') (deliveries db') = [])"
proof -
  let ?op = "\<lambda>db. snd (expireDueDeliveryBatch now ws db)"
  let ?n = "\<lambda>db. length (filter (due_expired now ws db) (deliveries db))"
  have drain: "?n ((?op ^^ k) db) = ?n db - 50 * k" for k
  proof (induction k)
    case (Suc k)
    have "mb_inv ((?op ^^ k) db)" using expire.power_keeps_inv [OF inv] .
    from expire_effect(2) [OF this, of now ws] Suc show ?case by simp
  qed simp
  have "?n ((?op ^^ ((?n db + 49) div 50)) db) = 0" unfolding drain by simp
  then show ?thesis using expire_effect(1,3) [OF inv, of now ws] by (simp add: Let_def)
qed

lemma expiry_drains_witness:
  "eb_expiredCount (fst (expireDueDeliveryBatch 200000 (Some ''w'') ex_after)) = 1"
proof -
  have "length (filter (due_expired 200000 (Some ''w'') ex_after) (deliveries ex_after)) = 1"
    unfolding ex_after_def by code_simp
  with expiry_drains [OF ex_after_inv, of 200000 "Some ''w''"] show ?thesis by simp
qed

end
