(* ===== verification/Replay.thy ===== *)
theory Replay
  imports DeliverySweeps
begin

text \<open>
  The replay of a node's backlog when its connection comes up (\<open>replayPendingToNode\<close> of
  \<open>engine/delivery.ts\<close>). Every \<open>await\<close> lets the rest of the system run, so the replay is modelled
  against a world: at the n-th await the database becomes whatever the world makes of it
  (\<open>rw_env n\<close>), and the answers of the connection registry (is this agent's delivery ready, did this
  frame go out) are the world's too. Nothing is assumed of a world. A query reads the database as it
  is when it runs; the world then moves. The state logs every frame the replay tried to send, with the
  database the frame was last checked against.
\<close>

subsection \<open>Frames\<close>

definition wireMode :: "string \<Rightarrow> string" where
  "wireMode mode = (if mode = ''next-tool-call'' then ''steer'' else ''wait'')"

definition replay_event_type :: "db \<Rightarrow> delivery_row \<Rightarrow> string" where
  "replay_event_type db d =
     (case message_by_id db (d_messageId d) of
        None \<Rightarrow> ''message.created''
      | Some m \<Rightarrow>
          if m_threadId m \<noteq> None \<and> m_threadId m \<noteq> Some '''' then ''thread.reply''
          else (case conversation_by_channel db (m_channelId m) of
            Some c \<Rightarrow> if dc_dmType c = '''' then ''message.created''
                      else if dc_dmType c = ''group'' then ''group_dm.received'' else ''dm.received''
          | None \<Rightarrow> ''message.created''))"

record frame =
  f_delivery_id :: id
  f_agent_id :: id
  f_agent :: string
  f_msg_id :: id
  f_seq :: int
  f_mode :: string
  f_event :: string

definition deliver_frame :: "db \<Rightarrow> agent_row \<Rightarrow> delivery_row \<Rightarrow> frame" where
  "deliver_frame db a d =
     \<lparr>f_delivery_id = d_id d, f_agent_id = a_id a, f_agent = a_name a, f_msg_id = d_messageId d, f_seq = d_seq d,
      f_mode = wireMode (d_mode d), f_event = replay_event_type db d\<rparr>"

subsection \<open>The world and the state\<close>

record world =
  rw_env :: "nat \<Rightarrow> db \<Rightarrow> db"
  rw_ready :: "nat \<Rightarrow> id \<Rightarrow> bool"
  rw_send :: "nat \<Rightarrow> frame \<Rightarrow> bool"
  rw_now :: "nat \<Rightarrow> ms"

record replay_state =
  r_clock :: nat
  r_db :: db
  r_log :: "(db \<times> ms \<times> frame \<times> bool) list"
  r_delivered :: nat

definition tick :: "world \<Rightarrow> replay_state \<Rightarrow> replay_state" where
  "tick w s = s\<lparr>r_clock := Suc (r_clock s), r_db := rw_env w (r_clock s) (r_db s)\<rparr>"

subsection \<open>The roster\<close>

record replay_scope =
  sc_provider :: "string option"
  sc_agentIds :: "id list option"

definition roster :: "db \<Rightarrow> id \<Rightarrow> id \<Rightarrow> string option \<Rightarrow> id list option \<Rightarrow> agent_row list" where
  "roster db ws nodeId prov ids =
     filter (\<lambda>a. a_ws a = ws \<and> a_locationType a = ''via_node'' \<and> a_locationNodeId a = Some nodeId
       \<and> (case prov of None \<Rightarrow> True | Some p \<Rightarrow> a_providerName a = p)
       \<and> (case ids of None \<Rightarrow> True | Some is \<Rightarrow> a_id a \<in> set is)) (agents db)"

definition utf8 :: "char \<Rightarrow> nat list" where
  "utf8 c = (let n = of_char c in if n < 128 then [n] else [192 + n div 64, 128 + n mod 64])"

definition utf8_key :: "string \<Rightarrow> nat list" where
  "utf8_key s = concat (map utf8 s)"

definition D1_SAFE_IN_QUERY_CHUNK_SIZE :: nat where "D1_SAFE_IN_QUERY_CHUNK_SIZE = 90"

definition queryInChunks :: "'v list \<Rightarrow> ('v list \<Rightarrow> 'r list) \<Rightarrow> nat \<Rightarrow> string + 'r list" where
  "queryInChunks values query chunkSize =
     (if chunkSize < 1 then Inl ''RangeError: chunkSize must be a positive integer''
      else Inr (concat (map query (pages chunkSize values))))"

text \<open>The unscoped roster is ordered by the database, whose text order is that of the UTF-8 bytes; the scoped
  one is read in chunks of the sorted ids and ordered by \<open>utf8BinaryOrder\<close>.\<close>

definition recipients_of :: "db \<Rightarrow> id \<Rightarrow> id \<Rightarrow> replay_scope \<Rightarrow> agent_row list" where
  "recipients_of db ws nodeId scope =
     (case sc_agentIds scope of
        None \<Rightarrow> sort_key (\<lambda>a. utf8_key (a_name a)) (roster db ws nodeId (sc_provider scope) None)
      | Some ids \<Rightarrow>
          (case queryInChunks (sort (uniq ids)) (\<lambda>chunk. roster db ws nodeId (sc_provider scope) (Some chunk))
                  D1_SAFE_IN_QUERY_CHUNK_SIZE of
             Inl _ \<Rightarrow> []
           | Inr rows \<Rightarrow> sort_key (\<lambda>a. utf8_key (a_name a)) rows))"

subsection \<open>One recipient\<close>

definition high_water :: "db \<Rightarrow> id \<Rightarrow> id \<Rightarrow> int option" where
  "high_water db ws ag =
     (let seqs = map d_seq (filter (\<lambda>d. d_ws d = ws \<and> d_agentId d = ag) (deliveries db))
      in if seqs = [] then None else Some (Max (set seqs)))"

definition replay_page :: "db \<Rightarrow> id \<Rightarrow> id \<Rightarrow> int \<Rightarrow> int \<Rightarrow> delivery_row list" where
  "replay_page db ws ag cursor hw =
     order_limit d_seq 50 (filter (\<lambda>d. d_ws d = ws \<and> d_agentId d = ag \<and> active d \<and> cursor < d_seq d \<and> d_seq d \<le> hw)
       (deliveries db))"

text \<open>What hydration and revalidation ask of a row: still ours, still hosted here, still above the
  acknowledgement cursor, still active, not expired.\<close>

definition deliverable :: "ms \<Rightarrow> db \<Rightarrow> id \<Rightarrow> id \<Rightarrow> agent_row \<Rightarrow> delivery_row \<Rightarrow> bool" where
  "deliverable now db ws nodeId rcp d \<longleftrightarrow>
     d_ws d = ws \<and> d_agentId d = a_id rcp \<and> active d \<and> unexpired (toSec now) d
     \<and> (case agent_by_id db (a_id rcp) of
          None \<Rightarrow> False
        | Some a \<Rightarrow> a_locationType a = ''via_node'' \<and> a_locationNodeId a = Some nodeId
            \<and> a_providerName a = a_providerName rcp \<and> a_ackSeq a < d_seq d)"

text \<open>A hydrated row carries what its frame will say: the agent's name, the thread and the conversation are
  read here, once, and not again when the frame goes out.\<close>

definition hydrate :: "ms \<Rightarrow> db \<Rightarrow> id \<Rightarrow> id \<Rightarrow> agent_row \<Rightarrow> id list \<Rightarrow> frame list" where
  "hydrate now db ws nodeId rcp ids =
     (case agent_by_id db (a_id rcp) of
        None \<Rightarrow> []
      | Some a \<Rightarrow> map (deliver_frame db a) (sort_key d_seq (filter (\<lambda>d. d_id d \<in> set ids
          \<and> deliverable now db ws nodeId rcp d \<and> message_by_id db (d_messageId d) \<noteq> None) (deliveries db))))"

definition revalidate :: "ms \<Rightarrow> db \<Rightarrow> id \<Rightarrow> id \<Rightarrow> agent_row \<Rightarrow> id \<Rightarrow> bool" where
  "revalidate now db ws nodeId rcp did \<longleftrightarrow>
     list_ex (\<lambda>d. d_id d = did \<and> deliverable now db ws nodeId rcp d) (deliveries db)"

fun send_rows ::
  "world \<Rightarrow> id \<Rightarrow> id \<Rightarrow> agent_row \<Rightarrow> frame list \<Rightarrow> id list \<Rightarrow> replay_state \<Rightarrow> id list \<times> bool \<times> replay_state" where
  "send_rows w ws nodeId rcp [] sent s = (sent, False, s)"
| "send_rows w ws nodeId rcp (f # rows) sent s =
     (let checked = r_db s; now = rw_now w (r_clock s);
          current = revalidate now checked ws nodeId rcp (f_delivery_id f);
          s1 = tick w s
      in if \<not> current then send_rows w ws nodeId rcp rows sent s1
         else if \<not> rw_ready w (r_clock s1) (a_id rcp) then (sent, True, s1)
         else let ok = rw_send w (r_clock s1) f;
                  s2 = tick w (s1\<lparr>r_log := r_log s1 @ [(checked, now, f, ok)]\<rparr>)
              in if ok then send_rows w ws nodeId rcp rows (sent @ [f_delivery_id f]) s2
                 else (sent, True, s2))"

definition mark_sent :: "world \<Rightarrow> id \<Rightarrow> id list \<Rightarrow> replay_state \<Rightarrow> replay_state" where
  "mark_sent w ws ids s =
     tick w (s\<lparr>r_db := snd (markDeliveriesDelivered (rw_now w (r_clock s)) ws ids (r_db s)),
               r_delivered := r_delivered s + length ids\<rparr>)"

lemma replay_page_mem:
  "d \<in> set (replay_page db ws ag cursor hw) \<Longrightarrow> d \<in> set (deliveries db) \<and> d_agentId d = ag \<and> cursor < d_seq d \<and> d_seq d \<le> hw"
  unfolding replay_page_def using set_order_limit by fastforce

text \<open>The page loop: a page, its hydration, its sends, the status write; the cursor is the last sequence
  number of the page, so it moves on every turn.\<close>

function replay_loop ::
  "world \<Rightarrow> id \<Rightarrow> id \<Rightarrow> agent_row \<Rightarrow> int \<Rightarrow> int \<Rightarrow> replay_state \<Rightarrow> replay_state" where
  "replay_loop w ws nodeId rcp hw cursor s =
     (if cursor < hw \<and> rw_ready w (r_clock s) (a_id rcp)
      then let page = replay_page (r_db s) ws (a_id rcp) cursor hw; s1 = tick w s
           in if page = [] then s1
              else let cursor' = d_seq (last page);
                       rows = hydrate (rw_now w (r_clock s1)) (r_db s1) ws nodeId rcp (map d_id page);
                       s2 = tick w (tick w s1);
                       (sent, interrupted, s3) = send_rows w ws nodeId rcp rows [] s2;
                       s4 = mark_sent w ws sent s3
                   in if interrupted then s4 else replay_loop w ws nodeId rcp hw cursor' s4
      else s)"
  by pat_completeness auto

termination
proof (relation "measure (\<lambda>(w, ws, nodeId, rcp, hw, cursor, s). nat (hw - cursor))")
  fix w :: world and ws nodeId :: id and rcp :: agent_row and hw cursor :: int and s :: replay_state
    and page s1 cursor' rows s2 x sent y interrupted s3 s4
  assume "cursor < hw \<and> rw_ready w (r_clock s) (a_id rcp)" "page = replay_page (r_db s) ws (a_id rcp) cursor hw"
    "page \<noteq> []" "cursor' = d_seq (last page)"
  then have "cursor < cursor'" "cursor < hw" using replay_page_mem [OF last_in_set] by auto
  then show "((w, ws, nodeId, rcp, hw, cursor', s4), (w, ws, nodeId, rcp, hw, cursor, s))
      \<in> measure (\<lambda>(w, ws, nodeId, rcp, hw, cursor, s). nat (hw - cursor))"
    by simp
qed simp

declare replay_loop.simps [simp del]

definition replay_recipient ::
  "world \<Rightarrow> id \<Rightarrow> id \<Rightarrow> id list option \<Rightarrow> replay_state \<Rightarrow> agent_row \<Rightarrow> replay_state" where
  "replay_recipient w ws nodeId wanted s rcp =
     (if (case wanted of None \<Rightarrow> False | Some ids \<Rightarrow> a_id rcp \<notin> set ids) then s
      else if \<not> rw_ready w (r_clock s) (a_id rcp) then s
      else let hw = high_water (r_db s) ws (a_id rcp); s1 = tick w s
           in case hw of None \<Rightarrow> s1 | Some h \<Rightarrow> replay_loop w ws nodeId rcp h (a_ackSeq rcp) s1)"

definition replayPendingToNode :: "world \<Rightarrow> id \<Rightarrow> id \<Rightarrow> replay_scope \<Rightarrow> db \<Rightarrow> replay_state" where
  "replayPendingToNode w ws nodeId scope db =
     (let s = \<lparr>r_clock = 0, r_db = db, r_log = [], r_delivered = 0\<rparr>
      in if map_option uniq (sc_agentIds scope) = Some [] then s
         else let rcps = recipients_of db ws nodeId scope
              in foldl (replay_recipient w ws nodeId (sc_agentIds scope)) (tick w s) rcps)"

subsection \<open>Worlds that keep what a delivery id names\<close>

text \<open>The mailbox invariant, and the agent and sequence number a delivery id stands for.\<close>

definition keyed :: "(id \<Rightarrow> id \<times> int) \<Rightarrow> db \<Rightarrow> bool" where
  "keyed key db \<longleftrightarrow> mb_inv db \<and> (\<forall>d \<in> set (deliveries db). key (d_id d) = (d_agentId d, d_seq d))"

definition keeps_keys :: "(id \<Rightarrow> id \<times> int) \<Rightarrow> world \<Rightarrow> bool" where
  "keeps_keys key w \<longleftrightarrow> (\<forall>n db. keyed key db \<longrightarrow> keyed key (rw_env w n db))"

context mailbox_op
begin

lemma keeps_keyed:
  assumes "keyed key db"
  shows "keyed key (op db)"
proof -
  have inv: "mb_inv db" using assms by (simp add: keyed_def)
  have "key (d_id e) = (d_agentId e, d_seq e)" if e: "e \<in> set (deliveries (op db))" for e
  proof -
    obtain d where "d \<in> set (deliveries db)" "same_key d e" using no_new_rows [OF inv e] by blast
    with assms show ?thesis by (auto simp: keyed_def same_key_def)
  qed
  with keeps_inv [OF inv] show ?thesis by (simp add: keyed_def)
qed

end

lemma keyed_tick: "keeps_keys key w \<Longrightarrow> keyed key (r_db s) \<Longrightarrow> keyed key (r_db (tick w s))"
  by (simp add: keeps_keys_def tick_def)

lemma tick_log [simp]: "r_log (tick w s) = r_log s" "r_delivered (tick w s) = r_delivered s"
  by (simp_all add: tick_def)

subsection \<open>The log of one recipient\<close>

type_synonym log_entry = "db \<times> ms \<times> frame \<times> bool"

fun entry_frame :: "log_entry \<Rightarrow> frame" where "entry_frame (_, _, f, _) = f"
fun entry_ok :: "log_entry \<Rightarrow> bool" where "entry_ok (_, _, _, ok) = ok"

text \<open>The row a frame was checked against: outstanding, unexpired, above the cursor, hosted on the node.\<close>

fun entry_valid :: "id \<Rightarrow> id \<Rightarrow> log_entry \<Rightarrow> bool" where
  "entry_valid ws nodeId (checked, now, f, _) \<longleftrightarrow>
     (\<exists>d \<in> set (deliveries checked). d_id d = f_delivery_id f \<and> d_ws d = ws \<and> d_agentId d = f_agent_id f \<and> d_seq d = f_seq f
        \<and> active d \<and> unexpired (toSec now) d
        \<and> (\<exists>a. agent_by_id checked (f_agent_id f) = Some a \<and> a_locationNodeId a = Some nodeId \<and> a_ackSeq a < f_seq f))"

definition in_order :: "log_entry list \<Rightarrow> bool" where
  "in_order es \<longleftrightarrow> sorted_wrt (\<lambda>x y. entry_ok x \<and> f_seq (entry_frame x) < f_seq (entry_frame y)) es"

definition good_run :: "id \<Rightarrow> id \<Rightarrow> id \<Rightarrow> int \<Rightarrow> log_entry list \<Rightarrow> bool" where
  "good_run ws nodeId ag lo es \<longleftrightarrow> in_order es \<and> (\<forall>e \<in> set es. entry_valid ws nodeId e \<and> f_agent_id (entry_frame e) = ag
     \<and> lo < f_seq (entry_frame e))"

definition all_ok :: "log_entry list \<Rightarrow> bool" where
  "all_ok es \<longleftrightarrow> (\<forall>e \<in> set es. entry_ok e)"

lemma good_run_Nil [simp]: "good_run ws n ag lo []"
  by (simp add: good_run_def in_order_def)

lemma good_run_Cons:
  "good_run ws n ag (f_seq (entry_frame e)) es \<Longrightarrow> entry_ok e \<Longrightarrow> entry_valid ws n e \<Longrightarrow> f_agent_id (entry_frame e) = ag
     \<Longrightarrow> lo < f_seq (entry_frame e) \<Longrightarrow> good_run ws n ag lo (e # es)"
  by (auto simp: good_run_def in_order_def)

lemma good_run_mono: "good_run ws n ag lo es \<Longrightarrow> lo' \<le> lo \<Longrightarrow> good_run ws n ag lo' es"
  by (auto simp: good_run_def)

lemma good_run_append:
  assumes es: "good_run ws n ag lo es" "all_ok es" "\<forall>e \<in> set es. f_seq (entry_frame e) \<le> mid"
    and fs: "good_run ws n ag mid fs" and mid: "lo \<le> mid"
  shows "good_run ws n ag lo (es @ fs)"
proof -
  have "entry_ok x \<and> f_seq (entry_frame x) < f_seq (entry_frame y)" if "x \<in> set es" "y \<in> set fs" for x y
  proof -
    have "f_seq (entry_frame x) \<le> mid" using es(3) that(1) by (rule bspec)
    moreover have "mid < f_seq (entry_frame y)" using fs that(2) unfolding good_run_def by (elim conjE) (drule (1) bspec, simp)
    moreover have "entry_ok x" using es(2) that(1) unfolding all_ok_def by (rule bspec)
    ultimately show ?thesis by simp
  qed
  moreover have "in_order es" "in_order fs" using es(1) fs by (simp_all add: good_run_def)
  ultimately have "in_order (es @ fs)" unfolding in_order_def sorted_wrt_append by blast
  moreover have "good_run ws n ag lo fs" using fs mid by (rule good_run_mono)
  ultimately show ?thesis using es(1) unfolding good_run_def set_append ball_Un by blast
qed

lemma revalidateD:
  assumes "revalidate now db ws nodeId rcp did" "keyed key db" "key did = (a_id rcp, q)"
    and f: "f_delivery_id f = did" "f_agent_id f = a_id rcp" "f_seq f = q"
  shows "entry_valid ws nodeId (db, now, f, ok)"
proof -
  obtain d where d: "d \<in> set (deliveries db)" "d_id d = did" "deliverable now db ws nodeId rcp d"
    using assms(1) by (auto simp: revalidate_def list_ex_iff)
  then have "d_seq d = q" using assms(2,3) by (auto simp: keyed_def)
  with d f show ?thesis by (force simp: deliverable_def split: option.splits)
qed

definition frame_ok :: "(id \<Rightarrow> id \<times> int) \<Rightarrow> id \<Rightarrow> int \<Rightarrow> int \<Rightarrow> frame \<Rightarrow> bool" where
  "frame_ok key ag lo hi f \<longleftrightarrow> lo < f_seq f \<and> f_seq f \<le> hi \<and> f_agent_id f = ag \<and> key (f_delivery_id f) = (ag, f_seq f)"

lemma send_rows_log:
  assumes "keeps_keys key w" "keyed key (r_db s)" "send_rows w ws nodeId rcp rows sent s = (sent', intr, s')"
    "sorted_wrt (<) (map f_seq rows)" "\<forall>f \<in> set rows. frame_ok key (a_id rcp) lo hi f"
  shows "keyed key (r_db s') \<and> (\<exists>es. r_log s' = r_log s @ es \<and> good_run ws nodeId (a_id rcp) lo es
    \<and> (\<forall>e \<in> set es. f_seq (entry_frame e) \<le> hi) \<and> (\<not> intr \<longrightarrow> all_ok es) \<and> length sent' = length sent + length (filter entry_ok es))"
  using assms
proof (induction rows arbitrary: sent s lo)
  case Nil
  then show ?case by (auto simp: all_ok_def)
next
  case (Cons f rows)
  let ?now = "rw_now w (r_clock s)"
  let ?s1 = "tick w s"
  let ?ok = "rw_send w (r_clock ?s1) f"
  let ?e = "(r_db s, ?now, f, ?ok)"
  let ?s2 = "tick w (?s1\<lparr>r_log := r_log ?s1 @ [?e]\<rparr>)"
  have k1: "keyed key (r_db ?s1)" using Cons.prems by (intro keyed_tick)
  then have k2: "keyed key (r_db ?s2)" using Cons.prems by (intro keyed_tick) simp_all
  have row: "lo < f_seq f" "f_seq f \<le> hi" "key (f_delivery_id f) = (a_id rcp, f_seq f)" "f_agent_id f = a_id rcp"
    using Cons.prems(5) by (auto simp: frame_ok_def)
  have sorted: "sorted_wrt (<) (map f_seq rows)" using Cons.prems(4) by simp
  have rest: "\<forall>g \<in> set rows. frame_ok key (a_id rcp) (f_seq f) hi g"
    using Cons.prems(4,5) by (auto simp: frame_ok_def)
  have rest': "\<forall>g \<in> set rows. frame_ok key (a_id rcp) lo hi g"
    using Cons.prems(5) by auto
  consider (stale) "\<not> revalidate ?now (r_db s) ws nodeId rcp (f_delivery_id f)"
    | (unready) "revalidate ?now (r_db s) ws nodeId rcp (f_delivery_id f)" "\<not> rw_ready w (r_clock ?s1) (a_id rcp)"
    | (sent) "revalidate ?now (r_db s) ws nodeId rcp (f_delivery_id f)" "rw_ready w (r_clock ?s1) (a_id rcp)" "?ok"
    | (lost) "revalidate ?now (r_db s) ws nodeId rcp (f_delivery_id f)" "rw_ready w (r_clock ?s1) (a_id rcp)" "\<not> ?ok"
    by blast
  then show ?case
  proof cases
    case stale
    then have "send_rows w ws nodeId rcp rows sent ?s1 = (sent', intr, s')" using Cons.prems(3) by simp
    from Cons.IH [OF Cons.prems(1) k1 this sorted rest'] show ?thesis by simp
  next
    case unready
    then show ?thesis using Cons.prems(3) k1 by (auto simp: all_ok_def)
  next
    case sent
    then have "send_rows w ws nodeId rcp rows (sent @ [f_delivery_id f]) ?s2 = (sent', intr, s')"
      using Cons.prems(3) by (simp add: Let_def)
    from Cons.IH [OF Cons.prems(1) k2 this sorted rest] obtain es where es: "keyed key (r_db s')"
      "r_log s' = r_log s @ ?e # es" "good_run ws nodeId (a_id rcp) (f_seq f) es"
      "\<forall>e \<in> set es. f_seq (entry_frame e) \<le> hi" "\<not> intr \<longrightarrow> all_ok es"
      "length sent' = Suc (length sent) + length (filter entry_ok es)"
      by auto
    have "entry_valid ws nodeId ?e"
      by (rule revalidateD [OF sent(1) Cons.prems(2) row(3) refl row(4) refl])
    then have "good_run ws nodeId (a_id rcp) lo (?e # es)"
      using es(3) sent(3) row(1,4) by (intro good_run_Cons) simp_all
    then show ?thesis
      using es sent(3) row(2) by (intro conjI exI [of _ "?e # es"]) (auto simp: all_ok_def)
  next
    case lost
    then have r: "sent' = sent" "intr" "s' = ?s2" using Cons.prems(3) by (auto simp: Let_def)
    have "entry_valid ws nodeId ?e"
      by (rule revalidateD [OF lost(1) Cons.prems(2) row(3) refl row(4) refl])
    then have "good_run ws nodeId (a_id rcp) lo [?e]"
      using row(1,4) by (simp add: good_run_def in_order_def)
    then show ?thesis using r k2 lost(3) row(2) by (intro conjI exI [of _ "[?e]"]) auto
  qed
qed

lemma page_keys:
  assumes "keyed key db" "did \<in> set (map d_id (replay_page db ws ag cursor hw))"
  shows "\<exists>q. key did = (ag, q) \<and> cursor < q \<and> q \<le> hw \<and> q \<le> d_seq (last (replay_page db ws ag cursor hw))"
proof -
  let ?page = "replay_page db ws ag cursor hw"
  obtain d where d: "d \<in> set ?page" "did = d_id d" using assms(2) by auto
  then have m: "d \<in> set (deliveries db)" "d_agentId d = ag" "cursor < d_seq d" "d_seq d \<le> hw"
    using replay_page_mem by blast+
  have "sorted (map d_seq ?page)" unfolding replay_page_def by (rule order_limit_sorted)
  moreover obtain i where i: "i < length ?page" "?page ! i = d" using d(1) by (auto simp: in_set_conv_nth)
  ultimately have "d_seq d \<le> d_seq (last ?page)"
    using sorted_nth_mono [of "map d_seq ?page" i "length ?page - 1"] d(1) by (cases "?page = []") (auto simp: last_conv_nth)
  with m d(2) assms(1) show ?thesis by (auto simp: keyed_def)
qed

lemma sorted_strict:
  assumes "sorted (map f xs)" "distinct (map f xs)" shows "sorted_wrt (<) (map f xs)"
  using assms strict_sorted_iff by blast

lemma hydrate_frames:
  assumes k: "keyed key db" and ids: "\<And>did. did \<in> set ids \<Longrightarrow> \<exists>q. key did = (a_id rcp, q) \<and> lo < q \<and> q \<le> hi"
  shows "sorted_wrt (<) (map f_seq (hydrate now db ws nodeId rcp ids))"
    and "\<forall>f \<in> set (hydrate now db ws nodeId rcp ids). frame_ok key (a_id rcp) lo hi f"
proof -
  let ?P = "\<lambda>d. d_id d \<in> set ids \<and> deliverable now db ws nodeId rcp d \<and> message_by_id db (d_messageId d) \<noteq> None"
  let ?ds = "sort_key d_seq (filter ?P (deliveries db))"
  have "distinct (map (\<lambda>d. (d_agentId d, d_seq d)) (filter ?P (deliveries db)))"
    using k by (auto simp: keyed_def mb_inv_def intro: distinct_map_filter)
  moreover have "inj_on d_seq (set (filter ?P (deliveries db)))"
    if "inj_on (\<lambda>d. (d_agentId d, d_seq d)) (set (filter ?P (deliveries db)))"
    using that by (auto simp: inj_on_def deliverable_def)
  ultimately have "distinct (map d_seq (filter ?P (deliveries db)))" by (simp add: distinct_map)
  then have "distinct (map d_seq ?ds)" by (simp add: distinct_map)
  then have "sorted_wrt (<) (map d_seq ?ds)" by (intro sorted_strict) simp_all
  then show "sorted_wrt (<) (map f_seq (hydrate now db ws nodeId rcp ids))"
    by (auto simp: hydrate_def deliver_frame_def comp_def split: option.splits)
  have "frame_ok key (a_id rcp) lo hi (deliver_frame db a d)"
    if "agent_by_id db (a_id rcp) = Some a" "d \<in> set (deliveries db)" "?P d" for a d
    using that k ids [of "d_id d"] agent_by_id_Some [OF that(1)]
    by (auto simp: frame_ok_def deliver_frame_def keyed_def deliverable_def)
  then show "\<forall>f \<in> set (hydrate now db ws nodeId rcp ids). frame_ok key (a_id rcp) lo hi f"
    by (auto simp: hydrate_def split: option.splits)
qed

lemma mark_sent_state:
  assumes "keeps_keys key w" "keyed key (r_db s)"
  shows "keyed key (r_db (mark_sent w ws ids s))" "r_log (mark_sent w ws ids s) = r_log s"
    "r_delivered (mark_sent w ws ids s) = r_delivered s + length ids"
  using assms delivered.keeps_keyed by (auto simp: mark_sent_def intro!: keyed_tick)

lemma send_rows_delivered:
  "send_rows w ws nodeId rcp rows sent s = (sent', intr, s') \<Longrightarrow> r_delivered s' = r_delivered s"
  by (induction rows arbitrary: sent s) (auto simp: Let_def split: if_splits)

lemma replay_loop_log:
  assumes "keeps_keys key w" "keyed key (r_db s)"
  shows "keyed key (r_db (replay_loop w ws nodeId rcp hw cursor s)) \<and> (\<exists>es. r_log (replay_loop w ws nodeId rcp hw cursor s) = r_log s @ es
    \<and> good_run ws nodeId (a_id rcp) cursor es
    \<and> r_delivered (replay_loop w ws nodeId rcp hw cursor s) = r_delivered s + length (filter entry_ok es))"
  using assms
proof (induction w ws nodeId rcp hw cursor s rule: replay_loop.induct)
  case (1 w ws nodeId rcp hw cursor s)
  let ?page = "replay_page (r_db s) ws (a_id rcp) cursor hw"
  let ?s1 = "tick w s"
  let ?rows = "hydrate (rw_now w (r_clock ?s1)) (r_db ?s1) ws nodeId rcp (map d_id ?page)"
  let ?s2 = "tick w (tick w ?s1)"
  let ?cur = "d_seq (last ?page)"
  have k1: "keyed key (r_db ?s1)" using 1(2,3) by (rule keyed_tick)
  then have k2: "keyed key (r_db ?s2)" by (rule keyed_tick [OF 1(2) keyed_tick [OF 1(2)]])
  consider (stop) "\<not> (cursor < hw \<and> rw_ready w (r_clock s) (a_id rcp))"
    | (empty) "cursor < hw \<and> rw_ready w (r_clock s) (a_id rcp)" "?page = []"
    | (page) "cursor < hw \<and> rw_ready w (r_clock s) (a_id rcp)" "?page \<noteq> []"
    by blast
  then show ?case
  proof cases
    case stop
    then show ?thesis using 1(3) by (subst (1 2 3) replay_loop.simps) (auto cong: if_cong)
  next
    case empty
    then show ?thesis using k1 by (subst (1 2 3) replay_loop.simps) (auto simp: Let_def)
  next
    case page
    obtain sent intr s3 where send: "send_rows w ws nodeId rcp ?rows [] ?s2 = (sent, intr, s3)" by (cases "send_rows w ws nodeId rcp ?rows [] ?s2")
    let ?s4 = "mark_sent w ws sent s3"
    have eq: "replay_loop w ws nodeId rcp hw cursor s = (if intr then ?s4 else replay_loop w ws nodeId rcp hw ?cur ?s4)"
      using page send by (subst replay_loop.simps) (simp add: Let_def)
    have ids: "\<exists>q. key did = (a_id rcp, q) \<and> cursor < q \<and> q \<le> ?cur" if "did \<in> set (map d_id ?page)" for did
      using page_keys [OF 1(3) that] by blast
    have "cursor < ?cur" using replay_page_mem [OF last_in_set [OF page(2)]] by blast
    from send_rows_log [OF 1(2) k2 send hydrate_frames(1) [OF k1 ids] hydrate_frames(2) [OF k1 ids]]
    obtain es where es: "keyed key (r_db s3)" "r_log s3 = r_log s @ es" "good_run ws nodeId (a_id rcp) cursor es"
      "\<forall>e \<in> set es. f_seq (entry_frame e) \<le> ?cur" "\<not> intr \<longrightarrow> all_ok es" "length sent = length (filter entry_ok es)"
      by auto
    note s4 = mark_sent_state [OF 1(2) es(1), of ws sent]
    have del: "r_delivered s3 = r_delivered s" by (rule send_rows_delivered [OF send, simplified])
    show ?thesis
    proof (cases intr)
      case True
      with eq s4 es del show ?thesis by auto
    next
      case False
      from 1(1) [OF page(1) refl refl page(2) refl refl refl send [symmetric] refl refl refl False 1(2) s4(1)]
      obtain fs where fs: "keyed key (r_db (replay_loop w ws nodeId rcp hw ?cur ?s4))"
        "r_log (replay_loop w ws nodeId rcp hw ?cur ?s4) = r_log ?s4 @ fs" "good_run ws nodeId (a_id rcp) ?cur fs"
        "r_delivered (replay_loop w ws nodeId rcp hw ?cur ?s4) = r_delivered ?s4 + length (filter entry_ok fs)"
        by blast
      have "good_run ws nodeId (a_id rcp) cursor (es @ fs)"
        using es(3,4,5) fs(3) False \<open>cursor < ?cur\<close> by (intro good_run_append [where mid = ?cur]) simp_all
      with eq fs s4 es False del show ?thesis by (intro conjI exI [of _ "es @ fs"]) auto
    qed
  qed
qed

subsection \<open>The log of the whole replay\<close>

definition fifo :: "log_entry list \<Rightarrow> bool" where
  "fifo es \<longleftrightarrow> sorted_wrt (\<lambda>x y. f_agent_id (entry_frame x) = f_agent_id (entry_frame y)
     \<longrightarrow> entry_ok x \<and> f_seq (entry_frame x) < f_seq (entry_frame y)) es"

definition replay_ok :: "(id \<Rightarrow> id \<times> int) \<Rightarrow> id \<Rightarrow> id \<Rightarrow> replay_state \<Rightarrow> bool" where
  "replay_ok key ws nodeId s \<longleftrightarrow> keyed key (r_db s) \<and> fifo (r_log s) \<and> list_all (entry_valid ws nodeId) (r_log s)
     \<and> r_delivered s = length (filter entry_ok (r_log s))"

definition agents_of :: "log_entry list \<Rightarrow> id set" where
  "agents_of es = (\<lambda>e. f_agent_id (entry_frame e)) ` set es"

lemma good_run_fifo: "good_run ws n ag lo es \<Longrightarrow> fifo es \<and> list_all (entry_valid ws n) es \<and> agents_of es \<subseteq> {ag}"
  unfolding good_run_def fifo_def in_order_def agents_of_def list_all_iff
  by (auto elim!: sorted_wrt_mono_rel [rotated])

lemma fifo_append:
  assumes "fifo es" "fifo fs" "agents_of es \<inter> agents_of fs = {}"
  shows "fifo (es @ fs)"
  using assms unfolding fifo_def sorted_wrt_append agents_of_def by (blast dest: equalityD1)

lemma replay_ok_append:
  assumes "replay_ok key ws n s" "keyed key (r_db s')" "r_log s' = r_log s @ es" "good_run ws n ag lo es"
    "r_delivered s' = r_delivered s + length (filter entry_ok es)" "ag \<notin> agents_of (r_log s)"
  shows "replay_ok key ws n s' \<and> agents_of (r_log s') \<subseteq> insert ag (agents_of (r_log s))"
proof -
  note g = good_run_fifo [OF assms(4)]
  have "fifo (r_log s @ es)" using assms(1,6) g by (intro fifo_append) (auto simp: replay_ok_def)
  with assms g show ?thesis by (auto simp: replay_ok_def agents_of_def)
qed

lemma replay_recipient_ok:
  assumes "keeps_keys key w" "replay_ok key ws n s" "a_id rcp \<notin> agents_of (r_log s)"
  shows "replay_ok key ws n (replay_recipient w ws n wanted s rcp)
    \<and> agents_of (r_log (replay_recipient w ws n wanted s rcp)) \<subseteq> insert (a_id rcp) (agents_of (r_log s))"
proof -
  let ?s1 = "tick w s"
  have s1: "replay_ok key ws n ?s1" using assms by (auto simp: replay_ok_def intro: keyed_tick)
  have loop: "replay_ok key ws n (replay_loop w ws n rcp h (a_ackSeq rcp) ?s1)
    \<and> agents_of (r_log (replay_loop w ws n rcp h (a_ackSeq rcp) ?s1)) \<subseteq> insert (a_id rcp) (agents_of (r_log s))" for h
  proof -
    have k1: "keyed key (r_db ?s1)" using s1 by (simp add: replay_ok_def)
    obtain es where es: "keyed key (r_db (replay_loop w ws n rcp h (a_ackSeq rcp) ?s1))"
      "r_log (replay_loop w ws n rcp h (a_ackSeq rcp) ?s1) = r_log ?s1 @ es"
      "good_run ws n (a_id rcp) (a_ackSeq rcp) es"
      "r_delivered (replay_loop w ws n rcp h (a_ackSeq rcp) ?s1) = r_delivered ?s1 + length (filter entry_ok es)"
      using replay_loop_log [OF assms(1) k1] by blast
    show ?thesis using replay_ok_append [OF s1 es] assms(3) by simp
  qed
  show ?thesis using assms(2) s1 loop unfolding replay_recipient_def Let_def by (auto split: option.splits)
qed

lemma foldl_recipients_ok:
  assumes "keeps_keys key w" "replay_ok key ws n s" "distinct (map a_id rcps)" "\<forall>a \<in> set rcps. a_id a \<notin> agents_of (r_log s)"
  shows "replay_ok key ws n (foldl (replay_recipient w ws n wanted) s rcps)"
  using assms(2-4)
proof (induction rcps arbitrary: s)
  case (Cons a rcps)
  from Cons.prems(3) have "a_id a \<notin> agents_of (r_log s)" by simp
  note step = replay_recipient_ok [OF assms(1) Cons.prems(1) this, of wanted]
  have "replay_ok key ws n (foldl (replay_recipient w ws n wanted) (replay_recipient w ws n wanted s a) rcps)"
  proof (rule Cons.IH)
    show "\<forall>b \<in> set rcps. a_id b \<notin> agents_of (r_log (replay_recipient w ws n wanted s a))"
    proof
      fix b assume b: "b \<in> set rcps"
      then have "a_id b \<in> set (map a_id rcps)" by simp
      then have "a_id b \<noteq> a_id a" using Cons.prems(2) by (metis distinct.simps(2) list.simps(9))
      moreover have "a_id b \<notin> agents_of (r_log s)" using b Cons.prems(3) by simp
      ultimately show "a_id b \<notin> agents_of (r_log (replay_recipient w ws n wanted s a))" using step by blast
    qed
  qed (use step Cons.prems(2) in simp_all)
  then show ?case by simp
qed simp

lemma distinct_roster:
  "distinct (map a_id (agents db)) \<Longrightarrow> distinct (map a_id (roster db ws n prov ids))"
  unfolding roster_def by (rule distinct_map_filter)

lemma distinct_chunked_roster:
  assumes "distinct (map a_id (agents db))" "distinct (concat chunks)"
  shows "distinct (map a_id (concat (map (\<lambda>c. roster db ws n prov (Some c)) chunks)))"
  using assms(2)
proof (induction chunks)
  case (Cons c cs)
  let ?r = "\<lambda>c. roster db ws n prov (Some c)"
  have sub: "a_id a \<in> set c" if "a \<in> set (?r c)" for a c using that by (simp add: roster_def)
  have "a_id ` set (?r c) \<inter> a_id ` set (concat (map ?r cs)) = {}"
  proof (rule equals0I)
    fix i assume "i \<in> a_id ` set (?r c) \<inter> a_id ` set (concat (map ?r cs))"
    then obtain a b d where "a \<in> set (?r c)" "d \<in> set cs" "b \<in> set (?r d)" "i = a_id a" "i = a_id b" by auto
    then have "i \<in> set c" "i \<in> set d" using sub [of a c] sub [of b d] by simp_all
    then have "i \<in> set c" "i \<in> set (concat cs)" using \<open>d \<in> set cs\<close> by auto
    with Cons.prems show False by auto
  qed
  with Cons distinct_roster [OF assms(1)] show ?case by simp
qed simp

lemma distinct_recipients:
  assumes "distinct (map a_id (agents db))"
  shows "distinct (map a_id (recipients_of db ws n scope))"
proof (cases "sc_agentIds scope")
  case None
  then show ?thesis using distinct_roster [OF assms] by (simp add: recipients_of_def distinct_map)
next
  case (Some ids)
  have "distinct (concat (pages D1_SAFE_IN_QUERY_CHUNK_SIZE (sort (uniq ids))))"
    by (simp add: concat_pages D1_SAFE_IN_QUERY_CHUNK_SIZE_def)
  from distinct_chunked_roster [OF assms this] Some show ?thesis
    by (simp add: recipients_of_def queryInChunks_def D1_SAFE_IN_QUERY_CHUNK_SIZE_def distinct_map)
qed

lemma replay_result:
  assumes "keeps_keys key w" "keyed key db"
  shows "replay_ok key ws n (replayPendingToNode w ws n scope db)"
proof -
  let ?s = "\<lparr>r_clock = 0, r_db = db, r_log = [], r_delivered = 0\<rparr>"
  have s: "replay_ok key ws n ?s" using assms by (simp add: replay_ok_def fifo_def)
  then have t: "replay_ok key ws n (tick w ?s)" using assms by (auto simp: replay_ok_def intro: keyed_tick)
  have d: "distinct (map a_id (recipients_of db ws n scope))"
    using assms(2) by (intro distinct_recipients) (simp add: keyed_def mb_inv_def)
  have "replay_ok key ws n (foldl (replay_recipient w ws n (sc_agentIds scope)) (tick w ?s) (recipients_of db ws n scope))"
    by (rule foldl_recipients_ok [OF assms(1) t d]) (simp add: agents_of_def)
  with s show ?thesis by (simp add: replayPendingToNode_def Let_def)
qed

text \<open>
  C0: whatever the world does between two awaits (sends, acknowledgements, handoffs, sweeps: any
  operation that keeps the mailbox invariant and never gives a delivery id to another row), the frames
  of one replay reach each agent in strictly increasing sequence number, and no frame is sent to an
  agent after one that failed: a cumulative acknowledgement of a frame can not cover a delivery this
  replay failed to send. Every frame was checked, just before it went out, against a row that was
  outstanding, unexpired, above the agent's acknowledgement cursor and hosted on this node, and the
  count the replay returns is the number of frames that went out.
\<close>

theorem replay_never_past_a_failure:
  fixes ws nodeId :: id and scope :: replay_scope
  assumes "keyed key db" "keeps_keys key w"
  defines "s \<equiv> replayPendingToNode w ws nodeId scope db"
  shows "(\<forall>i j. i < j \<longrightarrow> j < length (r_log s) \<longrightarrow> f_agent_id (entry_frame (r_log s ! i)) = f_agent_id (entry_frame (r_log s ! j)) \<longrightarrow>
      entry_ok (r_log s ! i) \<and> f_seq (entry_frame (r_log s ! i)) < f_seq (entry_frame (r_log s ! j)))
   \<and> (\<forall>e \<in> set (r_log s). entry_valid ws nodeId e)
   \<and> r_delivered s = length (filter entry_ok (r_log s))"
proof -
  have ok: "replay_ok key ws nodeId s" unfolding s_def by (rule replay_result [OF assms(2,1)])
  then have "fifo (r_log s)" by (simp add: replay_ok_def)
  then have "\<forall>i j. i < j \<longrightarrow> j < length (r_log s) \<longrightarrow> f_agent_id (entry_frame (r_log s ! i)) = f_agent_id (entry_frame (r_log s ! j)) \<longrightarrow>
      entry_ok (r_log s ! i) \<and> f_seq (entry_frame (r_log s ! i)) < f_seq (entry_frame (r_log s ! j))"
    unfolding fifo_def sorted_wrt_iff_nth_less by blast
  with ok show ?thesis by (simp add: replay_ok_def list_all_iff)
qed

text \<open>A world in which nothing else happens, and one in which the node acknowledges the frame while it is in flight.\<close>

definition ex_world :: "(nat \<Rightarrow> db \<Rightarrow> db) \<Rightarrow> world" where
  "ex_world env = \<lparr>rw_env = env, rw_ready = (\<lambda>_ _. True), rw_send = (\<lambda>_ _. True), rw_now = (\<lambda>_. 2000)\<rparr>"

definition ex_ack_env :: "nat \<Rightarrow> db \<Rightarrow> db" where
  "ex_ack_env n db = (if n = 6 then snd (ackDeliveriesUpToSeq 2000 ''w'' ''n'' ''default'' ''bo'' 5 db) else db)"

definition ex_scope :: replay_scope where
  "ex_scope = \<lparr>sc_provider = None, sc_agentIds = None\<rparr>"

definition ex_key :: "id \<Rightarrow> id \<times> int" where
  "ex_key _ = (d_agentId ex_del, d_seq ex_del)"

lemma ex_keyed: "keyed ex_key ex_hosted"
  by (simp add: keyed_def ex_hosted_inv ex_deliveries ex_key_def)

lemma ex_keeps: "keeps_keys key (ex_world ex_ack_env)"
  by (simp add: keeps_keys_def ex_world_def ex_ack_env_def cumulative.keeps_keyed)

lemma ex_replay:
  "map entry_ok (r_log (replayPendingToNode (ex_world ex_ack_env) ''w'' ''n'' ex_scope ex_hosted)) = [True]"
  unfolding ex_hosted_def ex_after_def replayPendingToNode_def replay_recipient_def by (subst replay_loop.simps) code_simp

lemma replay_never_past_a_failure_witness:
  "r_delivered (replayPendingToNode (ex_world ex_ack_env) ''w'' ''n'' ex_scope ex_hosted) = 1
   \<and> list_all (entry_valid ''w'' ''n'') (r_log (replayPendingToNode (ex_world ex_ack_env) ''w'' ''n'' ex_scope ex_hosted))"
proof -
  note claim = replay_never_past_a_failure [OF ex_keyed ex_keeps, of "''w''" "''n''" ex_scope]
  have "length (filter entry_ok es) = 1" if "map entry_ok es = [True]" for es using that by (cases es) auto
  from this [OF ex_replay] claim show ?thesis by (simp add: list_all_iff)
qed

end
