(* ===== verification/MailboxSteps.thy ===== *)
theory MailboxSteps
  imports Replay
begin

text \<open>
  The mailbox under concurrency. The store serialises single statements and atomic write groups, so a
  run is a sequence of them; the one operation of \<open>engine/delivery.ts\<close> whose reads and writes are
  separate statements and whose writes trust what was read is the cumulative acknowledgement
  (\<open>ackDeliveriesUpToSeq\<close>). It is split here into its read (\<open>ack_begin\<close>) and its chunked writes
  (\<open>ack_chunk\<close>), and \<open>sys_step\<close> interleaves any number of them with sends and with the other
  operations.
\<close>

subsection \<open>A cumulative acknowledgement in flight\<close>

record flight =
  fl_ws :: id
  fl_agent :: id
  fl_upTo :: int
  fl_rest :: "delivery_row list list"

definition ack_begin :: "db \<Rightarrow> id \<Rightarrow> id \<Rightarrow> string \<Rightarrow> string \<Rightarrow> int \<Rightarrow> flight option" where
  "ack_begin db ws nodeId providerName agentName upToSeq =
     (case find_node_agent db ws nodeId providerName agentName of
        None \<Rightarrow> None
      | Some a \<Rightarrow>
          if upToSeq \<le> a_ackSeq a then None
          else let pending = pending_rows db ws (a_id a) upToSeq
               in Some \<lparr>fl_ws = ws, fl_agent = a_id a, fl_upTo = upToSeq,
                    fl_rest = (if pending = [] then [[]] else pages 50 pending)\<rparr>)"

definition ack_chunk :: "ms \<Rightarrow> flight \<Rightarrow> db \<Rightarrow> db" where
  "ack_chunk now f db =
     (case fl_rest f of
        [] \<Rightarrow> db
      | chunk # rest \<Rightarrow> snd (ackRows now (fl_ws f) (fl_agent f) chunk (if rest = [] then Some (fl_upTo f) else None) db))"

definition next_chunk :: "flight \<Rightarrow> flight" where
  "next_chunk f = f\<lparr>fl_rest := tl (fl_rest f)\<rparr>"

fun fly :: "ms \<Rightarrow> nat \<Rightarrow> flight \<Rightarrow> db \<Rightarrow> db" where
  "fly now 0 f db = db"
| "fly now (Suc n) f db = fly now n (next_chunk f) (ack_chunk now f db)"

lemma fly_chunks:
  "fly now (length (fl_rest f)) f db = snd (ack_chunks now (fl_ws f) (fl_agent f) (fl_upTo f) (fl_rest f) (ids, db))"
proof (induction "fl_rest f" arbitrary: f db ids)
  case Nil
  then show ?case by (simp flip: Nil)
next
  case (Cons chunk rest)
  have next_f: "fl_rest (next_chunk f) = rest" "fl_ws (next_chunk f) = fl_ws f" "fl_agent (next_chunk f) = fl_agent f"
    "fl_upTo (next_chunk f) = fl_upTo f"
    using Cons.hyps(2) by (simp_all add: next_chunk_def flip: Cons.hyps(2))
  show ?case
    using Cons.hyps(1) [of "next_chunk f"] next_f by (simp add: ack_chunk_def case_prod_unfold Let_def flip: Cons.hyps(2))
qed

text \<open>Left alone, the flight is the operation.\<close>

lemma fly_is_ackUpTo:
  "snd (ackDeliveriesUpToSeq now ws nodeId prov name n db) =
     (case ack_begin db ws nodeId prov name n of None \<Rightarrow> db | Some f \<Rightarrow> fly now (length (fl_rest f)) f db)"
proof (cases "ack_begin db ws nodeId prov name n")
  case None
  then show ?thesis by (auto simp: ack_begin_def ackDeliveriesUpToSeq_def Let_def split: option.splits if_splits)
next
  case (Some f)
  then obtain a where a: "find_node_agent db ws nodeId prov name = Some a" "\<not> n \<le> a_ackSeq a"
    and f: "f = \<lparr>fl_ws = ws, fl_agent = a_id a, fl_upTo = n, fl_rest =
      (if pending_rows db ws (a_id a) n = [] then [[]] else pages 50 (pending_rows db ws (a_id a) n))\<rparr>"
    by (auto simp: ack_begin_def Let_def split: option.splits if_splits)
  show ?thesis
  proof (cases "pending_rows db ws (a_id a) n = []")
    case True
    with a f Some show ?thesis by (simp add: ackDeliveriesUpToSeq_def ack_chunk_def)
  next
    case False
    with a f Some show ?thesis
      using fly_chunks [of now f db "[]"] by (simp add: ackDeliveriesUpToSeq_def case_prod_unfold Let_def)
  qed
qed

subsection \<open>The system\<close>

datatype mailbox_call =
    AckOne ms id id id
  | FailOne ms id id id "string option" "bool option"
  | DeferOne ms id id id sec "string option" "delivery_policy option"
  | MarkDelivered ms id "id list"
  | ReadMessage ms id id id
  | ExpireBatch ms "id option"
  | DeadLetterBatch ms bool "ms option" "id option"

fun run_call :: "mailbox_call \<Rightarrow> db \<Rightarrow> db" where
  "run_call (AckOne now ws ag did) db = snd (ackDelivery now ws ag did db)"
| "run_call (FailOne now ws ag did err r) db = snd (failDelivery now ws ag did err r db)"
| "run_call (DeferOne now ws ag did av rsn policy) db = snd (deferDelivery now ws ag did av rsn policy db)"
| "run_call (MarkDelivered now ws ids) db = snd (markDeliveriesDelivered now ws ids db)"
| "run_call (ReadMessage now ws mid ag) db = snd (markRead now ws mid ag db)"
| "run_call (ExpireBatch now ws) db = snd (expireDueDeliveryBatch now ws db)"
| "run_call (DeadLetterBatch now authority g ws) db = snd (deadLetterUnreachableDeliveryBatch now authority g ws db)"

record sys =
  sys_db :: db
  sys_flights :: "flight list"

text \<open>With \<open>honest\<close>, a node acknowledges only sequence numbers the agent has been given.\<close>

inductive sys_step :: "bool \<Rightarrow> sys \<Rightarrow> sys \<Rightarrow> bool" for honest where
  post: "postMessage handle t authority i m s db = (None, db') \<Longrightarrow> m_id m = fi_messageId i \<Longrightarrow> m_ws m = fi_workspaceId i
    \<Longrightarrow> audience_in_workspace s db (fi_workspaceId i) \<Longrightarrow> sys_step honest \<lparr>sys_db = db, sys_flights = fs\<rparr> \<lparr>sys_db = db', sys_flights = fs\<rparr>"
| run: "sys_step honest \<lparr>sys_db = db, sys_flights = fs\<rparr> \<lparr>sys_db = run_call c db, sys_flights = fs\<rparr>"
| read: "ack_begin db ws nodeId prov name n = Some f \<Longrightarrow>
    (honest \<Longrightarrow> \<exists>a \<in> set (agents db). a_id a = fl_agent f \<and> a_ws a = fl_ws f \<and> n \<le> a_seq a)
    \<Longrightarrow> sys_step honest \<lparr>sys_db = db, sys_flights = fs\<rparr> \<lparr>sys_db = db, sys_flights = f # fs\<rparr>"
| chunk: "sys_step honest \<lparr>sys_db = db, sys_flights = fs @ f # gs\<rparr>
    \<lparr>sys_db = ack_chunk now f db, sys_flights = fs @ next_chunk f # gs\<rparr>"

text \<open>What every step promises: what was settled stays, cursors only grow, and a row is
  either old or newer than everything its agent had.\<close>

definition evolves :: "db \<Rightarrow> db \<Rightarrow> bool" where
  "evolves db db' \<longleftrightarrow> mb_inv db'
     \<and> (\<forall>d \<in> set (deliveries db). settled d \<longrightarrow> (\<exists>e \<in> set (deliveries db'). same_key d e \<and> d_status e = d_status d))
     \<and> (\<forall>a \<in> set (agents db). \<exists>b \<in> set (agents db'). a_id b = a_id a \<and> a_ws b = a_ws a \<and> a_ackSeq a \<le> a_ackSeq b \<and> a_seq a \<le> a_seq b)
     \<and> (\<forall>e \<in> set (deliveries db'). (\<exists>d \<in> set (deliveries db). same_key d e)
          \<or> (\<forall>a \<in> set (agents db). a_id a = d_agentId e \<longrightarrow> a_seq a < d_seq e))"

lemma mailbox_op_evolves: "mailbox_op f \<Longrightarrow> mb_inv db \<Longrightarrow> evolves db (f db)"
  unfolding evolves_def
  using mailbox_op.keeps_inv [of f db] mailbox_op.keeps_settled [of f db] mailbox_op.cursors_grow [of f db]
    mailbox_op.no_new_rows [of f db]
  by blast

lemma run_call_evolves: "mb_inv db \<Longrightarrow> evolves db (run_call c db)"
  by (cases c)
    (simp_all add: mailbox_op_evolves [OF mailbox_op_ack] mailbox_op_evolves [OF mailbox_op_fail]
      mailbox_op_evolves [OF mailbox_op_defer] mailbox_op_evolves [OF mailbox_op_mark]
      mailbox_op_evolves [OF mailbox_op_read] mailbox_op_evolves [OF mailbox_op_expire]
      mailbox_op_evolves [OF mailbox_op_unreachable])

definition flight_ok :: "db \<Rightarrow> flight \<Rightarrow> bool" where
  "flight_ok db f \<longleftrightarrow>
     (\<exists>a \<in> set (agents db). a_id a = fl_agent f \<and> a_ws a = fl_ws f \<and> fl_upTo f \<le> a_seq a)
   \<and> (\<forall>d \<in> set (deliveries db). d_ws d = fl_ws f \<longrightarrow> d_agentId d = fl_agent f \<longrightarrow> d_seq d \<le> fl_upTo f \<longrightarrow> \<not> settled d
        \<longrightarrow> d_id d \<in> d_id ` set (concat (fl_rest f)))"

lemma flight_ok_evolves:
  assumes inv: "mb_inv db" and ev: "evolves db db'" and ok: "flight_ok db f"
  shows "flight_ok db' f"
proof -
  obtain a where a: "a \<in> set (agents db)" "a_id a = fl_agent f" "a_ws a = fl_ws f" "fl_upTo f \<le> a_seq a"
    using ok by (auto simp: flight_ok_def)
  then obtain b where b: "b \<in> set (agents db')" "a_id b = fl_agent f" "a_ws b = fl_ws f" "fl_upTo f \<le> a_seq b"
    using ev unfolding evolves_def by (metis order_trans)
  have "d_id e \<in> d_id ` set (concat (fl_rest f))"
    if e: "e \<in> set (deliveries db')" "d_ws e = fl_ws f" "d_agentId e = fl_agent f" "d_seq e \<le> fl_upTo f" "\<not> settled e" for e
  proof -
    have "\<not> (\<forall>a \<in> set (agents db). a_id a = d_agentId e \<longrightarrow> a_seq a < d_seq e)" using a e by force
    then obtain d where d: "d \<in> set (deliveries db)" "same_key d e" using ev e(1) by (auto simp: evolves_def)
    have "\<not> settled d"
    proof
      assume s: "settled d"
      then obtain e' where e': "e' \<in> set (deliveries db')" "same_key d e'" "d_status e' = d_status d"
        using ev d(1) by (auto simp: evolves_def)
      have "e' = e" using ev e(1) e' d(2) mb_inv_delivery [of db' e' e] by (simp add: evolves_def same_key_def)
      with e' s e(5) show False by (simp add: settled_def)
    qed
    moreover have "d_ws d = fl_ws f" "d_agentId d = fl_agent f" "d_seq d \<le> fl_upTo f"
      using d(2) e by (simp_all add: same_key_def)
    ultimately have "d_id d \<in> d_id ` set (concat (fl_rest f))" using ok d(1) unfolding flight_ok_def by blast
    then show ?thesis using d(2) by (simp add: same_key_def)
  qed
  with b show ?thesis by (auto simp: flight_ok_def)
qed

lemma evolves_refl: "mb_inv db \<Longrightarrow> evolves db db"
  using mailbox_op_evolves [OF mailbox_op_id] .

lemma ack_last_evolves:
  assumes inv: "mb_inv db" and below: "\<And>d. d \<in> set (deliveries db) \<Longrightarrow> d_ws d = ws \<Longrightarrow> d_agentId d = ag \<Longrightarrow> d_seq d \<le> n
      \<Longrightarrow> \<not> settled d \<Longrightarrow> d_id d \<in> d_id ` set chunk"
  shows "evolves db (snd (ackRows now ws ag chunk (Some n) db))" (is "evolves db ?db'")
proof -
  let ?P = "ack_pred ws chunk"
  let ?db1 = "db\<lparr>deliveries := upd_where ?P (ack_set now) (deliveries db)\<rparr>"
  let ?A = "\<lambda>a. a_ws a = ws \<and> a_id a = ag"
  have up: "status_update ?P (ack_set now)" by (auto simp: status_update_def ack_pred_def settled_iff)
  have op: "mailbox_op (\<lambda>db. db\<lparr>deliveries := upd_where ?P (ack_set now) (deliveries db)\<rparr>)"
    by (rule mailbox_op_upd_deliveries [OF up])
  have inv1: "mb_inv ?db1" by (rule mb_inv_upd_deliveries [OF inv up])
  have "settled d" if d: "d \<in> set (deliveries ?db1)" "d_ws d = ws" "d_agentId d = ag" "d_seq d \<le> n" for d
  proof -
    from d(1) have "d \<in> set (upd_where ?P (ack_set now) (deliveries db))" by simp
    then show ?thesis
    proof (cases rule: in_upd_whereE)
      case (changed r)
      then show ?thesis by (simp add: settled_iff)
    next
      case same
      then show ?thesis using below d(2-4) by (auto simp: ack_pred_def settled_iff)
    qed
  qed
  from mb_inv_advance [OF inv1 this]
  have "mb_inv (?db1\<lparr>agents := upd_where ?A (touch_agent now (Some n)) (agents db)\<rparr>)" by simp
  moreover have "mb_inv ?db' = mb_inv (?db1\<lparr>agents := upd_where ?A (touch_agent now (Some n)) (agents db)\<rparr>)"
    by (rule mb_inv_cong) (simp_all add: row_simps)
  ultimately have inv': "mb_inv ?db'" by simp
  have "\<exists>b \<in> set (agents ?db'). a_id b = a_id a \<and> a_ws b = a_ws a \<and> a_ackSeq a \<le> a_ackSeq b \<and> a_seq a \<le> a_seq b"
    if a: "a \<in> set (agents db)" for a
  proof -
    let ?b = "if ?A a then touch_agent now (Some n) a else a"
    have "?b \<in> set (agents ?db')" using a by (auto simp: row_simps set_upd_where)
    then show ?thesis by (rule bexI [rotated]) simp
  qed
  moreover have "evolves db ?db1" by (rule mailbox_op_evolves [OF op inv])
  ultimately show ?thesis using inv' by (simp add: evolves_def row_simps)
qed

lemma ack_chunk_evolves:
  assumes inv: "mb_inv db" and ok: "flight_ok db f"
  shows "evolves db (ack_chunk now f db)"
proof (cases "fl_rest f")
  case Nil
  then show ?thesis using inv by (simp add: ack_chunk_def evolves_refl)
next
  case (Cons chunk rest)
  show ?thesis
  proof (cases "rest = []")
    case True
    have "evolves db (snd (ackRows now (fl_ws f) (fl_agent f) chunk (Some (fl_upTo f)) db))"
      by (rule ack_last_evolves [OF inv]) (use ok Cons True in \<open>auto simp: flight_ok_def\<close>)
    then show ?thesis using Cons True by (simp add: ack_chunk_def)
  next
    case False
    then show ?thesis using Cons mailbox_op_evolves [OF mailbox_op_ackRows inv] by (simp add: ack_chunk_def)
  qed
qed

lemma own_chunk_flight_ok:
  assumes inv: "mb_inv db" and ok: "flight_ok db f"
  shows "flight_ok (ack_chunk now f db) (next_chunk f)"
proof (cases "fl_rest f")
  case Nil
  then have "next_chunk f = f" by (simp add: next_chunk_def)
  with Nil ok show ?thesis by (simp add: ack_chunk_def)
next
  case (Cons chunk rest)
  let ?db' = "ack_chunk now f db"
  have ok': "flight_ok ?db' f" by (rule flight_ok_evolves [OF inv ack_chunk_evolves [OF inv ok] ok])
  have "d_id d \<in> d_id ` set (concat rest)"
    if d: "d \<in> set (deliveries ?db')" "d_ws d = fl_ws f" "d_agentId d = fl_agent f" "d_seq d \<le> fl_upTo f" "\<not> settled d" for d
  proof -
    have "d \<in> set (upd_where (ack_pred (fl_ws f) chunk) (ack_set now) (deliveries db))"
      using d(1) Cons by (simp add: ack_chunk_def row_simps)
    then have "d_id d \<notin> d_id ` set chunk"
      by (cases rule: in_upd_whereE) (use d in \<open>auto simp: ack_pred_def settled_iff\<close>)
    moreover have "d_id d \<in> d_id ` set (concat (fl_rest f))" using ok' d unfolding flight_ok_def by blast
    ultimately show ?thesis using Cons by auto
  qed
  then show ?thesis using ok' Cons by (simp add: flight_ok_def next_chunk_def)
qed

lemma begin_flight_ok:
  assumes inv: "mb_inv db" and f: "ack_begin db ws nodeId prov name n = Some f"
    and a: "\<exists>a \<in> set (agents db). a_id a = fl_agent f \<and> a_ws a = fl_ws f \<and> n \<le> a_seq a"
  shows "flight_ok db f"
proof -
  obtain ag where f': "f = \<lparr>fl_ws = ws, fl_agent = ag, fl_upTo = n,
      fl_rest = (if pending_rows db ws ag n = [] then [[]] else pages 50 (pending_rows db ws ag n))\<rparr>"
    using f by (auto simp: ack_begin_def Let_def split: option.splits if_splits)
  have rest: "concat (fl_rest f) = pending_rows db ws ag n" by (simp add: f' concat_pages)
  have "d_id d \<in> d_id ` set (concat (fl_rest f))"
    if "d \<in> set (deliveries db)" "d_ws d = ws" "d_agentId d = ag" "d_seq d \<le> n" "\<not> settled d" for d
    unfolding rest using that pending_rows_mem [OF inv, of ws ag n] by (auto simp: settled_iff)
  then show ?thesis using a f' by (simp add: flight_ok_def)
qed

lemma post_evolves:
  assumes ok: "postMessage handle t authority i m s db = (None, db')" and inv: "mb_inv db"
    and m: "m_id m = fi_messageId i" "m_ws m = fi_workspaceId i" and aud: "audience_in_workspace s db (fi_workspaceId i)"
  shows "evolves db db'"
proof -
  let ?db = "db\<lparr>messages := messages db @ [m]\<rparr>"
  let ?rs = "map (send_row t i s ?db) (send_recipients t authority i s ?db)"
  note w = postMessage_ok [OF ok]
  have inv1: "mb_inv ?db" by (rule mb_inv_insert_message [OF inv w(1)])
  have aud1: "audience_in_workspace s ?db (fi_workspaceId i)" using aud by simp
  have db': "db' = foldl insert_delivery ?db ?rs" by (rule send_write_Inr(1) [OF w(2)])
  have inv': "mb_inv db'" by (rule mb_inv_send_write [OF inv1 aud1 _ w(2)]) (use m in simp)
  obtain qs where qs: "deliveries db' = deliveries db @ qs" "set qs \<subseteq> set ?rs"
    using inserts_append [of ?db ?rs] db' by auto
  have new: "a_seq a < d_seq e" if e: "e \<in> set qs" and a: "a \<in> set (agents db)" "a_id a = d_agentId e" for e a
  proof -
    obtain b where b: "b \<in> set (send_recipients t authority i s ?db)" "e = send_row t i s ?db b" using qs(2) e by auto
    have "b \<in> set (agents db)" using send_recipients_mem [OF b(1) aud1] by simp
    then have "b = a" using mb_inv_agent [OF inv] a b(2) by simp
    then show ?thesis using b(2) by (simp add: nextDeliverySeq_def)
  qed
  have grow: "\<exists>b \<in> set (agents db'). a_id b = a_id a \<and> a_ws b = a_ws a \<and> a_ackSeq a \<le> a_ackSeq b \<and> a_seq a \<le> a_seq b"
    if "a \<in> set (agents db)" for a
    using inserts_cursors [of a ?db ?rs] that db' by fastforce
  show ?thesis
    unfolding evolves_def
  proof (intro conjI ballI impI)
    show "\<exists>e \<in> set (deliveries db'). same_key d e \<and> d_status e = d_status d" if "d \<in> set (deliveries db)" for d
      using that qs(1) by (intro same_status_refl) simp
    show "(\<exists>d \<in> set (deliveries db). same_key d e) \<or> (\<forall>a \<in> set (agents db). a_id a = d_agentId e \<longrightarrow> a_seq a < d_seq e)"
      if "e \<in> set (deliveries db')" for e
      using that qs(1) new same_row_refl by auto
  qed (use inv' grow in blast)+
qed

subsection \<open>Every run\<close>

definition sys_ok :: "sys \<Rightarrow> bool" where
  "sys_ok s \<longleftrightarrow> mb_inv (sys_db s) \<and> (\<forall>f \<in> set (sys_flights s). flight_ok (sys_db s) f)"

lemma step_ok:
  assumes "sys_step True s s'" "sys_ok s"
  shows "sys_ok s' \<and> evolves (sys_db s) (sys_db s')"
  using assms
proof (cases rule: sys_step.cases)
  case (post handle t authority i m x db db' fs)
  then have inv: "mb_inv db" using assms(2) by (simp add: sys_ok_def)
  have ev: "evolves db db'" by (rule post_evolves [OF post(3) inv post(4,5,6)])
  then show ?thesis using post(1,2) assms(2) flight_ok_evolves [OF inv ev] by (auto simp: sys_ok_def evolves_def)
next
  case (run db fs c)
  then have inv: "mb_inv db" using assms(2) by (simp add: sys_ok_def)
  note ev = run_call_evolves [OF inv, of c]
  show ?thesis using run(1,2) assms(2) ev flight_ok_evolves [OF inv ev] by (auto simp: sys_ok_def evolves_def)
next
  case (read db ws nodeId prov name n f fs)
  then have inv: "mb_inv db" using assms(2) by (simp add: sys_ok_def)
  have "flight_ok db f" by (rule begin_flight_ok [OF inv read(3)]) (use read(4) in simp)
  then show ?thesis using read(1,2) assms(2) evolves_refl [OF inv] by (simp add: sys_ok_def)
next
  case (chunk db fs f gs now)
  then have inv: "mb_inv db" and ok: "flight_ok db f" using assms(2) by (simp_all add: sys_ok_def)
  note ev = ack_chunk_evolves [OF inv ok, of now]
  show ?thesis
    using chunk assms(2) ev flight_ok_evolves [OF inv ev] own_chunk_flight_ok [OF inv ok, of now]
    by (auto simp: sys_ok_def evolves_def)
qed

text \<open>What a run keeps of the rows and cursors it started with.\<close>

definition history_kept :: "db \<Rightarrow> db \<Rightarrow> bool" where
  "history_kept db db' \<longleftrightarrow>
     (\<forall>d \<in> set (deliveries db). settled d \<longrightarrow> (\<exists>e \<in> set (deliveries db'). same_key d e \<and> d_status e = d_status d))
   \<and> (\<forall>a \<in> set (agents db). \<exists>b \<in> set (agents db'). a_id b = a_id a \<and> a_ws b = a_ws a \<and> a_ackSeq a \<le> a_ackSeq b \<and> a_seq a \<le> a_seq b)"

lemma evolves_history: "evolves db db' \<Longrightarrow> history_kept db db'"
  unfolding evolves_def history_kept_def by blast

lemma history_refl: "history_kept db db"
  unfolding history_kept_def using same_status_refl by blast

lemma history_trans:
  assumes "history_kept x y" "history_kept y z"
  shows "history_kept x z"
  unfolding history_kept_def
proof (intro conjI ballI impI)
  fix d assume "d \<in> set (deliveries x)" "settled d"
  then obtain e where e: "e \<in> set (deliveries y)" "same_key d e" "d_status e = d_status d"
    using assms(1) by (auto simp: history_kept_def)
  then have "settled e" using \<open>settled d\<close> by (simp add: settled_def)
  then obtain g where "g \<in> set (deliveries z)" "same_key e g" "d_status g = d_status e"
    using assms(2) e(1) by (auto simp: history_kept_def)
  with e show "\<exists>g \<in> set (deliveries z). same_key d g \<and> d_status g = d_status d" by (auto intro: same_key_trans)
next
  fix a assume "a \<in> set (agents x)"
  then obtain b where b: "b \<in> set (agents y)" "a_id b = a_id a" "a_ws b = a_ws a" "a_ackSeq a \<le> a_ackSeq b" "a_seq a \<le> a_seq b"
    using assms(1) by (auto simp: history_kept_def)
  then obtain c where "c \<in> set (agents z)" "a_id c = a_id b" "a_ws c = a_ws b" "a_ackSeq b \<le> a_ackSeq c" "a_seq b \<le> a_seq c"
    using assms(2) by (auto simp: history_kept_def)
  with b show "\<exists>c \<in> set (agents z). a_id c = a_id a \<and> a_ws c = a_ws a \<and> a_ackSeq a \<le> a_ackSeq c \<and> a_seq a \<le> a_seq c"
    by (intro bexI [of _ c]) simp_all
qed

lemma run_ok:
  assumes "(sys_step True)\<^sup>*\<^sup>* s s'" "sys_ok s"
  shows "sys_ok s' \<and> history_kept (sys_db s) (sys_db s')"
  using assms
proof (induction rule: rtranclp_induct)
  case base
  then show ?case by (simp add: history_refl)
next
  case (step y z)
  then have y: "sys_ok y" "history_kept (sys_db s) (sys_db y)" by simp_all
  from step_ok [OF step.hyps(2) y(1)] have "sys_ok z" "history_kept (sys_db y) (sys_db z)"
    by (simp_all add: evolves_history)
  with history_trans [OF y(2)] show ?case by blast
qed

text \<open>C26: As long as nodes acknowledge only sequence numbers their agents were given (the code does not check it, see
  \<open>overreaching_ack_hides_a_delivery\<close>), however sends, transitions, sweeps and the separately committed chunks of any
  number of cumulative acknowledgements interleave: an acknowledged or dead-lettered delivery keeps that status forever, sequence numbers and
  acknowledgement cursors never go back, and no outstanding delivery is ever at or below its agent's
  cursor, where a replay would skip it for good.\<close>

theorem mailbox_run_safe:
  assumes "(sys_step True)\<^sup>*\<^sup>* \<lparr>sys_db = db, sys_flights = []\<rparr> s" "mb_inv db"
  shows "mb_inv (sys_db s) \<and> history_kept db (sys_db s)
    \<and> (\<forall>d \<in> set (deliveries (sys_db s)). \<forall>a \<in> set (agents (sys_db s)).
         a_id a = d_agentId d \<longrightarrow> active d \<longrightarrow> a_ackSeq a < d_seq d)"
proof -
  have "sys_ok \<lparr>sys_db = db, sys_flights = []\<rparr>" using assms(2) by (simp add: sys_ok_def)
  from run_ok [OF assms(1) this] have ok: "mb_inv (sys_db s)" "history_kept db (sys_db s)" by (simp_all add: sys_ok_def)
  have "a_ackSeq a < d_seq d"
    if "d \<in> set (deliveries (sys_db s))" "a \<in> set (agents (sys_db s))" "a_id a = d_agentId d" "active d" for a d
    using mb_inv_agent_row(4) [OF ok(1) that(1,2,3)] that(4) by (meson active_not_settled linorder_not_less)
  with ok show ?thesis by blast
qed

subsection \<open>A run, and what an overreaching acknowledgement does\<close>

text \<open>On node n's agent 2 of the small workspace (one delivery, sequence number 5): the node's acknowledgement
  up to \<open>n\<close> reads, a second message arrives, then the acknowledgement writes.\<close>

definition ex_input2 :: fanout_input where
  "ex_input2 = ex_input\<lparr>fi_messageId := ''8''\<rparr>"

definition ex_msg2 :: message_row where
  "ex_msg2 = ex_msg\<lparr>m_id := ''8''\<rparr>"

definition ex_two :: db where
  "ex_two = snd (postMessage Batch 100000 False ex_input2 ex_msg2 ex_send ex_hosted)"

definition ex_flight :: "int \<Rightarrow> flight" where
  "ex_flight n = the (ack_begin ex_hosted ''w'' ''n'' ''default'' ''bo'' n)"

lemma ex_two: "postMessage Batch 100000 False ex_input2 ex_msg2 ex_send ex_hosted = (None, ex_two)"
proof -
  have "fst (postMessage Batch 100000 False ex_input2 ex_msg2 ex_send ex_hosted) = None"
    unfolding ex_hosted_def ex_after_def by code_simp
  then show ?thesis by (simp add: ex_two_def prod_eq_iff)
qed

lemma ex_two_audience: "audience_in_workspace ex_send ex_hosted (fi_workspaceId ex_input2)"
  unfolding ex_hosted_def ex_after_def by code_simp

lemma ex_begin:
  assumes "4 < n"
  shows "ack_begin ex_hosted ''w'' ''n'' ''default'' ''bo'' n = Some (ex_flight n)"
  using ex_find assms by (auto simp: ex_flight_def ack_begin_def Let_def)

lemma ex_flight_agent:
  assumes "4 < n"
  shows "fl_agent (ex_flight n) = ''2''" "fl_ws (ex_flight n) = ''w''"
  using ex_find assms by (auto simp: ex_flight_def ack_begin_def Let_def)

lemma ex_run:
  assumes n: "4 < n" and honest: "honest \<Longrightarrow> n \<le> 5"
  shows "(sys_step honest)\<^sup>*\<^sup>* \<lparr>sys_db = ex_hosted, sys_flights = []\<rparr>
    \<lparr>sys_db = ack_chunk 101000 (ex_flight n) ex_two, sys_flights = [next_chunk (ex_flight n)]\<rparr>"
proof -
  obtain a where a: "a \<in> set (agents ex_hosted)" "a_id a = ''2''" "a_ws a = ''w''" "a_seq a = 5"
    using ex_find by (force simp: find_node_agent_def dest: first_row_Some)
  have 1: "sys_step honest \<lparr>sys_db = ex_hosted, sys_flights = []\<rparr> \<lparr>sys_db = ex_hosted, sys_flights = [ex_flight n]\<rparr>"
    using a honest by (intro sys_step.read [OF ex_begin [OF n]]) (auto simp: ex_flight_agent [OF n])
  have 2: "sys_step honest \<lparr>sys_db = ex_hosted, sys_flights = [ex_flight n]\<rparr> \<lparr>sys_db = ex_two, sys_flights = [ex_flight n]\<rparr>"
    by (rule sys_step.post [OF ex_two _ _ ex_two_audience]) (simp_all add: ex_msg2_def ex_msg_def ex_input2_def ex_input_def)
  have 3: "sys_step honest \<lparr>sys_db = ex_two, sys_flights = [ex_flight n]\<rparr>
      \<lparr>sys_db = ack_chunk 101000 (ex_flight n) ex_two, sys_flights = [next_chunk (ex_flight n)]\<rparr>"
    using sys_step.chunk [of honest ex_two "[]" "ex_flight n" "[]" 101000] by simp
  show ?thesis using 1 2 3 by (meson converse_rtranclp_into_rtranclp rtranclp.rtrancl_refl)
qed

lemma ex_chunked:
  "map (\<lambda>d. (d_id d, d_agentId d, d_status d, d_seq d)) (deliveries (ack_chunk 101000 (ex_flight n) ex_two))
     = [(''del_7_2'', ''2'', Acked, 5), (''del_8_2'', ''2'', Queued, 6)]
   \<and> map (\<lambda>a. (a_id a, a_ackSeq a)) (agents (ack_chunk 101000 (ex_flight n) ex_two)) = [(''1'', 0), (''2'', n), (''3'', 0)]"
  if "n = 5 \<or> n = 6"
proof -
  have "map (\<lambda>d. (d_id d, d_agentId d, d_status d, d_seq d)) (deliveries (ack_chunk 101000 (ex_flight 5) ex_two))
      = [(''del_7_2'', ''2'', Acked, 5), (''del_8_2'', ''2'', Queued, 6)]"
    "map (\<lambda>a. (a_id a, a_ackSeq a)) (agents (ack_chunk 101000 (ex_flight 5) ex_two)) = [(''1'', 0), (''2'', 5), (''3'', 0)]"
    "map (\<lambda>d. (d_id d, d_agentId d, d_status d, d_seq d)) (deliveries (ack_chunk 101000 (ex_flight 6) ex_two))
      = [(''del_7_2'', ''2'', Acked, 5), (''del_8_2'', ''2'', Queued, 6)]"
    "map (\<lambda>a. (a_id a, a_ackSeq a)) (agents (ack_chunk 101000 (ex_flight 6) ex_two)) = [(''1'', 0), (''2'', 6), (''3'', 0)]"
    unfolding ex_two_def ex_flight_def ex_hosted_def ex_after_def by code_simp+
  with that show ?thesis by auto
qed

lemma mailbox_run_safe_witness:
  "mb_inv (ack_chunk 101000 (ex_flight 5) ex_two) \<and> history_kept ex_hosted (ack_chunk 101000 (ex_flight 5) ex_two)
   \<and> map d_status (deliveries (ack_chunk 101000 (ex_flight 5) ex_two)) = [Acked, Queued]"
proof -
  have "map d_status (deliveries (ack_chunk 101000 (ex_flight 5) ex_two)) = [Acked, Queued]"
    using arg_cong [OF conjunct1 [OF ex_chunked [of 5]], of "map (\<lambda>(i, a, st, q). st)"] by (simp add: comp_def)
  then show ?thesis using mailbox_run_safe [OF ex_run [of 5 True] ex_hosted_inv] by simp
qed

text \<open>The honesty of nodes matters: \<open>up_to_seq\<close> is not checked against the agent's sequence counter, and when
  it exceeds the counter, a send that commits between the acknowledgement's read and its cursor write
  leaves an outstanding delivery at or below the cursor, which no later replay of that agent selects.\<close>

theorem overreaching_ack_hides_a_delivery:
  "\<exists>s d a. (sys_step False)\<^sup>*\<^sup>* \<lparr>sys_db = ex_hosted, sys_flights = []\<rparr> s
     \<and> d \<in> set (deliveries (sys_db s)) \<and> a \<in> set (agents (sys_db s)) \<and> a_id a = d_agentId d \<and> active d
     \<and> d \<notin> set (replay_page (sys_db s) ''w'' (a_id a) (a_ackSeq a) hw)"
proof -
  let ?db = "ack_chunk 101000 (ex_flight 6) ex_two"
  note c = ex_chunked [of 6, simplified]
  obtain d0 d where dd: "deliveries ?db = [d0, d]" and d': "d_agentId d = ''2''" "d_status d = Queued" "d_seq d = 6"
    using conjunct1 [OF c] by (auto simp: map_eq_Cons_conv)
  then have d: "d \<in> set (deliveries ?db)" "d_agentId d = ''2''" "d_status d = Queued" "d_seq d = 6" by simp_all
  obtain a1 a a3 where aa: "agents ?db = [a1, a, a3]" and a': "a_id a = ''2''" "a_ackSeq a = 6"
    using conjunct2 [OF c] by (auto simp: map_eq_Cons_conv)
  then have a: "a \<in> set (agents ?db)" "a_id a = ''2''" "a_ackSeq a = 6" by simp_all
  have "d \<notin> set (replay_page ?db ''w'' (a_id a) (a_ackSeq a) hw)"
    using replay_page_mem [of d ?db "''w''" "a_id a" "a_ackSeq a" hw] d(4) a(3) by auto
  moreover have "active d" using d(3) by (simp add: active_def)
  ultimately show ?thesis using ex_run [of 6 False] d a by (intro exI [of _ "\<lparr>sys_db = ?db, sys_flights = [next_chunk (ex_flight 6)]\<rparr>"] exI [of _ d] exI [of _ a]) simp
qed

end
