(* ===== verification/Placement.thy ===== *)
theory Placement
  imports Liveness
begin

text \<open>
  Choosing a node for a spawn or an action, and the agent slots of a node (\<open>engine/placement.ts\<close>).
  \<open>claimSpawnNode\<close> reserves one slot of the node it returns, unless the node is not ready and the work
  is queued; \<open>chooseNodeForAction\<close> only chooses. Inside \<open>runAtomic\<close> the transaction sees the tables of
  its start, so the claim is a function on the database. The collation of \<open>localeCompare\<close> is a
  parameter: the facts about the order of the candidates need it to be a total preorder.
\<close>

subsection \<open>Manifests and capacity\<close>

definition item_name :: "manifest_item \<Rightarrow> string" where
  "item_name item = (case item of CapName s \<Rightarrow> s | CapObj c \<Rightarrow> cap_name c)"

definition nodeHasCapability :: "node_row \<Rightarrow> string \<Rightarrow> bool" where
  "nodeHasCapability n capability \<longleftrightarrow> list_ex (\<lambda>item. item_name item = capability) (n_capabilities n)"

definition nodeHasCapacity :: "node_row \<Rightarrow> bool" where
  "nodeHasCapacity n \<longleftrightarrow> n_maxAgents n = 0 \<or> n_activeAgents n + n_reservedAgents n < n_maxAgents n"

text \<open>\<open>x || y\<close> on numbers.\<close>

definition num_or :: "rat \<Rightarrow> rat \<Rightarrow> rat" where
  "num_or x y = (if x \<noteq> 0 then x else y)"

definition compareNodeCapacityLoad :: "(string \<Rightarrow> string \<Rightarrow> rat) \<Rightarrow> node_row \<Rightarrow> node_row \<Rightarrow> rat" where
  "compareNodeCapacityLoad localeCompare a b =
     num_or (of_bool (n_loadReported b) - of_bool (n_loadReported a))
       (num_or (n_load a - n_load b)
         (num_or (of_int (n_activeAgents a + n_reservedAgents a) - of_int (n_activeAgents b + n_reservedAgents b))
           (localeCompare (n_name a) (n_name b))))"

subsection \<open>The request\<close>

text \<open>\<open>x ?? y\<close> on properties of a JSON object: a missing property and \<open>null\<close> give way.\<close>

definition nullish :: "json option \<Rightarrow> json option \<Rightarrow> json option" where
  "nullish x y = (case x of None \<Rightarrow> y | Some JNull \<Rightarrow> y | _ \<Rightarrow> x)"

definition normalizeTarget :: "json option \<Rightarrow> string option" where
  "normalizeTarget target =
     (case target of Some (JStr s) \<Rightarrow> if trim s \<noteq> [] then Some (trim s) else None | _ \<Rightarrow> None)"

definition normalizeCapability :: "string \<Rightarrow> (string \<times> json) list \<Rightarrow> string" where
  "normalizeCapability actionName input =
     (case nullish (map_of input ''capability'') (map_of input ''cli'') of
        Some (JStr raw) \<Rightarrow>
          if trim raw \<noteq> []
          then (if starts_with ''spawn:'' (trim raw) then trim raw
                else if actionName = ''spawn'' then ''spawn:'' @ trim raw else trim raw)
          else actionName
      | _ \<Rightarrow> actionName)"

record placement_request =
  pr_actionName :: string
  pr_input :: "(string \<times> json) list"
  pr_callerId :: "id option"
  pr_preferredNodeId :: "id option"
  pr_excludeNodeIds :: "id list"

record placement_result =
  pl_node :: node_row
  pl_capability :: string
  pl_queued :: bool

definition request_target :: "placement_request \<Rightarrow> string option" where
  "request_target r = normalizeTarget (nullish (nullish (map_of (pr_input r) ''target_node'') (map_of (pr_input r) ''node''))
     (map_of (pr_input r) ''target''))"

definition node_with_id :: "db \<Rightarrow> id \<Rightarrow> id \<Rightarrow> node_row option" where
  "node_with_id db ws i = first_row (filter (\<lambda>n. n_ws n = ws \<and> n_id n = i) (nodes db))"

definition node_with_name :: "db \<Rightarrow> id \<Rightarrow> string \<Rightarrow> node_row option" where
  "node_with_name db ws nm = first_row (filter (\<lambda>n. n_ws n = ws \<and> n_name n = nm) (nodes db))"

subsection \<open>Slots\<close>

definition reserve_where :: "bool \<Rightarrow> id \<Rightarrow> id \<Rightarrow> node_row \<Rightarrow> bool" where
  "reserve_where authority ws nodeId n \<longleftrightarrow> n_ws n = ws \<and> n_id n = nodeId
     \<and> (authority \<or> n_status n = ''online'') \<and> (authority \<or> n_handlersLive n)
     \<and> (n_maxAgents n = 0 \<or> n_activeAgents n + n_reservedAgents n < n_maxAgents n)"

definition add_reserved :: "node_row \<Rightarrow> node_row" where
  "add_reserved n = n\<lparr>n_reservedAgents := n_reservedAgents n + 1\<rparr>"

definition reserveNodeCapacity :: "bool \<Rightarrow> id \<Rightarrow> id \<Rightarrow> db \<Rightarrow> node_row option \<times> db" where
  "reserveNodeCapacity authority ws nodeId db =
     (first_row (returning (reserve_where authority ws nodeId) add_reserved (nodes db)),
      db\<lparr>nodes := upd_where (reserve_where authority ws nodeId) add_reserved (nodes db)\<rparr>)"

definition releaseNodeCapacity :: "id \<Rightarrow> id \<Rightarrow> int \<Rightarrow> db \<Rightarrow> db" where
  "releaseNodeCapacity ws nodeId count db =
     (if count \<le> 0 then db
      else db\<lparr>nodes := upd_where (\<lambda>n. n_ws n = ws \<and> n_id n = nodeId)
        (\<lambda>n. n\<lparr>n_reservedAgents := (if n_reservedAgents n > count then n_reservedAgents n - count else 0)\<rparr>) (nodes db)\<rparr>)"

subsection \<open>Claiming a node for a spawn\<close>

type_synonym placement_answer = "coded + placement_result"

definition handler_unavailable :: coded where
  "handler_unavailable = codedError ''handler_unavailable'' 503"

text \<open>The candidate of a target: \<open>None\<close> when it lacks the capability or is excluded.\<close>

definition chooseLiveCandidate ::
  "authority \<Rightarrow> ms \<Rightarrow> id \<Rightarrow> string \<Rightarrow> id set \<Rightarrow> node_row option \<Rightarrow> db \<Rightarrow> (coded + placement_result option) \<times> db" where
  "chooseLiveCandidate auth now ws capability excluded node db =
     (case node of
        None \<Rightarrow> (Inr None, db)
      | Some n \<Rightarrow>
          if \<not> nodeHasCapability n capability \<or> n_id n \<in> excluded then (Inr None, db)
          else if \<not> nodeReady auth now n then (Inr (Some \<lparr>pl_node = n, pl_capability = capability, pl_queued = True\<rparr>), db)
          else case reserveNodeCapacity (auth \<noteq> None) ws (n_id n) db of
              (None, db') \<Rightarrow> (Inl handler_unavailable, db')
            | (Some reserved, db') \<Rightarrow> (Inr (Some \<lparr>pl_node = reserved, pl_capability = capability, pl_queued = False\<rparr>), db'))"

text \<open>What follows for a target node: it is claimed, or the reason why not is reported.\<close>

definition claim_target ::
  "authority \<Rightarrow> ms \<Rightarrow> id \<Rightarrow> string \<Rightarrow> id set \<Rightarrow> node_row \<Rightarrow> db \<Rightarrow> placement_answer \<times> db" where
  "claim_target auth now ws capability excluded node db =
     (case chooseLiveCandidate auth now ws capability excluded (Some node) db of
        (Inl e, db') \<Rightarrow> (Inl e, db')
      | (Inr (Some r), db') \<Rightarrow> (Inr r, db')
      | (Inr None, db') \<Rightarrow>
          if n_id node \<in> excluded then (Inl handler_unavailable, db')
          else if \<not> nodeHasCapability node capability then (Inl (codedError ''capability_mismatch'' 409), db')
          else (Inr \<lparr>pl_node = node, pl_capability = capability, pl_queued = \<not> nodeReady auth now node\<rparr>, db'))"

text \<open>The node of the caller, for the target \<open>self\<close>.\<close>

definition caller_node :: "db \<Rightarrow> id \<Rightarrow> id option \<Rightarrow> coded + node_row" where
  "caller_node db ws callerId =
     (case truthy callerId of
        None \<Rightarrow> Inl (codedError ''placement_self_requires_agent'' 400)
      | Some c \<Rightarrow>
          case first_row (filter (\<lambda>a. a_ws a = ws \<and> a_id a = c) (agents db)) of
            None \<Rightarrow> Inl (codedError ''placement_self_unavailable'' 409)
          | Some a \<Rightarrow>
              if a_locationType a \<noteq> ''via_node'' \<or> truthy (a_locationNodeId a) = None
              then Inl (codedError ''placement_self_unavailable'' 409)
              else case node_with_id db ws (the (a_locationNodeId a)) of
                  None \<Rightarrow> Inl (codedError ''node_not_found'' 404)
                | Some n \<Rightarrow> Inr n)"

definition eligible_nodes ::
  "(string \<Rightarrow> string \<Rightarrow> rat) \<Rightarrow> authority \<Rightarrow> ms \<Rightarrow> id \<Rightarrow> string \<Rightarrow> id set \<Rightarrow> db \<Rightarrow> node_row list" where
  "eligible_nodes localeCompare auth now ws capability excluded db =
     js_sort (compareNodeCapacityLoad localeCompare)
       (filterAsync (\<lambda>n. n_id n \<notin> excluded \<and> nodeHasCapability n capability \<and> nodeReady auth now n \<and> nodeHasCapacity n)
         (filter (\<lambda>n. n_ws n = ws) (nodes db)))"

fun claim_first :: "authority \<Rightarrow> id \<Rightarrow> string \<Rightarrow> node_row list \<Rightarrow> db \<Rightarrow> placement_answer \<times> db" where
  "claim_first auth ws capability [] db = (Inl handler_unavailable, db)"
| "claim_first auth ws capability (n # ns) db =
     (case reserveNodeCapacity (auth \<noteq> None) ws (n_id n) db of
        (Some reserved, db') \<Rightarrow> (Inr \<lparr>pl_node = reserved, pl_capability = capability, pl_queued = False\<rparr>, db')
      | (None, db') \<Rightarrow> claim_first auth ws capability ns db')"

text \<open>The part after the preferred node.\<close>

definition claim_by_target ::
  "(string \<Rightarrow> string \<Rightarrow> rat) \<Rightarrow> authority \<Rightarrow> ms \<Rightarrow> id \<Rightarrow> placement_request \<Rightarrow> string \<Rightarrow> db \<Rightarrow> placement_answer \<times> db" where
  "claim_by_target localeCompare auth now ws request capability db =
     (let excluded = set (pr_excludeNodeIds request)
      in case request_target request of
           None \<Rightarrow> claim_first auth ws capability (eligible_nodes localeCompare auth now ws capability excluded db) db
         | Some target \<Rightarrow>
             if target = ''self''
             then (case caller_node db ws (pr_callerId request) of
                     Inl e \<Rightarrow> (Inl e, db) | Inr n \<Rightarrow> claim_target auth now ws capability excluded n db)
             else (case node_with_name db ws target of
                     None \<Rightarrow> (Inl (codedError ''node_not_found'' 404), db)
                   | Some n \<Rightarrow> claim_target auth now ws capability excluded n db))"

definition claimSpawnNode ::
  "(string \<Rightarrow> string \<Rightarrow> rat) \<Rightarrow> authority \<Rightarrow> ms \<Rightarrow> id \<Rightarrow> placement_request \<Rightarrow> db \<Rightarrow> placement_answer \<times> db" where
  "claimSpawnNode localeCompare auth now ws request db =
     (let capability = normalizeCapability ''spawn'' (pr_input request); excluded = set (pr_excludeNodeIds request)
      in case truthy (pr_preferredNodeId request) of
           None \<Rightarrow> claim_by_target localeCompare auth now ws request capability db
         | Some p \<Rightarrow>
             let node = node_with_id db ws p
             in case chooseLiveCandidate auth now ws capability excluded node db of
                  (Inl e, db') \<Rightarrow> (Inl e, db')
                | (Inr (Some r), db') \<Rightarrow> (Inr r, db')
                | (Inr None, db') \<Rightarrow>
                    case node of
                      None \<Rightarrow> claim_by_target localeCompare auth now ws request capability db'
                    | Some n \<Rightarrow>
                        if n_id n \<in> excluded then (Inl handler_unavailable, db')
                        else if nodeHasCapability n capability
                        then (Inr \<lparr>pl_node = n, pl_capability = capability, pl_queued = \<not> nodeReady auth now n\<rparr>, db')
                        else claim_by_target localeCompare auth now ws request capability db')"

subsection \<open>Choosing a node for an action\<close>

definition choose_target :: "authority \<Rightarrow> ms \<Rightarrow> string \<Rightarrow> id set \<Rightarrow> node_row \<Rightarrow> placement_answer" where
  "choose_target auth now capability excluded node =
     (if n_id node \<in> excluded then Inl handler_unavailable
      else if \<not> nodeHasCapability node capability then Inl (codedError ''capability_mismatch'' 409)
      else Inr \<lparr>pl_node = node, pl_capability = capability, pl_queued = \<not> nodeReady auth now node\<rparr>)"

definition choose_by_target ::
  "(string \<Rightarrow> string \<Rightarrow> rat) \<Rightarrow> authority \<Rightarrow> ms \<Rightarrow> id \<Rightarrow> placement_request \<Rightarrow> string \<Rightarrow> db \<Rightarrow> placement_answer" where
  "choose_by_target localeCompare auth now ws request capability db =
     (let excluded = set (pr_excludeNodeIds request)
      in case request_target request of
           None \<Rightarrow>
             (case eligible_nodes localeCompare auth now ws capability excluded db of
                [] \<Rightarrow> Inl handler_unavailable
              | n # _ \<Rightarrow> Inr \<lparr>pl_node = n, pl_capability = capability, pl_queued = False\<rparr>)
         | Some target \<Rightarrow>
             if target = ''self''
             then (case caller_node db ws (pr_callerId request) of
                     Inl e \<Rightarrow> Inl e | Inr n \<Rightarrow> choose_target auth now capability excluded n)
             else (case node_with_name db ws target of
                     None \<Rightarrow> Inl (codedError ''node_not_found'' 404)
                   | Some n \<Rightarrow> choose_target auth now capability excluded n))"

definition chooseNodeForAction ::
  "(string \<Rightarrow> string \<Rightarrow> rat) \<Rightarrow> authority \<Rightarrow> ms \<Rightarrow> id \<Rightarrow> placement_request \<Rightarrow> db \<Rightarrow> placement_answer" where
  "chooseNodeForAction localeCompare auth now ws request db =
     (let capability = normalizeCapability (pr_actionName request) (pr_input request);
          excluded = set (pr_excludeNodeIds request)
      in case truthy (pr_preferredNodeId request) of
           None \<Rightarrow> choose_by_target localeCompare auth now ws request capability db
         | Some p \<Rightarrow>
             case node_with_id db ws p of
               None \<Rightarrow> choose_by_target localeCompare auth now ws request capability db
             | Some n \<Rightarrow>
                 if nodeHasCapability n capability \<and> n_id n \<notin> excluded
                 then Inr \<lparr>pl_node = n, pl_capability = capability, pl_queued = \<not> nodeReady auth now n\<rparr>
                 else if n_id n \<in> excluded then Inl handler_unavailable
                 else choose_by_target localeCompare auth now ws request capability db)"

subsection \<open>A claim takes one slot of a suitable node\<close>

definition node_keys_ok :: "db \<Rightarrow> bool" where
  "node_keys_ok db \<longleftrightarrow> distinct (map n_id (nodes db))"

text \<open>What a claim that is not queued does: slot taken, from a node that fits.\<close>

definition slot_taken ::
  "authority \<Rightarrow> ms \<Rightarrow> id \<Rightarrow> string \<Rightarrow> id set \<Rightarrow> db \<Rightarrow> node_row \<Rightarrow> db \<Rightarrow> bool" where
  "slot_taken auth now ws capability excluded db chosen db' \<longleftrightarrow>
     (\<exists>n \<in> set (nodes db). chosen = add_reserved n \<and> n_ws n = ws \<and> nodeHasCapability n capability \<and> n_id n \<notin> excluded
       \<and> nodeReady auth now n \<and> nodeHasCapacity n
       \<and> db' = db\<lparr>nodes := upd_where (\<lambda>m. n_id m = n_id n) add_reserved (nodes db)\<rparr>)"

definition claim_ok ::
  "authority \<Rightarrow> ms \<Rightarrow> id \<Rightarrow> string \<Rightarrow> id set \<Rightarrow> db \<Rightarrow> placement_answer \<times> db \<Rightarrow> bool" where
  "claim_ok auth now ws capability excluded db r \<longleftrightarrow>
     (case r of
        (Inl _, db') \<Rightarrow> db' = db
      | (Inr p, db') \<Rightarrow> pl_capability p = capability \<and>
          (if pl_queued p
           then db' = db \<and> pl_node p \<in> set (nodes db) \<and> n_ws (pl_node p) = ws \<and> \<not> nodeReady auth now (pl_node p)
             \<and> nodeHasCapability (pl_node p) capability \<and> n_id (pl_node p) \<notin> excluded
           else slot_taken auth now ws capability excluded db (pl_node p) db'))"

lemma node_with_id_Some: "node_with_id db ws i = Some n \<Longrightarrow> n \<in> set (nodes db) \<and> n_ws n = ws \<and> n_id n = i"
  unfolding node_with_id_def by (drule first_row_Some) simp

lemma node_with_name_Some: "node_with_name db ws i = Some n \<Longrightarrow> n \<in> set (nodes db) \<and> n_ws n = ws \<and> n_name n = i"
  unfolding node_with_name_def by (drule first_row_Some) simp

lemma caller_node_Inr: "caller_node db ws c = Inr n \<Longrightarrow> n \<in> set (nodes db) \<and> n_ws n = ws"
  by (auto simp: caller_node_def split: option.splits if_splits dest!: node_with_id_Some)

lemma reserve_node:
  assumes keys: "node_keys_ok db" and n: "n \<in> set (nodes db)" "n_ws n = ws"
  shows "reserveNodeCapacity authority ws (n_id n) db =
     (if reserve_where authority ws (n_id n) n
      then (Some (add_reserved n), db\<lparr>nodes := upd_where (\<lambda>m. n_id m = n_id n) add_reserved (nodes db)\<rparr>)
      else (None, db))"
proof -
  have same: "m = n" if "m \<in> set (nodes db)" "n_id m = n_id n" for m
    using keys that n(1) by (auto simp: node_keys_ok_def distinct_map dest: inj_onD)
  have one: "filter (\<lambda>m. n_id m = n_id n) (nodes db) = [n]"
    using keys n(1) by (simp add: node_keys_ok_def filter_key_singleton)
  show ?thesis
  proof (cases "reserve_where authority ws (n_id n) n")
    case True
    have iff: "reserve_where authority ws (n_id n) m \<longleftrightarrow> n_id m = n_id n" if "m \<in> set (nodes db)" for m
      using True same [OF that] by (auto simp: reserve_where_def)
    have "filter (reserve_where authority ws (n_id n)) (nodes db) = [n]"
      using one by (simp add: iff cong: filter_cong)
    moreover have "upd_where (reserve_where authority ws (n_id n)) add_reserved (nodes db)
        = upd_where (\<lambda>m. n_id m = n_id n) add_reserved (nodes db)"
      by (intro upd_where_cong iff)
    ultimately show ?thesis using True by (simp add: reserveNodeCapacity_def returning_def)
  next
    case False
    have no: "\<not> reserve_where authority ws (n_id n) m" if "m \<in> set (nodes db)" for m
      using False same [OF that] by (auto simp: reserve_where_def)
    then have "filter (reserve_where authority ws (n_id n)) (nodes db) = []" by (simp add: filter_empty_conv)
    moreover have "upd_where (reserve_where authority ws (n_id n)) add_reserved (nodes db) = nodes db"
      by (intro upd_where_id no)
    ultimately show ?thesis using False by (simp add: reserveNodeCapacity_def returning_def)
  qed
qed

lemma ready_reserves:
  assumes "nodeReady auth now n" "n_ws n = ws"
  shows "reserve_where (auth \<noteq> None) ws (n_id n) n \<longleftrightarrow> nodeHasCapacity n"
  using assms
  by (auto simp: nodeReady_def reserve_where_def nodeHasCapacity_def inspectNodeLiveness_def isNodeLive_def
      split: option.splits)

lemma chooseLiveCandidate_ok:
  assumes keys: "node_keys_ok db" and n: "n \<in> set (nodes db)" "n_ws n = ws"
  shows "chooseLiveCandidate auth now ws capability excluded (Some n) db =
    (if \<not> nodeHasCapability n capability \<or> n_id n \<in> excluded then (Inr None, db)
     else if \<not> nodeReady auth now n then (Inr (Some \<lparr>pl_node = n, pl_capability = capability, pl_queued = True\<rparr>), db)
     else if nodeHasCapacity n
     then (Inr (Some \<lparr>pl_node = add_reserved n, pl_capability = capability, pl_queued = False\<rparr>),
           db\<lparr>nodes := upd_where (\<lambda>m. n_id m = n_id n) add_reserved (nodes db)\<rparr>)
     else (Inl handler_unavailable, db))"
  using ready_reserves [of auth now n ws] n(2)
  by (simp add: chooseLiveCandidate_def reserve_node [OF keys n])

lemma claim_target_ok:
  assumes "node_keys_ok db" "n \<in> set (nodes db)" "n_ws n = ws"
  shows "claim_ok auth now ws capability excluded db (claim_target auth now ws capability excluded n db)"
  using assms(2,3) unfolding claim_target_def chooseLiveCandidate_ok [OF assms]
  by (auto simp: claim_ok_def slot_taken_def)

lemma claim_first_ok:
  assumes keys: "node_keys_ok db"
    and fit: "\<And>n. n \<in> set ns \<Longrightarrow> n \<in> set (nodes db) \<and> n_ws n = ws \<and> nodeHasCapability n capability \<and> n_id n \<notin> excluded
        \<and> nodeReady auth now n \<and> nodeHasCapacity n"
  shows "claim_first auth ws capability ns db =
    (case ns of [] \<Rightarrow> (Inl handler_unavailable, db)
     | n # _ \<Rightarrow> (Inr \<lparr>pl_node = add_reserved n, pl_capability = capability, pl_queued = False\<rparr>,
                db\<lparr>nodes := upd_where (\<lambda>m. n_id m = n_id n) add_reserved (nodes db)\<rparr>))"
proof (cases ns)
  case (Cons n ns')
  with fit [of n] have n: "n \<in> set (nodes db)" "n_ws n = ws" "nodeReady auth now n" "nodeHasCapacity n" by auto
  then show ?thesis using Cons ready_reserves [OF n(3,2)] by (simp add: reserve_node [OF keys n(1,2)])
qed simp

lemma set_eligible:
  "n \<in> set (eligible_nodes lc auth now ws capability excluded db) \<longleftrightarrow>
     n \<in> set (nodes db) \<and> n_ws n = ws \<and> nodeHasCapability n capability \<and> n_id n \<notin> excluded
        \<and> nodeReady auth now n \<and> nodeHasCapacity n"
  by (auto simp: eligible_nodes_def)

lemma claim_by_target_ok:
  assumes keys: "node_keys_ok db"
  shows "claim_ok auth now ws capability (set (pr_excludeNodeIds r)) db (claim_by_target lc auth now ws r capability db)"
proof (cases "request_target r")
  case None
  let ?ns = "eligible_nodes lc auth now ws capability (set (pr_excludeNodeIds r)) db"
  have fit: "\<And>n. n \<in> set ?ns \<Longrightarrow> n \<in> set (nodes db) \<and> n_ws n = ws \<and> nodeHasCapability n capability
      \<and> n_id n \<notin> set (pr_excludeNodeIds r) \<and> nodeReady auth now n \<and> nodeHasCapacity n"
    by (simp add: set_eligible)
  have "\<And>n. n \<in> set ?ns \<Longrightarrow> slot_taken auth now ws capability (set (pr_excludeNodeIds r)) db (add_reserved n)
      (db\<lparr>nodes := upd_where (\<lambda>m. n_id m = n_id n) add_reserved (nodes db)\<rparr>)"
    using fit by (auto simp: slot_taken_def)
  then show ?thesis
    using None claim_first_ok [OF keys fit] by (auto simp: claim_by_target_def Let_def claim_ok_def split: list.splits)
next
  case (Some t)
  then show ?thesis
    using claim_target_ok [OF keys] caller_node_Inr node_with_name_Some
    by (auto simp: claim_by_target_def Let_def split: sum.splits option.splits) (auto simp: claim_ok_def)
qed

lemma claimSpawnNode_ok:
  assumes keys: "node_keys_ok db"
  shows "claim_ok auth now ws (normalizeCapability ''spawn'' (pr_input r)) (set (pr_excludeNodeIds r)) db
    (claimSpawnNode lc auth now ws r db)"
proof (cases "truthy (pr_preferredNodeId r)")
  case None
  then show ?thesis using claim_by_target_ok [OF keys] by (simp add: claimSpawnNode_def Let_def)
next
  case (Some p)
  show ?thesis
  proof (cases "node_with_id db ws p")
    case None
    with Some show ?thesis
      using claim_by_target_ok [OF keys] by (simp add: claimSpawnNode_def Let_def chooseLiveCandidate_def)
  next
    case n: (Some n)
    then have "n \<in> set (nodes db)" "n_ws n = ws" by (auto dest: node_with_id_Some)
    then show ?thesis
      using Some n claim_by_target_ok [OF keys] chooseLiveCandidate_ok [OF keys]
      by (auto simp: claimSpawnNode_def Let_def claim_ok_def slot_taken_def)
  qed
qed

text \<open>Every node holds no more agents and reservations than it has slots.\<close>

definition slots_ok :: "db \<Rightarrow> bool" where
  "slots_ok db \<longleftrightarrow> list_all (\<lambda>n. n_maxAgents n = 0 \<or> n_activeAgents n + n_reservedAgents n \<le> n_maxAgents n) (nodes db)"

lemma slots_ok_taken:
  assumes "node_keys_ok db" "slots_ok db" "slot_taken auth now ws capability excluded db chosen db'"
  shows "slots_ok db'"
proof -
  obtain n where n: "n \<in> set (nodes db)" "nodeHasCapacity n"
      "db' = db\<lparr>nodes := upd_where (\<lambda>m. n_id m = n_id n) add_reserved (nodes db)\<rparr>"
    using assms(3) by (auto simp: slot_taken_def)
  have "m = n" if "m \<in> set (nodes db)" "n_id m = n_id n" for m
    using assms(1) that n(1) by (auto simp: node_keys_ok_def distinct_map dest: inj_onD)
  then show ?thesis
    using assms(2) n by (force simp: slots_ok_def list_all_iff nodeHasCapacity_def add_reserved_def elim!: in_upd_whereE)
qed

lemma slots_ok_claim: "node_keys_ok db \<Longrightarrow> slots_ok db \<Longrightarrow> claim_ok auth now ws capability excluded db (ans, db') \<Longrightarrow> slots_ok db'"
  by (auto simp: claim_ok_def split: sum.splits if_splits intro: slots_ok_taken)

text \<open>Claiming a node for a spawn takes exactly one slot or none. Refused, the database is unchanged.
  Queued, it is unchanged too, and the node returned is one of the workspace that has the capability and is
  not ready. Otherwise one node that was ready, has the capability, was not excluded and had a free slot
  gets one more reservation, no other node changes, and that node is returned. No node is overcommitted by
  a claim.\<close>
theorem claimSpawnNode_takes_one_slot:
  assumes "node_keys_ok db" "claimSpawnNode lc auth now ws r db = (ans, db')"
  shows "(case ans of
      Inl _ \<Rightarrow> db' = db
    | Inr p \<Rightarrow>
        if pl_queued p
        then db' = db \<and> pl_node p \<in> set (nodes db) \<and> n_ws (pl_node p) = ws \<and> \<not> nodeReady auth now (pl_node p)
          \<and> nodeHasCapability (pl_node p) (pl_capability p) \<and> n_id (pl_node p) \<notin> set (pr_excludeNodeIds r)
        else \<exists>n \<in> set (nodes db). pl_node p = add_reserved n \<and> n_ws n = ws \<and> nodeHasCapability n (pl_capability p)
          \<and> n_id n \<notin> set (pr_excludeNodeIds r) \<and> nodeReady auth now n \<and> nodeHasCapacity n
          \<and> db' = db\<lparr>nodes := upd_where (\<lambda>m. n_id m = n_id n) add_reserved (nodes db)\<rparr>)
    \<and> (slots_ok db \<longrightarrow> slots_ok db')"
proof -
  have ok: "claim_ok auth now ws (normalizeCapability ''spawn'' (pr_input r)) (set (pr_excludeNodeIds r)) db (ans, db')"
    using claimSpawnNode_ok [OF assms(1), of auth now ws r lc] assms(2) by simp
  then have "slots_ok db \<longrightarrow> slots_ok db'" using slots_ok_claim [OF assms(1)] by blast
  with ok show ?thesis by (auto simp: claim_ok_def slot_taken_def split: sum.splits if_splits)
qed

definition ex_fleet :: db where
  "ex_fleet = \<lparr>agents = [], deliveries = [], messages = [], channelMembers = [], dmConversations = [], dmParticipants = [],
     readReceipts = [], agentNodeBindings = [],
     nodes = [(ex_node ''n1'' ''al'')\<lparr>n_load := 3\<rparr>, ex_node ''n2'' ''bo'', (ex_node ''n3'' ''cy'')\<lparr>n_activeAgents := 2\<rparr>],
     nodeProviders = [], actions = [], invocations = []\<rparr>"

definition ex_request :: placement_request where
  "ex_request = \<lparr>pr_actionName = ''spawn'', pr_input = [(''cli'', JStr '' claude'')], pr_callerId = None,
     pr_preferredNodeId = None, pr_excludeNodeIds = []\<rparr>"

definition ex_collate :: "string \<Rightarrow> string \<Rightarrow> rat" where
  "ex_collate x y = (if x < y then -1 else if y < x then 1 else 0)"

lemma ex_eligible:
  "eligible_nodes ex_collate None 120000 ''w'' ''spawn:claude'' {} ex_fleet
     = [ex_node ''n2'' ''bo'', (ex_node ''n1'' ''al'')\<lparr>n_load := 3\<rparr>]"
  by (simp add: eligible_nodes_def ex_fleet_def ex_node_def js_sort_def compareNodeCapacityLoad_def num_or_def
      nodeHasCapability_def item_name_def nodeReady_def inspectNodeLiveness_def isNodeLive_def recent_def
      NODE_LIVENESS_TTL_MS_def nodeHasCapacity_def)

lemma ex_capability:
  "normalizeCapability ''spawn'' (pr_input ex_request) = ''spawn:claude''" "request_target ex_request = None"
  by (simp_all add: ex_request_def normalizeCapability_def nullish_def trim_def is_ws_def starts_with_def
      request_target_def normalizeTarget_def)

lemma ex_fleet_keys: "node_keys_ok ex_fleet"
  by (simp add: node_keys_ok_def ex_fleet_def ex_node_def)

lemma ex_claim:
  "claimSpawnNode ex_collate None 120000 ''w'' ex_request ex_fleet =
    (Inr \<lparr>pl_node = add_reserved (ex_node ''n2'' ''bo''), pl_capability = ''spawn:claude'', pl_queued = False\<rparr>,
     ex_fleet\<lparr>nodes := upd_where (\<lambda>m. n_id m = ''n2'') add_reserved (nodes ex_fleet)\<rparr>)"
proof -
  have "reserve_where False ''w'' ''n2'' (ex_node ''n2'' ''bo'')" by (simp add: reserve_where_def ex_node_def)
  moreover have "ex_node ''n2'' ''bo'' \<in> set (nodes ex_fleet)" "n_ws (ex_node ''n2'' ''bo'') = ''w''"
      "n_id (ex_node ''n2'' ''bo'') = ''n2''"
    by (simp_all add: ex_fleet_def ex_node_def)
  ultimately show ?thesis
    using reserve_node [OF ex_fleet_keys, of "ex_node ''n2'' ''bo''" "''w''" False]
    by (simp add: claimSpawnNode_def claim_by_target_def ex_capability Let_def ex_request_def [THEN arg_cong [of _ _ pr_preferredNodeId]]
        ex_request_def [THEN arg_cong [of _ _ pr_excludeNodeIds]] truthy_def ex_eligible)
qed

theorem claimSpawnNode_takes_one_slot_witness:
  "slots_ok (snd (claimSpawnNode ex_collate None 120000 ''w'' ex_request ex_fleet))
   \<and> \<not> pl_queued (projr (fst (claimSpawnNode ex_collate None 120000 ''w'' ex_request ex_fleet)))"
proof -
  have "slots_ok ex_fleet" by (simp add: slots_ok_def ex_fleet_def ex_node_def)
  then show ?thesis
    using claimSpawnNode_takes_one_slot [OF ex_fleet_keys, OF ex_claim] unfolding ex_claim by simp
qed

subsection \<open>Claiming and choosing agree\<close>

lemma claim_choose_target:
  assumes "node_keys_ok db" "n \<in> set (nodes db)" "n_ws n = ws"
    "claim_target auth now ws capability excluded n db = (Inr p, db')"
  shows "\<exists>q. choose_target auth now capability excluded n = Inr q \<and> n_id (pl_node q) = n_id (pl_node p)
     \<and> pl_capability q = pl_capability p \<and> pl_queued q = pl_queued p"
  using assms(4) unfolding claim_target_def chooseLiveCandidate_ok [OF assms(1-3)] choose_target_def
  by (auto simp: add_reserved_def split: if_splits)

lemma claim_choose_by_target:
  assumes keys: "node_keys_ok db" and "claim_by_target lc auth now ws r capability db = (Inr p, db')"
  shows "\<exists>q. choose_by_target lc auth now ws r capability db = Inr q \<and> n_id (pl_node q) = n_id (pl_node p)
     \<and> pl_capability q = pl_capability p \<and> pl_queued q = pl_queued p"
proof (cases "request_target r")
  case None
  let ?ns = "eligible_nodes lc auth now ws capability (set (pr_excludeNodeIds r)) db"
  have fit: "\<And>n. n \<in> set ?ns \<Longrightarrow> n \<in> set (nodes db) \<and> n_ws n = ws \<and> nodeHasCapability n capability
      \<and> n_id n \<notin> set (pr_excludeNodeIds r) \<and> nodeReady auth now n \<and> nodeHasCapacity n"
    by (simp add: set_eligible)
  show ?thesis
    using None assms(2) claim_first_ok [OF keys fit]
    by (auto simp: claim_by_target_def choose_by_target_def Let_def add_reserved_def split: list.splits)
next
  case (Some t)
  then show ?thesis
    using assms(2) claim_choose_target [OF keys] caller_node_Inr node_with_name_Some
    by (fastforce simp: claim_by_target_def choose_by_target_def Let_def split: sum.splits option.splits if_splits)
qed

text \<open>C31: \<open>claimSpawnNode\<close> and \<open>chooseNodeForAction\<close> implement one placement policy: whenever a spawn can
  claim a node, choosing a node for the same request on the same database names the same node, with the same
  capability and the same decision to queue; the claim differs only by the reservation it takes.\<close>
theorem claim_refines_choice:
  assumes "node_keys_ok db" "pr_actionName r = ''spawn''" "claimSpawnNode lc auth now ws r db = (Inr p, db')"
  shows "\<exists>q. chooseNodeForAction lc auth now ws r db = Inr q \<and> n_id (pl_node q) = n_id (pl_node p)
     \<and> pl_capability q = pl_capability p \<and> pl_queued q = pl_queued p"
proof (cases "truthy (pr_preferredNodeId r)")
  case None
  then show ?thesis
    using assms claim_choose_by_target [OF assms(1)] by (simp add: claimSpawnNode_def chooseNodeForAction_def Let_def)
next
  case (Some i)
  show ?thesis
  proof (cases "node_with_id db ws i")
    case None
    with Some show ?thesis
      using assms claim_choose_by_target [OF assms(1)]
      by (simp add: claimSpawnNode_def chooseNodeForAction_def Let_def chooseLiveCandidate_def)
  next
    case n: (Some n)
    then have "n \<in> set (nodes db)" "n_ws n = ws" by (auto dest: node_with_id_Some)
    note live = chooseLiveCandidate_ok [OF assms(1) this]
    show ?thesis
      using Some n assms claim_choose_by_target [OF assms(1)]
      by (auto simp: claimSpawnNode_def chooseNodeForAction_def Let_def live add_reserved_def split: if_splits)
  qed
qed

theorem claim_refines_choice_witness:
  "n_id (pl_node (projr (chooseNodeForAction ex_collate None 120000 ''w'' ex_request ex_fleet))) = ''n2''"
  using claim_refines_choice [OF ex_fleet_keys _ ex_claim] by (auto simp: ex_request_def ex_node_def add_reserved_def)

subsection \<open>The least loaded candidate\<close>

definition collation :: "(string \<Rightarrow> string \<Rightarrow> rat) \<Rightarrow> bool" where
  "collation lc \<longleftrightarrow> (\<forall>x y. lc x y \<le> 0 \<or> lc y x \<le> 0) \<and> (\<forall>x y z. lc x y \<le> 0 \<longrightarrow> lc y z \<le> 0 \<longrightarrow> lc x z \<le> 0)"

definition load_key :: "node_row \<Rightarrow> bool \<times> rat \<times> int" where
  "load_key n = (\<not> n_loadReported n, n_load n, n_activeAgents n + n_reservedAgents n)"

lemma compare_load:
  "compareNodeCapacityLoad lc a b \<le> 0 \<longleftrightarrow> load_key a < load_key b \<or> (load_key a = load_key b \<and> lc (n_name a) (n_name b) \<le> 0)"
  by (auto simp: compareNodeCapacityLoad_def num_or_def load_key_def less_prod_def less_eq_prod_def)

lemma eligible_sorted:
  assumes "collation lc"
  shows "sorted_wrt (\<lambda>a b. compareNodeCapacityLoad lc a b \<le> 0) (eligible_nodes lc auth now ws capability excluded db)"
  unfolding eligible_nodes_def
proof (rule sorted_js_sort)
  have total: "lc x y \<le> 0 \<or> lc y x \<le> 0" and trans: "lc x y \<le> 0 \<Longrightarrow> lc y z \<le> 0 \<Longrightarrow> lc x z \<le> 0" for x y z
    using assms by (auto simp: collation_def)
  show "compareNodeCapacityLoad lc x y \<le> 0 \<or> compareNodeCapacityLoad lc y x \<le> 0" for x y
    using total [of "n_name x" "n_name y"] linorder_less_linear [of "load_key x" "load_key y"]
    unfolding compare_load by auto
  show "compareNodeCapacityLoad lc x z \<le> 0" if "compareNodeCapacityLoad lc x y \<le> 0" "compareNodeCapacityLoad lc y z \<le> 0" for x y z
    using that trans [of "n_name x" "n_name y" "n_name z"] order_less_trans [of "load_key x" "load_key y" "load_key z"]
    unfolding compare_load by auto
qed

text \<open>With no preferred node and no target, the node of an action is the best of the fleet: every other
  node of the workspace that is ready, has the capability, is not excluded and has a free slot reports its
  load only if the chosen one does, and then comes no earlier by load, agent count and name.\<close>
theorem choice_is_least_loaded:
  assumes "collation lc" "truthy (pr_preferredNodeId r) = None" "request_target r = None"
    "chooseNodeForAction lc auth now ws r db = Inr p"
    and m: "m \<in> set (nodes db)" "n_ws m = ws" "nodeHasCapability m (pl_capability p)" "n_id m \<notin> set (pr_excludeNodeIds r)"
      "nodeReady auth now m" "nodeHasCapacity m"
  shows "load_key (pl_node p) < load_key m \<or>
    (load_key (pl_node p) = load_key m \<and> lc (n_name (pl_node p)) (n_name m) \<le> 0)"
proof -
  let ?c = "normalizeCapability (pr_actionName r) (pr_input r)"
  obtain n ns where ns: "eligible_nodes lc auth now ws ?c (set (pr_excludeNodeIds r)) db = n # ns"
      and p: "p = \<lparr>pl_node = n, pl_capability = ?c, pl_queued = False\<rparr>"
    using assms(2-4) by (auto simp: chooseNodeForAction_def choose_by_target_def Let_def split: list.splits)
  have "m \<in> set (n # ns)" unfolding ns [symmetric] set_eligible using m p by simp
  moreover have "sorted_wrt (\<lambda>a b. compareNodeCapacityLoad lc a b \<le> 0) (n # ns)"
    unfolding ns [symmetric] by (rule eligible_sorted [OF assms(1)])
  moreover have "compareNodeCapacityLoad lc n n \<le> 0"
    using assms(1) by (auto simp: compare_load collation_def)
  ultimately have "compareNodeCapacityLoad lc n m \<le> 0" by auto
  then show ?thesis unfolding compare_load p by simp
qed

theorem choice_is_least_loaded_witness:
  "load_key (ex_node ''n2'' ''bo'') < load_key ((ex_node ''n1'' ''al'')\<lparr>n_load := 3\<rparr>)"
proof -
  let ?m = "(ex_node ''n1'' ''al'')\<lparr>n_load := 3\<rparr>"
  have choice: "chooseNodeForAction ex_collate None 120000 ''w'' ex_request ex_fleet
      = Inr \<lparr>pl_node = ex_node ''n2'' ''bo'', pl_capability = ''spawn:claude'', pl_queued = False\<rparr>"
    using ex_capability
    by (simp add: chooseNodeForAction_def choose_by_target_def Let_def truthy_def ex_eligible ex_request_def)
  have "collation ex_collate" by (auto simp: collation_def ex_collate_def)
  then show ?thesis
    using choice_is_least_loaded [OF _ _ _ choice, of ?m] ex_capability
      set_eligible [of ?m ex_collate None 120000 "''w''" "''spawn:claude''" "{}" ex_fleet]
    by (auto simp: ex_eligible truthy_def ex_request_def load_key_def ex_node_def)
qed

end
