(* ===== verification/NodeProvider.thy ===== *)
theory NodeProvider
  imports Placement
begin

text \<open>
  The providers of a broker node (\<open>engine/nodeProvider.ts\<close>): their rows, the actions they materialise,
  the workspace-global alias of an action name, and the aggregate columns of the node, together with the
  triggers of migration 0071 that stamp liveness revisions. A generated identifier is a parameter. The
  unique indexes of the tables are invariants here: \<open>materialize_settles_aliases\<close> shows that no write of
  a materialisation would violate them. How SQLite picks the entry that represents a capability name in
  the union manifest is a parameter of \<open>refreshNodeAggregate\<close>.
\<close>

definition DEFAULT_PROVIDER_NAME :: string where "DEFAULT_PROVIDER_NAME = ''default''"

subsection \<open>Capabilities\<close>

definition capabilityKind :: "manifest_item \<Rightarrow> string" where
  "capabilityKind capability =
     (let name = (case capability of CapName s \<Rightarrow> s | CapObj c \<Rightarrow> cap_name c);
          declared = (case capability of CapName _ \<Rightarrow> None | CapObj c \<Rightarrow> cap_kind c)
      in if declared = Some ''action'' \<or> declared = Some ''capacity'' then the declared
         else if name = ''spawn'' \<or> name = ''release'' \<or> starts_with ''spawn:'' name then ''capacity''
         else ''action'')"

abbreviation is_action :: "fleet_capability \<Rightarrow> bool" where
  "is_action c \<equiv> capabilityKind (CapObj c) = ''action''"

text \<open>The values of a \<open>Map\<close> built from the entries: the position of the first, the value of the last.\<close>

definition map_values :: "('a \<Rightarrow> 'k) \<Rightarrow> 'a list \<Rightarrow> 'a list" where
  "map_values key xs = map (\<lambda>k. last (filter (\<lambda>x. key x = k) xs)) (uniq (map key xs))"

definition effectiveActionCapabilities :: "fleet_capability list \<Rightarrow> fleet_capability list" where
  "effectiveActionCapabilities capabilities = map_values cap_name (filter is_action capabilities)"

definition assertActionTaskMode :: "fleet_capability list \<Rightarrow> coded option" where
  "assertActionTaskMode capabilities =
     (if list_ex (\<lambda>c. cap_executionMode c = Some ''task'' \<and> \<not> is_action c) capabilities
      then Some (codedError ''invalid_task_capability'' 400) else None)"

subsection \<open>Provider rows\<close>

definition listProviders :: "db \<Rightarrow> id \<Rightarrow> id \<Rightarrow> provider_row list" where
  "listProviders db ws nodeId = filter (\<lambda>p. p_ws p = ws \<and> p_nodeId p = nodeId) (nodeProviders db)"

definition getProvider :: "db \<Rightarrow> id \<Rightarrow> id \<Rightarrow> string \<Rightarrow> provider_row option" where
  "getProvider db ws nodeId name =
     first_row (filter (\<lambda>p. p_ws p = ws \<and> p_nodeId p = nodeId \<and> p_name p = name) (nodeProviders db))"

definition capacityProviderName :: "db \<Rightarrow> id \<Rightarrow> id \<Rightarrow> string \<Rightarrow> string option" where
  "capacityProviderName db ws nodeId capability =
     map_option p_name (first_row (filter
       (\<lambda>p. list_ex (\<lambda>c. cap_name c = capability \<and> capabilityKind (CapObj c) = ''capacity'') (p_capabilities p))
       (listProviders db ws nodeId)))"

text \<open>
  The triggers \<open>node_providers_stamp_liveness_revision_*\<close>: a provider row whose liveness is written is one
  generation above its node.
\<close>

definition node_revision :: "db \<Rightarrow> id \<Rightarrow> id \<Rightarrow> int option" where
  "node_revision db ws nodeId =
     map_option n_livenessRevision (first_row (filter (\<lambda>n. n_ws n = ws \<and> n_id n = nodeId) (nodes db)))"

definition stamp_provider :: "db \<Rightarrow> int \<Rightarrow> provider_row \<Rightarrow> provider_row" where
  "stamp_provider db fallback p =
     p\<lparr>p_livenessRevision := (case node_revision db (p_ws p) (p_nodeId p) of Some r \<Rightarrow> r + 1 | None \<Rightarrow> fallback)\<rparr>"

definition update_providers :: "(provider_row \<Rightarrow> bool) \<Rightarrow> (provider_row \<Rightarrow> provider_row) \<Rightarrow> db \<Rightarrow> db" where
  "update_providers P f db =
     db\<lparr>nodeProviders := upd_where P (\<lambda>p. stamp_provider db (p_livenessRevision p + 1) (f p)) (nodeProviders db)\<rparr>"

record provider_registration =
  pg_name :: string
  pg_instanceId :: string
  pg_capabilities :: "fleet_capability list"
  pg_maxAgents :: int
  pg_version :: string
  pg_handlersLive :: bool

definition upsertProvider :: "ms \<Rightarrow> id \<Rightarrow> id \<Rightarrow> id \<Rightarrow> provider_registration \<Rightarrow> db \<Rightarrow> db" where
  "upsertProvider now freshId ws nodeId data db =
     (case getProvider db ws nodeId (pg_name data) of
        Some existing \<Rightarrow>
          update_providers (\<lambda>p. p_id p = p_id existing)
            (\<lambda>p. p\<lparr>p_instanceId := pg_instanceId data, p_capabilities := pg_capabilities data, p_maxAgents := pg_maxAgents data,
                   p_version := pg_version data, p_load := 0, p_loadReported := False, p_handlersLive := pg_handlersLive data,
                   p_status := ''online'', p_lastHeartbeatAt := Some (toSec now)\<rparr>) db
      | None \<Rightarrow>
          db\<lparr>nodeProviders := nodeProviders db @ [stamp_provider db 1
            \<lparr>p_ws = ws, p_nodeId = nodeId, p_name = pg_name data, p_status = ''online'', p_lastHeartbeatAt = Some (toSec now),
             p_id = ''nprov_'' @ freshId, p_instanceId = pg_instanceId data, p_capabilities = pg_capabilities data,
             p_maxAgents = pg_maxAgents data, p_activeAgents = 0, p_load = 0, p_loadReported = False,
             p_handlersLive = pg_handlersLive data, p_version = pg_version data, p_livenessRevision = 0\<rparr>]\<rparr>)"

text \<open>The load of a heartbeat is missing, \<open>null\<close> or a number; the flag may be missing.\<close>

definition heartbeatProvider ::
  "ms \<Rightarrow> id \<Rightarrow> id \<Rightarrow> string \<Rightarrow> rat option \<Rightarrow> bool option \<Rightarrow> int \<Rightarrow> bool \<Rightarrow> db \<Rightarrow> db" where
  "heartbeatProvider now ws nodeId name load loadReported activeAgents handlersLive db =
     (let measured = (loadReported = Some True \<and> load \<noteq> None)
      in update_providers (\<lambda>p. p_ws p = ws \<and> p_nodeId p = nodeId \<and> p_name p = name)
           (\<lambda>p. p\<lparr>p_load := (if measured then the load else 0), p_loadReported := measured, p_activeAgents := activeAgents,
                  p_handlersLive := handlersLive, p_status := ''online'', p_lastHeartbeatAt := Some (toSec now)\<rparr>) db)"

definition markProviderOffline :: "ms \<Rightarrow> id \<Rightarrow> id \<Rightarrow> string \<Rightarrow> db \<Rightarrow> db" where
  "markProviderOffline now ws nodeId name db =
     update_providers (\<lambda>p. p_ws p = ws \<and> p_nodeId p = nodeId \<and> p_name p = name)
       (\<lambda>p. p\<lparr>p_status := ''offline'', p_handlersLive := False, p_load := 0, p_loadReported := False, p_activeAgents := 0,
              p_lastHeartbeatAt := Some (toSec now)\<rparr>) db"

subsection \<open>The workspace-global alias of an action name\<close>

definition default_row :: "id \<Rightarrow> action_row \<Rightarrow> bool" where
  "default_row ws a \<longleftrightarrow> ac_ws a = ws \<and> ac_handlerNodeId a \<noteq> None \<and> ac_handlerProvider a = Some DEFAULT_PROVIDER_NAME"

definition claimant :: "id \<Rightarrow> string \<Rightarrow> action_row \<Rightarrow> bool" where
  "claimant ws name a \<longleftrightarrow> ac_ws a = ws \<and> ac_name a = name \<and> (ac_handlerNodeId a = None \<or> ac_isGlobal a)"

definition oldest_default :: "id \<Rightarrow> string \<Rightarrow> action_row list \<Rightarrow> action_row option" where
  "oldest_default ws name rows =
     first_row (order_limit (\<lambda>a. (ac_createdAt a, ac_id a)) 1 (filter (\<lambda>a. default_row ws a \<and> ac_name a = name) rows))"

definition orphanedAliasClaimants :: "id \<Rightarrow> action_row list \<Rightarrow> id list" where
  "orphanedAliasClaimants ws rows =
     concat (map (\<lambda>name. case oldest_default ws name rows of None \<Rightarrow> [] | Some a \<Rightarrow> [ac_id a])
       (filter (\<lambda>name. \<not> list_ex (claimant ws name) rows)
         (uniq (map ac_name (filter (\<lambda>a. default_row ws a \<and> \<not> ac_isGlobal a) rows)))))"

definition claimOrphanedGlobalAliases :: "id \<Rightarrow> action_row list \<Rightarrow> action_row list" where
  "claimOrphanedGlobalAliases ws rows =
     upd_where (\<lambda>a. ac_id a \<in> set (orphanedAliasClaimants ws rows)) (\<lambda>a. a\<lparr>ac_isGlobal := True\<rparr>) rows"

text \<open>A write and the settlement after it; a transaction, a batch and a bare handle run both in this order.\<close>

definition withAliasSettlement :: "id \<Rightarrow> (action_row list \<Rightarrow> action_row list) \<Rightarrow> action_row list \<Rightarrow> action_row list" where
  "withAliasSettlement ws write rows = claimOrphanedGlobalAliases ws (write rows)"

definition removeProvider :: "id \<Rightarrow> id \<Rightarrow> string \<Rightarrow> db \<Rightarrow> db" where
  "removeProvider ws nodeId name db =
     db\<lparr>actions := claimOrphanedGlobalAliases ws (filter (\<lambda>a. \<not> (ac_ws a = ws \<and> ac_handlerNodeId a = Some nodeId
          \<and> ac_handlerProvider a = Some name)) (actions db)),
        nodeProviders := filter (\<lambda>p. \<not> (p_ws p = ws \<and> p_nodeId p = nodeId \<and> p_name p = name)) (nodeProviders db)\<rparr>"

subsection \<open>Materialising the actions of a provider\<close>

definition prune :: "id \<Rightarrow> id \<Rightarrow> string \<Rightarrow> string list \<Rightarrow> action_row list \<Rightarrow> action_row list" where
  "prune ws nodeId providerName keepNames rows =
     filter (\<lambda>a. \<not> (ac_ws a = ws \<and> ac_handlerNodeId a = Some nodeId \<and> ac_handlerProvider a = Some providerName
        \<and> ac_name a \<notin> set keepNames)) rows"

definition action_name_conflict :: coded where
  "action_name_conflict = codedError ''action_name_conflict'' 409"

definition agent_hosted :: "id \<Rightarrow> string \<Rightarrow> action_row list \<Rightarrow> bool" where
  "agent_hosted ws name rows \<longleftrightarrow> list_ex (\<lambda>a. ac_ws a = ws \<and> ac_name a = name \<and> ac_handlerNodeId a = None) rows"

text \<open>Whether the row of a capability is to hold the alias.\<close>

definition want_global :: "id \<Rightarrow> id \<Rightarrow> bool \<Rightarrow> fleet_capability \<Rightarrow> action_row list \<Rightarrow> coded + bool" where
  "want_global ws nodeId isDefault cap rows =
     (let name = cap_name cap;
          defaultMayClaimGlobal = isDefault \<and> \<not> agent_hosted ws name rows;
          wantGlobal = (if isDefault then defaultMayClaimGlobal else cap_global cap = Some True)
      in if \<not> wantGlobal then Inr False
         else case first_row (filter (\<lambda>a. ac_ws a = ws \<and> ac_name a = name \<and> ac_isGlobal a) rows) of
             Some g \<Rightarrow>
               if ac_handlerNodeId g \<noteq> Some nodeId
               then (if isDefault then Inr False else Inl action_name_conflict)
               else if \<not> isDefault \<and> agent_hosted ws name rows then Inl action_name_conflict else Inr True
           | None \<Rightarrow> if \<not> isDefault \<and> agent_hosted ws name rows then Inl action_name_conflict else Inr True)"

definition new_action_row :: "ms \<Rightarrow> id \<Rightarrow> id \<Rightarrow> id \<Rightarrow> string \<Rightarrow> bool \<Rightarrow> fleet_capability \<Rightarrow> action_row" where
  "new_action_row now freshId ws nodeId providerName wantGlobal cap =
     \<lparr>ac_id = ''act_'' @ freshId, ac_ws = ws, ac_name = cap_name cap, ac_handlerAgentId = None, ac_handlerNodeId = Some nodeId,
      ac_handlerProvider = Some providerName, ac_isGlobal = wantGlobal, ac_queue = (cap_queue cap = Some True),
      ac_executionMode = (case cap_executionMode cap of Some m \<Rightarrow> m | None \<Rightarrow> ''short''), ac_availableTo = None,
      ac_isActive = True, ac_createdAt = toSec now\<rparr>"

definition refresh_action :: "string \<Rightarrow> bool \<Rightarrow> fleet_capability \<Rightarrow> action_row \<Rightarrow> action_row" where
  "refresh_action providerName wantGlobal cap a =
     a\<lparr>ac_handlerProvider := Some providerName, ac_handlerAgentId := None, ac_isGlobal := wantGlobal,
       ac_queue := (cap_queue cap = Some True),
       ac_executionMode := (case cap_executionMode cap of Some m \<Rightarrow> m | None \<Rightarrow> ''short''), ac_isActive := True\<rparr>"

definition materialize_one ::
  "ms \<Rightarrow> (string \<Rightarrow> id) \<Rightarrow> id \<Rightarrow> id \<Rightarrow> string \<Rightarrow> fleet_capability \<Rightarrow> action_row list \<Rightarrow> coded + action_row list" where
  "materialize_one now fresh ws nodeId providerName cap rows =
     (case want_global ws nodeId (providerName = DEFAULT_PROVIDER_NAME) cap rows of
        Inl e \<Rightarrow> Inl e
      | Inr wantGlobal \<Rightarrow>
          case first_row (filter (\<lambda>a. ac_ws a = ws \<and> ac_handlerNodeId a = Some nodeId \<and> ac_name a = cap_name cap) rows) of
            Some existing \<Rightarrow>
              if (case ac_handlerProvider existing of Some p \<Rightarrow> p \<noteq> [] \<and> p \<noteq> providerName | None \<Rightarrow> False)
              then Inl action_name_conflict
              else Inr (let refresh = upd_where (\<lambda>a. ac_id a = ac_id existing) (refresh_action providerName wantGlobal cap)
                        in if ac_isGlobal existing \<and> \<not> wantGlobal then withAliasSettlement ws refresh rows else refresh rows)
          | None \<Rightarrow> Inr (rows @ [new_action_row now (fresh (cap_name cap)) ws nodeId providerName wantGlobal cap]))"

text \<open>The loop over the capabilities: an error leaves what the earlier rounds wrote.\<close>

fun materialize_all ::
  "ms \<Rightarrow> (string \<Rightarrow> id) \<Rightarrow> id \<Rightarrow> id \<Rightarrow> string \<Rightarrow> fleet_capability list \<Rightarrow> action_row list \<Rightarrow> coded option \<times> action_row list" where
  "materialize_all now fresh ws nodeId providerName [] rows = (None, rows)"
| "materialize_all now fresh ws nodeId providerName (cap # caps) rows =
     (case materialize_one now fresh ws nodeId providerName cap rows of
        Inl e \<Rightarrow> (Some e, rows)
      | Inr rows' \<Rightarrow> materialize_all now fresh ws nodeId providerName caps rows')"

definition materializeProviderActions ::
  "ms \<Rightarrow> (string \<Rightarrow> id) \<Rightarrow> id \<Rightarrow> id \<Rightarrow> string \<Rightarrow> fleet_capability list \<Rightarrow> db \<Rightarrow> coded option \<times> db" where
  "materializeProviderActions now fresh ws nodeId providerName capabilities db =
     (let actionCaps = effectiveActionCapabilities capabilities
      in case assertActionTaskMode capabilities of
           Some e \<Rightarrow> (Some e, db)
         | None \<Rightarrow>
             let rows = withAliasSettlement ws (prune ws nodeId providerName (map cap_name actionCaps)) (actions db);
                 (e, rows') = materialize_all now fresh ws nodeId providerName actionCaps rows
             in (e, db\<lparr>actions := rows'\<rparr>))"

subsection \<open>The aggregate columns of a node\<close>

definition sum_of :: "('a \<Rightarrow> int) \<Rightarrow> 'a list \<Rightarrow> int" where
  "sum_of f xs = fold (\<lambda>p s. s + f p) xs 0"

definition max_of :: "'a::linorder list \<Rightarrow> 'a option" where
  "max_of xs = fold (\<lambda>x m. case m of None \<Rightarrow> Some x | Some y \<Rightarrow> if x > y then Some x else m) xs None"

text \<open>The trigger \<open>nodes_advance_liveness_revision\<close>: every write of status or heartbeat is a new generation.\<close>

definition update_node_liveness :: "id \<Rightarrow> id \<Rightarrow> (node_row \<Rightarrow> node_row) \<Rightarrow> db \<Rightarrow> node_row option \<times> db" where
  "update_node_liveness ws nodeId f db =
     (let P = (\<lambda>n. n_ws n = ws \<and> n_id n = nodeId);
          g = (\<lambda>n. (f n)\<lparr>n_livenessRevision := n_livenessRevision n + 1\<rparr>)
      in (first_row (returning P f (nodes db)), db\<lparr>nodes := upd_where P g (nodes db)\<rparr>))"

text \<open>\<open>refreshNodeAggregate\<close>: one statement; \<open>manifest\<close> computes the grouped manifest of the subquery.\<close>

definition refreshNodeAggregate ::
  "(fleet_capability list \<Rightarrow> fleet_capability list) \<Rightarrow> ms \<Rightarrow> id \<Rightarrow> id \<Rightarrow> string option \<Rightarrow> string option \<Rightarrow> sec option
    \<Rightarrow> db \<Rightarrow> node_row option \<times> db" where
  "refreshNodeAggregate manifest now ws nodeId name version provenLiveAt db =
     (let onNode = filter (\<lambda>p. p_ws p = ws \<and> p_nodeId p = nodeId) (nodeProviders db);
          online = filter (\<lambda>p. p_status p = ''online'') onNode;
          allReported = (onNode \<noteq> [] \<and> \<not> list_ex (\<lambda>p. \<not> p_loadReported p) onNode)
      in update_node_liveness ws nodeId (\<lambda>n. n\<lparr>
           n_maxAgents := (if list_ex (\<lambda>p. p_maxAgents p = 0) onNode then 0 else sum_of p_maxAgents onNode),
           n_activeAgents := sum_of p_activeAgents onNode,
           n_loadReported := allReported,
           n_load := (if allReported then (case max_of (map p_load onNode) of Some l \<Rightarrow> l | None \<Rightarrow> 0) else 0),
           n_handlersLive := list_ex p_handlersLive online,
           n_status := (if online \<noteq> [] then ''online'' else ''offline''),
           n_capabilities := (if onNode \<noteq> [] then map CapObj (manifest (concat (map p_capabilities onNode))) else n_capabilities n),
           n_lastHeartbeatAt := (case max_of (List.map_filter p_lastHeartbeatAt online) of
               Some h \<Rightarrow> Some h | None \<Rightarrow> Some (toSec now)),
           n_name := (case name of Some x \<Rightarrow> x | None \<Rightarrow> n_name n),
           n_version := (case version of Some x \<Rightarrow> x | None \<Rightarrow> n_version n),
           n_provenLiveAt := (case provenLiveAt of Some x \<Rightarrow> Some x | None \<Rightarrow> n_provenLiveAt n)\<rparr>) db)"

definition first_by_name :: "fleet_capability list \<Rightarrow> fleet_capability list" where
  "first_by_name caps = fold (\<lambda>c kept. if list_ex (\<lambda>d. cap_name d = cap_name c) kept then kept else kept @ [c]) caps []"

definition recomputeNodeAggregate ::
  "ms \<Rightarrow> id \<Rightarrow> id \<Rightarrow> string option \<Rightarrow> string option \<Rightarrow> sec option \<Rightarrow> db \<Rightarrow> node_row option \<times> db" where
  "recomputeNodeAggregate now ws nodeId version machineId provenLiveAt db =
     (let providers = listProviders db ws nodeId;
          online = filter (\<lambda>p. p_status p = ''online'') providers;
          loadReported = (providers \<noteq> [] \<and> list_all p_loadReported providers);
          latest = fold (\<lambda>p l. case p_lastHeartbeatAt p of None \<Rightarrow> l
             | Some h \<Rightarrow> (case l of None \<Rightarrow> Some h | Some m \<Rightarrow> if h > m then Some h else l)) online None
      in update_node_liveness ws nodeId (\<lambda>n. n\<lparr>
           n_capabilities := map CapObj (first_by_name (concat (map p_capabilities providers))),
           n_maxAgents := (if list_ex (\<lambda>p. p_maxAgents p = 0) providers then 0 else sum_of p_maxAgents providers),
           n_activeAgents := sum_of p_activeAgents providers,
           n_load := (if loadReported then the (max_of (map p_load providers)) else 0),
           n_loadReported := loadReported,
           n_handlersLive := list_ex p_handlersLive online,
           n_status := (if online \<noteq> [] then ''online'' else ''offline''),
           n_lastHeartbeatAt := (case latest of Some h \<Rightarrow> Some h | None \<Rightarrow> Some (toSec now)),
           n_version := (case version of Some x \<Rightarrow> x | None \<Rightarrow> n_version n),
           n_machineId := (case machineId of Some x \<Rightarrow> Some x | None \<Rightarrow> n_machineId n),
           n_provenLiveAt := (case provenLiveAt of Some x \<Rightarrow> Some x | None \<Rightarrow> n_provenLiveAt n)\<rparr>) db)"

subsection \<open>The two aggregate updates agree\<close>

lemma max_of_acc:
  "fold (\<lambda>p l. case f p of None \<Rightarrow> l | Some h \<Rightarrow> (case l of None \<Rightarrow> Some h | Some m \<Rightarrow> if h > m then Some h else l)) ps l
    = fold (\<lambda>x m. case m of None \<Rightarrow> Some x | Some y \<Rightarrow> if x > y then Some x else m) (List.map_filter f ps) l"
  by (induction ps arbitrary: l) (auto simp: List.map_filter_def split: option.splits)

lemma max_of_Some: "xs \<noteq> [] \<Longrightarrow> max_of xs \<noteq> None"
proof -
  have "fold (\<lambda>x m. case m of None \<Rightarrow> Some x | Some y \<Rightarrow> if x > y then Some x else m) ys (Some z) \<noteq> None" for ys and z :: 'a
    by (induction ys arbitrary: z) auto
  moreover assume "xs \<noteq> []"
  ultimately show ?thesis by (cases xs) (auto simp: max_of_def)
qed

lemma first_by_name_acc:
  "cap_name ` set (fold (\<lambda>c kept. if list_ex (\<lambda>d. cap_name d = cap_name c) kept then kept else kept @ [c]) caps kept)
    = cap_name ` set kept \<union> cap_name ` set caps"
proof (induction caps arbitrary: kept)
  case (Cons c caps)
  show ?case
  proof (cases "list_ex (\<lambda>d. cap_name d = cap_name c) kept")
    case True
    then have "cap_name c \<in> cap_name ` set kept" by (force simp: list_ex_iff intro: rev_image_eqI)
    with True Cons show ?thesis by auto
  qed (use Cons in auto)
qed simp

lemma first_by_name_names: "cap_name ` set (first_by_name caps) = cap_name ` set caps"
  by (simp add: first_by_name_def first_by_name_acc)

lemma nodeHasCapability_iff: "nodeHasCapability n c \<longleftrightarrow> c \<in> item_name ` set (n_capabilities n)"
  by (auto simp: nodeHasCapability_def list_ex_iff)

lemma item_names: "item_name ` CapObj ` A = cap_name ` A"
  by (auto simp: image_image item_name_def)

text \<open>For a node that has providers and a heartbeat that brings no name, the one-statement refresh and the read-then-write
  recomputation write the same columns other than the manifest; if the grouped query returns an entry for each name
  and no other (\<open>manifest\<close>), the two manifests name the same capabilities.\<close>
lemma refresh_equals_recompute:
  assumes "listProviders db ws nodeId \<noteq> []" "\<And>caps. cap_name ` set (manifest caps) = cap_name ` set caps"
  shows "list_all2 (\<lambda>n m. n\<lparr>n_capabilities := []\<rparr> = m\<lparr>n_capabilities := []\<rparr> \<and> nodeHasCapability n c = nodeHasCapability m c)
      (nodes (snd (refreshNodeAggregate manifest now ws nodeId None version proven db)))
      (nodes (snd (recomputeNodeAggregate now ws nodeId version None proven db)))"
proof -
  let ?ps = "listProviders db ws nodeId"
  have ps: "filter (\<lambda>p. p_ws p = ws \<and> p_nodeId p = nodeId) (nodeProviders db) = ?ps" by (simp add: listProviders_def)
  have all: "\<not> list_ex (\<lambda>p. \<not> p_loadReported p) ?ps \<longleftrightarrow> list_all p_loadReported ?ps"
    by (auto simp: list_ex_iff list_all_iff)
  have hb: "fold (\<lambda>p l. case p_lastHeartbeatAt p of None \<Rightarrow> l
      | Some h \<Rightarrow> (case l of None \<Rightarrow> Some h | Some m \<Rightarrow> if h > m then Some h else l)) qs None
      = max_of (List.map_filter p_lastHeartbeatAt qs)" for qs
    by (simp add: max_of_acc max_of_def)
  obtain l where l: "max_of (map p_load ?ps) = Some l" using max_of_Some [of "map p_load ?ps"] assms(1) by auto
  show ?thesis
    unfolding refreshNodeAggregate_def recomputeNodeAggregate_def Let_def ps all hb update_node_liveness_def
    using assms(1)
    by (auto simp: list_all2_conv_all_nth upd_where_def l nodeHasCapability_iff item_names first_by_name_names assms(2))
qed

definition ex_claude :: fleet_capability where
  "ex_claude = \<lparr>cap_name = ''spawn:claude'', cap_kind = None, cap_global = None, cap_queue = None, cap_executionMode = None\<rparr>"

definition ex_providers :: db where
  "ex_providers = ex_fleet\<lparr>nodeProviders := [(ex_provider ''n1'' ''default'')\<lparr>p_capabilities := [ex_claude]\<rparr>, ex_provider ''n1'' ''gpu'']\<rparr>"

lemma refresh_equals_recompute_witness:
  "list_all2 (\<lambda>n m. n\<lparr>n_capabilities := []\<rparr> = m\<lparr>n_capabilities := []\<rparr> \<and> nodeHasCapability n ''spawn:claude'' = nodeHasCapability m ''spawn:claude'')
      (nodes (snd (refreshNodeAggregate first_by_name 120000 ''w'' ''n1'' None None None ex_providers)))
      (nodes (snd (recomputeNodeAggregate 120000 ''w'' ''n1'' None None None ex_providers)))"
  by (rule refresh_equals_recompute) (simp_all add: first_by_name_names listProviders_def ex_providers_def ex_provider_def)

subsection \<open>The action table\<close>

text \<open>The primary key and the three unique indexes of \<open>actions\<close>.\<close>

definition clash :: "action_row \<Rightarrow> action_row \<Rightarrow> bool" where
  "clash a b \<longleftrightarrow> ac_ws a = ac_ws b \<and> ac_name a = ac_name b
     \<and> (ac_handlerNodeId a = ac_handlerNodeId b \<or> (ac_isGlobal a \<and> ac_isGlobal b))"

definition actions_ok :: "action_row list \<Rightarrow> bool" where
  "actions_ok rows \<longleftrightarrow> distinct (map ac_id rows) \<and> (\<forall>a \<in> set rows. \<forall>b \<in> set rows. clash a b \<longrightarrow> ac_id a = ac_id b)"

text \<open>No alias is orphaned: a name that a default provider serves on some node can be invoked by name.\<close>

definition alias_settled :: "id \<Rightarrow> action_row list \<Rightarrow> bool" where
  "alias_settled ws rows \<longleftrightarrow> (\<forall>a \<in> set rows. default_row ws a \<longrightarrow> (\<exists>b \<in> set rows. claimant ws (ac_name a) b))"

lemma actions_ok_same: "actions_ok rows \<Longrightarrow> a \<in> set rows \<Longrightarrow> b \<in> set rows \<Longrightarrow> clash a b \<or> ac_id a = ac_id b \<Longrightarrow> a = b"
  unfolding actions_ok_def distinct_map by (blast dest: inj_onD)

lemma actions_ok_clash: "actions_ok rows \<Longrightarrow> a \<in> set rows \<Longrightarrow> b \<in> set rows \<Longrightarrow> clash a b \<Longrightarrow> ac_id a = ac_id b"
  by (auto simp: actions_ok_def)

lemma actions_ok_filter: "actions_ok rows \<Longrightarrow> actions_ok (filter P rows)"
  by (auto simp: actions_ok_def distinct_map_filter)

lemma oldest_default_Some:
  "oldest_default ws name rows = Some a \<Longrightarrow> a \<in> set rows \<and> default_row ws a \<and> ac_name a = name"
  unfolding oldest_default_def by (drule first_row_Some) (auto dest!: subsetD [OF set_order_limit])

lemma oldest_default_None:
  "oldest_default ws name rows = None \<Longrightarrow> a \<in> set rows \<Longrightarrow> default_row ws a \<Longrightarrow> ac_name a \<noteq> name"
  unfolding oldest_default_def first_row_None by (auto simp: order_limit_empty_iff filter_empty_conv)

lemma orphan_ids:
  "i \<in> set (orphanedAliasClaimants ws rows) \<longleftrightarrow>
     (\<exists>name a. oldest_default ws name rows = Some a \<and> i = ac_id a \<and> (\<forall>b \<in> set rows. \<not> claimant ws name b)
       \<and> (\<exists>b \<in> set rows. default_row ws b \<and> \<not> ac_isGlobal b \<and> ac_name b = name))"
  by (auto simp: orphanedAliasClaimants_def list_ex_iff split: option.splits) (metis option.sel)+

lemma in_settled:
  "a \<in> set (claimOrphanedGlobalAliases ws rows) \<longleftrightarrow>
     (\<exists>b \<in> set rows. a = (if ac_id b \<in> set (orphanedAliasClaimants ws rows) then b\<lparr>ac_isGlobal := True\<rparr> else b))"
  by (auto simp: claimOrphanedGlobalAliases_def upd_where_def)

lemma settled_orphan_row:
  assumes "actions_ok rows" "b \<in> set rows" "ac_id b \<in> set (orphanedAliasClaimants ws rows)"
  shows "oldest_default ws (ac_name b) rows = Some b" "ac_ws b = ws" "\<And>c. c \<in> set rows \<Longrightarrow> \<not> claimant ws (ac_name b) c"
proof -
  obtain name a where a: "oldest_default ws name rows = Some a" "ac_id b = ac_id a" "\<forall>c \<in> set rows. \<not> claimant ws name c"
    using assms(3) orphan_ids by auto
  then have "a \<in> set rows" "default_row ws a" "ac_name a = name" by (auto dest: oldest_default_Some)
  moreover then have "a = b" using actions_ok_same [OF assms(1)] assms(2) a(2) by metis
  ultimately show "oldest_default ws (ac_name b) rows = Some b" "ac_ws b = ws"
      "\<And>c. c \<in> set rows \<Longrightarrow> \<not> claimant ws (ac_name b) c"
    using a by (auto simp: default_row_def)
qed

lemma settle_keeps_ok:
  assumes ok: "actions_ok rows"
  shows "actions_ok (claimOrphanedGlobalAliases ws rows)"
  unfolding actions_ok_def
proof (intro conjI ballI impI)
  show "distinct (map ac_id (claimOrphanedGlobalAliases ws rows))"
    using ok by (simp add: claimOrphanedGlobalAliases_def map_upd_where actions_ok_def)
next
  let ?o = "set (orphanedAliasClaimants ws rows)"
  fix x y
  assume x: "x \<in> set (claimOrphanedGlobalAliases ws rows)" and y: "y \<in> set (claimOrphanedGlobalAliases ws rows)" and c: "clash x y"
  obtain a b where a: "a \<in> set rows" "x = (if ac_id a \<in> ?o then a\<lparr>ac_isGlobal := True\<rparr> else a)"
      and b: "b \<in> set rows" "y = (if ac_id b \<in> ?o then b\<lparr>ac_isGlobal := True\<rparr> else b)"
    using x y in_settled by auto
  have id: "ac_id x = ac_id a" "ac_id y = ac_id b" by (simp_all add: a b)
  show "ac_id x = ac_id y"
  proof (cases "clash a b")
    case True
    then show ?thesis using actions_ok_clash [OF ok a(1) b(1)] id by simp
  next
    case False
    with c a(2) b(2) have eq: "ac_ws a = ac_ws b" "ac_name a = ac_name b"
        and turned: "ac_id a \<in> ?o \<or> ac_id b \<in> ?o" "ac_id a \<in> ?o \<or> ac_isGlobal a" "ac_id b \<in> ?o \<or> ac_isGlobal b"
      by (auto simp: clash_def split: if_splits)
    note oa = settled_orphan_row [OF ok a(1)] and ob = settled_orphan_row [OF ok b(1)]
    have ia: "ac_id a \<in> ?o" using turned ob(2,3) a(1) eq by (auto simp: claimant_def)
    have ib: "ac_id b \<in> ?o" using turned oa(2,3) b(1) eq by (auto simp: claimant_def)
    have "Some a = Some b" using oa(1) [OF ia] ob(1) [OF ib] eq(2) by metis
    then show ?thesis by (simp add: id)
  qed
qed

lemma settle_settles:
  assumes ok: "actions_ok rows"
  shows "alias_settled ws (claimOrphanedGlobalAliases ws rows)"
  unfolding alias_settled_def
proof (intro ballI impI)
  let ?o = "set (orphanedAliasClaimants ws rows)"
  fix x assume x: "x \<in> set (claimOrphanedGlobalAliases ws rows)" "default_row ws x"
  then obtain a where a: "a \<in> set rows" "default_row ws a" "ac_name a = ac_name x"
    by (auto simp: in_settled default_row_def split: if_splits)
  show "\<exists>b \<in> set (claimOrphanedGlobalAliases ws rows). claimant ws (ac_name x) b"
  proof (cases "\<exists>c \<in> set rows. claimant ws (ac_name x) c")
    case True
    then obtain c where c: "c \<in> set rows" "claimant ws (ac_name x) c" by blast
    let ?c = "if ac_id c \<in> ?o then c\<lparr>ac_isGlobal := True\<rparr> else c"
    have "?c \<in> set (claimOrphanedGlobalAliases ws rows)" "claimant ws (ac_name x) ?c"
      using c by (auto simp: in_settled claimant_def)
    then show ?thesis by blast
  next
    case False
    obtain b where b: "oldest_default ws (ac_name x) rows = Some b"
      using oldest_default_None a by fastforce
    have "\<not> ac_isGlobal a" using False a by (auto simp: claimant_def default_row_def)
    then have "ac_id b \<in> ?o" using False a b orphan_ids by metis
    moreover have "b \<in> set rows" "ac_ws b = ws" "ac_name b = ac_name x"
      using oldest_default_Some [OF b] by (auto simp: default_row_def)
    ultimately have "b\<lparr>ac_isGlobal := True\<rparr> \<in> set (claimOrphanedGlobalAliases ws rows)"
        "claimant ws (ac_name x) (b\<lparr>ac_isGlobal := True\<rparr>)"
      by (auto simp: in_settled claimant_def)
    then show ?thesis by blast
  qed
qed

lemma settle_strip:
  "map (\<lambda>a. a\<lparr>ac_isGlobal := False\<rparr>) (claimOrphanedGlobalAliases ws rows) = map (\<lambda>a. a\<lparr>ac_isGlobal := False\<rparr>) rows"
  by (auto simp: claimOrphanedGlobalAliases_def upd_where_def)

lemma settle_ids: "map ac_id (claimOrphanedGlobalAliases ws rows) = map ac_id rows"
  by (simp add: claimOrphanedGlobalAliases_def map_upd_where)

subsection \<open>One round of a materialisation\<close>

definition table_ok :: "id \<Rightarrow> action_row list \<Rightarrow> bool" where
  "table_ok ws rows \<longleftrightarrow> actions_ok rows \<and> alias_settled ws rows"

lemma table_ok_settle: "actions_ok rows \<Longrightarrow> table_ok ws (claimOrphanedGlobalAliases ws rows)"
  by (simp add: table_ok_def settle_keeps_ok settle_settles)

lemma want_global_True:
  assumes "want_global ws nodeId d cap rows = Inr True" "actions_ok rows" "g \<in> set rows" "ac_ws g = ws"
    "ac_name g = cap_name cap" "ac_isGlobal g"
  shows "ac_handlerNodeId g = Some nodeId"
proof -
  let ?gs = "filter (\<lambda>a. ac_ws a = ws \<and> ac_name a = cap_name cap \<and> ac_isGlobal a) rows"
  have "?gs \<noteq> []" using assms(3-6) by (auto simp: filter_empty_conv)
  then obtain h where h: "first_row ?gs = Some h" using first_row_None by (cases "first_row ?gs") auto
  then have hr: "h \<in> set rows" "ac_ws h = ws" "ac_name h = cap_name cap" "ac_isGlobal h" by (auto dest: first_row_Some)
  then have "h = g" using actions_ok_same [OF assms(2), of h g] assms(3-6) by (simp add: clash_def)
  with assms(1) h show ?thesis by (auto simp: want_global_def Let_def split: if_splits)
qed

lemma want_global_False:
  assumes "want_global ws nodeId True cap rows = Inr False"
  shows "\<exists>b \<in> set rows. claimant ws (cap_name cap) b \<and> (ac_handlerNodeId b = None \<or> (ac_isGlobal b \<and> ac_handlerNodeId b \<noteq> Some nodeId))"
  using assms
  by (auto simp: want_global_def Let_def agent_hosted_def claimant_def list_ex_iff
      split: if_splits option.splits dest!: first_row_Some)

text \<open>The row a round finds for its capability, and the two ways the round goes on.\<close>

definition own_row :: "id \<Rightarrow> id \<Rightarrow> string \<Rightarrow> action_row list \<Rightarrow> action_row option" where
  "own_row ws nodeId name rows =
     first_row (filter (\<lambda>a. ac_ws a = ws \<and> ac_handlerNodeId a = Some nodeId \<and> ac_name a = name) rows)"

lemma own_row_Some: "own_row ws nodeId name rows = Some a \<Longrightarrow> a \<in> set rows \<and> ac_ws a = ws \<and> ac_handlerNodeId a = Some nodeId \<and> ac_name a = name"
  unfolding own_row_def by (drule first_row_Some) simp

lemma own_row_None: "own_row ws nodeId name rows = None \<Longrightarrow> a \<in> set rows \<Longrightarrow> ac_ws a = ws \<Longrightarrow> ac_name a = name \<Longrightarrow> ac_handlerNodeId a \<noteq> Some nodeId"
  by (auto simp: own_row_def first_row_None filter_empty_conv)

lemma materialize_one_cases:
  assumes "materialize_one now fresh ws nodeId prov cap rows = Inr rows'"
  obtains (insert) w where "own_row ws nodeId (cap_name cap) rows = None"
      "want_global ws nodeId (prov = DEFAULT_PROVIDER_NAME) cap rows = Inr w"
      "rows' = rows @ [new_action_row now (fresh (cap_name cap)) ws nodeId prov w cap]"
  | (refresh) w e r1 where "own_row ws nodeId (cap_name cap) rows = Some e"
      "want_global ws nodeId (prov = DEFAULT_PROVIDER_NAME) cap rows = Inr w"
      "r1 = upd_where (\<lambda>a. ac_id a = ac_id e) (refresh_action prov w cap) rows"
      "rows' = (if ac_isGlobal e \<and> \<not> w then claimOrphanedGlobalAliases ws r1 else r1)"
  using assms
  by (auto simp: materialize_one_def own_row_def withAliasSettlement_def Let_def split: sum.splits option.splits if_splits)

lemma refresh_fields [simp]:
  "ac_id (refresh_action prov w cap a) = ac_id a" "ac_ws (refresh_action prov w cap a) = ac_ws a"
  "ac_name (refresh_action prov w cap a) = ac_name a" "ac_handlerNodeId (refresh_action prov w cap a) = ac_handlerNodeId a"
  "ac_isGlobal (refresh_action prov w cap a) = w" "ac_handlerProvider (refresh_action prov w cap a) = Some prov"
  by (simp_all add: refresh_action_def)

lemma new_row_fields [simp]:
  "ac_id (new_action_row now i ws nodeId prov w cap) = ''act_'' @ i" "ac_ws (new_action_row now i ws nodeId prov w cap) = ws"
  "ac_name (new_action_row now i ws nodeId prov w cap) = cap_name cap"
  "ac_handlerNodeId (new_action_row now i ws nodeId prov w cap) = Some nodeId"
  "ac_isGlobal (new_action_row now i ws nodeId prov w cap) = w"
  "ac_handlerProvider (new_action_row now i ws nodeId prov w cap) = Some prov"
  by (simp_all add: new_action_row_def)

lemma clash_sym: "clash a b \<Longrightarrow> clash b a"
  by (auto simp: clash_def)

lemma refresh_keeps_ok:
  assumes ok: "actions_ok rows" and e: "own_row ws nodeId (cap_name cap) rows = Some e"
    and w: "want_global ws nodeId d cap rows = Inr w"
  shows "actions_ok (upd_where (\<lambda>a. ac_id a = ac_id e) (refresh_action prov w cap) rows)"
  unfolding actions_ok_def
proof (intro conjI ballI impI)
  show "distinct (map ac_id (upd_where (\<lambda>a. ac_id a = ac_id e) (refresh_action prov w cap) rows))"
    using ok by (simp add: map_upd_where actions_ok_def)
next
  let ?f = "\<lambda>a. if ac_id a = ac_id e then refresh_action prov w cap a else a"
  note er = own_row_Some [OF e]
  fix x y
  assume "x \<in> set (upd_where (\<lambda>a. ac_id a = ac_id e) (refresh_action prov w cap) rows)"
    "y \<in> set (upd_where (\<lambda>a. ac_id a = ac_id e) (refresh_action prov w cap) rows)" and c: "clash x y"
  then obtain a b where a: "a \<in> set rows" "x = ?f a" and b: "b \<in> set rows" "y = ?f b" by (auto simp: upd_where_def)
  have glob: "g = e" if "g \<in> set rows" "ac_ws g = ws" "ac_name g = cap_name cap" "ac_isGlobal g" w for g
    using want_global_True [of ws nodeId d cap rows g] w ok that er actions_ok_same [OF ok, of g e] by (simp add: clash_def)
  show "ac_id x = ac_id y"
  proof (cases "clash a b")
    case True
    then show ?thesis using actions_ok_clash [OF ok a(1) b(1)] a(2) b(2) by simp
  next
    case False
    have one: "u = e" if "u \<in> set rows" "ac_id u = ac_id e" for u
      using actions_ok_same [OF ok that(1), of e] er that(2) by simp
    have other: False if "u \<in> set rows" "ac_id u \<noteq> ac_id e" "\<not> clash e u" "clash (refresh_action prov w cap e) u" for u
    proof -
      have "ac_ws u = ws" "ac_name u = cap_name cap" "ac_isGlobal u" w
        using that(3,4) er by (auto simp: clash_def)
      then show False using glob [OF that(1)] that(2) by simp
    qed
    show ?thesis
    proof (cases "ac_id a = ac_id e"; cases "ac_id b = ac_id e")
      assume i: "ac_id a = ac_id e" "ac_id b \<noteq> ac_id e"
      have "a = e" by (rule one [OF a(1) i(1)])
      then show ?thesis using other [OF b(1) i(2)] False c a(2) b(2) i(2) by simp
    next
      assume i: "ac_id a \<noteq> ac_id e" "ac_id b = ac_id e"
      have "b = e" by (rule one [OF b(1) i(2)])
      then show ?thesis using other [OF a(1) i(1)] False clash_sym [OF c] a(2) b(2) i(1) clash_sym [of e a] by auto
    qed (use False c a(2) b(2) in simp_all)
  qed
qed

lemma insert_keeps_ok:
  assumes ok: "actions_ok rows" and none: "own_row ws nodeId (cap_name cap) rows = None"
    and w: "want_global ws nodeId d cap rows = Inr w" and fresh: "''act_'' @ i \<notin> ac_id ` set rows"
  shows "actions_ok (rows @ [new_action_row now i ws nodeId prov w cap])"
proof -
  have "\<not> clash a (new_action_row now i ws nodeId prov w cap)" if "a \<in> set rows" for a
  proof
    assume c: "clash a (new_action_row now i ws nodeId prov w cap)"
    then have a: "ac_ws a = ws" "ac_name a = cap_name cap" by (simp_all add: clash_def)
    then have "ac_handlerNodeId a \<noteq> Some nodeId" by (rule own_row_None [OF none that])
    with c have "w" "ac_isGlobal a" by (simp_all add: clash_def)
    then show False
      using want_global_True [OF _ ok that a] w \<open>ac_handlerNodeId a \<noteq> Some nodeId\<close> by simp
  qed
  then have "\<not> clash a (new_action_row now i ws nodeId prov w cap) \<and> \<not> clash (new_action_row now i ws nodeId prov w cap) a"
      if "a \<in> set rows" for a
    using that clash_sym by blast
  then show ?thesis using ok fresh by (auto simp: actions_ok_def)
qed

lemma materialize_one_table_ok:
  assumes ok: "table_ok ws rows" and m: "materialize_one now fresh ws nodeId prov cap rows = Inr rows'"
    and fresh: "''act_'' @ fresh (cap_name cap) \<notin> ac_id ` set rows"
  shows "table_ok ws rows'"
  using m
proof (cases rule: materialize_one_cases)
  case (insert w)
  let ?r = "new_action_row now (fresh (cap_name cap)) ws nodeId prov w cap"
  have "\<exists>b \<in> set rows'. claimant ws (cap_name cap) b" if "prov = DEFAULT_PROVIDER_NAME"
  proof (cases w)
    case True
    then have "claimant ws (cap_name cap) ?r" by (simp add: claimant_def)
    then show ?thesis using insert(3) by auto
  next
    case False
    then show ?thesis using want_global_False [of ws nodeId cap rows] insert that by auto
  qed
  then have "alias_settled ws rows'"
    using ok insert(3) by (auto simp: table_ok_def alias_settled_def default_row_def)
  with ok insert_keeps_ok [OF _ insert(1,2) fresh] insert(3) show ?thesis by (simp add: table_ok_def)
next
  case (refresh w e r1)
  have r1: "actions_ok r1" using refresh_keeps_ok [OF _ refresh(1,2)] ok refresh(3) by (simp add: table_ok_def)
  note er = own_row_Some [OF refresh(1)]
  show ?thesis
  proof (cases "ac_isGlobal e \<and> \<not> w")
    case True
    then show ?thesis using refresh(4) table_ok_settle [OF r1] by simp
  next
    case False
    have same: "a = e" if "a \<in> set rows" "ac_id a = ac_id e" for a
      using actions_ok_same [of rows a e] ok that er by (simp add: table_ok_def)
    have keep: "\<exists>c \<in> set r1. claimant ws n c" if "b \<in> set rows" "claimant ws n b" for b n
    proof -
      let ?c = "if ac_id b = ac_id e then refresh_action prov w cap b else b"
      have "?c \<in> set r1" using that(1) refresh(3) by (auto simp: upd_where_def)
      moreover have "claimant ws n ?c" using that False same [of b] er by (auto simp: claimant_def)
      ultimately show ?thesis by blast
    qed
    have "alias_settled ws r1"
      unfolding alias_settled_def
    proof (intro ballI impI)
      fix x assume x: "x \<in> set r1" "default_row ws x"
      show "\<exists>b \<in> set r1. claimant ws (ac_name x) b"
      proof (cases "ac_id x = ac_id e")
        case True
        then have xe: "x = refresh_action prov w cap e"
          using x(1) refresh(3) same by (auto simp: upd_where_def split: if_splits)
        show ?thesis
        proof (cases w)
          case True
          then show ?thesis using x xe er by (intro bexI [of _ x]) (auto simp: claimant_def)
        next
          case False
          then have "want_global ws nodeId True cap rows = Inr False"
            using refresh(2) x(2) xe by (auto simp: default_row_def)
          then show ?thesis using want_global_False keep xe er by fastforce
        qed
      next
        case False
        then have "x \<in> set rows" using x(1) refresh(3) by (auto simp: upd_where_def split: if_splits)
        then show ?thesis using ok x(2) keep by (auto simp: table_ok_def alias_settled_def)
      qed
    qed
    then show ?thesis using refresh(4) False r1 by (auto simp: table_ok_def)
  qed
qed

lemma materialize_one_ids:
  assumes "materialize_one now fresh ws nodeId prov cap rows = Inr rows'"
  shows "ac_id ` set rows' \<subseteq> insert (''act_'' @ fresh (cap_name cap)) (ac_id ` set rows)"
  using assms
proof (cases rule: materialize_one_cases)
  case (refresh w e r1)
  have "map ac_id r1 = map ac_id rows" using refresh(3) by (simp add: map_upd_where)
  then have "map ac_id rows' = map ac_id rows" using refresh(4) by (simp add: settle_ids)
  then have "set (map ac_id rows') = set (map ac_id rows)" by simp
  then show ?thesis by auto
qed auto

lemma materialize_all_table_ok:
  assumes "table_ok ws rows" "distinct (map cap_name caps)" "inj fresh"
    "\<And>c. c \<in> set caps \<Longrightarrow> ''act_'' @ fresh (cap_name c) \<notin> ac_id ` set rows"
  shows "table_ok ws (snd (materialize_all now fresh ws nodeId prov caps rows))"
  using assms
proof (induction caps arbitrary: rows)
  case (Cons c caps)
  show ?case
  proof (cases "materialize_one now fresh ws nodeId prov c rows")
    case (Inr rows')
    have "''act_'' @ fresh (cap_name d) \<notin> ac_id ` set rows'" if "d \<in> set caps" for d
    proof -
      have "cap_name d \<noteq> cap_name c" using Cons.prems(2) that by (force simp: image_iff)
      then have "fresh (cap_name d) \<noteq> fresh (cap_name c)" using Cons.prems(3) by (auto dest: injD)
      then show ?thesis using materialize_one_ids [OF Inr] Cons.prems(4) [of d] that by auto
    qed
    moreover have "table_ok ws rows'"
      using materialize_one_table_ok [OF Cons.prems(1) Inr] Cons.prems(4) by auto
    ultimately show ?thesis using Cons Inr by auto
  qed (use Cons in auto)
qed simp

lemma last_with_key: "k \<in> key ` set xs \<Longrightarrow> key (last (filter (\<lambda>x. key x = k) xs)) = k"
  using last_in_set [of "filter (\<lambda>x. key x = k) xs"] by (auto simp: filter_empty_conv)

lemma map_values_keys: "map key (map_values key xs) = uniq (map key xs)"
  by (auto simp: map_values_def last_with_key intro!: map_idI)

lemma effective_distinct: "distinct (map cap_name (effectiveActionCapabilities caps))"
  by (simp add: effectiveActionCapabilities_def map_values_keys)

lemma prune_ok: "actions_ok rows \<Longrightarrow> actions_ok (prune ws nodeId prov names rows)"
  unfolding prune_def by (rule actions_ok_filter)

lemma materialize_unfold:
  assumes "assertActionTaskMode caps = None"
  shows "fst (materializeProviderActions now fresh ws nodeId prov caps db)
      = fst (materialize_all now fresh ws nodeId prov (effectiveActionCapabilities caps)
          (claimOrphanedGlobalAliases ws (prune ws nodeId prov (map cap_name (effectiveActionCapabilities caps)) (actions db))))"
    "actions (snd (materializeProviderActions now fresh ws nodeId prov caps db))
      = snd (materialize_all now fresh ws nodeId prov (effectiveActionCapabilities caps)
          (claimOrphanedGlobalAliases ws (prune ws nodeId prov (map cap_name (effectiveActionCapabilities caps)) (actions db))))"
  using assms by (simp_all add: materializeProviderActions_def withAliasSettlement_def Let_def split: prod.splits)

lemma prune_ids: "ac_id ` set (prune ws nodeId prov names rows) \<subseteq> ac_id ` set rows"
  by (auto simp: prune_def)

lemma settle_id_set: "ac_id ` set (claimOrphanedGlobalAliases ws rows) = ac_id ` set rows"
  using settle_ids [of ws rows] by (metis list.set_map)

text \<open>C33: Whatever a provider registers, and also when the registration stops half way at a name conflict, the
  action table keeps its unique indexes, so no write of it is refused, and no name is left orphaned: every
  name that the default provider of some node serves is served by an agent or by one row that holds the
  workspace-global alias. Removing a provider settles the aliases it held in the same way.\<close>
theorem materialize_settles_aliases:
  assumes ok: "actions_ok (actions db)" and task: "assertActionTaskMode caps = None"
    and fresh: "inj fresh" "\<And>name. ''act_'' @ fresh name \<notin> ac_id ` set (actions db)"
  shows "actions_ok (actions (snd (materializeProviderActions now fresh ws nodeId prov caps db)))
    \<and> alias_settled ws (actions (snd (materializeProviderActions now fresh ws nodeId prov caps db)))
    \<and> actions_ok (actions (removeProvider ws nodeId prov db)) \<and> alias_settled ws (actions (removeProvider ws nodeId prov db))"
proof -
  let ?names = "map cap_name (effectiveActionCapabilities caps)"
  let ?rows = "claimOrphanedGlobalAliases ws (prune ws nodeId prov ?names (actions db))"
  have "''act_'' @ fresh n \<notin> ac_id ` set ?rows" for n
    using fresh(2) [of n] prune_ids [of ws nodeId prov ?names "actions db"] by (auto simp: settle_id_set)
  then have "table_ok ws (snd (materialize_all now fresh ws nodeId prov (effectiveActionCapabilities caps) ?rows))"
    by (intro materialize_all_table_ok table_ok_settle prune_ok ok effective_distinct fresh(1))
  moreover have "table_ok ws (actions (removeProvider ws nodeId prov db))"
    unfolding removeProvider_def by (simp add: table_ok_settle actions_ok_filter ok)
  ultimately show ?thesis unfolding materialize_unfold [OF task] table_ok_def by blast
qed

text \<open>Node 1 holds the alias of \<open>etl\<close>; node 2 serves it too, without the alias.\<close>

definition ex_etl :: fleet_capability where
  "ex_etl = \<lparr>cap_name = ''etl'', cap_kind = None, cap_global = None, cap_queue = Some True, cap_executionMode = None\<rparr>"

definition ex_row :: "id \<Rightarrow> bool \<Rightarrow> action_row" where
  "ex_row node glob = (new_action_row 1000 node ''w'' node ''default'' glob ex_etl)"

definition ex_actions :: db where
  "ex_actions = ex_fleet\<lparr>actions := [ex_row ''n1'' True, ex_row ''n2'' False]\<rparr>"

lemma ex_actions_ok: "actions_ok (actions ex_actions)"
  by (auto simp: actions_ok_def ex_actions_def ex_row_def clash_def)

lemma ex_fresh: "inj (\<lambda>n::string. CHR ''z'' # n)" "''act_'' @ CHR ''z'' # n \<notin> ac_id ` set (actions ex_actions)"
  by (auto simp: inj_def ex_actions_def ex_row_def)

text \<open>When node 1 drops the action, node 2 takes the alias over.\<close>

theorem materialize_settles_aliases_witness:
  "alias_settled ''w'' (actions (snd (materializeProviderActions 9000 (\<lambda>n. CHR ''z'' # n) ''w'' ''n1'' ''default'' [] ex_actions)))
   \<and> actions (snd (materializeProviderActions 9000 (\<lambda>n. CHR ''z'' # n) ''w'' ''n1'' ''default'' [] ex_actions)) = [ex_row ''n2'' True]"
proof -
  have t: "assertActionTaskMode [] = None" by (simp add: assertActionTaskMode_def)
  have "actions (snd (materializeProviderActions 9000 (\<lambda>n. CHR ''z'' # n) ''w'' ''n1'' ''default'' [] ex_actions)) = [ex_row ''n2'' True]"
    unfolding ex_actions_def ex_row_def ex_etl_def ex_fleet_def by code_simp
  then show ?thesis
    using materialize_settles_aliases [OF ex_actions_ok t ex_fresh, where ws = "''w''" and nodeId = "''n1''"] by blast
qed

subsection \<open>The rows of a provider are its manifest\<close>

definition mine :: "id \<Rightarrow> id \<Rightarrow> string \<Rightarrow> action_row \<Rightarrow> bool" where
  "mine ws nodeId prov a \<longleftrightarrow> ac_ws a = ws \<and> ac_handlerNodeId a = Some nodeId \<and> ac_handlerProvider a = Some prov"

definition row_of :: "id \<Rightarrow> id \<Rightarrow> string \<Rightarrow> fleet_capability \<Rightarrow> action_row \<Rightarrow> bool" where
  "row_of ws nodeId prov c a \<longleftrightarrow> mine ws nodeId prov a \<and> ac_name a = cap_name c \<and> ac_isActive a
     \<and> ac_queue a = (cap_queue c = Some True)
     \<and> ac_executionMode a = (case cap_executionMode c of Some m \<Rightarrow> m | None \<Rightarrow> ''short'')"

lemma mine_global [simp]: "mine ws nodeId prov (a\<lparr>ac_isGlobal := g\<rparr>) = mine ws nodeId prov a"
  "row_of ws nodeId prov c (a\<lparr>ac_isGlobal := g\<rparr>) = row_of ws nodeId prov c a"
  by (simp_all add: mine_def row_of_def)

lemma settle_fwd: "a \<in> set (claimOrphanedGlobalAliases w rows) \<Longrightarrow> \<exists>b \<in> set rows. \<exists>g. a = b\<lparr>ac_isGlobal := g\<rparr>"
  unfolding in_settled by (metis action_row.surjective action_row.update_convs(7))

lemma settle_bwd: "b \<in> set rows \<Longrightarrow> \<exists>g. b\<lparr>ac_isGlobal := g\<rparr> \<in> set (claimOrphanedGlobalAliases w rows)"
  unfolding in_settled by (metis action_row.surjective action_row.update_convs(7))

definition has_row :: "id \<Rightarrow> id \<Rightarrow> string \<Rightarrow> fleet_capability \<Rightarrow> action_row list \<Rightarrow> bool" where
  "has_row ws nodeId prov c rows \<longleftrightarrow> (\<exists>a \<in> set rows. row_of ws nodeId prov c a)"

definition owns_name :: "id \<Rightarrow> id \<Rightarrow> string \<Rightarrow> string \<Rightarrow> action_row list \<Rightarrow> bool" where
  "owns_name ws nodeId prov name rows \<longleftrightarrow> (\<exists>a \<in> set rows. mine ws nodeId prov a \<and> ac_name a = name)"

lemma settle_rows [simp]:
  "has_row ws nodeId prov c (claimOrphanedGlobalAliases w rows) = has_row ws nodeId prov c rows"
  "owns_name ws nodeId prov name (claimOrphanedGlobalAliases w rows) = owns_name ws nodeId prov name rows"
proof -
  have m: "ac_name (b\<lparr>ac_isGlobal := g\<rparr>) = ac_name b" for b :: action_row and g by simp
  show "has_row ws nodeId prov c (claimOrphanedGlobalAliases w rows) = has_row ws nodeId prov c rows"
    unfolding has_row_def using settle_fwd [of _ w rows] settle_bwd [of _ rows w] by (metis mine_global(2))
  show "owns_name ws nodeId prov name (claimOrphanedGlobalAliases w rows) = owns_name ws nodeId prov name rows"
    unfolding owns_name_def using settle_fwd [of _ w rows] settle_bwd [of _ rows w] by (metis mine_global(1) m)
qed

lemma materialize_one_rows:
  assumes m: "materialize_one now fresh ws nodeId prov c rows = Inr rows'" and ok: "actions_ok rows"
  shows "has_row ws nodeId prov c rows' \<and>
    (owns_name ws nodeId prov n rows' \<longrightarrow> n = cap_name c \<or> owns_name ws nodeId prov n rows) \<and>
    (cap_name d \<noteq> cap_name c \<longrightarrow> has_row ws nodeId prov d rows \<longrightarrow> has_row ws nodeId prov d rows')"
  using m
proof (cases rule: materialize_one_cases)
  case (insert w)
  let ?r = "new_action_row now (fresh (cap_name c)) ws nodeId prov w c"
  have "row_of ws nodeId prov c ?r" by (simp add: row_of_def mine_def new_action_row_def)
  then show ?thesis using insert(3) by (auto simp: has_row_def owns_name_def)
next
  case (refresh w e r1)
  note e = own_row_Some [OF refresh(1)]
  have one: "b = e" if "b \<in> set rows" "ac_id b = ac_id e" for b
    using actions_ok_same [OF ok that(1), of e] e that(2) by simp
  have r1: "a \<in> set r1 \<longleftrightarrow> (\<exists>b \<in> set rows. a = (if ac_id b = ac_id e then refresh_action prov w c b else b))" for a
    using refresh(3) by (auto simp: upd_where_def)
  have "refresh_action prov w c e \<in> set r1" using e by (auto simp: r1)
  moreover have "row_of ws nodeId prov c (refresh_action prov w c e)" using e by (simp add: row_of_def mine_def refresh_action_def)
  ultimately have has: "has_row ws nodeId prov c r1" unfolding has_row_def by blast
  have owns: "n = cap_name c \<or> owns_name ws nodeId prov n rows" if "owns_name ws nodeId prov n r1"
  proof -
    obtain b where b: "b \<in> set rows" "mine ws nodeId prov (if ac_id b = ac_id e then refresh_action prov w c b else b)" "ac_name b = n"
      using \<open>owns_name ws nodeId prov n r1\<close> by (auto simp: owns_name_def r1 split: if_splits)
    then show ?thesis using one [OF b(1)] e by (cases "ac_id b = ac_id e") (auto simp: owns_name_def)
  qed
  have keep: "has_row ws nodeId prov d r1" if d: "cap_name d \<noteq> cap_name c" "has_row ws nodeId prov d rows"
  proof -
    obtain a where a: "a \<in> set rows" "row_of ws nodeId prov d a" using d(2) by (auto simp: has_row_def)
    then have "ac_id a \<noteq> ac_id e" using one [OF a(1)] e d(1) by (auto simp: row_of_def)
    then have "a \<in> set r1" using a(1) by (auto simp: r1)
    then show ?thesis using a(2) by (auto simp: has_row_def)
  qed
  from has owns keep show ?thesis using refresh(4) by simp
qed

lemma materialize_all_rows:
  assumes "materialize_all now fresh ws nodeId prov caps rows = (None, rows')" "table_ok ws rows" "distinct (map cap_name caps)"
    "inj fresh" "\<And>c. c \<in> set caps \<Longrightarrow> ''act_'' @ fresh (cap_name c) \<notin> ac_id ` set rows"
  shows "(\<forall>c \<in> set caps. has_row ws nodeId prov c rows') \<and>
    (owns_name ws nodeId prov n rows' \<longrightarrow> n \<in> cap_name ` set caps \<or> owns_name ws nodeId prov n rows) \<and>
    (cap_name d \<notin> cap_name ` set caps \<longrightarrow> has_row ws nodeId prov d rows \<longrightarrow> has_row ws nodeId prov d rows')"
  using assms
proof (induction caps arbitrary: rows d)
  case (Cons c caps)
  obtain rows1 where one: "materialize_one now fresh ws nodeId prov c rows = Inr rows1"
      and rest: "materialize_all now fresh ws nodeId prov caps rows1 = (None, rows')"
    using Cons.prems(1) by (auto split: sum.splits)
  have ok: "table_ok ws rows1" using materialize_one_table_ok [OF Cons.prems(2) one] Cons.prems(5) by auto
  have fresh1: "''act_'' @ fresh (cap_name d) \<notin> ac_id ` set rows1" if "d \<in> set caps" for d
  proof -
    have "cap_name d \<noteq> cap_name c" using Cons.prems(3) that by (force simp: image_iff)
    then have "fresh (cap_name d) \<noteq> fresh (cap_name c)" using Cons.prems(4) by (auto dest: injD)
    then show ?thesis using materialize_one_ids [OF one] Cons.prems(5) [of d] that by auto
  qed
  have dist: "distinct (map cap_name caps)" "cap_name c \<notin> cap_name ` set caps" using Cons.prems(3) by auto
  note IH = Cons.IH [OF rest ok dist(1) Cons.prems(4) fresh1]
  have aok: "actions_ok rows" using Cons.prems(2) by (simp add: table_ok_def)
  note step = materialize_one_rows [OF one aok]
  show ?case using IH [of d] IH [of c] step [of n d] dist(2) by auto
qed simp

text \<open>A registration that succeeds makes the actions of the provider on its node exactly its manifest: every
  action capability has an active row of this provider with its queueing and execution mode, a name listed twice
  counting by its last entry, and the provider has a row for no other name.\<close>
theorem materialize_exact_manifest:
  assumes "actions_ok (actions db)" "inj fresh" "\<And>name. ''act_'' @ fresh name \<notin> ac_id ` set (actions db)"
    and run: "materializeProviderActions now fresh ws nodeId prov caps db = (None, db')"
  shows "(\<forall>c \<in> set (effectiveActionCapabilities caps). \<exists>a \<in> set (actions db'). row_of ws nodeId prov c a)
    \<and> (\<forall>a \<in> set (actions db'). mine ws nodeId prov a \<longrightarrow> ac_name a \<in> cap_name ` set (effectiveActionCapabilities caps))"
proof -
  have task: "assertActionTaskMode caps = None"
    using run by (auto simp: materializeProviderActions_def Let_def split: option.splits)
  let ?caps = "effectiveActionCapabilities caps"
  let ?pruned = "prune ws nodeId prov (map cap_name ?caps) (actions db)"
  let ?rows = "claimOrphanedGlobalAliases ws ?pruned"
  have all: "materialize_all now fresh ws nodeId prov ?caps ?rows = (None, actions db')"
    using materialize_unfold [OF task, of now fresh ws nodeId prov db] run by (metis fst_conv prod.collapse snd_conv)
  have "''act_'' @ fresh n \<notin> ac_id ` set ?rows" for n
    using assms(3) [of n] prune_ids [of ws nodeId prov "map cap_name ?caps" "actions db"] by (auto simp: settle_id_set)
  note rows = materialize_all_rows [OF all table_ok_settle [OF prune_ok [OF assms(1)]] effective_distinct assms(2) this]
  have pruned: "n \<in> cap_name ` set ?caps" if "owns_name ws nodeId prov n ?pruned" for n
    using that by (auto simp: owns_name_def prune_def mine_def)
  have "n \<in> cap_name ` set ?caps" if "owns_name ws nodeId prov n (actions db')" for n
    using rows [of n] that pruned [of n] by auto
  then show ?thesis using rows unfolding has_row_def owns_name_def by blast
qed

theorem materialize_exact_manifest_witness:
  "list_ex (\<lambda>a. ac_name a = ''etl'' \<and> ac_queue a)
     (actions (snd (materializeProviderActions 9000 (\<lambda>n. CHR ''z'' # n) ''w'' ''n3'' ''default'' [ex_etl, ex_claude] ex_actions)))"
proof -
  let ?run = "materializeProviderActions 9000 (\<lambda>n. CHR ''z'' # n) ''w'' ''n3'' ''default'' [ex_etl, ex_claude] ex_actions"
  have "fst ?run = None" unfolding ex_actions_def ex_row_def ex_etl_def ex_claude_def ex_fleet_def by code_simp
  then have run: "?run = (None, snd ?run)" by (metis prod.collapse)
  have "set (effectiveActionCapabilities [ex_etl, ex_claude]) = {ex_etl}"
    by (auto simp: effectiveActionCapabilities_def map_values_def capabilityKind_def ex_etl_def ex_claude_def starts_with_def)
  then show ?thesis
    using materialize_exact_manifest [OF ex_actions_ok ex_fresh run] by (auto simp: row_of_def ex_etl_def list_ex_iff)
qed

end
