(* ===== verification/Invocations.thy ===== *)
theory Invocations
  imports NodeProvider
begin

text \<open>
  Action invocations (\<open>engine/action.ts\<close>, \<open>engine/invocationClaim.ts\<close>): creating one under an
  idempotency key, the pre-send claims of its dispatchers, failing, requeueing and completing it. Each
  operation is one statement or the statements of one function on the database; who sends the frame, and
  the order in which the operations of concurrent requests run, is in \<open>InvocationSteps\<close>.
\<close>

subsection \<open>Small tests\<close>

definition open_inv :: "inv_row \<Rightarrow> bool" where
  "open_inv i \<longleftrightarrow> i_status i = Pending \<or> i_status i = Dispatched \<or> i_status i = Invoked"

definition ACTION_DISPATCH_TIMEOUT_MS :: ms where "ACTION_DISPATCH_TIMEOUT_MS = 30000"
definition ACTION_RETRY_BACKOFF_MS :: ms where "ACTION_RETRY_BACKOFF_MS = 5000"
definition PENDING_INVOCATION_MAX_AGE_MS :: ms where "PENDING_INVOCATION_MAX_AGE_MS = 72 * 60 * 60 * 1000"

definition isSpawnInvocation :: "string \<Rightarrow> bool" where
  "isSpawnInvocation actionName \<longleftrightarrow> actionName = ''spawn'' \<or> starts_with ''spawn:'' actionName"

definition isReleaseInvocation :: "string \<Rightarrow> bool" where
  "isReleaseInvocation actionName \<longleftrightarrow> actionName = ''release''"

definition isBuiltinReleaseInvocation :: "inv_row \<Rightarrow> bool" where
  "isBuiltinReleaseInvocation i \<longleftrightarrow> i_origin i = Builtin \<and> isReleaseInvocation (i_actionName i)"

definition isDeletedRegisteredActionInvocation :: "inv_row \<Rightarrow> bool" where
  "isDeletedRegisteredActionInvocation i \<longleftrightarrow> i_origin i = RegisteredAction \<and> i_actionId i = None
     \<and> i_providerAcceptedAttempt i \<noteq> Some (i_dispatchAttempts i)"

definition isAcceptedDeletedRegisteredActionInvocation :: "inv_row \<Rightarrow> bool" where
  "isAcceptedDeletedRegisteredActionInvocation i \<longleftrightarrow> i_origin i = RegisteredAction \<and> i_actionId i = None
     \<and> i_providerAcceptedAttempt i \<noteq> None \<and> i_providerAcceptedAttempt i = Some (i_dispatchAttempts i)"

definition dispatchActionNameForInvocation :: "string \<Rightarrow> (string \<times> json) list \<Rightarrow> string" where
  "dispatchActionNameForInvocation actionName input =
     (if \<not> isSpawnInvocation actionName then actionName
      else case nullish (map_of input ''capability'') (map_of input ''cli'') of
          Some (JStr raw) \<Rightarrow>
            if trim raw = [] then (if starts_with ''spawn:'' actionName then actionName else ''spawn'')
            else if starts_with ''spawn:'' (trim raw) then trim raw else ''spawn:'' @ trim raw
        | _ \<Rightarrow> (if starts_with ''spawn:'' actionName then actionName else ''spawn''))"

definition nextRetryAfter :: "ms \<Rightarrow> int \<Rightarrow> ms" where
  "nextRetryAfter now attempts = now + min (ACTION_RETRY_BACKOFF_MS * 2 ^ nat (max 0 (attempts - 1))) 60000"

definition isActionVisibleToCaller :: "string list option \<Rightarrow> string option \<Rightarrow> bool" where
  "isActionVisibleToCaller availableTo callerName \<longleftrightarrow>
     (case availableTo of None \<Rightarrow> True | Some l \<Rightarrow> l = [] \<or> (case truthy callerName of None \<Rightarrow> False | Some c \<Rightarrow> c \<in> set l))"

definition requireOneHandler :: "string option \<Rightarrow> string option \<Rightarrow> coded option" where
  "requireOneHandler handler_agent handler_node =
     (if (truthy handler_agent \<noteq> None) = (truthy handler_node \<noteq> None)
      then Some (codedError ''invalid_action_handler'' 400) else None)"

text \<open>The properties of a JSON object, and none of another value.\<close>

definition recordInput :: "json \<Rightarrow> (string \<times> json) list" where
  "recordInput v = (case v of JObj kvs \<Rightarrow> kvs | _ \<Rightarrow> [])"

subsection \<open>Resolving an action by name\<close>

definition actionResolutionRank :: "action_row \<Rightarrow> nat" where
  "actionResolutionRank a = (if ac_handlerNodeId a = None then 0 else if ac_isGlobal a then 1 else 2)"

definition fetchAction :: "db \<Rightarrow> id \<Rightarrow> string \<Rightarrow> bool \<Rightarrow> action_row option" where
  "fetchAction db ws actionName includeNodeScoped =
     first_row (sort_key (\<lambda>a. (actionResolutionRank a, ac_id a))
       (filter (\<lambda>a. ac_ws a = ws \<and> ac_name a = actionName \<and> ac_isActive a
          \<and> (includeNodeScoped \<or> ac_handlerNodeId a = None \<or> ac_isGlobal a)) (actions db)))"

definition fetchNodeAction :: "db \<Rightarrow> id \<Rightarrow> id \<Rightarrow> string \<Rightarrow> action_row option" where
  "fetchNodeAction db ws nodeId actionName =
     first_row (filter (\<lambda>a. ac_ws a = ws \<and> ac_handlerNodeId a = Some nodeId \<and> ac_name a = actionName \<and> ac_isActive a)
       (actions db))"

subsection \<open>Writing invocation rows\<close>

text \<open>
  The trigger \<open>action_invocations_stamp_node_liveness_revision_update\<close>: a row whose dispatch columns are
  written while it names a node is one generation above that node.
\<close>

definition stamp_inv :: "db \<Rightarrow> int \<Rightarrow> inv_row \<Rightarrow> inv_row" where
  "stamp_inv db old i =
     (case i_dispatchedNodeId i of
        None \<Rightarrow> i
      | Some n \<Rightarrow> i\<lparr>i_nodeLivenessRevision := (case node_revision db (i_ws i) n of Some r \<Rightarrow> r + 1 | None \<Rightarrow> old + 1)\<rparr>)"

definition update_invs :: "(inv_row \<Rightarrow> bool) \<Rightarrow> (inv_row \<Rightarrow> inv_row) \<Rightarrow> db \<Rightarrow> db" where
  "update_invs P f db =
     db\<lparr>invocations := upd_where P (\<lambda>i. stamp_inv db (i_nodeLivenessRevision i) (f i)) (invocations db)\<rparr>"

text \<open>\<open>{status: 'failed', error, completedAt: now, spawnReservedAt: null}\<close>.\<close>

definition failed_fields :: "ms \<Rightarrow> string \<Rightarrow> inv_row \<Rightarrow> inv_row" where
  "failed_fields now error i =
     i\<lparr>i_status := Failed_inv, i_error := Some error, i_completedAt := Some (toSec now), i_spawnReservedAt := None\<rparr>"

text \<open>The optional condition on the liveness generation.\<close>

definition rev_ok :: "int option \<Rightarrow> inv_row \<Rightarrow> bool" where
  "rev_ok expected i \<longleftrightarrow> (case expected of None \<Rightarrow> True | Some r \<Rightarrow> i_nodeLivenessRevision i = r)"

definition inv_at :: "id \<Rightarrow> id \<Rightarrow> inv_row \<Rightarrow> bool" where
  "inv_at ws invocationId i \<longleftrightarrow> i_ws i = ws \<and> i_id i = invocationId"

definition read_inv :: "db \<Rightarrow> id \<Rightarrow> id \<Rightarrow> inv_row option" where
  "read_inv db ws invocationId = first_row (filter (inv_at ws invocationId) (invocations db))"

subsection \<open>Creating an invocation\<close>

record create_data =
  cd_input :: "json option"
  cd_callerId :: "id option"
  cd_callerName :: "string option"
  cd_handlerAgentId :: "id option"
  cd_handlerNodeId :: "id option"
  cd_actionName :: "string option"
  cd_status :: "inv_status option"
  cd_invocationId :: "id option"

definition or_else :: "'a option \<Rightarrow> 'a option \<Rightarrow> 'a option" where
  "or_else x y = (case x of None \<Rightarrow> y | Some _ \<Rightarrow> x)"

definition samePayload :: "inv_row \<Rightarrow> string \<Rightarrow> create_data \<Rightarrow> bool" where
  "samePayload existing expectedActionName data \<longleftrightarrow>
     i_actionName existing = expectedActionName \<and> i_callerId existing = cd_callerId data
     \<and> canonicalJson (JObj (recordInput (i_input existing)))
       = canonicalJson (JObj (recordInput (case cd_input data of Some v \<Rightarrow> v | None \<Rightarrow> JObj [])))"

definition assertInvocationClaimMatches :: "inv_row \<Rightarrow> string \<Rightarrow> create_data \<Rightarrow> coded option" where
  "assertInvocationClaimMatches existing expectedActionName data =
     (if samePayload existing expectedActionName data then None
      else Some (codedError ''idempotency_key_reused'' 409))"

definition is_task :: "action_row option \<Rightarrow> bool" where
  "is_task action \<longleftrightarrow> (case action of Some a \<Rightarrow> ac_executionMode a = ''task'' | None \<Rightarrow> False)"

definition create_input :: "create_data \<Rightarrow> json" where
  "create_input data = (case cd_input data of Some v \<Rightarrow> v | None \<Rightarrow> JObj [])"

definition expected_name :: "action_row option \<Rightarrow> create_data \<Rightarrow> string" where
  "expected_name action data =
     (case action of Some a \<Rightarrow> ac_name a | None \<Rightarrow> (case cd_actionName data of Some n \<Rightarrow> n | None \<Rightarrow> ''spawn''))"

definition new_invocation :: "ms \<Rightarrow> id \<Rightarrow> action_row option \<Rightarrow> create_data \<Rightarrow> id \<Rightarrow> task_state option \<Rightarrow> inv_row" where
  "new_invocation now ws action data invocationId taskState =
     \<lparr>i_id = invocationId, i_ws = ws, i_actionId = map_option ac_id action, i_actionName = expected_name action data,
      i_origin = (case action of Some _ \<Rightarrow> RegisteredAction | None \<Rightarrow> Builtin),
      i_callerId = cd_callerId data, i_callerName = cd_callerName data,
      i_handlerAgentId = or_else (cd_handlerAgentId data) (Option.bind action ac_handlerAgentId),
      i_handlerNodeId = or_else (cd_handlerNodeId data) (Option.bind action ac_handlerNodeId),
      i_input = create_input data, i_taskState = taskState, i_output = JNull,
      i_status = (case cd_status data of Some s \<Rightarrow> s | None \<Rightarrow> Pending), i_error = None, i_durationMs = None,
      i_dispatchedNodeId = None, i_dispatchedAt = None, i_nodeLivenessRevision = 0,
      i_providerAcceptedAttempt = None, i_spawnReservedAt = None, i_attemptedNodeIds = [],
      i_dispatchAttempts = 0, i_dispatchedProvider = None, i_retryAfterAt = None,
      i_handlerUnreachableSince = None, i_createdAt = toSec now, i_completedAt = None\<rparr>"

text \<open>
  \<open>task\<close> validates the task context of an input (\<open>createTaskState\<close>, in \<open>TaskInvocation\<close>). The result is
  the row and whether it is a replay.
\<close>

definition createInvocation ::
  "ms \<Rightarrow> ((string \<times> json) list \<Rightarrow> coded + task_state) \<Rightarrow> id \<Rightarrow> id \<Rightarrow> action_row option \<Rightarrow> create_data \<Rightarrow> db
    \<Rightarrow> (coded + inv_row \<times> bool) \<times> db" where
  "createInvocation now task freshId ws action data db =
     (if is_task action \<and> truthy (cd_invocationId data) = None then (Inl (codedError ''task_idempotency_required'' 400), db)
      else
        let invocationId = (case cd_invocationId data of Some i \<Rightarrow> i | None \<Rightarrow> ''inv_'' @ freshId)
        in case (if is_task action then map_sum id Some (task (recordInput (create_input data))) else Inr None) of
             Inl e \<Rightarrow> (Inl e, db)
           | Inr taskState \<Rightarrow>
               if \<not> list_ex (\<lambda>i. i_id i = invocationId) (invocations db)
               then (let row = new_invocation now ws action data invocationId taskState
                     in (Inr (row, False), db\<lparr>invocations := invocations db @ [row]\<rparr>))
               else if truthy (cd_invocationId data) = None
               then (Inl (codedError ''invocation_id_collision'' 500), db)
               else case read_inv db ws invocationId of
                   None \<Rightarrow> (Inl (codedError ''idempotency_unavailable'' 503), db)
                 | Some existing \<Rightarrow>
                     (case assertInvocationClaimMatches existing (expected_name action data) data of
                        Some e \<Rightarrow> (Inl e, db) | None \<Rightarrow> (Inr (existing, True), db)))"

subsection \<open>Failing invocations\<close>

definition failInvocationForUnavailableProvider :: "ms \<Rightarrow> id \<Rightarrow> id \<Rightarrow> int option \<Rightarrow> db \<Rightarrow> db" where
  "failInvocationForUnavailableProvider now ws invocationId expectedRevision =
     update_invs (\<lambda>i. inv_at ws invocationId i \<and> open_inv i \<and> rev_ok expectedRevision i) (failed_fields now ''handler_unavailable'')"

definition failNeverDispatchedInvocation :: "ms \<Rightarrow> id \<Rightarrow> id \<Rightarrow> string \<Rightarrow> db \<Rightarrow> bool \<times> db" where
  "failNeverDispatchedInvocation now ws invocationId error db =
     (let P = (\<lambda>i. inv_at ws invocationId i \<and> open_inv i \<and> i_dispatchAttempts i = 0 \<and> i_dispatchedNodeId i = None)
      in (filter P (invocations db) \<noteq> [], update_invs P (failed_fields now error) db))"

text \<open>The holds are read before the update clears them, and each hold of a failed row is released.\<close>

definition open_among :: "id \<Rightarrow> id list \<Rightarrow> int option \<Rightarrow> inv_row \<Rightarrow> bool" where
  "open_among ws ids expectedRevision i \<longleftrightarrow> i_ws i = ws \<and> i_id i \<in> set ids \<and> open_inv i \<and> rev_ok expectedRevision i"

definition holds_slot :: "inv_row \<Rightarrow> bool" where
  "holds_slot i \<longleftrightarrow> isSpawnInvocation (i_actionName i) \<and> i_dispatchedNodeId i \<noteq> None \<and> i_spawnReservedAt i \<noteq> None"

definition release_holds :: "id \<Rightarrow> inv_row list \<Rightarrow> db \<Rightarrow> db" where
  "release_holds ws held db = fold (\<lambda>i. releaseNodeCapacity ws (the (i_dispatchedNodeId i)) 1) (filter holds_slot held) db"

definition failOpenInvocationRows :: "ms \<Rightarrow> id \<Rightarrow> id list \<Rightarrow> string \<Rightarrow> int option \<Rightarrow> db \<Rightarrow> inv_row list \<times> db" where
  "failOpenInvocationRows now ws ids error expectedRevision db =
     (if ids = [] then ([], db)
      else let held = filter (open_among ws ids expectedRevision) (invocations db);
               failed = returning (open_among ws ids expectedRevision) (failed_fields now error) (invocations db);
               db' = update_invs (open_among ws ids expectedRevision) (failed_fields now error) db
           in (failed, release_holds ws (filter (\<lambda>i. i_id i \<in> i_id ` set failed) held) db'))"

definition openInvocationIdsForActions :: "db \<Rightarrow> id \<Rightarrow> id list \<Rightarrow> id list" where
  "openInvocationIdsForActions db ws actionIds =
     map i_id (filter (\<lambda>i. i_ws i = ws \<and> (case i_actionId i of None \<Rightarrow> False | Some a \<Rightarrow> a \<in> set actionIds) \<and> open_inv i
       \<and> (case i_providerAcceptedAttempt i of None \<Rightarrow> True | Some p \<Rightarrow> p \<noteq> i_dispatchAttempts i)) (invocations db))"

subsection \<open>The exclusive pre-send claim\<close>

definition sameStoredRetryDeadline :: "ms option \<Rightarrow> ms option \<Rightarrow> bool" where
  "sameStoredRetryDeadline left right =
     (case (left, right) of
        (Some l, Some r) \<Rightarrow> l div 1000 = r div 1000
      | (l, r) \<Rightarrow> l = None \<and> r = None)"

text \<open>The deadline and the attempt count that a claim writes.\<close>

definition exclusiveClaimWrite ::
  "ms \<Rightarrow> inv_status \<Rightarrow> ms option \<Rightarrow> int \<Rightarrow> inv_status \<Rightarrow> ms option \<Rightarrow> bool \<Rightarrow> ms option \<times> int" where
  "exclusiveClaimWrite now observedStatus observedRetryAfterAt observedDispatchAttempts nextStatus nextRetryAfterAt incrementAttempts =
     (let dispatchAttempts = (if incrementAttempts then observedDispatchAttempts + 1 else observedDispatchAttempts);
          moves = (nextStatus \<noteq> observedStatus \<or> dispatchAttempts \<noteq> observedDispatchAttempts)
      in if moves \<or> \<not> sameStoredRetryDeadline nextRetryAfterAt observedRetryAfterAt
         then (nextRetryAfterAt, dispatchAttempts)
         else let base = (case observedRetryAfterAt of Some t \<Rightarrow> t | None \<Rightarrow> now)
              in (Some ((base div 1000 + 1) * 1000), dispatchAttempts))"

definition retryAfterAtMatches :: "ms option \<Rightarrow> inv_row \<Rightarrow> bool" where
  "retryAfterAtMatches observed i \<longleftrightarrow>
     (case observed of None \<Rightarrow> i_retryAfterAt i = None | Some t \<Rightarrow> i_retryAfterAt i = Some (toSec t))"

record claim_token =
  cl_status :: inv_status
  cl_retryAfterAt :: "ms option"
  cl_dispatchAttempts :: int
  cl_spawnReservedAt :: "ms option"

record expected_action =
  ea_id :: id
  ea_name :: string
  ea_handlerAgentId :: "id option"

record dispatch_opts =
  da_providerName :: string
  da_pending :: bool
  da_retryAfterAt :: "ms option"
  da_reservationHeld :: bool
  da_skipIncrementAttempts :: bool
  da_expectedAction :: "expected_action option"
  da_targetActionId :: "id option"
  da_claim :: "claim_token option"
  da_expectedRevision :: "int option"

definition registeredActionDispatchPredicate ::
  "db \<Rightarrow> id \<Rightarrow> id \<Rightarrow> string \<Rightarrow> id \<Rightarrow> string \<Rightarrow> id option \<Rightarrow> bool" where
  "registeredActionDispatchPredicate db ws nodeId providerName actionId actionName handlerAgentId \<longleftrightarrow>
     list_ex (\<lambda>a. ac_ws a = ws \<and> ac_id a = actionId \<and> ac_name a = actionName \<and> ac_isActive a
       \<and> (case truthy handlerAgentId of
            Some h \<Rightarrow> ac_handlerAgentId a = Some h \<and> ac_handlerNodeId a = None
          | None \<Rightarrow> ac_handlerNodeId a = Some nodeId
              \<and> (case ac_handlerProvider a of Some p \<Rightarrow> p | None \<Rightarrow> DEFAULT_PROVIDER_NAME) = providerName)) (actions db)"

definition action_exists :: "db \<Rightarrow> id \<Rightarrow> id \<Rightarrow> bool" where
  "action_exists db ws actionId \<longleftrightarrow> list_ex (\<lambda>a. ac_ws a = ws \<and> ac_id a = actionId) (actions db)"

definition claim_matches :: "claim_token option \<Rightarrow> inv_row \<Rightarrow> bool" where
  "claim_matches claim i \<longleftrightarrow>
     (case claim of
        None \<Rightarrow> open_inv i
      | Some c \<Rightarrow> i_status i = cl_status c \<and> retryAfterAtMatches (cl_retryAfterAt c) i
          \<and> i_dispatchAttempts i = cl_dispatchAttempts c
          \<and> (case cl_spawnReservedAt c of None \<Rightarrow> True | Some t \<Rightarrow> i_spawnReservedAt i = Some (toSec t)))"

definition expected_action_ok :: "db \<Rightarrow> id \<Rightarrow> id \<Rightarrow> dispatch_opts \<Rightarrow> inv_row \<Rightarrow> bool" where
  "expected_action_ok db ws nodeId opts i \<longleftrightarrow>
     (case da_expectedAction opts of
        None \<Rightarrow> True
      | Some e \<Rightarrow> i_origin i = RegisteredAction \<and> i_actionId i = Some (ea_id e) \<and> action_exists db ws (ea_id e)
          \<and> (truthy (da_targetActionId opts) \<noteq> None \<or> truthy (ea_handlerAgentId e) \<noteq> None \<longrightarrow>
              registeredActionDispatchPredicate db ws nodeId (da_providerName opts)
                (case da_targetActionId opts of Some t \<Rightarrow> t | None \<Rightarrow> ea_id e) (ea_name e) (ea_handlerAgentId e)))"

text \<open>The dispatch columns: back to the queue, or in flight.\<close>

definition state_fields :: "ms \<Rightarrow> bool \<Rightarrow> ms option \<Rightarrow> inv_row \<Rightarrow> inv_row" where
  "state_fields now pending retryAfterAt i =
     i\<lparr>i_status := (if pending then Pending else Dispatched), i_dispatchedAt := (if pending then None else Some (toSec now)),
       i_retryAfterAt := map_option toSec retryAfterAt\<rparr>"

definition route_fields :: "ms \<Rightarrow> id \<Rightarrow> string \<Rightarrow> bool \<Rightarrow> bool \<Rightarrow> inv_row \<Rightarrow> inv_row" where
  "route_fields now nodeId providerName reservationHeld skipIncrement i =
     i\<lparr>i_handlerNodeId := Some (case i_handlerNodeId i of Some h \<Rightarrow> h | None \<Rightarrow> nodeId), i_dispatchedNodeId := Some nodeId,
       i_dispatchedProvider := Some providerName,
       i_spawnReservedAt := (if reservationHeld then Some (toSec now) else None),
       i_attemptedNodeIds := (if skipIncrement then i_attemptedNodeIds i else i_attemptedNodeIds i @ [nodeId]),
       i_dispatchAttempts := (if skipIncrement then i_dispatchAttempts i else i_dispatchAttempts i + 1)\<rparr>"

definition dispatchNodeAttempt :: "ms \<Rightarrow> id \<Rightarrow> id \<Rightarrow> id \<Rightarrow> dispatch_opts \<Rightarrow> db \<Rightarrow> bool \<times> db" where
  "dispatchNodeAttempt now ws invocationId nodeId opts db =
     (let P = (\<lambda>i. inv_at ws invocationId i \<and> claim_matches (da_claim opts) i \<and> rev_ok (da_expectedRevision opts) i
            \<and> expected_action_ok db ws nodeId opts i);
          f = (\<lambda>i. let j = route_fields now nodeId (da_providerName opts) (da_reservationHeld opts) (da_skipIncrementAttempts opts)
                     (state_fields now (da_pending opts) (da_retryAfterAt opts) i)
               in case truthy (da_targetActionId opts) of Some t \<Rightarrow> j\<lparr>i_actionId := Some t\<rparr> | None \<Rightarrow> j)
      in (filter P (invocations db) \<noteq> [], update_invs P f db))"

record restore_token =
  rt_dispatchAttempts :: int
  rt_retryAfterAt :: "ms option"
  rt_restoreRetryAfterAt :: "ms option"
  rt_restoreDispatchAttempts :: int
  rt_restoreDispatchedNodeId :: "id option"
  rt_restoreSpawnReservedAt :: "ms option"

definition restoreUnsentSpawnClaim :: "id \<Rightarrow> id \<Rightarrow> restore_token \<Rightarrow> db \<Rightarrow> db" where
  "restoreUnsentSpawnClaim ws invocationId t =
     update_invs (\<lambda>i. inv_at ws invocationId i \<and> (i_status i = Pending \<or> i_status i = Dispatched)
         \<and> i_dispatchAttempts i = rt_dispatchAttempts t \<and> retryAfterAtMatches (rt_retryAfterAt t) i)
       (\<lambda>i. i\<lparr>i_status := Pending, i_dispatchedAt := None, i_dispatchedNodeId := rt_restoreDispatchedNodeId t,
              i_spawnReservedAt := map_option toSec (rt_restoreSpawnReservedAt t),
              i_retryAfterAt := map_option toSec (rt_restoreRetryAfterAt t),
              i_dispatchAttempts := rt_restoreDispatchAttempts t\<rparr>)"

end
