(* ===== verification/InvocationOps.thy ===== *)
theory InvocationOps
  imports Invocations
begin

text \<open>
  The rest of the life of an invocation (\<open>engine/action.ts\<close>): the durable hand-off of a registered action,
  drains and unsent spawns, requeueing after a lost node, completion by an agent or by a node, and the
  sweeps. The socket registry is a parameter: which providers are connected, and which are explicitly
  attached.
\<close>

subsection \<open>Registered actions\<close>

record handoff =
  ho_nodeId :: id
  ho_providerName :: string
  ho_expectedActionId :: id
  ho_targetActionId :: "id option"
  ho_actionName :: string
  ho_pending :: bool
  ho_retryAfterAt :: "ms option"
  ho_reservationHeld :: bool
  ho_skipIncrementAttempts :: bool
  ho_expectedRevision :: "int option"

definition or_default :: "string option \<Rightarrow> string" where
  "or_default p = (case p of Some x \<Rightarrow> x | None \<Rightarrow> DEFAULT_PROVIDER_NAME)"

definition handoff_where :: "db \<Rightarrow> id \<Rightarrow> id \<Rightarrow> handoff \<Rightarrow> inv_row \<Rightarrow> bool" where
  "handoff_where db ws invocationId h i \<longleftrightarrow>
     (let claimed = (case ho_targetActionId h of Some t \<Rightarrow> t | None \<Rightarrow> ho_expectedActionId h)
      in inv_at ws invocationId i \<and> i_origin i = RegisteredAction \<and> i_actionId i = Some (ho_expectedActionId h)
       \<and> open_inv i \<and> rev_ok (ho_expectedRevision h) i
       \<and> \<not> (i_actionId i = Some claimed \<and> (case i_dispatchedNodeId i of Some n \<Rightarrow> n | None \<Rightarrow> []) = ho_nodeId h
            \<and> or_default (i_dispatchedProvider i) = ho_providerName h \<and> (i_status i = Dispatched \<or> i_status i = Invoked))
       \<and> action_exists db ws (ho_expectedActionId h)
       \<and> (case truthy (ho_targetActionId h) of None \<Rightarrow> True
          | Some t \<Rightarrow> registeredActionDispatchPredicate db ws (ho_nodeId h) (ho_providerName h) t (ho_actionName h) None))"

definition handoff_set :: "ms \<Rightarrow> handoff \<Rightarrow> inv_row \<Rightarrow> inv_row" where
  "handoff_set now h i =
     (route_fields now (ho_nodeId h) (ho_providerName h) (ho_reservationHeld h) (ho_skipIncrementAttempts h)
        (state_fields now (ho_pending h) (ho_retryAfterAt h) i))
      \<lparr>i_actionId := Some (case ho_targetActionId h of Some t \<Rightarrow> t | None \<Rightarrow> ho_expectedActionId h)\<rparr>"

text \<open>The claimed row, as it was written.\<close>

definition claimRegisteredActionHandoff :: "ms \<Rightarrow> id \<Rightarrow> id \<Rightarrow> handoff \<Rightarrow> db \<Rightarrow> inv_row option \<times> db" where
  "claimRegisteredActionHandoff now ws invocationId h db =
     (first_row (returning (handoff_where db ws invocationId h) (handoff_set now h) (invocations db)),
      update_invs (handoff_where db ws invocationId h) (handoff_set now h) db)"

definition bindInvocationToRegisteredNodeAction ::
  "id \<Rightarrow> id \<Rightarrow> id \<Rightarrow> string \<Rightarrow> id \<Rightarrow> string \<Rightarrow> db \<Rightarrow> bool \<times> db" where
  "bindInvocationToRegisteredNodeAction ws invocationId nodeId providerName actionId actionName db =
     (let P = (\<lambda>i. inv_at ws invocationId i \<and> i_origin i = Builtin \<and> i_actionId i = None \<and> open_inv i \<and> i_dispatchAttempts i = 0
            \<and> registeredActionDispatchPredicate db ws nodeId providerName actionId actionName None)
      in (filter P (invocations db) \<noteq> [],
          db\<lparr>invocations := upd_where P (\<lambda>i. i\<lparr>i_actionId := Some actionId, i_origin := RegisteredAction\<rparr>) (invocations db)\<rparr>))"

definition unaccepted_deleted :: "inv_row \<Rightarrow> bool" where
  "unaccepted_deleted i \<longleftrightarrow> i_origin i = RegisteredAction \<and> i_actionId i = None
     \<and> (case i_providerAcceptedAttempt i of None \<Rightarrow> True | Some p \<Rightarrow> p \<noteq> i_dispatchAttempts i)"

definition settleDeletedRegisteredAction :: "ms \<Rightarrow> id \<Rightarrow> id \<Rightarrow> int option \<Rightarrow> db \<Rightarrow> inv_row option \<times> db" where
  "settleDeletedRegisteredAction now ws invocationId expectedRevision db =
     (let P = (\<lambda>i. inv_at ws invocationId i \<and> unaccepted_deleted i \<and> open_inv i \<and> rev_ok expectedRevision i);
          db' = update_invs P (failed_fields now ''action_deleted'') db
      in (case first_row (returning P (failed_fields now ''action_deleted'') (invocations db)) of
            Some failed \<Rightarrow> Some failed
          | None \<Rightarrow> read_inv db' ws invocationId, db'))"

definition settleRegisteredActionSendFailure ::
  "ms \<Rightarrow> id \<Rightarrow> id \<Rightarrow> id \<Rightarrow> string \<Rightarrow> id \<Rightarrow> int \<Rightarrow> db \<Rightarrow> inv_row option \<times> db" where
  "settleRegisteredActionSendFailure now ws invocationId nodeId providerName actionId dispatchAttempts db =
     (let P = (\<lambda>i. inv_at ws invocationId i \<and> i_origin i = RegisteredAction \<and> i_actionId i = Some actionId
            \<and> i_dispatchedNodeId i = Some nodeId \<and> i_dispatchedProvider i = Some providerName
            \<and> i_dispatchAttempts i = dispatchAttempts \<and> open_inv i);
          f = (\<lambda>i. i\<lparr>i_status := Failed_inv, i_error := Some ''node_dispatch_unavailable'', i_completedAt := Some (toSec now)\<rparr>);
          db' = update_invs P f db
      in case first_row (returning P f (invocations db)) of
           Some failed \<Rightarrow> (Some failed, db')
         | None \<Rightarrow> settleDeletedRegisteredAction now ws invocationId None db')"

definition snapshotInvocationHandlerNode :: "id \<Rightarrow> id \<Rightarrow> id \<Rightarrow> int option \<Rightarrow> db \<Rightarrow> bool \<times> db" where
  "snapshotInvocationHandlerNode ws invocationId nodeId expectedRevision db =
     (let P = (\<lambda>i. inv_at ws invocationId i \<and> open_inv i \<and> rev_ok expectedRevision i)
      in (filter P (invocations db) \<noteq> [],
          db\<lparr>invocations := upd_where P
            (\<lambda>i. i\<lparr>i_handlerNodeId := Some (case i_handlerNodeId i of Some h \<Rightarrow> h | None \<Rightarrow> nodeId)\<rparr>) (invocations db)\<rparr>))"

text \<open>Deleting an action row: the foreign key of its invocations becomes null.\<close>

definition delete_action_row :: "id \<Rightarrow> db \<Rightarrow> db" where
  "delete_action_row actionId db =
     db\<lparr>actions := filter (\<lambda>a. ac_id a \<noteq> actionId) (actions db),
        invocations := upd_where (\<lambda>i. i_actionId i = Some actionId) (\<lambda>i. i\<lparr>i_actionId := None\<rparr>) (invocations db)\<rparr>"

subsection \<open>Drains and unsent spawns\<close>

definition markDrainedInvocationDispatched :: "ms \<Rightarrow> id \<Rightarrow> id \<Rightarrow> id \<Rightarrow> db \<Rightarrow> bool \<times> db" where
  "markDrainedInvocationDispatched now ws invocationId nodeId db =
     (let P = (\<lambda>i. inv_at ws invocationId i \<and> i_dispatchedNodeId i = Some nodeId \<and> i_status i = Pending)
      in (filter P (invocations db) \<noteq> [],
          update_invs P (state_fields now False (Some (now + ACTION_DISPATCH_TIMEOUT_MS))) db))"

text \<open>\<open>LIKE 'spawn:%'\<close> ignores the case of ASCII letters.\<close>

definition to_lower :: "char \<Rightarrow> char" where
  "to_lower c = (if (65::nat) \<le> of_char c \<and> of_char c \<le> (90::nat) then char_of (of_char c + 32 :: nat) else c)"

definition unsentNativeSpawnOn :: "id \<Rightarrow> id option \<Rightarrow> id option \<Rightarrow> inv_row \<Rightarrow> bool" where
  "unsentNativeSpawnOn ws invocationId nodeId i \<longleftrightarrow>
     i_ws i = ws \<and> (case truthy invocationId of None \<Rightarrow> True | Some x \<Rightarrow> i_id i = x) \<and> i_status i = Pending
     \<and> i_actionId i = None \<and> i_dispatchedNodeId i = None \<and> i_dispatchAttempts i = 0
     \<and> (case truthy nodeId of None \<Rightarrow> True | Some n \<Rightarrow> i_handlerNodeId i = Some n)
     \<and> (i_actionName i = ''spawn'' \<or> starts_with ''spawn:'' (map to_lower (i_actionName i)))"

definition set_unreachable :: "sec option \<Rightarrow> inv_row \<Rightarrow> inv_row" where
  "set_unreachable t i = i\<lparr>i_handlerUnreachableSince := t\<rparr>"

definition markUnsentNativeSpawn :: "ms \<Rightarrow> id \<Rightarrow> id \<Rightarrow> id \<Rightarrow> db \<Rightarrow> db" where
  "markUnsentNativeSpawn now ws invocationId nodeId db =
     db\<lparr>invocations := upd_where (unsentNativeSpawnOn ws (Some invocationId) (Some nodeId))
       (set_unreachable (Some (toSec now))) (invocations db)\<rparr>"

definition claimUnsentNativeSpawn :: "id \<Rightarrow> id \<Rightarrow> db \<Rightarrow> bool \<times> db" where
  "claimUnsentNativeSpawn ws invocationId db =
     (let P = (\<lambda>i. unsentNativeSpawnOn ws (Some invocationId) None i \<and> i_handlerUnreachableSince i \<noteq> None)
      in (filter P (invocations db) \<noteq> [], db\<lparr>invocations := upd_where P (set_unreachable None) (invocations db)\<rparr>))"

subsection \<open>Requeueing\<close>

text \<open>The hold of a retried spawn: the marker is cleared by compare-and-swap, and only the winner releases.\<close>

definition release_retry_hold :: "inv_row \<Rightarrow> int option \<Rightarrow> db \<Rightarrow> db" where
  "release_retry_hold invocation expectedRevision db =
     (if holds_slot invocation
      then let P = (\<lambda>i. inv_at (i_ws invocation) (i_id invocation) i \<and> i_status i = i_status invocation
                 \<and> i_dispatchAttempts i = i_dispatchAttempts invocation \<and> i_retryAfterAt i = i_retryAfterAt invocation
                 \<and> rev_ok expectedRevision i \<and> i_spawnReservedAt i = i_spawnReservedAt invocation);
               db' = db\<lparr>invocations := upd_where P (\<lambda>i. i\<lparr>i_spawnReservedAt := None\<rparr>) (invocations db)\<rparr>
           in if filter P (invocations db) \<noteq> []
              then releaseNodeCapacity (i_ws invocation) (the (i_dispatchedNodeId invocation)) 1 db' else db'
      else db)"

text \<open>\<open>{status: 'pending', dispatchedNodeId: null, ..., spawnReservedAt: null, retryAfterAt}\<close>.\<close>

definition requeue_set :: "ms \<Rightarrow> inv_row \<Rightarrow> inv_row" where
  "requeue_set retryAfterAt i =
     i\<lparr>i_status := Pending, i_dispatchedNodeId := None, i_dispatchedProvider := None, i_dispatchedAt := None,
       i_spawnReservedAt := None, i_retryAfterAt := Some (toSec retryAfterAt)\<rparr>"

text \<open>A reschedule that placed the invocation nowhere.\<close>

definition requeue_exhausted :: "ms \<Rightarrow> inv_row \<Rightarrow> ms option \<Rightarrow> int option \<Rightarrow> db \<Rightarrow> db" where
  "requeue_exhausted now invocation retryAfterAt expectedRevision =
     update_invs (\<lambda>i. inv_at (i_ws invocation) (i_id invocation) i \<and> i_status i = i_status invocation
         \<and> i_dispatchAttempts i = i_dispatchAttempts invocation \<and> i_retryAfterAt i = i_retryAfterAt invocation
         \<and> rev_ok expectedRevision i)
       (requeue_set (case retryAfterAt of Some t \<Rightarrow> t | None \<Rightarrow> nextRetryAfter now (i_dispatchAttempts invocation + 1)))"

text \<open>A reschedule that threw, in the sweep of a lost node.\<close>

definition requeue_after_error :: "ms \<Rightarrow> inv_row \<Rightarrow> bool \<Rightarrow> db \<Rightarrow> db" where
  "requeue_after_error now invocation claimed =
     update_invs (\<lambda>i. inv_at (i_ws invocation) (i_id invocation) i \<and> open_inv i
         \<and> rev_ok (if claimed then Some (i_nodeLivenessRevision invocation) else None) i)
       (requeue_set (nextRetryAfter now (i_dispatchAttempts invocation + 1)))"

definition lost_node_rows :: "db \<Rightarrow> id \<Rightarrow> id \<Rightarrow> int option \<Rightarrow> inv_row list" where
  "lost_node_rows db ws nodeId claimRevision =
     filter (\<lambda>i. i_ws i = ws \<and> i_dispatchedNodeId i = Some nodeId \<and> open_inv i
       \<and> (case claimRevision of None \<Rightarrow> True | Some r \<Rightarrow> i_nodeLivenessRevision i < r)) (invocations db)"

definition detach_one :: "ms \<Rightarrow> id \<Rightarrow> id \<Rightarrow> inv_row \<Rightarrow> db \<times> nat \<Rightarrow> db \<times> nat" where
  "detach_one now ws nodeId invocation s =
     (let (db, detached) = s;
          P = (\<lambda>i. inv_at ws (i_id invocation) i \<and> i_dispatchedNodeId i = Some nodeId \<and> open_inv i
            \<and> i_nodeLivenessRevision i = i_nodeLivenessRevision invocation)
      in if isBuiltinReleaseInvocation invocation \<or> isDeletedRegisteredActionInvocation invocation
            \<or> isAcceptedDeletedRegisteredActionInvocation invocation then (db, detached)
         else if filter P (invocations db) = [] then (db, detached)
         else let db' = update_invs P (requeue_set (nextRetryAfter now (i_dispatchAttempts invocation + 1))) db
              in (if isSpawnInvocation (i_actionName invocation) \<and> i_spawnReservedAt invocation \<noteq> None
                  then releaseNodeCapacity ws nodeId 1 db' else db', detached + 1))"

definition detachInvocationsFromLostNode :: "ms \<Rightarrow> id \<Rightarrow> id \<Rightarrow> int \<Rightarrow> db \<Rightarrow> db \<times> nat" where
  "detachInvocationsFromLostNode now ws nodeId claimRevision db =
     fold (detach_one now ws nodeId) (lost_node_rows db ws nodeId (Some claimRevision)) (db, 0)"

subsection \<open>Completion\<close>

record completion =
  co_output :: "json option"
  co_error :: "string option"
  co_durationMs :: "int option"
  co_callerAgentId :: "id option"

definition outcome_set :: "ms \<Rightarrow> json option \<Rightarrow> string option \<Rightarrow> inv_row \<Rightarrow> inv_row" where
  "outcome_set now output error i =
     i\<lparr>i_output := (case output of Some v \<Rightarrow> v | None \<Rightarrow> JNull), i_error := error,
       i_status := (if truthy error \<noteq> None then Failed_inv else Completed), i_completedAt := Some (toSec now)\<rparr>"

definition completeInvocation ::
  "ms \<Rightarrow> id \<Rightarrow> string \<Rightarrow> id \<Rightarrow> completion \<Rightarrow> db \<Rightarrow> (coded + inv_row option) \<times> db" where
  "completeInvocation now ws actionName invocationId data db =
     (case first_row (filter (\<lambda>i. inv_at ws invocationId i \<and> i_actionName i = actionName) (invocations db)) of
        None \<Rightarrow> (Inr None, db)
      | Some existing \<Rightarrow>
          let action = Option.bind (i_actionId existing) (\<lambda>a. first_row (filter (\<lambda>r. ac_id r = a) (actions db)));
              handlerAgentId = truthy (Option.bind action ac_handlerAgentId);
              handlerNodeId = truthy (Option.bind action ac_handlerNodeId)
          in if handlerNodeId \<noteq> None \<or> (handlerAgentId = None \<and> truthy (i_dispatchedNodeId existing) \<noteq> None)
             then (Inl (codedError ''node_owned_invocation'' 403), db)
             else if truthy (co_callerAgentId data) \<noteq> None \<and> handlerAgentId \<noteq> None \<and> co_callerAgentId data \<noteq> handlerAgentId
             then (Inl (codedError ''forbidden'' 403), db)
             else let P = (\<lambda>i. inv_at ws invocationId i \<and> i_actionName i = actionName \<and> open_inv i);
                      f = (\<lambda>i. (outcome_set now (co_output data) (co_error data) i)\<lparr>i_durationMs := co_durationMs data\<rparr>)
                  in (Inr (first_row (returning P f (invocations db))), update_invs P f db))"

text \<open>The invocation a node may report on: sent to this node's provider and not settled.\<close>

definition node_completion_target :: "db \<Rightarrow> id \<Rightarrow> id \<Rightarrow> string \<Rightarrow> id \<Rightarrow> inv_row option" where
  "node_completion_target db ws nodeId providerName invocationId =
     (case first_row (filter (\<lambda>i. inv_at ws invocationId i \<and> i_dispatchedProvider i = Some providerName) (invocations db)) of
        None \<Rightarrow> None
      | Some existing \<Rightarrow>
          if truthy (i_dispatchedNodeId existing) \<noteq> None \<and> i_dispatchedNodeId existing \<noteq> Some nodeId then None
          else if i_status existing = Completed \<or> i_status existing = Failed_inv then None
          else Some existing)"

text \<open>The result of a node, when it is neither a retried \<open>handler_unavailable\<close> nor the completion of a release.\<close>

definition complete_by_node ::
  "ms \<Rightarrow> id \<Rightarrow> id \<Rightarrow> string \<Rightarrow> inv_row \<Rightarrow> json option \<Rightarrow> string option \<Rightarrow> db \<Rightarrow> inv_row option \<times> db" where
  "complete_by_node now ws nodeId providerName existing output error db =
     (let P = (\<lambda>i. inv_at ws (i_id existing) i \<and> i_dispatchedNodeId i = Some nodeId \<and> i_dispatchedProvider i = Some providerName
            \<and> open_inv i);
          f = (\<lambda>i. (outcome_set now output error i)\<lparr>i_spawnReservedAt := None\<rparr>);
          db' = update_invs P f db
      in case first_row (returning P f (invocations db)) of
           None \<Rightarrow> (None, db')
         | Some updated \<Rightarrow>
             (Some updated,
              if isSpawnInvocation (i_actionName updated) \<and> i_spawnReservedAt existing \<noteq> None
              then releaseNodeCapacity ws (the (i_dispatchedNodeId updated)) 1 db' else db'))"

definition completeNodeInvocation_plain ::
  "ms \<Rightarrow> id \<Rightarrow> id \<Rightarrow> string \<Rightarrow> id \<Rightarrow> json option \<Rightarrow> string option \<Rightarrow> db \<Rightarrow> inv_row option \<times> db" where
  "completeNodeInvocation_plain now ws nodeId providerName invocationId output error db =
     (case node_completion_target db ws nodeId providerName invocationId of
        None \<Rightarrow> (None, db)
      | Some existing \<Rightarrow> complete_by_node now ws nodeId providerName existing output error db)"

subsection \<open>Sweeps\<close>

record registry =
  rg_connected :: "id \<Rightarrow> string \<Rightarrow> bool"
  rg_attached :: "id \<Rightarrow> string \<Rightarrow> bool"

definition isHandlerConnectionLive :: "authority \<Rightarrow> registry \<Rightarrow> ms \<Rightarrow> db \<Rightarrow> id \<Rightarrow> id \<Rightarrow> string \<Rightarrow> bool" where
  "isHandlerConnectionLive auth reg now db ws nodeId providerName \<longleftrightarrow>
     rg_connected reg nodeId providerName \<and>
     (case getProvider db ws nodeId providerName of
        None \<Rightarrow> True
      | Some p \<Rightarrow> \<not> rg_attached reg nodeId providerName \<or> providerLive auth now ws nodeId p)"

definition isNodeProviderLive :: "authority \<Rightarrow> registry \<Rightarrow> ms \<Rightarrow> db \<Rightarrow> id \<Rightarrow> id \<Rightarrow> string \<Rightarrow> bool" where
  "isNodeProviderLive auth reg now db ws nodeId providerName \<longleftrightarrow>
     rg_connected reg nodeId providerName \<and>
     (case getProvider db ws nodeId providerName of None \<Rightarrow> False | Some p \<Rightarrow> providerLive auth now ws nodeId p)"

definition targetAgentForInvocation :: "db \<Rightarrow> id \<Rightarrow> id \<Rightarrow> (agent_row \<times> id) option" where
  "targetAgentForInvocation db ws invocationId =
     (case Option.bind (Option.bind (Option.bind (read_inv db ws invocationId) i_actionId)
           (\<lambda>a. first_row (filter (\<lambda>r. ac_id r = a) (actions db))))
         (\<lambda>ac. Option.bind (ac_handlerAgentId ac) (agent_by_id db)) of
        None \<Rightarrow> None
      | Some ag \<Rightarrow> if a_locationType ag \<noteq> ''via_node'' then None else map_option (\<lambda>n. (ag, n)) (truthy (a_locationNodeId ag)))"

definition unreachable_rows :: "db \<Rightarrow> inv_row list" where
  "unreachable_rows db =
     filter (\<lambda>i. (i_status i = Pending \<or> i_status i = Dispatched)
       \<and> (case Option.bind (i_actionId i) (\<lambda>a. first_row (filter (\<lambda>r. ac_id r = a) (actions db))) of
            None \<Rightarrow> False | Some ac \<Rightarrow> ac_handlerNodeId ac = None \<and> ac_handlerAgentId ac \<noteq> None)) (invocations db)"

text \<open>One row of the sweep; \<open>t\<close> is the clock of the row.\<close>

definition sweep_unreachable_one :: "authority \<Rightarrow> registry \<Rightarrow> ms \<Rightarrow> ms \<Rightarrow> inv_row \<Rightarrow> db \<Rightarrow> db" where
  "sweep_unreachable_one auth reg ttlMs t row db =
     (let reachable = (case targetAgentForInvocation db (i_ws row) (i_id row) of
            None \<Rightarrow> False
          | Some (ag, n) \<Rightarrow> isHandlerConnectionLive auth reg t db (i_ws row) n (a_providerName ag))
      in if reachable
         then (if i_handlerUnreachableSince row \<noteq> None
               then db\<lparr>invocations := upd_where (inv_at (i_ws row) (i_id row)) (set_unreachable None) (invocations db)\<rparr>
               else db)
         else let since = (case i_handlerUnreachableSince row of Some s \<Rightarrow> 1000 * s | None \<Rightarrow> t);
                  db' = (if i_handlerUnreachableSince row = None
                         then db\<lparr>invocations := upd_where (\<lambda>i. inv_at (i_ws row) (i_id row) i \<and> open_inv i)
                           (set_unreachable (Some (toSec since))) (invocations db)\<rparr>
                         else db)
              in if t - since \<ge> ttlMs
                 then snd (failOpenInvocationRows t (i_ws row) [i_id row] ''handler_unavailable'' None db') else db')"

definition failUnreachableAgentInvocations :: "authority \<Rightarrow> registry \<Rightarrow> ms \<Rightarrow> ms \<Rightarrow> db \<Rightarrow> db" where
  "failUnreachableAgentInvocations auth reg ttlMs t db = fold (sweep_unreachable_one auth reg ttlMs t) (unreachable_rows db) db"

definition never_dispatched :: "sec \<Rightarrow> inv_row \<Rightarrow> bool" where
  "never_dispatched cutoff i \<longleftrightarrow> i_status i = Pending \<and> i_dispatchAttempts i = 0 \<and> i_createdAt i \<le> cutoff"

definition failNeverDispatchedInvocationRows :: "ms \<Rightarrow> id \<Rightarrow> id list \<Rightarrow> sec \<Rightarrow> string \<Rightarrow> db \<Rightarrow> inv_row list \<times> db" where
  "failNeverDispatchedInvocationRows now ws ids cutoff error db =
     (if ids = [] then ([], db)
      else let P = (\<lambda>i. i_ws i = ws \<and> i_id i \<in> set ids \<and> never_dispatched cutoff i)
           in (returning P (failed_fields now error) (invocations db), update_invs P (failed_fields now error) db))"

end
