(* ===== verification/TaskInvocation.thy ===== *)
theory TaskInvocation
  imports InvocationOps
begin

text \<open>
  Long running task invocations (\<open>engine/taskInvocation.ts\<close>): a worker accepts an execution under its
  generation, reports a final result once, and a deadline bounds both. \<open>acceptTaskInvocation\<close> and
  \<open>completeTaskInvocation\<close> are modelled with no other write between their statements; their commits
  (\<open>accept_write\<close>, \<open>complete_write\<close>) carry every condition of the UPDATE, and \<open>InvocationSteps\<close> runs
  those among all other operations. A message was validated by the wire schema: an identifier that is
  present is not empty.
\<close>

definition live_task :: "inv_row \<Rightarrow> bool" where
  "live_task i \<longleftrightarrow> i_status i = Pending \<or> i_status i = Dispatched \<or> i_status i = Running"

subsection \<open>Creating the state\<close>

definition context_string :: "json option \<Rightarrow> string option" where
  "context_string v =
     (case v of Some (JStr s) \<Rightarrow> if 1 \<le> length s \<and> length s \<le> 512 \<and> trim s = s then Some s else None | _ \<Rightarrow> None)"

definition context_timeout :: "json option \<Rightarrow> int option" where
  "context_timeout v =
     (case v of Some (JNum n) \<Rightarrow>
          if is_numeral_string n \<and> 1 \<le> read_dec n \<and> read_dec n \<le> 86400000 then Some (int (read_dec n)) else None
      | _ \<Rightarrow> None)"

definition createTaskState :: "ms \<Rightarrow> (string \<times> json) list \<Rightarrow> coded + task_state" where
  "createTaskState now input =
     (case map_of input ''task_context'' of
        Some (JObj kvs) \<Rightarrow>
          if list_all (\<lambda>k. k \<in> {''run_id'', ''step_id'', ''dispatch_id'', ''timeout_ms''}) (map fst kvs)
          then (case (context_string (map_of kvs ''run_id''), context_string (map_of kvs ''step_id''),
                      context_string (map_of kvs ''dispatch_id''), context_timeout (map_of kvs ''timeout_ms'')) of
                  (Some r, Some s, Some d, Some t) \<Rightarrow>
                    Inr \<lparr>ts_runId = r, ts_stepId = s, ts_dispatchId = d, ts_timeoutMs = t, ts_deadline = now + t,
                         ts_executionId = None, ts_workerGeneration = None, ts_acceptedAt = None, ts_accounting = None\<rparr>
                | _ \<Rightarrow> Inl (codedError ''invalid_task_context'' 400))
          else Inl (codedError ''invalid_task_context'' 400)
      | _ \<Rightarrow> Inl (codedError ''invalid_task_context'' 400))"

subsection \<open>Receipts and fences\<close>

record task_execution =
  te_executionId :: string
  te_runId :: string
  te_stepId :: string
  te_dispatchId :: string
  te_deadline :: ms
  te_workerGeneration :: "string option"
  te_acceptedAt :: "ms option"
  te_accounting :: "json option"

definition taskExecution :: "inv_row \<Rightarrow> task_execution option" where
  "taskExecution i =
     map_option (\<lambda>t. \<lparr>te_executionId = (case ts_executionId t of Some e \<Rightarrow> e
              | None \<Rightarrow> i_id i @ ''/'' @ show_dec (nat (i_dispatchAttempts i))),
          te_runId = ts_runId t, te_stepId = ts_stepId t, te_dispatchId = ts_dispatchId t, te_deadline = ts_deadline t,
          te_workerGeneration = truthy (ts_workerGeneration t), te_acceptedAt = ts_acceptedAt t, te_accounting = ts_accounting t\<rparr>)
       (i_taskState i)"

record receipt =
  rc_invocationId :: id
  rc_actionName :: string
  rc_status :: inv_status
  rc_execution :: "task_execution option"
  rc_output :: json
  rc_error :: "string option"
  rc_completedAt :: "sec option"

definition receipt_of :: "inv_row \<Rightarrow> receipt" where
  "receipt_of i =
     \<lparr>rc_invocationId = i_id i, rc_actionName = i_actionName i, rc_status = i_status i, rc_execution = taskExecution i,
      rc_output = i_output i, rc_error = i_error i, rc_completedAt = i_completedAt i\<rparr>"

definition owner :: "inv_row option \<Rightarrow> id \<Rightarrow> string \<Rightarrow> coded + inv_row" where
  "owner row nodeId provider =
     (case row of
        None \<Rightarrow> Inl (codedError ''task_not_found'' 404)
      | Some i \<Rightarrow>
          if i_taskState i = None \<or> i_dispatchedNodeId i \<noteq> Some nodeId \<or> i_dispatchedProvider i \<noteq> Some provider
          then Inl (codedError ''task_not_found'' 404) else Inr i)"

definition stale_task_execution :: coded where
  "stale_task_execution = codedError ''stale_task_execution'' 409"

definition fence :: "inv_row \<Rightarrow> string \<Rightarrow> string \<Rightarrow> coded option" where
  "fence i executionId generation =
     (if te_executionId (the (taskExecution i)) \<noteq> executionId
         \<or> (case ts_workerGeneration (the (i_taskState i)) of None \<Rightarrow> False | Some g \<Rightarrow> g \<noteq> generation)
      then Some stale_task_execution else None)"

definition owned_and_fenced :: "inv_row option \<Rightarrow> id \<Rightarrow> string \<Rightarrow> string \<Rightarrow> string \<Rightarrow> coded + inv_row" where
  "owned_and_fenced row nodeId provider executionId generation =
     (case owner row nodeId provider of
        Inl e \<Rightarrow> Inl e
      | Inr i \<Rightarrow> (case fence i executionId generation of Some e \<Rightarrow> Inl e | None \<Rightarrow> Inr i))"

subsection \<open>Deadlines\<close>

definition past_deadline :: "ms \<Rightarrow> inv_row \<Rightarrow> bool" where
  "past_deadline now i \<longleftrightarrow> (case i_taskState i of None \<Rightarrow> False | Some t \<Rightarrow> ts_deadline t \<le> now)"

definition expire_set :: "ms \<Rightarrow> inv_row \<Rightarrow> inv_row" where
  "expire_set now i = i\<lparr>i_status := Failed_inv, i_error := Some ''task_deadline_exceeded'', i_completedAt := Some (toSec now)\<rparr>"

definition expireTaskInvocation :: "ms \<Rightarrow> inv_row \<Rightarrow> db \<Rightarrow> inv_row \<times> db" where
  "expireTaskInvocation now row db =
     (if i_taskState row = None \<or> \<not> live_task row \<or> ts_deadline (the (i_taskState row)) > now then (row, db)
      else let P = (\<lambda>i. inv_at (i_ws row) (i_id row) i \<and> live_task i \<and> past_deadline now i);
               db' = update_invs P (expire_set now) db
           in (case first_row (returning P (expire_set now) (invocations db)) of
                 Some updated \<Rightarrow> updated | None \<Rightarrow> the (read_inv db' (i_ws row) (i_id row)), db'))"

definition expireTaskInvocations :: "ms \<Rightarrow> db \<Rightarrow> db" where
  "expireTaskInvocations now =
     update_invs (\<lambda>i. i_taskState i \<noteq> None \<and> live_task i \<and> past_deadline now i) (expire_set now)"

subsection \<open>Accepting\<close>

record accept_message =
  am_invocationId :: id
  am_executionId :: string
  am_workerGeneration :: string

definition accept_where :: "ms \<Rightarrow> id \<Rightarrow> id \<Rightarrow> string \<Rightarrow> inv_row \<Rightarrow> inv_row \<Rightarrow> bool" where
  "accept_where now ws nodeId provider row i \<longleftrightarrow>
     inv_at ws (i_id row) i \<and> i_status i = Dispatched \<and> i_dispatchedNodeId i = Some nodeId
     \<and> i_dispatchedProvider i = Some provider \<and> i_dispatchAttempts i = i_dispatchAttempts row
     \<and> (case i_taskState i of None \<Rightarrow> False | Some t \<Rightarrow> ts_workerGeneration t = None \<and> ts_deadline t > now)"

definition accept_set :: "ms \<Rightarrow> accept_message \<Rightarrow> inv_row \<Rightarrow> inv_row \<Rightarrow> inv_row" where
  "accept_set now m row i =
     i\<lparr>i_status := Running,
       i_taskState := Some ((the (i_taskState row))\<lparr>ts_executionId := Some (am_executionId m),
         ts_workerGeneration := Some (am_workerGeneration m), ts_acceptedAt := Some now\<rparr>)\<rparr>"

definition accept_write :: "ms \<Rightarrow> id \<Rightarrow> id \<Rightarrow> string \<Rightarrow> accept_message \<Rightarrow> inv_row \<Rightarrow> db \<Rightarrow> inv_row option \<times> db" where
  "accept_write now ws nodeId provider m row db =
     (first_row (returning (accept_where now ws nodeId provider row) (accept_set now m row) (invocations db)),
      update_invs (accept_where now ws nodeId provider row) (accept_set now m row) db)"

text \<open>The receipt, and whether this call accepted.\<close>

definition acceptTaskInvocation ::
  "ms \<Rightarrow> id \<Rightarrow> id \<Rightarrow> string \<Rightarrow> accept_message \<Rightarrow> db \<Rightarrow> (coded + receipt \<times> bool) \<times> db" where
  "acceptTaskInvocation now ws nodeId provider m db =
     (case owned_and_fenced (read_inv db ws (am_invocationId m)) nodeId provider (am_executionId m) (am_workerGeneration m) of
        Inl e \<Rightarrow> (Inl e, db)
      | Inr row0 \<Rightarrow>
          let (row, db1) = expireTaskInvocation now row0 db
          in if i_status row = Completed \<or> i_status row = Failed_inv \<or> i_status row = Running
             then (Inr (receipt_of row, False), db1)
             else case accept_write now ws nodeId provider m row db1 of
                 (Some accepted, db2) \<Rightarrow> (Inr (receipt_of accepted, True), db2)
               | (None, db2) \<Rightarrow>
                   (case owned_and_fenced (read_inv db2 ws (i_id row)) nodeId provider (am_executionId m) (am_workerGeneration m) of
                      Inl e \<Rightarrow> (Inl e, db2)
                    | Inr again \<Rightarrow>
                        if i_status again = Running \<or> i_status again = Completed \<or> i_status again = Failed_inv
                        then (Inr (receipt_of again, False), db2)
                        else (Inl (codedError ''task_not_dispatched'' 409), db2)))"

subsection \<open>Completing\<close>

record result_message =
  rm_id :: "string option"
  rm_invocationId :: id
  rm_executionId :: "string option"
  rm_workerGeneration :: "string option"
  rm_final :: "bool option"
  rm_accounting :: "json option"
  rm_output :: "json option"
  rm_error :: "string option"

definition canonical :: "json option \<Rightarrow> string" where
  "canonical v = (case v of Some j \<Rightarrow> canonicalJson j | None \<Rightarrow> ''null'')"

definition result_output :: "result_message \<Rightarrow> json" where
  "result_output m = (case rm_output m of Some v \<Rightarrow> v | None \<Rightarrow> JNull)"

definition result_status :: "result_message \<Rightarrow> inv_status" where
  "result_status m = (if rm_error m = None then Completed else Failed_inv)"

definition result_matches :: "result_message \<Rightarrow> inv_row \<Rightarrow> bool" where
  "result_matches m i \<longleftrightarrow> i_status i = result_status m \<and> canonicalJson (i_output i) = canonicalJson (result_output m)
     \<and> i_error i = rm_error m \<and> canonical (Option.bind (i_taskState i) ts_accounting) = canonical (rm_accounting m)"

definition complete_where :: "ms \<Rightarrow> id \<Rightarrow> id \<Rightarrow> string \<Rightarrow> result_message \<Rightarrow> inv_row \<Rightarrow> inv_row \<Rightarrow> bool" where
  "complete_where now ws nodeId provider m row i \<longleftrightarrow>
     inv_at ws (i_id row) i \<and> i_status i = Running \<and> i_dispatchedNodeId i = Some nodeId
     \<and> i_dispatchedProvider i = Some provider \<and> i_dispatchAttempts i = i_dispatchAttempts row
     \<and> (case i_taskState i of None \<Rightarrow> False
        | Some t \<Rightarrow> ts_executionId t = rm_executionId m \<and> ts_executionId t \<noteq> None
            \<and> ts_workerGeneration t = rm_workerGeneration m \<and> ts_workerGeneration t \<noteq> None \<and> ts_deadline t > now)"

definition complete_set :: "ms \<Rightarrow> result_message \<Rightarrow> inv_row \<Rightarrow> inv_row \<Rightarrow> inv_row" where
  "complete_set now m row i =
     i\<lparr>i_status := result_status m, i_output := result_output m, i_error := rm_error m, i_completedAt := Some (toSec now),
       i_taskState := Some (let t = the (i_taskState row)
         in case rm_accounting m of None \<Rightarrow> t | Some a \<Rightarrow> t\<lparr>ts_accounting := Some a\<rparr>)\<rparr>"

definition complete_write :: "ms \<Rightarrow> id \<Rightarrow> id \<Rightarrow> string \<Rightarrow> result_message \<Rightarrow> inv_row \<Rightarrow> db \<Rightarrow> inv_row option \<times> db" where
  "complete_write now ws nodeId provider m row db =
     (first_row (returning (complete_where now ws nodeId provider m row) (complete_set now m row) (invocations db)),
      update_invs (complete_where now ws nodeId provider m row) (complete_set now m row) db)"

definition task_result_conflict :: coded where
  "task_result_conflict = codedError ''task_result_conflict'' 409"

text \<open>\<open>None\<close> for a short action; else the receipt and whether this call completed the task.\<close>

definition completeTaskInvocation ::
  "ms \<Rightarrow> id \<Rightarrow> id \<Rightarrow> string \<Rightarrow> result_message \<Rightarrow> db \<Rightarrow> (coded + (receipt \<times> bool) option) \<times> db" where
  "completeTaskInvocation now ws nodeId provider m db =
     (let candidate = read_inv db ws (rm_invocationId m)
      in if Option.bind candidate i_taskState = None
         then (if rm_executionId m \<noteq> None \<or> rm_workerGeneration m \<noteq> None \<or> rm_final m \<noteq> None \<or> rm_accounting m \<noteq> None
               then Inl (codedError ''task_not_found'' 404) else Inr None, db)
         else if rm_id m = None \<or> rm_executionId m = None \<or> rm_workerGeneration m = None \<or> rm_final m = None
         then (Inl (codedError ''invalid_task_result'' 400), db)
         else case owned_and_fenced candidate nodeId provider (the (rm_executionId m)) (the (rm_workerGeneration m)) of
             Inl e \<Rightarrow> (Inl e, db)
           | Inr row0 \<Rightarrow>
               let (row, db1) = expireTaskInvocation now row0 db
               in if ts_acceptedAt (the (i_taskState row)) = None then (Inl (codedError ''task_not_accepted'' 409), db1)
                  else if rm_final m = Some False then (Inr (Some (receipt_of row, False)), db1)
                  else if (case rm_error m of None \<Rightarrow> False | Some e \<Rightarrow> trim e = [])
                  then (Inl (codedError ''invalid_task_result'' 400), db1)
                  else if i_status row = Completed \<or> i_status row = Failed_inv
                  then (if \<not> result_matches m row then (Inl task_result_conflict, db1)
                        else (Inr (Some (receipt_of row, False)), db1))
                  else case complete_write now ws nodeId provider m row db1 of
                      (Some completed, db2) \<Rightarrow> (Inr (Some (receipt_of completed, True)), db2)
                    | (None, db2) \<Rightarrow>
                        (case owned_and_fenced (read_inv db2 ws (i_id row)) nodeId provider
                            (the (rm_executionId m)) (the (rm_workerGeneration m)) of
                           Inl e \<Rightarrow> (Inl e, db2)
                         | Inr again \<Rightarrow>
                             if result_matches m again then (Inr (Some (receipt_of again, False)), db2)
                             else (Inl task_result_conflict, db2)))"

subsection \<open>Facts shared by the proofs\<close>

lemma read_inv_Some: "read_inv db ws k = Some i \<Longrightarrow> i \<in> set (invocations db) \<and> i_ws i = ws \<and> i_id i = k"
  unfolding read_inv_def by (drule first_row_Some) (simp add: inv_at_def)

lemma read_inv_eq:
  assumes "distinct (map i_id (invocations db))" "i \<in> set (invocations db)"
  shows "read_inv db (i_ws i) (i_id i) = Some i"
proof -
  have "filter (inv_at (i_ws i) (i_id i)) (invocations db) = filter (\<lambda>j. i_ws j = i_ws i) (filter (\<lambda>j. i_id j = i_id i) (invocations db))"
    by (auto simp: inv_at_def intro!: filter_cong)
  then show ?thesis using filter_key_singleton [OF assms] by (simp add: read_inv_def)
qed

lemma read_inv_updated:
  assumes "distinct (map i_id (invocations db))" "read_inv db ws k = Some i" "P i" "\<And>j. i_id (f j) = i_id j" "\<And>j. i_ws (f j) = i_ws j"
  shows "read_inv (update_invs P f db) ws k = Some (stamp_inv db (i_nodeLivenessRevision i) (f i))"
proof -
  let ?j = "stamp_inv db (i_nodeLivenessRevision i) (f i)"
  have s: "i_id (stamp_inv d r x) = i_id x" "i_ws (stamp_inv d r x) = i_ws x" for d r x
    by (simp_all add: stamp_inv_def split: option.splits)
  have i: "i \<in> set (invocations db)" "i_ws i = ws" "i_id i = k" using read_inv_Some [OF assms(2)] by auto
  then have "?j \<in> set (invocations (update_invs P f db))" using assms(3) by (auto simp: update_invs_def set_upd_where)
  moreover have "distinct (map i_id (invocations (update_invs P f db)))"
    using assms(1,4) by (simp add: update_invs_def map_upd_where s)
  ultimately have "read_inv (update_invs P f db) (i_ws ?j) (i_id ?j) = Some ?j" by (intro read_inv_eq)
  moreover have "i_ws ?j = ws" "i_id ?j = k" using i assms(4,5) by (simp_all add: s)
  ultimately show ?thesis by simp
qed

lemma returning_one:
  assumes "distinct (map i_id (invocations db))" "i \<in> set (invocations db)" "\<And>j. P j \<Longrightarrow> i_id j = i_id i"
  shows "first_row (returning P f (invocations db)) = (if P i then Some (f i) else None)"
proof -
  have "j = i" if "j \<in> set (invocations db)" "i_id j = i_id i" for j
    using assms(1,2) that by (auto simp: distinct_map dest: inj_onD)
  then have "filter P (invocations db) = filter (\<lambda>j. P i \<and> i_id j = i_id i) (invocations db)"
    using assms(3) by (intro filter_cong refl) blast
  then show ?thesis using filter_key_singleton [OF assms(1,2)] by (cases "P i") (simp_all add: returning_def)
qed

lemma not_live_unchanged: "\<not> live_task i \<Longrightarrow> expireTaskInvocation now i db = (i, db)"
  by (simp add: expireTaskInvocation_def)

lemma owned_and_fenced_Inr:
  assumes "owned_and_fenced row n p ex g = Inr i"
  shows "row = Some i" "i_taskState i \<noteq> None" "i_dispatchedNodeId i = Some n" "i_dispatchedProvider i = Some p"
    "fence i ex g = None"
  using assms by (auto simp: owned_and_fenced_def owner_def split: option.splits sum.splits if_splits)

subsection \<open>Retrying a request\<close>

text \<open>A request that created an invocation under an idempotency key can be sent again: the retry finds the same
  row, creates nothing and changes nothing, whenever it comes. The same key with another payload (another caller,
  or an input that is not equal up to the order of properties) is an error and changes nothing.\<close>
theorem create_is_idempotent:
  assumes first: "createInvocation now (createTaskState now) fr ws action data db = (Inr (row, replayed), db1)"
    and key: "truthy (cd_invocationId data) \<noteq> None"
  shows "createInvocation now' (createTaskState now') fr' ws action data db1 = (Inr (row, True), db1)
    \<and> (cd_invocationId data' = cd_invocationId data \<and> \<not> samePayload row (expected_name action data') data' \<longrightarrow>
       (\<exists>e. createInvocation now' (createTaskState now') fr' ws action data' db1 = (Inl e, db1)))"
proof -
  let ?st = "\<lambda>t d. if is_task action then map_sum id Some (createTaskState t (recordInput (create_input d))) else Inr None"
  obtain k where k: "cd_invocationId data = Some k" using key by (auto simp: truthy_def split: option.splits)
  have "isl (createTaskState now x) = isl (createTaskState now' x)" for x
    by (auto simp: createTaskState_def split: option.splits json.splits)
  then have isl: "isl (createTaskState now (recordInput (create_input data))) = isl (createTaskState now' (recordInput (create_input data)))" .
  have later: "\<exists>t. ?st now' data = Inr t" if "?st now data = Inr s" for s
  proof (cases "is_task action")
    case True
    then have "\<not> isl (createTaskState now (recordInput (create_input data)))"
      using that by (cases "createTaskState now (recordInput (create_input data))") auto
    then obtain t where "createTaskState now' (recordInput (create_input data)) = Inr t"
      using isl by (cases "createTaskState now' (recordInput (create_input data))") auto
    then show ?thesis using True by simp
  qed simp
  obtain s where s: "?st now data = Inr s"
    using first key by (cases "?st now data") (auto simp: createInvocation_def Let_def)
  have same: "samePayload (new_invocation now ws action data k s) (expected_name action data) data"
    by (simp add: samePayload_def new_invocation_def create_input_def)
  have row: "read_inv db1 ws k = Some row \<and> list_ex (\<lambda>i. i_id i = k) (invocations db1)
      \<and> samePayload row (expected_name action data) data"
  proof (cases "list_ex (\<lambda>i. i_id i = k) (invocations db)")
    case False
    then have "row = new_invocation now ws action data k s" "db1 = db\<lparr>invocations := invocations db @ [row]\<rparr>"
      using first key k s by (auto simp: createInvocation_def Let_def)
    moreover have "filter (inv_at ws k) (invocations db) = []"
      using False by (auto simp: filter_empty_conv inv_at_def list_ex_iff)
    ultimately show ?thesis using same by (simp add: read_inv_def inv_at_def new_invocation_def)
  next
    case True
    then show ?thesis
      using first key k s
      by (auto simp: createInvocation_def Let_def assertInvocationClaimMatches_def split: option.splits if_splits)
  qed
  obtain s' where s': "?st now' data = Inr s'" using later [OF s] by blast
  have "createInvocation now' (createTaskState now') fr' ws action data db1 = (Inr (row, True), db1)"
    using row key k s' by (simp add: createInvocation_def Let_def assertInvocationClaimMatches_def)
  moreover have "\<exists>e. createInvocation now' (createTaskState now') fr' ws action data' db1 = (Inl e, db1)"
    if "cd_invocationId data' = cd_invocationId data" "\<not> samePayload row (expected_name action data') data'"
    using row key k that
    by (cases "?st now' data'") (simp_all add: createInvocation_def Let_def assertInvocationClaimMatches_def)
  ultimately show ?thesis by blast
qed

definition ex_create :: "string \<Rightarrow> create_data" where
  "ex_create v = \<lparr>cd_input = Some (JObj [(''cli'', JStr v)]), cd_callerId = Some ''1'', cd_callerName = None,
     cd_handlerAgentId = None, cd_handlerNodeId = None, cd_actionName = None, cd_status = None, cd_invocationId = Some ''inv_k''\<rparr>"

theorem create_is_idempotent_witness:
  "\<exists>row. createInvocation 5000 (createTaskState 5000) ''f'' ''w'' None (ex_create ''claude'')
      (snd (createInvocation 1000 (createTaskState 1000) ''e'' ''w'' None (ex_create ''claude'') ex_fleet))
    = (Inr (row, True), snd (createInvocation 1000 (createTaskState 1000) ''e'' ''w'' None (ex_create ''claude'') ex_fleet))"
proof -
  obtain row where first: "createInvocation 1000 (createTaskState 1000) ''e'' ''w'' None (ex_create ''claude'') ex_fleet
      = (Inr (row, False), snd (createInvocation 1000 (createTaskState 1000) ''e'' ''w'' None (ex_create ''claude'') ex_fleet))"
    by (simp add: createInvocation_def Let_def is_task_def ex_create_def ex_fleet_def)
  from create_is_idempotent [OF this, of 5000 "''f''"] show ?thesis
    by (intro exI [of _ row]) (simp add: ex_create_def truthy_def)
qed

subsection \<open>One result per task\<close>

lemma taskExecution_revision [simp]: "taskExecution (i\<lparr>i_nodeLivenessRevision := r\<rparr>) = taskExecution i"
  by (cases "i_taskState i"; simp add: taskExecution_def split: option.split)

lemma stamp_keeps [simp]:
  "i_id (stamp_inv db r i) = i_id i" "i_ws (stamp_inv db r i) = i_ws i" "i_status (stamp_inv db r i) = i_status i"
  "i_output (stamp_inv db r i) = i_output i" "i_error (stamp_inv db r i) = i_error i"
  "i_taskState (stamp_inv db r i) = i_taskState i" "i_dispatchedNodeId (stamp_inv db r i) = i_dispatchedNodeId i"
  "i_dispatchedProvider (stamp_inv db r i) = i_dispatchedProvider i" "i_dispatchAttempts (stamp_inv db r i) = i_dispatchAttempts i"
  "receipt_of (stamp_inv db r i) = receipt_of i" "result_matches m (stamp_inv db r i) = result_matches m i"
  "live_task (stamp_inv db r i) = live_task i"
  by (simp_all add: stamp_inv_def receipt_of_def result_matches_def live_task_def split: option.splits)

lemma expire_result:
  assumes "distinct (map i_id (invocations db))" "read_inv db ws k = Some i"
  shows "expireTaskInvocation now i db =
    (if live_task i \<and> past_deadline now i
     then (expire_set now i, update_invs (\<lambda>j. inv_at (i_ws i) (i_id i) j \<and> live_task j \<and> past_deadline now j) (expire_set now) db)
     else (i, db))"
proof -
  have "first_row (returning (\<lambda>j. inv_at (i_ws i) (i_id i) j \<and> live_task j \<and> past_deadline now j) (expire_set now) (invocations db))
      = (if live_task i \<and> past_deadline now i then Some (expire_set now i) else None)"
    using read_inv_Some [OF assms(2)] by (subst returning_one [OF assms(1), of i]) (auto simp: inv_at_def)
  then show ?thesis by (auto simp: expireTaskInvocation_def Let_def past_deadline_def split: option.splits)
qed

text \<open>What a call that completes a task found and wrote.\<close>

lemma completed_by:
  assumes keys: "distinct (map i_id (invocations db))"
    and run: "completeTaskInvocation now ws nodeId provider m db = (Inr (Some (rc, True)), db')"
  obtains i where "read_inv db ws (rm_invocationId m) = Some i" "\<not> past_deadline now i" "complete_where now ws nodeId provider m i i"
    "ts_acceptedAt (the (i_taskState i)) \<noteq> None" "rc = receipt_of (complete_set now m i i)"
    "read_inv db' ws (rm_invocationId m) = Some (stamp_inv db (i_nodeLivenessRevision i) (complete_set now m i i))"
    "rm_id m \<noteq> None" "rm_final m = Some True" "\<forall>e. rm_error m = Some e \<longrightarrow> trim e \<noteq> []"
    "distinct (map i_id (invocations db'))"
proof -
  let ?k = "rm_invocationId m"
  have cand: "Option.bind (read_inv db ws ?k) i_taskState \<noteq> None" and ids: "rm_id m \<noteq> None" "rm_executionId m \<noteq> None"
      "rm_workerGeneration m \<noteq> None" "rm_final m \<noteq> None"
    using run by (auto simp: completeTaskInvocation_def Let_def split: if_splits)
  obtain i where own: "owned_and_fenced (read_inv db ws ?k) nodeId provider (the (rm_executionId m)) (the (rm_workerGeneration m)) = Inr i"
    using run cand ids by (cases "owned_and_fenced (read_inv db ws ?k) nodeId provider (the (rm_executionId m)) (the (rm_workerGeneration m))")
      (auto simp: completeTaskInvocation_def Let_def)
  note oi = owned_and_fenced_Inr [OF own]
  note ir = read_inv_Some [OF oi(1)]
  have notpast: "\<not> (live_task i \<and> past_deadline now i)"
  proof
    assume "live_task i \<and> past_deadline now i"
    then show False
      using run cand ids own expire_result [OF keys oi(1), of now]
      by (auto simp: completeTaskInvocation_def Let_def expire_set_def split: if_splits option.splits)
  qed
  have ex: "expireTaskInvocation now i db = (i, db)"
    by (subst expire_result [OF keys oi(1)]) (simp only: notpast if_False)
  have r1: "first_row (returning (complete_where now ws nodeId provider m i) (complete_set now m i) (invocations db))
      = (if complete_where now ws nodeId provider m i i then Some (complete_set now m i i) else None)"
    using ir by (subst returning_one [OF keys, of i]) (auto simp: complete_where_def inv_at_def)
  have acc: "ts_acceptedAt (the (i_taskState i)) \<noteq> None" and fin: "rm_final m = Some True"
    and err: "\<forall>e. rm_error m = Some e \<longrightarrow> trim e \<noteq> []" and w: "complete_where now ws nodeId provider m i i"
    and rc: "rc = receipt_of (complete_set now m i i)"
    and db': "db' = update_invs (complete_where now ws nodeId provider m i) (complete_set now m i) db"
    using run cand ids own ex r1
    by (auto simp: completeTaskInvocation_def Let_def complete_write_def split: if_splits option.splits sum.splits)
  have cs: "i_id (complete_set now m i j) = i_id j" "i_ws (complete_set now m i j) = i_ws j" for j
    by (simp_all add: complete_set_def)
  have "read_inv db' ws ?k = Some (stamp_inv db (i_nodeLivenessRevision i) (complete_set now m i i))"
    unfolding db' by (rule read_inv_updated [OF keys oi(1)]) (simp_all add: w cs)
  moreover have "\<not> past_deadline now i" using w notpast by (auto simp: complete_where_def live_task_def)
  moreover have "distinct (map i_id (invocations db'))" using keys by (simp add: db' update_invs_def map_upd_where cs)
  ultimately show ?thesis using that oi(1) acc fin err w rc ids(1) by blast
qed

lemma canonical_None: "canonicalJson v = ''null'' \<Longrightarrow> canonical (Some v) = canonical None"
  by (simp add: canonical_def)

text \<open>C35: A task gets one result, and reporting it is idempotent: once a worker's final result was recorded, the
  same report, repeated at any later time, is answered by the same receipt without a second completion or any
  change; a report of the same worker with another status, output, error or accounting is refused as a conflict
  and changes nothing.\<close>
theorem task_result_is_idempotent:
  assumes keys: "distinct (map i_id (invocations db))"
    and run: "completeTaskInvocation now ws nodeId provider m db = (Inr (Some (rc, True)), db')"
    and fresh: "Option.bind (Option.bind (read_inv db ws (rm_invocationId m)) i_taskState) ts_accounting = None"
  shows "completeTaskInvocation later ws nodeId provider m db' = (Inr (Some (rc, False)), db')
    \<and> (\<not> result_matches m' (the (read_inv db' ws (rm_invocationId m))) \<longrightarrow>
        rm_invocationId m' = rm_invocationId m \<longrightarrow> rm_executionId m' = rm_executionId m \<longrightarrow>
        rm_workerGeneration m' = rm_workerGeneration m \<longrightarrow> rm_final m' = Some True \<longrightarrow>
        (\<exists>e. completeTaskInvocation later ws nodeId provider m' db' = (Inl e, db')))"
proof -
  let ?k = "rm_invocationId m"
  obtain i where i: "read_inv db ws ?k = Some i" "complete_where now ws nodeId provider m i i"
      "ts_acceptedAt (the (i_taskState i)) \<noteq> None" "rc = receipt_of (complete_set now m i i)"
      "read_inv db' ws ?k = Some (stamp_inv db (i_nodeLivenessRevision i) (complete_set now m i i))"
      "rm_id m \<noteq> None" "rm_final m = Some True" "\<forall>e. rm_error m = Some e \<longrightarrow> trim e \<noteq> []"
    using completed_by [OF keys run] by metis
  let ?j = "stamp_inv db (i_nodeLivenessRevision i) (complete_set now m i i)"
  obtain t where ts: "i_taskState i = Some t" using i(2) by (cases "i_taskState i") (simp_all add: complete_where_def)
  have t: "i_taskState i = Some t" "ts_executionId t = rm_executionId m" "ts_executionId t \<noteq> None"
      "ts_workerGeneration t = rm_workerGeneration m" "ts_workerGeneration t \<noteq> None"
    using i(2) ts by (simp_all only: complete_where_def option.case) metis+
  obtain ex g where eg: "rm_executionId m = Some ex" "rm_workerGeneration m = Some g"
    using t(2-5) by (metis not_None_eq)
  define t' where "t' = (case rm_accounting m of None \<Rightarrow> t | Some a \<Rightarrow> t\<lparr>ts_accounting := Some a\<rparr>)"
  have j: "i_taskState ?j = Some t'" "i_dispatchedNodeId ?j = Some nodeId" "i_dispatchedProvider ?j = Some provider"
      "i_status ?j = result_status m" "receipt_of ?j = rc"
    using i(2,4) t(1) by (auto simp: complete_set_def complete_where_def t'_def Let_def)
  have t': "ts_executionId t' = Some ex" "ts_workerGeneration t' = Some g" "ts_acceptedAt t' \<noteq> None"
    using t eg i(3) by (auto simp: t'_def split: option.splits)
  have own: "owned_and_fenced (Some ?j) nodeId provider ex g = Inr ?j"
    using j t' by (simp add: owned_and_fenced_def owner_def fence_def taskExecution_def)
  have dead: "\<not> live_task ?j" "i_status ?j = Completed \<or> i_status ?j = Failed_inv"
    using j(4) by (auto simp: live_task_def result_status_def split: if_splits)
  have "ts_accounting t = None" using fresh i(1) t(1) by simp
  then have match: "result_matches m ?j"
    using j(1) by (auto simp: result_matches_def complete_set_def t'_def t(1) Let_def split: option.splits)
  have same: "completeTaskInvocation later ws nodeId provider m db' = (Inr (Some (rc, False)), db')"
    using i(5-8) own eg j(1,5) dead match t'(3)
    by (auto simp: completeTaskInvocation_def Let_def not_live_unchanged split: option.splits)
  have conflict: "\<exists>e. completeTaskInvocation later ws nodeId provider m' db' = (Inl e, db')"
    if "\<not> result_matches m' (the (read_inv db' ws ?k))" "rm_invocationId m' = ?k" "rm_executionId m' = rm_executionId m"
      "rm_workerGeneration m' = rm_workerGeneration m" "rm_final m' = Some True"
    using that i(5) own eg j(1) dead t'(3)
    by (auto simp: completeTaskInvocation_def Let_def not_live_unchanged split: option.splits)
  from same conflict show ?thesis by blast
qed

definition ex_report :: "string \<Rightarrow> result_message" where
  "ex_report v = \<lparr>rm_id = Some ''r1'', rm_invocationId = ''i1'', rm_executionId = Some ''i1/1'', rm_workerGeneration = Some ''g1'',
     rm_final = Some True, rm_accounting = Some (JNum ''7''), rm_output = Some (JStr v), rm_error = None\<rparr>"

definition ex_task :: task_state where
  "ex_task = \<lparr>ts_runId = ''r'', ts_stepId = ''s'', ts_dispatchId = ''d'', ts_timeoutMs = 60000, ts_deadline = 61000,
     ts_executionId = Some ''i1/1'', ts_workerGeneration = Some ''g1'', ts_acceptedAt = Some 2000, ts_accounting = None\<rparr>"

definition ex_running :: db where
  "ex_running = ex_fleet\<lparr>invocations := [(new_invocation 1000 ''w'' None (ex_create ''claude'') ''i1'' (Some ex_task))
     \<lparr>i_status := Running, i_dispatchedNodeId := Some ''n1'', i_dispatchedProvider := Some ''p'', i_dispatchAttempts := 1\<rparr>]\<rparr>"

lemma ex_completes:
  "\<exists>rc db'. completeTaskInvocation 3000 ''w'' ''n1'' ''p'' (ex_report ''ok'') ex_running = (Inr (Some (rc, True)), db')"
  by (simp add: completeTaskInvocation_def ex_running_def ex_fleet_def ex_report_def ex_task_def new_invocation_def ex_create_def
      read_inv_def inv_at_def owned_and_fenced_def owner_def fence_def taskExecution_def expireTaskInvocation_def
      complete_write_def complete_where_def complete_set_def returning_def)

theorem task_result_is_idempotent_witness:
  "\<exists>rc. completeTaskInvocation 90000 ''w'' ''n1'' ''p'' (ex_report ''ok'')
      (snd (completeTaskInvocation 3000 ''w'' ''n1'' ''p'' (ex_report ''ok'') ex_running))
    = (Inr (Some (rc, False)), snd (completeTaskInvocation 3000 ''w'' ''n1'' ''p'' (ex_report ''ok'') ex_running))"
proof -
  obtain rc db' where run: "completeTaskInvocation 3000 ''w'' ''n1'' ''p'' (ex_report ''ok'') ex_running = (Inr (Some (rc, True)), db')"
    using ex_completes by blast
  have "distinct (map i_id (invocations ex_running))"
      "Option.bind (Option.bind (read_inv ex_running ''w'' (rm_invocationId (ex_report ''ok''))) i_taskState) ts_accounting = None"
    by (simp_all add: ex_running_def ex_fleet_def ex_report_def read_inv_def inv_at_def new_invocation_def ex_task_def)
  from task_result_is_idempotent [OF this(1) run this(2), of 90000 "ex_report ''ok''"] show ?thesis
    unfolding run by simp
qed

subsection \<open>Fences and deadlines\<close>

text \<open>C36: A worker that lost its task cannot write it: once one generation accepted a task, an acceptance or a report
  of any other generation is answered with an error, and the rows stay as they were.\<close>
theorem stale_worker_is_fenced:
  assumes "read_inv db ws k = Some i" "i_taskState i = Some t" "ts_workerGeneration t = Some g"
    and "am_invocationId a = k" "am_workerGeneration a \<noteq> g" "rm_invocationId m = k" "rm_workerGeneration m \<noteq> Some g"
  shows "(\<exists>e. acceptTaskInvocation now ws nodeId provider a db = (Inl e, db))
    \<and> (\<exists>e. completeTaskInvocation now ws nodeId provider m db = (Inl e, db))"
proof -
  have "\<exists>e. owned_and_fenced (Some i) nodeId provider ex h = Inl e" if "h \<noteq> g" for ex h
    using assms(2,3) that by (auto simp: owned_and_fenced_def owner_def fence_def)
  moreover have "the (rm_workerGeneration m) \<noteq> g" if "rm_workerGeneration m \<noteq> None" using assms(7) that by auto
  ultimately have a: "\<exists>e. owned_and_fenced (Some i) nodeId provider (am_executionId a) (am_workerGeneration a) = Inl e"
      and c: "rm_workerGeneration m \<noteq> None \<Longrightarrow>
        \<exists>e. owned_and_fenced (Some i) nodeId provider (the (rm_executionId m)) (the (rm_workerGeneration m)) = Inl e"
    using assms(5) by blast+
  have "\<exists>e. acceptTaskInvocation now ws nodeId provider a db = (Inl e, db)"
    using a assms(1,4) by (auto simp: acceptTaskInvocation_def)
  moreover have "\<exists>e. completeTaskInvocation now ws nodeId provider m db = (Inl e, db)"
    using c assms(1,2,6) by (cases "rm_workerGeneration m") (auto simp: completeTaskInvocation_def Let_def)
  ultimately show ?thesis ..
qed

theorem stale_worker_is_fenced_witness:
  "\<exists>e. completeTaskInvocation 3000 ''w'' ''n1'' ''p'' ((ex_report ''ok'')\<lparr>rm_workerGeneration := Some ''g0''\<rparr>) ex_running = (Inl e, ex_running)"
proof -
  obtain i where i: "read_inv ex_running ''w'' ''i1'' = Some i" "i_taskState i = Some ex_task"
    by (simp add: ex_running_def ex_fleet_def read_inv_def inv_at_def new_invocation_def)
  show ?thesis
    using stale_worker_is_fenced [OF i, of "''g1''"
        "\<lparr>am_invocationId = ''i1'', am_executionId = ''i1/1'', am_workerGeneration = ''g0''\<rparr>"
        "(ex_report ''ok'')\<lparr>rm_workerGeneration := Some ''g0''\<rparr>" 3000 "''n1''" "''p''"]
    by (simp add: ex_task_def ex_report_def)
qed

text \<open>C37: A deadline bounds a task: a report that completes it found it running in time, accepted under the reporter's
  node, provider, execution and generation, and the sweep run at any time leaves no unfinished task whose deadline
  has passed: those rows, and no others, fail with the deadline's error.\<close>
theorem task_deadline_bounds_completion:
  assumes keys: "distinct (map i_id (invocations db))"
    and run: "completeTaskInvocation now ws nodeId provider m db = (Inr (Some (rc, True)), db')"
  shows "(\<exists>i t. read_inv db ws (rm_invocationId m) = Some i \<and> i_status i = Running \<and> i_taskState i = Some t
        \<and> now < ts_deadline t \<and> i_dispatchedNodeId i = Some nodeId \<and> i_dispatchedProvider i = Some provider
        \<and> ts_executionId t = rm_executionId m \<and> ts_workerGeneration t = rm_workerGeneration m \<and> ts_acceptedAt t \<noteq> None)
    \<and> list_all2 (\<lambda>i j. if i_taskState i \<noteq> None \<and> live_task i \<and> past_deadline later i
          then i_status j = Failed_inv \<and> i_error j = Some ''task_deadline_exceeded'' \<and> i_completedAt j = Some (toSec later)
          else j = i) (invocations db') (invocations (expireTaskInvocations later db'))"
proof
  obtain i where i: "read_inv db ws (rm_invocationId m) = Some i" "complete_where now ws nodeId provider m i i"
      "ts_acceptedAt (the (i_taskState i)) \<noteq> None"
    using completed_by [OF keys run] by metis
  obtain t where "i_taskState i = Some t" using i(2) by (cases "i_taskState i") (simp_all add: complete_where_def)
  with i show "\<exists>i t. read_inv db ws (rm_invocationId m) = Some i \<and> i_status i = Running \<and> i_taskState i = Some t
        \<and> now < ts_deadline t \<and> i_dispatchedNodeId i = Some nodeId \<and> i_dispatchedProvider i = Some provider
        \<and> ts_executionId t = rm_executionId m \<and> ts_workerGeneration t = rm_workerGeneration m \<and> ts_acceptedAt t \<noteq> None"
    by (intro exI [of _ i] exI [of _ t]) (simp add: complete_where_def)
  show "list_all2 (\<lambda>i j. if i_taskState i \<noteq> None \<and> live_task i \<and> past_deadline later i
          then i_status j = Failed_inv \<and> i_error j = Some ''task_deadline_exceeded'' \<and> i_completedAt j = Some (toSec later)
          else j = i) (invocations db') (invocations (expireTaskInvocations later db'))"
    by (auto simp: expireTaskInvocations_def update_invs_def upd_where_def list_all2_conv_all_nth expire_set_def stamp_inv_def
        split: option.splits)
qed

theorem task_deadline_bounds_completion_witness:
  "\<exists>i. read_inv ex_running ''w'' ''i1'' = Some i \<and> i_status i = Running
    \<and> list_all2 (\<lambda>i j. i_status j = i_status i)
        (invocations (snd (completeTaskInvocation 3000 ''w'' ''n1'' ''p'' (ex_report ''ok'') ex_running)))
        (invocations (expireTaskInvocations 900000 (snd (completeTaskInvocation 3000 ''w'' ''n1'' ''p'' (ex_report ''ok'') ex_running))))"
proof -
  obtain rc db' where run: "completeTaskInvocation 3000 ''w'' ''n1'' ''p'' (ex_report ''ok'') ex_running = (Inr (Some (rc, True)), db')"
    using ex_completes by blast
  have keys: "distinct (map i_id (invocations ex_running))" by (simp add: ex_running_def ex_fleet_def)
  have finished: "list_all (\<lambda>j. \<not> live_task j) (invocations db')"
    using run
    by (simp add: completeTaskInvocation_def ex_running_def ex_fleet_def ex_report_def ex_task_def new_invocation_def ex_create_def
      read_inv_def inv_at_def owned_and_fenced_def owner_def fence_def taskExecution_def expireTaskInvocation_def
      complete_write_def complete_where_def complete_set_def returning_def update_invs_def upd_where_def result_status_def)
     (auto simp: live_task_def)
  from task_deadline_bounds_completion [OF keys run, of 900000] show ?thesis
    using finished unfolding run by (auto simp: ex_report_def list_all2_conv_all_nth list_all_length)
qed

end
