(* ===== verification/InvocationWrites.thy ===== *)
theory InvocationWrites
  imports TaskInvocation
begin

text \<open>
  The statements by which the other parts of the engine write rows of \<open>action_invocations\<close>: the release of an agent and
  its completion by the node (\<open>engine/action.ts\<close>), the refresh of an action, the deletion of a node (\<open>engine/node.ts\<close>), and
  the acceptance of a frame by the owner of the socket (\<open>adapters/node/realtime.ts\<close>). Each definition is one statement;
  what its \<open>WHERE\<close> reads of tables that are not modelled here (that the generation of a release is still current, that
  the node may still be deleted, that the handler is still active on the node) is the argument \<open>current\<close>. The last one,
  the error path of an inventory snapshot, has no condition on the status.
\<close>

subsection \<open>Releases\<close>

text \<open>\<open>{status: 'failed', error, completedAt}\<close> where the invocation is open: the releases that find no agent, a stale
  generation, no host or no provider, and an unauthorized frame. \<open>current\<close> is the condition on the generation, if any.\<close>

definition fail_release :: "ms \<Rightarrow> id \<Rightarrow> id \<Rightarrow> string \<Rightarrow> bool \<Rightarrow> db \<Rightarrow> db" where
  "fail_release now ws invocationId error current =
     update_invs (\<lambda>i. inv_at ws invocationId i \<and> open_inv i \<and> current)
       (\<lambda>i. i\<lparr>i_status := Failed_inv, i_error := Some error, i_completedAt := Some (toSec now)\<rparr>)"

definition complete_release :: "ms \<Rightarrow> id \<Rightarrow> id \<Rightarrow> id option \<Rightarrow> string \<Rightarrow> bool \<Rightarrow> db \<Rightarrow> db" where
  "complete_release now ws invocationId exitNodeId releasedName current =
     update_invs (\<lambda>i. inv_at ws invocationId i \<and> open_inv i \<and> current)
       (\<lambda>i. i\<lparr>i_status := Completed, i_handlerNodeId := exitNodeId,
          i_output := JObj [(''released'', JBool True), (''deleted'', JBool False), (''reaped_locally'', JBool True),
            (''released_name'', JStr releasedName)],
          i_completedAt := Some (toSec now)\<rparr>)"

definition dispatched_release :: "id \<Rightarrow> id \<Rightarrow> id \<Rightarrow> string \<Rightarrow> inv_row \<Rightarrow> bool" where
  "dispatched_release ws invocationId nodeId providerName i \<longleftrightarrow> inv_at ws invocationId i \<and> i_dispatchedNodeId i = Some nodeId
     \<and> i_dispatchedProvider i = Some providerName \<and> open_inv i"

definition fail_release_by_node :: "ms \<Rightarrow> id \<Rightarrow> id \<Rightarrow> id \<Rightarrow> string \<Rightarrow> string \<Rightarrow> bool \<Rightarrow> db \<Rightarrow> db" where
  "fail_release_by_node now ws invocationId nodeId providerName error current =
     update_invs (\<lambda>i. dispatched_release ws invocationId nodeId providerName i \<and> current) (failed_fields now error)"

definition complete_release_by_node :: "ms \<Rightarrow> id \<Rightarrow> id \<Rightarrow> id \<Rightarrow> string \<Rightarrow> json option \<Rightarrow> bool \<Rightarrow> db \<Rightarrow> db" where
  "complete_release_by_node now ws invocationId nodeId providerName out current =
     update_invs (\<lambda>i. dispatched_release ws invocationId nodeId providerName i \<and> current)
       (\<lambda>i. i\<lparr>i_output := (case out of Some v \<Rightarrow> v | None \<Rightarrow> JNull), i_error := None, i_status := Completed,
          i_completedAt := Some (toSec now), i_spawnReservedAt := None\<rparr>)"

subsection \<open>Actions, placement and drains\<close>

text \<open>An accepted attempt is detached from an action that moves to another handler.\<close>

definition detach_accepted :: "id \<Rightarrow> id \<Rightarrow> db \<Rightarrow> db" where
  "detach_accepted ws previousId db =
     db\<lparr>invocations := upd_where (\<lambda>i. i_ws i = ws \<and> i_actionId i = Some previousId \<and> i_origin i = RegisteredAction
          \<and> i_providerAcceptedAttempt i = Some (i_dispatchAttempts i) \<and> open_inv i)
        (\<lambda>i. i\<lparr>i_actionId := None\<rparr>) (invocations db)\<rparr>"

text \<open>A spawn that found no place is withdrawn, so that a retry with its key may try again.\<close>

definition withdraw_unplaced :: "id \<Rightarrow> id \<Rightarrow> db \<Rightarrow> db" where
  "withdraw_unplaced ws invocationId db =
     db\<lparr>invocations := filter (\<lambda>i. \<not> (inv_at ws invocationId i \<and> i_status i = Pending \<and> i_handlerNodeId i = None
          \<and> i_dispatchedNodeId i = None \<and> i_spawnReservedAt i = None \<and> i_dispatchAttempts i = 0)) (invocations db)\<rparr>"

text \<open>A drained spawn whose node is ready but full waits.\<close>

definition defer_drained :: "ms \<Rightarrow> id \<Rightarrow> id \<Rightarrow> db \<Rightarrow> db" where
  "defer_drained retryAt ws invocationId db =
     db\<lparr>invocations := upd_where (\<lambda>i. inv_at ws invocationId i \<and> i_status i = Pending)
        (\<lambda>i. i\<lparr>i_retryAfterAt := Some (toSec retryAt)\<rparr>) (invocations db)\<rparr>"

text \<open>The mark of a hold is put back when returning the slot failed.\<close>

definition restore_retry_hold :: "inv_row \<Rightarrow> int option \<Rightarrow> db \<Rightarrow> db" where
  "restore_retry_hold invocation expectedRevision db =
     db\<lparr>invocations := upd_where (\<lambda>i. inv_at (i_ws invocation) (i_id invocation) i \<and> i_status i = i_status invocation
          \<and> i_dispatchAttempts i = i_dispatchAttempts invocation \<and> i_retryAfterAt i = i_retryAfterAt invocation
          \<and> rev_ok expectedRevision i \<and> i_spawnReservedAt i = None)
        (\<lambda>i. i\<lparr>i_spawnReservedAt := i_spawnReservedAt invocation\<rparr>) (invocations db)\<rparr>"

text \<open>A spawn whose capability is shadowed by an action of its node stays pinned to the node.\<close>

definition pin_to_shadow :: "inv_row \<Rightarrow> int option \<Rightarrow> db \<Rightarrow> db" where
  "pin_to_shadow invocation expectedRevision =
     update_invs (\<lambda>i. inv_at (i_ws invocation) (i_id invocation) i \<and> open_inv i \<and> rev_ok expectedRevision i)
       (\<lambda>i. i\<lparr>i_status := Pending, i_dispatchedAt := None, i_spawnReservedAt := None, i_retryAfterAt := None\<rparr>)"

subsection \<open>The deletion of a node\<close>

definition fail_invocations_of_node :: "ms \<Rightarrow> id \<Rightarrow> id \<Rightarrow> bool \<Rightarrow> db \<Rightarrow> db" where
  "fail_invocations_of_node now ws nodeId current db =
     (let hosted = map ac_id (filter (\<lambda>a. ac_ws a = ws \<and> ac_handlerNodeId a = Some nodeId) (actions db))
      in update_invs (\<lambda>i. i_ws i = ws \<and> (open_inv i \<or> i_status i = Running)
           \<and> (i_dispatchedNodeId i = Some nodeId \<or> (\<exists>a. i_actionId i = Some a \<and> a \<in> set hosted)
              \<or> i_handlerNodeId i = Some nodeId \<and> i_dispatchedNodeId i = None \<and> i_actionId i = None \<and> i_dispatchAttempts i = 0
                \<and> (i_origin i = Builtin \<or> i_actionName i = ''spawn'' \<or> starts_with ''spawn:'' (map to_lower (i_actionName i))))
           \<and> current)
         (failed_fields now ''node_deleted'') db)"

text \<open>The foreign keys \<open>ON DELETE SET NULL\<close> of the node and of the caller.\<close>

definition unlink_node :: "id \<Rightarrow> db \<Rightarrow> db" where
  "unlink_node nodeId db =
     db\<lparr>invocations := upd_where (\<lambda>i. i_dispatchedNodeId i = Some nodeId) (\<lambda>i. i\<lparr>i_dispatchedNodeId := None\<rparr>) (invocations db)\<rparr>"

definition unlink_caller :: "id \<Rightarrow> db \<Rightarrow> db" where
  "unlink_caller agentId db =
     db\<lparr>invocations := upd_where (\<lambda>i. i_callerId i = Some agentId) (\<lambda>i. i\<lparr>i_callerId := None\<rparr>) (invocations db)\<rparr>"

subsection \<open>The owner of the socket\<close>

text \<open>A registered action of a node: the exact attempt is marked accepted before the frame is handed over.\<close>

record node_acceptance =
  na_invocationId :: id
  na_actionId :: id
  na_invocationActionName :: string
  na_actionName :: string
  na_dispatchAttempt :: int

definition accept_node_action :: "id \<Rightarrow> id \<Rightarrow> string \<Rightarrow> node_acceptance \<Rightarrow> db \<Rightarrow> db" where
  "accept_node_action ws nodeId providerName a db =
     db\<lparr>invocations := upd_where (\<lambda>i. inv_at ws (na_invocationId a) i \<and> i_origin i = RegisteredAction
          \<and> i_actionId i = Some (na_actionId a) \<and> i_actionName i = na_invocationActionName a
          \<and> i_dispatchedNodeId i = Some nodeId \<and> i_dispatchedProvider i = Some providerName
          \<and> i_dispatchAttempts i = na_dispatchAttempt a \<and> i_providerAcceptedAttempt i \<noteq> Some (na_dispatchAttempt a)
          \<and> i_status i = Dispatched
          \<and> registeredActionDispatchPredicate db ws nodeId providerName (na_actionId a) (na_actionName a) None)
        (\<lambda>i. i\<lparr>i_providerAcceptedAttempt := Some (na_dispatchAttempt a)\<rparr>) (invocations db)\<rparr>"

text \<open>An action of an agent: the claim of the observed row and the acceptance are one statement. \<open>current\<close>: the action is
  active and its handler is active on this node and provider.\<close>

record agent_acceptance =
  aa_invocationId :: id
  aa_actionId :: id
  aa_actionName :: string
  aa_handlerAgentId :: id
  aa_claim :: claim_token
  aa_pending :: bool
  aa_retryAfterAt :: "ms option"
  aa_recordAttempt :: bool
  aa_reservationHeld :: bool
  aa_expectedRevision :: "int option"

definition accept_agent_action :: "ms \<Rightarrow> id \<Rightarrow> id \<Rightarrow> string \<Rightarrow> agent_acceptance \<Rightarrow> bool \<Rightarrow> db \<Rightarrow> db" where
  "accept_agent_action now ws nodeId providerName a current =
     (let c = aa_claim a;
          deadline = fst (exclusiveClaimWrite now (cl_status c) (cl_retryAfterAt c) (cl_dispatchAttempts c)
            (if aa_pending a then Pending else Dispatched) (aa_retryAfterAt a) (aa_recordAttempt a))
      in update_invs (\<lambda>i. inv_at ws (aa_invocationId a) i \<and> i_origin i = RegisteredAction \<and> i_actionId i = Some (aa_actionId a)
           \<and> i_actionName i = aa_actionName a \<and> i_status i = cl_status c \<and> retryAfterAtMatches (cl_retryAfterAt c) i
           \<and> i_dispatchAttempts i = cl_dispatchAttempts c \<and> i_handlerAgentId i = Some (aa_handlerAgentId a)
           \<and> i_handlerNodeId i = Some nodeId \<and> rev_ok (aa_expectedRevision a) i \<and> current)
         (\<lambda>i. let j = route_fields now nodeId providerName (aa_reservationHeld a) (\<not> aa_recordAttempt a)
                       (state_fields now (aa_pending a) deadline i)
              in j\<lparr>i_providerAcceptedAttempt := Some (i_dispatchAttempts j)\<rparr>))"

subsection \<open>The error path of an inventory snapshot\<close>

text \<open>When the rescheduling of a spawn that the snapshot does not list throws: by identifier alone.\<close>

definition reconcile_requeue :: "ms \<Rightarrow> inv_row \<Rightarrow> db \<Rightarrow> db" where
  "reconcile_requeue now invocation =
     update_invs (\<lambda>i. i_id i = i_id invocation)
       (\<lambda>i. i\<lparr>i_status := Pending, i_dispatchedNodeId := None, i_dispatchedProvider := None, i_dispatchedAt := None,
          i_retryAfterAt := Some (toSec (now + 5000))\<rparr>)"

end
