(* ===== verification/InvocationSteps.thy ===== *)
theory InvocationSteps
  imports InvocationWrites
begin

text \<open>
  The writers of \<open>action_invocations\<close> in any order and for any arguments: a status moves along the edges of one state
  machine, and an outcome once recorded never changes. The calls of \<open>inv_call\<close> are every statement of the engine and of
  the socket owner that writes the table except the error path of an inventory snapshot (\<open>reconcile_requeue\<close>), which
  reopens a finished invocation (\<open>reconcile_requeue_reopens\<close>), and the cascade of a deleted workspace. Then a fact about the
  operations that concurrent dispatchers share: an exclusive claim has a single winner.
\<close>

subsection \<open>The state machine\<close>

definition terminal :: "inv_row \<Rightarrow> bool" where
  "terminal i \<longleftrightarrow> i_status i = Completed \<or> i_status i = Failed_inv"

fun edge :: "inv_status \<Rightarrow> inv_status \<Rightarrow> bool" where
  "edge Pending s \<longleftrightarrow> s \<in> {Pending, Dispatched, Completed, Failed_inv}"
| "edge Dispatched s \<longleftrightarrow> s \<in> {Pending, Dispatched, Running, Completed, Failed_inv}"
| "edge Invoked s \<longleftrightarrow> s \<in> {Pending, Dispatched, Invoked, Completed, Failed_inv}"
| "edge Running s \<longleftrightarrow> s \<in> {Running, Completed, Failed_inv}"
| "edge Completed s \<longleftrightarrow> s = Completed"
| "edge Failed_inv s \<longleftrightarrow> s = Failed_inv"

lemma edge_refl [simp]: "edge s s"
  by (cases s) auto

definition moves :: "inv_row \<Rightarrow> inv_row \<Rightarrow> bool" where
  "moves i j \<longleftrightarrow> i_id j = i_id i \<and> i_ws j = i_ws i \<and> edge (i_status i) (i_status j)
     \<and> (terminal i \<longrightarrow> i_output j = i_output i \<and> i_error j = i_error i \<and> i_completedAt j = i_completedAt i)"

lemma moves_refl [simp]: "moves i i"
  by (simp add: moves_def)

text \<open>An outcome is final along a run; \<open>edge\<close> itself holds for each step.\<close>

definition final :: "inv_row \<Rightarrow> inv_row \<Rightarrow> bool" where
  "final i j \<longleftrightarrow> i_id j = i_id i \<and> i_ws j = i_ws i
     \<and> (terminal i \<longrightarrow> i_status j = i_status i \<and> i_output j = i_output i \<and> i_error j = i_error i \<and> i_completedAt j = i_completedAt i)
     \<and> (i_status i = Running \<longrightarrow> i_status j = Running \<or> terminal j)"

lemma moves_final: "moves i j \<Longrightarrow> final i j"
  by (cases "i_status i") (auto simp: moves_def final_def terminal_def)

lemma final_trans: "final i j \<Longrightarrow> final j k \<Longrightarrow> final i k"
  by (auto simp: final_def terminal_def)

definition rows_move :: "(inv_row \<Rightarrow> inv_row \<Rightarrow> bool) \<Rightarrow> db \<Rightarrow> db \<Rightarrow> bool" where
  "rows_move R db db' \<longleftrightarrow>
     (\<exists>old new. invocations db' = old @ new \<and> list_all2 R (invocations db) old)"

lemma rows_move_same: "(\<And>i. R i i) \<Longrightarrow> invocations db' = invocations db \<Longrightarrow> rows_move R db db'"
  unfolding rows_move_def by (rule exI [of _ "invocations db"]) (simp add: list_all2_same)

lemma rows_move_upd:
  assumes "\<And>i. R i i" "invocations db' = upd_where P g (invocations db)" "\<And>i. i \<in> set (invocations db) \<Longrightarrow> P i \<Longrightarrow> R i (g i)"
  shows "rows_move R db db'"
  unfolding rows_move_def
  using assms by (intro exI [of _ "invocations db'"] exI [of _ "[]"]) (auto simp: upd_where_def list_all2_conv_all_nth)

lemma rows_move_trans:
  assumes "\<And>i j k. R i j \<Longrightarrow> R j k \<Longrightarrow> R i k" "rows_move R db db1" "rows_move R db1 db2"
  shows "rows_move R db db2"
proof -
  obtain o1 n1 where 1: "invocations db1 = o1 @ n1" "list_all2 R (invocations db) o1"
    using assms(2) by (auto simp: rows_move_def)
  obtain o2 n2 where 2: "invocations db2 = o2 @ n2" "list_all2 R (o1 @ n1) o2"
    using assms(3) 1(1) by (auto simp: rows_move_def)
  from 2(2) obtain a b where ab: "o2 = a @ b" "list_all2 R o1 a"
    by (auto simp: list_all2_append1)
  have "list_all2 R (invocations db) a" by (rule list_all2_trans [OF assms(1) 1(2) ab(2)])
  then show ?thesis using 2(1) ab(1) unfolding rows_move_def by (intro exI [of _ a] exI [of _ "b @ n2"]) simp
qed

lemma rows_move_mono: "rows_move R db db' \<Longrightarrow> (\<And>i j. R i j \<Longrightarrow> S i j) \<Longrightarrow> rows_move S db db'"
  unfolding rows_move_def by (blast intro: list_all2_mono)

text \<open>Writing the stamp of the trigger does not count.\<close>

lemma stamp_inv_fields [simp]:
  "i_id (stamp_inv db r i) = i_id i" "i_ws (stamp_inv db r i) = i_ws i" "i_status (stamp_inv db r i) = i_status i"
  "i_output (stamp_inv db r i) = i_output i" "i_error (stamp_inv db r i) = i_error i"
  "i_completedAt (stamp_inv db r i) = i_completedAt i" "i_retryAfterAt (stamp_inv db r i) = i_retryAfterAt i"
  "i_dispatchAttempts (stamp_inv db r i) = i_dispatchAttempts i" "i_spawnReservedAt (stamp_inv db r i) = i_spawnReservedAt i"
  "i_dispatchedNodeId (stamp_inv db r i) = i_dispatchedNodeId i" "i_actionName (stamp_inv db r i) = i_actionName i"
  "i_dispatchedProvider (stamp_inv db r i) = i_dispatchedProvider i" "i_taskState (stamp_inv db r i) = i_taskState i"
  by (simp_all add: stamp_inv_def split: option.splits)

lemma invocations_update_invs:
  "invocations (update_invs P f db) = upd_where P (\<lambda>i. stamp_inv db (i_nodeLivenessRevision i) (f i)) (invocations db)"
  by (simp add: update_invs_def)

lemma moves_stamp [simp]: "moves i (stamp_inv db r j) = moves i j"
  by (simp add: moves_def)

lemma move_update_invs:
  "(\<And>i. i \<in> set (invocations db) \<Longrightarrow> P i \<Longrightarrow> moves i (f i)) \<Longrightarrow> rows_move moves db (update_invs P f db)"
  by (rule rows_move_upd [OF moves_refl invocations_update_invs]) simp

lemma move_upd_where:
  "(\<And>i. P i \<Longrightarrow> moves i (f i)) \<Longrightarrow> rows_move moves db (db\<lparr>invocations := upd_where P f (invocations db)\<rparr>)"
  by (rule rows_move_upd [OF moves_refl, where P = P and g = f]) auto

lemma invocations_releaseNodeCapacity [simp]: "invocations (releaseNodeCapacity ws n c db) = invocations db"
  by (simp add: releaseNodeCapacity_def)

lemma invocations_release_holds [simp]: "invocations (release_holds ws held db) = invocations db"
proof -
  have "invocations (fold (\<lambda>i. releaseNodeCapacity ws (the (i_dispatchedNodeId i)) 1) xs db) = invocations db" for xs
    by (induction xs arbitrary: db) auto
  then show ?thesis by (simp add: release_holds_def)
qed

lemma rows_move_release [simp]:
  "rows_move R db (releaseNodeCapacity ws n c db') = rows_move R db db'"
  "rows_move R db (release_holds ws held db') = rows_move R db db'"
  by (simp_all add: rows_move_def)

text \<open>What the writes do to a row that is open.\<close>

lemma moves_open:
  assumes "open_inv i" "i_id j = i_id i" "i_ws j = i_ws i" "i_status j \<in> {Pending, Dispatched, Completed, Failed_inv}"
  shows "moves i j"
  using assms by (cases "i_status i") (auto simp: moves_def open_inv_def terminal_def)

lemma moves_same_status:
  "i_id j = i_id i \<Longrightarrow> i_ws j = i_ws i \<Longrightarrow> i_status j = i_status i \<Longrightarrow> i_output j = i_output i \<Longrightarrow> i_error j = i_error i
   \<Longrightarrow> i_completedAt j = i_completedAt i \<Longrightarrow> moves i j"
  by (simp add: moves_def)

subsection \<open>Calls\<close>

datatype inv_call =
    Create ms "(string \<times> json) list \<Rightarrow> coded + task_state" id id "action_row option" create_data
  | FailUnavailable ms id id "int option"
  | FailNeverDispatched ms id id string
  | FailOpen ms id "id list" string "int option"
  | Attempt ms id id id dispatch_opts
  | Restore id id restore_token
  | Handoff ms id id handoff
  | Bind id id id string id string
  | SettleDeleted ms id id "int option"
  | SendFailed ms id id id string id int
  | Snapshot id id id "int option"
  | DeleteAction id
  | MarkDrained ms id id id
  | MarkUnsent ms id id id
  | ClaimUnsent id id
  | ReleaseHold inv_row "int option"
  | RequeueExhausted ms inv_row "ms option" "int option"
  | RequeueAfterError ms inv_row bool
  | Detach ms id id int
  | CompleteByAgent ms id string id completion
  | CompleteByNode ms id id string id "json option" "string option"
  | SweepUnreachable authority registry ms ms
  | SweepNeverDispatched ms id "id list" sec string
  | AcceptTask ms id id string accept_message
  | AcceptCommit ms id id string accept_message inv_row
  | CompleteTask ms id id string result_message
  | CompleteCommit ms id id string result_message inv_row
  | FailRelease ms id id string bool
  | CompleteRelease ms id id "id option" string bool
  | FailReleaseByNode ms id id id string string bool
  | CompleteReleaseByNode ms id id id string "json option" bool
  | DetachAccepted id id
  | WithdrawUnplaced id id
  | DeferDrained ms id id
  | RestoreHold inv_row "int option"
  | PinToShadow inv_row "int option"
  | DeleteNode ms id id bool
  | UnlinkNode id
  | UnlinkCaller id
  | AcceptNodeAction id id string node_acceptance
  | AcceptAgentAction ms id id string agent_acceptance bool
  | ExpireTask ms inv_row
  | ExpireTasks ms

fun run_inv_call :: "inv_call \<Rightarrow> db \<Rightarrow> db" where
  "run_inv_call (Create now task fresh ws action data) db = snd (createInvocation now task fresh ws action data db)"
| "run_inv_call (FailUnavailable now ws i r) db = failInvocationForUnavailableProvider now ws i r db"
| "run_inv_call (FailNeverDispatched now ws i e) db = snd (failNeverDispatchedInvocation now ws i e db)"
| "run_inv_call (FailOpen now ws ids e r) db = snd (failOpenInvocationRows now ws ids e r db)"
| "run_inv_call (Attempt now ws i n opts) db = snd (dispatchNodeAttempt now ws i n opts db)"
| "run_inv_call (Restore ws i t) db = restoreUnsentSpawnClaim ws i t db"
| "run_inv_call (Handoff now ws i h) db = snd (claimRegisteredActionHandoff now ws i h db)"
| "run_inv_call (Bind ws i n p a nm) db = snd (bindInvocationToRegisteredNodeAction ws i n p a nm db)"
| "run_inv_call (SettleDeleted now ws i r) db = snd (settleDeletedRegisteredAction now ws i r db)"
| "run_inv_call (SendFailed now ws i n p a k) db = snd (settleRegisteredActionSendFailure now ws i n p a k db)"
| "run_inv_call (Snapshot ws i n r) db = snd (snapshotInvocationHandlerNode ws i n r db)"
| "run_inv_call (DeleteAction a) db = delete_action_row a db"
| "run_inv_call (MarkDrained now ws i n) db = snd (markDrainedInvocationDispatched now ws i n db)"
| "run_inv_call (MarkUnsent now ws i n) db = markUnsentNativeSpawn now ws i n db"
| "run_inv_call (ClaimUnsent ws i) db = snd (claimUnsentNativeSpawn ws i db)"
| "run_inv_call (ReleaseHold iv r) db = release_retry_hold iv r db"
| "run_inv_call (RequeueExhausted now iv t r) db = requeue_exhausted now iv t r db"
| "run_inv_call (RequeueAfterError now iv c) db = requeue_after_error now iv c db"
| "run_inv_call (Detach now ws n r) db = fst (detachInvocationsFromLostNode now ws n r db)"
| "run_inv_call (CompleteByAgent now ws a i d) db = snd (completeInvocation now ws a i d db)"
| "run_inv_call (CompleteByNode now ws n p i out e) db = snd (completeNodeInvocation_plain now ws n p i out e db)"
| "run_inv_call (SweepUnreachable auth reg ttl t) db = failUnreachableAgentInvocations auth reg ttl t db"
| "run_inv_call (SweepNeverDispatched now ws ids c e) db = snd (failNeverDispatchedInvocationRows now ws ids c e db)"
| "run_inv_call (AcceptTask now ws n p m) db = snd (acceptTaskInvocation now ws n p m db)"
| "run_inv_call (AcceptCommit now ws n p m row) db = snd (accept_write now ws n p m row db)"
| "run_inv_call (CompleteTask now ws n p m) db = snd (completeTaskInvocation now ws n p m db)"
| "run_inv_call (CompleteCommit now ws n p m row) db = snd (complete_write now ws n p m row db)"
| "run_inv_call (FailRelease now ws i e c) db = fail_release now ws i e c db"
| "run_inv_call (CompleteRelease now ws i n r c) db = complete_release now ws i n r c db"
| "run_inv_call (FailReleaseByNode now ws i n p e c) db = fail_release_by_node now ws i n p e c db"
| "run_inv_call (CompleteReleaseByNode now ws i n p out c) db = complete_release_by_node now ws i n p out c db"
| "run_inv_call (DetachAccepted ws a) db = detach_accepted ws a db"
| "run_inv_call (WithdrawUnplaced ws i) db = withdraw_unplaced ws i db"
| "run_inv_call (DeferDrained t ws i) db = defer_drained t ws i db"
| "run_inv_call (RestoreHold iv r) db = restore_retry_hold iv r db"
| "run_inv_call (PinToShadow iv r) db = pin_to_shadow iv r db"
| "run_inv_call (DeleteNode now ws n c) db = fail_invocations_of_node now ws n c db"
| "run_inv_call (UnlinkNode n) db = unlink_node n db"
| "run_inv_call (UnlinkCaller a) db = unlink_caller a db"
| "run_inv_call (AcceptNodeAction ws n p a) db = accept_node_action ws n p a db"
| "run_inv_call (AcceptAgentAction now ws n p a c) db = accept_agent_action now ws n p a c db"
| "run_inv_call (ExpireTask now row) db = snd (expireTaskInvocation now row db)"
| "run_inv_call (ExpireTasks now) db = expireTaskInvocations now db"

text \<open>
  What the callers guarantee: a claim pins one of the three statuses of \<open>InvocationClaimStatus\<close>, and only
  an open invocation is rescheduled.
\<close>

fun call_ok :: "inv_call \<Rightarrow> bool" where
  "call_ok (Attempt _ _ _ _ opts) \<longleftrightarrow>
     (case da_claim opts of None \<Rightarrow> True | Some c \<Rightarrow> cl_status c \<in> {Pending, Dispatched, Invoked})"
| "call_ok (RequeueExhausted _ iv _ _) \<longleftrightarrow> open_inv iv"
| "call_ok (AcceptAgentAction _ _ _ _ a _) \<longleftrightarrow> cl_status (aa_claim a) \<in> {Pending, Dispatched, Invoked}"
| "call_ok _ \<longleftrightarrow> True"

inductive inv_step :: "db \<Rightarrow> db \<Rightarrow> bool" where
  call: "call_ok c \<Longrightarrow> inv_step db (run_inv_call c db)"

subsection \<open>Every call keeps what is settled\<close>

lemma final_refl [simp]: "final i i"
  by (simp add: final_def)

lemma move_same [simp]: "rows_move moves db db" "rows_move final db db"
  by (rule rows_move_same; simp)+

lemma set_fields [simp]:
  "i_id (failed_fields now e i) = i_id i" "i_ws (failed_fields now e i) = i_ws i" "i_status (failed_fields now e i) = Failed_inv"
  "i_id (requeue_set t i) = i_id i" "i_ws (requeue_set t i) = i_ws i" "i_status (requeue_set t i) = Pending"
  "i_id (outcome_set now out er i) = i_id i" "i_ws (outcome_set now out er i) = i_ws i"
  "i_status (outcome_set now out er i) \<in> {Pending, Dispatched, Completed, Failed_inv}"
  "i_id (expire_set now i) = i_id i" "i_ws (expire_set now i) = i_ws i" "i_status (expire_set now i) = Failed_inv"
  "i_id (accept_set now m row i) = i_id i" "i_ws (accept_set now m row i) = i_ws i" "i_status (accept_set now m row i) = Running"
  "i_id (complete_set now rm row i) = i_id i" "i_ws (complete_set now rm row i) = i_ws i"
  "i_status (complete_set now rm row i) = result_status rm"
  by (simp_all add: failed_fields_def requeue_set_def outcome_set_def expire_set_def accept_set_def complete_set_def)

lemma route_fields_simps [simp]:
  "i_id (route_fields now n p h s i) = i_id i" "i_ws (route_fields now n p h s i) = i_ws i"
  "i_status (route_fields now n p h s i) = i_status i"
  "i_id (state_fields now pd r i) = i_id i" "i_ws (state_fields now pd r i) = i_ws i"
  "i_status (state_fields now pd r i) = (if pd then Pending else Dispatched)"
  by (simp_all add: route_fields_def state_fields_def)

lemma attempt_moves:
  "call_ok (Attempt now ws iv n opts) \<Longrightarrow> rows_move moves db (snd (dispatchNodeAttempt now ws iv n opts db))"
  unfolding dispatchNodeAttempt_def Let_def snd_conv
  by (rule move_update_invs, rule moves_open)
    (auto simp: open_inv_def claim_matches_def split: option.splits)

lemma restore_moves: "rows_move moves db (restoreUnsentSpawnClaim ws iv t db)"
  unfolding restoreUnsentSpawnClaim_def
  by (rule move_update_invs, rule moves_open) (auto simp: open_inv_def)

lemma handoff_moves: "rows_move moves db (snd (claimRegisteredActionHandoff now ws iv h db))"
  unfolding claimRegisteredActionHandoff_def snd_conv
  by (rule move_update_invs, rule moves_open) (auto simp: handoff_where_def handoff_set_def Let_def)

lemma settle_deleted_moves: "rows_move moves db (snd (settleDeletedRegisteredAction now ws iv r db))"
  unfolding settleDeletedRegisteredAction_def Let_def snd_conv
  by (rule move_update_invs, rule moves_open) auto

lemma fail_open_moves: "rows_move moves db (snd (failOpenInvocationRows now ws ids e r db))"
  by (auto simp: failOpenInvocationRows_def Let_def open_among_def intro!: move_update_invs moves_open)

lemma accept_moves: "rows_move moves db (snd (accept_write now ws n p m row db))"
  unfolding accept_write_def snd_conv
  by (rule move_update_invs) (auto simp: accept_where_def moves_def terminal_def)

lemma complete_moves: "rows_move moves db (snd (complete_write now ws n p m row db))"
  unfolding complete_write_def snd_conv
  by (rule move_update_invs) (auto simp: complete_where_def moves_def terminal_def result_status_def)

lemma expire_one_moves: "live_task i \<Longrightarrow> moves i (expire_set now i)"
  by (cases "i_status i") (auto simp: moves_def live_task_def terminal_def)

lemma expire_moves: "rows_move moves db (snd (expireTaskInvocation now row db))"
  by (auto simp: expireTaskInvocation_def Let_def intro!: move_update_invs expire_one_moves)

lemma expire_all_moves: "rows_move moves db (expireTaskInvocations now db)"
  unfolding expireTaskInvocations_def by (rule move_update_invs, rule expire_one_moves) simp

lemma complete_by_agent_moves: "rows_move moves db (snd (completeInvocation now ws a iv d db))"
proof -
  have "rows_move moves db (update_invs (\<lambda>i. inv_at ws iv i \<and> i_actionName i = a \<and> open_inv i)
      (\<lambda>i. (outcome_set now (co_output d) (co_error d) i)\<lparr>i_durationMs := co_durationMs d\<rparr>) db)"
    by (rule move_update_invs, rule moves_open) (auto simp: outcome_set_def)
  then show ?thesis by (auto simp: completeInvocation_def Let_def split: option.splits)
qed

lemma complete_by_node_moves: "rows_move moves db (snd (completeNodeInvocation_plain now ws n p iv out e db))"
proof -
  have "rows_move moves db (snd (complete_by_node now ws n p ex out e db))" for ex
  proof -
    have m: "rows_move moves db (update_invs (\<lambda>i. inv_at ws (i_id ex) i \<and> i_dispatchedNodeId i = Some n
        \<and> i_dispatchedProvider i = Some p \<and> open_inv i) (\<lambda>i. (outcome_set now out e i)\<lparr>i_spawnReservedAt := None\<rparr>) db)"
      by (rule move_update_invs, rule moves_open) (auto simp: outcome_set_def)
    then show ?thesis by (simp add: complete_by_node_def Let_def split: option.splits)
  qed
  then show ?thesis by (auto simp: completeNodeInvocation_plain_def split: option.splits)
qed

lemma never_dispatched_moves: "rows_move moves db (snd (failNeverDispatchedInvocationRows now ws ids c e db))"
  by (auto simp: failNeverDispatchedInvocationRows_def Let_def never_dispatched_def open_inv_def
      intro!: move_update_invs moves_open)

lemma hold_moves: "rows_move moves db (release_retry_hold iv r db)"
proof -
  let ?P = "\<lambda>i. inv_at (i_ws iv) (i_id iv) i \<and> i_status i = i_status iv \<and> i_dispatchAttempts i = i_dispatchAttempts iv
    \<and> i_retryAfterAt i = i_retryAfterAt iv \<and> rev_ok r i \<and> i_spawnReservedAt i = i_spawnReservedAt iv"
  have "rows_move moves db (db\<lparr>invocations := upd_where ?P (\<lambda>i. i\<lparr>i_spawnReservedAt := None\<rparr>) (invocations db)\<rparr>)"
    by (rule move_upd_where) (simp add: moves_def)
  then show ?thesis by (auto simp: release_retry_hold_def Let_def)
qed

lemma create_moves: "rows_move moves db (snd (createInvocation now task fresh ws action data db))"
proof -
  have app: "rows_move moves db (db\<lparr>invocations := invocations db @ [r]\<rparr>)" for r
    unfolding rows_move_def by (intro exI [of _ "invocations db"] exI [of _ "[r]"]) (simp add: list_all2_same)
  show ?thesis
    by (simp add: createInvocation_def Let_def app split: sum.split option.split)
qed

lemma rows_final: "rows_move moves db db' \<Longrightarrow> rows_move final db db'"
  by (erule rows_move_mono) (rule moves_final)

lemma final_run: "rows_move final a b \<Longrightarrow> rows_move final b c \<Longrightarrow> rows_move final a c"
  by (rule rows_move_trans) (rule final_trans)

lemma final_step: "rows_move final db db1 \<Longrightarrow> rows_move moves db1 db2 \<Longrightarrow> rows_move final db db2"
  by (rule final_run [OF _ rows_final])

lemma fold_final:
  fixes g :: "'s \<Rightarrow> db"
  assumes "\<And>x s. rows_move final (g s) (g (f x s))"
  shows "rows_move final (g s) (g (fold f xs s))"
proof (induction xs arbitrary: s)
  case (Cons x xs)
  show ?case using final_run [OF assms Cons.IH] by simp
qed simp

lemma detach_final: "rows_move final db (fst (detachInvocationsFromLostNode now ws n r db))"
proof -
  have one: "rows_move final (fst s) (fst (detach_one now ws n x s))" for x s
  proof -
    obtain d k where s: "s = (d, k)" by (cases s)
    let ?P = "\<lambda>i. inv_at ws (i_id x) i \<and> i_dispatchedNodeId i = Some n \<and> open_inv i
      \<and> i_nodeLivenessRevision i = i_nodeLivenessRevision x"
    have "rows_move moves d (update_invs ?P (requeue_set (nextRetryAfter now (i_dispatchAttempts x + 1))) d)"
      by (rule move_update_invs, rule moves_open) auto
    then show ?thesis
      by (auto simp: s detach_one_def Let_def intro: rows_final)
  qed
  have "rows_move final (fst (db, 0::nat)) (fst (fold (detach_one now ws n) (lost_node_rows db ws n (Some r)) (db, 0)))"
    by (rule fold_final [where g = fst and f = "detach_one now ws n" and xs = "lost_node_rows db ws n (Some r)" and s = "(db, 0)", OF one])
  then show ?thesis by (simp add: detachInvocationsFromLostNode_def)
qed

lemma unreachable_final: "rows_move final db (failUnreachableAgentInvocations auth reg ttl t db)"
proof -
  have mark: "rows_move moves d (d\<lparr>invocations := upd_where P (set_unreachable v) (invocations d)\<rparr>)" for P v d
    by (rule move_upd_where) (simp add: moves_def set_unreachable_def)
  have one: "rows_move final d (sweep_unreachable_one auth reg ttl t row d)" for row d
    unfolding sweep_unreachable_one_def Let_def
    by (auto intro!: rows_final [OF mark] final_step [OF rows_final [OF mark] fail_open_moves]
        rows_final [OF fail_open_moves])
  show ?thesis unfolding failUnreachableAgentInvocations_def using fold_final [where g = "\<lambda>d. d" and f = "sweep_unreachable_one auth reg ttl t", OF one] by simp
qed

lemma accept_task_final: "rows_move final db (snd (acceptTaskInvocation now ws n p m db))"
proof (cases "owned_and_fenced (read_inv db ws (am_invocationId m)) n p (am_executionId m) (am_workerGeneration m)")
  case (Inr row0)
  obtain row db1 where e: "expireTaskInvocation now row0 db = (row, db1)" by fastforce
  obtain acc db2 where w: "accept_write now ws n p m row db1 = (acc, db2)" by fastforce
  have d1: "rows_move final db db1" using rows_final [OF expire_moves, of db now row0] e by simp
  have d2: "rows_move final db db2" using final_step [OF d1 accept_moves, of now ws n p m row] w by simp
  show ?thesis by (simp add: acceptTaskInvocation_def Inr e w d1 d2 split: option.splits sum.splits)
qed (simp add: acceptTaskInvocation_def)

lemma complete_task_final: "rows_move final db (snd (completeTaskInvocation now ws n p m db))"
proof (cases "owned_and_fenced (read_inv db ws (rm_invocationId m)) n p (the (rm_executionId m)) (the (rm_workerGeneration m))")
  case (Inr row0)
  obtain row db1 where e: "expireTaskInvocation now row0 db = (row, db1)" by fastforce
  obtain acc db2 where w: "complete_write now ws n p m row db1 = (acc, db2)" by fastforce
  have d1: "rows_move final db db1" using rows_final [OF expire_moves, of db now row0] e by simp
  have d2: "rows_move final db db2" using final_step [OF d1 complete_moves, of now ws n p m row] w by simp
  show ?thesis by (simp add: completeTaskInvocation_def Let_def Inr e w d1 d2 split: option.splits sum.splits)
qed (simp add: completeTaskInvocation_def Let_def)

lemma send_failed_final: "rows_move final db (snd (settleRegisteredActionSendFailure now ws iv n p a k db))"
proof -
  let ?P = "\<lambda>i. inv_at ws iv i \<and> i_origin i = RegisteredAction \<and> i_actionId i = Some a \<and> i_dispatchedNodeId i = Some n
    \<and> i_dispatchedProvider i = Some p \<and> i_dispatchAttempts i = k \<and> open_inv i"
  let ?f = "\<lambda>i. i\<lparr>i_status := Failed_inv, i_error := Some ''node_dispatch_unavailable'', i_completedAt := Some (toSec now)\<rparr>"
  have d1: "rows_move final db (update_invs ?P ?f db)"
    by (rule rows_final, rule move_update_invs, rule moves_open) auto
  show ?thesis
    using final_step [OF d1 settle_deleted_moves, of now ws iv None] d1
    by (simp add: settleRegisteredActionSendFailure_def Let_def split: option.splits)
qed

text \<open>The statements of the other parts.\<close>

lemma release_moves:
  "rows_move moves db (fail_release now ws iv e c db)" "rows_move moves db (complete_release now ws iv n r c db)"
  "rows_move moves db (fail_release_by_node now ws iv nid p e c db)"
  "rows_move moves db (complete_release_by_node now ws iv nid p out c db)"
  "rows_move moves db (pin_to_shadow row rv db)"
  unfolding fail_release_def complete_release_def fail_release_by_node_def complete_release_by_node_def pin_to_shadow_def
    dispatched_release_def
  by (rule move_update_invs, rule moves_open; simp)+

lemma mark_moves:
  "rows_move moves db (detach_accepted ws a db)" "rows_move moves db (defer_drained t ws iv db)"
  "rows_move moves db (restore_retry_hold row rv db)" "rows_move moves db (accept_node_action ws n p na db)"
  "rows_move moves db (unlink_node n db)" "rows_move moves db (unlink_caller a db)"
  unfolding unlink_node_def unlink_caller_def detach_accepted_def defer_drained_def restore_retry_hold_def accept_node_action_def
  by (rule move_upd_where, simp add: moves_def)+

lemma node_deleted_moves: "rows_move moves db (fail_invocations_of_node now ws n c db)"
proof -
  have "moves i (failed_fields now ''node_deleted'' i)" if "open_inv i \<or> i_status i = Running" for i
    using that by (cases "i_status i") (auto simp: moves_def open_inv_def terminal_def)
  then show ?thesis unfolding fail_invocations_of_node_def Let_def by (intro move_update_invs) blast
qed

lemma accept_agent_moves:
  "cl_status (aa_claim a) \<in> {Pending, Dispatched, Invoked} \<Longrightarrow> rows_move moves db (accept_agent_action now ws n p a c db)"
  unfolding accept_agent_action_def Let_def
  by (rule move_update_invs, rule moves_open) (auto simp: open_inv_def)

text \<open>What is settled is kept: a row that is completed, failed or running stays in the table, and moves on as \<open>final\<close> says.
  A row that waits may be withdrawn.\<close>

definition settled :: "inv_row \<Rightarrow> bool" where
  "settled i \<longleftrightarrow> terminal i \<or> i_status i = Running"

definition kept :: "db \<Rightarrow> db \<Rightarrow> bool" where
  "kept db db' \<longleftrightarrow> (\<forall>i \<in> set (invocations db). settled i \<longrightarrow> (\<exists>j \<in> set (invocations db'). final i j))"

lemma rows_move_kept: "rows_move final db db' \<Longrightarrow> kept db db'"
  unfolding kept_def rows_move_def by (fastforce simp: list_all2_conv_all_nth in_set_conv_nth nth_append)

lemma final_settled: "final i j \<Longrightarrow> settled i \<Longrightarrow> settled j"
  by (auto simp: final_def settled_def terminal_def)

lemma kept_trans: "kept a b \<Longrightarrow> kept b c \<Longrightarrow> kept a c"
  unfolding kept_def by (meson final_settled final_trans)

lemma withdraw_kept: "kept db (withdraw_unplaced ws iv db)"
  by (auto simp: kept_def withdraw_unplaced_def settled_def terminal_def intro!: bexI [of _ i for i])

lemma run_final:
  assumes "call_ok c" "\<And>ws i. c \<noteq> WithdrawUnplaced ws i"
  shows "rows_move final db (run_inv_call c db)"
proof (cases c)
  case (FailUnavailable now ws iv r)
  have "rows_move moves db (failInvocationForUnavailableProvider now ws iv r db)"
    unfolding failInvocationForUnavailableProvider_def by (rule move_update_invs, rule moves_open) auto
  with FailUnavailable show ?thesis by (simp add: rows_final)
next
  case (FailNeverDispatched now ws iv e)
  have "rows_move moves db (snd (failNeverDispatchedInvocation now ws iv e db))"
    unfolding failNeverDispatchedInvocation_def Let_def snd_conv by (rule move_update_invs, rule moves_open) auto
  with FailNeverDispatched show ?thesis by (simp add: rows_final)
next
  case (Attempt now ws iv n opts)
  with assms(1) show ?thesis by (simp add: rows_final attempt_moves del: call_ok.simps)
next
  case (RequeueExhausted now iv t r)
  have "rows_move moves db (requeue_exhausted now iv t r db)"
    unfolding requeue_exhausted_def
    by (rule move_update_invs, rule moves_open) (use assms(1) RequeueExhausted in \<open>auto simp: open_inv_def\<close>)
  with RequeueExhausted show ?thesis by (simp add: rows_final)
next
  case (RequeueAfterError now iv b)
  have "rows_move moves db (requeue_after_error now iv b db)"
    unfolding requeue_after_error_def by (rule move_update_invs, rule moves_open) auto
  with RequeueAfterError show ?thesis by (simp add: rows_final)
next
  case (Bind ws iv n p a nm)
  show ?thesis
    unfolding Bind run_inv_call.simps bindInvocationToRegisteredNodeAction_def Let_def snd_conv
    by (rule rows_final, rule move_upd_where) (simp add: moves_def)
next
  case (Snapshot ws iv n r)
  show ?thesis
    unfolding Snapshot run_inv_call.simps snapshotInvocationHandlerNode_def Let_def snd_conv
    by (rule rows_final, rule move_upd_where) (simp add: moves_def)
next
  case (DeleteAction a)
  show ?thesis
    unfolding DeleteAction run_inv_call.simps delete_action_row_def
    by (rule rows_final, rule rows_move_upd [OF moves_refl, where P = "\<lambda>i. i_actionId i = Some a" and g = "\<lambda>i. i\<lparr>i_actionId := None\<rparr>"])
      (auto simp: moves_def)
next
  case (MarkDrained now ws iv n)
  show ?thesis
    unfolding MarkDrained run_inv_call.simps markDrainedInvocationDispatched_def Let_def snd_conv
    by (rule rows_final, rule move_update_invs, rule moves_open) (auto simp: open_inv_def)
next
  case (MarkUnsent now ws iv n)
  show ?thesis
    unfolding MarkUnsent run_inv_call.simps markUnsentNativeSpawn_def
    by (rule rows_final, rule move_upd_where) (simp add: moves_def set_unreachable_def)
next
  case (ClaimUnsent ws iv)
  show ?thesis
    unfolding ClaimUnsent run_inv_call.simps claimUnsentNativeSpawn_def Let_def snd_conv
    by (rule rows_final, rule move_upd_where) (simp add: moves_def set_unreachable_def)
next
  case (WithdrawUnplaced ws iv)
  with assms(2) show ?thesis by blast
next
  case (AcceptAgentAction now ws n p a b)
  with assms(1) show ?thesis by (simp add: rows_final accept_agent_moves)
qed (simp_all add: rows_final release_moves mark_moves node_deleted_moves create_moves fail_open_moves restore_moves handoff_moves settle_deleted_moves
    send_failed_final hold_moves detach_final complete_by_agent_moves complete_by_node_moves unreachable_final
    never_dispatched_moves accept_task_final accept_moves complete_task_final complete_moves expire_moves expire_all_moves)

lemma run_kept: "call_ok c \<Longrightarrow> kept db (run_inv_call c db)"
  by (cases "\<exists>ws i. c = WithdrawUnplaced ws i") (auto simp: withdraw_kept intro: rows_move_kept [OF run_final])

text \<open>C40: Whatever requests, dispatchers, sweeps, workers, releases, socket owners and deletions of actions and nodes do,
  in any order, an invocation gets at most one outcome: once it is completed or failed, its row stays and its status,
  output, error and completion time never change again; and a task that is running never goes back to the queue: its
  row stays, and it stays running or ends. The steps are all the statements that write the table, with two exceptions:
  the error path of an inventory snapshot, which writes by identifier whatever the status, and the deletion of the
  whole workspace.\<close>
theorem invocation_outcome_is_final:
  assumes "inv_step\<^sup>*\<^sup>* db db'" "i \<in> set (invocations db)" "terminal i \<or> i_status i = Running"
  shows "\<exists>j \<in> set (invocations db'). i_id j = i_id i \<and> i_ws j = i_ws i
    \<and> (terminal i \<longrightarrow> i_status j = i_status i \<and> i_output j = i_output i \<and> i_error j = i_error i \<and> i_completedAt j = i_completedAt i)
    \<and> (i_status i = Running \<longrightarrow> i_status j = Running \<or> terminal j)"
proof -
  have "kept db db'"
    using assms(1)
  proof (induction rule: rtranclp_induct)
    case base
    show ?case by (rule rows_move_kept) simp
  next
    case (step d e)
    from step.hyps(2) have "kept d e" by cases (simp add: run_kept)
    with step.IH show ?case by (rule kept_trans)
  qed
  then obtain j where "j \<in> set (invocations db')" "final i j" using assms(2,3) by (auto simp: kept_def settled_def)
  then show ?thesis by (auto simp: final_def intro!: bexI [of _ j])
qed

definition ex_inv :: inv_row where
  "ex_inv = \<lparr>i_id = ''i1'', i_ws = ''w'', i_actionId = None, i_actionName = ''spawn'', i_origin = Builtin, i_callerId = Some ''1'',
     i_callerName = None, i_handlerAgentId = None, i_handlerNodeId = Some ''n1'', i_input = JObj [], i_taskState = None,
     i_output = JNull, i_status = Dispatched, i_error = None, i_durationMs = None, i_dispatchedNodeId = Some ''n1'',
     i_dispatchedAt = Some 90, i_nodeLivenessRevision = 1, i_providerAcceptedAttempt = None, i_spawnReservedAt = Some 90,
     i_attemptedNodeIds = [''n1''], i_dispatchAttempts = 1, i_dispatchedProvider = Some ''default'', i_retryAfterAt = None,
     i_handlerUnreachableSince = None, i_createdAt = 80, i_completedAt = None\<rparr>"

definition ex_done :: inv_row where
  "ex_done = ex_inv\<lparr>i_id := ''i2'', i_status := Completed, i_output := JStr ''ok'', i_completedAt := Some 95, i_spawnReservedAt := None\<rparr>"

definition ex_invs :: db where
  "ex_invs = ex_fleet\<lparr>nodes := [(ex_node ''n1'' ''al'')\<lparr>n_reservedAgents := 2\<rparr>], invocations := [ex_inv, ex_done]\<rparr>"

theorem invocation_outcome_is_final_witness:
  "\<exists>j \<in> set (invocations (run_inv_call (FailOpen 100000 ''w'' [''i1'', ''i2''] ''gone'' None) ex_invs)).
     i_id j = ''i2'' \<and> i_status j = Completed \<and> i_output j = JStr ''ok''"
proof -
  have "inv_step ex_invs (run_inv_call (FailOpen 100000 ''w'' [''i1'', ''i2''] ''gone'' None) ex_invs)"
    by (rule inv_step.call) simp
  then have s: "inv_step\<^sup>*\<^sup>* ex_invs (run_inv_call (FailOpen 100000 ''w'' [''i1'', ''i2''] ''gone'' None) ex_invs)" ..
  have done2: "ex_done \<in> set (invocations ex_invs)" "terminal ex_done" by (simp_all add: ex_invs_def ex_done_def terminal_def)
  show ?thesis
    using invocation_outcome_is_final [OF s done2(1) disjI1 [OF done2(2)]] done2(2) by (auto simp: ex_done_def)
qed

text \<open>The error path of an inventory snapshot read the spawn \<open>i2\<close> while it was open and writes after it was completed: the
  invocation, with its output and completion time, is pending again.\<close>

lemma reconcile_requeue_reopens:
  "ex_done \<in> set (invocations ex_invs) \<and> terminal ex_done
   \<and> (\<forall>j \<in> set (invocations (reconcile_requeue 100000 ex_done ex_invs)). i_id j = ''i2'' \<longrightarrow> i_status j = Pending)
   \<and> \<not> kept ex_invs (reconcile_requeue 100000 ex_done ex_invs)"
  by (simp add: reconcile_requeue_def update_invs_def upd_where_def stamp_inv_def ex_invs_def ex_done_def ex_inv_def terminal_def
      kept_def settled_def final_def)

subsection \<open>An exclusive claim has one winner\<close>

definition inv_keys_ok :: "db \<Rightarrow> bool" where
  "inv_keys_ok db \<longleftrightarrow> distinct (map i_id (invocations db))"

text \<open>A dispatch that claims exclusively, as the dispatchers prepare it: the deadline it writes is the one
  \<open>exclusiveClaimWrite\<close> chose for the token it observed.\<close>

definition exclusive :: "ms \<Rightarrow> ms option \<Rightarrow> claim_token \<Rightarrow> dispatch_opts \<Rightarrow> bool" where
  "exclusive now wanted c opts \<longleftrightarrow> da_claim opts = Some c \<and>
     da_retryAfterAt opts = fst (exclusiveClaimWrite now (cl_status c) (cl_retryAfterAt c) (cl_dispatchAttempts c)
       (if da_pending opts then Pending else Dispatched) wanted (\<not> da_skipIncrementAttempts opts))"

lemma exclusive_moves_token:
  assumes "exclusive now wanted c opts" "claim_matches (Some c) i"
  shows "\<not> claim_matches (Some c) (stamp_inv db r (case truthy (da_targetActionId opts) of
      Some t \<Rightarrow> (route_fields now n (da_providerName opts) (da_reservationHeld opts) (da_skipIncrementAttempts opts)
        (state_fields now (da_pending opts) (da_retryAfterAt opts) i))\<lparr>i_actionId := Some t\<rparr>
    | None \<Rightarrow> route_fields now n (da_providerName opts) (da_reservationHeld opts) (da_skipIncrementAttempts opts)
        (state_fields now (da_pending opts) (da_retryAfterAt opts) i)))" (is "\<not> claim_matches _ (stamp_inv _ _ ?j)")
proof
  assume m: "claim_matches (Some c) (stamp_inv db r ?j)"
  have f: "i_status ?j = (if da_pending opts then Pending else Dispatched)"
      "i_retryAfterAt ?j = map_option toSec (da_retryAfterAt opts)"
      "i_dispatchAttempts ?j = (if da_skipIncrementAttempts opts then i_dispatchAttempts i else i_dispatchAttempts i + 1)"
    by (auto simp: route_fields_def state_fields_def split: option.splits)
  have s: "i_status ?j = cl_status c" "retryAfterAtMatches (cl_retryAfterAt c) ?j" "i_dispatchAttempts ?j = cl_dispatchAttempts c"
    using m by (auto simp: claim_matches_def retryAfterAtMatches_def split: option.splits)
  have "i_dispatchAttempts i = cl_dispatchAttempts c" using assms(2) by (simp add: claim_matches_def)
  with s(3) f(3) have skip: "da_skipIncrementAttempts opts" by (auto split: if_splits)
  have "da_retryAfterAt opts =
      (if \<not> sameStoredRetryDeadline wanted (cl_retryAfterAt c) then wanted
       else Some ((case cl_retryAfterAt c of Some t \<Rightarrow> t | None \<Rightarrow> now) div 1000 * 1000 + 1000))"
    using assms(1) skip s(1) f(1) by (auto simp: exclusive_def exclusiveClaimWrite_def Let_def algebra_simps)
  then have "i_retryAfterAt ?j \<noteq> map_option toSec (cl_retryAfterAt c)"
    unfolding f(2) by (auto simp: sameStoredRetryDeadline_def toSec_def split: option.splits if_splits)
  with s(2) show False by (auto simp: retryAfterAtMatches_def split: option.splits)
qed

text \<open>C27: Two dispatchers that read the same row race for it with the token they saw (status, retry deadline in
  whole seconds, attempt count). If the first one's claim is accepted, the second one's, whatever node or deadline
  it wants, is refused and changes nothing, so at most one of them sends the frame. This holds also when the first
  asked for the status, the attempt count and the stored second the row already had.\<close>
theorem exclusive_claim_single_winner:
  assumes keys: "inv_keys_ok db" and ex: "exclusive now wanted c opts" and c2: "da_claim opts' = Some c"
    and win: "dispatchNodeAttempt now ws iv n opts db = (True, db1)"
  shows "dispatchNodeAttempt now' ws iv n' opts' db1 = (False, db1)"
proof -
  let ?P = "\<lambda>i. inv_at ws iv i \<and> claim_matches (da_claim opts) i \<and> rev_ok (da_expectedRevision opts) i \<and> expected_action_ok db ws n opts i"
  let ?f = "\<lambda>i. case truthy (da_targetActionId opts) of
      Some t \<Rightarrow> (route_fields now n (da_providerName opts) (da_reservationHeld opts) (da_skipIncrementAttempts opts)
        (state_fields now (da_pending opts) (da_retryAfterAt opts) i))\<lparr>i_actionId := Some t\<rparr>
    | None \<Rightarrow> route_fields now n (da_providerName opts) (da_reservationHeld opts) (da_skipIncrementAttempts opts)
        (state_fields now (da_pending opts) (da_retryAfterAt opts) i)"
  let ?g = "\<lambda>i. stamp_inv db (i_nodeLivenessRevision i) (?f i)"
  have claim: "da_claim opts = Some c" using ex by (simp add: exclusive_def)
  have win': "filter ?P (invocations db) \<noteq> []" "invocations db1 = upd_where ?P ?g (invocations db)"
    using win by (auto simp: dispatchNodeAttempt_def Let_def invocations_update_invs)
  obtain w where w: "w \<in> set (invocations db)" "?P w" using win'(1) by (auto simp: filter_empty_conv)
  have one: "i = w" if "i \<in> set (invocations db)" "inv_at ws iv i" for i
    using keys w that by (auto simp: inv_keys_ok_def inv_at_def distinct_map dest: inj_onD)
  have none: "\<not> (inv_at ws iv j \<and> claim_matches (Some c) j)" if j: "j \<in> set (invocations db1)" for j
  proof
    assume a: "inv_at ws iv j \<and> claim_matches (Some c) j"
    from j[unfolded win'(2)] show False
    proof (cases rule: in_upd_whereE)
      case (changed i)
      have "claim_matches (Some c) i" using changed(2) claim by simp
      from exclusive_moves_token [OF ex this] changed(3) a show False by simp
    next
      case same
      then show False using one a w by blast
    qed
  qed
  have "filter (\<lambda>i. inv_at ws iv i \<and> claim_matches (da_claim opts') i \<and> rev_ok (da_expectedRevision opts') i
      \<and> expected_action_ok db1 ws n' opts' i) (invocations db1) = []"
    using none by (auto simp: c2 filter_empty_conv)
  moreover have "update_invs (\<lambda>i. inv_at ws iv i \<and> claim_matches (da_claim opts') i \<and> rev_ok (da_expectedRevision opts') i
      \<and> expected_action_ok db1 ws n' opts' i) h db1 = db1" for h
    unfolding update_invs_def using none by (subst upd_where_id) (auto simp: c2)
  ultimately show ?thesis by (simp add: dispatchNodeAttempt_def Let_def)
qed

definition ex_token :: claim_token where
  "ex_token = \<lparr>cl_status = Dispatched, cl_retryAfterAt = None, cl_dispatchAttempts = 1, cl_spawnReservedAt = None\<rparr>"

text \<open>The hardest case: same status, same attempt count, no deadline before or wanted.\<close>

definition ex_opts :: dispatch_opts where
  "ex_opts = \<lparr>da_providerName = ''default'', da_pending = False, da_retryAfterAt = Some 101000, da_reservationHeld = False,
     da_skipIncrementAttempts = True, da_expectedAction = None, da_targetActionId = None, da_claim = Some ex_token,
     da_expectedRevision = None\<rparr>"

theorem exclusive_claim_single_winner_witness:
  "fst (dispatchNodeAttempt 100000 ''w'' ''i1'' ''n1'' ex_opts ex_invs)
   \<and> \<not> fst (dispatchNodeAttempt 100500 ''w'' ''i1'' ''n2'' ex_opts (snd (dispatchNodeAttempt 100000 ''w'' ''i1'' ''n1'' ex_opts ex_invs)))"
proof -
  let ?d = "dispatchNodeAttempt 100000 ''w'' ''i1'' ''n1'' ex_opts ex_invs"
  have keys: "inv_keys_ok ex_invs" by (simp add: inv_keys_ok_def ex_invs_def ex_done_def ex_inv_def)
  have ex: "exclusive 100000 None ex_token ex_opts"
    by (simp add: exclusive_def exclusiveClaimWrite_def ex_opts_def ex_token_def Let_def sameStoredRetryDeadline_def)
  have won: "fst ?d"
    by (simp add: dispatchNodeAttempt_def ex_invs_def ex_done_def ex_inv_def ex_opts_def ex_token_def Let_def inv_at_def
        claim_matches_def retryAfterAtMatches_def rev_ok_def expected_action_ok_def)
  then have "?d = (True, snd ?d)" by (metis prod.collapse)
  from exclusive_claim_single_winner [OF keys ex _ this, of ex_opts 100500 "''n2''"] won show ?thesis
    by (simp add: ex_opts_def)
qed

end
