(* ===== verification/KvStore.thy ===== *)
theory KvStore
  imports Prelude
begin

text \<open>
  The key-value store port (\<open>ports/kv.ts\<close>) and its two adapters: the map of the Node server
  (\<open>adapters/node/kv.ts\<close>) and the table of the actor host (\<open>adapters/actor/kv.ts\<close>). The locale
  \<open>kv_store\<close> is the contract that a client relies on, stated over the entries that are live at a
  given time; both adapters provide it. A time to live is a whole number of seconds.
\<close>

type_synonym kv_entry = "string \<times> ms option"

definition expired :: "ms \<Rightarrow> kv_entry \<Rightarrow> bool" where
  "expired now e \<longleftrightarrow> (case snd e of None \<Rightarrow> False | Some t \<Rightarrow> t \<le> now)"

definition expiresAt :: "ms \<Rightarrow> int option \<Rightarrow> ms option" where
  "expiresAt now ttl = (case ttl of None \<Rightarrow> None | Some t \<Rightarrow> if t = 0 then None else Some (now + t * 1000))"

subsection \<open>The map of the Node adapter\<close>

type_synonym ip_store = "string \<rightharpoonup> kv_entry"

definition ip_live :: "ms \<Rightarrow> string \<Rightarrow> ip_store \<Rightarrow> kv_entry option \<times> ip_store" where
  "ip_live now key store =
     (case store key of
        None \<Rightarrow> (None, store)
      | Some entry \<Rightarrow> if expired now entry then (None, store(key := None)) else (Some entry, store))"

definition ip_get :: "ms \<Rightarrow> string \<Rightarrow> ip_store \<Rightarrow> string option \<times> ip_store" where
  "ip_get now key store = (let (entry, store') = ip_live now key store in (map_option fst entry, store'))"

definition ip_put :: "ms \<Rightarrow> string \<Rightarrow> string \<Rightarrow> int option \<Rightarrow> ip_store \<Rightarrow> ip_store" where
  "ip_put now key v ttl store = store(key \<mapsto> (v, expiresAt now ttl))"

definition ip_delete :: "string \<Rightarrow> ip_store \<Rightarrow> ip_store" where
  "ip_delete key store = store(key := None)"

definition ip_prune :: "ms \<Rightarrow> ip_store \<Rightarrow> ip_store" where
  "ip_prune now store = (\<lambda>key. case store key of None \<Rightarrow> None | Some entry \<Rightarrow> if expired now entry then None else Some entry)"

subsection \<open>The table of the actor adapter\<close>

record kv_row =
  kv_key :: string
  kv_value :: string
  kv_expiresAt :: "ms option"

definition kv_live :: "ms \<Rightarrow> kv_row \<Rightarrow> bool" where
  "kv_live now r \<longleftrightarrow> (case kv_expiresAt r of None \<Rightarrow> True | Some t \<Rightarrow> t > now)"

definition actor_get :: "ms \<Rightarrow> string \<Rightarrow> kv_row list \<Rightarrow> string option \<times> kv_row list" where
  "actor_get now key rows =
     (map_option kv_value (first_row (filter (\<lambda>r. kv_key r = key \<and> kv_live now r) rows)), rows)"

definition actor_put :: "ms \<Rightarrow> string \<Rightarrow> string \<Rightarrow> int option \<Rightarrow> kv_row list \<Rightarrow> kv_row list" where
  "actor_put now key v ttl rows =
     (if list_ex (\<lambda>r. kv_key r = key) rows
      then upd_where (\<lambda>r. kv_key r = key) (\<lambda>r. r\<lparr>kv_value := v, kv_expiresAt := expiresAt now ttl\<rparr>) rows
      else rows @ [\<lparr>kv_key = key, kv_value = v, kv_expiresAt = expiresAt now ttl\<rparr>])"

definition actor_delete :: "string \<Rightarrow> kv_row list \<Rightarrow> kv_row list" where
  "actor_delete key rows = filter (\<lambda>r. kv_key r \<noteq> key) rows"

definition actor_prune :: "ms \<Rightarrow> kv_row list \<Rightarrow> kv_row list" where
  "actor_prune now rows = filter (kv_live now) rows"

subsection \<open>Histories\<close>

text \<open>What a client does, each call with the clock it reads; the answers are those of the \<open>get\<close>s.\<close>

datatype kv_op = KvGet string | KvPut string string "int option" | KvDelete string | KvPrune

fun kv_run ::
  "(ms \<Rightarrow> string \<Rightarrow> 's \<Rightarrow> string option \<times> 's) \<Rightarrow> (ms \<Rightarrow> string \<Rightarrow> string \<Rightarrow> int option \<Rightarrow> 's \<Rightarrow> 's)
    \<Rightarrow> (string \<Rightarrow> 's \<Rightarrow> 's) \<Rightarrow> (ms \<Rightarrow> 's \<Rightarrow> 's) \<Rightarrow> (ms \<times> kv_op) list \<Rightarrow> 's \<Rightarrow> string option list \<times> 's" where
  "kv_run get put del prune [] s = ([], s)"
| "kv_run get put del prune ((now, KvGet k) # ops) s =
     (let (v, s') = get now k s; (vs, s'') = kv_run get put del prune ops s' in (v # vs, s''))"
| "kv_run get put del prune ((now, KvPut k v ttl) # ops) s = kv_run get put del prune ops (put now k v ttl s)"
| "kv_run get put del prune ((now, KvDelete k) # ops) s = kv_run get put del prune ops (del k s)"
| "kv_run get put del prune ((now, KvPrune) # ops) s = kv_run get put del prune ops (prune now s)"

text \<open>
  The reference: the last write of a key in the history so far (the latest operation first) is read back
  until its time to live is over.
\<close>

fun last_write :: "(ms \<times> kv_op) list \<Rightarrow> string \<Rightarrow> kv_entry option" where
  "last_write [] k = None"
| "last_write ((now, KvPut k' v ttl) # past) k = (if k' = k then Some (v, expiresAt now ttl) else last_write past k)"
| "last_write ((now, KvDelete k') # past) k = (if k' = k then None else last_write past k)"
| "last_write ((now, KvGet k') # past) k = last_write past k"
| "last_write ((now, KvPrune) # past) k = last_write past k"

definition unless_expired :: "ms \<Rightarrow> kv_entry option \<Rightarrow> kv_entry option" where
  "unless_expired now e = (case e of None \<Rightarrow> None | Some x \<Rightarrow> if expired now x then None else Some x)"

fun kv_answers :: "(ms \<times> kv_op) list \<Rightarrow> (ms \<times> kv_op) list \<Rightarrow> string option list" where
  "kv_answers past [] = []"
| "kv_answers past ((now, KvGet k) # ops) =
     map_option fst (unless_expired now (last_write past k)) # kv_answers ((now, KvGet k) # past) ops"
| "kv_answers past (c # ops) = kv_answers (c # past) ops"

subsection \<open>The contract\<close>

locale kv_store =
  fixes get :: "ms \<Rightarrow> string \<Rightarrow> 's \<Rightarrow> string option \<times> 's"
    and put :: "ms \<Rightarrow> string \<Rightarrow> string \<Rightarrow> int option \<Rightarrow> 's \<Rightarrow> 's"
    and del :: "string \<Rightarrow> 's \<Rightarrow> 's"
    and prune :: "ms \<Rightarrow> 's \<Rightarrow> 's"
    and live :: "ms \<Rightarrow> 's \<Rightarrow> string \<rightharpoonup> kv_entry"
    and invar :: "'s \<Rightarrow> bool"
  assumes get_value: "invar s \<Longrightarrow> fst (get now k s) = map_option fst (live now s k)"
    and get_live: "invar s \<Longrightarrow> now \<le> t \<Longrightarrow> live t (snd (get now k s)) = live t s"
    and put_live: "invar s \<Longrightarrow> now \<le> t \<Longrightarrow>
        live t (put now k v ttl s) = (live t s)(k := unless_expired t (Some (v, expiresAt now ttl)))"
    and del_live: "invar s \<Longrightarrow> live t (del k s) = (live t s)(k := None)"
    and prune_live: "invar s \<Longrightarrow> now \<le> t \<Longrightarrow> live t (prune now s) = live t s"
    and get_invar: "invar s \<Longrightarrow> invar (snd (get now k s))"
    and put_invar: "invar s \<Longrightarrow> invar (put now k v ttl s)"
    and del_invar: "invar s \<Longrightarrow> invar (del k s)"
    and prune_invar: "invar s \<Longrightarrow> invar (prune now s)"
begin

lemmas keeps = get_invar put_invar del_invar prune_invar

text \<open>A store holds a history when its live entries are those of the last writes, now and later.\<close>

definition holds :: "ms \<Rightarrow> (ms \<times> kv_op) list \<Rightarrow> 's \<Rightarrow> bool" where
  "holds now past s \<longleftrightarrow> invar s \<and> (\<forall>t \<ge> now. \<forall>k. live t s k = unless_expired t (last_write past k))"

lemma holds_later: "holds now past s \<Longrightarrow> now \<le> t \<Longrightarrow> holds t past s"
  by (auto simp: holds_def)

lemma run_answers:
  assumes "holds now past s" "sorted (now # map fst ops)"
  shows "fst (kv_run get put del prune ops s) = kv_answers past ops"
  using assms
proof (induction ops arbitrary: now past s)
  case (Cons c ops)
  obtain t x where c: "c = (t, x)" by (cases c)
  have s: "holds t past s" and later: "sorted (t # map fst ops)" using Cons.prems holds_later [of now past s t] c by auto
  then have iv: "invar s" by (simp add: holds_def)
  show ?case
  proof (cases x)
    case (KvGet k)
    have "holds t ((t, x) # past) (snd (get t k s))"
      using s by (auto simp: holds_def KvGet get_live keeps)
    moreover have "fst (get t k s) = map_option fst (unless_expired t (last_write past k))"
      using s get_value [OF iv] by (simp add: holds_def)
    ultimately show ?thesis using Cons.IH [OF _ later] by (simp add: c KvGet split_beta Let_def)
  next
    case (KvPut k v ttl)
    have "holds t ((t, x) # past) (put t k v ttl s)"
      using s by (auto simp: holds_def KvPut put_live keeps)
    then show ?thesis using Cons.IH [OF _ later] by (simp add: c KvPut)
  next
    case (KvDelete k)
    have "holds t ((t, x) # past) (del k s)"
      using s by (auto simp: holds_def KvDelete del_live keeps unless_expired_def)
    then show ?thesis using Cons.IH [OF _ later] by (simp add: c KvDelete)
  next
    case KvPrune
    have "holds t ((t, x) # past) (prune t s)"
      using s by (auto simp: holds_def KvPrune prune_live keeps)
    then show ?thesis using Cons.IH [OF _ later] by (simp add: c KvPrune)
  qed
qed simp

end
definition ip_view :: "ms \<Rightarrow> ip_store \<Rightarrow> string \<rightharpoonup> kv_entry" where
  "ip_view now store k = unless_expired now (store k)"

definition actor_view :: "ms \<Rightarrow> kv_row list \<Rightarrow> string \<rightharpoonup> kv_entry" where
  "actor_view now rows k =
     map_option (\<lambda>r. (kv_value r, kv_expiresAt r)) (first_row (filter (\<lambda>r. kv_key r = k \<and> kv_live now r) rows))"

lemma expired_later: "expired now e \<Longrightarrow> now \<le> t \<Longrightarrow> expired t e"
  by (auto simp: expired_def split: option.splits)

interpretation ip: kv_store ip_get ip_put ip_delete ip_prune ip_view "\<lambda>s. True"
  by unfold_locales
    (auto simp: ip_get_def ip_live_def ip_put_def ip_delete_def ip_prune_def ip_view_def unless_expired_def fun_eq_iff
      dest: expired_later split: option.splits)

definition row_entry :: "kv_row list \<Rightarrow> string \<Rightarrow> kv_entry option" where
  "row_entry rows k = map_option (\<lambda>r. (kv_value r, kv_expiresAt r)) (first_row (filter (\<lambda>r. kv_key r = k) rows))"

lemma actor_view_row:
  assumes "distinct (map kv_key rows)"
  shows "actor_view t rows k = unless_expired t (row_entry rows k)"
proof (cases "first_row (filter (\<lambda>r. kv_key r = k) rows)")
  case None
  then have "filter (\<lambda>r. kv_key r = k \<and> kv_live t r) rows = []" by (auto simp: first_row_None filter_empty_conv)
  then show ?thesis using None by (simp add: actor_view_def unless_expired_def row_entry_def)
next
  case (Some r)
  then have r: "r \<in> set rows" "kv_key r = k" by (auto dest: first_row_Some)
  have "filter (\<lambda>r. kv_key r = k \<and> kv_live t r) rows = filter (kv_live t) (filter (\<lambda>r. kv_key r = k) rows)" by simp
  also have "\<dots> = filter (kv_live t) [r]" using filter_key_singleton [OF assms r(1)] r(2) by simp
  finally show ?thesis
    using Some by (auto simp: actor_view_def row_entry_def unless_expired_def kv_live_def expired_def split: option.splits)
qed

lemma row_entry_cases [simp]: "row_entry [] k = None"
    "row_entry (r # rows) k = (if kv_key r = k then Some (kv_value r, kv_expiresAt r) else row_entry rows k)"
  by (simp_all add: row_entry_def)

lemma row_entry_put: "row_entry (actor_put now k v ttl rows) = (row_entry rows)(k \<mapsto> (v, expiresAt now ttl))"
proof -
  have "row_entry (upd_where (\<lambda>r. kv_key r = k) (\<lambda>r. r\<lparr>kv_value := v, kv_expiresAt := expiresAt now ttl\<rparr>) rows)
      = (row_entry rows)(k := if list_ex (\<lambda>r. kv_key r = k) rows then Some (v, expiresAt now ttl) else None)" for rows
    by (induction rows) (auto simp: fun_eq_iff)
  moreover have "row_entry (rows @ [\<lparr>kv_key = k, kv_value = v, kv_expiresAt = expiresAt now ttl\<rparr>])
      = (row_entry rows)(k \<mapsto> (v, expiresAt now ttl))" if "\<not> list_ex (\<lambda>r. kv_key r = k) rows" for rows
    using that by (induction rows) (auto simp: fun_eq_iff)
  ultimately show ?thesis by (simp add: actor_put_def)
qed

lemma row_entry_delete: "row_entry (actor_delete k rows) = (row_entry rows)(k := None)"
  by (induction rows) (auto simp: actor_delete_def fun_eq_iff)

lemma actor_put_keys: "distinct (map kv_key rows) \<Longrightarrow> distinct (map kv_key (actor_put now k v ttl rows))"
  by (auto simp: actor_put_def map_upd_where list_ex_iff)

lemma row_entry_notin: "k \<notin> kv_key ` set rows \<Longrightarrow> row_entry rows k = None"
  by (induction rows) auto

lemma row_entry_prune:
  "distinct (map kv_key rows) \<Longrightarrow> row_entry (actor_prune now rows) k = unless_expired now (row_entry rows k)"
proof (induction rows)
  case (Cons r rows)
  have "kv_key r \<notin> kv_key ` set (actor_prune now rows)" using Cons.prems by (auto simp: actor_prune_def)
  then show ?case
    using Cons row_entry_notin [of "kv_key r" "actor_prune now rows"]
    by (auto simp: actor_prune_def unless_expired_def kv_live_def expired_def split: option.splits)
qed (simp add: actor_prune_def unless_expired_def)

lemma actor_delete_keys: "distinct (map kv_key rows) \<Longrightarrow> distinct (map kv_key (actor_delete k rows))"
  by (simp add: actor_delete_def distinct_map_filter)

lemma actor_prune_keys: "distinct (map kv_key rows) \<Longrightarrow> distinct (map kv_key (actor_prune now rows))"
  by (simp add: actor_prune_def distinct_map_filter)

interpretation actor: kv_store actor_get actor_put actor_delete actor_prune actor_view "\<lambda>rows. distinct (map kv_key rows)"
proof unfold_locales
  fix rows :: "kv_row list" and now t :: int and k v ttl
  assume ok: "distinct (map kv_key rows)"
  show "fst (actor_get now k rows) = map_option fst (actor_view now rows k)"
    by (cases "first_row (filter (\<lambda>r. kv_key r = k \<and> kv_live now r) rows)") (simp_all add: actor_get_def actor_view_def)
  show "distinct (map kv_key (snd (actor_get now k rows)))"
    using ok by (simp add: actor_get_def)
  show "distinct (map kv_key (actor_put now k v ttl rows))" using ok by (rule actor_put_keys)
  show "distinct (map kv_key (actor_delete k rows))" "distinct (map kv_key (actor_prune now rows))"
    using ok by (rule actor_delete_keys, rule actor_prune_keys)
  show "actor_view t (actor_delete k rows) = (actor_view t rows)(k := None)"
    using ok by (auto simp: actor_view_row actor_delete_keys row_entry_delete fun_eq_iff unless_expired_def)
  assume now: "now \<le> t"
  show "actor_view t (snd (actor_get now k rows)) = actor_view t rows" by (simp add: actor_get_def)
  show "actor_view t (actor_put now k v ttl rows) = (actor_view t rows)(k := unless_expired t (Some (v, expiresAt now ttl)))"
    using ok by (auto simp: actor_view_row actor_put_keys row_entry_put fun_eq_iff)
  show "actor_view t (actor_prune now rows) = actor_view t rows"
    using ok now by (auto simp: actor_view_row actor_prune_keys row_entry_prune fun_eq_iff unless_expired_def
        dest: expired_later split: option.splits)
qed

subsection \<open>The two adapters\<close>

text \<open>The two adapters are interchangeable: on any history of reads, writes, deletions and prunings, run at clocks
  that do not go back, both answer every read alike, by the value last written to the key while its time to live
  lasts; expired entries that are still stored, dropped on a read or pruned are never seen.\<close>
theorem kv_adapters_agree:
  assumes "sorted (map fst ops)"
  shows "fst (kv_run ip_get ip_put ip_delete ip_prune ops Map.empty) = kv_answers [] ops
    \<and> fst (kv_run actor_get actor_put actor_delete actor_prune ops []) = kv_answers [] ops"
proof (cases ops)
  case (Cons c cs)
  then have "sorted (fst c # map fst ops)" using assms by simp
  moreover have "ip.holds (fst c) [] Map.empty" by (simp add: ip.holds_def ip_view_def unless_expired_def)
  moreover have "actor.holds (fst c) [] []" by (simp add: actor.holds_def actor_view_def unless_expired_def)
  ultimately show ?thesis using ip.run_answers actor.run_answers by blast
qed simp

theorem kv_adapters_agree_witness:
  "fst (kv_run actor_get actor_put actor_delete actor_prune
     [(1000, KvPut ''k'' ''v'' (Some 60)), (2000, KvGet ''k''), (61000, KvGet ''k''), (61000, KvPrune), (62000, KvGet ''k'')] [])
   = [Some ''v'', None, None]"
  using kv_adapters_agree [of "[(1000, KvPut ''k'' ''v'' (Some 60)), (2000, KvGet ''k''), (61000, KvGet ''k''), (61000, KvPrune), (62000, KvGet ''k'')]"]
  by (simp add: unless_expired_def expired_def expiresAt_def)

end
