(* ===== verification/Idempotency.thy ===== *)
theory Idempotency
  imports KvStore Json
begin

text \<open>
  Idempotent requests (\<open>middleware/idempotency.ts\<close>). The world \<open>'w\<close> is everything outside the function: each
  call of the key-value port or of the operation moves it in any way, so whatever other requests do between
  two awaits is part of that move. \<open>encode\<close> and \<open>decode\<close> are \<open>JSON.stringify\<close> and \<open>JSON.parse\<close> on records
  (\<open>None\<close>: the parse throws), \<open>sha\<close> is the digest of the crypto library.
\<close>

definition IDEMPOTENCY_TTL_SECONDS :: int where "IDEMPOTENCY_TTL_SECONDS = 24 * 60 * 60"
definition IDEMPOTENCY_LOCK_TTL_SECONDS :: int where "IDEMPOTENCY_LOCK_TTL_SECONDS = 30"
definition IDEMPOTENCY_MIN_RECORD_TTL_SECONDS :: int where "IDEMPOTENCY_MIN_RECORD_TTL_SECONDS = 60"
definition IDEMPOTENCY_KEY_MAX_LENGTH :: nat where "IDEMPOTENCY_KEY_MAX_LENGTH = 255"

subsection \<open>Keys and fingerprints\<close>

definition parseIdempotencyKey :: "string option \<Rightarrow> string + string option" where
  "parseIdempotencyKey headerValue =
     (case headerValue of
        None \<Rightarrow> Inr None
      | Some h \<Rightarrow>
          let key = trim h
          in if key = [] then Inl ''Idempotency-Key cannot be empty''
             else if length key > IDEMPOTENCY_KEY_MAX_LENGTH then Inl ''Idempotency-Key must be 255 characters or fewer''
             else if list_ex (\<lambda>c. of_char c < (0x21::nat) \<or> of_char c > (0x7E::nat)) key
             then Inl ''Idempotency-Key must contain only visible ASCII characters''
             else Inr (Some key))"

definition buildIdempotencyStorageKey :: "(string \<Rightarrow> string) \<Rightarrow> string \<Rightarrow> string \<Rightarrow> string \<Rightarrow> string \<Rightarrow> string" where
  "buildIdempotencyStorageKey sha workspaceId actorId scope key =
     ''idem:v1:'' @ workspaceId @ '':'' @ actorId @ '':'' @ take 16 (sha scope) @ '':'' @ sha key"

definition fingerprintMatches :: "string option \<Rightarrow> string list \<Rightarrow> string option \<Rightarrow> string list \<Rightarrow> bool" where
  "fingerprintMatches stored storedCompatible current compatible \<longleftrightarrow>
     (case (truthy stored, truthy current) of
        (Some s, Some c) \<Rightarrow> list_ex (\<lambda>candidate. candidate \<in> set (c # compatible)) (s # storedCompatible)
      | _ \<Rightarrow> True)"

text \<open>Spreading an array gives an object with its indices as properties.\<close>

definition without :: "string list \<Rightarrow> json \<Rightarrow> json" where
  "without dropped v =
     (case v of
        JObj kvs \<Rightarrow> JObj (filter (\<lambda>p. fst p \<notin> set dropped) kvs)
      | JArr vs \<Rightarrow> JObj (zip (map show_dec [0..<length vs]) vs)
      | _ \<Rightarrow> v)"

definition stripReplayStorageInternals :: "json \<Rightarrow> json" where
  "stripReplayStorageInternals = without [''_idempotency_replayed'', ''_idempotency_ttl_seconds'']"

definition stripDeliveryInternals :: "json \<Rightarrow> json" where
  "stripDeliveryInternals = without [''_notifications_durable'', ''_delivery'', ''_deliveries'', ''_delivery_rejections'',
     ''_idempotency_replayed'', ''_idempotency_ttl_seconds'']"

subsection \<open>Ports, options and results\<close>

text \<open>What may be thrown: an error of this module, or one of the store, the parser or the operation.\<close>

datatype thrown = Coded coded | Foreign string

record 'w kv_port =
  kp_get :: "string \<Rightarrow> 'w \<Rightarrow> (thrown + string option) \<times> 'w"
  kp_put :: "string \<Rightarrow> string \<Rightarrow> int \<Rightarrow> 'w \<Rightarrow> thrown option \<times> 'w"
  kp_delete :: "string \<Rightarrow> 'w \<Rightarrow> thrown option \<times> 'w"

record 'w idem_options =
  io_workspaceId :: string
  io_actorId :: string
  io_scope :: string
  io_key :: "string option"
  io_status :: int
  io_fingerprint :: "string option"
  io_storageFingerprint :: "string option"
  io_compatibleFingerprints :: "string list"
  io_ttlSeconds :: int
  io_ttlSecondsForResult :: "json \<Rightarrow> int option"
  io_kv :: "'w kv_port option"
  io_requireKv :: bool
  io_requireKvRead :: bool
  io_requireFingerprint :: bool
  io_operation :: "'w \<Rightarrow> (thrown + json) \<times> 'w"
  io_afterOperation :: "json \<Rightarrow> 'w \<Rightarrow> thrown option \<times> 'w"

record stored_record =
  sr_status :: int
  sr_data :: json
  sr_fingerprint :: "string option"
  sr_fingerprints :: "string list"

record idem_result =
  ir_status :: int
  ir_data :: json
  ir_replayed :: bool

definition idempotencyUnavailableError :: thrown where
  "idempotencyUnavailableError = Coded (codedError ''idempotency_unavailable'' 503)"

definition key_reused :: thrown where "key_reused = Coded (codedError ''idempotency_key_reused'' 409)"
definition in_progress :: thrown where "in_progress = Coded (codedError ''idempotency_in_progress'' 409)"

subsection \<open>Replaying a stored record\<close>

definition replayOf :: "(string \<Rightarrow> stored_record option) \<Rightarrow> 'w idem_options \<Rightarrow> string \<Rightarrow> thrown + idem_result" where
  "replayOf decode opts raw =
     (case decode raw of
        None \<Rightarrow> Inl (Foreign ''SyntaxError'')
      | Some parsed \<Rightarrow>
          if (io_requireFingerprint opts \<and> truthy (sr_fingerprint parsed) = None)
             \<or> \<not> fingerprintMatches (sr_fingerprint parsed) (sr_fingerprints parsed) (io_fingerprint opts) (io_compatibleFingerprints opts)
          then Inl key_reused
          else Inr \<lparr>ir_status = (if sr_status parsed \<noteq> 0 then sr_status parsed else io_status opts), ir_data = sr_data parsed,
                    ir_replayed = True\<rparr>)"

subsection \<open>Before the operation\<close>

text \<open>The record and the lock are read at once, the lock is written, and the record is read again. \<open>Inr None\<close>: go on.\<close>

definition admit ::
  "(string \<Rightarrow> stored_record option) \<Rightarrow> 'w idem_options \<Rightarrow> 'w kv_port \<Rightarrow> string \<Rightarrow> 'w \<Rightarrow> (thrown + idem_result option) \<times> 'w" where
  "admit decode opts kv kvKey w =
     (let lockKey = kvKey @ '':lock''; replay = (\<lambda>raw. map_sum id Some (replayOf decode opts raw));
          (recordRead, w) = kp_get kv kvKey w; (lockRead, w) = kp_get kv lockKey w
      in case (recordRead, lockRead) of
           (Inr (Some (c # cs)), _) \<Rightarrow> (replay (c # cs), w)
         | (Inl e, _) \<Rightarrow> (Inl e, w)
         | (_, Inl e) \<Rightarrow> (Inl e, w)
         | (Inr _, Inr existingLock) \<Rightarrow>
             if truthy existingLock \<noteq> None
             then (case kp_get kv kvKey w of
                     (Inl e, w) \<Rightarrow> (Inl e, w)
                   | (Inr raw, w) \<Rightarrow> (case truthy raw of Some r \<Rightarrow> (replay r, w) | None \<Rightarrow> (Inl in_progress, w)))
             else case kp_put kv lockKey ''1'' IDEMPOTENCY_LOCK_TTL_SECONDS w of
                    (Some e, w) \<Rightarrow> (Inl e, w)
                  | (None, w) \<Rightarrow>
                      (case kp_get kv kvKey w of
                         (Inl e, w) \<Rightarrow> (Inl e, snd (kp_delete kv lockKey w))
                       | (Inr raw, w) \<Rightarrow> (case truthy raw of Some r \<Rightarrow> (replay r, w) | None \<Rightarrow> (Inr None, w))))"

subsection \<open>The operation and its record\<close>

definition run_operation :: "'w idem_options \<Rightarrow> 'w \<Rightarrow> (thrown + json) \<times> 'w" where
  "run_operation opts w =
     (case io_operation opts w of
        (Inl e, w) \<Rightarrow> (Inl e, w)
      | (Inr data, w) \<Rightarrow> (case io_afterOperation opts data w of (Some e, w) \<Rightarrow> (Inl e, w) | (None, w) \<Rightarrow> (Inr data, w)))"

definition fresh_result :: "'w idem_options \<Rightarrow> json \<Rightarrow> idem_result" where
  "fresh_result opts data = \<lparr>ir_status = io_status opts, ir_data = data, ir_replayed = False\<rparr>"

definition run_unprotected :: "'w idem_options \<Rightarrow> 'w \<Rightarrow> (thrown + idem_result) \<times> 'w" where
  "run_unprotected opts w = (case run_operation opts w of (r, w) \<Rightarrow> (map_sum id (fresh_result opts) r, w))"

definition record_of :: "'w idem_options \<Rightarrow> json \<Rightarrow> stored_record" where
  "record_of opts data =
     \<lparr>sr_status = io_status opts, sr_data = stripReplayStorageInternals data,
      sr_fingerprint = (case io_storageFingerprint opts of Some f \<Rightarrow> Some f | None \<Rightarrow> io_fingerprint opts),
      sr_fingerprints = (case (truthy (io_fingerprint opts), truthy (io_storageFingerprint opts)) of
         (Some f, Some g) \<Rightarrow> if f \<noteq> g then [f] else [] | _ \<Rightarrow> [])\<rparr>"

definition run_protected ::
  "(stored_record \<Rightarrow> string) \<Rightarrow> 'w idem_options \<Rightarrow> 'w kv_port \<Rightarrow> string \<Rightarrow> 'w \<Rightarrow> (thrown + idem_result) \<times> 'w" where
  "run_protected encode opts kv kvKey w =
     (let lockKey = kvKey @ '':lock''
      in case run_operation opts w of
           (Inl e, w) \<Rightarrow> (Inl e, snd (kp_delete kv lockKey w))
         | (Inr data, w) \<Rightarrow>
             let ttl = (case io_ttlSecondsForResult opts data of Some t \<Rightarrow> t | None \<Rightarrow> io_ttlSeconds opts);
                 (failed, w) = (if ttl \<ge> IDEMPOTENCY_MIN_RECORD_TTL_SECONDS
                                then kp_put kv kvKey (encode (record_of opts data)) ttl w
                                else kp_delete kv lockKey w)
             in case failed of
                  None \<Rightarrow> (Inr (fresh_result opts data), w)
                | Some e \<Rightarrow>
                    let w = snd (kp_delete kv lockKey w)
                    in if io_requireKv opts then (Inl idempotencyUnavailableError, w) else (Inr (fresh_result opts data), w))"

subsection \<open>The whole request\<close>

definition fails_closed :: "'w idem_options \<Rightarrow> bool" where
  "fails_closed opts \<longleftrightarrow> io_requireKv opts \<or> io_requireKvRead opts"

definition storage_key :: "(string \<Rightarrow> string) \<Rightarrow> 'w idem_options \<Rightarrow> string" where
  "storage_key sha opts = buildIdempotencyStorageKey sha (io_workspaceId opts) (io_actorId opts) (io_scope opts) (the (io_key opts))"

definition runIdempotent ::
  "(stored_record \<Rightarrow> string) \<Rightarrow> (string \<Rightarrow> stored_record option) \<Rightarrow> (string \<Rightarrow> string) \<Rightarrow> 'w idem_options \<Rightarrow> 'w
    \<Rightarrow> (thrown + idem_result) \<times> 'w" where
  "runIdempotent encode decode sha opts w =
     (if truthy (io_key opts) = None
      then (if io_requireKv opts then (Inl (Coded (codedError ''idempotency_key_required'' 400)), w) else run_unprotected opts w)
      else case io_kv opts of
        None \<Rightarrow> if fails_closed opts then (Inl idempotencyUnavailableError, w) else run_unprotected opts w
      | Some kv \<Rightarrow>
          (case admit decode opts kv (storage_key sha opts) w of
             (Inr (Some replayed), w) \<Rightarrow> (Inr replayed, w)
           | (Inr None, w) \<Rightarrow> run_protected encode opts kv (storage_key sha opts) w
           | (Inl e, w) \<Rightarrow>
               if e = key_reused \<or> e = in_progress then (Inl e, w)
               else if fails_closed opts then (Inl idempotencyUnavailableError, w)
               else run_unprotected opts w))"

subsection \<open>Failing closed\<close>

lemma replayOf_operation [simp]: "replayOf decode (opts\<lparr>io_operation := f\<rparr>) = replayOf decode opts"
  by (rule ext) (simp add: replayOf_def split: option.split)

lemma admit_operation [simp]: "admit decode (opts\<lparr>io_operation := f\<rparr>) = admit decode opts"
  by (intro ext) (simp only: admit_def replayOf_operation)

lemma truthy_None: "truthy s = None \<longleftrightarrow> s = None \<or> s = Some []"
  by (auto simp: truthy_def split: option.splits list.splits)

lemma admit_goes_on:
  assumes "admit decode opts kv k w = (Inr None, w4)"
  obtains r w1 l w2 w3 r' where "kp_get kv k w = (Inr r, w1)" "truthy r = None"
    "kp_get kv (k @ '':lock'') w1 = (Inr l, w2)" "truthy l = None"
    "kp_put kv (k @ '':lock'') ''1'' IDEMPOTENCY_LOCK_TTL_SECONDS w2 = (None, w3)"
    "kp_get kv k w3 = (Inr r', w4)" "truthy r' = None"
proof -
  obtain r w1 where 1: "kp_get kv k w = (r, w1)" by fastforce
  obtain l w2 where 2: "kp_get kv (k @ '':lock'') w1 = (l, w2)" by fastforce
  obtain p w3 where 3: "kp_put kv (k @ '':lock'') ''1'' IDEMPOTENCY_LOCK_TTL_SECONDS w2 = (p, w3)" by fastforce
  obtain c w5 where 4: "kp_get kv k w3 = (c, w5)" by fastforce
  have go: "map_sum id Some (replayOf decode opts raw) \<noteq> Inr None" for raw
    by (cases "replayOf decode opts raw") simp_all
  obtain r0 where r: "r = Inr r0" "truthy r0 = None"
    using assms 1 2 go by (auto simp: admit_def Let_def truthy_def split: sum.splits option.splits list.splits)
  obtain l0 where l: "l = Inr l0" "truthy l0 = None"
    using assms 1 2 go r
    by (auto simp: admit_def Let_def truthy_None split: sum.splits option.splits list.splits prod.splits if_splits)
  have p: "p = None"
    using assms 1 2 3 r l by (auto simp: admit_def Let_def truthy_None split: option.splits)
  obtain c0 where c: "c = Inr c0" "truthy c0 = None" "w5 = w4"
    using assms 1 2 3 4 r l p go
    by (cases c) (auto simp: admit_def Let_def truthy_None split: option.splits)
  show thesis using that 1 2 3 4 r l p c by simp
qed

text \<open>A request that must not run twice fails closed: with a key and a store declared mandatory, the operation runs
  only after the record was read and found absent, the lock was read and found free, the lock was written, and the
  record was found absent again. In every other case (a store that is missing or rejects a call, a stored answer, a
  reused key, a request in progress) the result does not depend on the operation, which is not run.\<close>
theorem fails_closed_never_runs_blind:
  assumes "truthy (io_key opts) \<noteq> None" "fails_closed opts"
  shows "(\<forall>f. runIdempotent encode decode sha (opts\<lparr>io_operation := f\<rparr>) w = runIdempotent encode decode sha opts w)
    \<or> (\<exists>kv r w1 l w2 w3 r' w4. io_kv opts = Some kv
        \<and> kp_get kv (storage_key sha opts) w = (Inr r, w1) \<and> truthy r = None
        \<and> kp_get kv (storage_key sha opts @ '':lock'') w1 = (Inr l, w2) \<and> truthy l = None
        \<and> kp_put kv (storage_key sha opts @ '':lock'') ''1'' 30 w2 = (None, w3)
        \<and> kp_get kv (storage_key sha opts) w3 = (Inr r', w4) \<and> truthy r' = None
        \<and> runIdempotent encode decode sha opts w = run_protected encode opts kv (storage_key sha opts) w4)"
proof (cases "\<exists>kv w4. io_kv opts = Some kv \<and> admit decode opts kv (storage_key sha opts) w = (Inr None, w4)")
  case True
  then obtain kv w4 where kv: "io_kv opts = Some kv" "admit decode opts kv (storage_key sha opts) w = (Inr None, w4)" by blast
  then have "runIdempotent encode decode sha opts w = run_protected encode opts kv (storage_key sha opts) w4"
    using assms(1) by (auto simp: runIdempotent_def)
  with kv show ?thesis
    using admit_goes_on [OF kv(2)] unfolding IDEMPOTENCY_LOCK_TTL_SECONDS_def by metis
next
  case False
  have "storage_key sha (opts\<lparr>io_operation := f\<rparr>) = storage_key sha opts" for f by (simp add: storage_key_def)
  then have "runIdempotent encode decode sha (opts\<lparr>io_operation := f\<rparr>) w = runIdempotent encode decode sha opts w" for f
    using assms False
    by (auto simp: runIdempotent_def fails_closed_def split: option.splits prod.splits sum.splits)
  then show ?thesis by blast
qed

subsection \<open>Retries\<close>

text \<open>A request on a store at one clock; the other part of the world is what operations change.\<close>

definition store_port ::
  "(ms \<Rightarrow> string \<Rightarrow> 's \<Rightarrow> string option \<times> 's) \<Rightarrow> (ms \<Rightarrow> string \<Rightarrow> string \<Rightarrow> int option \<Rightarrow> 's \<Rightarrow> 's)
    \<Rightarrow> (string \<Rightarrow> 's \<Rightarrow> 's) \<Rightarrow> ms \<Rightarrow> ('s \<times> 'b) kv_port" where
  "store_port get put del now =
     \<lparr>kp_get = (\<lambda>k (s, b). (Inr (fst (get now k s)), (snd (get now k s), b))),
      kp_put = (\<lambda>k v ttl (s, b). (None, (put now k v (Some ttl) s, b))),
      kp_delete = (\<lambda>k (s, b). (None, (del k s, b)))\<rparr>"

definition leaves_store :: "('s \<times> 'b) idem_options \<Rightarrow> bool" where
  "leaves_store opts \<longleftrightarrow> (\<forall>w. fst (snd (io_operation opts w)) = fst w) \<and> (\<forall>d w. fst (snd (io_afterOperation opts d w)) = fst w)"

definition result_ttl :: "'w idem_options \<Rightarrow> json \<Rightarrow> int" where
  "result_ttl opts data = (case io_ttlSecondsForResult opts data of Some t \<Rightarrow> t | None \<Rightarrow> io_ttlSeconds opts)"

lemma run_operation_store:
  "leaves_store opts \<Longrightarrow> run_operation opts (s, b) = (r, w) \<Longrightarrow> fst w = s"
  by (cases "io_operation opts (s, b)"; cases "fst (io_operation opts (s, b))")
    (auto simp: run_operation_def leaves_store_def split: prod.splits option.splits, (metis fst_conv snd_conv)+)

lemma record_key_lock: "k @ '':lock'' \<noteq> (k :: string)"
  by simp

context kv_store begin

lemma admit_fresh:
  assumes iv: "invar s" and fresh: "live now s k = None"
    and ad: "admit decode opts (store_port get put del now) k (s, b) = (res, w)"
  shows "res = Inl in_progress \<or> (res = Inr None \<and> (\<exists>s2. invar s2 \<and> w = (s2, b)))"
proof -
  let ?s1 = "snd (get now k s)"
  let ?s2 = "snd (get now (k @ '':lock'') ?s1)"
  let ?s3 = "put now (k @ '':lock'') ''1'' (Some IDEMPOTENCY_LOCK_TTL_SECONDS) ?s2"
  have i: "invar ?s1" "invar ?s2" "invar ?s3" "invar (snd (get now k ?s2))" "invar (snd (get now k ?s3))"
    using iv by (simp_all add: keeps)
  have none: "fst (get now k s) = None" "fst (get now k ?s2) = None" "fst (get now k ?s3) = None"
    using i iv fresh by (simp_all add: get_value get_live put_live)
  show ?thesis
    using ad none i unfolding admit_def store_port_def Let_def
    by (auto simp: truthy_def split: option.splits list.splits if_splits)
qed

lemma first_stores:
  assumes iv: "invar s" and lv: "leaves_store opts" and key: "truthy (io_key opts) \<noteq> None"
    and kv: "io_kv opts = Some (store_port get put del now)" and fresh: "live now s (storage_key sha opts) = None"
    and run: "runIdempotent encode decode sha opts (s, b) = (Inr r, (s', b'))"
    and ttl: "result_ttl opts (ir_data r) \<ge> IDEMPOTENCY_MIN_RECORD_TTL_SECONDS"
  shows "\<exists>s2. invar s2
    \<and> s' = put now (storage_key sha opts) (encode (record_of opts (ir_data r))) (Some (result_ttl opts (ir_data r))) s2"
proof -
  let ?kv = "store_port get put del now"
  obtain res w where ad: "admit decode opts ?kv (storage_key sha opts) (s, b) = (res, w)" by (rule prod.exhaust)
  then obtain s2 where s2: "invar s2" "res = Inr None" "w = (s2, b)"
    using admit_fresh [OF iv fresh ad] run key kv by (auto simp: runIdempotent_def in_progress_def)
  obtain q w2 where op: "run_operation opts (s2, b) = (q, w2)" by (rule prod.exhaust)
  have w2: "fst w2 = s2" using run_operation_store [OF lv op] .
  have run': "run_protected encode opts ?kv (storage_key sha opts) (s2, b) = (Inr r, (s', b'))"
    using run key kv ad s2 by (auto simp: runIdempotent_def)
  then obtain data where q: "q = Inr data" using op by (cases q) (auto simp: run_protected_def)
  have r: "ir_data r = data"
    using run' op q by (auto simp: run_protected_def Let_def fresh_result_def store_port_def split: prod.splits option.splits if_splits)
  have "s' = put now (storage_key sha opts) (encode (record_of opts data)) (Some (result_ttl opts data)) (fst w2)"
    using run' op q ttl r
    by (auto simp: run_protected_def Let_def store_port_def result_ttl_def split: prod.splits option.splits if_splits)
  with w2 s2 r show ?thesis by auto
qed

lemma retry_reads_record:
  assumes iv: "invar s2" and key: "truthy (io_key opts') \<noteq> None" and same: "storage_key sha opts' = k"
    and kv: "io_kv opts' = Some (store_port get put del t)"
    and rec: "decode (encode rec) = Some rec" "encode rec \<noteq> []"
    and time: "now \<le> t" "t < now + 1000 * ttl" "0 < ttl"
  shows "\<exists>s3. runIdempotent encode decode sha opts' (put now k (encode rec) (Some ttl) s2, b)
      = ((case replayOf decode opts' (encode rec) of Inl e \<Rightarrow> Inl e | Inr res \<Rightarrow> Inr res), (s3, b))"
proof -
  let ?s = "put now k (encode rec) (Some ttl) s2"
  have "live t ?s k = Some (encode rec, expiresAt now (Some ttl))"
    using iv time by (simp add: put_live unless_expired_def expired_def expiresAt_def)
  then have read: "fst (get t k ?s) = Some (encode rec)" using iv by (simp add: get_value keeps)
  obtain c cs where enc: "encode rec = c # cs" using rec(2) by (cases "encode rec") auto
  define s3 where "s3 = snd (get t (k @ '':lock'') (snd (get t k ?s)))"
  have ad: "admit decode opts' (store_port get put del t) k (?s, b)
      = (map_sum id Some (replayOf decode opts' (encode rec)), (s3, b))"
    using read enc by (simp add: admit_def Let_def store_port_def s3_def)
  have "replayOf decode opts' (encode rec) = Inl key_reused \<or> (\<exists>res. replayOf decode opts' (encode rec) = Inr res)"
    using rec by (auto simp: replayOf_def)
  then show ?thesis using key same kv ad by (auto simp: runIdempotent_def)
qed

end

text \<open>The port of the in-process adapter at a clock.\<close>

definition ip_port :: "ms \<Rightarrow> (ip_store \<times> 'b) kv_port" where
  "ip_port = store_port ip_get ip_put ip_delete"

lemma same_fingerprint:
  assumes "io_fingerprint opts' = io_fingerprint opts"
  shows "fingerprintMatches (sr_fingerprint (record_of opts data)) (sr_fingerprints (record_of opts data)) (io_fingerprint opts') cs"
  using assms by (auto simp: fingerprintMatches_def record_of_def truthy_def split: option.splits list.splits)

text \<open>C38: A retry gets the first answer. After a request that found no record under its key succeeded, the same request
  sent again while the record lasts (at least a minute) is answered with the status and the data of the first, marked
  as replayed, and changes nothing outside the store: its operation is not run. The same key with another payload, told
  apart by its fingerprint, is refused, and its operation is not run either.\<close>
theorem retry_gets_first_answer:
  assumes lv: "leaves_store opts" and key: "truthy (io_key opts) \<noteq> None" "truthy (io_key opts') \<noteq> None"
    and same: "storage_key sha opts' = storage_key sha opts"
    and kv: "io_kv opts = Some (ip_port now)" "io_kv opts' = Some (ip_port t)"
    and fresh: "s (storage_key sha opts) = None"     and run: "runIdempotent encode decode sha opts (s, b) = (Inr r, (s', b'))"
    and codec: "decode (encode (record_of opts (ir_data r))) = Some (record_of opts (ir_data r))"
      "encode (record_of opts (ir_data r)) \<noteq> []"
    and ttl: "result_ttl opts (ir_data r) \<ge> 60" and time: "now \<le> t" "t < now + 1000 * result_ttl opts (ir_data r)"
    and status: "io_status opts \<noteq> 0" and plain: "\<not> io_requireFingerprint opts'"
  shows "(io_fingerprint opts' = io_fingerprint opts \<longrightarrow>
      (\<exists>s''. runIdempotent encode decode sha opts' (s', b') =
        (Inr \<lparr>ir_status = io_status opts, ir_data = stripReplayStorageInternals (ir_data r), ir_replayed = True\<rparr>, (s'', b'))))
    \<and> (\<forall>f f'. io_storageFingerprint opts = None \<longrightarrow> truthy (io_fingerprint opts) = Some f \<longrightarrow> truthy (io_fingerprint opts') = Some f' \<longrightarrow>
        f \<notin> set (f' # io_compatibleFingerprints opts') \<longrightarrow>
      (\<exists>s''. runIdempotent encode decode sha opts' (s', b') = (Inl key_reused, (s'', b'))))"
proof -
  let ?rec = "record_of opts (ir_data r)"
  have "ip_view now s (storage_key sha opts) = None" using fresh by (simp add: ip_view_def unless_expired_def)
  then obtain s2 where s': "s' = ip_put now (storage_key sha opts) (encode ?rec) (Some (result_ttl opts (ir_data r))) s2"
    using ip.first_stores [OF _ lv key(1) kv(1) [unfolded ip_port_def] _ run] ttl
    by (auto simp: IDEMPOTENCY_MIN_RECORD_TTL_SECONDS_def)
  obtain s3 where again: "runIdempotent encode decode sha opts' (s', b')
      = ((case replayOf decode opts' (encode ?rec) of Inl e \<Rightarrow> Inl e | Inr res \<Rightarrow> Inr res), (s3, b'))"
    using ip.retry_reads_record [OF _ key(2) same kv(2) [unfolded ip_port_def] _ _ time, of decode encode ?rec s2 b'] codec ttl s'
    by auto
  have "replayOf decode opts' (encode ?rec)
      = Inr \<lparr>ir_status = io_status opts, ir_data = stripReplayStorageInternals (ir_data r), ir_replayed = True\<rparr>"
    if "io_fingerprint opts' = io_fingerprint opts"
    using codec plain status same_fingerprint [OF that] by (simp add: replayOf_def) (simp add: record_of_def)
  moreover have "replayOf decode opts' (encode ?rec) = Inl key_reused"
    if "io_storageFingerprint opts = None" "truthy (io_fingerprint opts) = Some f" "truthy (io_fingerprint opts') = Some f'"
      "f \<notin> set (f' # io_compatibleFingerprints opts')" for f f'
    using codec that by (auto simp: replayOf_def fingerprintMatches_def record_of_def truthy_def [of None])
  ultimately show ?thesis using again by auto
qed

definition ex_options :: "ms \<Rightarrow> (ip_store \<times> nat) idem_options" where
  "ex_options now = \<lparr>io_workspaceId = ''w'', io_actorId = ''a'', io_scope = ''s'', io_key = Some ''k'', io_status = 201,
     io_fingerprint = Some ''f'', io_storageFingerprint = None, io_compatibleFingerprints = [], io_ttlSeconds = 86400,
     io_ttlSecondsForResult = (\<lambda>_. None), io_kv = Some (ip_port now), io_requireKv = True, io_requireKvRead = False,
     io_requireFingerprint = False, io_operation = (\<lambda>(s, n). (Inr (JNum ''1''), (s, Suc n))),
     io_afterOperation = (\<lambda>_ w. (None, w))\<rparr>"

definition ex_encode :: "stored_record \<Rightarrow> string" where "ex_encode rec = ''r''"

definition ex_decode :: "string \<Rightarrow> stored_record option" where
  "ex_decode raw = (if raw = ''r'' then Some (record_of (ex_options 0) (JNum ''1'')) else None)"

lemma admit_empty:
  "admit decode opts (ip_port now) k (Map.empty, n)
    = (Inr None, ([k @ '':lock'' \<mapsto> (''1'', expiresAt now (Some IDEMPOTENCY_LOCK_TTL_SECONDS))], n))"
  by (simp add: admit_def Let_def ip_port_def store_port_def ip_get_def ip_live_def ip_put_def truthy_def)

lemma ex_first:
  "\<exists>s. runIdempotent ex_encode ex_decode id (ex_options 1000) (Map.empty, 0)
    = (Inr \<lparr>ir_status = 201, ir_data = JNum ''1'', ir_replayed = False\<rparr>, (s, 1))"
proof -
  define k where "k = storage_key id (ex_options 1000)"
  have "\<exists>s'. run_protected ex_encode (ex_options 1000) (ip_port 1000) k (s, 0)
      = (Inr \<lparr>ir_status = 201, ir_data = JNum ''1'', ir_replayed = False\<rparr>, (s', 1))" for s
    by (simp add: run_protected_def run_operation_def ex_options_def ip_port_def store_port_def
      IDEMPOTENCY_MIN_RECORD_TTL_SECONDS_def fresh_result_def)
  moreover have "io_kv (ex_options 1000) = Some (ip_port 1000)" "truthy (io_key (ex_options 1000)) = Some ''k''"
    by (simp_all add: ex_options_def truthy_def)
  ultimately show ?thesis by (simp add: runIdempotent_def admit_empty k_def [symmetric])
qed

theorem retry_gets_first_answer_witness:
  "\<exists>s s''. runIdempotent ex_encode ex_decode id (ex_options 1000) (Map.empty, 0)
        = (Inr \<lparr>ir_status = 201, ir_data = JNum ''1'', ir_replayed = False\<rparr>, (s, 1))
    \<and> runIdempotent ex_encode ex_decode id (ex_options 50000) (s, 1)
        = (Inr \<lparr>ir_status = 201, ir_data = JNum ''1'', ir_replayed = True\<rparr>, (s'', 1))"
proof -
  obtain s where run: "runIdempotent ex_encode ex_decode id (ex_options 1000) (Map.empty, 0)
        = (Inr \<lparr>ir_status = 201, ir_data = JNum ''1'', ir_replayed = False\<rparr>, (s, 1))"
    using ex_first by blast
  have rec: "record_of (ex_options 1000) (JNum ''1'') = record_of (ex_options 0) (JNum ''1'')"
    by (simp add: record_of_def ex_options_def)
  let ?o = "ex_options 1000" and ?o' = "ex_options 50000"
  have lv: "leaves_store ?o" by (auto simp: leaves_store_def ex_options_def)
  have key: "truthy (io_key ?o) \<noteq> None" "truthy (io_key ?o') \<noteq> None" by (simp_all add: ex_options_def truthy_def)
  have same: "storage_key id ?o' = storage_key id ?o" by (simp add: storage_key_def ex_options_def)
  have kv: "io_kv ?o = Some (ip_port 1000)" "io_kv ?o' = Some (ip_port 50000)" by (simp_all add: ex_options_def)
  have codec: "ex_decode (ex_encode (record_of ?o (JNum ''1''))) = Some (record_of ?o (JNum ''1''))"
      "ex_encode (record_of ?o (JNum ''1'')) \<noteq> []"
    by (simp_all add: ex_encode_def ex_decode_def rec)
  have ttl: "result_ttl ?o (JNum ''1'') = 86400" by (simp add: result_ttl_def ex_options_def)
  have rest: "io_status ?o = 201" "\<not> io_requireFingerprint ?o'" "io_fingerprint ?o' = io_fingerprint ?o"
    by (simp_all add: ex_options_def)
  have strip: "stripReplayStorageInternals (JNum ''1'') = JNum ''1''" by (simp add: stripReplayStorageInternals_def without_def)
  have "\<exists>s''. runIdempotent ex_encode ex_decode id ?o' (s, 1)
      = (Inr \<lparr>ir_status = 201, ir_data = JNum ''1'', ir_replayed = True\<rparr>, (s'', 1))"
    using retry_gets_first_answer [OF lv key same kv _ run, simplified, OF codec] ttl rest strip by simp
  with run show ?thesis by blast
qed

theorem fails_closed_never_runs_blind_witness:
  "\<forall>f w. runIdempotent ex_encode ex_decode id ((ex_options 1000)\<lparr>io_kv := None, io_operation := f\<rparr>) w
     = runIdempotent ex_encode ex_decode id ((ex_options 1000)\<lparr>io_kv := None\<rparr>) w"
proof (intro allI)
  fix f w
  have "truthy (io_key ((ex_options 1000)\<lparr>io_kv := None\<rparr>)) \<noteq> None" "fails_closed ((ex_options 1000)\<lparr>io_kv := None\<rparr>)"
    by (simp_all add: ex_options_def truthy_def fails_closed_def)
  from fails_closed_never_runs_blind [OF this, of ex_encode ex_decode id w]
  show "runIdempotent ex_encode ex_decode id ((ex_options 1000)\<lparr>io_kv := None, io_operation := f\<rparr>) w
     = runIdempotent ex_encode ex_decode id ((ex_options 1000)\<lparr>io_kv := None\<rparr>) w" by auto
qed

end
