(* ===== verification/Snowflake.thy ===== *)
theory Snowflake
  imports Prelude "HOL-Library.Word"
begin

unbundle bit_operations_syntax

text \<open>
  Identifiers (\<open>engine/snowflake.ts\<close>): a timestamp, ten bits of worker and twelve of sequence. A generator
  is a state; the clock is the list of the readings that \<open>Date.now()\<close> gives, in order, and may step back.
  A call that reads past the end of that list has not returned yet (\<open>None\<close>).
\<close>

definition EPOCH_MS :: ms where "EPOCH_MS = 1735689600000"
definition WORKER_ID_BITS :: nat where "WORKER_ID_BITS = 10"
definition SEQUENCE_BITS :: nat where "SEQUENCE_BITS = 12"
definition SEQUENCE_MASK :: int where "SEQUENCE_MASK = push_bit SEQUENCE_BITS 1 - 1"
definition WORKER_ID_MASK :: int where "WORKER_ID_MASK = push_bit WORKER_ID_BITS 1 - 1"
definition WORKER_ID_SHIFT :: nat where "WORKER_ID_SHIFT = SEQUENCE_BITS"
definition TIMESTAMP_SHIFT :: nat where "TIMESTAMP_SHIFT = SEQUENCE_BITS + WORKER_ID_BITS"

definition fnv1a10Bits :: "string \<Rightarrow> int" where
  "fnv1a10Bits input =
     uint (fold (\<lambda>c hash. (hash XOR word_of_nat (of_char c)) * 0x01000193) input (0x811c9dc5 :: 32 word) AND 0x3ff)"

record generator =
  g_workerId :: "int option"
  g_lastTimestamp :: ms
  g_sequence :: int

definition new_generator :: "int option \<Rightarrow> generator" where
  "new_generator workerId = \<lparr>g_workerId = workerId, g_lastTimestamp = -1, g_sequence = 0\<rparr>"

definition getWorkerId :: "string \<Rightarrow> generator \<Rightarrow> int" where
  "getWorkerId isolateId g = (case g_workerId g of Some w \<Rightarrow> w AND 0x3ff | None \<Rightarrow> fnv1a10Bits isolateId)"

definition compose_id :: "ms \<Rightarrow> int \<Rightarrow> int \<Rightarrow> int" where
  "compose_id now wid sequence =
     push_bit TIMESTAMP_SHIFT (now - EPOCH_MS) OR push_bit WORKER_ID_SHIFT (wid AND WORKER_ID_MASK) OR (sequence AND SEQUENCE_MASK)"

text \<open>\<open>while (now <= this.lastTimestamp) now = Date.now()\<close>\<close>

fun wait_past :: "ms \<Rightarrow> ms \<Rightarrow> ms list \<Rightarrow> (ms \<times> ms list) option" where
  "wait_past previous now [] = (if now > previous then Some (now, []) else None)"
| "wait_past previous now (t # ts) = (if now > previous then Some (now, t # ts) else wait_past previous t ts)"

definition generate :: "string \<Rightarrow> generator \<Rightarrow> ms list \<Rightarrow> (int \<times> generator \<times> ms list) option" where
  "generate isolateId g clock =
     (case clock of
        [] \<Rightarrow> None
      | reading # clock \<Rightarrow>
          let wid = getWorkerId isolateId g;
              now = (if reading < g_lastTimestamp g then g_lastTimestamp g else reading);
              sequence = (if now = g_lastTimestamp g then (g_sequence g + 1) AND SEQUENCE_MASK else 0)
          in case (if now = g_lastTimestamp g \<and> sequence = 0 then wait_past (g_lastTimestamp g) now clock else Some (now, clock)) of
               None \<Rightarrow> None
             | Some (now, clock) \<Rightarrow>
                 Some (compose_id now wid sequence, g\<lparr>g_lastTimestamp := now, g_sequence := sequence\<rparr>, clock))"

definition extractTimestamp :: "int \<Rightarrow> ms" where
  "extractTimestamp i = drop_bit TIMESTAMP_SHIFT i + EPOCH_MS"

definition extractWorkerId :: "int \<Rightarrow> int" where
  "extractWorkerId i = drop_bit WORKER_ID_SHIFT i AND WORKER_ID_MASK"

definition extractSequence :: "int \<Rightarrow> int" where
  "extractSequence i = i AND SEQUENCE_MASK"

definition snowflakeIdLowerBound :: "ms \<Rightarrow> int" where
  "snowflakeIdLowerBound timestampMs = push_bit TIMESTAMP_SHIFT (max 0 (timestampMs - EPOCH_MS))"

text \<open>The identifiers of \<open>n\<close> calls in a row.\<close>

fun generate_many :: "string \<Rightarrow> nat \<Rightarrow> generator \<Rightarrow> ms list \<Rightarrow> (int list \<times> generator \<times> ms list) option" where
  "generate_many isolateId 0 g clock = Some ([], g, clock)"
| "generate_many isolateId (Suc n) g clock =
     (case generate isolateId g clock of
        None \<Rightarrow> None
      | Some (i, g', clock') \<Rightarrow> map_option (\<lambda>(is, r). (i # is, r)) (generate_many isolateId n g' clock'))"

subsection \<open>The fields of an identifier\<close>

lemmas snowflake_bits = SEQUENCE_MASK_def WORKER_ID_MASK_def WORKER_ID_SHIFT_def TIMESTAMP_SHIFT_def SEQUENCE_BITS_def WORKER_ID_BITS_def

lemma masks [simp]: "x AND SEQUENCE_MASK = take_bit 12 x" "x AND WORKER_ID_MASK = take_bit 10 x"
  by (simp_all add: snowflake_bits take_bit_eq_mask mask_eq_exp_minus_1)

lemma compose_id_eq: "compose_id now wid s = (now - EPOCH_MS) * 2 ^ 22 + take_bit 10 wid * 2 ^ 12 + take_bit 12 s"
proof -
  have "compose_id now wid s = concat_bit 12 s (concat_bit 10 wid (now - EPOCH_MS))"
    unfolding compose_id_def masks
    by (simp add: concat_bit_def WORKER_ID_SHIFT_def TIMESTAMP_SHIFT_def SEQUENCE_BITS_def WORKER_ID_BITS_def push_bit_or ac_simps)
  also have "\<dots> = take_bit 12 s + push_bit 12 (take_bit 10 wid + push_bit 10 (now - EPOCH_MS))"
    by (simp add: concat_bit_eq)
  finally show ?thesis by (simp add: push_bit_eq_mult algebra_simps)
qed

lemma compose_id_fields:
  "extractTimestamp (compose_id now wid s) = now" "extractWorkerId (compose_id now wid s) = take_bit 10 wid"
  "extractSequence (compose_id now wid s) = take_bit 12 s"
proof -
  define d where "d = now - EPOCH_MS"
  have w: "0 \<le> take_bit 10 wid" "take_bit 10 wid < 1024" and s: "0 \<le> take_bit 12 s" "take_bit 12 s < 4096"
    using take_bit_int_less_exp [of 10 wid] take_bit_int_less_exp [of 12 s] by simp_all
  have eq: "compose_id now wid s = d * 4194304 + take_bit 10 wid * 4096 + take_bit 12 s"
    by (simp add: compose_id_eq d_def)
  have "(d * 4194304 + x * 4096 + y) div 4194304 = d" "(d * 4194304 + x * 4096 + y) div 4096 mod 1024 = x"
      "(d * 4194304 + x * 4096 + y) mod 4096 = y" if "0 \<le> x" "x < 1024" "0 \<le> y" "y < 4096" for x y
  proof -
    have "(d * 4194304 + x * 4096 + y) div 4194304 = (x * 4096 + y + d * 4194304) div 4194304" by (simp add: ac_simps)
    also have "\<dots> = d + (x * 4096 + y) div 4194304" by (rule div_mult_self1) simp
    also have "(x * 4096 + y) div 4194304 = 0" using that by (intro div_pos_pos_trivial) linarith+
    finally show "(d * 4194304 + x * 4096 + y) div 4194304 = d" by simp
    have "(d * 4194304 + x * 4096 + y) = y + (d * 1024 + x) * 4096" by simp
    then have q: "(d * 4194304 + x * 4096 + y) div 4096 = (d * 1024 + x) + y div 4096"
        "(d * 4194304 + x * 4096 + y) mod 4096 = y mod 4096"
      by (metis div_mult_self1 zero_neq_numeral, metis mod_mult_self1)
    have "(d * 1024 + x) mod 1024 = (x + d * 1024) mod 1024" by (simp add: ac_simps)
    also have "\<dots> = x" using that by (simp only: mod_mult_self1 mod_pos_pos_trivial)
    finally show "(d * 4194304 + x * 4096 + y) div 4096 mod 1024 = x" using q that by simp
    show "(d * 4194304 + x * 4096 + y) mod 4096 = y" using q that by simp
  qed
  note fields = this [OF w s]
  show "extractTimestamp (compose_id now wid s) = now"
    using fields(1) by (simp add: extractTimestamp_def eq TIMESTAMP_SHIFT_def SEQUENCE_BITS_def WORKER_ID_BITS_def drop_bit_eq_div d_def)
  show "extractSequence (compose_id now wid s) = take_bit 12 s"
    using fields(3) by (simp add: extractSequence_def eq) (simp add: take_bit_eq_mod)
  show "extractWorkerId (compose_id now wid s) = take_bit 10 wid"
    using fields(2) by (simp add: extractWorkerId_def eq WORKER_ID_SHIFT_def SEQUENCE_BITS_def drop_bit_eq_div) (simp add: take_bit_eq_mod)
qed

subsection \<open>Order\<close>

text \<open>What a generator keeps: its sequence fits its field; with its last timestamp it bounds every identifier so far.\<close>

definition generator_ok :: "generator \<Rightarrow> bool" where
  "generator_ok g \<longleftrightarrow> 0 \<le> g_sequence g \<and> g_sequence g < 4096"

definition last_id :: "string \<Rightarrow> generator \<Rightarrow> int" where
  "last_id isolateId g = compose_id (g_lastTimestamp g) (getWorkerId isolateId g) (g_sequence g)"

lemma getWorkerId_bits: "take_bit 10 (getWorkerId isolateId g) = getWorkerId isolateId g"
proof -
  have m: "x AND 0x3ff = take_bit 10 x" for x :: int by (simp add: take_bit_eq_mask mask_eq_exp_minus_1)
  have w: "x AND 0x3ff = take_bit 10 x" for x :: "32 word" by (simp add: take_bit_eq_mask mask_eq_exp_minus_1)
  show ?thesis by (auto simp: getWorkerId_def fnv1a10Bits_def m w unsigned_take_bit_eq split: option.splits)
qed

lemma wait_past_later: "wait_past previous now clock = Some (t, rest) \<Longrightarrow> previous < t"
  by (induction previous now clock rule: wait_past.induct) (auto split: if_splits list.splits)

lemma wait_past_now [simp]: "now > previous \<Longrightarrow> wait_past previous now clock = Some (now, clock)"
  by (cases clock) auto

lemma wait_past_returns: "\<exists>t \<in> set clock. previous < t \<Longrightarrow> wait_past previous now clock \<noteq> None"
  by (induction clock arbitrary: now) auto

lemma generate_step:
  assumes "generator_ok g" "generate isolateId g clock = Some (i, g', rest)"
  shows "generator_ok g'" "getWorkerId isolateId g' = getWorkerId isolateId g" "i = last_id isolateId g'"
    "last_id isolateId g < i" "g_lastTimestamp g \<le> g_lastTimestamp g'"
proof -
  obtain reading ts where clock: "clock = reading # ts" using assms(2) by (cases clock) (auto simp: generate_def)
  define now where "now = (if reading < g_lastTimestamp g then g_lastTimestamp g else reading)"
  define sq where "sq = (if now = g_lastTimestamp g then (g_sequence g + 1) AND SEQUENCE_MASK else 0)"
  obtain t where t: "(if now = g_lastTimestamp g \<and> sq = 0 then wait_past (g_lastTimestamp g) now ts else Some (now, ts)) = Some (t, rest)"
      and i: "i = compose_id t (getWorkerId isolateId g) sq" and g': "g' = g\<lparr>g_lastTimestamp := t, g_sequence := sq\<rparr>"
    using assms(2) by (auto simp: generate_def clock Let_def now_def [symmetric] sq_def [symmetric] split: option.splits)
  have wid: "getWorkerId isolateId g' = getWorkerId isolateId g" by (simp add: g' getWorkerId_def)
  have sq: "0 \<le> sq" "sq < 4096" using take_bit_int_less_exp [of 12 "g_sequence g + 1"] by (auto simp: sq_def)
  have order: "g_lastTimestamp g < t \<or> (g_lastTimestamp g = t \<and> g_sequence g < sq)"
  proof (cases "now = g_lastTimestamp g \<and> sq = 0")
    case True
    then show ?thesis using t wait_past_later by auto
  next
    case False
    then have "t = now" using t by auto
    moreover have "g_lastTimestamp g \<le> now" by (simp add: now_def)
    moreover have "g_sequence g < sq" if "now = g_lastTimestamp g"
    proof -
      have "sq = (g_sequence g + 1) mod 4096" "sq \<noteq> 0" using that False by (auto simp: sq_def take_bit_eq_mod)
      then show ?thesis using assms(1) by (cases "g_sequence g = 4095") (auto simp: generator_ok_def)
    qed
    ultimately show ?thesis by auto
  qed
  have w: "0 \<le> getWorkerId isolateId g" "getWorkerId isolateId g < 1024"
    using take_bit_int_less_exp [of 10 "getWorkerId isolateId g"] take_bit_nonnegative [of 10 "getWorkerId isolateId g"]
    by (simp_all add: getWorkerId_bits)
  have eq: "compose_id a (getWorkerId isolateId g) b = (a - EPOCH_MS) * 4194304 + getWorkerId isolateId g * 4096 + b"
    if "0 \<le> b" "b < 4096" for a b
    using that by (simp add: compose_id_eq getWorkerId_bits take_bit_int_eq_self)
  show "generator_ok g'" using sq by (simp add: generator_ok_def g')
  show "getWorkerId isolateId g' = getWorkerId isolateId g" by (rule wid)
  show "i = last_id isolateId g'" using i g' wid by (simp add: last_id_def)
  show "last_id isolateId g < i"
    using order w sq assms(1) unfolding last_id_def i generator_ok_def by (auto simp: eq)
  show "g_lastTimestamp g \<le> g_lastTimestamp g'" using order g' by auto
qed

lemma generate_many_step:
  assumes "generator_ok g" "generate_many isolateId n g clock = Some (is, g', rest)"
  shows "length is = n \<and> sorted_wrt (<) is \<and> list_all (\<lambda>i. last_id isolateId g < i \<and> extractWorkerId i = getWorkerId isolateId g) is"
  using assms
proof (induction n arbitrary: g clock "is")
  case (Suc n)
  obtain i g1 c1 js where 1: "generate isolateId g clock = Some (i, g1, c1)" "generate_many isolateId n g1 c1 = Some (js, g', rest)"
      and "is": "is = i # js"
    using Suc.prems(2) by (auto split: option.splits)
  note st = generate_step [OF Suc.prems(1) 1(1)]
  have "extractWorkerId i = getWorkerId isolateId g1" by (simp add: st(3) last_id_def compose_id_fields getWorkerId_bits)
  then show ?case using Suc.IH [OF st(1) 1(2)] st(2-4) by (auto simp: "is" list_all_iff)
qed simp

text \<open>C39: Identifiers never collide and never go back: whatever the clock does (steps back, stands still, or lets the
  4096 numbers of a millisecond run out), the identifiers of one generator strictly increase, and those of two
  generators with different worker numbers are different; each identifier yields the worker it was made by. A call
  returns as soon as the clock gives a reading after the generator's last timestamp.\<close>
theorem identifiers_unique:
  assumes "generate_many isolateId n (new_generator w) clock = Some (is, g', rest)"
    and "generate_many isolateId' n' (new_generator w') clock' = Some (is', h', rest')"
  shows "length is = n \<and> sorted_wrt (<) is \<and> list_all (\<lambda>i. extractWorkerId i = getWorkerId isolateId (new_generator w)) is
    \<and> (getWorkerId isolateId (new_generator w) \<noteq> getWorkerId isolateId' (new_generator w') \<longrightarrow> set is \<inter> set is' = {})
    \<and> (\<forall>t. t > g_lastTimestamp g' \<longrightarrow> generate isolateId g' (now # xs @ t # ys) \<noteq> None)"
proof -
  have ok: "generator_ok (new_generator x)" for x by (simp add: generator_ok_def new_generator_def)
  note m = generate_many_step [OF ok assms(1)] and m' = generate_many_step [OF ok assms(2)]
  have "generate isolateId g' (now # xs @ t # ys) \<noteq> None" if "t > g_lastTimestamp g'" for t
    using wait_past_returns [of "xs @ t # ys" "g_lastTimestamp g'" "g_lastTimestamp g'"] that
    by (auto simp: generate_def Let_def split: option.splits)
  with m m' show ?thesis by (auto simp: list_all_iff)
qed

theorem identifiers_unique_witness:
  "generate_many ''w'' 2 (new_generator (Some 5)) [1735689600001, 1735689600000]
      = Some ([4214784, 4214785], \<lparr>g_workerId = Some 5, g_lastTimestamp = 1735689600001, g_sequence = 1\<rparr>, [])
    \<and> sorted_wrt (<) [4214784, 4214785 :: int]"
proof -
  have run: "generate_many ''w'' 2 (new_generator (Some 5)) [1735689600001, 1735689600000]
      = Some ([4214784, 4214785], \<lparr>g_workerId = Some 5, g_lastTimestamp = 1735689600001, g_sequence = 1\<rparr>, [])"
    by code_simp
  from identifiers_unique [OF run run] run show ?thesis by blast
qed

end
