(* ===== verification/EventOutbox.thy ===== *)
theory EventOutbox
  imports Json
begin

text \<open>
  Event subscriptions and the durable queue of events (\<open>engine/eventSubscription.ts\<close>, \<open>engine/eventQueue.ts\<close>,
  tables \<open>event_subscriptions\<close>, \<open>pending_events\<close> and \<open>webhook_deliveries\<close> of \<open>db/schema.ts\<close>). A row of the
  queue is claimed by an UPDATE that takes one of its attempts and a lease, is settled once, and is pruned some
  time after. Deleting a row cascades to its webhook deliveries.
\<close>

subsection \<open>Tables\<close>

record event_filter =
  ef_channel :: "string option"
  ef_mentions :: "string option"

datatype signature_scheme = Legacy | StandardWebhooks

record subscription_row =
  es_id :: id
  es_ws :: id
  es_events :: "string list"
  es_filter :: "event_filter option"
  es_url :: string
  es_headers :: "(string \<times> string) list option"
  es_secret :: "string option"
  es_signatureScheme :: signature_scheme
  es_isActive :: bool
  es_createdAt :: sec

datatype event_status = EvPending | EvCompleted | EvFailed

record event_row =
  pe_id :: id
  pe_ws :: id
  pe_eventType :: string
  pe_payload :: "(string \<times> json) list"
  pe_status :: event_status
  pe_attempts :: int
  pe_maxAttempts :: int
  pe_webhookInitialized :: bool
  pe_lastError :: "string option"
  pe_createdAt :: sec
  pe_processAfter :: sec
  pe_completedAt :: "sec option"

datatype webhook_status = WhPending | WhSucceeded | WhFailed | WhDeadLetter

record webhook_row =
  wd_id :: id
  wd_eventId :: id
  wd_subscriptionId :: id
  wd_status :: webhook_status
  wd_attempts :: int
  wd_nextAttemptAt :: sec
  wd_lastError :: "string option"
  wd_lastStatus :: "int option"
  wd_createdAt :: sec
  wd_completedAt :: "sec option"

record outbox =
  eventSubscriptions :: "subscription_row list"
  pendingEvents :: "event_row list"
  webhookDeliveries :: "webhook_row list"

definition upd_events :: "(event_row \<Rightarrow> bool) \<Rightarrow> (event_row \<Rightarrow> event_row) \<Rightarrow> outbox \<Rightarrow> outbox" where
  "upd_events P f db = db\<lparr>pendingEvents := upd_where P f (pendingEvents db)\<rparr>"

definition upd_hooks :: "(webhook_row \<Rightarrow> bool) \<Rightarrow> (webhook_row \<Rightarrow> webhook_row) \<Rightarrow> outbox \<Rightarrow> outbox" where
  "upd_hooks P f db = db\<lparr>webhookDeliveries := upd_where P f (webhookDeliveries db)\<rparr>"

lemma upd_hooks_simps [simp]:
  "webhookDeliveries (upd_hooks P f db) = upd_where P f (webhookDeliveries db)"
  "pendingEvents (upd_hooks P f db) = pendingEvents db"
  "eventSubscriptions (upd_hooks P f db) = eventSubscriptions db"
  by (simp_all add: upd_hooks_def)

lemma upd_events_simps [simp]:
  "pendingEvents (upd_events P f db) = upd_where P f (pendingEvents db)"
  "webhookDeliveries (upd_events P f db) = webhookDeliveries db"
  "eventSubscriptions (upd_events P f db) = eventSubscriptions db"
  by (simp_all add: upd_events_def)

subsection \<open>Subscriptions\<close>

record subscription_view =
  sv_id :: id
  sv_events :: "string list"
  sv_filter :: "event_filter option"
  sv_url :: string
  sv_headers :: "(string \<times> string) list option"
  sv_signature_scheme :: signature_scheme
  sv_is_active :: bool
  sv_created_at :: sec

definition redactHeaders :: "(string \<times> string) list option \<Rightarrow> (string \<times> string) list option" where
  "redactHeaders headers = map_option (map (\<lambda>(name, v). (name, ''[redacted]''))) headers"

definition subscription_view_of :: "subscription_row \<Rightarrow> subscription_view" where
  "subscription_view_of r =
     \<lparr>sv_id = es_id r, sv_events = es_events r, sv_filter = es_filter r, sv_url = es_url r,
      sv_headers = redactHeaders (es_headers r), sv_signature_scheme = es_signatureScheme r,
      sv_is_active = es_isActive r, sv_created_at = es_createdAt r\<rparr>"

record subscription_data =
  sd_events :: "string list"
  sd_filter :: "event_filter option"
  sd_url :: string
  sd_headers :: "(string \<times> string) list option"
  sd_secret :: "string option"
  sd_signatureScheme :: "signature_scheme option"

text \<open>\<open>freshId\<close> is the generated identifier.\<close>

definition createSubscription :: "ms \<Rightarrow> string \<Rightarrow> id \<Rightarrow> subscription_data \<Rightarrow> outbox \<Rightarrow> subscription_view \<times> outbox" where
  "createSubscription now freshId workspaceId data db =
     (let sub = \<lparr>es_id = ''sub_'' @ freshId, es_ws = workspaceId, es_events = sd_events data,
                 es_filter = sd_filter data, es_url = sd_url data, es_headers = sd_headers data,
                 es_secret = truthy (sd_secret data),
                 es_signatureScheme = (case sd_signatureScheme data of None \<Rightarrow> Legacy | Some s \<Rightarrow> s),
                 es_isActive = True, es_createdAt = toSec now\<rparr>
      in (subscription_view_of sub, db\<lparr>eventSubscriptions := eventSubscriptions db @ [sub]\<rparr>))"

definition listSubscriptions :: "outbox \<Rightarrow> id \<Rightarrow> subscription_view list" where
  "listSubscriptions db workspaceId =
     map subscription_view_of (filter (\<lambda>r. es_ws r = workspaceId) (eventSubscriptions db))"

definition getSubscription :: "outbox \<Rightarrow> id \<Rightarrow> id \<Rightarrow> subscription_view option" where
  "getSubscription db workspaceId subId =
     map_option subscription_view_of
       (first_row (filter (\<lambda>r. es_id r = subId \<and> es_ws r = workspaceId) (eventSubscriptions db)))"

definition deleteSubscription :: "id \<Rightarrow> id \<Rightarrow> outbox \<Rightarrow> bool \<times> outbox" where
  "deleteSubscription workspaceId subId db =
     (let P = (\<lambda>r. es_id r = subId \<and> es_ws r = workspaceId); gone = map es_id (filter P (eventSubscriptions db))
      in (gone \<noteq> [],
          db\<lparr>eventSubscriptions := filter (\<lambda>r. \<not> P r) (eventSubscriptions db),
             webhookDeliveries := filter (\<lambda>d. wd_subscriptionId d \<notin> set gone) (webhookDeliveries db)\<rparr>))"

definition hasActiveSubscriptions :: "outbox \<Rightarrow> id \<Rightarrow> bool" where
  "hasActiveSubscriptions db workspaceId \<longleftrightarrow>
     take 1 (filter (\<lambda>r. es_ws r = workspaceId \<and> es_isActive r) (eventSubscriptions db)) \<noteq> []"

definition getActiveSubscriptions :: "outbox \<Rightarrow> id \<Rightarrow> string \<Rightarrow> subscription_row list" where
  "getActiveSubscriptions db workspaceId eventType =
     filter (\<lambda>r. eventType \<in> set (es_events r) \<or> ''*'' \<in> set (es_events r))
       (filter (\<lambda>r. es_ws r = workspaceId \<and> es_isActive r) (eventSubscriptions db))"

subsection \<open>The queue\<close>

definition enqueueEvent :: "ms \<Rightarrow> id \<Rightarrow> id \<Rightarrow> string \<Rightarrow> (string \<times> json) list \<Rightarrow> outbox \<Rightarrow> id \<times> outbox" where
  "enqueueEvent now freshId workspaceId eventType payload db =
     (freshId, db\<lparr>pendingEvents := pendingEvents db @
        [\<lparr>pe_id = freshId, pe_ws = workspaceId, pe_eventType = eventType, pe_payload = payload, pe_status = EvPending,
          pe_attempts = 0, pe_maxAttempts = 32, pe_webhookInitialized = False, pe_lastError = None,
          pe_createdAt = toSec now, pe_processAfter = toSec now, pe_completedAt = None\<rparr>]\<rparr>)"

definition due_event :: "ms \<Rightarrow> event_row \<Rightarrow> bool" where
  "due_event now e \<longleftrightarrow> pe_status e = EvPending \<and> pe_processAfter e \<le> toSec now \<and> pe_attempts e < pe_maxAttempts e"

definition lease_event :: "ms \<Rightarrow> int \<Rightarrow> event_row \<Rightarrow> event_row" where
  "lease_event now leaseMs e = e\<lparr>pe_attempts := pe_attempts e + 1, pe_processAfter := toSec (now + leaseMs)\<rparr>"

text \<open>The claimed rows are those that the UPDATE returns.\<close>

definition claimDueEvents :: "nat \<Rightarrow> int \<Rightarrow> ms \<Rightarrow> outbox \<Rightarrow> event_row list \<times> outbox" where
  "claimDueEvents limit leaseMs now db =
     (let due = map pe_id (order_limit pe_processAfter limit (filter (due_event now) (pendingEvents db)));
          P = (\<lambda>e. pe_id e \<in> set due)
      in (returning P (lease_event now leaseMs) (pendingEvents db), upd_events P (lease_event now leaseMs) db))"

definition still_pending :: "id \<Rightarrow> event_row \<Rightarrow> bool" where
  "still_pending eid e \<longleftrightarrow> pe_id e = eid \<and> pe_status e = EvPending"

definition completeEvent :: "ms \<Rightarrow> id \<Rightarrow> outbox \<Rightarrow> outbox" where
  "completeEvent now eid = upd_events (still_pending eid) (\<lambda>e. e\<lparr>pe_status := EvCompleted, pe_completedAt := Some (toSec now)\<rparr>)"

definition failEvent :: "ms \<Rightarrow> id \<Rightarrow> string \<Rightarrow> outbox \<Rightarrow> outbox" where
  "failEvent now eid err =
     upd_events (still_pending eid)
       (\<lambda>e. e\<lparr>pe_status := EvFailed, pe_lastError := Some err, pe_completedAt := Some (toSec now)\<rparr>)"

definition exhausted_event :: "ms \<Rightarrow> event_row \<Rightarrow> bool" where
  "exhausted_event now e \<longleftrightarrow>
     pe_status e = EvPending \<and> pe_processAfter e \<le> toSec now \<and> pe_attempts e \<ge> pe_maxAttempts e"

definition exhaust_event :: "ms \<Rightarrow> string option \<Rightarrow> event_row \<Rightarrow> event_row" where
  "exhaust_event now err e =
     e\<lparr>pe_status := EvFailed,
       pe_lastError := Some (case err of None \<Rightarrow> ''attempts exhausted after delivery lease expired'' | Some t \<Rightarrow> t),
       pe_completedAt := Some (toSec now)\<rparr>"

definition failExhaustedDueEvents :: "ms \<Rightarrow> string option \<Rightarrow> outbox \<Rightarrow> nat \<times> outbox" where
  "failExhaustedDueEvents now err db =
     (length (filter (exhausted_event now) (pendingEvents db)),
      upd_events (exhausted_event now) (exhaust_event now err) db)"

definition rescheduleEvent :: "ms \<Rightarrow> id \<Rightarrow> string \<Rightarrow> int \<Rightarrow> outbox \<Rightarrow> outbox" where
  "rescheduleEvent now eid err backoffMs =
     upd_events (still_pending eid) (\<lambda>e. e\<lparr>pe_processAfter := toSec (now + backoffMs), pe_lastError := Some err\<rparr>)"

definition sweepPendingEvents :: "nat \<Rightarrow> int \<Rightarrow> ms \<Rightarrow> outbox \<Rightarrow> event_row list \<times> outbox" where
  "sweepPendingEvents limit leaseMs now db = claimDueEvents limit leaseMs now (snd (failExhaustedDueEvents now None db))"

definition old_event :: "sec \<Rightarrow> event_row \<Rightarrow> bool" where
  "old_event cutoff e \<longleftrightarrow>
     pe_status e \<in> {EvCompleted, EvFailed} \<and> (case pe_completedAt e of None \<Rightarrow> False | Some t \<Rightarrow> t \<le> cutoff)"

definition cleanupOldEvents :: "ms \<Rightarrow> int \<Rightarrow> outbox \<Rightarrow> nat \<times> outbox" where
  "cleanupOldEvents now maxAgeMs db =
     (let db = snd (failExhaustedDueEvents now None db);
          cutoff = toSec (now - maxAgeMs); gone = filter (old_event cutoff) (pendingEvents db)
      in (length gone,
          db\<lparr>pendingEvents := filter (\<lambda>e. \<not> old_event cutoff e) (pendingEvents db),
             webhookDeliveries := filter (\<lambda>d. wd_eventId d \<notin> pe_id ` set gone) (webhookDeliveries db)\<rparr>))"

subsection \<open>Claims are leases\<close>

lemma due_ids:
  assumes "distinct (map pe_id (pendingEvents db))" "e \<in> set (pendingEvents db)"
    and "pe_id e \<in> set (map pe_id (order_limit pe_processAfter limit (filter (due_event now) (pendingEvents db))))"
  shows "due_event now e"
proof -
  obtain x where x: "x \<in> set (order_limit pe_processAfter limit (filter (due_event now) (pendingEvents db)))" "pe_id x = pe_id e"
    using assms(3) by auto
  have "x \<in> set (filter (due_event now) (pendingEvents db))" by (rule subsetD [OF set_order_limit x(1)])
  then show ?thesis using x(2) assms(1,2) by (auto simp: distinct_map inj_on_def)
qed

lemma lease_keeps: "pe_id (lease_event now l e) = pe_id e" "pe_status (lease_event now l e) = pe_status e"
  by (simp_all add: lease_event_def)

lemma card_due: "length (filter (\<lambda>e. pe_id e \<in> set ids) rows) \<le> length ids" if "distinct (map pe_id rows)"
proof -
  have "length (filter (\<lambda>e. pe_id e \<in> set ids) rows) = card (pe_id ` set (filter (\<lambda>e. pe_id e \<in> set ids) rows))"
    using that distinct_card [of "map pe_id (filter (\<lambda>e. pe_id e \<in> set ids) rows)"]
    by (simp add: distinct_map inj_on_def)
  also have "\<dots> \<le> card (set ids)" by (intro card_mono) auto
  also have "\<dots> \<le> length ids" by (rule card_length)
  finally show ?thesis .
qed

text \<open>A claim of due events takes at most the limit, only pending events that are due and have an attempt left, and
  counts that attempt; until the lease ends no other claim takes any of them, whoever makes it, and rows it leaves
  behind for lack of room were due no earlier.\<close>
theorem event_claim_is_a_lease:
  assumes "distinct (map pe_id (pendingEvents db))" "claimDueEvents limit leaseMs now db = (claimed, db')"
    and "toSec later < toSec (now + leaseMs)" "claimDueEvents limit' leaseMs' later db' = (claimed', db'')"
  shows "length claimed \<le> limit
    \<and> list_all (\<lambda>e. pe_status e = EvPending \<and> pe_attempts e \<le> pe_maxAttempts e \<and> pe_processAfter e = toSec (now + leaseMs)) claimed
    \<and> set (map pe_id claimed) \<inter> set (map pe_id claimed') = {}"
proof (intro conjI)
  define ids where "ids = map pe_id (order_limit pe_processAfter limit (filter (due_event now) (pendingEvents db)))"
  let ?P = "\<lambda>e. pe_id e \<in> set ids" and ?f = "lease_event now leaseMs"
  have cl: "claimed = map ?f (filter ?P (pendingEvents db))" and db': "db' = upd_events ?P ?f db"
    using assms(2) unfolding claimDueEvents_def Let_def returning_def ids_def by simp_all
  have due: "due_event now e" if "e \<in> set (pendingEvents db)" "pe_id e \<in> set ids" for e
    using due_ids [OF assms(1) that(1)] that(2) unfolding ids_def by blast
  have "length claimed \<le> length ids" using card_due [OF assms(1), of ids] by (simp add: cl)
  then show "length claimed \<le> limit" by (simp add: ids_def length_order_limit)
  show "list_all (\<lambda>e. pe_status e = EvPending \<and> pe_attempts e \<le> pe_maxAttempts e \<and> pe_processAfter e = toSec (now + leaseMs)) claimed"
  proof -
    have "pe_status e = EvPending \<and> pe_attempts e + 1 \<le> pe_maxAttempts e" if "e \<in> set (pendingEvents db)" "pe_id e \<in> set ids" for e
      using due [OF that] by (simp add: due_event_def)
    then show ?thesis unfolding cl by (auto simp: list_all_iff lease_event_def)
  qed
  have ids': "distinct (map pe_id (pendingEvents db'))" using assms(1) by (simp add: db' map_upd_where lease_keeps)
  define ids2 where "ids2 = map pe_id (order_limit pe_processAfter limit' (filter (due_event later) (pendingEvents db')))"
  have cl': "claimed' = map (lease_event later leaseMs') (filter (\<lambda>e. pe_id e \<in> set ids2) (pendingEvents db'))"
    using assms(4) unfolding claimDueEvents_def Let_def returning_def ids2_def by simp
  show "set (map pe_id claimed) \<inter> set (map pe_id claimed') = {}"
  proof (rule ccontr)
    assume "set (map pe_id claimed) \<inter> set (map pe_id claimed') \<noteq> {}"
    then obtain a b where a: "a \<in> set (pendingEvents db)" "pe_id a \<in> set ids" and b: "b \<in> set (pendingEvents db')" "pe_id b \<in> set ids2"
      and eq: "pe_id a = pe_id b"
      unfolding cl cl' by (auto simp: lease_keeps) (metis)
    have "?f a \<in> set (pendingEvents db')" using a by (auto simp: db' set_upd_where)
    then have "b = ?f a" using ids' b(1) eq by (auto simp: distinct_map inj_on_def lease_keeps)
    moreover have "due_event later b" using due_ids [OF ids' b(1)] b(2) unfolding ids2_def by blast
    ultimately show False using assms(3) by (simp add: due_event_def lease_event_def)
  qed
qed

definition ex_queued :: "id \<Rightarrow> event_row" where
  "ex_queued i = \<lparr>pe_id = i, pe_ws = ''w'', pe_eventType = ''t'', pe_payload = [], pe_status = EvPending, pe_attempts = 0,
     pe_maxAttempts = 32, pe_webhookInitialized = False, pe_lastError = None, pe_createdAt = 0, pe_processAfter = 0,
     pe_completedAt = None\<rparr>"

theorem event_claim_is_a_lease_witness:
  "\<exists>c d c' d'. claimDueEvents 1 60000 0 \<lparr>eventSubscriptions = [], pendingEvents = [ex_queued ''a'', ex_queued ''b''], webhookDeliveries = []\<rparr> = (c, d)
    \<and> claimDueEvents 5 60000 59999 d = (c', d') \<and> map pe_id c = [''a''] \<and> map pe_id c' = [''b'']"
proof -
  let ?db = "\<lparr>eventSubscriptions = [], pendingEvents = [ex_queued ''a'', ex_queued ''b''], webhookDeliveries = []\<rparr>"
  obtain c d where c: "claimDueEvents 1 60000 0 ?db = (c, d)" by fastforce
  obtain c' d' where c': "claimDueEvents 5 60000 59999 d = (c', d')" by fastforce
  have "distinct (map pe_id (pendingEvents ?db))" by (simp add: ex_queued_def)
  from event_claim_is_a_lease [OF this c _ c'] have "length c \<le> 1" by (simp add: toSec_def)
  moreover have "map pe_id c = [''a''] \<and> map pe_id c' = [''b'']"
    using c c' by (auto simp: claimDueEvents_def Let_def returning_def due_event_def order_limit_def ex_queued_def toSec_def
      lease_event_def)
  ultimately have "map pe_id c = [''a''] \<and> map pe_id c' = [''b'']" by blast
  with c c' show ?thesis by (intro exI conjI) (assumption | blast)+
qed

end
