(* ===== verification/Ssrf.thy ===== *)
theory Ssrf
  imports Json "HOL-Library.Word"
begin

text \<open>
  Which addresses the server may connect to on behalf of a user (\<open>lib/ssrf.ts\<close>, \<open>adapters/node/ssrf-fetch.ts\<close>):
  parsing of IPv4 and IPv6 texts, the special-purpose ranges, the check of a URL before and after its name is
  resolved, and the lookup that the connection itself uses. An IPv4 address is a 32-bit word, an IPv6 address
  a natural number (a bigint in the code). The URL parser of the platform and the resolver are parameters.
\<close>

unbundle bit_operations_syntax

subsection \<open>IPv4 texts\<close>

definition octet_text :: "string \<Rightarrow> bool" where
  "octet_text s \<longleftrightarrow> 1 \<le> length s \<and> length s \<le> 3 \<and> list_all is_dec s"

definition dotted_shape :: "string \<Rightarrow> bool" where
  "dotted_shape s \<longleftrightarrow> length (split_on CHR ''.'' s) = 4 \<and> list_all octet_text (split_on CHR ''.'' s)"

definition parseIpv4 :: "string \<Rightarrow> 32 word option" where
  "parseIpv4 host =
     (if \<not> dotted_shape host then None
      else let octets = map read_dec (split_on CHR ''.'' host)
           in if list_ex (\<lambda>octet. octet > 255) octets then None
              else Some (word_of_nat (((octets ! 0 * 256 + octets ! 1) * 256 + octets ! 2) * 256 + octets ! 3)))"

text \<open>The count of \<open>>>>\<close> is taken modulo 32.\<close>

definition v4InCidr :: "32 word \<Rightarrow> string \<Rightarrow> nat \<Rightarrow> bool" where
  "v4InCidr v base prefix =
     (case parseIpv4 base of
        None \<Rightarrow> False
      | Some baseValue \<Rightarrow> let shift = (32 - prefix) mod 32 in drop_bit shift v = drop_bit shift baseValue)"

subsection \<open>IPv6 texts\<close>

definition hex_text :: "string \<Rightarrow> bool" where
  "hex_text s \<longleftrightarrow> 1 \<le> length s \<and> length s \<le> 4 \<and> list_all (\<lambda>c. c \<in> set HEX) s"

definition read_hex :: "string \<Rightarrow> nat" where
  "read_hex s = foldl (\<lambda>v c. v * 16 + the (index_of c HEX)) 0 s"

text \<open>\<open>n.toString(16)\<close>.\<close>

fun show_hex_acc :: "nat \<Rightarrow> string \<Rightarrow> string" where
  "show_hex_acc n out =
     (if n < 16 then HEX ! n # out else show_hex_acc (n div 16) (HEX ! (n mod 16) # out))"

declare show_hex_acc.simps [simp del]

definition show_hex :: "nat \<Rightarrow> string" where
  "show_hex n = show_hex_acc n []"

definition cut_zone :: "string \<Rightarrow> string" where
  "cut_zone host = takeWhile (\<lambda>c. c \<noteq> CHR ''%'') host"

text \<open>A dotted tail is what stands after the last colon; \<open>None\<close> when it has an octet above 255.\<close>

definition expand_tail :: "string \<Rightarrow> string option" where
  "expand_tail host =
     (let tail = last (split_on CHR '':'' host)
      in if \<not> dotted_shape tail then Some host
         else case parseIpv4 tail of
                None \<Rightarrow> None
              | Some ipv4 \<Rightarrow> Some (take (length host - length tail) host
                    @ show_hex (unat ((drop_bit 16 ipv4) AND 0xffff)) @ '':'' @ show_hex (unat (ipv4 AND 0xffff))))"

definition colon_groups :: "string \<Rightarrow> string list" where
  "colon_groups part = (if part = [] then [] else split_on CHR '':'' part)"

definition ipv6_groups :: "string \<Rightarrow> string list option" where
  "ipv6_groups host =
     (let halves = split_str ''::'' host
      in if length halves > 2 then None
         else let left = colon_groups (halves ! 0);
                  right = (if length halves = 2 then colon_groups (halves ! 1) else []);
                  missing = 8 - int (length left) - int (length right)
              in if length halves = 1 \<and> length left \<noteq> 8 then None
                 else if missing < (if length halves = 2 then 1 else 0) then None
                 else let groups = left @ replicate (nat missing) ''0'' @ right
                      in if length groups \<noteq> 8 \<or> \<not> list_all hex_text groups then None else Some groups)"

definition push_group :: "nat \<Rightarrow> string \<Rightarrow> nat" where
  "push_group v g = push_bit 16 v OR read_hex g"

definition parseIpv6 :: "string \<Rightarrow> nat option" where
  "parseIpv6 input =
     (case expand_tail (cut_zone (toLowerCase input)) of
        None \<Rightarrow> None
      | Some host \<Rightarrow> (case ipv6_groups host of None \<Rightarrow> None | Some groups \<Rightarrow> Some (foldl push_group 0 groups)))"

definition ipv6Base :: "string \<Rightarrow> string + nat" where
  "ipv6Base v = (case parseIpv6 v of None \<Rightarrow> Inl (''Invalid IPv6 CIDR base: '' @ v) | Some parsed \<Rightarrow> Inr parsed)"

definition v6InCidr :: "nat \<Rightarrow> string \<Rightarrow> nat \<Rightarrow> string + bool" where
  "v6InCidr v base prefix =
     (let shift = 128 - prefix in map_sum id (\<lambda>b. drop_bit shift v = drop_bit shift b) (ipv6Base base))"

definition ipv4FromInteger :: "nat \<Rightarrow> string" where
  "ipv4FromInteger v =
     (let embedded = word_of_nat (v AND 0xffffffff) :: 32 word
      in join ''.'' (map (\<lambda>w. show_dec (unat w))
           [drop_bit 24 embedded, drop_bit 16 embedded AND 0xff, drop_bit 8 embedded AND 0xff, embedded AND 0xff]))"

lemma split_dotted:
  "\<forall>p\<in>{a, b, c, d}. CHR ''.'' \<notin> set p \<Longrightarrow> split_on CHR ''.'' (join ''.'' [a, b, c, d]) = [a, b, c, d]"
  by (rule split_on_join) auto

lemma list_all_show_dec: "list_all is_dec (show_dec n)"
proof -
  have "list_all is_dec out \<Longrightarrow> list_all is_dec (show_dec_acc n out)" for out
  proof (induction n out rule: show_dec_acc.induct)
    case (1 n out)
    then show ?case
      by (cases "n < 10") (simp_all add: show_dec_acc.simps [of n out] is_dec_dec_digit)
  qed
  then show ?thesis by (simp add: show_dec_def)
qed

lemma length_show_dec_octet: "n < 256 \<Longrightarrow> length (show_dec n) \<le> 3"
  by (simp add: show_dec_def show_dec_acc.simps)

lemma show_dec_nonempty: "1 \<le> length (show_dec n)"
proof -
  have "1 \<le> length (show_dec_acc n out)" for out
    by (induction n out rule: show_dec_acc.induct) (subst show_dec_acc.simps, simp)
  then show ?thesis by (simp add: show_dec_def)
qed

lemma octet_text_show: "n < 256 \<Longrightarrow> octet_text (show_dec n)"
  using list_all_show_dec length_show_dec_octet show_dec_nonempty by (simp add: octet_text_def)

lemma dot_not_dec: "list_all is_dec s \<Longrightarrow> CHR ''.'' \<notin> set s"
  by (auto simp: list_all_iff is_dec_def)

definition dotted :: "nat \<Rightarrow> nat \<Rightarrow> nat \<Rightarrow> nat \<Rightarrow> string" where
  "dotted a b c d = join ''.'' (map show_dec [a, b, c, d])"

lemma split_dotted_show: "split_on CHR ''.'' (dotted a b c d) = map show_dec [a, b, c, d]"
  using split_dotted [of "show_dec a" "show_dec b" "show_dec c" "show_dec d"] dot_not_dec list_all_show_dec
  by (simp add: dotted_def)

lemma parseIpv4_dotted:
  assumes "a < 256" "b < 256" "c < 256" "d < 256"
  shows "parseIpv4 (dotted a b c d) = Some (word_of_nat (((a * 256 + b) * 256 + c) * 256 + d))"
  using assms octet_text_show by (simp add: parseIpv4_def dotted_shape_def split_dotted_show)

lemma ipv4FromInteger_dotted:
  fixes v :: nat
  defines "e \<equiv> v mod 2 ^ 32"
  shows "ipv4FromInteger v = dotted (e div 2 ^ 24) (e div 2 ^ 16 mod 256) (e div 2 ^ 8 mod 256) (e mod 256)"
proof -
  have m: "v AND 0xffffffff = e"
    using take_bit_eq_mask [of 32 v] by (simp add: e_def take_bit_eq_mod mask_eq_exp_minus_1)
  have u: "unat (word_of_nat e :: 32 word) = e" by (simp add: e_def unat_of_nat take_bit_eq_mod)
  have b: "unat (w AND 0xff) = unat w mod 256" for w :: "32 word"
    using take_bit_eq_mask [of 8 "unat w"] by (simp add: unsigned_and_eq take_bit_eq_mod mask_eq_exp_minus_1)
  have d: "unat (drop_bit n (word_of_nat e :: 32 word)) = e div 2 ^ n" for n
    unfolding unat_drop_bit_eq u by (simp add: drop_bit_eq_div)
  show ?thesis unfolding ipv4FromInteger_def Let_def m dotted_def by (simp add: b d u)
qed

lemma parse_ipv4FromInteger: "parseIpv4 (ipv4FromInteger v) = Some (word_of_nat v)"
proof -
  define e where "e = v mod 2 ^ 32"
  have "e < 2 ^ 32" by (simp add: e_def)
  then have "e div 2 ^ 24 < 256" by (simp add: less_mult_imp_div_less)
  moreover have "((e div 2 ^ 24 * 256 + e div 2 ^ 16 mod 256) * 256 + e div 2 ^ 8 mod 256) * 256 + e mod 256 = e"
  proof -
    have "e div 2 ^ 8 = e div 256" "e div 2 ^ 16 = e div 256 div 256" "e div 2 ^ 24 = e div 256 div 256 div 256"
      by (simp_all flip: div_mult2_eq)
    then show ?thesis by (simp only: div_mult_mod_eq)
  qed
  moreover have "(word_of_nat e :: 32 word) = word_of_nat v"
    by (simp add: e_def word_of_nat_eq_iff take_bit_eq_mod)
  ultimately show ?thesis
    unfolding ipv4FromInteger_dotted e_def [symmetric] by (subst parseIpv4_dotted) (simp_all only: mod_less_divisor zero_less_numeral)
qed

subsection \<open>Classification\<close>

definition strip_brackets :: "string \<Rightarrow> string" where
  "strip_brackets s =
     (let t = (if starts_with ''['' s then tl s else s) in if ends_with '']'' t then butlast t else t)"

definition host_text :: "string \<Rightarrow> string" where
  "host_text address = strip_brackets (toLowerCase address)"

definition special_v4 :: "string \<Rightarrow> 32 word \<Rightarrow> bool" where
  "special_v4 normalized ipv4 =
     (let protocolAssignmentException = normalized = ''192.0.0.9'' \<or> normalized = ''192.0.0.10''
      in v4InCidr ipv4 ''0.0.0.0'' 8 \<or> v4InCidr ipv4 ''10.0.0.0'' 8 \<or> v4InCidr ipv4 ''100.64.0.0'' 10
         \<or> v4InCidr ipv4 ''127.0.0.0'' 8 \<or> v4InCidr ipv4 ''169.254.0.0'' 16 \<or> v4InCidr ipv4 ''172.16.0.0'' 12
         \<or> (v4InCidr ipv4 ''192.0.0.0'' 24 \<and> \<not> protocolAssignmentException)
         \<or> v4InCidr ipv4 ''192.0.2.0'' 24 \<or> v4InCidr ipv4 ''192.88.99.0'' 24 \<or> v4InCidr ipv4 ''192.168.0.0'' 16
         \<or> v4InCidr ipv4 ''198.18.0.0'' 15 \<or> v4InCidr ipv4 ''198.51.100.0'' 24 \<or> v4InCidr ipv4 ''203.0.113.0'' 24
         \<or> v4InCidr ipv4 ''224.0.0.0'' 4 \<or> v4InCidr ipv4 ''240.0.0.0'' 4)"

definition bind_sum :: "'e + 'a \<Rightarrow> ('a \<Rightarrow> 'e + 'b) \<Rightarrow> 'e + 'b" where
  "bind_sum r f = (case r of Inl e \<Rightarrow> Inl e | Inr a \<Rightarrow> f a)"

lemma bind_sum_simps [simp]: "bind_sum (Inl e) f = Inl e" "bind_sum (Inr a) f = f a"
  by (simp_all add: bind_sum_def)

lemma dotted_plain:
  "list_all (\<lambda>ch. is_dec ch \<or> ch = CHR ''.'') (dotted a b c d)"
  using list_all_show_dec by (auto simp: dotted_def list_all_iff)

lemma host_text_plain:
  assumes "list_all (\<lambda>ch. is_dec ch \<or> ch = CHR ''.'') s"
  shows "host_text s = s"
proof -
  have low: "lower_unit ch = ch" if "ch \<in> set s" for ch
    using assms that by (intro lower_unit_id) (auto simp: list_all_iff is_dec_def)
  have sq: "CHR ''['' \<notin> set s" "CHR '']'' \<notin> set s"
    using assms by (auto simp: list_all_iff is_dec_def)
  have "toLowerCase s = s" using low by (simp add: toLowerCase_def map_idI)
  moreover have "\<not> starts_with ''['' s" "\<not> ends_with '']'' s"
    using sq by (auto simp: starts_with_iff ends_with_iff)
  ultimately show ?thesis by (simp add: host_text_def strip_brackets_def)
qed

lemma host_text_ipv4FromInteger [simp]: "host_text (ipv4FromInteger v) = ipv4FromInteger v"
  using host_text_plain dotted_plain by (simp add: ipv4FromInteger_dotted)

text \<open>An embedded IPv4 address is classified by the same function, which then takes its first branch.\<close>

function isGlobalIpAddress :: "string \<Rightarrow> string + bool" where
  "isGlobalIpAddress address =
     (let normalized = host_text address
      in case parseIpv4 normalized of
           Some ipv4 \<Rightarrow> Inr (\<not> special_v4 normalized ipv4)
         | None \<Rightarrow>
             (case parseIpv6 normalized of
                None \<Rightarrow> Inr False
              | Some ipv6 \<Rightarrow>
                  bind_sum (v6InCidr ipv6 ''::ffff:0:0'' 96) (\<lambda>mapped.
                  if mapped then isGlobalIpAddress (ipv4FromInteger ipv6)
                  else bind_sum (v6InCidr ipv6 ''64:ff9b::'' 96) (\<lambda>nat64.
                  if nat64 then isGlobalIpAddress (ipv4FromInteger ipv6)
                  else bind_sum (v6InCidr ipv6 ''2002::'' 16) (\<lambda>sixToFour.
                  if sixToFour then isGlobalIpAddress (ipv4FromInteger (drop_bit 80 ipv6))
                  else bind_sum (v6InCidr ipv6 ''2000::'' 3) (\<lambda>unicast.
                  if \<not> unicast then Inr False
                  else bind_sum (v6InCidr ipv6 ''2001::'' 23) (\<lambda>protocol.
                  bind_sum (v6InCidr ipv6 ''2001:db8::'' 32) (\<lambda>documentation.
                  bind_sum (v6InCidr ipv6 ''3fff::'' 20) (\<lambda>documentation2.
                  Inr (\<not> (protocol \<or> documentation \<or> documentation2)))))))))))"
  by auto
termination
  by (relation "measure (\<lambda>a. if parseIpv4 (host_text a) = None then 1 else 0)") (auto simp: parse_ipv4FromInteger)

declare isGlobalIpAddress.simps [simp del]

text \<open>The ranges as blocks of integers.\<close>

definition special_blocks :: "(nat \<times> nat) list" where
  "special_blocks =
     [(0x00000000, 0x00FFFFFF), (0x0A000000, 0x0AFFFFFF), (0x64400000, 0x647FFFFF), (0x7F000000, 0x7FFFFFFF),
      (0xA9FE0000, 0xA9FEFFFF), (0xAC100000, 0xAC1FFFFF), (0xC0000200, 0xC00002FF), (0xC0586300, 0xC05863FF),
      (0xC0A80000, 0xC0A8FFFF), (0xC6120000, 0xC613FFFF), (0xC6336400, 0xC63364FF), (0xCB007100, 0xCB0071FF),
      (0xE0000000, 0xEFFFFFFF), (0xF0000000, 0xFFFFFFFF)]"

definition protocol_block :: "nat \<times> nat" where "protocol_block = (0xC0000000, 0xC00000FF)"

definition in_block :: "nat \<Rightarrow> nat \<times> nat \<Rightarrow> bool" where
  "in_block n b \<longleftrightarrow> fst b \<le> n \<and> n \<le> snd b"

definition global_v4 :: "bool \<Rightarrow> nat \<Rightarrow> bool" where
  "global_v4 exempt n \<longleftrightarrow> \<not> list_ex (in_block n) special_blocks \<and> (exempt \<or> \<not> in_block n protocol_block)"

lemma drop_bit_block:
  fixes v w :: "32 word"
  shows "drop_bit s v = drop_bit s w \<longleftrightarrow> unat w div 2 ^ s * 2 ^ s \<le> unat v \<and> unat v \<le> unat w div 2 ^ s * 2 ^ s + (2 ^ s - 1)"
proof -
  have "drop_bit s v = drop_bit s w \<longleftrightarrow> unat (drop_bit s v) = unat (drop_bit s w)"
    by (simp add: word_unat_eq_iff)
  also have "\<dots> \<longleftrightarrow> unat v div 2 ^ s = unat w div 2 ^ s"
    unfolding unat_drop_bit_eq by (simp add: drop_bit_eq_div)
  also have "\<dots> \<longleftrightarrow> unat w div 2 ^ s * 2 ^ s \<le> unat v \<and> unat v < (unat w div 2 ^ s + 1) * 2 ^ s"
    by (metis add.commute div_nat_eqI dividend_less_div_times less_eq_div_iff_mult_less_eq mult.commute mult_Suc_right order_refl plus_1_eq_Suc zero_less_numeral zero_less_power times_div_less_eq_dividend div_times_less_eq_dividend Suc_eq_plus1)
  also have "\<dots> \<longleftrightarrow> unat w div 2 ^ s * 2 ^ s \<le> unat v \<and> unat v \<le> unat w div 2 ^ s * 2 ^ s + (2 ^ s - 1)"
  proof -
    have "x < (k + 1) * p \<longleftrightarrow> x \<le> k * p + (p - 1)" if "0 < p" for x k p :: nat using that by auto
    then show ?thesis by simp
  qed
  finally show ?thesis .
qed

lemma v4InCidr_block:
  assumes "parseIpv4 base = Some b" "0 < prefix" "prefix \<le> 32"
    and "m = unat b div 2 ^ (32 - prefix) * 2 ^ (32 - prefix)"
  shows "v4InCidr v base prefix = in_block (unat v) (m, m + (2 ^ (32 - prefix) - 1))"
  using assms by (simp add: v4InCidr_def Let_def drop_bit_block in_block_def)


lemma dec_digits:
  "dec_digit (Suc 0) = CHR ''1''"
  "dec_digit 0 = CHR ''0''"
  "dec_digit 1 = CHR ''1''"
  "dec_digit 2 = CHR ''2''"
  "dec_digit 3 = CHR ''3''"
  "dec_digit 4 = CHR ''4''"
  "dec_digit 5 = CHR ''5''"
  "dec_digit 6 = CHR ''6''"
  "dec_digit 7 = CHR ''7''"
  "dec_digit 8 = CHR ''8''"
  "dec_digit 9 = CHR ''9''"
  by code_simp+

lemma v4_texts:
  "dotted 0 0 0 0 = ''0.0.0.0''"
  "dotted 10 0 0 0 = ''10.0.0.0''"
  "dotted 100 64 0 0 = ''100.64.0.0''"
  "dotted 127 0 0 0 = ''127.0.0.0''"
  "dotted 169 254 0 0 = ''169.254.0.0''"
  "dotted 172 16 0 0 = ''172.16.0.0''"
  "dotted 192 0 0 0 = ''192.0.0.0''"
  "dotted 192 0 2 0 = ''192.0.2.0''"
  "dotted 192 88 99 0 = ''192.88.99.0''"
  "dotted 192 168 0 0 = ''192.168.0.0''"
  "dotted 198 18 0 0 = ''198.18.0.0''"
  "dotted 198 51 100 0 = ''198.51.100.0''"
  "dotted 203 0 113 0 = ''203.0.113.0''"
  "dotted 224 0 0 0 = ''224.0.0.0''"
  "dotted 240 0 0 0 = ''240.0.0.0''"
  by (simp_all add: dotted_def show_dec_def show_dec_acc.simps dec_digits)

lemma v4_bases:
  "parseIpv4 ''0.0.0.0'' = Some 0"
  "parseIpv4 ''10.0.0.0'' = Some 0x0A000000"
  "parseIpv4 ''100.64.0.0'' = Some 0x64400000"
  "parseIpv4 ''127.0.0.0'' = Some 0x7F000000"
  "parseIpv4 ''169.254.0.0'' = Some 0xA9FE0000"
  "parseIpv4 ''172.16.0.0'' = Some 0xAC100000"
  "parseIpv4 ''192.0.0.0'' = Some 0xC0000000"
  "parseIpv4 ''192.0.2.0'' = Some 0xC0000200"
  "parseIpv4 ''192.88.99.0'' = Some 0xC0586300"
  "parseIpv4 ''192.168.0.0'' = Some 0xC0A80000"
  "parseIpv4 ''198.18.0.0'' = Some 0xC6120000"
  "parseIpv4 ''198.51.100.0'' = Some 0xC6336400"
  "parseIpv4 ''203.0.113.0'' = Some 0xCB007100"
  "parseIpv4 ''224.0.0.0'' = Some 0xE0000000"
  "parseIpv4 ''240.0.0.0'' = Some 0xF0000000"
  using parseIpv4_dotted [of 0 0 0 0]
    parseIpv4_dotted [of 10 0 0 0]
    parseIpv4_dotted [of 100 64 0 0]
    parseIpv4_dotted [of 127 0 0 0]
    parseIpv4_dotted [of 169 254 0 0]
    parseIpv4_dotted [of 172 16 0 0]
    parseIpv4_dotted [of 192 0 0 0]
    parseIpv4_dotted [of 192 0 2 0]
    parseIpv4_dotted [of 192 88 99 0]
    parseIpv4_dotted [of 192 168 0 0]
    parseIpv4_dotted [of 198 18 0 0]
    parseIpv4_dotted [of 198 51 100 0]
    parseIpv4_dotted [of 203 0 113 0]
    parseIpv4_dotted [of 224 0 0 0]
    parseIpv4_dotted [of 240 0 0 0]
  by (simp_all add: v4_texts)

lemma v4_cidrs:
  "v4InCidr v ''0.0.0.0'' 8 = in_block (unat v) (0x00000000, 0x00FFFFFF)"
  "v4InCidr v ''10.0.0.0'' 8 = in_block (unat v) (0x0A000000, 0x0AFFFFFF)"
  "v4InCidr v ''100.64.0.0'' 10 = in_block (unat v) (0x64400000, 0x647FFFFF)"
  "v4InCidr v ''127.0.0.0'' 8 = in_block (unat v) (0x7F000000, 0x7FFFFFFF)"
  "v4InCidr v ''169.254.0.0'' 16 = in_block (unat v) (0xA9FE0000, 0xA9FEFFFF)"
  "v4InCidr v ''172.16.0.0'' 12 = in_block (unat v) (0xAC100000, 0xAC1FFFFF)"
  "v4InCidr v ''192.0.0.0'' 24 = in_block (unat v) (0xC0000000, 0xC00000FF)"
  "v4InCidr v ''192.0.2.0'' 24 = in_block (unat v) (0xC0000200, 0xC00002FF)"
  "v4InCidr v ''192.88.99.0'' 24 = in_block (unat v) (0xC0586300, 0xC05863FF)"
  "v4InCidr v ''192.168.0.0'' 16 = in_block (unat v) (0xC0A80000, 0xC0A8FFFF)"
  "v4InCidr v ''198.18.0.0'' 15 = in_block (unat v) (0xC6120000, 0xC613FFFF)"
  "v4InCidr v ''198.51.100.0'' 24 = in_block (unat v) (0xC6336400, 0xC63364FF)"
  "v4InCidr v ''203.0.113.0'' 24 = in_block (unat v) (0xCB007100, 0xCB0071FF)"
  "v4InCidr v ''224.0.0.0'' 4 = in_block (unat v) (0xE0000000, 0xEFFFFFFF)"
  "v4InCidr v ''240.0.0.0'' 4 = in_block (unat v) (0xF0000000, 0xFFFFFFFF)"
proof -
  show "v4InCidr v ''0.0.0.0'' 8 = in_block (unat v) (0x00000000, 0x00FFFFFF)"
    using v4InCidr_block [OF v4_bases(1), of 8] by simp
  show "v4InCidr v ''10.0.0.0'' 8 = in_block (unat v) (0x0A000000, 0x0AFFFFFF)"
    using v4InCidr_block [OF v4_bases(2), of 8] by simp
  show "v4InCidr v ''100.64.0.0'' 10 = in_block (unat v) (0x64400000, 0x647FFFFF)"
    using v4InCidr_block [OF v4_bases(3), of 10] by simp
  show "v4InCidr v ''127.0.0.0'' 8 = in_block (unat v) (0x7F000000, 0x7FFFFFFF)"
    using v4InCidr_block [OF v4_bases(4), of 8] by simp
  show "v4InCidr v ''169.254.0.0'' 16 = in_block (unat v) (0xA9FE0000, 0xA9FEFFFF)"
    using v4InCidr_block [OF v4_bases(5), of 16] by simp
  show "v4InCidr v ''172.16.0.0'' 12 = in_block (unat v) (0xAC100000, 0xAC1FFFFF)"
    using v4InCidr_block [OF v4_bases(6), of 12] by simp
  show "v4InCidr v ''192.0.0.0'' 24 = in_block (unat v) (0xC0000000, 0xC00000FF)"
    using v4InCidr_block [OF v4_bases(7), of 24] by simp
  show "v4InCidr v ''192.0.2.0'' 24 = in_block (unat v) (0xC0000200, 0xC00002FF)"
    using v4InCidr_block [OF v4_bases(8), of 24] by simp
  show "v4InCidr v ''192.88.99.0'' 24 = in_block (unat v) (0xC0586300, 0xC05863FF)"
    using v4InCidr_block [OF v4_bases(9), of 24] by simp
  show "v4InCidr v ''192.168.0.0'' 16 = in_block (unat v) (0xC0A80000, 0xC0A8FFFF)"
    using v4InCidr_block [OF v4_bases(10), of 16] by simp
  show "v4InCidr v ''198.18.0.0'' 15 = in_block (unat v) (0xC6120000, 0xC613FFFF)"
    using v4InCidr_block [OF v4_bases(11), of 15] by simp
  show "v4InCidr v ''198.51.100.0'' 24 = in_block (unat v) (0xC6336400, 0xC63364FF)"
    using v4InCidr_block [OF v4_bases(12), of 24] by simp
  show "v4InCidr v ''203.0.113.0'' 24 = in_block (unat v) (0xCB007100, 0xCB0071FF)"
    using v4InCidr_block [OF v4_bases(13), of 24] by simp
  show "v4InCidr v ''224.0.0.0'' 4 = in_block (unat v) (0xE0000000, 0xEFFFFFFF)"
    using v4InCidr_block [OF v4_bases(14), of 4] by simp
  show "v4InCidr v ''240.0.0.0'' 4 = in_block (unat v) (0xF0000000, 0xFFFFFFFF)"
    using v4InCidr_block [OF v4_bases(15), of 4] by simp
qed

lemma special_v4_blocks:
  "\<not> special_v4 t v \<longleftrightarrow> global_v4 (t \<in> {''192.0.0.9'', ''192.0.0.10''}) (unat v)"
  unfolding special_v4_def Let_def v4_cidrs global_v4_def special_blocks_def protocol_block_def list_ex_iff list.set bex_simps
    insert_iff empty_iff
  by argo

subsection \<open>IPv6 numbers\<close>

lemma read_hex_bound: "list_all (\<lambda>c. c \<in> set HEX) s \<Longrightarrow> read_hex s < 16 ^ length s"
proof (induction s rule: rev_induct)
  case (snoc c s)
  obtain i where i: "index_of c HEX = Some i"
    using snoc.prems by (cases "index_of c HEX") (auto simp: index_of_None)
  then have "i < 16" using index_of_Some [OF i] by simp
  with snoc i show ?case by (simp add: read_hex_def)
qed (simp add: read_hex_def)

lemma read_hex_group: "hex_text g \<Longrightarrow> read_hex g < 65536"
proof -
  assume g: "hex_text g"
  then have "read_hex g < 16 ^ length g" by (simp add: hex_text_def read_hex_bound)
  also have "\<dots> \<le> 16 ^ 4" using g by (intro power_increasing) (simp_all add: hex_text_def)
  finally show ?thesis by simp
qed

lemma push_group_add: "hex_text g \<Longrightarrow> push_group v g = v * 65536 + read_hex g"
proof -
  assume "hex_text g"
  then have "take_bit 16 (read_hex g) = read_hex g" by (simp add: take_bit_nat_eq_self_iff read_hex_group)
  then have "push_bit 16 v OR read_hex g = push_bit 16 v + read_hex g"
  proof -
    have "push_bit 16 v AND take_bit 16 (read_hex g) = 0" by (rule bit_eqI) (auto simp: bit_simps)
    then show ?thesis by (simp add: \<open>take_bit 16 (read_hex g) = read_hex g\<close> disjunctive_add_eq_or)
  qed
  then show ?thesis by (simp add: push_group_def push_bit_eq_mult)
qed

definition groups_value :: "string list \<Rightarrow> nat" where
  "groups_value gs = foldl (\<lambda>v g. v * 65536 + read_hex g) 0 gs"

lemma foldl_push_group: "list_all hex_text gs \<Longrightarrow> foldl push_group v gs = foldl (\<lambda>v g. v * 65536 + read_hex g) v gs"
  by (induction gs arbitrary: v) (simp_all add: push_group_add)

lemma ipv6_groups_wf: "ipv6_groups host = Some gs \<Longrightarrow> length gs = 8 \<and> list_all hex_text gs"
  by (auto simp: ipv6_groups_def Let_def split: if_splits)

lemma parseIpv6_value:
  assumes "expand_tail (cut_zone (toLowerCase input)) = Some host" "ipv6_groups host = Some gs"
  shows "parseIpv6 input = Some (groups_value gs)"
  using assms ipv6_groups_wf [OF assms(2)] by (simp add: parseIpv6_def groups_value_def foldl_push_group)

lemma v6_base_groups:
  "ipv6_groups ''::ffff:0:0'' = Some [''0'', ''0'', ''0'', ''0'', ''0'', ''ffff'', ''0'', ''0'']"
  "ipv6_groups ''64:ff9b::'' = Some [''64'', ''ff9b'', ''0'', ''0'', ''0'', ''0'', ''0'', ''0'']"
  "ipv6_groups ''2002::'' = Some [''2002'', ''0'', ''0'', ''0'', ''0'', ''0'', ''0'', ''0'']"
  "ipv6_groups ''2000::'' = Some [''2000'', ''0'', ''0'', ''0'', ''0'', ''0'', ''0'', ''0'']"
  "ipv6_groups ''2001::'' = Some [''2001'', ''0'', ''0'', ''0'', ''0'', ''0'', ''0'', ''0'']"
  "ipv6_groups ''2001:db8::'' = Some [''2001'', ''db8'', ''0'', ''0'', ''0'', ''0'', ''0'', ''0'']"
  "ipv6_groups ''3fff::'' = Some [''3fff'', ''0'', ''0'', ''0'', ''0'', ''0'', ''0'', ''0'']"
  by code_simp+

lemma v6_base_texts:
  "expand_tail (cut_zone (toLowerCase ''::ffff:0:0'')) = Some ''::ffff:0:0''"
  "expand_tail (cut_zone (toLowerCase ''64:ff9b::'')) = Some ''64:ff9b::''"
  "expand_tail (cut_zone (toLowerCase ''2002::'')) = Some ''2002::''"
  "expand_tail (cut_zone (toLowerCase ''2000::'')) = Some ''2000::''"
  "expand_tail (cut_zone (toLowerCase ''2001::'')) = Some ''2001::''"
  "expand_tail (cut_zone (toLowerCase ''2001:db8::'')) = Some ''2001:db8::''"
  "expand_tail (cut_zone (toLowerCase ''3fff::'')) = Some ''3fff::''"
  by code_simp+

lemma v6_bases:
  "parseIpv6 ''::ffff:0:0'' = Some (0xFFFF * 2 ^ 32)"
  "parseIpv6 ''64:ff9b::'' = Some (0x64FF9B * 2 ^ 96)"
  "parseIpv6 ''2002::'' = Some (0x2002 * 2 ^ 112)"
  "parseIpv6 ''2000::'' = Some (2 ^ 125)"
  "parseIpv6 ''2001::'' = Some (0x2001 * 2 ^ 112)"
  "parseIpv6 ''2001:db8::'' = Some (0x20010DB8 * 2 ^ 96)"
  "parseIpv6 ''3fff::'' = Some (0x3FFF * 2 ^ 112)"
  using parseIpv6_value [OF v6_base_texts(1) v6_base_groups(1)]
    parseIpv6_value [OF v6_base_texts(2) v6_base_groups(2)]
    parseIpv6_value [OF v6_base_texts(3) v6_base_groups(3)]
    parseIpv6_value [OF v6_base_texts(4) v6_base_groups(4)]
    parseIpv6_value [OF v6_base_texts(5) v6_base_groups(5)]
    parseIpv6_value [OF v6_base_texts(6) v6_base_groups(6)]
    parseIpv6_value [OF v6_base_texts(7) v6_base_groups(7)]
  by (simp_all add: groups_value_def read_hex_def HEX_def)

lemma v6InCidr_block:
  assumes "parseIpv6 base = Some b" "b = m * 2 ^ (128 - prefix)"
  shows "v6InCidr v base prefix = Inr (in_block v (b, b + (2 ^ (128 - prefix) - 1)))"
proof -
  have "v div p = m \<longleftrightarrow> m * p \<le> v \<and> v \<le> m * p + (p - 1)" if "0 < p" for p :: nat
  proof -
    have "v div p = m \<longleftrightarrow> m * p \<le> v \<and> v < Suc m * p"
      using that by (metis div_nat_eqI dividend_less_times_div mult.commute mult_Suc nat_less_le times_div_less_eq_dividend)
    then show ?thesis using that by auto
  qed
  then show ?thesis using assms by (simp add: v6InCidr_def ipv6Base_def drop_bit_eq_div in_block_def Let_def)
qed

definition embedded_global :: "nat \<Rightarrow> bool" where
  "embedded_global n = (let v = n mod 2 ^ 32 in global_v4 (v \<in> {0xC0000009, 0xC000000A}) v)"

definition global_v6 :: "nat \<Rightarrow> bool" where
  "global_v6 n =
     (if in_block n (0xFFFF * 2 ^ 32, 0xFFFF * 2 ^ 32 + (2 ^ 32 - 1)) then embedded_global n
      else if in_block n (0x64FF9B * 2 ^ 96, 0x64FF9B * 2 ^ 96 + (2 ^ 32 - 1)) then embedded_global n
      else if in_block n (0x2002 * 2 ^ 112, 0x2002 * 2 ^ 112 + (2 ^ 112 - 1)) then embedded_global (n div 2 ^ 80)
      else in_block n (2 ^ 125, 2 ^ 125 + (2 ^ 125 - 1))
        \<and> \<not> in_block n (0x2001 * 2 ^ 112, 0x2001 * 2 ^ 112 + (2 ^ 105 - 1))
        \<and> \<not> in_block n (0x20010DB8 * 2 ^ 96, 0x20010DB8 * 2 ^ 96 + (2 ^ 96 - 1))
        \<and> \<not> in_block n (0x3FFF * 2 ^ 112, 0x3FFF * 2 ^ 112 + (2 ^ 108 - 1)))"

definition verdict :: "string \<Rightarrow> bool" where
  "verdict host =
     (case parseIpv4 host of
        Some v \<Rightarrow> global_v4 (host \<in> {''192.0.0.9'', ''192.0.0.10''}) (unat v)
      | None \<Rightarrow> (case parseIpv6 host of Some n \<Rightarrow> global_v6 n | None \<Rightarrow> False))"

lemma anycast_texts:
  "ipv4FromInteger v \<in> {''192.0.0.9'', ''192.0.0.10''} \<longleftrightarrow> v mod 2 ^ 32 \<in> {0xC0000009, 0xC000000A}"
proof
  have p: "parseIpv4 ''192.0.0.9'' = Some 0xC0000009" "parseIpv4 ''192.0.0.10'' = Some 0xC000000A"
    using parseIpv4_dotted [of 192 0 0 9] parseIpv4_dotted [of 192 0 0 10]
    by (simp_all add: dotted_def show_dec_def show_dec_acc.simps dec_digits)
  assume "ipv4FromInteger v \<in> {''192.0.0.9'', ''192.0.0.10''}"
  then have "(word_of_nat v :: 32 word) = 0xC0000009 \<or> (word_of_nat v :: 32 word) = 0xC000000A"
    using parse_ipv4FromInteger [of v] p by auto
  then have "unat (word_of_nat v :: 32 word) \<in> {0xC0000009, 0xC000000A}" by auto
  then show "v mod 2 ^ 32 \<in> {0xC0000009, 0xC000000A}" by (simp add: unat_of_nat take_bit_eq_mod)
next
  assume "v mod 2 ^ 32 \<in> {0xC0000009, 0xC000000A}"
  then have "ipv4FromInteger v = dotted 192 0 0 9 \<or> ipv4FromInteger v = dotted 192 0 0 10"
    by (auto simp: ipv4FromInteger_dotted)
  moreover have "dotted 192 0 0 9 = ''192.0.0.9''" "dotted 192 0 0 10 = ''192.0.0.10''"
    by (simp_all add: dotted_def show_dec_def show_dec_acc.simps dec_digits)
  ultimately show "ipv4FromInteger v \<in> {''192.0.0.9'', ''192.0.0.10''}" by auto
qed

lemma isGlobal_embedded: "isGlobalIpAddress (ipv4FromInteger v) = Inr (embedded_global v)"
proof -
  have "unat (word_of_nat v :: 32 word) = v mod 2 ^ 32" by (simp add: unat_of_nat take_bit_eq_mod)
  then show ?thesis
    by (subst isGlobalIpAddress.simps)
      (simp add: parse_ipv4FromInteger special_v4_blocks anycast_texts [simplified] embedded_global_def Let_def)
qed

lemma v6_cidrs:
  "v6InCidr n ''::ffff:0:0'' 96 = Inr (in_block n (0xFFFF * 2 ^ 32, 0xFFFF * 2 ^ 32 + (2 ^ 32 - 1)))"
  "v6InCidr n ''64:ff9b::'' 96 = Inr (in_block n (0x64FF9B * 2 ^ 96, 0x64FF9B * 2 ^ 96 + (2 ^ 32 - 1)))"
  "v6InCidr n ''2002::'' 16 = Inr (in_block n (0x2002 * 2 ^ 112, 0x2002 * 2 ^ 112 + (2 ^ 112 - 1)))"
  "v6InCidr n ''2000::'' 3 = Inr (in_block n (2 ^ 125, 2 ^ 125 + (2 ^ 125 - 1)))"
  "v6InCidr n ''2001::'' 23 = Inr (in_block n (0x2001 * 2 ^ 112, 0x2001 * 2 ^ 112 + (2 ^ 105 - 1)))"
  "v6InCidr n ''2001:db8::'' 32 = Inr (in_block n (0x20010DB8 * 2 ^ 96, 0x20010DB8 * 2 ^ 96 + (2 ^ 96 - 1)))"
  "v6InCidr n ''3fff::'' 20 = Inr (in_block n (0x3FFF * 2 ^ 112, 0x3FFF * 2 ^ 112 + (2 ^ 108 - 1)))"
  using v6InCidr_block [OF v6_bases(1), where m = "0xFFFF" and prefix = 96 and v = n] v6InCidr_block [OF v6_bases(2), where m = "0x64FF9B * 2 ^ 64" and prefix = 96 and v = n]
    v6InCidr_block [OF v6_bases(3), where m = "0x2002" and prefix = 16 and v = n] v6InCidr_block [OF v6_bases(4), where m = "1" and prefix = 3 and v = n]
    v6InCidr_block [OF v6_bases(5), where m = "0x2001 * 2 ^ 7" and prefix = 23 and v = n] v6InCidr_block [OF v6_bases(6), where m = "0x20010DB8" and prefix = 32 and v = n]
    v6InCidr_block [OF v6_bases(7), where m = "0x3FFF * 2 ^ 4" and prefix = 20 and v = n]
  by simp_all

lemma isGlobal_verdict: "isGlobalIpAddress address = Inr (verdict (host_text address))"
proof (cases "parseIpv4 (host_text address)")
  case (Some v)
  then show ?thesis
    by (subst isGlobalIpAddress.simps) (simp add: special_v4_blocks verdict_def Let_def)
next
  case None
  show ?thesis
  proof (cases "parseIpv6 (host_text address)")
    case n: (Some n)
    have drop: "drop_bit 80 n = n div 2 ^ 80" by (simp add: drop_bit_eq_div)
    show ?thesis
      by (subst isGlobalIpAddress.simps)
        (simp only: Let_def None n option.case v6_cidrs bind_sum_simps isGlobal_embedded verdict_def global_v6_def drop, auto)
  qed (subst isGlobalIpAddress.simps, simp add: None verdict_def Let_def)
qed

text \<open>C13: The classification of an address never throws and is the one of the special-purpose ranges: an IPv4 text
  is global when its number lies in none of the 14 blocks nor, unless it is one of the two anycast texts, in
  192.0.0.0/24; an IPv6 text is judged by its number, an IPv4-mapped, NAT64 or 6to4 address as the IPv4 address it
  embeds, and anything that parses as neither is not global.\<close>
theorem ip_classification: "isGlobalIpAddress address = Inr (verdict (host_text address))"
  by (rule isGlobal_verdict)

subsection \<open>Reading a printed IPv6 address back\<close>

definition lower_hex :: "string \<Rightarrow> bool" where
  "lower_hex s \<longleftrightarrow> list_all (\<lambda>c. c \<in> set HEX) s"

lemma hex_plain:
  assumes "c \<in> set HEX"
  shows "lower_unit c = c" "c \<noteq> CHR '':''" "c \<noteq> CHR ''%''" "c \<noteq> CHR ''.''" "c \<noteq> CHR ''[''" "c \<noteq> CHR '']''"
  using assms by (auto simp: HEX_def lower_unit_def Let_def)

lemma index_HEX: "i < 16 \<Longrightarrow> index_of (HEX ! i) HEX = Some i"
  by (simp add: index_of_nth [OF distinct_HEX])

lemma read_show_hex [simp]: "read_hex (show_hex n) = n"
proof -
  have "foldl (\<lambda>v c. v * 16 + the (index_of c HEX)) 0 (show_hex_acc n out)
      = foldl (\<lambda>v c. v * 16 + the (index_of c HEX)) n out" for out
  proof (induction n out rule: show_hex_acc.induct)
    case (1 n out)
    show ?case
    proof (cases "n < 16")
      case True
      then show ?thesis by (simp add: show_hex_acc.simps [of n] index_HEX)
    next
      case False
      then have "foldl (\<lambda>v c. v * 16 + the (index_of c HEX)) 0 (show_hex_acc n out)
          = foldl (\<lambda>v c. v * 16 + the (index_of c HEX)) (n div 16 * 16 + n mod 16) out"
        using 1 by (simp add: show_hex_acc.simps [of n] index_HEX)
      then show ?thesis by simp
    qed
  qed
  then show ?thesis by (simp add: read_hex_def show_hex_def)
qed

lemma hex_text_show_hex: "n < 65536 \<Longrightarrow> hex_text (show_hex n)"
proof -
  assume n: "n < 65536"
  have "list_all (\<lambda>c. c \<in> set HEX) out \<Longrightarrow> list_all (\<lambda>c. c \<in> set HEX) (show_hex_acc m out)" for m out
  proof (induction m out rule: show_hex_acc.induct)
    case (1 m out)
    then show ?case by (cases "m < 16") (simp_all add: show_hex_acc.simps [of m out] nth_mem)
  qed
  then have "list_all (\<lambda>c. c \<in> set HEX) (show_hex n)" by (simp add: show_hex_def)
  moreover have "length (show_hex n) \<le> 4 \<and> 1 \<le> length (show_hex n)"
    using n by (simp add: show_hex_def show_hex_acc.simps)
  ultimately show ?thesis by (simp add: hex_text_def)
qed

lemma split_on_double: "[] \<in> set (tl (split_on c (x @ c # c # y)))"
proof (induction x)
  case (Cons a x)
  then show ?case by (cases "split_on c (x @ c # c # y)") auto
qed simp

text \<open>An address written with one \<open>::\<close> in place of at least one zero group, and one written in full.\<close>

definition v6_text :: "string list \<Rightarrow> string list \<Rightarrow> string" where
  "v6_text ls rs = join '':'' ls @ ''::'' @ join '':'' rs"

lemma hex_group_facts:
  assumes "hex_text g"
  shows "g \<noteq> []" "CHR '':'' \<notin> set g" "list_all (\<lambda>c. c \<in> set HEX) g"
  using assms hex_plain(2) [of "CHR '':''"] by (auto simp: hex_text_def list_all_iff)

lemma split_groups: "gs \<noteq> [] \<Longrightarrow> list_all hex_text gs \<Longrightarrow> split_on CHR '':'' (join '':'' gs) = gs"
  using hex_group_facts by (intro split_on_join) (auto simp: list_all_iff)

lemma join_no_double:
  assumes "list_all hex_text gs"
  shows "\<not> (\<exists>x y. join '':'' gs = x @ ''::'' @ y)"
proof
  assume "\<exists>x y. join '':'' gs = x @ ''::'' @ y"
  then obtain x y where xy: "join '':'' gs = x @ CHR '':'' # CHR '':'' # y" by auto
  then have "gs \<noteq> []" by auto
  then have "[] \<in> set gs" using split_groups [OF _ assms] split_on_double [of "CHR '':''" x y] xy list.set_sel(2) by (metis tl_Nil)
  then show False using assms by (auto simp: list_all_iff hex_text_def)
qed

lemma split_str_at:
  assumes "\<And>i. i < length p \<Longrightarrow> \<not> starts_with sep (drop i (p @ sep @ q))" "sep \<noteq> []"
  shows "split_str sep (p @ sep @ q) = p # split_str sep q"
  using assms(1)
proof (induction p)
  case Nil
  obtain a r where "sep = a # r" using assms(2) by (cases sep) auto
  then show ?case by (simp add: starts_with_def)
next
  case (Cons c p)
  have "\<not> starts_with sep (drop i (p @ sep @ q))" if "i < length p" for i using Cons.prems [of "Suc i"] that by simp
  with Cons.IH have "split_str sep (p @ sep @ q) = p # split_str sep q" by blast
  then show ?case using Cons.prems [of 0] by simp
qed


lemma join_last:
  assumes "list_all hex_text gs" "gs \<noteq> []"
  shows "join '':'' gs \<noteq> [] \<and> last (join '':'' gs) \<noteq> CHR '':'' \<and> hd (join '':'' gs) \<noteq> CHR '':''"
  using assms
proof (induction gs)
  case (Cons g gs)
  then have g: "g \<noteq> []" "CHR '':'' \<notin> set g" using hex_group_facts by auto
  then have ends: "last g \<noteq> CHR '':''" "hd g \<noteq> CHR '':''" by (metis last_in_set, metis hd_in_set)
  show ?case
  proof (cases "gs = []")
    case False
    then show ?thesis using Cons g ends by (simp add: join_Cons_nonempty)
  qed (use g ends in simp)
qed simp

lemma no_double_before:
  assumes "list_all hex_text ls" "i < length (join '':'' ls)"
  shows "\<not> starts_with ''::'' (drop i (join '':'' ls @ ''::'' @ q))"
proof
  define p where "p = join '':'' ls"
  assume "starts_with ''::'' (drop i (join '':'' ls @ ''::'' @ q))"
  then obtain t where t: "drop i p @ ''::'' @ q = ''::'' @ t" using assms(2) by (auto simp: starts_with_iff p_def)
  have i: "i < length p" using assms(2) by (simp add: p_def)
  then obtain d r where d: "drop i p = d # r" by (cases "drop i p") auto
  have p: "p = take i p @ d # r" using d by (metis append_take_drop_id)
  have "ls \<noteq> []" using i by (auto simp: p_def)
  then have lst: "last p \<noteq> CHR '':''" using join_last [OF assms(1)] by (simp add: p_def)
  show False
  proof (cases r)
    case Nil
    then have "last p = d" using p by (metis last_snoc)
    then show False using t d lst by simp
  next
    case (Cons e r')
    then have "p = take i p @ ''::'' @ r'" using t d p by simp
    then show False using join_no_double [OF assms(1)] unfolding p_def by blast
  qed
qed

lemma split_str_groups:
  assumes "list_all hex_text ls" "list_all hex_text rs"
  shows "split_str ''::'' (v6_text ls rs) = [join '':'' ls, join '':'' rs]"
proof -
  have "\<not> starts_with ''::'' (drop i (join '':'' rs))" for i
  proof
    assume "starts_with ''::'' (drop i (join '':'' rs))"
    then obtain t where "drop i (join '':'' rs) = ''::'' @ t" by (auto simp: starts_with_iff)
    then show False using join_no_double [OF assms(2)] by (metis append_take_drop_id)
  qed
  then have "split_str ''::'' (join '':'' rs) = [join '':'' rs]" by (rule split_str_absent)
  then show ?thesis unfolding v6_text_def
    using split_str_at [of "join '':'' ls" "''::''" "join '':'' rs"] no_double_before [OF assms(1)] by simp
qed

lemma split_str_full:
  assumes "list_all hex_text gs"
  shows "split_str ''::'' (join '':'' gs) = [join '':'' gs]"
proof (rule split_str_absent)
  fix i show "\<not> starts_with ''::'' (drop i (join '':'' gs))"
    using join_no_double [OF assms] by (metis append_take_drop_id starts_with_iff)
qed

lemma colon_groups_join: "list_all hex_text gs \<Longrightarrow> colon_groups (join '':'' gs) = gs"
  using split_groups [of gs] join_last [of gs] by (cases "gs = []") (simp_all add: colon_groups_def)

lemma ipv6_groups_text:
  assumes "list_all hex_text ls" "list_all hex_text rs" "length ls + length rs \<le> 7"
  shows "ipv6_groups (v6_text ls rs) = Some (ls @ replicate (8 - length ls - length rs) ''0'' @ rs)"
proof -
  have "hex_text ''0''" by (simp add: hex_text_def HEX_def)
  then have "list_all hex_text (replicate k ''0'')" for k by (simp add: list_all_iff)
  moreover have "nat (8 - int (length ls) - int (length rs)) = 8 - length ls - length rs" by linarith
  ultimately show ?thesis using assms
    by (simp add: ipv6_groups_def split_str_groups colon_groups_join)
qed

lemma ipv6_groups_full: "list_all hex_text gs \<Longrightarrow> length gs = 8 \<Longrightarrow> ipv6_groups (join '':'' gs) = Some gs"
  by (simp add: ipv6_groups_def split_str_full colon_groups_join)

lemma set_join: "set (join c ss) \<subseteq> set c \<union> \<Union> (set ` set ss)"
  by (induction c ss rule: join.induct) auto

lemma set_join_ge: "p \<in> set ss \<Longrightarrow> set p \<subseteq> set (join c ss)"
proof (induction ss)
  case (Cons q ss)
  then show ?case by (cases "ss = []") (auto simp: join_Cons_nonempty)
qed simp

lemma set_split_on: "p \<in> set (split_on c s) \<Longrightarrow> set p \<subseteq> set s"
  using set_join_ge [of p "split_on c s" "[c]"] by (simp add: join_split_on)

lemma no_dot_no_tail: "CHR ''.'' \<notin> set s \<Longrightarrow> expand_tail s = Some s"
proof -
  assume s: "CHR ''.'' \<notin> set s"
  have "set (last (split_on CHR '':'' s)) \<subseteq> set s" by (rule set_split_on [of _ "CHR '':''"]) simp
  then have "CHR ''.'' \<notin> set (last (split_on CHR '':'' s))" by (rule contra_subsetD) (rule s)
  then have "\<not> dotted_shape (last (split_on CHR '':'' s))" by (simp add: dotted_shape_def split_on_single)
  then show ?thesis by (simp add: expand_tail_def Let_def)
qed

lemma colon_text_plain:
  assumes "set s \<subseteq> insert (CHR '':'') (set HEX)"
  shows "expand_tail (cut_zone (toLowerCase s)) = Some s"
proof -
  have c: "lower_unit ch = ch \<and> ch \<noteq> CHR ''%'' \<and> ch \<noteq> CHR ''.''" if "ch \<in> set s" for ch
  proof (cases "ch = CHR '':''")
    case True
    then show ?thesis by (simp add: lower_unit_def Let_def)
  next
    case False
    then have "ch \<in> set HEX" using assms that by auto
    then show ?thesis using hex_plain by blast
  qed
  then have "toLowerCase s = s" by (simp add: toLowerCase_def map_idI)
  moreover have "cut_zone s = s" using c by (auto simp: cut_zone_def takeWhile_eq_all_conv)
  moreover have "CHR ''.'' \<notin> set s" using c by auto
  ultimately show ?thesis by (simp add: no_dot_no_tail)
qed

lemma set_groups: "list_all hex_text gs \<Longrightarrow> set (join '':'' gs) \<subseteq> insert (CHR '':'') (set HEX)"
proof -
  assume "list_all hex_text gs"
  then have "\<Union> (set ` set gs) \<subseteq> set HEX" using hex_group_facts(3) by (force simp: list_all_iff)
  moreover have "set (join [c] gs) \<subseteq> insert c (\<Union> (set ` set gs))" for c using set_join [of "[c]" gs] by simp
  ultimately show ?thesis by (meson insert_mono order_trans)
qed

lemma parseIpv6_text:
  assumes "list_all hex_text ls" "list_all hex_text rs" "length ls + length rs \<le> 7"
  shows "parseIpv6 (v6_text ls rs) = Some (groups_value (ls @ replicate (8 - length ls - length rs) ''0'' @ rs))"
proof (rule parseIpv6_value [OF _ ipv6_groups_text [OF assms]])
  show "expand_tail (cut_zone (toLowerCase (v6_text ls rs))) = Some (v6_text ls rs)"
    using set_groups [OF assms(1)] set_groups [OF assms(2)] by (intro colon_text_plain) (auto simp: v6_text_def)
qed

definition v6_full :: "nat \<Rightarrow> string" where
  "v6_full n = join '':'' (map (\<lambda>i. show_hex (n div 65536 ^ (7 - i) mod 65536)) [0..<8])"

lemma groups_value_digits:
  "n < 65536 ^ 8 \<Longrightarrow> groups_value (map (\<lambda>i. show_hex (n div 65536 ^ (7 - i) mod 65536)) [0..<8]) = n"
proof -
  assume n: "n < 65536 ^ 8"
  define q where "q i = n div 65536 ^ i" for i
  have step: "q (Suc i) * 65536 + q i mod 65536 = q i" for i
    by (simp only: q_def power_Suc2 div_mult2_eq div_mult_mod_eq)
  have top: "q 7 mod 65536 = q 7" using n by (simp add: q_def less_mult_imp_div_less)
  have sucs: "Suc 6 = 7" "Suc 5 = 6" "Suc 4 = 5" "Suc 3 = 4" "Suc 2 = 3" "Suc 1 = 2" "Suc 0 = 1" by simp_all
  have "[0..<8] = [0, 1, 2, 3, 4, 5, 6, 7]" by (simp add: upt_rec)
  then have "groups_value (map (\<lambda>i. show_hex (n div 65536 ^ (7 - i) mod 65536)) [0..<8])
      = ((((((q 7 * 65536 + q 6 mod 65536) * 65536 + q 5 mod 65536) * 65536 + q 4 mod 65536) * 65536
         + q 3 mod 65536) * 65536 + q 2 mod 65536) * 65536 + q 1 mod 65536) * 65536 + q 0 mod 65536"
    using top by (simp add: groups_value_def q_def)
  also have "\<dots> = n"
  proof -
    have "q 7 * 65536 + q 6 mod 65536 = q 6" "q 6 * 65536 + q 5 mod 65536 = q 5" "q 5 * 65536 + q 4 mod 65536 = q 4"
      "q 4 * 65536 + q 3 mod 65536 = q 3" "q 3 * 65536 + q 2 mod 65536 = q 2" "q 2 * 65536 + q 1 mod 65536 = q 1"
      "q 1 * 65536 + q 0 mod 65536 = q 0"
      using step [of 6] step [of 5] step [of 4] step [of 3] step [of 2] step [of 1] step [of 0] by (simp_all only: sucs)
    moreover have "q 0 = n" by (simp add: q_def)
    ultimately show ?thesis by (simp only:)
  qed
  finally show ?thesis .
qed

lemma groups_value_bound: "list_all hex_text gs \<Longrightarrow> groups_value gs < 65536 ^ length gs"
proof (induction gs rule: rev_induct)
  case (snoc g gs)
  then have "groups_value gs < 65536 ^ length gs" "read_hex g < 65536" by (simp_all add: read_hex_group)
  then show ?case by (simp add: groups_value_def)
qed (simp add: groups_value_def)

lemma parseIpv6_groups:
  "parseIpv6 s = Some n \<Longrightarrow> \<exists>gs. length gs = 8 \<and> list_all hex_text gs \<and> n = groups_value gs"
  using ipv6_groups_wf parseIpv6_value unfolding parseIpv6_def by (fastforce split: option.splits)

lemma parseIpv6_full:
  assumes "list_all hex_text gs" "length gs = 8"
  shows "parseIpv6 (join '':'' gs) = Some (groups_value gs)"
  using parseIpv6_value [OF colon_text_plain ipv6_groups_full] set_groups assms by blast

text \<open>C24: The eight groups of a 128-bit address printed in hexadecimal are read back as that number; an address
  with \<open>::\<close> is read as the one with the missing groups written as zero; and the parser yields only 128-bit numbers.\<close>
theorem ipv6_roundtrip:
  assumes "n < 2 ^ 128" "list_all hex_text ls" "list_all hex_text rs" "length ls + length rs \<le> 7"
  shows "parseIpv6 (v6_full n) = Some n
    \<and> parseIpv6 (v6_text ls rs) = parseIpv6 (join '':'' (ls @ replicate (8 - length ls - length rs) ''0'' @ rs))
    \<and> pred_option (\<lambda>v. v < 2 ^ 128) (parseIpv6 s)"
proof (intro conjI)
  have "list_all hex_text (map (\<lambda>i. show_hex (n div 65536 ^ (7 - i) mod 65536)) [0..<8])"
    by (simp add: list_all_iff hex_text_show_hex)
  then show "parseIpv6 (v6_full n) = Some n"
    using assms(1) unfolding v6_full_def by (simp add: parseIpv6_full groups_value_digits)
  have "list_all hex_text (replicate k ''0'')" for k by (simp add: list_all_iff hex_text_def HEX_def)
  then have "list_all hex_text (ls @ replicate (8 - length ls - length rs) ''0'' @ rs)"
    using assms(2,3) by simp
  then show "parseIpv6 (v6_text ls rs) = parseIpv6 (join '':'' (ls @ replicate (8 - length ls - length rs) ''0'' @ rs))"
    using assms(4) by (simp add: parseIpv6_text [OF assms(2-4)] parseIpv6_full)
  have "groups_value gs < 2 ^ 128" if "length gs = 8" "list_all hex_text gs" for gs
    using groups_value_bound [OF that(2)] that(1) by simp
  then show "pred_option (\<lambda>v. v < 2 ^ 128) (parseIpv6 s)"
    using parseIpv6_groups [of s] by (cases "parseIpv6 s") auto
qed

theorem ipv6_roundtrip_witness:
  "parseIpv6 (v6_full 0x20010DB8000000000000000000000001) = Some 0x20010DB8000000000000000000000001
   \<and> parseIpv6 ''2001:db8::1'' = parseIpv6 ''2001:db8:0:0:0:0:0:1''"
proof -
  have "parseIpv6 (v6_text [''2001'', ''db8''] [''1''])
      = parseIpv6 (join '':'' ([''2001'', ''db8''] @ replicate (8 - length [''2001'', ''db8''] - length [''1'']) ''0'' @ [''1'']))
    \<and> parseIpv6 (v6_full 0x20010DB8000000000000000000000001) = Some 0x20010DB8000000000000000000000001"
    using ipv6_roundtrip [of "0x20010DB8000000000000000000000001" "[''2001'', ''db8'']" "[''1'']" "[]"]
    by (simp add: hex_text_def HEX_def)
  moreover have "replicate 5 ''0'' = [''0'', ''0'', ''0'', ''0'', ''0'']" by (simp add: numeral_eq_Suc)
  ultimately show ?thesis by (simp add: v6_text_def)
qed

subsection \<open>URLs\<close>

record parsed_url =
  pu_href :: string
  pu_protocol :: string
  pu_hostname :: string

text \<open>\<open>isGlobalIpAddress\<close> never throws (\<open>isGlobal_verdict\<close>), so its callers take its boolean.\<close>

definition global_address :: "string \<Rightarrow> bool" where
  "global_address address = projr (isGlobalIpAddress address)"

lemma global_address_verdict: "global_address a = verdict (host_text a)"
  by (simp add: global_address_def isGlobal_verdict)

definition local_name :: "string \<Rightarrow> bool" where
  "local_name host \<longleftrightarrow> host = ''localhost'' \<or> ends_with ''.localhost'' host \<or> ends_with ''.local'' host \<or> ends_with ''.internal'' host"

definition literal_host :: "string \<Rightarrow> bool" where
  "literal_host host \<longleftrightarrow> parseIpv4 host \<noteq> None \<or> parseIpv6 host \<noteq> None"

definition parsedSafeUrl :: "(string \<Rightarrow> parsed_url option) \<Rightarrow> string \<Rightarrow> bool \<Rightarrow> bool \<Rightarrow> parsed_url option" where
  "parsedSafeUrl parseUrl rawUrl strict requireHttps =
     (case parseUrl rawUrl of
        None \<Rightarrow> None
      | Some url \<Rightarrow>
          if (if requireHttps then pu_protocol url \<noteq> ''https:'' else pu_protocol url \<noteq> ''http:'' \<and> pu_protocol url \<noteq> ''https:'')
          then None
          else if \<not> strict then Some url
          else let host = host_text (pu_hostname url)
               in if local_name host then None
                  else if literal_host host then (if global_address host then Some url else None)
                  else Some url)"

definition isSafeExternalUrl :: "(string \<Rightarrow> parsed_url option) \<Rightarrow> string \<Rightarrow> bool \<Rightarrow> bool \<Rightarrow> bool" where
  "isSafeExternalUrl parseUrl rawUrl strict requireHttps \<longleftrightarrow> parsedSafeUrl parseUrl rawUrl strict requireHttps \<noteq> None"

datatype resolved_address = AddressText string | ResolvedAddress string "nat option"

fun entry_address :: "resolved_address \<Rightarrow> string" where
  "entry_address (AddressText s) = s"
| "entry_address (ResolvedAddress s family) = s"

text \<open>The resolver yields \<open>None\<close> when it throws; \<open>strict\<close> is \<open>None\<close> when the option is absent.\<close>

definition resolveSafeExternalUrl ::
  "(string \<Rightarrow> parsed_url option) \<Rightarrow> string \<Rightarrow> (string \<Rightarrow> resolved_address list option) \<Rightarrow> bool option \<Rightarrow> bool \<Rightarrow> parsed_url option" where
  "resolveSafeExternalUrl parseUrl rawUrl resolver strict requireHttps =
     (let effective = (case strict of None \<Rightarrow> True | Some b \<Rightarrow> b)
      in case parsedSafeUrl parseUrl rawUrl effective requireHttps of
           None \<Rightarrow> None
         | Some url \<Rightarrow>
             if \<not> effective then Some url
             else let host = host_text (pu_hostname url)
                  in if literal_host host then Some url
                     else case resolver host of
                            None \<Rightarrow> None
                          | Some resolved \<Rightarrow>
                              if resolved = [] then None
                              else if list_all (\<lambda>entry. global_address (entry_address entry)) resolved then Some url else None)"

subsection \<open>The connection\<close>

text \<open>What the lookup of a connection hands back: an error, every address, or one.\<close>

datatype lookup_answer = LookupError string | AllAddresses "(string \<times> nat) list" | OneAddress string nat

definition pinnedGlobalLookup :: "string + (string \<times> nat) list \<Rightarrow> bool \<Rightarrow> lookup_answer" where
  "pinnedGlobalLookup dns wantAll =
     (case dns of
        Inl e \<Rightarrow> LookupError e
      | Inr addresses \<Rightarrow>
          if find (\<lambda>entry. \<not> global_address (fst entry)) addresses \<noteq> None \<or> addresses = [] then LookupError ''ENOTFOUND''
          else if wantAll then AllAddresses addresses
          else OneAddress (fst (hd addresses)) (snd (hd addresses)))"

definition dialled :: "lookup_answer \<Rightarrow> string list" where
  "dialled a = (case a of LookupError e \<Rightarrow> [] | AllAddresses xs \<Rightarrow> map fst xs | OneAddress s family \<Rightarrow> [s])"

text \<open>The transports are parameters; \<open>Inl\<close> is the thrown error.\<close>

definition createNodeSafeWebhookFetch :: "(string \<Rightarrow> parsed_url option) \<Rightarrow> (string \<Rightarrow> string + 'r) \<Rightarrow> string \<Rightarrow> string + 'r" where
  "createNodeSafeWebhookFetch parseUrl fetchImpl rawUrl =
     (if \<not> isSafeExternalUrl parseUrl rawUrl True True then Inl ''Unsafe outbound webhook URL'' else fetchImpl rawUrl)"

definition normalizedUrl :: "(string \<Rightarrow> parsed_url option) \<Rightarrow> string \<Rightarrow> string option" where
  "normalizedUrl parseUrl rawUrl = map_option pu_href (parseUrl rawUrl)"

definition createNodeOutboundWebhookFetch ::
  "(string \<Rightarrow> parsed_url option) \<Rightarrow> string option \<Rightarrow> (string \<Rightarrow> string + 'r) \<Rightarrow> (string \<Rightarrow> string + 'r) \<Rightarrow> string \<Rightarrow> string + 'r" where
  "createNodeOutboundWebhookFetch parseUrl proxyUrl safeFetch proxyFetch rawUrl =
     (let trusted = (case truthy proxyUrl of None \<Rightarrow> None | Some p \<Rightarrow> normalizedUrl parseUrl p)
      in if truthy trusted \<noteq> None \<and> normalizedUrl parseUrl rawUrl = trusted then proxyFetch rawUrl else safeFetch rawUrl)"

lemma find_ex: "find P xs \<noteq> None \<longleftrightarrow> list_ex P xs"
  by (induction xs) auto

lemma pinned_lookup_global: "list_all (\<lambda>a. verdict (host_text a)) (dialled (pinnedGlobalLookup dns wantAll))"
proof (cases dns)
  case (Inr xs)
  then show ?thesis
    by (cases xs) (auto simp: pinnedGlobalLookup_def dialled_def find_ex find_None_iff list_all_iff list_ex_iff global_address_verdict
        simp del: not_None_eq)
qed (simp add: pinnedGlobalLookup_def dialled_def)

lemma parsedSafeUrl_strict:
  assumes "parsedSafeUrl parseUrl rawUrl True requireHttps = Some url"
  shows "parseUrl rawUrl = Some url \<and> pu_protocol url \<in> (if requireHttps then {''https:''} else {''http:'', ''https:''})
    \<and> \<not> local_name (host_text (pu_hostname url))
    \<and> (literal_host (host_text (pu_hostname url)) \<longrightarrow> verdict (host_text (host_text (pu_hostname url))))"
  using assms by (auto simp: parsedSafeUrl_def Let_def global_address_verdict split: option.splits if_splits)

text \<open>C16: A URL accepted by the resolving check names, over an allowed scheme, either a literal address that is
  global or a name that is not a local one and whose answers, at least one, are all global; and whatever the DNS
  answers at connect time, the lookup of the connection hands only global addresses to the socket.\<close>
theorem resolved_url_is_global:
  assumes "resolveSafeExternalUrl parseUrl rawUrl resolver strict requireHttps = Some url" "strict \<noteq> Some False"
  shows "parseUrl rawUrl = Some url
    \<and> pu_protocol url \<in> (if requireHttps then {''https:''} else {''http:'', ''https:''})
    \<and> (let host = host_text (pu_hostname url) in
       if literal_host host then verdict (host_text host)
       else \<not> local_name host
         \<and> (case resolver host of None \<Rightarrow> False
           | Some answers \<Rightarrow> answers \<noteq> [] \<and> list_all (\<lambda>a. verdict (host_text (entry_address a))) answers))
    \<and> list_all (\<lambda>a. verdict (host_text a)) (dialled (pinnedGlobalLookup dns wantAll))"
proof -
  have eff: "(case strict of None \<Rightarrow> True | Some b \<Rightarrow> b) = True" using assms(2) by (cases strict) auto
  have safe: "parsedSafeUrl parseUrl rawUrl True requireHttps = Some url"
    using assms(1) by (auto simp: resolveSafeExternalUrl_def eff Let_def split: option.splits if_splits)
  show ?thesis
    using assms(1) parsedSafeUrl_strict [OF safe] pinned_lookup_global [of dns wantAll]
    by (auto simp: resolveSafeExternalUrl_def eff safe Let_def global_address_verdict split: option.splits if_splits)
qed

definition ex_url :: "string \<Rightarrow> parsed_url option" where
  "ex_url s = Some \<lparr>pu_href = s, pu_protocol = ''https:'', pu_hostname = s\<rparr>"

theorem resolved_url_is_global_witness:
  "resolveSafeExternalUrl ex_url ''a.b'' (\<lambda>h. Some [AddressText ''9.9.9.9'']) None True
     = Some \<lparr>pu_href = ''a.b'', pu_protocol = ''https:'', pu_hostname = ''a.b''\<rparr>
   \<and> verdict (host_text ''9.9.9.9'')
   \<and> resolveSafeExternalUrl ex_url ''a.b'' (\<lambda>h. Some [AddressText ''9.9.9.9'', AddressText ''10.0.0.9'']) None True = None"
proof -
  let ?r = "\<lambda>h. Some [AddressText ''9.9.9.9'']" and ?u = "\<lparr>pu_href = ''a.b'', pu_protocol = ''https:'', pu_hostname = ''a.b''\<rparr>"
  have texts: "dotted 9 9 9 9 = ''9.9.9.9''" "dotted 10 0 0 9 = ''10.0.0.9''"
    by (simp_all add: dotted_def show_dec_def show_dec_acc.simps dec_digits)
  have plain: "host_text ''9.9.9.9'' = ''9.9.9.9''" "host_text ''10.0.0.9'' = ''10.0.0.9''" "host_text ''a.b'' = ''a.b''"
    by code_simp+
  have v: "verdict ''9.9.9.9''" "\<not> verdict ''10.0.0.9''"
    using parseIpv4_dotted [of 9 9 9 9] parseIpv4_dotted [of 10 0 0 9] unfolding texts
    by (simp_all add: verdict_def global_v4_def special_blocks_def protocol_block_def in_block_def)
  have name: "parseIpv4 ''a.b'' = None" "parseIpv6 ''a.b'' = None" "\<not> local_name ''a.b''" by code_simp+
  have run: "resolveSafeExternalUrl ex_url ''a.b'' ?r None True = Some ?u"
    "resolveSafeExternalUrl ex_url ''a.b'' (\<lambda>h. Some [AddressText ''9.9.9.9'', AddressText ''10.0.0.9'']) None True = None"
    by (simp_all add: resolveSafeExternalUrl_def parsedSafeUrl_def ex_url_def Let_def plain name literal_host_def
      global_address_verdict v)
  then have "verdict (host_text ''9.9.9.9'')"
    using resolved_url_is_global [OF run(1)] by (simp add: plain literal_host_def name Let_def)
  with run show ?thesis by blast
qed

end
