(* ===== verification/StandardWebhook.thy ===== *)
theory StandardWebhook
  imports JsString "HOL-Library.Word"
begin

text \<open>
  Signing and verifying webhook requests (\<open>lib/standardWebhook.ts\<close>): the \<open>whsec_\<close> secret and its base64, the
  signed text, the tolerance on the timestamp, and the comparison that takes the same time wherever two
  signatures differ. HMAC-SHA-256 over the UTF-8 text is the parameter \<open>hmac\<close>; a thrown error is the left value.
\<close>

unbundle bit_operations_syntax

type_synonym bytes = "8 word list"

definition STANDARD_WEBHOOK_SECRET_PREFIX :: string where "STANDARD_WEBHOOK_SECRET_PREFIX = ''whsec_''"
definition MIN_SECRET_BYTES :: nat where "MIN_SECRET_BYTES = 24"
definition MAX_SECRET_BYTES :: nat where "MAX_SECRET_BYTES = 64"
definition DEFAULT_TIMESTAMP_TOLERANCE_SECONDS :: int where "DEFAULT_TIMESTAMP_TOLERANCE_SECONDS = 5 * 60"

subsection \<open>Base64\<close>

definition B64 :: string where
  "B64 = ''ABCDEFGHIJKLMNOPQRSTUVWXYZabcdefghijklmnopqrstuvwxyz0123456789+/''"

text \<open>\<open>btoa\<close> on the bytes of a digest.\<close>

fun btoa :: "bytes \<Rightarrow> string" where
  "btoa [] = []"
| "btoa [a] = (let n = unat a * 16 in [B64 ! (n div 64), B64 ! (n mod 64), CHR ''='', CHR ''=''])"
| "btoa [a, b] = (let n = (unat a * 256 + unat b) * 4 in [B64 ! (n div 4096), B64 ! (n div 64 mod 64), B64 ! (n mod 64), CHR ''=''])"
| "btoa (a # b # c # bs) =
     (let n = (unat a * 256 + unat b) * 256 + unat c
      in B64 ! (n div 262144) # B64 ! (n div 4096 mod 64) # B64 ! (n div 64 mod 64) # B64 ! (n mod 64) # btoa bs)"

text \<open>\<open>atob\<close>: at most two trailing \<open>=\<close> of a text of full quartets are dropped, a last group of one character is
  an error, and the bits that fill no byte are ignored.\<close>

fun sextets :: "nat list \<Rightarrow> bytes option" where
  "sextets [] = Some []"
| "sextets [a] = None"
| "sextets [a, b] = Some [word_of_nat ((a * 64 + b) div 16)]"
| "sextets [a, b, c] = (let n = ((a * 64 + b) * 64 + c) div 4 in Some [word_of_nat (n div 256), word_of_nat n])"
| "sextets (a # b # c # d # ns) =
     (let n = ((a * 64 + b) * 64 + c) * 64 + d
      in map_option (\<lambda>bs. word_of_nat (n div 65536) # word_of_nat (n div 256) # word_of_nat n # bs) (sextets ns))"

definition drop_eq :: "string \<Rightarrow> string" where
  "drop_eq s = (if ends_with ''='' s then butlast s else s)"

definition atob :: "string \<Rightarrow> bytes option" where
  "atob s =
     (let t = (if length s mod 4 = 0 then drop_eq (drop_eq s) else s); digits = map (\<lambda>c. index_of c B64) t
      in if None \<in> set digits then None else sextets (map the digits))"

definition b64_text :: "string \<Rightarrow> bool" where
  "b64_text s \<longleftrightarrow>
     (let n = length (takeWhile (\<lambda>c. c \<in> set B64) s); r = drop n s in r = [] \<or> r = ''='' \<or> r = ''=='')"

definition pad_end :: "nat \<Rightarrow> char \<Rightarrow> string \<Rightarrow> string" where
  "pad_end n c s = s @ replicate (n - length s) c"

definition decodeBase64 :: "string \<Rightarrow> string + bytes" where
  "decodeBase64 v =
     (let normalized = filter (\<lambda>c. \<not> is_ws c) v
      in if \<not> b64_text normalized then Inl ''Standard Webhooks secret is not valid base64''
         else case atob (pad_end ((length normalized + 3) div 4 * 4) CHR ''='' normalized) of
                None \<Rightarrow> Inl ''Standard Webhooks secret is not valid base64''
              | Some decoded \<Rightarrow> Inr decoded)"

definition encodeBase64 :: "bytes \<Rightarrow> string" where
  "encodeBase64 v = btoa v"

subsection \<open>Secrets, signing, verification\<close>

definition decodeStandardWebhookSecret :: "string \<Rightarrow> string + bytes" where
  "decodeStandardWebhookSecret secretWhsec =
     (if \<not> starts_with STANDARD_WEBHOOK_SECRET_PREFIX secretWhsec then Inl ''Standard Webhooks secret must start with whsec_''
      else case decodeBase64 (drop (length STANDARD_WEBHOOK_SECRET_PREFIX) secretWhsec) of
             Inl e \<Rightarrow> Inl e
           | Inr secret \<Rightarrow>
               if length secret < MIN_SECRET_BYTES \<or> length secret > MAX_SECRET_BYTES
               then Inl ''Standard Webhooks secret must decode to 24-64 bytes'' else Inr secret)"

definition isValidStandardWebhookSecret :: "string \<Rightarrow> bool" where
  "isValidStandardWebhookSecret secretWhsec \<longleftrightarrow> \<not> isl (decodeStandardWebhookSecret secretWhsec)"

definition digits_text :: "string \<Rightarrow> bool" where
  "digits_text s \<longleftrightarrow> s \<noteq> [] \<and> list_all is_dec s"

definition signStandardWebhook ::
  "(bytes \<Rightarrow> string \<Rightarrow> bytes) \<Rightarrow> string \<Rightarrow> string \<Rightarrow> string \<Rightarrow> string \<Rightarrow> string + string" where
  "signStandardWebhook hmac secretWhsec msgId tsSeconds rawBody =
     (if msgId = [] \<or> \<not> digits_text tsSeconds
      then Inl ''Standard Webhooks signing requires a message id and Unix-seconds timestamp''
      else case decodeStandardWebhookSecret secretWhsec of
             Inl e \<Rightarrow> Inl e
           | Inr secret \<Rightarrow> Inr (''v1,'' @ encodeBase64 (hmac secret (msgId @ ''.'' @ tsSeconds @ ''.'' @ rawBody))))"

text \<open>\<open>trim().split(/\s+/)\<close>.\<close>

fun split_ws :: "string \<Rightarrow> string list" where
  "split_ws [] = [[]]"
| "split_ws (c # s) =
     (if is_ws c then (case s of d # r \<Rightarrow> if is_ws d then split_ws s else [] # split_ws s | [] \<Rightarrow> [[], []])
      else case split_ws s of [] \<Rightarrow> [[c]] | p # ps \<Rightarrow> (c # p) # ps)"

text \<open>The loop over the code units of the expected signature.\<close>

definition difference :: "string \<Rightarrow> string \<Rightarrow> nat" where
  "difference expected candidate =
     foldl (\<lambda>acc i. acc OR (of_char (expected ! i) XOR of_char (candidate ! i))) 0 [0..<length expected]"

definition accepts :: "string \<Rightarrow> string \<Rightarrow> bool" where
  "accepts expected candidate \<longleftrightarrow>
     starts_with ''v1,'' candidate \<and> length candidate = length expected \<and> difference expected candidate = 0"

definition verifyStandardWebhook ::
  "(bytes \<Rightarrow> string \<Rightarrow> bytes) \<Rightarrow> string \<Rightarrow> string \<Rightarrow> string \<Rightarrow> string \<Rightarrow> string \<Rightarrow> int \<Rightarrow> int option \<Rightarrow> string + bool" where
  "verifyStandardWebhook hmac secretWhsec msgId tsSeconds rawBody signatureHeader now toleranceSeconds =
     (if \<not> digits_text tsSeconds then Inr False
      else let timestamp = int (read_dec tsSeconds);
               tolerance = (case toleranceSeconds of None \<Rightarrow> DEFAULT_TIMESTAMP_TOLERANCE_SECONDS | Some t \<Rightarrow> t)
           in if \<not> isSafeInteger timestamp \<or> \<not> isSafeInteger now \<or> \<not> isSafeInteger tolerance
                 \<or> tolerance < 0 \<or> \<bar>now - timestamp\<bar> > tolerance then Inr False
              else case signStandardWebhook hmac secretWhsec msgId tsSeconds rawBody of
                     Inl e \<Rightarrow> Inl e
                   | Inr expected \<Rightarrow> Inr (list_ex (accepts expected) (split_ws (trim signatureHeader))))"

subsection \<open>Base64 reads back what it prints\<close>

fun sextets_of :: "bytes \<Rightarrow> nat list" where
  "sextets_of [] = []"
| "sextets_of [a] = (let n = unat a * 16 in [n div 64, n mod 64])"
| "sextets_of [a, b] = (let n = (unat a * 256 + unat b) * 4 in [n div 4096, n div 64 mod 64, n mod 64])"
| "sextets_of (a # b # c # bs) =
     (let n = (unat a * 256 + unat b) * 256 + unat c
      in n div 262144 # n div 4096 mod 64 # n div 64 mod 64 # n mod 64 # sextets_of bs)"

definition pad_of :: "bytes \<Rightarrow> string" where
  "pad_of bs = replicate ((3 - length bs mod 3) mod 3) CHR ''=''"

lemma unat_byte: "unat (b :: 8 word) < 256"
  using unsigned_less [of b] by simp

lemma unat_byte_div [simp]: "unat (b :: 8 word) div 256 = 0" "unat (b :: 8 word) mod 256 = unat b"
  using unat_byte by simp_all

lemma pad_of_simps [simp]:
  "pad_of [] = []" "pad_of [a] = ''==''" "pad_of [a, b] = ''=''" "pad_of (a # b # c # bs) = pad_of bs"
proof -
  have "length (a # b # c # bs) = length bs + 3" by simp
  then show "pad_of (a # b # c # bs) = pad_of bs" by (simp only: pad_of_def mod_add_self2)
qed (simp_all add: pad_of_def numeral_2_eq_2)

lemma btoa_sextets: "btoa bs = map ((!) B64) (sextets_of bs) @ pad_of bs"
  by (induction bs rule: btoa.induct) (simp_all add: Let_def)

lemma low_byte: "(word_of_nat (k * 256 + unat b) :: 8 word) = b"
proof -
  have "unat (word_of_nat (k * 256 + unat b) :: 8 word) = unat b"
    by (simp only: unat_of_nat take_bit_eq_mod) simp
  then show ?thesis by (simp only: word_unat_eq_iff)
qed

lemma sextet3: "(x div 4096 * 64 + x div 64 mod 64) * 64 + x mod 64 = (x :: nat)"
proof -
  have "x div 4096 = x div 64 div 64" by (simp flip: div_mult2_eq)
  then show ?thesis by (simp only: div_mult_mod_eq)
qed

lemma sextet4: "((x div 262144 * 64 + x div 4096 mod 64) * 64 + x div 64 mod 64) * 64 + x mod 64 = (x :: nat)"
proof -
  have "x div 4096 = x div 64 div 64" "x div 262144 = x div 64 div 64 div 64" by (simp_all flip: div_mult2_eq)
  then show ?thesis by (simp only: div_mult_mod_eq)
qed

lemma sextets_sextets_of: "sextets (sextets_of bs) = Some bs"
proof (induction bs rule: sextets_of.induct)
  case (2 a)
  have "unat a * 16 div 64 * 64 + unat a * 16 mod 64 = unat a * 16" by (rule div_mult_mod_eq)
  then show ?case by (simp add: Let_def)
next
  case (3 a b)
  let ?m = "unat a * 256 + unat b"
  have "(?m * 4 div 4096 * 64 + ?m * 4 div 64 mod 64) * 64 + ?m * 4 mod 64 = ?m * 4" by (rule sextet3)
  moreover have "?m div 256 = unat a" using unat_byte [of b] by simp
  moreover have "?m * 4 div 4 = ?m" by simp
  ultimately show ?case by (simp only: sextets_of.simps sextets.simps Let_def low_byte) simp
next
  case (4 a b c bs)
  let ?m = "(unat a * 256 + unat b) * 256 + unat c"
  have "((?m div 262144 * 64 + ?m div 4096 mod 64) * 64 + ?m div 64 mod 64) * 64 + ?m mod 64 = ?m" by (rule sextet4)
  moreover have "?m div 65536 = unat a" using unat_byte [of b] unat_byte [of c] by simp
  moreover have "(word_of_nat (?m div 256) :: 8 word) = b"
  proof -
    have "?m div 256 = unat a * 256 + unat b" using unat_byte [of c] by simp
    then show ?thesis by (simp only: low_byte)
  qed
  moreover have "(word_of_nat ?m :: 8 word) = c" by (rule low_byte)
  ultimately show ?case using 4 by (simp only: sextets_of.simps sextets.simps Let_def) (simp del: of_nat_add of_nat_mult)
qed simp


lemma sextets_of_bound: "n \<in> set (sextets_of bs) \<Longrightarrow> n < 64"
proof (induction bs rule: sextets_of.induct)
  case (2 a)
  then show ?case using unat_byte [of a] by (auto simp: Let_def)
next
  case (3 a b)
  then show ?case using unat_byte [of a] unat_byte [of b] by (auto simp: Let_def)
next
  case (4 a b c bs)
  then show ?case using unat_byte [of a] unat_byte [of b] unat_byte [of c] by (auto simp: Let_def)
qed simp

lemma B64_facts: "distinct B64" "length B64 = 64" "CHR ''='' \<notin> set B64" "list_all (\<lambda>c. \<not> is_ws c) B64"
  by (simp_all add: B64_def is_ws_def)

lemma length_btoa: "length (btoa bs) mod 4 = 0"
proof (induction bs rule: btoa.induct)
  case (4 a b c bs)
  have "length (btoa (a # b # c # bs)) = length (btoa bs) + 4" by (simp add: Let_def)
  with 4 show ?case by simp
qed (simp_all add: Let_def)

definition body_of :: "bytes \<Rightarrow> string" where
  "body_of bs = map ((!) B64) (sextets_of bs)"

lemma body_of_B64: "set (body_of bs) \<subseteq> set B64"
  using sextets_of_bound B64_facts(2) by (auto simp: body_of_def)

lemma drop_eq_body: "drop_eq (body_of bs) = body_of bs"
  using body_of_B64 [of bs] B64_facts(3) by (auto simp: drop_eq_def ends_with_iff)

lemma drop_eq_snoc: "drop_eq (s @ ''='') = s"
  by (simp add: drop_eq_def ends_with_iff)

lemma atob_btoa: "atob (btoa bs) = Some bs"
proof -
  have "pad_of bs \<in> {[], ''='', ''==''}"
    by (induction bs rule: btoa.induct) simp_all
  then have "drop_eq (drop_eq (btoa bs)) = body_of bs"
    using drop_eq_snoc [of "body_of bs @ ''=''"] drop_eq_snoc [of "body_of bs"]
    by (auto simp: btoa_sextets body_of_def [symmetric] drop_eq_body)
  moreover have "map (\<lambda>c. index_of c B64) (body_of bs) = map Some (sextets_of bs)"
    using sextets_of_bound B64_facts(1,2) by (simp add: body_of_def index_of_nth)
  moreover have "None \<notin> set (map Some (sextets_of bs))" "map the (map Some (sextets_of bs)) = sextets_of bs"
    by (auto simp: comp_def)
  ultimately show ?thesis unfolding atob_def Let_def length_btoa by (simp only: if_True if_False refl sextets_sextets_of)
qed

lemma decode_encode: "decodeBase64 (encodeBase64 bs) = Inr bs"
proof -
  have pad: "pad_of bs \<in> {[], ''='', ''==''}" by (induction bs rule: btoa.induct) simp_all
  have split: "btoa bs = body_of bs @ pad_of bs" by (simp add: btoa_sextets body_of_def)
  have "\<not> is_ws c" if "c \<in> set (btoa bs)" for c
    using that pad body_of_B64 [of bs] B64_facts(4) unfolding split by (auto simp: list_all_iff is_ws_def)
  then have norm: "filter (\<lambda>c. \<not> is_ws c) (btoa bs) = btoa bs" by (simp add: filter_id_conv)
  have "takeWhile (\<lambda>c. c \<in> set B64) (btoa bs) = body_of bs"
  proof -
    have "takeWhile (\<lambda>c. c \<in> set B64) (pad_of bs) = []" using pad B64_facts(3) by auto
    then show ?thesis unfolding split using body_of_B64 [of bs] by (subst takeWhile_append2) auto
  qed
  then have "b64_text (btoa bs)" using pad by (auto simp: b64_text_def Let_def split)
  moreover have "(length (btoa bs) + 3) div 4 * 4 = length (btoa bs)" using length_btoa [of bs] by presburger
  ultimately show ?thesis
    by (simp add: decodeBase64_def encodeBase64_def Let_def norm pad_end_def atob_btoa)
qed

subsection \<open>What verification accepts\<close>

lemma xor_zero: "(a :: nat) XOR b = 0 \<longleftrightarrow> a = b"
  by (auto simp: bit_eq_iff bit_simps)

lemma or_zero: "(a :: nat) OR b = 0 \<longleftrightarrow> a = 0 \<and> b = 0"
  by (auto simp: bit_eq_iff bit_simps)

lemma foldl_or_zero: "foldl (\<lambda>acc i. acc OR f i) (a :: nat) is = 0 \<longleftrightarrow> a = 0 \<and> list_all (\<lambda>i. f i = 0) is"
  by (induction "is" arbitrary: a) (auto simp: or_zero)

lemma difference_zero:
  assumes "length candidate = length expected"
  shows "difference expected candidate = 0 \<longleftrightarrow> candidate = expected"
proof -
  have "difference expected candidate = 0
      \<longleftrightarrow> (\<forall>i < length expected. (of_char (expected ! i) :: nat) = of_char (candidate ! i))"
    by (auto simp: difference_def foldl_or_zero xor_zero list_all_iff)
  also have "\<dots> \<longleftrightarrow> candidate = expected" using assms by (auto simp: list_eq_iff_nth_eq)
  finally show ?thesis .
qed

lemma accepts_iff: "starts_with ''v1,'' expected \<Longrightarrow> accepts expected candidate \<longleftrightarrow> candidate = expected"
  using difference_zero by (auto simp: accepts_def)

definition whsec :: "bytes \<Rightarrow> string" where
  "whsec secret = STANDARD_WEBHOOK_SECRET_PREFIX @ encodeBase64 secret"

lemma decode_whsec:
  "MIN_SECRET_BYTES \<le> length secret \<Longrightarrow> length secret \<le> MAX_SECRET_BYTES \<Longrightarrow>
   decodeStandardWebhookSecret (whsec secret) = Inr secret"
  by (simp add: decodeStandardWebhookSecret_def whsec_def decode_encode)

definition fresh_timestamp :: "string \<Rightarrow> int \<Rightarrow> int \<Rightarrow> bool" where
  "fresh_timestamp ts now tolerance \<longleftrightarrow>
     list_all isSafeInteger [int (read_dec ts), now, tolerance] \<and> \<bar>now - int (read_dec ts)\<bar> \<le> tolerance"

text \<open>C17: With any secret of 24 to 64 bytes, printed as \<open>whsec_\<close> and its base64, verification accepts exactly the
  headers that carry the signature of that id, timestamp and body among their candidates, and only while the
  timestamp is within the tolerance of the clock; the comparison that never stops early is equality.\<close>
theorem webhook_verification_exact:
  assumes "MIN_SECRET_BYTES \<le> length secret" "length secret \<le> MAX_SECRET_BYTES" "msgId \<noteq> []" "digits_text ts"
  shows "verifyStandardWebhook hmac (whsec secret) msgId ts body header now tolerance
    = Inr (fresh_timestamp ts now (case tolerance of None \<Rightarrow> 300 | Some t \<Rightarrow> t)
      \<and> ''v1,'' @ btoa (hmac secret (msgId @ ''.'' @ ts @ ''.'' @ body)) \<in> set (split_ws (trim header)))"
proof -
  define expected where "expected = ''v1,'' @ btoa (hmac secret (msgId @ ''.'' @ ts @ ''.'' @ body))"
  have sign: "signStandardWebhook hmac (whsec secret) msgId ts body = Inr expected"
    using assms by (simp add: signStandardWebhook_def decode_whsec expected_def encodeBase64_def)
  have "list_ex (accepts expected) xs \<longleftrightarrow> expected \<in> set xs" for xs
  proof -
    have "starts_with ''v1,'' expected" unfolding expected_def by (rule starts_with_append)
    then show ?thesis using accepts_iff by (auto simp: list_ex_iff)
  qed
  then have "verifyStandardWebhook hmac (whsec secret) msgId ts body header now tolerance
    = Inr (fresh_timestamp ts now (case tolerance of None \<Rightarrow> 300 | Some t \<Rightarrow> t) \<and> expected \<in> set (split_ws (trim header)))"
    using assms(4)
    by (auto simp: verifyStandardWebhook_def sign Let_def fresh_timestamp_def DEFAULT_TIMESTAMP_TOLERANCE_SECONDS_def
      split: option.split)
  then show ?thesis by (simp only: expected_def)
qed

theorem webhook_verification_exact_witness:
  "verifyStandardWebhook (\<lambda>k m. [1, 2, 3]) (whsec (replicate 24 7)) ''m'' ''1000'' ''{}'' ''v1,x v1,AQID'' 1300 None = Inr True
   \<and> verifyStandardWebhook (\<lambda>k m. [1, 2, 3]) (whsec (replicate 24 7)) ''m'' ''1000'' ''{}'' ''v1,x v1,AQID'' 1301 None = Inr False"
proof -
  have d: "digits_text ''1000''" "read_dec ''1000'' = 1000" by (simp_all add: digits_text_def is_dec_def read_dec_def)
  have h: "split_ws (trim ''v1,x v1,AQID'') = [''v1,x'', ''v1,AQID'']" by code_simp
  have b: "btoa [1, 2, 3] = ''AQID''" by (simp add: B64_def Let_def)
  show ?thesis
    using webhook_verification_exact [of "replicate 24 7" "''m''" "''1000''" "\<lambda>k m. [1, 2, 3]" "''{}''" "''v1,x v1,AQID''" 1300 None]
      webhook_verification_exact [of "replicate 24 7" "''m''" "''1000''" "\<lambda>k m. [1, 2, 3]" "''{}''" "''v1,x v1,AQID''" 1301 None]
    by (simp add: d h b B64_def MIN_SECRET_BYTES_def MAX_SECRET_BYTES_def fresh_timestamp_def isSafeInteger_def)
qed

end
