(* ===== verification/Webhooks.thy ===== *)
theory Webhooks
  imports EventOutbox Ssrf StandardWebhook
begin

text \<open>
  Delivery of an event to its subscribers (\<open>engine/eventDelivery.ts\<close>): filters, headers and signatures, the
  attempt and how its answer is judged, the rows that make it durable, one pass over an event, and replay.
  Fetch moves an unknown world \<open>'w\<close>; the URL parser, the digests and \<open>toISOString\<close> are parameters, gathered in
  the record \<open>platform\<close>. The requests of one pass, which the code runs at once, are run in the order of the rows.
\<close>

definition DELIVERY_LEASE_MS :: int where "DELIVERY_LEASE_MS = 60000"
definition MAX_DELIVERY_ATTEMPTS :: int where "MAX_DELIVERY_ATTEMPTS = 7"
definition MAX_WEBHOOK_BYTES :: nat where "MAX_WEBHOOK_BYTES = 256 * 1024"

definition WEBHOOK_RETRY_DELAYS_MS :: "int list" where
  "WEBHOOK_RETRY_DELAYS_MS = [30000, 2 * 60000, 10 * 60000, 30 * 60000, 60 * 60000, 2 * 60 * 60000]"

record delivery_target =
  dt_id :: id
  dt_url :: string
  dt_secret :: "string option"
  dt_signatureScheme :: signature_scheme
  dt_headers :: "(string \<times> string) list option"
  dt_filter :: "event_filter option"

record attempt_result =
  ar_ok :: bool
  ar_retryable :: bool
  ar_status :: "int option"
  ar_error :: "string option"

record delivery_summary =
  ds_attempted :: nat
  ds_succeeded :: nat
  ds_failed :: nat
  ds_retryableFailures :: nat
  ds_deadLettered :: nat
  ds_nextRetryAt :: "ms option"

definition emptySummary :: delivery_summary where
  "emptySummary = \<lparr>ds_attempted = 0, ds_succeeded = 0, ds_failed = 0, ds_retryableFailures = 0, ds_deadLettered = 0,
     ds_nextRetryAt = None\<rparr>"

text \<open>A request and what comes of it: the thrown error, or the status of the response.\<close>

record request =
  rq_url :: string
  rq_headers :: "(string \<times> string) list"
  rq_body :: string

type_synonym 'w fetch = "request \<Rightarrow> 'w \<Rightarrow> (string + int) \<times> 'w"

record platform =
  pf_parseUrl :: "string \<Rightarrow> parsed_url option"
  pf_hmac :: "bytes \<Rightarrow> string \<Rightarrow> bytes"
  pf_hmacSha256Hex :: "string \<Rightarrow> string \<Rightarrow> string"
  pf_sha256Hex :: "string \<Rightarrow> string"
  pf_toISOString :: "ms \<Rightarrow> string"

text \<open>The coded errors of this module, with the diagnostic \<open>retry_after_ms\<close> when there is one.\<close>

datatype delivery_error = DeliveryError coded "int option"

definition retryable_failure :: "int option \<Rightarrow> delivery_error" where
  "retryable_failure retryAfterMs = DeliveryError (codedError ''event_delivery_retryable_failure'' 503) retryAfterMs"

definition requireSafeFetch :: "'w fetch option \<Rightarrow> delivery_error + 'w fetch" where
  "requireSafeFetch fetchImpl =
     (case fetchImpl of
        Some f \<Rightarrow> Inr f
      | None \<Rightarrow> Inl (DeliveryError (codedError ''event_delivery_fetch_required'' 503) None))"

subsection \<open>Filters\<close>

fun js_truthy :: "json \<Rightarrow> bool" where
  "js_truthy JNull = False"
| "js_truthy (JBool b) = b"
| "js_truthy (JNum n) = (n \<noteq> ''0'')"
| "js_truthy (JStr s) = (s \<noteq> [])"
| "js_truthy (JArr vs) = True"
| "js_truthy (JObj kvs) = True"

text \<open>\<open>String(value)\<close>, as a regular expression takes its argument.\<close>

fun js_text :: "json \<Rightarrow> string" where
  "js_text JNull = ''null''"
| "js_text (JBool b) = (if b then ''true'' else ''false'')"
| "js_text (JNum n) = n"
| "js_text (JStr s) = s"
| "js_text (JArr vs) = join '','' (map (\<lambda>v. if v = JNull then [] else js_text v) vs)"
| "js_text (JObj kvs) = ''[object Object]''"

definition property :: "string \<Rightarrow> (string \<times> json) list \<Rightarrow> json option" where
  "property k payload = (case map_of payload k of Some v \<Rightarrow> (if js_truthy v then Some v else None) | None \<Rightarrow> None)"

definition word_char :: "char \<Rightarrow> bool" where
  "word_char c \<longleftrightarrow> c \<in> set ''abcdefghijklmnopqrstuvwxyzABCDEFGHIJKLMNOPQRSTUVWXYZ0123456789_''"

text \<open>The pattern: an at sign, the name, and then a word boundary or the end of the text.\<close>

definition boundary_after :: "char \<Rightarrow> string \<Rightarrow> bool" where
  "boundary_after c rest = (case rest of [] \<Rightarrow> True | d # _ \<Rightarrow> word_char c \<noteq> word_char d)"

fun mentioned :: "string \<Rightarrow> string \<Rightarrow> bool" where
  "mentioned m [] = False"
| "mentioned m (c # s) =
     ((starts_with (CHR ''@'' # m) (c # s) \<and> boundary_after (last m) (drop (length m) s)) \<or> mentioned m s)"

definition matchesFilter :: "event_filter option \<Rightarrow> (string \<times> json) list \<Rightarrow> bool" where
  "matchesFilter flt payload =
     (case flt of
        None \<Rightarrow> True
      | Some f \<Rightarrow>
          (case truthy (ef_channel f) of
             None \<Rightarrow> True
           | Some channel \<Rightarrow>
               (case property ''channel_name'' payload of
                  Some v \<Rightarrow> v = JStr channel
                | None \<Rightarrow> property ''channel'' payload = Some (JStr channel)))
          \<and> (case truthy (ef_mentions f) of
               None \<Rightarrow> True
             | Some m \<Rightarrow> mentioned m (case property ''text'' payload of Some v \<Rightarrow> js_text v | None \<Rightarrow> [])))"

subsection \<open>Headers\<close>

definition reserved_header :: "string \<Rightarrow> bool" where
  "reserved_header name \<longleftrightarrow>
     (let lower = toLowerCase name
      in lower = ''content-type'' \<or> starts_with ''x-relay-'' lower \<or> starts_with ''webhook-'' lower
         \<or> lower = ''x-forward-to'' \<or> lower = ''x-proxy-auth'')"

definition publicDeliveryHeaders :: "(string \<times> string) list option \<Rightarrow> (string \<times> string) list" where
  "publicDeliveryHeaders headers =
     (case headers of None \<Rightarrow> [] | Some hs \<Rightarrow> filter (\<lambda>(name, v). \<not> reserved_header name) hs)"

text \<open>Setting a property of an object keeps its place.\<close>

fun set_prop :: "string \<Rightarrow> string \<Rightarrow> (string \<times> string) list \<Rightarrow> (string \<times> string) list" where
  "set_prop k v [] = [(k, v)]"
| "set_prop k v ((l, w) # kvs) = (if l = k then (k, v) # kvs else (l, w) # set_prop k v kvs)"

definition signPayload :: "platform \<Rightarrow> string \<Rightarrow> string \<Rightarrow> string" where
  "signPayload pf payload secret = pf_hmacSha256Hex pf payload secret"

definition stableDeliveryId :: "platform \<Rightarrow> id \<Rightarrow> id \<Rightarrow> id" where
  "stableDeliveryId pf eventId subscriptionId = ''whd_'' @ take 32 (pf_sha256Hex pf (eventId @ CHR 0x00 # subscriptionId))"

definition base_headers :: "platform \<Rightarrow> delivery_target \<Rightarrow> string \<Rightarrow> id \<Rightarrow> ms \<Rightarrow> (string \<times> string) list" where
  "base_headers pf target eventType deliveryId now =
     set_prop ''webhook-id'' deliveryId (set_prop ''X-Relay-Timestamp'' (pf_toISOString pf now)
       (set_prop ''X-Relay-Event'' eventType (set_prop ''Content-Type'' ''application/json''
         (publicDeliveryHeaders (dt_headers target)))))"

definition buildDeliveryHeaders ::
  "platform \<Rightarrow> delivery_target \<Rightarrow> string \<Rightarrow> id \<Rightarrow> string \<Rightarrow> ms \<Rightarrow> string + (string \<times> string) list" where
  "buildDeliveryHeaders pf target eventType deliveryId body now =
     (let headers = base_headers pf target eventType deliveryId now
      in case truthy (dt_secret target) of
           None \<Rightarrow> Inr headers
         | Some secret \<Rightarrow>
             if dt_signatureScheme target = StandardWebhooks
             then let timestampSeconds = show_dec (nat (now div 1000))
                  in case signStandardWebhook (pf_hmac pf) secret deliveryId timestampSeconds body of
                       Inl e \<Rightarrow> Inl e
                     | Inr signature \<Rightarrow>
                         Inr (set_prop ''webhook-signature'' signature (set_prop ''webhook-timestamp'' timestampSeconds headers))
             else Inr (set_prop ''X-Relay-Signature'' (''sha256='' @ signPayload pf body secret) headers))"

text \<open>\<open>new Headers(headers)\<close> throws on a name that is no token or a value with a NUL or a line break inside.\<close>

definition token_char :: "char \<Rightarrow> bool" where
  "token_char c \<longleftrightarrow> c \<in> set ''!#$%&*+-.^_`|~0123456789abcdefghijklmnopqrstuvwxyzABCDEFGHIJKLMNOPQRSTUVWXYZ'' \<or> c = CHR 0x27"

definition http_space :: "char \<Rightarrow> bool" where
  "http_space c \<longleftrightarrow> c \<in> {CHR 0x09, CHR 0x0A, CHR 0x0D, CHR 0x20}"

definition valid_headers :: "(string \<times> string) list \<Rightarrow> bool" where
  "valid_headers hs \<longleftrightarrow>
     list_all (\<lambda>(name, v). name \<noteq> [] \<and> list_all token_char name
       \<and> list_all (\<lambda>c. c \<notin> {CHR 0x00, CHR 0x0A, CHR 0x0D}) (rev (dropWhile http_space (rev (dropWhile http_space v))))) hs"

subsection \<open>One attempt\<close>

definition refused :: "int option \<Rightarrow> string \<Rightarrow> attempt_result" where
  "refused status err = \<lparr>ar_ok = False, ar_retryable = False, ar_status = status, ar_error = Some err\<rparr>"

definition judge :: "string + int \<Rightarrow> attempt_result" where
  "judge answer =
     (case answer of
        Inl e \<Rightarrow> \<lparr>ar_ok = False, ar_retryable = True, ar_status = None, ar_error = Some e\<rparr>
      | Inr status \<Rightarrow>
          let err = ''HTTP '' @ show_dec (nat status)
          in if 200 \<le> status \<and> status < 300 then \<lparr>ar_ok = True, ar_retryable = False, ar_status = Some status, ar_error = None\<rparr>
             else if status \<ge> 300 \<and> status < 400 then refused (Some status) err
             else if status = 410 \<or> status = 413 then refused (Some status) err
             else if status \<ge> 400 \<and> status < 500 \<and> status \<noteq> 408 \<and> status \<noteq> 429 then refused (Some status) err
             else \<lparr>ar_ok = False, ar_retryable = True, ar_status = Some status, ar_error = Some err\<rparr>)"

definition byteLength :: "string \<Rightarrow> nat" where
  "byteLength s = sum_list (map (\<lambda>c. if (of_char c :: nat) < 128 then 1 else 2) s)"

definition attemptDelivery ::
  "platform \<Rightarrow> 'w fetch \<Rightarrow> delivery_target \<Rightarrow> string \<Rightarrow> id \<Rightarrow> string \<Rightarrow> ms \<Rightarrow> 'w \<Rightarrow> attempt_result \<times> 'w" where
  "attemptDelivery pf fetchImpl target eventType deliveryId body now w =
     (if byteLength body > MAX_WEBHOOK_BYTES then (refused (Some 413) ''payload exceeds 256 KiB'', w)
      else if \<not> isSafeExternalUrl (pf_parseUrl pf) (dt_url target) True True then (refused None ''unsafe webhook URL'', w)
      else case buildDeliveryHeaders pf target eventType deliveryId body now of
             Inl e \<Rightarrow> (refused None e, w)
           | Inr headers \<Rightarrow>
               if \<not> valid_headers headers then (refused None ''invalid header'', w)
               else case fetchImpl \<lparr>rq_url = dt_url target, rq_headers = headers, rq_body = body\<rparr> w of
                      (answer, w) \<Rightarrow> (judge answer, w))"

subsection \<open>Delivery rows\<close>

definition delivery_target_of :: "subscription_row \<Rightarrow> delivery_target" where
  "delivery_target_of r =
     \<lparr>dt_id = es_id r, dt_url = es_url r, dt_secret = es_secret r, dt_signatureScheme = es_signatureScheme r,
      dt_headers = es_headers r, dt_filter = es_filter r\<rparr>"

definition activeTargets :: "outbox \<Rightarrow> id \<Rightarrow> string \<Rightarrow> delivery_target list" where
  "activeTargets db workspaceId eventType = map delivery_target_of (getActiveSubscriptions db workspaceId eventType)"

definition new_delivery :: "platform \<Rightarrow> id \<Rightarrow> ms \<Rightarrow> delivery_target \<Rightarrow> webhook_row" where
  "new_delivery pf eventId now target =
     \<lparr>wd_id = stableDeliveryId pf eventId (dt_id target), wd_eventId = eventId, wd_subscriptionId = dt_id target,
      wd_status = WhPending, wd_attempts = 0, wd_nextAttemptAt = toSec now, wd_lastError = None, wd_lastStatus = None,
      wd_createdAt = toSec now, wd_completedAt = None\<rparr>"

text \<open>\<open>ON CONFLICT DO NOTHING\<close>, on the primary key and on the unique pair of event and subscription.\<close>

definition delivery_conflicts :: "webhook_row \<Rightarrow> webhook_row \<Rightarrow> bool" where
  "delivery_conflicts d e \<longleftrightarrow> wd_id d = wd_id e \<or> (wd_eventId d = wd_eventId e \<and> wd_subscriptionId d = wd_subscriptionId e)"

definition insert_unless_conflict :: "webhook_row \<Rightarrow> webhook_row list \<Rightarrow> webhook_row list" where
  "insert_unless_conflict d rows = (if list_ex (delivery_conflicts d) rows then rows else rows @ [d])"

definition initializePersistentDeliveries ::
  "platform \<Rightarrow> id \<Rightarrow> delivery_target list \<Rightarrow> ms \<Rightarrow> outbox \<Rightarrow> bool \<times> outbox" where
  "initializePersistentDeliveries pf eventId targets now db =
     (case first_row (filter (\<lambda>e. pe_id e = eventId) (pendingEvents db)) of
        None \<Rightarrow> (False, db)
      | Some parent \<Rightarrow>
          if pe_webhookInitialized parent then (True, db)
          else (True, upd_events (\<lambda>e. pe_id e = eventId) (\<lambda>e. e\<lparr>pe_webhookInitialized := True\<rparr>)
                 (db\<lparr>webhookDeliveries := fold insert_unless_conflict (map (new_delivery pf eventId now) targets)
                       (webhookDeliveries db)\<rparr>)))"

definition claimable :: "id \<Rightarrow> ms \<Rightarrow> webhook_row \<Rightarrow> bool" where
  "claimable did now d \<longleftrightarrow>
     wd_id d = did \<and> wd_status d = WhPending \<and> wd_nextAttemptAt d \<le> toSec now \<and> wd_attempts d < MAX_DELIVERY_ATTEMPTS"

definition claim_row :: "ms \<Rightarrow> webhook_row \<Rightarrow> webhook_row" where
  "claim_row now d =
     d\<lparr>wd_attempts := wd_attempts d + 1, wd_nextAttemptAt := toSec (now + DELIVERY_LEASE_MS), wd_lastError := None\<rparr>"

definition claimDelivery :: "id \<Rightarrow> ms \<Rightarrow> outbox \<Rightarrow> webhook_row option \<times> outbox" where
  "claimDelivery did now db =
     (first_row (returning (claimable did now) (claim_row now) (webhookDeliveries db)),
      upd_hooks (claimable did now) (claim_row now) db)"

definition spent :: "id \<Rightarrow> ms \<Rightarrow> webhook_row \<Rightarrow> bool" where
  "spent eventId now d \<longleftrightarrow>
     wd_eventId d = eventId \<and> wd_status d = WhPending \<and> wd_nextAttemptAt d \<le> toSec now
     \<and> wd_attempts d \<ge> MAX_DELIVERY_ATTEMPTS"

definition deadLetterExpiredFinalAttempts :: "id \<Rightarrow> ms \<Rightarrow> outbox \<Rightarrow> outbox" where
  "deadLetterExpiredFinalAttempts eventId now =
     upd_hooks (spent eventId now)
       (\<lambda>d. d\<lparr>wd_status := WhDeadLetter, wd_lastError := Some ''attempts exhausted after delivery lease expired'',
              wd_completedAt := Some (toSec now)\<rparr>)"

definition unavailable :: "id \<Rightarrow> ms \<Rightarrow> webhook_row \<Rightarrow> bool" where
  "unavailable did now d \<longleftrightarrow> wd_id d = did \<and> wd_status d = WhPending \<and> wd_nextAttemptAt d \<le> toSec now"

definition failUnavailableDelivery :: "id \<Rightarrow> ms \<Rightarrow> outbox \<Rightarrow> outbox" where
  "failUnavailableDelivery did now =
     upd_hooks (unavailable did now)
       (\<lambda>d. d\<lparr>wd_status := WhFailed, wd_lastError := Some ''subscription inactive or no longer matches this event'',
              wd_completedAt := Some (toSec now)\<rparr>)"

text \<open>The row as the claim returned it is the token of the claim.\<close>

definition ownsClaim :: "webhook_row \<Rightarrow> webhook_row \<Rightarrow> bool" where
  "ownsClaim delivery d \<longleftrightarrow>
     wd_id d = wd_id delivery \<and> wd_status d = WhPending \<and> wd_attempts d = wd_attempts delivery
     \<and> wd_nextAttemptAt d = wd_nextAttemptAt delivery"

definition settled_row :: "webhook_row \<Rightarrow> attempt_result \<Rightarrow> ms \<Rightarrow> webhook_row \<Rightarrow> webhook_row" where
  "settled_row delivery result now d =
     (if ar_ok result
      then d\<lparr>wd_status := WhSucceeded, wd_lastStatus := ar_status result, wd_lastError := None, wd_completedAt := Some (toSec now)\<rparr>
      else if \<not> ar_retryable result
      then d\<lparr>wd_status := WhFailed, wd_lastStatus := ar_status result, wd_lastError := ar_error result,
             wd_completedAt := Some (toSec now)\<rparr>
      else if wd_attempts delivery \<ge> MAX_DELIVERY_ATTEMPTS
      then d\<lparr>wd_status := WhDeadLetter, wd_lastStatus := ar_status result, wd_lastError := ar_error result,
             wd_completedAt := Some (toSec now)\<rparr>
      else d\<lparr>wd_nextAttemptAt := toSec (now + WEBHOOK_RETRY_DELAYS_MS ! nat (wd_attempts delivery - 1)),
             wd_lastStatus := ar_status result, wd_lastError := ar_error result\<rparr>)"

definition settleDelivery :: "webhook_row \<Rightarrow> attempt_result \<Rightarrow> ms \<Rightarrow> outbox \<Rightarrow> outbox" where
  "settleDelivery delivery result now = upd_hooks (ownsClaim delivery) (settled_row delivery result now)"

subsection \<open>Delivering an event\<close>

fun attempt_all ::
  "platform \<Rightarrow> 'w fetch \<Rightarrow> string \<Rightarrow> string \<Rightarrow> ms \<Rightarrow> (id \<times> delivery_target) list \<Rightarrow> 'w \<Rightarrow> attempt_result list \<times> 'w" where
  "attempt_all pf f eventType body now [] w = ([], w)"
| "attempt_all pf f eventType body now ((did, target) # ts) w =
     (case attemptDelivery pf f target eventType did body now w of
        (r, w) \<Rightarrow> (case attempt_all pf f eventType body now ts w of (rs, w) \<Rightarrow> (r # rs, w)))"

text \<open>\<open>uuids\<close> are the random identifiers of the requests.\<close>

definition deliverWithoutPersistence ::
  "platform \<Rightarrow> (nat \<Rightarrow> string) \<Rightarrow> outbox \<Rightarrow> id \<Rightarrow> string \<Rightarrow> (string \<times> json) list \<Rightarrow> string \<Rightarrow> ms \<Rightarrow> 'w fetch option \<Rightarrow> 'w
   \<Rightarrow> (delivery_error + delivery_summary) \<times> 'w" where
  "deliverWithoutPersistence pf uuids db workspaceId eventType payload eventBody now fetchImpl w =
     (let targets = filter (\<lambda>t. matchesFilter (dt_filter t) payload) (activeTargets db workspaceId eventType)
      in if targets = [] then (Inr emptySummary, w)
         else case requireSafeFetch fetchImpl of
                Inl e \<Rightarrow> (Inl e, w)
              | Inr safeFetch \<Rightarrow>
                  let ids = map (\<lambda>i. ''whd_'' @ uuids i) [0..<length targets];
                      (results, w) = attempt_all pf safeFetch eventType eventBody now (zip ids targets) w;
                      succeeded = length (filter ar_ok results)
                  in if list_ex (\<lambda>r. \<not> ar_ok r \<and> ar_retryable r) results then (Inl (retryable_failure None), w)
                     else (Inr \<lparr>ds_attempted = length results, ds_succeeded = succeeded,
                       ds_failed = length results - succeeded, ds_retryableFailures = 0, ds_deadLettered = 0,
                       ds_nextRetryAt = None\<rparr>, w))"

definition due_row :: "ms \<Rightarrow> webhook_row \<Rightarrow> bool" where
  "due_row now d \<longleftrightarrow> wd_status d = WhPending \<and> wd_nextAttemptAt d * 1000 \<le> now"

definition target_of :: "delivery_target list \<Rightarrow> webhook_row \<Rightarrow> delivery_target option" where
  "target_of targets d = find (\<lambda>t. dt_id t = wd_subscriptionId d) (rev targets)"

text \<open>One due row that has a target: claim it, attempt it, settle it.\<close>

definition deliver_row ::
  "platform \<Rightarrow> 'w fetch \<Rightarrow> delivery_target list \<Rightarrow> string \<Rightarrow> string \<Rightarrow> ms \<Rightarrow> webhook_row \<Rightarrow> outbox \<times> 'w \<Rightarrow> outbox \<times> 'w" where
  "deliver_row pf safeFetch targets eventType body now d s =
     (case s of (db, w) \<Rightarrow>
       if \<not> due_row now d then (db, w)
       else case target_of targets d of
              None \<Rightarrow> (db, w)
            | Some target \<Rightarrow>
                (case claimDelivery (wd_id d) now db of
                   (None, db) \<Rightarrow> (db, w)
                 | (Some claimed, db) \<Rightarrow>
                     (case attemptDelivery pf safeFetch target eventType (wd_id claimed) body now w of
                        (result, w) \<Rightarrow> (settleDelivery claimed result now db, w))))"

definition deliveries_of :: "outbox \<Rightarrow> id \<Rightarrow> webhook_row list" where
  "deliveries_of db eventId = filter (\<lambda>d. wd_eventId d = eventId) (webhookDeliveries db)"

definition summarize :: "ms \<Rightarrow> webhook_row list \<Rightarrow> delivery_error + delivery_summary" where
  "summarize now rows =
     (let pending = filter (\<lambda>d. wd_status d = WhPending) rows;
          dead = length (filter (\<lambda>d. wd_status d = WhDeadLetter) rows);
          failed = length (filter (\<lambda>d. wd_status d = WhFailed \<or> wd_status d = WhDeadLetter) rows);
          succeeded = length (filter (\<lambda>d. wd_status d = WhSucceeded) rows)
      in if pending \<noteq> []
         then let nextRetryAt = fold (\<lambda>d earliest. if wd_nextAttemptAt d < earliest then wd_nextAttemptAt d else earliest)
                    pending (wd_nextAttemptAt (hd pending))
              in Inl (retryable_failure (Some (max 0 (nextRetryAt * 1000 - now))))
         else Inr \<lparr>ds_attempted = length rows, ds_succeeded = succeeded, ds_failed = failed, ds_retryableFailures = 0,
                   ds_deadLettered = dead, ds_nextRetryAt = None\<rparr>)"

definition persistent_pass ::
  "platform \<Rightarrow> 'w fetch option \<Rightarrow> delivery_target list \<Rightarrow> string \<Rightarrow> string \<Rightarrow> id \<Rightarrow> ms \<Rightarrow> outbox \<Rightarrow> 'w
   \<Rightarrow> (delivery_error + delivery_summary) \<times> outbox \<times> 'w" where
  "persistent_pass pf fetchImpl targets eventType body eventId now db w =
     (let db = deadLetterExpiredFinalAttempts eventId now db;
          rows = deliveries_of db eventId
      in if rows = [] then (Inr emptySummary, db, w)
         else let dueRows = filter (due_row now) rows;
                  db = fold (\<lambda>d. failUnavailableDelivery (wd_id d) now) (filter (\<lambda>d. target_of targets d = None) dueRows) db;
                  go = (\<lambda>safeFetch. let (db, w) = fold (deliver_row pf safeFetch targets eventType body now) rows (db, w)
                                    in (summarize now (deliveries_of db eventId), db, w))
              in if list_ex (\<lambda>d. target_of targets d \<noteq> None) dueRows
                 then (case requireSafeFetch fetchImpl of Inl e \<Rightarrow> (Inl e, db, w) | Inr safeFetch \<Rightarrow> go safeFetch)
                 else go (\<lambda>rq w. (Inl ''undefined'', w)))"

definition event_body :: "platform \<Rightarrow> string \<Rightarrow> id \<Rightarrow> ms \<Rightarrow> (string \<times> json) list \<Rightarrow> string" where
  "event_body pf eventType workspaceId eventTimestamp payload =
     ser (JObj [(''type'', JStr eventType), (''workspace_id'', JStr workspaceId),
       (''timestamp'', JStr (pf_toISOString pf eventTimestamp)), (''data'', JObj payload)])"

definition deliverEvent ::
  "platform \<Rightarrow> (nat \<Rightarrow> string) \<Rightarrow> id \<Rightarrow> string \<Rightarrow> (string \<times> json) list \<Rightarrow> id option \<Rightarrow> ms option \<Rightarrow> 'w fetch option \<Rightarrow> ms
   \<Rightarrow> outbox \<Rightarrow> 'w \<Rightarrow> (delivery_error + delivery_summary) \<times> outbox \<times> 'w" where
  "deliverEvent pf uuids workspaceId eventType payload eventId eventTimestamp fetchImpl now db w =
     (let eventId = truthy eventId;
          created = (case eventId of None \<Rightarrow> None | Some eid \<Rightarrow>
            map_option (\<lambda>e. pe_createdAt e * 1000) (first_row (filter (\<lambda>e. pe_id e = eid) (pendingEvents db))));
          timestampSource = (case eventTimestamp of Some t \<Rightarrow> Some t | None \<Rightarrow> created);
          body = event_body pf eventType workspaceId (case timestampSource of Some t \<Rightarrow> t | None \<Rightarrow> now) payload
      in case eventId of
           None \<Rightarrow>
             (case deliverWithoutPersistence pf uuids db workspaceId eventType payload body now fetchImpl w of (r, w) \<Rightarrow> (r, db, w))
         | Some eid \<Rightarrow>
             let targets = filter (\<lambda>t. matchesFilter (dt_filter t) payload) (activeTargets db workspaceId eventType)
             in case initializePersistentDeliveries pf eid targets now db of
                  (False, db) \<Rightarrow> (Inr emptySummary, db, w)
                | (True, db) \<Rightarrow> persistent_pass pf fetchImpl targets eventType body eid now db w)"

subsection \<open>Listing and replay\<close>

record delivery_view =
  dv_id :: id
  dv_event_id :: id
  dv_event_type :: string
  dv_status :: webhook_status
  dv_attempts :: int
  dv_next_attempt_at :: "sec option"
  dv_last_error :: "string option"
  dv_last_status :: "int option"
  dv_created_at :: sec
  dv_completed_at :: "sec option"

definition joined_deliveries :: "outbox \<Rightarrow> id \<Rightarrow> id \<Rightarrow> (webhook_row \<times> event_row) list" where
  "joined_deliveries db workspaceId subscriptionId =
     concat (map (\<lambda>d. concat (map (\<lambda>s. map (\<lambda>e. (d, e)) (filter (\<lambda>e. pe_id e = wd_eventId d) (pendingEvents db)))
       (filter (\<lambda>s. es_id s = wd_subscriptionId d \<and> es_ws s = workspaceId) (eventSubscriptions db))))
       (filter (\<lambda>d. wd_subscriptionId d = subscriptionId) (webhookDeliveries db)))"

definition listWebhookDeliveries :: "outbox \<Rightarrow> id \<Rightarrow> id \<Rightarrow> webhook_status option \<Rightarrow> int option \<Rightarrow> delivery_view list" where
  "listWebhookDeliveries db workspaceId subscriptionId status limit =
     (let rows = filter (\<lambda>(d, e). case status of None \<Rightarrow> True | Some s \<Rightarrow> wd_status d = s) (joined_deliveries db workspaceId subscriptionId);
          n = nat (min (max (case limit of None \<Rightarrow> 50 | Some l \<Rightarrow> l) 1) 100)
      in map (\<lambda>(d, e). \<lparr>dv_id = wd_id d, dv_event_id = wd_eventId d, dv_event_type = pe_eventType e, dv_status = wd_status d,
               dv_attempts = wd_attempts d,
               dv_next_attempt_at = (if wd_status d = WhPending then Some (wd_nextAttemptAt d) else None),
               dv_last_error = wd_lastError d, dv_last_status = wd_lastStatus d, dv_created_at = wd_createdAt d,
               dv_completed_at = wd_completedAt d\<rparr>)
           (take n (rev (sort_key (\<lambda>(d, e). (wd_createdAt d, wd_id d)) rows))))"

record replayed_event =
  re_outboxId :: id
  re_workspaceId :: id
  re_type :: string
  re_data :: "(string \<times> json) list"

datatype replay_result = ReplayNotFound | NotReplayable webhook_status | Replayed replayed_event

definition replayable :: "id \<Rightarrow> webhook_row \<Rightarrow> bool" where
  "replayable did d \<longleftrightarrow> wd_id d = did \<and> wd_status d \<in> {WhFailed, WhDeadLetter}"

text \<open>The atomic pair of statements; the first one's condition reads the delivery before the second changes it.\<close>

definition replay_writes :: "id \<Rightarrow> id \<Rightarrow> ms \<Rightarrow> outbox \<Rightarrow> webhook_row list \<times> outbox" where
  "replay_writes did eventId now db =
     (let db = upd_events (\<lambda>e. pe_id e = eventId \<and> list_ex (replayable did) (webhookDeliveries db))
                 (\<lambda>e. e\<lparr>pe_status := EvPending, pe_attempts := 0, pe_maxAttempts := 32, pe_processAfter := toSec now,
                        pe_lastError := None, pe_completedAt := None\<rparr>) db;
          f = (\<lambda>d. d\<lparr>wd_status := WhPending, wd_attempts := 0, wd_nextAttemptAt := toSec now, wd_lastError := None,
                    wd_lastStatus := None, wd_completedAt := None\<rparr>)
      in (returning (replayable did) f (webhookDeliveries db), upd_hooks (replayable did) f db))"

text \<open>\<open>meantime\<close> is what other requests do between the read and the writes.\<close>

definition replayWebhookDelivery ::
  "(outbox \<Rightarrow> outbox) \<Rightarrow> id \<Rightarrow> id \<Rightarrow> id \<Rightarrow> ms \<Rightarrow> outbox \<Rightarrow> replay_result \<times> outbox" where
  "replayWebhookDelivery meantime workspaceId subscriptionId deliveryId now db =
     (case first_row (filter (\<lambda>(d, e). wd_id d = deliveryId) (joined_deliveries db workspaceId subscriptionId)) of
        None \<Rightarrow> (ReplayNotFound, db)
      | Some (d, e) \<Rightarrow>
          if wd_status d \<noteq> WhFailed \<and> wd_status d \<noteq> WhDeadLetter then (NotReplayable (wd_status d), db)
          else (case replay_writes (wd_id d) (pe_id e) now (meantime db) of
                  (replayed # _, db) \<Rightarrow>
                    (Replayed \<lparr>re_outboxId = pe_id e, re_workspaceId = workspaceId, re_type = pe_eventType e,
                      re_data = pe_payload e\<rparr>, db)
                | ([], db) \<Rightarrow>
                    (case first_row (filter (\<lambda>c. wd_id c = wd_id d) (webhookDeliveries db)) of
                       Some current \<Rightarrow> (NotReplayable (wd_status current), db)
                     | None \<Rightarrow> (ReplayNotFound, db))))"

subsection \<open>Filters and headers\<close>

text \<open>A mention is the name after an at sign, followed by the end of the text or a word boundary.\<close>

lemma mentioned_iff:
  "m \<noteq> [] \<Longrightarrow>
   mentioned m body \<longleftrightarrow> (\<exists>before after. body = before @ CHR ''@'' # m @ after \<and> boundary_after (last m) after)"
proof (induction body)
  case (Cons c s)
  show ?case
  proof
    assume "mentioned m (c # s)"
    then consider "starts_with (CHR ''@'' # m) (c # s)" "boundary_after (last m) (drop (length m) s)" | "mentioned m s" by auto
    then show "\<exists>before after. c # s = before @ CHR ''@'' # m @ after \<and> boundary_after (last m) after"
    proof cases
      case 1
      then obtain t where "c # s = CHR ''@'' # m @ t" by (auto simp: starts_with_iff)
      then show ?thesis using 1(2) by (intro exI [of _ "[]"] exI [of _ t]) simp
    next
      case 2
      then obtain b a where "s = b @ CHR ''@'' # m @ a" "boundary_after (last m) a" using Cons by blast
      then show ?thesis by (intro exI [of _ "c # b"] exI [of _ a]) simp
    qed
  next
    assume "\<exists>before after. c # s = before @ CHR ''@'' # m @ after \<and> boundary_after (last m) after"
    then obtain b a where ba: "c # s = b @ CHR ''@'' # m @ a" "boundary_after (last m) a" by blast
    show "mentioned m (c # s)"
    proof (cases b)
      case Nil
      then show ?thesis using ba by (simp add: starts_with_def)
    next
      case (Cons x b')
      then have "s = b' @ CHR ''@'' # m @ a" using ba(1) by simp
      then show ?thesis using ba(2) Cons.IH Cons.prems by auto
    qed
  qed
qed simp

lemma map_of_set_prop [simp]: "map_of (set_prop k v hs) = (map_of hs)(k \<mapsto> v)"
  by (induction hs rule: set_prop.induct) (auto simp: fun_eq_iff)

lemma public_reserved: "reserved_header name \<Longrightarrow> map_of (publicDeliveryHeaders hs) name = None"
  by (auto simp: publicDeliveryHeaders_def map_of_eq_None_iff split: option.splits)

lemma public_unreserved:
  "\<not> reserved_header name \<Longrightarrow> map_of (publicDeliveryHeaders hs) name = map_of (case hs of None \<Rightarrow> [] | Some l \<Rightarrow> l) name"
proof -
  assume r: "\<not> reserved_header name"
  have "map_of (filter (\<lambda>(n, v). \<not> reserved_header n) l) name = map_of l name" for l :: "(string \<times> string) list"
    using r by (induction l) auto
  then show ?thesis by (simp add: publicDeliveryHeaders_def split: option.split)
qed

lemma engine_names_reserved:
  "reserved_header ''Content-Type''" "reserved_header ''X-Relay-Event''" "reserved_header ''X-Relay-Timestamp''"
  "reserved_header ''webhook-id''" "reserved_header ''webhook-timestamp''" "reserved_header ''webhook-signature''"
  "reserved_header ''X-Relay-Signature''"
  by code_simp+

lemma base_headers_map:
  "map_of (base_headers pf target eventType deliveryId now) name
    = (if reserved_header name then map_of (base_headers pf (target\<lparr>dt_headers := None\<rparr>) eventType deliveryId now) name
       else map_of (case dt_headers target of None \<Rightarrow> [] | Some l \<Rightarrow> l) name)"
  using public_reserved [of name "dt_headers target"] public_unreserved [of name "dt_headers target"] engine_names_reserved
  by (auto simp: base_headers_def publicDeliveryHeaders_def)

text \<open>The headers a subscriber configured cannot stand in for the engine's: under every reserved name the request
  carries what it would carry with no configured header at all, so the signature, the identifier and the timestamp
  are the engine's, and under every other name exactly the configured value.\<close>
theorem configured_headers_are_confined:
  assumes "buildDeliveryHeaders pf target eventType deliveryId body now = Inr headers"
  shows "\<exists>plain. buildDeliveryHeaders pf (target\<lparr>dt_headers := None\<rparr>) eventType deliveryId body now = Inr plain
    \<and> (\<forall>name. map_of headers name
        = (if reserved_header name then map_of plain name
           else map_of (case dt_headers target of None \<Rightarrow> [] | Some l \<Rightarrow> l) name))"
proof (cases "truthy (dt_secret target)")
  case None
  then show ?thesis using assms base_headers_map [of pf target eventType deliveryId now]
    by (auto simp: buildDeliveryHeaders_def Let_def)
next
  case (Some secret)
  show ?thesis
  proof (cases "dt_signatureScheme target = StandardWebhooks")
    case True
    then obtain sig where "signStandardWebhook (pf_hmac pf) secret deliveryId (show_dec (nat (now div 1000))) body = Inr sig"
      using assms Some by (auto simp: buildDeliveryHeaders_def Let_def split: sum.splits)
    then show ?thesis using assms Some True base_headers_map [of pf target eventType deliveryId now] engine_names_reserved
      by (auto simp: buildDeliveryHeaders_def Let_def)
  next
    case False
    then show ?thesis using assms Some base_headers_map [of pf target eventType deliveryId now] engine_names_reserved
      by (auto simp: buildDeliveryHeaders_def Let_def)
  qed
qed

definition ex_target_h :: delivery_target where
  "ex_target_h = \<lparr>dt_id = ''s'', dt_url = ''a.b'', dt_secret = Some ''k'', dt_signatureScheme = Legacy,
     dt_headers = Some [(''x-relay-signature'', ''forged''), (''Authorization'', ''t'')], dt_filter = None\<rparr>"

definition ex_platform :: platform where
  "ex_platform = \<lparr>pf_parseUrl = (\<lambda>s. None), pf_hmac = (\<lambda>k m. []), pf_hmacSha256Hex = (\<lambda>s k. s @ k), pf_sha256Hex = id,
     pf_toISOString = (\<lambda>t. [])\<rparr>"

theorem configured_headers_are_confined_witness:
  "\<exists>hs. buildDeliveryHeaders ex_platform ex_target_h ''t'' ''i'' ''b'' 0 = Inr hs
    \<and> map_of hs ''x-relay-signature'' = None \<and> map_of hs ''Authorization'' = Some ''t''"
proof -
  have r: "reserved_header ''x-relay-signature''" "\<not> reserved_header ''Authorization''" by code_simp+
  obtain hs plain where run: "buildDeliveryHeaders ex_platform ex_target_h ''t'' ''i'' ''b'' 0 = Inr hs"
    and plain: "buildDeliveryHeaders ex_platform (ex_target_h\<lparr>dt_headers := None\<rparr>) ''t'' ''i'' ''b'' 0 = Inr plain"
    by (auto simp: buildDeliveryHeaders_def ex_target_h_def truthy_def Let_def)
  then have "map_of plain ''x-relay-signature'' = None"
    by (auto simp: buildDeliveryHeaders_def ex_target_h_def truthy_def Let_def base_headers_def publicDeliveryHeaders_def)
  then show ?thesis using configured_headers_are_confined [OF run] run plain r by (auto simp: ex_target_h_def)
qed

subsection \<open>Replay\<close>

definition restarted :: "ms \<Rightarrow> webhook_row \<Rightarrow> bool" where
  "restarted now d \<longleftrightarrow> wd_status d = WhPending \<and> wd_attempts d = 0 \<and> wd_nextAttemptAt d = toSec now"

text \<open>A replay of a delivery is all or nothing: it restarts the delivery and its event together, each with all its
  attempts, exactly when the delivery had failed at the moment of the writes; otherwise, a second replay of the same
  delivery included, it writes nothing at all.\<close>
theorem replay_is_atomic:
  assumes "replay_writes did eid now db = (rows, db')"
  shows "if list_ex (replayable did) (webhookDeliveries db)
    then rows \<noteq> [] \<and> list_all (\<lambda>d. \<not> replayable did d) (webhookDeliveries db')
      \<and> list_ex (\<lambda>d. wd_id d = did \<and> restarted now d) (webhookDeliveries db')
      \<and> list_all (\<lambda>e. pe_id e \<noteq> eid \<or> (pe_status e = EvPending \<and> pe_attempts e = 0 \<and> pe_processAfter e = toSec now)) (pendingEvents db')
      \<and> replay_writes did eid later db' = ([], db')
    else rows = [] \<and> db' = db"
proof -
  let ?hooks = "webhookDeliveries db" and ?P = "replayable did"
  have noop: "replay_writes did eid t x = ([], x)" if "\<not> list_ex ?P (webhookDeliveries x)" for t x
    using that by (simp add: replay_writes_def Let_def returning_def upd_events_def upd_hooks_def filter_empty_conv list_ex_iff upd_where_id)
  show ?thesis
  proof (cases "list_ex ?P ?hooks")
    case True
    then obtain d where d: "d \<in> set ?hooks" "?P d" by (auto simp: list_ex_iff)
    have none: "list_all (\<lambda>d. \<not> ?P d) (webhookDeliveries db')"
      using assms unfolding replay_writes_def Let_def list_all_iff
      by (auto elim!: in_upd_whereE simp: replayable_def)
    then have "\<not> list_ex ?P (webhookDeliveries db')" by (simp add: list_ex_iff list_all_iff)
    moreover have "rows \<noteq> []" using assms d by (auto simp: replay_writes_def Let_def returning_def filter_empty_conv)
    moreover have "list_ex (\<lambda>d. wd_id d = did \<and> restarted now d) (webhookDeliveries db')"
    proof -
      let ?f = "\<lambda>d. d\<lparr>wd_status := WhPending, wd_attempts := 0, wd_nextAttemptAt := toSec now, wd_lastError := None,
        wd_lastStatus := None, wd_completedAt := None\<rparr>"
      have "webhookDeliveries db' = upd_where ?P ?f ?hooks" using assms by (auto simp: replay_writes_def Let_def)
      then have "?f d \<in> set (webhookDeliveries db')" using d by (auto simp: set_upd_where)
      moreover have "wd_id (?f d) = did \<and> restarted now (?f d)" using d(2) by (simp add: replayable_def restarted_def)
      ultimately show ?thesis unfolding list_ex_iff by blast
    qed
    moreover have "list_all (\<lambda>e. pe_id e \<noteq> eid \<or> (pe_status e = EvPending \<and> pe_attempts e = 0 \<and> pe_processAfter e = toSec now)) (pendingEvents db')"
    proof -
      define g :: "event_row \<Rightarrow> event_row" where "g = (\<lambda>e. e\<lparr>pe_status := EvPending, pe_attempts := 0, pe_maxAttempts := 32, pe_processAfter := toSec now,
        pe_lastError := None, pe_completedAt := None\<rparr>)"
      have "pendingEvents db' = upd_where (\<lambda>e. pe_id e = eid \<and> list_ex ?P ?hooks) g (pendingEvents db)"
        using assms by (auto simp: replay_writes_def Let_def g_def)
      moreover have "pe_status (g e) = EvPending \<and> pe_attempts (g e) = 0 \<and> pe_processAfter (g e) = toSec now" for e
        by (simp add: g_def)
      ultimately show ?thesis using True by (auto simp: upd_where_def list_all_iff)
    qed
    ultimately show ?thesis using True none noop by simp
  next
    case False
    then show ?thesis using noop [of db now] assms by simp
  qed
qed

theorem replay_is_atomic_witness:
  "replay_writes ''d'' ''e'' 0 \<lparr>eventSubscriptions = [], pendingEvents = [], webhookDeliveries = []\<rparr>
    = ([], \<lparr>eventSubscriptions = [], pendingEvents = [], webhookDeliveries = []\<rparr>)"
proof -
  obtain rows db' where "replay_writes ''d'' ''e'' 0 \<lparr>eventSubscriptions = [], pendingEvents = [], webhookDeliveries = []\<rparr> = (rows, db')"
    by fastforce
  from replay_is_atomic [OF this] this show ?thesis by simp
qed

end
