(* ===== verification/WebhookSteps.thy ===== *)
theory WebhookSteps
  imports Webhooks
begin

text \<open>
  Webhook deliveries under any interleaving: workers claim due rows, send, and settle later or crash; others
  dead-letter, fail or replay rows, and the queue changes its own table. A worker acts with the clock it read when
  its pass began, which may lie behind. Rows are not deleted in this relation (a deletion removes them for good).
  The claims that are still to be settled are kept newest first, each with the clock of its pass.
\<close>

record hook_state =
  hs_db :: outbox
  hs_clock :: ms
  hs_claims :: "(ms \<times> webhook_row) list"

inductive hook_step :: "platform \<Rightarrow> hook_state \<Rightarrow> hook_state \<Rightarrow> bool" for pf where
  tick: "hs_clock s \<le> t \<Longrightarrow> hook_step pf s (s\<lparr>hs_clock := t\<rparr>)"
| queue: "hook_step pf s (s\<lparr>hs_db := (hs_db s)\<lparr>pendingEvents := evs\<rparr>\<rparr>)"
| initialize: "now \<le> hs_clock s \<Longrightarrow> initializePersistentDeliveries pf eid targets now (hs_db s) = (b, db') \<Longrightarrow>
    hook_step pf s (s\<lparr>hs_db := db'\<rparr>)"
| claim: "now \<le> hs_clock s \<Longrightarrow> claimDelivery did now (hs_db s) = (Some c, db') \<Longrightarrow>
    hook_step pf s (s\<lparr>hs_db := db', hs_claims := (now, c) # hs_claims s\<rparr>)"
| settle: "hs_claims s = xs @ (now, c) # ys \<Longrightarrow>
    hook_step pf s (s\<lparr>hs_db := settleDelivery c result now (hs_db s), hs_claims := xs @ ys\<rparr>)"
| crash: "hs_claims s = xs @ p # ys \<Longrightarrow> hook_step pf s (s\<lparr>hs_claims := xs @ ys\<rparr>)"
| dead_letter: "now \<le> hs_clock s \<Longrightarrow>
    hook_step pf s (s\<lparr>hs_db := deadLetterExpiredFinalAttempts eid now (hs_db s)\<rparr>)"
| unavailable: "now \<le> hs_clock s \<Longrightarrow> hook_step pf s (s\<lparr>hs_db := failUnavailableDelivery did now (hs_db s)\<rparr>)"
| replay: "replay_writes did eid (hs_clock s) (hs_db s) = (rs, db') \<Longrightarrow> hook_step pf s (s\<lparr>hs_db := db'\<rparr>)"

inductive hook_reach :: "platform \<Rightarrow> hook_state \<Rightarrow> bool" for pf where
  start: "webhookDeliveries (hs_db s) = [] \<Longrightarrow> hs_claims s = [] \<Longrightarrow> hook_reach pf s"
| next_step: "hook_reach pf s \<Longrightarrow> hook_step pf s t \<Longrightarrow> hook_reach pf t"

subsection \<open>What becomes of a claimed row\<close>

text \<open>Either nothing has touched it since the claim, or it has moved on in a way that never looks like the claim again.\<close>

definition superseded :: "sec \<Rightarrow> webhook_row \<Rightarrow> webhook_row \<Rightarrow> bool" where
  "superseded clock c d \<longleftrightarrow> wd_nextAttemptAt c \<le> clock \<and> wd_nextAttemptAt c \<le> wd_nextAttemptAt d
     \<and> (wd_nextAttemptAt c = wd_nextAttemptAt d \<longrightarrow> wd_status d \<noteq> WhPending \<or> wd_attempts d = 0)"

definition claim_wf :: "ms \<Rightarrow> ms \<times> webhook_row \<Rightarrow> bool" where
  "claim_wf clock p = (case p of (n, c) \<Rightarrow> n \<le> clock \<and> wd_status c = WhPending \<and> 1 \<le> wd_attempts c
     \<and> wd_attempts c \<le> MAX_DELIVERY_ATTEMPTS \<and> wd_nextAttemptAt c = toSec n + 60)"

definition tracked :: "sec \<Rightarrow> webhook_row list \<Rightarrow> webhook_row \<Rightarrow> bool" where
  "tracked clock rows c \<longleftrightarrow> (\<exists>d\<in>set rows. wd_id d = wd_id c \<and> (d = c \<or> superseded clock c d))"

definition later_first :: "(ms \<times> webhook_row) list \<Rightarrow> bool" where
  "later_first ps \<longleftrightarrow> sorted_wrt (\<lambda>p q. wd_id (snd p) = wd_id (snd q) \<longrightarrow> wd_nextAttemptAt (snd q) \<le> toSec (fst p)) ps"

definition rows_wf :: "webhook_row list \<Rightarrow> bool" where
  "rows_wf rows \<longleftrightarrow> distinct (map wd_id rows) \<and> list_all (\<lambda>d. 0 \<le> wd_attempts d \<and> wd_attempts d \<le> MAX_DELIVERY_ATTEMPTS) rows"

definition hook_inv :: "hook_state \<Rightarrow> bool" where
  "hook_inv s \<longleftrightarrow> rows_wf (webhookDeliveries (hs_db s)) \<and> list_all (claim_wf (hs_clock s)) (hs_claims s)
     \<and> list_all (\<lambda>p. tracked (toSec (hs_clock s)) (webhookDeliveries (hs_db s)) (snd p)) (hs_claims s)
     \<and> later_first (hs_claims s)"

lemma lease_seconds: "toSec (n + DELIVERY_LEASE_MS) = toSec n + 60"
  using toSec_add_second [of n 60] by (simp add: DELIVERY_LEASE_MS_def)

text \<open>An UPDATE keeps a claim tracked when it supersedes the claim in every row it changes.\<close>

lemma tracked_upd:
  assumes "tracked clock rows c" "clock \<le> clock'" "\<And>d. wd_id (f d) = wd_id d"
    and "\<And>d. d \<in> set rows \<Longrightarrow> wd_id d = wd_id c \<Longrightarrow> P d \<Longrightarrow> d = c \<or> superseded clock c d \<Longrightarrow> superseded clock' c (f d)"
  shows "tracked clock' (upd_where P f rows) c"
proof -
  obtain d where d: "d \<in> set rows" "wd_id d = wd_id c" "d = c \<or> superseded clock c d"
    using assms(1) by (auto simp: tracked_def)
  show ?thesis
  proof (cases "P d")
    case True
    then have "f d \<in> set (upd_where P f rows)" using d(1) by (auto simp: set_upd_where)
    moreover have "superseded clock' c (f d)" by (rule assms(4) [OF d(1,2) True d(3)])
    moreover have "wd_id (f d) = wd_id c" using assms(3) d(2) by simp
    ultimately show ?thesis unfolding tracked_def by blast
  next
    case False
    then have "d \<in> set (upd_where P f rows)" using d(1) by (auto simp: set_upd_where)
    moreover have "d = c \<or> superseded clock' c d" using d(3) assms(2) by (auto simp: superseded_def)
    ultimately show ?thesis using d(2) by (auto simp: tracked_def)
  qed
qed

lemma rows_wf_upd:
  assumes "rows_wf rows" "\<And>d. wd_id (f d) = wd_id d"
    and "\<And>d. P d \<Longrightarrow> 0 \<le> wd_attempts d \<Longrightarrow> wd_attempts d \<le> MAX_DELIVERY_ATTEMPTS \<Longrightarrow>
      0 \<le> wd_attempts (f d) \<and> wd_attempts (f d) \<le> MAX_DELIVERY_ATTEMPTS"
  shows "rows_wf (upd_where P f rows)"
  using assms by (auto simp: rows_wf_def map_upd_where list_all_iff set_upd_where)

lemma later_first_remove: "later_first (xs @ p # ys) \<Longrightarrow> later_first (xs @ ys)"
  by (auto simp: later_first_def sorted_wrt_append)

subsection \<open>The steps keep the invariant\<close>

lemma inv_claim:
  assumes inv: "hook_inv s" and now: "now \<le> hs_clock s" and run: "claimDelivery did now (hs_db s) = (Some c, db')"
  shows "hook_inv (s\<lparr>hs_db := db', hs_claims := (now, c) # hs_claims s\<rparr>)"
proof -
  let ?rows = "webhookDeliveries (hs_db s)" and ?P = "claimable did now" and ?f = "claim_row now"
  let ?k = "toSec (hs_clock s)"
  have db': "webhookDeliveries db' = upd_where ?P ?f ?rows" using run by (auto simp: claimDelivery_def)
  have "c \<in> set (returning ?P ?f ?rows)" using run by (auto simp: claimDelivery_def dest: first_row_Some)
  then obtain d where d: "d \<in> set ?rows" "?P d" "c = ?f d" by (auto simp: returning_def)
  have le: "toSec now \<le> ?k" using now by (rule toSec_mono)
  have id: "wd_id (?f e) = wd_id e" for e by (simp add: claim_row_def)
  have wf: "rows_wf (upd_where ?P ?f ?rows)"
    using inv by (intro rows_wf_upd) (auto simp: hook_inv_def claim_row_def claimable_def MAX_DELIVERY_ATTEMPTS_def)
  have old: "tracked ?k (upd_where ?P ?f ?rows) e" if "tracked ?k ?rows e" for e
    using le by (intro tracked_upd [OF that order_refl id])
      (auto simp: claimable_def claim_row_def superseded_def lease_seconds)
  have new: "tracked ?k (upd_where ?P ?f ?rows) c"
    using d by (auto simp: tracked_def set_upd_where)
  have "0 \<le> wd_attempts d" using inv d(1) by (auto simp: hook_inv_def rows_wf_def list_all_iff)
  then have cwf: "claim_wf (hs_clock s) (now, c)"
    using d now by (simp add: claim_wf_def claim_row_def claimable_def lease_seconds MAX_DELIVERY_ATTEMPTS_def)
  have first: "wd_nextAttemptAt (snd q) \<le> toSec now" if q: "q \<in> set (hs_claims s)" "wd_id c = wd_id (snd q)" for q
  proof -
    have "tracked ?k ?rows (snd q)" using inv q(1) by (auto simp: hook_inv_def list_all_iff)
    then obtain e where e: "e \<in> set ?rows" "wd_id e = wd_id (snd q)" "e = snd q \<or> superseded ?k (snd q) e"
      by (auto simp: tracked_def)
    moreover have "wd_id d = wd_id e" using e(2) q(2) d(3) id by simp
    then have "e = d" using inv e(1) d(1) by (auto simp: hook_inv_def rows_wf_def distinct_map inj_on_def)
    ultimately show ?thesis using d(2) by (auto simp: claimable_def superseded_def)
  qed
  show ?thesis
    using inv wf old new cwf first unfolding hook_inv_def later_first_def
    by (auto simp: db' list_all_iff)
qed


lemma inv_upd:
  assumes inv: "hook_inv s" and sub: "set ps \<subseteq> set (hs_claims s)" and later: "later_first ps"
    and db': "webhookDeliveries db' = upd_where P f (webhookDeliveries (hs_db s))"
    and id: "\<And>d. wd_id (f d) = wd_id d"
    and bound: "\<And>d. P d \<Longrightarrow> 0 \<le> wd_attempts d \<Longrightarrow> wd_attempts d \<le> MAX_DELIVERY_ATTEMPTS \<Longrightarrow>
      0 \<le> wd_attempts (f d) \<and> wd_attempts (f d) \<le> MAX_DELIVERY_ATTEMPTS"
    and super: "\<And>q d. q \<in> set ps \<Longrightarrow> claim_wf (hs_clock s) q \<Longrightarrow> d \<in> set (webhookDeliveries (hs_db s)) \<Longrightarrow>
      wd_id d = wd_id (snd q) \<Longrightarrow> P d \<Longrightarrow> d = snd q \<or> superseded (toSec (hs_clock s)) (snd q) d \<Longrightarrow>
      superseded (toSec (hs_clock s)) (snd q) (f d)"
  shows "hook_inv (s\<lparr>hs_db := db', hs_claims := ps\<rparr>)"
proof -
  have cwf: "claim_wf (hs_clock s) q" if "q \<in> set ps" for q
    using inv sub that by (auto simp: hook_inv_def list_all_iff)
  have "tracked (toSec (hs_clock s)) (upd_where P f (webhookDeliveries (hs_db s))) (snd q)" if q: "q \<in> set ps" for q
  proof -
    have "tracked (toSec (hs_clock s)) (webhookDeliveries (hs_db s)) (snd q)"
      using inv sub q by (auto simp: hook_inv_def list_all_iff)
    then show ?thesis using super [OF q cwf [OF q]] by (rule tracked_upd [OF _ order_refl id])
  qed
  moreover have "rows_wf (upd_where P f (webhookDeliveries (hs_db s)))"
    using inv id bound by (intro rows_wf_upd) (auto simp: hook_inv_def)
  ultimately show ?thesis using cwf later by (simp add: hook_inv_def db' list_all_iff)
qed

text \<open>An older claim of the same row ran out before a newer one was made, so it cannot be the one that settles.\<close>

lemma inv_settle:
  assumes inv: "hook_inv s" and ps: "hs_claims s = xs @ (now, c) # ys"
  shows "hook_inv (s\<lparr>hs_db := settleDelivery c result now (hs_db s), hs_claims := xs @ ys\<rparr>)"
proof (rule inv_upd [OF inv, where P = "ownsClaim c" and f = "settled_row c result now"])
  let ?k = "toSec (hs_clock s)"
  have cwf: "claim_wf (hs_clock s) (now, c)" using inv ps by (simp add: hook_inv_def)
  show "set (xs @ ys) \<subseteq> set (hs_claims s)" using ps by auto
  show "later_first (xs @ ys)" using inv ps later_first_remove [of xs "(now, c)" ys] by (simp add: hook_inv_def)
  show "webhookDeliveries (settleDelivery c result now (hs_db s))
      = upd_where (ownsClaim c) (settled_row c result now) (webhookDeliveries (hs_db s))"
    by (simp add: settleDelivery_def)
  show "wd_id (settled_row c result now d) = wd_id d" for d by (simp add: settled_row_def)
  show "0 \<le> wd_attempts (settled_row c result now d) \<and> wd_attempts (settled_row c result now d) \<le> MAX_DELIVERY_ATTEMPTS"
    if "0 \<le> wd_attempts d" "wd_attempts d \<le> MAX_DELIVERY_ATTEMPTS" for d
    using that by (simp add: settled_row_def)
  fix q d
  assume q: "q \<in> set (xs @ ys)" "claim_wf (hs_clock s) q" and d: "wd_id d = wd_id (snd q)" "ownsClaim c d"
    and held: "d = snd q \<or> superseded ?k (snd q) d"
  have same: "wd_id c = wd_id (snd q)" using d by (simp add: ownsClaim_def)
  have nd: "wd_nextAttemptAt d = toSec now + 60" "wd_status d = WhPending" "1 \<le> wd_attempts d"
    using d(2) cwf by (simp_all add: ownsClaim_def claim_wf_def)
  have order: "later_first (xs @ (now, c) # ys)" using inv ps by (simp add: hook_inv_def)
  have older: "wd_nextAttemptAt (snd q) \<le> toSec now"
  proof (cases "q \<in> set ys")
    case True
    then show ?thesis using order same by (auto simp: later_first_def sorted_wrt_append)
  next
    case False
    then have "wd_nextAttemptAt c \<le> toSec (fst q)"
      using q(1) order same by (auto simp: later_first_def sorted_wrt_append)
    then have "wd_nextAttemptAt d < wd_nextAttemptAt (snd q)"
      using q(2) nd(1) cwf by (auto simp: claim_wf_def split: prod.splits)
    then have False using held by (auto simp: superseded_def)
    then show ?thesis ..
  qed
  have "toSec now \<le> ?k" using cwf by (auto simp: claim_wf_def intro: toSec_mono)
  moreover have "toSec now < wd_nextAttemptAt (settled_row c result now d)"
  proof -
    have "toSec now < toSec (now + WEBHOOK_RETRY_DELAYS_MS ! nat (wd_attempts c - 1))" if "wd_attempts c < MAX_DELIVERY_ATTEMPTS"
    proof -
      have "nat (wd_attempts c - 1) < 6" using that cwf by (auto simp: claim_wf_def MAX_DELIVERY_ATTEMPTS_def)
      then have "30000 \<le> WEBHOOK_RETRY_DELAYS_MS ! nat (wd_attempts c - 1)"
        by (auto simp: WEBHOOK_RETRY_DELAYS_MS_def less_Suc_eq numeral_eq_Suc)
      then have "toSec (now + 1000 * 30) \<le> toSec (now + WEBHOOK_RETRY_DELAYS_MS ! nat (wd_attempts c - 1))"
        by (intro toSec_mono) simp
      then show ?thesis unfolding toSec_add_second by simp
    qed
    then show ?thesis using nd(1) by (auto simp: settled_row_def)
  qed
  ultimately show "superseded ?k (snd q) (settled_row c result now d)"
    using older by (simp add: superseded_def)
qed

lemma inv_upd_db:
  assumes "hook_inv s" "webhookDeliveries db' = upd_where P f (webhookDeliveries (hs_db s))" "\<And>d. wd_id (f d) = wd_id d"
    and "\<And>d. P d \<Longrightarrow> 0 \<le> wd_attempts d \<Longrightarrow> wd_attempts d \<le> MAX_DELIVERY_ATTEMPTS \<Longrightarrow>
      0 \<le> wd_attempts (f d) \<and> wd_attempts (f d) \<le> MAX_DELIVERY_ATTEMPTS"
    and "\<And>q d. q \<in> set (hs_claims s) \<Longrightarrow> claim_wf (hs_clock s) q \<Longrightarrow> d \<in> set (webhookDeliveries (hs_db s)) \<Longrightarrow>
      wd_id d = wd_id (snd q) \<Longrightarrow> P d \<Longrightarrow> d = snd q \<or> superseded (toSec (hs_clock s)) (snd q) d \<Longrightarrow>
      superseded (toSec (hs_clock s)) (snd q) (f d)"
  shows "hook_inv (s\<lparr>hs_db := db'\<rparr>)"
proof -
  have "later_first (hs_claims s)" using assms(1) by (simp add: hook_inv_def)
  then have "hook_inv (s\<lparr>hs_db := db', hs_claims := hs_claims s\<rparr>)"
    by (rule inv_upd [OF assms(1) subset_refl _ assms(2)]) (use assms(3-5) in blast)+
  moreover have "s\<lparr>hs_db := db', hs_claims := hs_claims s\<rparr> = s\<lparr>hs_db := db'\<rparr>" by (cases s) simp
  ultimately show ?thesis by (simp only:)
qed

lemma rows_wf_insert:
  assumes "rows_wf rows" "wd_attempts d = 0"
  shows "rows_wf (insert_unless_conflict d rows)"
  using assms
  by (auto simp: rows_wf_def insert_unless_conflict_def list_ex_iff list_all_iff delivery_conflicts_def MAX_DELIVERY_ATTEMPTS_def)

lemma tracked_mono: "tracked k rows c \<Longrightarrow> set rows \<subseteq> set rows' \<Longrightarrow> k \<le> k' \<Longrightarrow> tracked k' rows' c"
  unfolding tracked_def superseded_def by force

lemma fold_insert:
  assumes "rows_wf rows" "list_all (\<lambda>d. wd_attempts d = 0) ds"
  shows "rows_wf (fold insert_unless_conflict ds rows) \<and> set rows \<subseteq> set (fold insert_unless_conflict ds rows)"
  using assms
proof (induction ds arbitrary: rows)
  case (Cons d ds)
  have sub: "set rows \<subseteq> set (insert_unless_conflict d rows)" by (auto simp: insert_unless_conflict_def)
  have "rows_wf (insert_unless_conflict d rows)" "list_all (\<lambda>d. wd_attempts d = 0) ds"
    using Cons.prems rows_wf_insert by simp_all
  from Cons.IH [OF this] sub show ?case by (simp only: fold_simps) blast
qed simp

lemma initialize_rows:
  assumes "initializePersistentDeliveries pf eid targets now db = (b, db')" "rows_wf (webhookDeliveries db)"
  shows "rows_wf (webhookDeliveries db') \<and> set (webhookDeliveries db) \<subseteq> set (webhookDeliveries db')"
proof -
  have "list_all (\<lambda>d. wd_attempts d = 0) (map (new_delivery pf eid now) targets)"
    by (auto simp: list_all_iff new_delivery_def)
  from fold_insert [OF assms(2) this] assms(2) show ?thesis
    using assms(1) by (auto simp: initializePersistentDeliveries_def split: option.splits if_splits)
qed

lemma hook_step_inv:
  assumes "hook_step pf s t" "hook_inv s"
  shows "hook_inv t"
  using assms
proof (cases rule: hook_step.cases)
  case (tick t')
  then have "toSec (hs_clock s) \<le> toSec t'" by (intro toSec_mono)
  then show ?thesis using assms(2) tick
    by (auto simp: hook_inv_def list_all_iff claim_wf_def intro: tracked_mono)
next
  case (queue evs)
  then show ?thesis using assms(2) by (simp add: hook_inv_def)
next
  case (initialize now eid targets b db')
  then show ?thesis using assms(2) initialize_rows [OF initialize(3)]
    by (auto simp: hook_inv_def list_all_iff intro: tracked_mono)
next
  case (claim now did c db')
  then show ?thesis using inv_claim [OF assms(2)] by simp
next
  case (settle xs now c ys result)
  then show ?thesis using inv_settle [OF assms(2)] by simp
next
  case (crash xs p ys)
  then show ?thesis using assms(2) later_first_remove [of xs p ys] by (auto simp: hook_inv_def)
next
  case (dead_letter now eid)
  then have le: "toSec now \<le> toSec (hs_clock s)" by (intro toSec_mono)
  have eq: "webhookDeliveries (deadLetterExpiredFinalAttempts eid now (hs_db s))
      = upd_where (spent eid now) (\<lambda>d. d\<lparr>wd_status := WhDeadLetter,
          wd_lastError := Some ''attempts exhausted after delivery lease expired'', wd_completedAt := Some (toSec now)\<rparr>)
          (webhookDeliveries (hs_db s))"
    by (simp add: deadLetterExpiredFinalAttempts_def)
  show ?thesis unfolding dead_letter(1)
    by (rule inv_upd_db [OF assms(2) eq]) (use le in \<open>auto simp: spent_def superseded_def\<close>)
next
  case (unavailable now did)
  then have le: "toSec now \<le> toSec (hs_clock s)" by (intro toSec_mono)
  have eq: "webhookDeliveries (failUnavailableDelivery did now (hs_db s))
      = upd_where (Webhooks.unavailable did now) (\<lambda>d. d\<lparr>wd_status := WhFailed,
          wd_lastError := Some ''subscription inactive or no longer matches this event'', wd_completedAt := Some (toSec now)\<rparr>)
          (webhookDeliveries (hs_db s))"
    by (simp add: failUnavailableDelivery_def)
  show ?thesis unfolding unavailable(1)
    by (rule inv_upd_db [OF assms(2) eq]) (use le in \<open>auto simp: unavailable_def superseded_def\<close>)
next
  case (replay did eid rs db')
  then have eq: "webhookDeliveries db' = upd_where (replayable did) (\<lambda>d. d\<lparr>wd_status := WhPending, wd_attempts := 0,
      wd_nextAttemptAt := toSec (hs_clock s), wd_lastError := None, wd_lastStatus := None, wd_completedAt := None\<rparr>)
      (webhookDeliveries (hs_db s))"
    by (auto simp: replay_writes_def Let_def)
  show ?thesis unfolding replay(1)
    by (rule inv_upd_db [OF assms(2) eq])
      (auto simp: replayable_def superseded_def claim_wf_def MAX_DELIVERY_ATTEMPTS_def split: prod.splits)
qed

lemma hook_reach_inv: "hook_reach pf s \<Longrightarrow> hook_inv s"
proof (induction rule: hook_reach.induct)
  case (start s)
  then show ?case by (simp add: hook_inv_def rows_wf_def later_first_def)
qed (rule hook_step_inv)

subsection \<open>Properties\<close>

text \<open>C4: In every state that workers reach, however their claims, crashes and settlements interleave, a worker that
  settles either finds the row exactly as its own claim left it, in every column, or changes nothing: a settlement
  that resumes after the lease ran out and the row was reclaimed, dead-lettered or replayed is lost.\<close>
theorem settlement_is_fenced:
  assumes "hook_reach pf s" "(now, c) \<in> set (hs_claims s)" "d \<in> set (webhookDeliveries (hs_db s))"
  shows "ownsClaim c d = (d = c)"
proof
  have inv: "hook_inv s" using assms(1) by (rule hook_reach_inv)
  have cwf: "claim_wf (hs_clock s) (now, c)" and "tracked (toSec (hs_clock s)) (webhookDeliveries (hs_db s)) c"
    using inv assms(2) by (auto simp: hook_inv_def list_all_iff)
  then obtain e where e: "e \<in> set (webhookDeliveries (hs_db s))" "wd_id e = wd_id c"
    "e = c \<or> superseded (toSec (hs_clock s)) c e" by (auto simp: tracked_def)
  show "d = c" if own: "ownsClaim c d"
  proof -
    have "wd_id d = wd_id e" using own e(2) by (simp add: ownsClaim_def)
    then have "d = e" using inv e(1) assms(3) by (auto simp: hook_inv_def rows_wf_def distinct_map inj_on_def)
    moreover have "\<not> superseded (toSec (hs_clock s)) c d" using own cwf by (auto simp: ownsClaim_def superseded_def claim_wf_def)
    ultimately show ?thesis using e(3) by simp
  qed
  show "ownsClaim c d" if "d = c" using that cwf by (simp add: ownsClaim_def claim_wf_def)
qed

lemma kept_upd: "d \<in> set rows \<Longrightarrow> \<not> P d \<Longrightarrow> d \<in> set (upd_where P f rows)"
  by (auto simp: set_upd_where)

definition reset_delivery :: "sec \<Rightarrow> webhook_row \<Rightarrow> webhook_row" where
  "reset_delivery t d =
     d\<lparr>wd_status := WhPending, wd_attempts := 0, wd_nextAttemptAt := t, wd_lastError := None, wd_lastStatus := None,
       wd_completedAt := None\<rparr>"

lemma reset_delivery_fun:
  "(\<lambda>d. d\<lparr>wd_status := WhPending, wd_attempts := 0, wd_nextAttemptAt := t, wd_lastError := None, wd_lastStatus := None,
     wd_completedAt := None\<rparr>) = reset_delivery t"
  by (rule ext) (simp add: reset_delivery_def)

text \<open>C15: A delivery is never attempted more than seven times between replays, and a settled delivery is final: no step
  of any worker changes a row that succeeded, and a failed or dead-lettered row only ever leaves that state by a
  replay, which starts it afresh.\<close>
theorem settled_delivery_is_final:
  assumes "hook_reach pf s" "hook_step pf s t" "d \<in> set (webhookDeliveries (hs_db s))" "wd_status d \<noteq> WhPending"
  shows "wd_attempts d \<le> MAX_DELIVERY_ATTEMPTS
    \<and> (d \<in> set (webhookDeliveries (hs_db t))
       \<or> (wd_status d \<in> {WhFailed, WhDeadLetter} \<and> reset_delivery (toSec (hs_clock s)) d \<in> set (webhookDeliveries (hs_db t))))"
proof
  have inv: "hook_inv s" using assms(1) by (rule hook_reach_inv)
  then show "wd_attempts d \<le> MAX_DELIVERY_ATTEMPTS" using assms(3) by (auto simp: hook_inv_def rows_wf_def list_all_iff)
  from assms(2) show "d \<in> set (webhookDeliveries (hs_db t)) \<or> (wd_status d \<in> {WhFailed, WhDeadLetter}
      \<and> reset_delivery (toSec (hs_clock s)) d \<in> set (webhookDeliveries (hs_db t)))"
  proof (cases rule: hook_step.cases)
    case (initialize now eid targets b db')
    then show ?thesis using assms(3) inv initialize_rows [OF initialize(3)] by (auto simp: hook_inv_def)
  next
    case (replay did eid rs db')
    then have "webhookDeliveries db' = upd_where (replayable did) (reset_delivery (toSec (hs_clock s))) (webhookDeliveries (hs_db s))"
      by (auto simp: replay_writes_def Let_def reset_delivery_fun)
    then show ?thesis using assms(3) replay(1) by (cases "replayable did d") (auto simp: set_upd_where replayable_def)
  qed (use assms(3,4) in \<open>auto simp: claimDelivery_def settleDelivery_def deadLetterExpiredFinalAttempts_def
      failUnavailableDelivery_def claimable_def ownsClaim_def spent_def unavailable_def intro!: kept_upd\<close>)
qed

definition ex_pf :: platform where
  "ex_pf = \<lparr>pf_parseUrl = (\<lambda>s. Some \<lparr>pu_href = s, pu_protocol = ''https:'', pu_hostname = s\<rparr>), pf_hmac = (\<lambda>k m. []),
     pf_hmacSha256Hex = (\<lambda>s k. []), pf_sha256Hex = (\<lambda>s. ''x''), pf_toISOString = (\<lambda>t. [])\<rparr>"

definition ex_target :: delivery_target where
  "ex_target = \<lparr>dt_id = ''s'', dt_url = ''a.b'', dt_secret = None, dt_signatureScheme = Legacy, dt_headers = None, dt_filter = None\<rparr>"

definition ex_event :: "bool \<Rightarrow> event_row" where
  "ex_event b = \<lparr>pe_id = ''e'', pe_ws = ''w'', pe_eventType = ''t'', pe_payload = [], pe_status = EvPending, pe_attempts = 0,
     pe_maxAttempts = 32, pe_webhookInitialized = b, pe_lastError = None, pe_createdAt = 0, pe_processAfter = 0, pe_completedAt = None\<rparr>"

definition ex_row :: "sec \<Rightarrow> int \<Rightarrow> webhook_row" where
  "ex_row n k = \<lparr>wd_id = ''whd_x'', wd_eventId = ''e'', wd_subscriptionId = ''s'', wd_status = WhPending, wd_attempts = k,
     wd_nextAttemptAt = n, wd_lastError = None, wd_lastStatus = None, wd_createdAt = 0, wd_completedAt = None\<rparr>"

definition ex_outbox :: "bool \<Rightarrow> webhook_row list \<Rightarrow> outbox" where
  "ex_outbox b rows = \<lparr>eventSubscriptions = [], pendingEvents = [ex_event b], webhookDeliveries = rows\<rparr>"

definition ex_hooks :: "ms \<Rightarrow> bool \<Rightarrow> webhook_row list \<Rightarrow> (ms \<times> webhook_row) list \<Rightarrow> hook_state" where
  "ex_hooks t b rows ps = \<lparr>hs_db = ex_outbox b rows, hs_clock = t, hs_claims = ps\<rparr>"

lemma ex_initialize:
  "initializePersistentDeliveries ex_pf ''e'' [ex_target] 0 (ex_outbox False []) = (True, ex_outbox True [ex_row 0 0])"
  by (simp add: initializePersistentDeliveries_def ex_outbox_def ex_event_def upd_events_def new_delivery_def ex_target_def
    ex_row_def stableDeliveryId_def ex_pf_def insert_unless_conflict_def toSec_def)

lemma ex_claim_delivery:
  "n \<le> toSec now \<Longrightarrow> k < 7 \<Longrightarrow>
   claimDelivery ''whd_x'' now (ex_outbox True [ex_row n k]) = (Some (ex_row (toSec now + 60) (k + 1)), ex_outbox True [ex_row (toSec now + 60) (k + 1)])"
  by (simp add: claimDelivery_def ex_outbox_def ex_row_def returning_def claimable_def claim_row_def upd_hooks_def
    MAX_DELIVERY_ATTEMPTS_def lease_seconds)

lemma ex_reclaimed:
  "hook_reach ex_pf (ex_hooks 60000 True [ex_row 120 2] [(60000, ex_row 120 2), (0, ex_row 60 1)])"
proof -
  have "hook_reach ex_pf (ex_hooks 0 False [] [])"
    by (rule hook_reach.start) (simp_all add: ex_hooks_def ex_outbox_def)
  then have "hook_reach ex_pf (ex_hooks 0 True [ex_row 0 0] [])"
    using hook_step.initialize [of 0 "ex_hooks 0 False [] []" ex_pf "''e''" "[ex_target]"] ex_initialize
    by (auto simp: ex_hooks_def intro: hook_reach.next_step)
  then have "hook_reach ex_pf (ex_hooks 0 True [ex_row 60 1] [(0, ex_row 60 1)])"
    using hook_step.claim [of 0 "ex_hooks 0 True [ex_row 0 0] []" "''whd_x''"] ex_claim_delivery [of 0 0 0]
    by (auto simp: ex_hooks_def toSec_def intro: hook_reach.next_step)
  then have "hook_reach ex_pf (ex_hooks 60000 True [ex_row 60 1] [(0, ex_row 60 1)])"
    using hook_step.tick [of "ex_hooks 0 True [ex_row 60 1] [(0, ex_row 60 1)]" 60000]
    by (auto simp: ex_hooks_def intro: hook_reach.next_step)
  then show ?thesis
    using hook_step.claim [of 60000 "ex_hooks 60000 True [ex_row 60 1] [(0, ex_row 60 1)]" "''whd_x''"] ex_claim_delivery [of 60 60000 1]
    by (auto simp: ex_hooks_def toSec_def intro: hook_reach.next_step)
qed

theorem settlement_is_fenced_witness:
  "\<not> ownsClaim (ex_row 60 1) (ex_row 120 2) \<and> ownsClaim (ex_row 120 2) (ex_row 120 2)"
  using settlement_is_fenced [OF ex_reclaimed, of 0 "ex_row 60 1" "ex_row 120 2"]
    settlement_is_fenced [OF ex_reclaimed, of 60000 "ex_row 120 2" "ex_row 120 2"]
  by (simp add: ex_hooks_def ex_outbox_def ex_row_def)

definition ex_gone :: webhook_row where
  "ex_gone = settled_row (ex_row 120 2) (judge (Inr 404)) 60000 (ex_row 120 2)"

definition replayed_at :: "sec \<Rightarrow> hook_state \<Rightarrow> hook_state" where
  "replayed_at t s = s\<lparr>hs_db := (hs_db s)\<lparr>pendingEvents := [(ex_event True)\<lparr>pe_processAfter := t\<rparr>]\<rparr>\<rparr>"

theorem settled_delivery_is_final_witness:
  "hook_step ex_pf (ex_hooks 60000 True [ex_gone] [(0, ex_row 60 1)]) (replayed_at 60 (ex_hooks 60000 True [ex_row 60 0] [(0, ex_row 60 1)]))
   \<and> wd_lastStatus ex_gone = Some 404 \<and> wd_status ex_gone = WhFailed \<and> wd_attempts ex_gone \<le> MAX_DELIVERY_ATTEMPTS
   \<and> reset_delivery 60 ex_gone = ex_row 60 0"
proof -
  let ?s = "ex_hooks 60000 True [ex_gone] [(0, ex_row 60 1)]" and ?t = "replayed_at 60 (ex_hooks 60000 True [ex_row 60 0] [(0, ex_row 60 1)])"
  have gone: "ex_gone = (ex_row 120 2)\<lparr>wd_status := WhFailed, wd_lastStatus := Some 404, wd_lastError := Some ''HTTP 404'',
      wd_completedAt := Some 60\<rparr>"
    by (simp add: ex_gone_def settled_row_def judge_def refused_def toSec_def show_dec_def show_dec_acc.simps Let_def dec_digits)
  have "hook_reach ex_pf ?s"
    using hook_reach.next_step [OF ex_reclaimed hook_step.settle [where xs = "[]" and now = 60000 and c = "ex_row 120 2"
      and result = "judge (Inr 404)"]]
    by (simp add: ex_hooks_def settleDelivery_def upd_hooks_def ex_outbox_def ownsClaim_def ex_gone_def ex_row_def)
  moreover have "replay_writes ''whd_x'' ''e'' 60000 (ex_outbox True [ex_gone]) = ([ex_row 60 0], hs_db ?t)"
    by (simp add: replay_writes_def Let_def ex_outbox_def ex_event_def upd_events_def upd_hooks_def returning_def
      replayable_def gone ex_row_def toSec_def replayed_at_def ex_hooks_def)
  then have "hook_step ex_pf ?s ?t"
    using hook_step.replay [of "''whd_x''" "''e''" ?s "[ex_row 60 0]" "hs_db ?t" ex_pf]
    by (simp add: ex_hooks_def replayed_at_def)
  ultimately show ?thesis
    using settled_delivery_is_final [of ex_pf ?s ?t ex_gone]
    by (auto simp: gone ex_hooks_def ex_outbox_def ex_row_def reset_delivery_def replayed_at_def)
qed

end
