(* ===== verification/WebhookPasses.thy ===== *)
theory WebhookPasses
  imports Webhooks
begin

text \<open>
  What one pass over an event does to its rows (\<open>deliverEvent\<close>), and that repeating the pass at the times it asks
  for settles the event. \<open>advanced\<close> relates a row before and after: a row that was due is settled or has used one
  more attempt and waits for its next delay, any other row is as it was.
\<close>

lemma due_row_sec: "due_row now d \<longleftrightarrow> wd_status d = WhPending \<and> wd_nextAttemptAt d \<le> toSec now"
proof -
  have "wd_nextAttemptAt d * 1000 \<le> now \<longleftrightarrow> wd_nextAttemptAt d \<le> now div 1000"
  proof -
    have "now = 1000 * (now div 1000) + now mod 1000" "0 \<le> now mod 1000" "now mod 1000 < 1000" by simp_all
    then show ?thesis by linarith
  qed
  then show ?thesis by (simp add: due_row_def toSec_def)
qed

definition waits :: "ms \<Rightarrow> webhook_row \<Rightarrow> webhook_row \<Rightarrow> bool" where
  "waits now d e \<longleftrightarrow> wd_attempts e = wd_attempts d + 1 \<and> wd_attempts d < 6
     \<and> wd_nextAttemptAt e = toSec (now + WEBHOOK_RETRY_DELAYS_MS ! nat (wd_attempts d))"

definition advanced :: "ms \<Rightarrow> webhook_row \<Rightarrow> webhook_row \<Rightarrow> bool" where
  "advanced now d e \<longleftrightarrow> wd_id e = wd_id d \<and> wd_eventId e = wd_eventId d \<and> wd_subscriptionId e = wd_subscriptionId d
     \<and> wd_attempts d \<le> wd_attempts e \<and> (e = d \<or> (due_row now d \<and> (wd_status e \<noteq> WhPending \<or> waits now d e)))"

definition counted :: "webhook_row list \<Rightarrow> bool" where
  "counted rows \<longleftrightarrow> distinct (map wd_id rows) \<and> list_all (\<lambda>d. 0 \<le> wd_attempts d) rows"

lemma advanced_refl [simp]: "advanced now d d"
  by (simp add: advanced_def)

lemma delay_positive: "0 \<le> k \<Longrightarrow> k < 6 \<Longrightarrow> 30000 \<le> WEBHOOK_RETRY_DELAYS_MS ! nat k"
proof -
  assume "0 \<le> k" "k < 6"
  then have "nat k \<in> {0, 1, 2, 3, 4, 5}" by auto
  then show ?thesis by (auto simp: WEBHOOK_RETRY_DELAYS_MS_def)
qed

lemma waits_not_due:
  assumes "waits now d e" "0 \<le> wd_attempts d"
  shows "\<not> due_row now e"
proof -
  have "toSec (now + 1000 * 30) \<le> wd_nextAttemptAt e"
    using assms delay_positive [of "wd_attempts d"] unfolding waits_def by (auto intro!: toSec_mono)
  then show ?thesis unfolding toSec_add_second by (simp add: due_row_sec)
qed

lemma advanced_trans:
  assumes "advanced now d e" "advanced now e f" "0 \<le> wd_attempts d"
  shows "advanced now d f"
  using assms waits_not_due [of now d e] by (auto simp: advanced_def due_row_def)

definition advance :: "ms \<Rightarrow> webhook_row list \<Rightarrow> webhook_row list \<Rightarrow> bool" where
  "advance now = list_all2 (advanced now)"

subsection \<open>Each statement advances rows\<close>

lemma advance_upd:
  assumes "\<And>d. d \<in> set rows \<Longrightarrow> P d \<Longrightarrow> advanced now d (f d)"
  shows "advance now rows (upd_where P f rows)"
  using assms unfolding advance_def by (induction rows) auto

lemma advance_ids: "advance now rows rows' \<Longrightarrow> map wd_id rows' = map wd_id rows"
  unfolding advance_def by (induction rule: list_all2_induct) (auto simp: advanced_def)

text \<open>A claim and its settlement are one change of the one claimed row.\<close>

definition attempted_row :: "ms \<Rightarrow> attempt_result \<Rightarrow> webhook_row \<Rightarrow> webhook_row" where
  "attempted_row now result d = settled_row (claim_row now d) result now (claim_row now d)"

lemma claim_settle:
  assumes "distinct (map wd_id (webhookDeliveries db))" "claimDelivery did now db = (Some c, db')"
  shows "webhookDeliveries (settleDelivery c result now db')
    = upd_where (claimable did now) (attempted_row now result) (webhookDeliveries db)
   \<and> pendingEvents (settleDelivery c result now db') = pendingEvents db
   \<and> eventSubscriptions (settleDelivery c result now db') = eventSubscriptions db"
proof -
  let ?rows = "webhookDeliveries db" and ?P = "claimable did now" and ?f = "claim_row now"
  have "c \<in> set (returning ?P ?f ?rows)" and db': "db' = upd_hooks ?P ?f db"
    using assms(2) by (auto simp: claimDelivery_def dest: first_row_Some)
  then obtain d where d: "d \<in> set ?rows" "?P d" "c = ?f d" by (auto simp: returning_def)
  have "(if ownsClaim c (if ?P e then ?f e else e) then settled_row c result now (if ?P e then ?f e else e)
      else (if ?P e then ?f e else e)) = (if ?P e then attempted_row now result e else e)" if e: "e \<in> set ?rows" for e
  proof (cases "?P e")
    case True
    then have "wd_id e = wd_id d" using d(2) by (simp add: claimable_def)
    then have "e = d" using assms(1) e d(1) by (auto simp: distinct_map inj_on_def)
    then show ?thesis using True d(3) by (simp add: attempted_row_def ownsClaim_def claim_row_def claimable_def)
  next
    case False
    have "\<not> ownsClaim c e"
    proof
      assume "ownsClaim c e"
      then have "wd_id e = wd_id d" using d(3) by (simp add: ownsClaim_def claim_row_def)
      then have "e = d" using assms(1) e d(1) by (auto simp: distinct_map inj_on_def)
      then show False using False d(2) by simp
    qed
    then show ?thesis using False by simp
  qed
  then have "upd_where (ownsClaim c) (settled_row c result now) (upd_where ?P ?f ?rows)
      = upd_where ?P (attempted_row now result) ?rows"
    by (simp add: upd_where_def comp_def)
  then show ?thesis by (simp add: settleDelivery_def db')
qed

lemma attempted_advanced:
  assumes "claimable did now d" "0 \<le> wd_attempts d"
  shows "advanced now d (attempted_row now result d)"
proof -
  have "nat (wd_attempts d + 1 - 1) = nat (wd_attempts d)" by simp
  then show ?thesis using assms
    by (auto simp: advanced_def attempted_row_def settled_row_def claim_row_def claimable_def due_row_sec waits_def
      MAX_DELIVERY_ATTEMPTS_def)
qed

text \<open>What a part of a pass promises: it touches only the delivery rows, and advances them.\<close>

definition pass_part :: "ms \<Rightarrow> outbox \<Rightarrow> outbox \<Rightarrow> bool" where
  "pass_part now db db' \<longleftrightarrow> advance now (webhookDeliveries db) (webhookDeliveries db')
     \<and> pendingEvents db' = pendingEvents db \<and> eventSubscriptions db' = eventSubscriptions db"

lemma pass_part_refl [simp]: "pass_part now db db"
  by (simp add: pass_part_def advance_def list_all2_refl)

lemma advance_trans:
  "advance now xs ys \<Longrightarrow> advance now ys zs \<Longrightarrow> list_all (\<lambda>d. 0 \<le> wd_attempts d) xs \<Longrightarrow> advance now xs zs"
  unfolding advance_def
proof (induction xs arbitrary: ys zs)
  case (Cons x xs)
  then obtain y ys' z zs' where "ys = y # ys'" "zs = z # zs'" "advanced now x y" "advanced now y z"
    "list_all2 (advanced now) xs ys'" "list_all2 (advanced now) ys' zs'" by (auto simp: list_all2_Cons1)
  then show ?case using Cons advanced_trans [of now x y z] by auto
qed simp

lemma counted_advance: "advance now rows rows' \<Longrightarrow> counted rows \<Longrightarrow> counted rows'"
proof -
  assume a: "advance now rows rows'" and c: "counted rows"
  have "list_all2 (advanced now) rs rs' \<Longrightarrow> list_all (\<lambda>d. 0 \<le> wd_attempts d) rs \<Longrightarrow> list_all (\<lambda>d. 0 \<le> wd_attempts d) rs'" for rs rs'
    by (induction rule: list_all2_induct) (auto simp: advanced_def)
  then show ?thesis using a c advance_ids [OF a] by (simp add: counted_def advance_def)
qed

lemma pass_part_trans:
  "pass_part now a b \<Longrightarrow> pass_part now b c \<Longrightarrow> counted (webhookDeliveries a) \<Longrightarrow> pass_part now a c"
  unfolding pass_part_def counted_def using advance_trans by fastforce

subsection \<open>The parts of a pass\<close>

lemma dead_letter_part: "pass_part now db (deadLetterExpiredFinalAttempts eid now db)"
  unfolding pass_part_def deadLetterExpiredFinalAttempts_def upd_hooks_simps
  by (auto intro!: advance_upd simp: advanced_def spent_def due_row_sec)

lemma unavailable_part: "pass_part now db (failUnavailableDelivery did now db)"
  unfolding pass_part_def failUnavailableDelivery_def upd_hooks_simps
  by (auto intro!: advance_upd simp: advanced_def unavailable_def due_row_sec)

lemma fold_part:
  assumes "\<And>x s. counted (webhookDeliveries (fst s)) \<Longrightarrow> pass_part now (fst s) (fst (f x s))" "counted (webhookDeliveries (fst s))"
  shows "pass_part now (fst s) (fst (fold f xs s))"
  using assms(2)
proof (induction xs arbitrary: s)
  case (Cons x xs)
  have step: "pass_part now (fst s) (fst (f x s))" by (rule assms(1) [OF Cons.prems])
  then have "counted (webhookDeliveries (fst (f x s)))"
    using counted_advance Cons.prems by (auto simp: pass_part_def)
  from pass_part_trans [OF step Cons.IH [OF this] Cons.prems] show ?case by simp
qed simp

lemma deliver_row_part:
  assumes "counted (webhookDeliveries (fst s))"
  shows "pass_part now (fst s) (fst (deliver_row pf f targets eventType body now d s))"
proof -
  obtain db w where s: "s = (db, w)" by (cases s)
  have ids: "distinct (map wd_id (webhookDeliveries db))" using assms s by (simp add: counted_def)
  show ?thesis
  proof (cases "due_row now d \<and> target_of targets d \<noteq> None")
    case True
    then obtain t where t: "target_of targets d = Some t" by auto
    obtain c db' where run: "claimDelivery (wd_id d) now db = (c, db')" by fastforce
    show ?thesis
    proof (cases c)
      case None
      then have "db' = db"
        using run by (auto simp: claimDelivery_def first_row_None returning_def upd_hooks_def filter_empty_conv upd_where_id)
      then show ?thesis using True t run None s by (simp add: deliver_row_def)
    next
      case (Some cl)
      obtain res w' where att: "attemptDelivery pf f t eventType (wd_id cl) body now w = (res, w')" by fastforce
      have "advance now (webhookDeliveries db) (upd_where (claimable (wd_id d) now) (attempted_row now res) (webhookDeliveries db))"
        using assms s by (intro advance_upd) (auto simp: counted_def list_all_iff intro: attempted_advanced)
      then show ?thesis
        using True t run Some s att claim_settle [OF ids] by (simp add: deliver_row_def pass_part_def)
    qed
  next
    case False
    then show ?thesis by (auto simp: deliver_row_def s split: option.splits)
  qed
qed

lemma fail_unavailable_fold:
  "counted (webhookDeliveries db) \<Longrightarrow>
   pass_part now db (fold (\<lambda>d. failUnavailableDelivery (wd_id d) now) ds db)"
  using fold_part [of now "\<lambda>d s. (failUnavailableDelivery (wd_id d) now (fst s), ())" "(db, ())" ds] unavailable_part
proof -
  assume c: "counted (webhookDeliveries db)"
  have "fst (fold (\<lambda>d s. (failUnavailableDelivery (wd_id d) now (fst s), ())) ds (x, ()))
      = fold (\<lambda>d. failUnavailableDelivery (wd_id d) now) ds x" for x
    by (induction ds arbitrary: x) simp_all
  then show ?thesis
    using fold_part [of now "\<lambda>d s. (failUnavailableDelivery (wd_id d) now (fst s), ())" "(db, ())" ds] unavailable_part c
    by simp
qed

subsection \<open>After a pass nothing is due\<close>

definition handled :: "ms \<Rightarrow> id \<Rightarrow> webhook_row list \<Rightarrow> bool" where
  "handled now did rows \<longleftrightarrow> list_all (\<lambda>e. wd_id e = did \<longrightarrow> \<not> due_row now e) rows"

lemma due_unmoved: "advanced now d e \<Longrightarrow> due_row now e \<Longrightarrow> 0 \<le> wd_attempts d \<Longrightarrow> e = d"
  using waits_not_due [of now d e] by (auto simp: advanced_def due_row_def)

lemma advance_origin:
  "advance now rows rows' \<Longrightarrow> e \<in> set rows' \<Longrightarrow> \<exists>d\<in>set rows. advanced now d e"
  unfolding advance_def by (induction rule: list_all2_induct) auto

lemma due_origin:
  assumes "advance now rows rows'" "counted rows" "e \<in> set rows'" "due_row now e"
  shows "e \<in> set rows"
proof -
  obtain d where "d \<in> set rows" "advanced now d e" using advance_origin [OF assms(1,3)] by blast
  then show ?thesis using due_unmoved [of now d e] assms(2,4) by (auto simp: counted_def list_all_iff)
qed

lemma handled_advance: "advance now rows rows' \<Longrightarrow> counted rows \<Longrightarrow> handled now did rows \<Longrightarrow> handled now did rows'"
  using due_origin unfolding handled_def list_all_iff by blast

lemma attempted_not_due:
  "claimable did now d \<Longrightarrow> 0 \<le> wd_attempts d \<Longrightarrow> \<not> due_row now (attempted_row now result d)"
proof -
  assume a: "claimable did now d" "0 \<le> wd_attempts d"
  have "due_row now d" using a(1) by (simp add: claimable_def due_row_sec)
  moreover have "attempted_row now result d \<noteq> d"
    by (auto simp: attempted_row_def settled_row_def claim_row_def dest!: arg_cong [where f = wd_attempts])
  ultimately show ?thesis using due_unmoved [OF attempted_advanced [OF a]] a(2) by blast
qed

lemma deliver_row_handles:
  assumes c: "counted (webhookDeliveries (fst s))" and d: "due_row now d" "target_of targets d \<noteq> None"
    and few: "list_all (\<lambda>e. wd_id e = wd_id d \<longrightarrow> due_row now e \<longrightarrow> wd_attempts e < MAX_DELIVERY_ATTEMPTS) (webhookDeliveries (fst s))"
  shows "handled now (wd_id d) (webhookDeliveries (fst (deliver_row pf f targets eventType body now d s)))"
proof -
  obtain db w where s: "s = (db, w)" by (cases s)
  obtain t where t: "target_of targets d = Some t" using d(2) by auto
  obtain cl db' where run: "claimDelivery (wd_id d) now db = (cl, db')" by fastforce
  have ids: "distinct (map wd_id (webhookDeliveries db))" using c s by (simp add: counted_def)
  have due: "claimable (wd_id d) now e" if "e \<in> set (webhookDeliveries db)" "wd_id e = wd_id d" "due_row now e" for e
    using few that s by (auto simp: list_all_iff claimable_def due_row_sec)
  show ?thesis
  proof (cases cl)
    case None
    then have "filter (claimable (wd_id d) now) (webhookDeliveries db) = []" "db' = upd_hooks (claimable (wd_id d) now) (claim_row now) db"
      using run by (auto simp: claimDelivery_def first_row_None returning_def)
    moreover from this have "webhookDeliveries db' = webhookDeliveries db" by (simp add: filter_empty_conv upd_where_id)
    ultimately show ?thesis using d(1) t run None s due
      by (auto simp: deliver_row_def handled_def list_all_iff filter_empty_conv)
  next
    case (Some claimed)
    obtain res w' where att: "attemptDelivery pf f t eventType (wd_id claimed) body now w = (res, w')" by fastforce
    have "handled now (wd_id d) (upd_where (claimable (wd_id d) now) (attempted_row now res) (webhookDeliveries db))"
      using due c s attempted_not_due
      by (auto simp: handled_def list_all_iff set_upd_where counted_def)
    then show ?thesis using d(1) t run Some s att claim_settle [OF ids] by (simp add: deliver_row_def)
  qed
qed

lemma fold_handles:
  assumes part: "\<And>x s. counted (webhookDeliveries (fst s)) \<Longrightarrow> pass_part now (fst s) (fst (f x s))"
    and here: "\<And>x s. counted (webhookDeliveries (fst s)) \<Longrightarrow> Q x \<Longrightarrow> R (webhookDeliveries (fst s)) \<Longrightarrow>
      handled now (wd_id x) (webhookDeliveries (fst (f x s)))"
    and keep: "\<And>rows rows'. advance now rows rows' \<Longrightarrow> counted rows \<Longrightarrow> R rows \<Longrightarrow> R rows'"
    and init: "counted (webhookDeliveries (fst s))" "R (webhookDeliveries (fst s))" and x: "x \<in> set xs" "Q x"
  shows "handled now (wd_id x) (webhookDeliveries (fst (fold f xs s)))"
  using init x(1)
proof (induction xs arbitrary: s)
  case (Cons y ys)
  have step: "pass_part now (fst s) (fst (f y s))" by (rule part [OF Cons.prems(1)])
  then have next_c: "counted (webhookDeliveries (fst (f y s)))" and next_R: "R (webhookDeliveries (fst (f y s)))"
    using counted_advance keep Cons.prems by (auto simp: pass_part_def)
  show ?case
  proof (cases "x \<in> set ys")
    case True
    then show ?thesis using Cons.IH [OF next_c next_R] by simp
  next
    case False
    then have "handled now (wd_id x) (webhookDeliveries (fst (f y s)))" using here Cons.prems x(2) by auto
    moreover have "pass_part now (fst (f y s)) (fst (fold f ys (f y s)))" using part next_c by (rule fold_part)
    ultimately show ?thesis using handled_advance next_c by (auto simp: pass_part_def)
  qed
qed simp

text \<open>In the event, every due row can still be claimed.\<close>

definition all_claimable :: "ms \<Rightarrow> id \<Rightarrow> webhook_row list \<Rightarrow> bool" where
  "all_claimable now eid rows \<longleftrightarrow>
     list_all (\<lambda>e. wd_eventId e = eid \<longrightarrow> due_row now e \<longrightarrow> wd_attempts e < MAX_DELIVERY_ATTEMPTS) rows"

lemma all_claimable_advance:
  "advance now rows rows' \<Longrightarrow> counted rows \<Longrightarrow> all_claimable now eid rows \<Longrightarrow> all_claimable now eid rows'"
  using due_origin unfolding all_claimable_def list_all_iff by blast

lemma dead_letter_claimable: "all_claimable now eid (webhookDeliveries (deadLetterExpiredFinalAttempts eid now db))"
  unfolding all_claimable_def list_all_iff deadLetterExpiredFinalAttempts_def upd_hooks_simps
  by (auto elim!: in_upd_whereE simp: spent_def due_row_sec)

lemma unavailable_handles: "handled now did (webhookDeliveries (failUnavailableDelivery did now db))"
  unfolding handled_def list_all_iff failUnavailableDelivery_def upd_hooks_simps
  by (auto elim!: in_upd_whereE simp: unavailable_def due_row_sec)

lemma summarize_nil: "summarize now [] = Inr emptySummary"
  by (simp add: summarize_def emptySummary_def)

lemma fst_fold_unit:
  "fst (fold (\<lambda>d s. (failUnavailableDelivery (wd_id d) now (fst s), ())) ds (x, ()))
    = fold (\<lambda>d. failUnavailableDelivery (wd_id d) now) ds x"
  by (induction ds arbitrary: x) simp_all

lemma fail_unavailable_handles:
  assumes "counted (webhookDeliveries db)" "x \<in> set ds"
  shows "handled now (wd_id x) (webhookDeliveries (fold (\<lambda>d. failUnavailableDelivery (wd_id d) now) ds db))"
  using fold_handles [of now "\<lambda>d s. (failUnavailableDelivery (wd_id d) now (fst s), ())" "\<lambda>_. True" "\<lambda>_. True" "(db, ())" x ds]
    assms unavailable_part unavailable_handles
  by (simp add: fst_fold_unit)

text \<open>One pass over an event that is given a fetch: rows only advance, no row of the event is due any more, and the
  outcome sums up the rows.\<close>

lemma pass_result:
  assumes run: "persistent_pass pf (Some f) targets eventType body eid now db w = (r, db', w')"
    and c: "counted (webhookDeliveries db)"
  shows "pass_part now db db' \<and> list_all (\<lambda>e. \<not> due_row now e) (deliveries_of db' eid)
    \<and> r = summarize now (deliveries_of db' eid)"
proof -
  define db1 where "db1 = deadLetterExpiredFinalAttempts eid now db"
  define rows where "rows = deliveries_of db1 eid"
  define dueRows where "dueRows = filter (due_row now) rows"
  define db2 where "db2 = fold (\<lambda>d. failUnavailableDelivery (wd_id d) now) (filter (\<lambda>d. target_of targets d = None) dueRows) db1"
  have p1: "pass_part now db db1" unfolding db1_def by (rule dead_letter_part)
  then have c1: "counted (webhookDeliveries db1)" using c counted_advance by (auto simp: pass_part_def)
  have p2: "pass_part now db1 db2" unfolding db2_def by (rule fail_unavailable_fold [OF c1])
  then have c2: "counted (webhookDeliveries db2)" using c1 counted_advance by (auto simp: pass_part_def)
  have cl2: "all_claimable now eid (webhookDeliveries db2)"
    using p2 c1 dead_letter_claimable all_claimable_advance unfolding db1_def pass_part_def by blast
  show ?thesis
  proof (cases "rows = []")
    case True
    then have "r = Inr emptySummary" "db' = db1" using run by (simp_all add: persistent_pass_def db1_def rows_def Let_def)
    then show ?thesis using p1 True by (simp add: rows_def summarize_nil)
  next
    case False
    obtain g where go: "(db', w') = fold (deliver_row pf g targets eventType body now) rows (db2, w)"
      and r: "r = summarize now (deliveries_of db' eid)"
    proof (cases "list_ex (\<lambda>d. target_of targets d \<noteq> None) dueRows")
      case True
      then show ?thesis using that [of f] run False
        by (simp add: persistent_pass_def db1_def [symmetric] rows_def [symmetric] dueRows_def [symmetric]
          db2_def [symmetric] Let_def requireSafeFetch_def split: prod.splits)
    next
      case none: False
      then show ?thesis using that [of "\<lambda>rq w. (Inl ''undefined'', w)"] run False
        by (simp add: persistent_pass_def db1_def [symmetric] rows_def [symmetric] dueRows_def [symmetric]
          db2_def [symmetric] Let_def split: prod.splits)
    qed
    let ?f = "deliver_row pf g targets eventType body now"
    have db': "db' = fst (fold ?f rows (db2, w))" using go by (metis fst_conv)
    have p3: "pass_part now db2 db'" unfolding db'
      using fold_part [of now ?f "(db2, w)" rows, OF deliver_row_part] c2 by simp
    have "\<not> due_row now e" if e: "e \<in> set (deliveries_of db' eid)" for e
    proof
      assume due: "due_row now e"
      have e': "e \<in> set (webhookDeliveries db')" "wd_eventId e = eid" using e by (auto simp: deliveries_of_def)
      then have "e \<in> set (webhookDeliveries db2)" using due_origin p3 c2 due by (auto simp: pass_part_def)
      then have "e \<in> set (webhookDeliveries db1)" using due_origin p2 c1 due by (auto simp: pass_part_def)
      then have row: "e \<in> set rows" "e \<in> set dueRows" using e'(2) due by (auto simp: rows_def deliveries_of_def dueRows_def)
      have "handled now (wd_id e) (webhookDeliveries db')"
      proof (cases "target_of targets e = None")
        case True
        then have "handled now (wd_id e) (webhookDeliveries db2)"
          unfolding db2_def using row c1 by (intro fail_unavailable_handles) auto
        then show ?thesis using handled_advance p3 c2 by (auto simp: pass_part_def)
      next
        case False
        show ?thesis unfolding db'
        proof (rule fold_handles [where Q = "\<lambda>d. due_row now d \<and> target_of targets d \<noteq> None \<and> wd_eventId d = eid \<and> d = e"
            and R = "\<lambda>rs. all_claimable now eid rs \<and> list_all (\<lambda>x. wd_id x = wd_id e \<longrightarrow> wd_eventId x = eid) rs"])
          fix x :: webhook_row and s :: "outbox \<times> 'a"
          assume "counted (webhookDeliveries (fst s))"
            "due_row now x \<and> target_of targets x \<noteq> None \<and> wd_eventId x = eid \<and> x = e"
            "all_claimable now eid (webhookDeliveries (fst s))
              \<and> list_all (\<lambda>x. wd_id x = wd_id e \<longrightarrow> wd_eventId x = eid) (webhookDeliveries (fst s))"
          then show "handled now (wd_id x) (webhookDeliveries (fst (?f x s)))"
            by (intro deliver_row_handles) (auto simp: all_claimable_def list_all_iff)
        next
          fix rs rs'
          assume a: "advance now rs rs'" "counted rs"
            "all_claimable now eid rs \<and> list_all (\<lambda>x. wd_id x = wd_id e \<longrightarrow> wd_eventId x = eid) rs"
          have "wd_eventId x = eid" if "x \<in> set rs'" "wd_id x = wd_id e" for x
            using advance_origin [OF a(1) that(1)] a(3) that(2) by (auto simp: advanced_def list_all_iff)
          then show "all_claimable now eid rs' \<and> list_all (\<lambda>x. wd_id x = wd_id e \<longrightarrow> wd_eventId x = eid) rs'"
            using a all_claimable_advance by (auto simp: list_all_iff)
        next
          have "wd_eventId x = eid" if "x \<in> set (webhookDeliveries db2)" "wd_id x = wd_id e" for x
          proof -
            have "x = e" using c2 that \<open>e \<in> set (webhookDeliveries db2)\<close> by (auto simp: counted_def distinct_map inj_on_def)
            then show ?thesis using e'(2) by simp
          qed
          then show "all_claimable now eid (webhookDeliveries (fst (db2, w)))
              \<and> list_all (\<lambda>x. wd_id x = wd_id e \<longrightarrow> wd_eventId x = eid) (webhookDeliveries (fst (db2, w)))"
            using cl2 by (simp add: list_all_iff)
        qed (use False due e'(2) row c2 deliver_row_part in auto)
      qed
      then show False using due e'(1) by (auto simp: handled_def list_all_iff)
    qed
    then show ?thesis using r pass_part_trans [OF p1 pass_part_trans [OF p2 p3 c1] c] by (simp add: list_all_iff)
  qed
qed

subsection \<open>Repeating the pass\<close>

text \<open>The queue repeats a pass after the delay that its error asks for; \<open>late k\<close> is how much later it comes to it. The
  fuel \<open>n\<close> counts passes.\<close>

fun deliver_until ::
  "platform \<Rightarrow> (nat \<Rightarrow> string) \<Rightarrow> id \<Rightarrow> string \<Rightarrow> (string \<times> json) list \<Rightarrow> id \<Rightarrow> ms option \<Rightarrow> 'w fetch \<Rightarrow> (nat \<Rightarrow> int) \<Rightarrow> nat
   \<Rightarrow> ms \<Rightarrow> outbox \<Rightarrow> 'w \<Rightarrow> (delivery_summary \<times> outbox \<times> 'w) option" where
  "deliver_until pf uuids ws eventType payload eid ts f late 0 now db w = None"
| "deliver_until pf uuids ws eventType payload eid ts f late (Suc n) now db w =
     (case deliverEvent pf uuids ws eventType payload (Some eid) ts (Some f) now db w of
        (Inr s, db, w) \<Rightarrow> Some (s, db, w)
      | (Inl (DeliveryError c None), db, w) \<Rightarrow> None
      | (Inl (DeliveryError c (Some t)), db, w) \<Rightarrow>
          deliver_until pf uuids ws eventType payload eid ts f late n (now + t + late n) db w)"

declare deliver_until.simps(2) [simp del]

definition initialized :: "id \<Rightarrow> outbox \<Rightarrow> bool" where
  "initialized eid db \<longleftrightarrow>
     (case first_row (filter (\<lambda>e. pe_id e = eid) (pendingEvents db)) of None \<Rightarrow> False | Some e \<Rightarrow> pe_webhookInitialized e)"

lemma initialized_noop: "initialized eid db \<Longrightarrow> initializePersistentDeliveries pf eid targets now db = (True, db)"
  by (simp add: initialized_def initializePersistentDeliveries_def split: option.splits)

text \<open>What summing up says when a row is left, and when none is.\<close>

lemma fold_min:
  "fold (\<lambda>d m. if g d < m then g d else m) xs (a :: int) = Min (insert a (g ` set xs))"
proof (induction xs arbitrary: a)
  case (Cons x xs)
  have "fold (\<lambda>d m. if g d < m then g d else m) (x # xs) a = Min (insert (min a (g x)) (g ` set xs))"
    using Cons.IH [of "if g x < a then g x else a"] by (simp add: min_def not_less)
  also have "\<dots> = Min (insert a (g ` set (x # xs)))"
    by (cases "xs = []") (simp_all add: min.assoc)
  finally show ?case .
qed simp

lemma summarize_pending:
  assumes "filter (\<lambda>d. wd_status d = WhPending) rows \<noteq> []"
  obtains m where "m \<in> set rows" "wd_status m = WhPending"
    and "summarize now rows = Inl (retryable_failure (Some (max 0 (wd_nextAttemptAt m * 1000 - now))))"
proof -
  let ?ps = "filter (\<lambda>d. wd_status d = WhPending) rows"
  let ?m = "Min (insert (wd_nextAttemptAt (hd ?ps)) (wd_nextAttemptAt ` set ?ps))"
  have hd: "hd ?ps \<in> set ?ps" using assms by (rule hd_in_set)
  then have "?m \<in> wd_nextAttemptAt ` set ?ps"
    by (metis (mono_tags, lifting) List.finite_set Min_in empty_iff finite_imageI image_eqI insert_absorb)
  then obtain m where "m \<in> set ?ps" "wd_nextAttemptAt m = ?m" by (metis (mono_tags, lifting) imageE)
  moreover have "summarize now rows = Inl (retryable_failure (Some (max 0 (?m * 1000 - now))))"
    using assms by (simp add: summarize_def Let_def fold_min)
  ultimately show ?thesis using that [of m] by simp
qed

lemma summarize_settled:
  "filter (\<lambda>d. wd_status d = WhPending) rows = [] \<Longrightarrow> \<exists>s. summarize now rows = Inr s"
  by (simp add: summarize_def Let_def)

text \<open>One round: the event is settled, or the next round meets a due row.\<close>

lemma round_cases:
  assumes init: "initialized eid db" and eid: "eid \<noteq> []" and c: "counted (webhookDeliveries db)"
  obtains (settled) s db' w' where
      "deliver_until pf uuids ws eventType payload eid ts f late (Suc n) now db w = Some (s, db', w')"
      "filter (\<lambda>d. wd_status d = WhPending) (deliveries_of db' eid) = []" "pass_part now db db'"
  | (again) t db' w' m where
      "deliver_until pf uuids ws eventType payload eid ts f late (Suc n) now db w
        = deliver_until pf uuids ws eventType payload eid ts f late n (now + t + late n) db' w'"
      "pass_part now db db'" "list_all (\<lambda>e. \<not> due_row now e) (deliveries_of db' eid)"
      "m \<in> set (deliveries_of db' eid)" "wd_status m = WhPending" "wd_nextAttemptAt m * 1000 \<le> now + t" "0 \<le> t"
proof -
  define targets where "targets = filter (\<lambda>t. matchesFilter (dt_filter t) payload) (activeTargets db ws eventType)"
  define body where "body = event_body pf eventType ws (case ts of Some t \<Rightarrow> t | None \<Rightarrow>
    (case map_option (\<lambda>e. pe_createdAt e * 1000) (first_row (filter (\<lambda>e. pe_id e = eid) (pendingEvents db))) of
       Some t \<Rightarrow> t | None \<Rightarrow> now)) payload"
  have tr: "truthy (Some eid) = Some eid" using eid by (cases eid) (simp_all add: truthy_def)
  obtain r db' w' where run: "persistent_pass pf (Some f) targets eventType body eid now db w = (r, db', w')"
    using prod_cases3 by blast
  have ev: "deliverEvent pf uuids ws eventType payload (Some eid) ts (Some f) now db w = (r, db', w')"
    using run unfolding body_def targets_def
    by (cases ts) (simp_all add: deliverEvent_def tr Let_def initialized_noop [OF init])
  from pass_result [OF run c] have res: "pass_part now db db'" "list_all (\<lambda>e. \<not> due_row now e) (deliveries_of db' eid)"
    "r = summarize now (deliveries_of db' eid)" by simp_all
  show ?thesis
  proof (cases "filter (\<lambda>d. wd_status d = WhPending) (deliveries_of db' eid) = []")
    case True
    then obtain s where "r = Inr s" using res(3) summarize_settled by metis
    then show ?thesis using True res(1) by (intro settled) (simp_all add: deliver_until.simps(2) ev)
  next
    case False
    then obtain m where m: "m \<in> set (deliveries_of db' eid)" "wd_status m = WhPending"
      "r = Inl (retryable_failure (Some (max 0 (wd_nextAttemptAt m * 1000 - now))))"
      using res(3) by (metis summarize_pending)
    show ?thesis
      by (rule again [of "max 0 (wd_nextAttemptAt m * 1000 - now)" db' w' m])
        (use m res in \<open>simp_all add: deliver_until.simps(2) ev retryable_failure_def\<close>)
  qed
qed

subsection \<open>The event settles\<close>

lemma initialized_part: "pass_part now db db' \<Longrightarrow> initialized eid db' = initialized eid db"
  by (simp add: pass_part_def initialized_def)

lemma counted_part: "pass_part now db db' \<Longrightarrow> counted (webhookDeliveries db) \<Longrightarrow> counted (webhookDeliveries db')"
  using counted_advance by (auto simp: pass_part_def)

lemma advance_filter:
  "advance now rows rows' \<Longrightarrow>
   advance now (filter (\<lambda>d. wd_eventId d = eid) rows) (filter (\<lambda>d. wd_eventId d = eid) rows')"
  unfolding advance_def by (induction rule: list_all2_induct) (auto simp: advanced_def)

lemma deliveries_advance: "pass_part now db db' \<Longrightarrow> advance now (deliveries_of db eid) (deliveries_of db' eid)"
  by (simp add: pass_part_def deliveries_of_def advance_filter)

lemma counted_deliveries: "counted (webhookDeliveries db) \<Longrightarrow> list_all (\<lambda>d. 0 \<le> wd_attempts d) (deliveries_of db eid)"
  by (auto simp: counted_def deliveries_of_def list_all_iff)

text \<open>How many attempts the pending rows of an event may still use.\<close>

definition rank :: "webhook_row \<Rightarrow> nat" where
  "rank d = (if wd_status d = WhPending then 1 + nat (7 - wd_attempts d) else 0)"

definition attempts_left :: "outbox \<Rightarrow> id \<Rightarrow> nat" where
  "attempts_left db eid = sum_list (map rank (deliveries_of db eid))"

lemma rank_advanced: "advanced now d e \<Longrightarrow> rank e \<le> rank d"
  by (auto simp: advanced_def rank_def waits_def due_row_def)

lemma rank_due: "advanced now d e \<Longrightarrow> due_row now d \<Longrightarrow> \<not> due_row now e \<Longrightarrow> rank e < rank d"
  by (auto simp: advanced_def rank_def waits_def due_row_def)

lemma sum_rank_advance:
  "list_all2 (advanced now) xs ys \<Longrightarrow> sum_list (map rank ys) \<le> sum_list (map rank xs)"
  by (induction rule: list_all2_induct) (auto intro: add_mono rank_advanced)

lemma sum_rank_due:
  "list_all2 (advanced now) xs ys \<Longrightarrow> list_ex (due_row now) xs \<Longrightarrow> list_all (\<lambda>e. \<not> due_row now e) ys \<Longrightarrow>
   sum_list (map rank ys) < sum_list (map rank xs)"
proof (induction rule: list_all2_induct)
  case (Cons x xs y ys)
  show ?case
  proof (cases "due_row now x")
    case True
    then have "rank y < rank x" using rank_due Cons by auto
    then show ?thesis using sum_rank_advance [of now xs ys] Cons by simp
  next
    case False
    then have "sum_list (map rank ys) < sum_list (map rank xs)" using Cons by simp
    then show ?thesis using rank_advanced [of now x y] Cons by simp
  qed
qed simp

text \<open>A pending row that is due by the next pass is due then.\<close>

lemma pending_due: "wd_status m = WhPending \<Longrightarrow> wd_nextAttemptAt m * 1000 \<le> now \<Longrightarrow> now \<le> now' \<Longrightarrow> due_row now' m"
  by (simp add: due_row_def)

lemma settles_when_due:
  assumes "initialized eid db" "eid \<noteq> []" "counted (webhookDeliveries db)" "\<And>k. 0 \<le> late k"
    and "attempts_left db eid \<le> n" "list_ex (due_row now) (deliveries_of db eid)"
  shows "\<exists>s db' w'. deliver_until pf uuids ws eventType payload eid ts f late n now db w = Some (s, db', w')
    \<and> list_all (\<lambda>d. wd_status d \<noteq> WhPending) (deliveries_of db' eid)"
  using assms(1,3,5,6)
proof (induction n arbitrary: now db w)
  case 0
  obtain d where "d \<in> set (deliveries_of db eid)" "due_row now d" using "0.prems"(4) by (auto simp: list_ex_iff)
  then have "0 < rank d" "rank d \<in> set (map rank (deliveries_of db eid))" by (auto simp: rank_def due_row_def)
  then have "0 < attempts_left db eid"
    using member_le_sum_list [of "rank d" "map rank (deliveries_of db eid)"] by (simp add: attempts_left_def)
  then show ?case using "0.prems"(3) by simp
next
  case (Suc n)
  show ?case
  proof (rule round_cases [OF Suc.prems(1) assms(2) Suc.prems(2), of pf uuids ws eventType payload ts f late n now w])
    fix s db' w'
    assume "deliver_until pf uuids ws eventType payload eid ts f late (Suc n) now db w = Some (s, db', w')"
      "filter (\<lambda>d. wd_status d = WhPending) (deliveries_of db' eid) = []"
    then show ?thesis by (auto simp: filter_empty_conv list_all_iff)
  next
    fix t db' w' m
    assume run: "deliver_until pf uuids ws eventType payload eid ts f late (Suc n) now db w
        = deliver_until pf uuids ws eventType payload eid ts f late n (now + t + late n) db' w'"
      and part: "pass_part now db db'" and none: "list_all (\<lambda>e. \<not> due_row now e) (deliveries_of db' eid)"
      and m: "m \<in> set (deliveries_of db' eid)" "wd_status m = WhPending" "wd_nextAttemptAt m * 1000 \<le> now + t"
    have "attempts_left db' eid < attempts_left db eid"
      using sum_rank_due [OF deliveries_advance [OF part, of eid, unfolded advance_def] Suc.prems(4) none]
      by (simp add: attempts_left_def)
    then have "attempts_left db' eid \<le> n" using Suc.prems(3) by simp
    moreover have "due_row (now + t + late n) m" using pending_due m(2,3) assms(4) [of n] by simp
    ultimately show ?thesis
      using Suc.IH [of db' "now + t + late n" w'] run m(1) initialized_part [OF part] counted_part [OF part] Suc.prems(1,2)
      by (auto simp: list_ex_iff)
  qed
qed

text \<open>C23: Whatever was stored when a worker stopped, and whatever the subscribers answer, repeating the pass at the times
  it asks for, or later, ends: it settles every delivery of the event within as many passes as the pending
  deliveries have attempts left, and two.\<close>
theorem redelivery_terminates:
  assumes "initialized eid db" "eid \<noteq> []" "counted (webhookDeliveries db)" "\<And>k. 0 \<le> late k"
  shows "\<exists>s db' w'. deliver_until pf uuids ws eventType payload eid ts f late (attempts_left db eid + 2) now db w = Some (s, db', w')
    \<and> list_all (\<lambda>d. wd_status d \<noteq> WhPending) (deliveries_of db' eid)"
proof (rule round_cases [OF assms(1-3), of pf uuids ws eventType payload ts f late "attempts_left db eid + 1" now w])
  fix s db' w'
  assume "deliver_until pf uuids ws eventType payload eid ts f late (Suc (attempts_left db eid + 1)) now db w = Some (s, db', w')"
    "filter (\<lambda>d. wd_status d = WhPending) (deliveries_of db' eid) = []"
  then show ?thesis by (auto simp: filter_empty_conv list_all_iff)
next
  fix t db' w' m
  let ?n = "attempts_left db eid + 1"
  assume run: "deliver_until pf uuids ws eventType payload eid ts f late (Suc ?n) now db w
      = deliver_until pf uuids ws eventType payload eid ts f late ?n (now + t + late ?n) db' w'"
    and part: "pass_part now db db'"
    and m: "m \<in> set (deliveries_of db' eid)" "wd_status m = WhPending" "wd_nextAttemptAt m * 1000 \<le> now + t"
  have "attempts_left db' eid \<le> attempts_left db eid"
    using sum_rank_advance [OF deliveries_advance [OF part, of eid, unfolded advance_def]] by (simp add: attempts_left_def)
  moreover have "due_row (now + t + late ?n) m" using pending_due m(2,3) assms(4) [of ?n] by simp
  ultimately have "list_ex (due_row (now + t + late ?n)) (deliveries_of db' eid)" "attempts_left db' eid \<le> ?n"
    using m(1) by (auto simp: list_ex_iff)
  moreover have "initialized eid db'" "counted (webhookDeliveries db')"
    using initialized_part [OF part] counted_part [OF part] assms by simp_all
  ultimately have "\<exists>s db'' w''. deliver_until pf uuids ws eventType payload eid ts f late ?n (now + t + late ?n) db' w' = Some (s, db'', w'')
      \<and> list_all (\<lambda>d. wd_status d \<noteq> WhPending) (deliveries_of db'' eid)"
    using assms(2,4) by (intro settles_when_due)
  then show ?thesis using run by simp
qed

subsection \<open>A new event takes at most seven passes\<close>

definition lockstep :: "int \<Rightarrow> sec \<Rightarrow> webhook_row list \<Rightarrow> bool" where
  "lockstep k t rows \<longleftrightarrow> list_all (\<lambda>d. wd_status d = WhPending \<longrightarrow> wd_attempts d = k \<and> wd_nextAttemptAt d = t) rows"

lemma lockstep_advance:
  assumes "advance now rows rows'" "lockstep k t rows" "t \<le> toSec now" "list_all (\<lambda>e. \<not> due_row now e) rows'"
  shows "if k < 6 then lockstep (k + 1) (toSec (now + WEBHOOK_RETRY_DELAYS_MS ! nat k)) rows'
    else list_all (\<lambda>e. wd_status e \<noteq> WhPending) rows'"
proof -
  have "k < 6 \<and> wd_attempts e = k + 1 \<and> wd_nextAttemptAt e = toSec (now + WEBHOOK_RETRY_DELAYS_MS ! nat k)"
    if e: "e \<in> set rows'" "wd_status e = WhPending" for e
  proof -
    obtain d where d: "d \<in> set rows" "advanced now d e" using advance_origin [OF assms(1) e(1)] by blast
    have "wd_status d = WhPending" using d(2) e(2) by (auto simp: advanced_def due_row_def)
    then have at: "wd_attempts d = k" "wd_nextAttemptAt d = t" using d(1) assms(2) by (auto simp: lockstep_def list_all_iff)
    then have "due_row now d" using \<open>wd_status d = WhPending\<close> assms(3) by (simp add: due_row_sec)
    then have "e \<noteq> d" using assms(4) e(1) by (auto simp: list_all_iff)
    then show ?thesis using d(2) e(2) at by (auto simp: advanced_def waits_def)
  qed
  then show ?thesis by (auto simp: lockstep_def list_all_iff)
qed

lemma lockstep_settles:
  assumes "eid \<noteq> []" "\<And>j. 0 \<le> late j"
    and "initialized eid db" "counted (webhookDeliveries db)" "lockstep k t (deliveries_of db eid)" "t \<le> toSec now"
    and "0 \<le> k" "k + int n = 7"
  shows "\<exists>s db' w'. deliver_until pf uuids ws eventType payload eid ts f late n now db w = Some (s, db', w')
    \<and> list_all (\<lambda>d. wd_status d \<noteq> WhPending) (deliveries_of db' eid)
    \<or> n = 0"
  using assms(3-)
proof (induction n arbitrary: k t now db w)
  case (Suc n)
  show ?case
  proof (rule round_cases [OF Suc.prems(1) assms(1) Suc.prems(2), of pf uuids ws eventType payload ts f late n now w])
    fix s db' w'
    assume "deliver_until pf uuids ws eventType payload eid ts f late (Suc n) now db w = Some (s, db', w')"
      "filter (\<lambda>d. wd_status d = WhPending) (deliveries_of db' eid) = []"
    then show ?thesis by (auto simp: filter_empty_conv list_all_iff)
  next
    fix r db' w' m
    assume run: "deliver_until pf uuids ws eventType payload eid ts f late (Suc n) now db w
        = deliver_until pf uuids ws eventType payload eid ts f late n (now + r + late n) db' w'"
      and part: "pass_part now db db'" and none: "list_all (\<lambda>e. \<not> due_row now e) (deliveries_of db' eid)"
      and m: "m \<in> set (deliveries_of db' eid)" "wd_status m = WhPending" "wd_nextAttemptAt m * 1000 \<le> now + r"
    let ?t = "toSec (now + WEBHOOK_RETRY_DELAYS_MS ! nat k)"
    have step: "if k < 6 then lockstep (k + 1) ?t (deliveries_of db' eid)
        else list_all (\<lambda>e. wd_status e \<noteq> WhPending) (deliveries_of db' eid)"
      by (rule lockstep_advance [OF deliveries_advance [OF part] Suc.prems(3,4) none])
    then have k: "k < 6" "lockstep (k + 1) ?t (deliveries_of db' eid)"
      using m(1,2) by (auto simp: list_all_iff split: if_splits)
    have "due_row (now + r + late n) m" using pending_due m(2,3) assms(2) [of n] by simp
    moreover have "wd_nextAttemptAt m = ?t" using k(2) m(1,2) by (auto simp: lockstep_def list_all_iff)
    ultimately have "?t \<le> toSec (now + r + late n)" by (simp add: due_row_sec)
    then have "\<exists>s db'' w''. deliver_until pf uuids ws eventType payload eid ts f late n (now + r + late n) db' w' = Some (s, db'', w'')
        \<and> list_all (\<lambda>d. wd_status d \<noteq> WhPending) (deliveries_of db'' eid) \<or> n = 0"
      using Suc.IH [of db' "k + 1" ?t "now + r + late n" w'] k Suc.prems initialized_part [OF part] counted_part [OF part]
      by auto
    moreover have "n \<noteq> 0" using k(1) Suc.prems(6) by auto
    ultimately show ?thesis using run by simp
  qed
qed simp

lemma filter_upd_same: "(\<And>r. P (f r) = P r) \<Longrightarrow> filter P (upd_where P f rows) = map f (filter P rows)"
  by (induction rows) auto

text \<open>A pass that finds the event new is the pass after its rows were written.\<close>

lemma deliverEvent_initialize:
  assumes "eid \<noteq> []"
    and "initializePersistentDeliveries pf eid
      (filter (\<lambda>t. matchesFilter (dt_filter t) payload) (activeTargets db ws eventType)) now db = (True, db1)"
  shows "deliverEvent pf uuids ws eventType payload (Some eid) ts (Some f) now db w
      = deliverEvent pf uuids ws eventType payload (Some eid) ts (Some f) now db1 w"
    and "initialized eid db1"
proof -
  obtain e where e: "first_row (filter (\<lambda>e. pe_id e = eid) (pendingEvents db)) = Some e"
    using assms(2) by (auto simp: initializePersistentDeliveries_def split: option.splits)
  have fields: "eventSubscriptions db1 = eventSubscriptions db
    \<and> map_option pe_createdAt (first_row (filter (\<lambda>e. pe_id e = eid) (pendingEvents db1))) = Some (pe_createdAt e)
    \<and> initialized eid db1"
  proof (cases "pe_webhookInitialized e")
    case True
    then show ?thesis using assms(2) e by (simp add: initializePersistentDeliveries_def initialized_def)
  next
    case False
    have "first_row (filter (\<lambda>e. pe_id e = eid)
        (upd_where (\<lambda>e. pe_id e = eid) (\<lambda>e. e\<lparr>pe_webhookInitialized := True\<rparr>) (pendingEvents db)))
      = Some (e\<lparr>pe_webhookInitialized := True\<rparr>)"
      using e by (subst filter_upd_same) (auto simp: first_row_def split: list.splits)
    then show ?thesis using False assms(2) e by (auto simp: initializePersistentDeliveries_def initialized_def)
  qed
  then show init: "initialized eid db1" by simp
  have act: "activeTargets db1 ws eventType = activeTargets db ws eventType"
    using fields by (simp add: activeTargets_def getActiveSubscriptions_def)
  have created: "map_option (\<lambda>e. pe_createdAt e * 1000) (first_row (filter (\<lambda>e. pe_id e = eid) (pendingEvents db1)))
      = map_option (\<lambda>e. pe_createdAt e * 1000) (first_row (filter (\<lambda>e. pe_id e = eid) (pendingEvents db)))"
    using fields e by auto
  have tr: "truthy (Some eid) = Some eid" using assms(1) by (cases eid) (simp_all add: truthy_def)
  show "deliverEvent pf uuids ws eventType payload (Some eid) ts (Some f) now db w
      = deliverEvent pf uuids ws eventType payload (Some eid) ts (Some f) now db1 w"
    unfolding deliverEvent_def Let_def tr option.case created act assms(2) initialized_noop [OF init] by simp
qed

lemma counted_insert: "counted rows \<Longrightarrow> wd_attempts d = 0 \<Longrightarrow> counted (insert_unless_conflict d rows)"
  by (auto simp: counted_def insert_unless_conflict_def list_ex_iff list_all_iff delivery_conflicts_def)

lemma fold_insert_facts:
  assumes "counted rows" "list_all (\<lambda>d. wd_attempts d = 0 \<and> wd_nextAttemptAt d = t) ds"
    and "lockstep 0 t (filter (\<lambda>d. wd_eventId d = eid) rows)"
  shows "counted (fold insert_unless_conflict ds rows)
    \<and> lockstep 0 t (filter (\<lambda>d. wd_eventId d = eid) (fold insert_unless_conflict ds rows))"
  using assms
proof (induction ds arbitrary: rows)
  case (Cons d ds)
  have "lockstep 0 t (filter (\<lambda>d. wd_eventId d = eid) (insert_unless_conflict d rows))"
    using Cons.prems by (auto simp: lockstep_def insert_unless_conflict_def)
  then show ?case using Cons.IH [of "insert_unless_conflict d rows"] counted_insert Cons.prems by simp
qed simp

text \<open>The subscriptions that an event is for, read off the table.\<close>

definition subscribers :: "outbox \<Rightarrow> id \<Rightarrow> string \<Rightarrow> (string \<times> json) list \<Rightarrow> subscription_row list" where
  "subscribers db ws eventType payload =
     filter (\<lambda>s. es_ws s = ws \<and> es_isActive s \<and> (eventType \<in> set (es_events s) \<or> ''*'' \<in> set (es_events s))
                \<and> matchesFilter (es_filter s) payload) (eventSubscriptions db)"

lemma targets_of_subscribers:
  "filter (\<lambda>t. matchesFilter (dt_filter t) payload) (activeTargets db ws eventType) = map delivery_target_of (subscribers db ws eventType payload)"
proof -
  have "dt_filter (delivery_target_of s) = es_filter s" for s by (simp add: delivery_target_of_def)
  then show ?thesis
    by (auto simp: activeTargets_def getActiveSubscriptions_def subscribers_def filter_map comp_def intro!: arg_cong [where f = "map _"] filter_cong)
qed

text \<open>Rows whose identifiers and subscriptions are all new are appended.\<close>

lemma fold_insert_new:
  assumes "distinct (map wd_id ds @ map wd_id rows)" "distinct (map wd_subscriptionId ds)"
    and "\<And>d. d \<in> set ds \<Longrightarrow> wd_eventId d = eid" "\<And>d r. d \<in> set ds \<Longrightarrow> r \<in> set rows \<Longrightarrow> wd_eventId r = eid \<Longrightarrow> wd_subscriptionId r \<noteq> wd_subscriptionId d"
  shows "fold insert_unless_conflict ds rows = rows @ ds"
  using assms
proof (induction ds arbitrary: rows)
  case (Cons d ds)
  have ids: "wd_id d \<notin> wd_id ` set rows" using Cons.prems(1) by simp
  have "wd_eventId r = wd_eventId d \<Longrightarrow> wd_subscriptionId r \<noteq> wd_subscriptionId d" "wd_id r \<noteq> wd_id d" if "r \<in> set rows" for r
    using Cons.prems(4) [of d r] Cons.prems(3) [of d] that ids [unfolded image_iff] by auto
  then have "\<not> list_ex (delivery_conflicts d) rows" unfolding list_ex_iff delivery_conflicts_def by metis
  then have "insert_unless_conflict d rows = rows @ [d]" by (simp add: insert_unless_conflict_def)
  moreover have "fold insert_unless_conflict ds (rows @ [d]) = (rows @ [d]) @ ds"
  proof (rule Cons.IH)
    show "distinct (map wd_id ds @ map wd_id (rows @ [d]))" "distinct (map wd_subscriptionId ds)" using Cons.prems(1,2) by auto
    show "wd_eventId x = eid" if "x \<in> set ds" for x using Cons.prems(3) that by simp
    show "wd_subscriptionId r \<noteq> wd_subscriptionId x" if "x \<in> set ds" "r \<in> set (rows @ [d])" "wd_eventId r = eid" for x r
      using Cons.prems(2) Cons.prems(4) [of x r] that by force
  qed
  ultimately show ?case by simp
qed simp

lemma deliver_until_targets:
  "initialized eid db \<Longrightarrow> eid \<noteq> [] \<Longrightarrow> counted (webhookDeliveries db) \<Longrightarrow>
   deliver_until pf uuids ws eventType payload eid ts f late n now db w = Some (s, db', w') \<Longrightarrow>
   map wd_subscriptionId (deliveries_of db' eid) = map wd_subscriptionId (deliveries_of db eid)"
proof (induction n arbitrary: now db w)
  case (Suc n)
  have same: "map wd_subscriptionId (deliveries_of db1 eid) = map wd_subscriptionId (deliveries_of db eid)" if "pass_part now db db1" for db1
  proof -
    have "list_all2 (advanced now) xs ys \<Longrightarrow> map wd_subscriptionId ys = map wd_subscriptionId xs" for xs ys
      by (induction rule: list_all2_induct) (simp_all add: advanced_def)
    then show ?thesis using deliveries_advance [OF that, of eid] unfolding advance_def by blast
  qed
  show ?case
  proof (rule round_cases [OF Suc.prems(1-3), of pf uuids ws eventType payload ts f late n now w])
    fix s1 db1 w1
    assume "deliver_until pf uuids ws eventType payload eid ts f late (Suc n) now db w = Some (s1, db1, w1)" "pass_part now db db1"
    then show ?thesis using Suc.prems(4) same [of db1] by simp
  next
    fix t db1 w1 m
    assume run: "deliver_until pf uuids ws eventType payload eid ts f late (Suc n) now db w
        = deliver_until pf uuids ws eventType payload eid ts f late n (now + t + late n) db1 w1" and part: "pass_part now db db1"
    then show ?thesis
      using Suc.IH [of db1 "now + t + late n" w1] Suc.prems same [OF part] initialized_part [OF part] counted_part [OF part] by simp
  qed
qed simp

text \<open>C1: An event that was just queued is settled for every subscriber within seven passes, whatever they answer or fail
  to answer, when each pass comes at the time the one before asked for, or later: there is then exactly one delivery
  for each active subscription of the workspace that names the type of the event, or all types, and whose filter
  matches the payload, there is none for any other, and none is still pending. So the queue, which allows an event 32 claims, never
  gives up on an event before its deliveries are settled. The digests that identify the deliveries must not collide.\<close>
theorem new_event_settles:
  assumes "find (\<lambda>e. pe_id e = eid) (pendingEvents db) = Some e" "\<not> pe_webhookInitialized e" "eid \<noteq> []"
    and "counted (webhookDeliveries db)" "deliveries_of db eid = []" "\<And>k. 0 \<le> late k"
    and "distinct (map es_id (eventSubscriptions db))"
    and "distinct (map (\<lambda>s. stableDeliveryId pf eid (es_id s)) (subscribers db ws eventType payload) @ map wd_id (webhookDeliveries db))"
  shows "\<exists>s db' w'. deliver_until pf uuids ws eventType payload eid ts f late 7 now db w = Some (s, db', w')
    \<and> map wd_subscriptionId (deliveries_of db' eid) = map es_id (subscribers db ws eventType payload)
    \<and> list_all (\<lambda>d. wd_status d \<noteq> WhPending) (deliveries_of db' eid)"
proof -
  let ?subs = "subscribers db ws eventType payload"
  let ?targets = "map delivery_target_of ?subs" and ?ds = "map (\<lambda>s. new_delivery pf eid now (delivery_target_of s)) (subscribers db ws eventType payload)"
  have "first_row (filter P xs) = find P xs" for P and xs :: "event_row list" by (induction xs) auto
  then have first: "first_row (filter (\<lambda>e. pe_id e = eid) (pendingEvents db)) = Some e" using assms(1) by simp
  obtain db1 where db1: "initializePersistentDeliveries pf eid ?targets now db = (True, db1)"
    and rows: "webhookDeliveries db1 = fold insert_unless_conflict ?ds (webhookDeliveries db)"
    using first assms(2) by (simp add: initializePersistentDeliveries_def comp_def)
  have "fold insert_unless_conflict ?ds (webhookDeliveries db) = webhookDeliveries db @ ?ds"
  proof (rule fold_insert_new [where eid = eid])
    show "distinct (map wd_id ?ds @ map wd_id (webhookDeliveries db))"
      using assms(8) by (simp add: new_delivery_def delivery_target_of_def comp_def)
    have "distinct (map es_id ?subs)" using assms(7) by (simp add: subscribers_def distinct_map_filter)
    then show "distinct (map wd_subscriptionId ?ds)" by (simp add: new_delivery_def delivery_target_of_def comp_def)
    show "wd_subscriptionId r \<noteq> wd_subscriptionId d" if "r \<in> set (webhookDeliveries db)" "wd_eventId r = eid" for d r
      using that assms(5) by (auto simp: deliveries_of_def filter_empty_conv)
  qed (auto simp: new_delivery_def)
  then have new: "map wd_subscriptionId (deliveries_of db1 eid) = map es_id ?subs"
    using assms(5) by (simp add: deliveries_of_def rows new_delivery_def delivery_target_of_def filter_map comp_def)
  have "list_all (\<lambda>d. wd_attempts d = 0 \<and> wd_nextAttemptAt d = toSec now) ?ds"
    by (simp add: list_all_iff new_delivery_def)
  moreover have "lockstep 0 (toSec now) (filter (\<lambda>d. wd_eventId d = eid) (webhookDeliveries db))"
    using assms(5) by (simp add: deliveries_of_def lockstep_def)
  ultimately have c: "counted (webhookDeliveries db1)" "lockstep 0 (toSec now) (deliveries_of db1 eid)"
    using fold_insert_facts [OF assms(4)] unfolding rows deliveries_of_def by blast+
  note init = deliverEvent_initialize [OF assms(3) db1 [folded targets_of_subscribers]]
  have "\<exists>s db' w'. deliver_until pf uuids ws eventType payload eid ts f late 7 now db1 w = Some (s, db', w')
    \<and> list_all (\<lambda>d. wd_status d \<noteq> WhPending) (deliveries_of db' eid) \<or> (7::nat) = 0"
    using c by (intro lockstep_settles [where k = 0 and t = "toSec now", OF assms(3,6) init(2)]) simp_all
  then obtain s db' w' where run: "deliver_until pf uuids ws eventType payload eid ts f late 7 now db1 w = Some (s, db', w')"
    "list_all (\<lambda>d. wd_status d \<noteq> WhPending) (deliveries_of db' eid)" by auto
  have "deliver_until pf uuids ws eventType payload eid ts f late (Suc n) now db w
      = deliver_until pf uuids ws eventType payload eid ts f late (Suc n) now db1 w" for n
    by (simp only: deliver_until.simps(2) init(1))
  then have "deliver_until pf uuids ws eventType payload eid ts f late 7 now db w
      = deliver_until pf uuids ws eventType payload eid ts f late 7 now db1 w" by (simp add: numeral_eq_Suc)
  then show ?thesis using run deliver_until_targets [OF init(2) assms(3) c(1) run(1)] new by simp
qed

subsection \<open>Witnesses\<close>

definition wx_pf :: platform where
  "wx_pf = \<lparr>pf_parseUrl = (\<lambda>s. Some \<lparr>pu_href = s, pu_protocol = ''https:'', pu_hostname = s\<rparr>), pf_hmac = (\<lambda>k m. []),
     pf_hmacSha256Hex = (\<lambda>s k. []), pf_sha256Hex = (\<lambda>s. ''x''), pf_toISOString = (\<lambda>t. [])\<rparr>"

definition wx_event :: "bool \<Rightarrow> event_row" where
  "wx_event b = \<lparr>pe_id = ''e'', pe_ws = ''w'', pe_eventType = ''t'', pe_payload = [], pe_status = EvPending, pe_attempts = 0,
     pe_maxAttempts = 32, pe_webhookInitialized = b, pe_lastError = None, pe_createdAt = 0, pe_processAfter = 0, pe_completedAt = None\<rparr>"

definition wx_row :: webhook_row where
  "wx_row = \<lparr>wd_id = ''whd_x'', wd_eventId = ''e'', wd_subscriptionId = ''s'', wd_status = WhPending, wd_attempts = 3,
     wd_nextAttemptAt = 60, wd_lastError = None, wd_lastStatus = None, wd_createdAt = 0, wd_completedAt = None\<rparr>"

definition wx_subscription :: subscription_row where
  "wx_subscription = \<lparr>es_id = ''s'', es_ws = ''w'', es_events = [''*''], es_filter = None, es_url = ''a.b'', es_headers = None,
     es_secret = None, es_signatureScheme = Legacy, es_isActive = True, es_createdAt = 0\<rparr>"

definition wx_db :: "bool \<Rightarrow> webhook_row list \<Rightarrow> outbox" where
  "wx_db b rows = \<lparr>eventSubscriptions = [wx_subscription], pendingEvents = [wx_event b], webhookDeliveries = rows\<rparr>"

definition wx_two :: outbox where
  "wx_two = (wx_db False [])\<lparr>eventSubscriptions := [wx_subscription, wx_subscription\<lparr>es_id := ''off'', es_isActive := False\<rparr>,
     wx_subscription\<lparr>es_id := ''u'', es_events := [''t'']\<rparr>]\<rparr>"

theorem new_event_settles_witness:
  "\<exists>s db' w'. deliver_until (wx_pf\<lparr>pf_sha256Hex := (\<lambda>s. s)\<rparr>) (\<lambda>i. []) ''w'' ''t'' [] ''e'' None (\<lambda>rq w. (Inr 503, Suc w)) (\<lambda>k. 0) 7 0 wx_two 0
      = Some (s, db', w')
    \<and> map wd_subscriptionId (deliveries_of db' ''e'') = [''s'', ''u'']
    \<and> list_all (\<lambda>d. wd_status d \<noteq> WhPending) (deliveries_of db' ''e'')"
proof -
  have subs: "subscribers wx_two ''w'' ''t'' [] = [wx_subscription, wx_subscription\<lparr>es_id := ''u'', es_events := [''t'']\<rparr>]"
    by (simp add: subscribers_def wx_two_def wx_subscription_def matchesFilter_def)
  show ?thesis
    using new_event_settles [of "''e''" wx_two "wx_event False" "\<lambda>k. 0" "wx_pf\<lparr>pf_sha256Hex := (\<lambda>s. s)\<rparr>" "''w''" "''t''" "[]"
        "\<lambda>i. []" None "\<lambda>rq w. (Inr 503, Suc w)" 0 "0::nat"]
    unfolding subs
    by (simp add: wx_two_def wx_db_def wx_event_def counted_def deliveries_of_def wx_subscription_def stableDeliveryId_def wx_pf_def)
qed

theorem redelivery_terminates_witness:
  "attempts_left (wx_db True [wx_row]) ''e'' = 5
   \<and> (\<exists>s db' w'. deliver_until wx_pf (\<lambda>i. []) ''w'' ''t'' [] ''e'' None (\<lambda>rq w. (Inr 503, Suc w)) (\<lambda>k. 0) (5 + 2) 0 (wx_db True [wx_row]) 0
        = Some (s, db', w')
      \<and> list_all (\<lambda>d. wd_status d \<noteq> WhPending) (deliveries_of db' ''e''))"
proof -
  have left: "attempts_left (wx_db True [wx_row]) ''e'' = 5"
    by (simp add: attempts_left_def deliveries_of_def wx_db_def wx_row_def rank_def)
  have "initialized ''e'' (wx_db True [wx_row])" "counted (webhookDeliveries (wx_db True [wx_row]))"
    by (simp_all add: initialized_def wx_db_def wx_event_def counted_def wx_row_def)
  then show ?thesis
    using redelivery_terminates [of "''e''" "wx_db True [wx_row]" "\<lambda>k. 0" wx_pf "\<lambda>i. []" "''w''" "''t''" "[]" None
      "\<lambda>rq w. (Inr 503, Suc w)" 0 "0::nat"] left by simp
qed

end
