(* ===== verification/EventWorker.thy ===== *)
theory EventWorker
  imports WebhookPasses
begin

text \<open>
  The poller of a self-hosted server (\<open>adapters/node/event-queue.ts\<close>): it claims due events, delivers each and
  settles or reschedules it. The clock is the list of its readings, two for each event (at the delivery and at
  the settlement); a poll whose readings run out before it stops is \<open>None\<close>. \<open>describe\<close> is the text of an error.
\<close>

definition DEFAULT_BASE_BACKOFF_MS :: int where "DEFAULT_BASE_BACKOFF_MS = 30000"
definition DEFAULT_MAX_BACKOFF_MS :: int where "DEFAULT_MAX_BACKOFF_MS = 15 * 60000"
definition DEFAULT_LEASE_MS :: int where "DEFAULT_LEASE_MS = 60000"
definition DEFAULT_BATCH_SIZE :: nat where "DEFAULT_BATCH_SIZE = 25"
definition DEFAULT_CLEANUP_INTERVAL_MS :: int where "DEFAULT_CLEANUP_INTERVAL_MS = 60 * 60000"

record 'w worker =
  wk_platform :: platform
  wk_fetch :: "'w fetch"
  wk_describe :: "delivery_error \<Rightarrow> string"
  wk_baseBackoffMs :: int
  wk_maxBackoffMs :: int
  wk_leaseMs :: int
  wk_batchSize :: nat
  wk_cleanupIntervalMs :: int

definition backoff :: "'w worker \<Rightarrow> event_row \<Rightarrow> int option \<Rightarrow> int" where
  "backoff wk event diagnostic =
     (case diagnostic of
        Some t \<Rightarrow> t
      | None \<Rightarrow> min (wk_baseBackoffMs wk * 2 ^ nat (pe_attempts event - 1)) (wk_maxBackoffMs wk))"

definition settle_event :: "'w worker \<Rightarrow> event_row \<Rightarrow> delivery_error + delivery_summary \<Rightarrow> ms \<Rightarrow> outbox \<Rightarrow> outbox" where
  "settle_event wk event outcome now db =
     (case outcome of
        Inr summary \<Rightarrow>
          if ds_failed summary > 0
          then failEvent now (pe_id event) (''terminal delivery failure: '' @ show_dec (ds_failed summary) @ '' of ''
                 @ show_dec (ds_attempted summary) @ '' subscriber(s)'') db
          else completeEvent now (pe_id event) db
      | Inl err \<Rightarrow>
          if pe_attempts event \<ge> pe_maxAttempts event
          then failEvent now (pe_id event) (wk_describe wk err @ '' (attempts exhausted)'') db
          else rescheduleEvent now (pe_id event) (wk_describe wk err)
                 (backoff wk event (case err of DeliveryError c retryAfterMs \<Rightarrow> retryAfterMs)) db)"

definition process :: "'w worker \<Rightarrow> event_row \<Rightarrow> ms \<Rightarrow> ms \<Rightarrow> outbox \<times> 'w \<Rightarrow> outbox \<times> 'w" where
  "process wk event t1 t2 s =
     (case s of (db, w) \<Rightarrow>
       (case deliverEvent (wk_platform wk) (\<lambda>i. []) (pe_ws event) (pe_eventType event) (pe_payload event) (Some (pe_id event))
               (Some (pe_createdAt event * 1000)) (Some (wk_fetch wk)) t1 db w of
          (outcome, db, w) \<Rightarrow> (settle_event wk event outcome t2 db, w)))"

fun process_all :: "'w worker \<Rightarrow> event_row list \<Rightarrow> ms list \<Rightarrow> outbox \<times> 'w \<Rightarrow> (ms list \<times> outbox \<times> 'w) option" where
  "process_all wk [] ts s = Some (ts, s)"
| "process_all wk (e # es) (t1 # t2 # ts) s = process_all wk es ts (process wk e t1 t2 s)"
| "process_all wk (e # es) ts s = None"

lemma process_all_shorter: "process_all wk es ts s = Some (rest, s') \<Longrightarrow> length rest \<le> length ts"
  by (induction wk es ts s rule: process_all.induct) auto

text \<open>A round of the poll reads the clock once to fail exhausted events and once to claim; it goes on while it
  claims full batches.\<close>

function poll :: "'w worker \<Rightarrow> ms list \<Rightarrow> outbox \<times> 'w \<Rightarrow> (outbox \<times> 'w) option" where
  "poll wk ts s =
     (case ts of
        t0 # t1 # ts' \<Rightarrow>
          (case s of (db, w) \<Rightarrow>
            let db = snd (failExhaustedDueEvents t0 None db);
                (claimed, db) = claimDueEvents (wk_batchSize wk) (wk_leaseMs wk) t1 db
            in if claimed = [] then Some (db, w)
               else case process_all wk claimed ts' (db, w) of
                      None \<Rightarrow> None
                    | Some (rest, s) \<Rightarrow>
                        if length claimed < wk_batchSize wk then Some s else poll wk rest s)
      | _ \<Rightarrow> None)"
  by pat_completeness auto
termination by (relation "measure (\<lambda>(wk, ts, s). length ts)") (auto dest!: process_all_shorter)

declare poll.simps [simp del]

text \<open>\<open>send\<close> inserts the event unless the request path already has; it then polls.\<close>

definition send_event :: "ms \<Rightarrow> id \<Rightarrow> id option \<Rightarrow> id \<Rightarrow> string \<Rightarrow> (string \<times> json) list \<Rightarrow> outbox \<Rightarrow> outbox" where
  "send_event now freshId outboxId workspaceId eventType data db =
     (if truthy outboxId = None then snd (enqueueEvent now freshId workspaceId eventType data db) else db)"

text \<open>The cleanup at most once an interval; \<open>None\<close> for the last cleanup is never.\<close>

definition maybeCleanup :: "'w worker \<Rightarrow> bool \<Rightarrow> ms \<Rightarrow> ms \<Rightarrow> outbox \<Rightarrow> ms \<times> outbox" where
  "maybeCleanup wk stopped lastCleanupAt now db =
     (if stopped \<or> now - lastCleanupAt < wk_cleanupIntervalMs wk then (lastCleanupAt, db)
      else (now, snd (cleanupOldEvents now (24 * 60 * 60 * 1000) db)))"

subsection \<open>An event and its deliveries\<close>

lemma event_field:
  assumes "distinct (map pe_id rows)" "e \<in> set rows" "\<And>r. pe_id (f r) = pe_id r"
  shows "upd_where (\<lambda>r. pe_id r = pe_id e) f rows = upd_where (\<lambda>r. r = e) f rows"
  using assms by (intro upd_where_cong) (auto simp: distinct_map inj_on_def)

lemma summarize_outcome:
  assumes "summarize now rows = Inr s"
  shows "list_all (\<lambda>d. wd_status d \<noteq> WhPending) rows
    \<and> (0 < ds_failed s \<longleftrightarrow> list_ex (\<lambda>d. wd_status d \<in> {WhFailed, WhDeadLetter}) rows)"
proof -
  have "filter (\<lambda>d. wd_status d = WhPending) rows = []" using assms by (auto simp: summarize_def Let_def split: if_splits)
  moreover have "ds_failed s = length (filter (\<lambda>d. wd_status d = WhFailed \<or> wd_status d = WhDeadLetter) rows)"
    using assms by (auto simp: summarize_def Let_def split: if_splits)
  moreover have "0 < length (filter P xs) \<longleftrightarrow> list_ex P xs" for P and xs :: "webhook_row list"
    by (induction xs) auto
  ultimately show ?thesis by (auto simp: list_all_iff filter_empty_conv)
qed

lemma summarize_error:
  assumes "summarize now rows = Inl err"
  obtains m t where "m \<in> set rows" "wd_status m = WhPending" "wd_nextAttemptAt m * 1000 \<le> now + t"
    and "err = DeliveryError (codedError ''event_delivery_retryable_failure'' 503) (Some t)"
proof -
  have "filter (\<lambda>d. wd_status d = WhPending) rows \<noteq> []"
    using assms summarize_settled [of rows now] by auto
  then obtain m where m: "m \<in> set rows" "wd_status m = WhPending"
    "summarize now rows = Inl (retryable_failure (Some (max 0 (wd_nextAttemptAt m * 1000 - now))))"
    by (rule summarize_pending)
  have "err = DeliveryError (codedError ''event_delivery_retryable_failure'' 503) (Some (max 0 (wd_nextAttemptAt m * 1000 - now)))"
    using m(3) assms by (simp add: retryable_failure_def)
  then show ?thesis using that [of m "max 0 (wd_nextAttemptAt m * 1000 - now)"] m by simp
qed

text \<open>C21: After the worker has processed a claimed event that has an attempt left, the event is settled exactly when all
  its deliveries are: completed if they all succeeded, failed if any did not; otherwise it stays pending, and when it
  comes up again some delivery is due.\<close>
theorem processed_event_reflects_deliveries:
  assumes "counted (webhookDeliveries db)" "distinct (map pe_id (pendingEvents db))"
    and "event \<in> set (pendingEvents db)" "pe_status event = EvPending" "pe_attempts event < pe_maxAttempts event"
    and "pe_id event \<noteq> []" "t1 \<le> t2" "process wk event t1 t2 (db, w) = (db', w')"
  shows "\<exists>e'. e' \<in> set (pendingEvents db') \<and> pe_id e' = pe_id event
    \<and> (let hooks = deliveries_of db' (pe_id event) in
       if list_ex (\<lambda>d. wd_status d = WhPending) hooks
       then pe_status e' = EvPending \<and> list_ex (\<lambda>d. wd_status d = WhPending \<and> wd_nextAttemptAt d \<le> pe_processAfter e') hooks
       else pe_status e' = (if list_ex (\<lambda>d. wd_status d \<in> {WhFailed, WhDeadLetter}) hooks then EvFailed else EvCompleted))"
proof -
  let ?eid = "pe_id event" and ?pf = "wk_platform wk"
  let ?targets = "\<lambda>db. filter (\<lambda>t. matchesFilter (dt_filter t) (pe_payload event)) (activeTargets db (pe_ws event) (pe_eventType event))"
  have first: "first_row (filter (\<lambda>e. pe_id e = ?eid) (pendingEvents db)) = Some event"
    using first_row_key [OF assms(2,3)] .
  obtain db1 where init: "initializePersistentDeliveries ?pf ?eid (?targets db) t1 db = (True, db1)"
    and c1: "counted (webhookDeliveries db1)"
    and ev1: "\<exists>e1. e1 \<in> set (pendingEvents db1) \<and> pe_id e1 = ?eid \<and> pe_status e1 = EvPending"
    and ids1: "map pe_id (pendingEvents db1) = map pe_id (pendingEvents db)"
  proof (cases "pe_webhookInitialized event")
    case True
    then have "initializePersistentDeliveries ?pf ?eid (?targets db) t1 db = (True, db)"
      by (simp add: initializePersistentDeliveries_def first)
    then show ?thesis using that [of db] assms(1,3,4) by blast
  next
    case False
    let ?db1 = "upd_events (\<lambda>e. pe_id e = ?eid) (\<lambda>e. e\<lparr>pe_webhookInitialized := True\<rparr>)
      (db\<lparr>webhookDeliveries := fold insert_unless_conflict (map (new_delivery ?pf ?eid t1) (?targets db)) (webhookDeliveries db)\<rparr>)"
    have "initializePersistentDeliveries ?pf ?eid (?targets db) t1 db = (True, ?db1)"
      using False by (simp add: initializePersistentDeliveries_def first)
    moreover have "counted (fold insert_unless_conflict ds rows)"
      if "counted rows" "list_all (\<lambda>d. wd_attempts d = 0) ds" for ds rows
      using that by (induction ds arbitrary: rows) (auto intro: counted_insert)
    then have "counted (webhookDeliveries ?db1)" using assms(1) by (simp add: list_all_iff new_delivery_def)
    moreover have "event\<lparr>pe_webhookInitialized := True\<rparr> \<in> set (pendingEvents ?db1)" using assms(3) by (auto simp: set_upd_where)
    moreover have "map pe_id (pendingEvents ?db1) = map pe_id (pendingEvents db)" by (simp add: map_upd_where)
    ultimately show ?thesis using that [of ?db1] assms(4) by force
  qed
  define body where "body = event_body ?pf (pe_eventType event) (pe_ws event) (pe_createdAt event * 1000) (pe_payload event)"
  obtain r db2 w2 where run: "persistent_pass ?pf (Some (wk_fetch wk)) (?targets db) (pe_eventType event) body ?eid t1 db1 w = (r, db2, w2)"
    using prod_cases3 by blast
  have tr: "truthy (Some ?eid) = Some ?eid" using assms(6) by (cases ?eid) (simp_all add: truthy_def)
  have "deliverEvent ?pf (\<lambda>i. []) (pe_ws event) (pe_eventType event) (pe_payload event) (Some ?eid)
      (Some (pe_createdAt event * 1000)) (Some (wk_fetch wk)) t1 db w = (r, db2, w2)"
    unfolding deliverEvent_def Let_def tr option.case init using run by (simp add: body_def)
  then have db': "db' = settle_event wk event r t2 db2" using assms(8) by (simp add: process_def)
  from pass_result [OF run c1] have part: "pass_part t1 db1 db2" and r: "r = summarize t1 (deliveries_of db2 ?eid)" by simp_all
  have hooks: "deliveries_of db' ?eid = deliveries_of db2 ?eid"
    by (auto simp: db' settle_event_def failEvent_def completeEvent_def rescheduleEvent_def deliveries_of_def split: sum.split)
  obtain e1 where e1: "e1 \<in> set (pendingEvents db2)" "still_pending ?eid e1"
    using ev1 part by (auto simp: pass_part_def still_pending_def)
  have moved: "g e1 \<in> set (pendingEvents (upd_events (still_pending ?eid) g db2))" for g
    using e1 by (auto simp: set_upd_where)
  show ?thesis
  proof (cases r)
    case (Inr s)
    then have sum: "list_all (\<lambda>d. wd_status d \<noteq> WhPending) (deliveries_of db2 ?eid)"
      "0 < ds_failed s \<longleftrightarrow> list_ex (\<lambda>d. wd_status d \<in> {WhFailed, WhDeadLetter}) (deliveries_of db2 ?eid)"
      using summarize_outcome r by auto
    then have np: "\<not> list_ex (\<lambda>d. wd_status d = WhPending) (deliveries_of db2 ?eid)" by (auto simp: list_all_iff list_ex_iff)
    show ?thesis
    proof (cases "0 < ds_failed s")
      case True
      then show ?thesis using np sum(2) moved Inr e1(2) hooks
        by (intro exI [of _ "e1\<lparr>pe_status := EvFailed, pe_lastError := Some (''terminal delivery failure: '' @ show_dec (ds_failed s)
            @ '' of '' @ show_dec (ds_attempted s) @ '' subscriber(s)''), pe_completedAt := Some (toSec t2)\<rparr>"])
          (simp add: db' settle_event_def failEvent_def still_pending_def Let_def)
    next
      case False
      then show ?thesis using np sum(2) moved Inr e1(2) hooks
        by (intro exI [of _ "e1\<lparr>pe_status := EvCompleted, pe_completedAt := Some (toSec t2)\<rparr>"])
          (simp add: db' settle_event_def completeEvent_def still_pending_def Let_def)
    qed
  next
    case (Inl err)
    then obtain m t where m: "m \<in> set (deliveries_of db2 ?eid)" "wd_status m = WhPending" "wd_nextAttemptAt m * 1000 \<le> t1 + t"
      and err: "err = DeliveryError (codedError ''event_delivery_retryable_failure'' 503) (Some t)"
      using r by (metis summarize_error)
    have "due_row (t2 + t) m" using pending_due [OF m(2,3)] assms(7) by simp
    then have "wd_nextAttemptAt m \<le> toSec (t2 + t)" by (simp add: due_row_sec)
    then show ?thesis using m moved Inl err e1(2) hooks assms(5)
      by (intro exI [of _ "e1\<lparr>pe_processAfter := toSec (t2 + t), pe_lastError := Some (wk_describe wk err)\<rparr>"])
        (auto simp: db' settle_event_def rescheduleEvent_def still_pending_def backoff_def Let_def list_ex_iff)
  qed
qed

definition wx_worker :: "nat worker" where
  "wx_worker = \<lparr>wk_platform = wx_pf, wk_fetch = (\<lambda>rq w. (Inr 503, Suc w)), wk_describe = (\<lambda>e. []), wk_baseBackoffMs = 30000,
     wk_maxBackoffMs = 900000, wk_leaseMs = 60000, wk_batchSize = 25, wk_cleanupIntervalMs = 3600000\<rparr>"

theorem processed_event_reflects_deliveries_witness:
  "\<exists>db' w' e'. process wx_worker (wx_event True) 120000 120000 (wx_db True [wx_row], 0) = (db', w') \<and> e' \<in> set (pendingEvents db')
    \<and> pe_id e' = ''e'' \<and> deliveries_of db' ''e'' \<noteq> []"
proof -
  obtain db' w' where run: "process wx_worker (wx_event True) 120000 120000 (wx_db True [wx_row], 0) = (db', w')" by fastforce
  have pre: "counted (webhookDeliveries (wx_db True [wx_row]))" "distinct (map pe_id (pendingEvents (wx_db True [wx_row])))"
    "wx_event True \<in> set (pendingEvents (wx_db True [wx_row]))" "pe_status (wx_event True) = EvPending"
    "pe_attempts (wx_event True) < pe_maxAttempts (wx_event True)" "pe_id (wx_event True) = ''e''"
    by (simp_all add: wx_db_def wx_event_def counted_def wx_row_def)
  have "\<exists>e'. e' \<in> set (pendingEvents db') \<and> pe_id e' = ''e''"
    using processed_event_reflects_deliveries [OF pre(1-5) _ order_refl run] pre(6) by auto
  moreover have "deliveries_of db' ''e'' \<noteq> []"
  proof -
    obtain r db2 w2 where ev: "deliverEvent wx_pf (\<lambda>i. []) ''w'' ''t'' [] (Some ''e'') (Some 0) (Some (wk_fetch wx_worker)) 120000 (wx_db True [wx_row]) 0
        = (r, db2, w2)" using prod_cases3 by blast
    have i: "initialized ''e'' (wx_db True [wx_row])" by (simp add: initialized_def wx_db_def wx_event_def)
    then obtain targets body where pp: "persistent_pass wx_pf (Some (wk_fetch wx_worker)) targets ''t'' body ''e'' 120000 (wx_db True [wx_row]) 0 = (r, db2, w2)"
      using ev unfolding deliverEvent_def Let_def by (simp add: truthy_def initialized_noop [OF i])
    have "advance 120000 (deliveries_of (wx_db True [wx_row]) ''e'') (deliveries_of db2 ''e'')"
      by (rule deliveries_advance, rule conjunct1 [OF pass_result [OF pp pre(1)]])
    then have "deliveries_of db2 ''e'' \<noteq> []"
      by (auto simp: advance_def deliveries_of_def wx_db_def wx_row_def list_all2_Cons1)
    moreover have "deliveries_of db' ''e'' = deliveries_of db2 ''e''"
      using run ev by (auto simp: process_def wx_event_def wx_worker_def settle_event_def failEvent_def completeEvent_def
        rescheduleEvent_def deliveries_of_def split: sum.splits)
    ultimately show ?thesis by simp
  qed
  ultimately show ?thesis using run by blast
qed

end
