(* ===== verification/WorkspaceEvents.thy ===== *)
theory WorkspaceEvents
  imports Json
begin

text \<open>
  The durable log of workspace events (\<open>engine/workspaceEvents.ts\<close>, table \<open>workspace_events\<close>): every statement that
  appends allocates its sequence numbers from the largest number of the workspace in the log. A statement may fail
  (\<open>ok\<close>), then nothing is appended and the event is published without a number. The text of a payload is
  \<open>JSON.stringify\<close>; parsing it back is an argument (\<open>parse\<close>).
\<close>

subsection \<open>Table\<close>

record wevent_row =
  we_ws :: id
  we_seq :: int
  we_type :: string
  we_channelId :: "string option"
  we_payload :: string
  we_createdAt :: sec

record wevent_input =
  wi_type :: string
  wi_channelId :: "string option"
  wi_payload :: "(string \<times> json) list"

record wevent_view =
  wv_seq :: int
  wv_type :: string
  wv_channel_id :: "string option"
  wv_payload :: "(string \<times> json) list"
  wv_created_at :: sec

definition WORKSPACE_EVENT_LIST_DEFAULT_LIMIT :: int where "WORKSPACE_EVENT_LIST_DEFAULT_LIMIT = 200"
definition WORKSPACE_EVENT_LIST_MAX_LIMIT :: int where "WORKSPACE_EVENT_LIST_MAX_LIMIT = 500"
definition WORKSPACE_EVENT_APPEND_BATCH_SIZE :: nat where "WORKSPACE_EVENT_APPEND_BATCH_SIZE = 24"

definition seqs_of :: "wevent_row list \<Rightarrow> id \<Rightarrow> int list" where
  "seqs_of log ws = map we_seq (filter (\<lambda>e. we_ws e = ws) log)"

text \<open>\<open>COALESCE(MAX(seq), 0)\<close>.\<close>

definition max_seq :: "wevent_row list \<Rightarrow> id \<Rightarrow> int" where
  "max_seq log ws = (if seqs_of log ws = [] then 0 else Max (set (seqs_of log ws)))"

definition event_row_of :: "sec \<Rightarrow> id \<Rightarrow> int \<Rightarrow> wevent_input \<Rightarrow> wevent_row" where
  "event_row_of now ws seq input =
     \<lparr>we_ws = ws, we_seq = seq, we_type = wi_type input, we_channelId = wi_channelId input,
      we_payload = ser (JObj (wi_payload input)), we_createdAt = now\<rparr>"

subsection \<open>Appending one event\<close>

definition nextSeqSql :: "wevent_row list \<Rightarrow> id \<Rightarrow> int" where
  "nextSeqSql log ws = max_seq log ws + 1"

definition buildWorkspaceEventWrite :: "sec \<Rightarrow> id \<Rightarrow> wevent_input \<Rightarrow> wevent_row list \<Rightarrow> int \<times> wevent_row list" where
  "buildWorkspaceEventWrite now ws input log =
     (let s = nextSeqSql log ws in (s, log @ [event_row_of now ws s input]))"

definition appendWorkspaceEvent ::
  "bool \<Rightarrow> sec \<Rightarrow> id \<Rightarrow> wevent_input \<Rightarrow> wevent_row list \<Rightarrow> int option \<times> wevent_row list" where
  "appendWorkspaceEvent ok now ws input log =
     (if ok then (let (s, log') = buildWorkspaceEventWrite now ws input log in (Some s, log')) else (None, log))"

subsection \<open>Appending a batch\<close>

text \<open>
  One statement of \<open>appendWorkspaceEventBatch\<close>. \<open>ranked\<close> numbers the events of each workspace in the order given
  (\<open>ROW_NUMBER() OVER (PARTITION BY workspace_id)\<close>), \<open>bases\<close> is read once before anything is inserted, and RETURNING
  gives the workspace and the number of every inserted row.
\<close>

definition bump :: "id \<Rightarrow> (id \<Rightarrow> int) \<Rightarrow> (id \<Rightarrow> int)" where
  "bump ws seen = seen(ws := seen ws + 1)"

fun ranked :: "(id \<Rightarrow> int) \<Rightarrow> (id \<times> wevent_input) list \<Rightarrow> (id \<times> wevent_input \<times> int) list" where
  "ranked seen [] = []"
| "ranked seen ((ws, input) # rest) = (ws, input, seen ws + 1) # ranked (bump ws seen) rest"

definition batch_rows :: "sec \<Rightarrow> (id \<times> wevent_input) list \<Rightarrow> wevent_row list \<Rightarrow> wevent_row list" where
  "batch_rows now batch log =
     map (\<lambda>(ws, input, ord). event_row_of now ws (max_seq log ws + ord) input) (ranked (\<lambda>_. 0) batch)"

text \<open>
  \<open>seqsByWorkspace.get(event.workspaceId)?.shift() ?? null\<close> for each event: \<open>queues\<close> holds the sorted numbers not
  handed out yet.
\<close>

fun hand_out :: "(id \<Rightarrow> int list) \<Rightarrow> (id \<times> wevent_input) list \<Rightarrow> int option list" where
  "hand_out queues [] = []"
| "hand_out queues ((ws, input) # rest) =
     (case queues ws of [] \<Rightarrow> None # hand_out queues rest
      | s # ss \<Rightarrow> Some s # hand_out (queues(ws := ss)) rest)"

definition append_batch ::
  "bool \<Rightarrow> sec \<Rightarrow> (id \<times> wevent_input) list \<Rightarrow> wevent_row list \<Rightarrow> int option list \<times> wevent_row list" where
  "append_batch ok now batch log =
     (if \<not> ok then (map (\<lambda>_. None) batch, log)
      else let rows = batch_rows now batch log
           in if length rows \<noteq> length batch then (map (\<lambda>_. None) batch, log @ rows)
              else (hand_out (\<lambda>ws. sort (seqs_of rows ws)) batch, log @ rows))"

text \<open>\<open>oks\<close>: which statements succeed. A failed one leaves nulls and does not stop the next.\<close>

fun append_batches ::
  "(nat \<Rightarrow> bool) \<Rightarrow> nat \<Rightarrow> sec \<Rightarrow> (id \<times> wevent_input) list list \<Rightarrow> wevent_row list \<Rightarrow> int option list \<times> wevent_row list" where
  "append_batches oks k now [] log = ([], log)"
| "append_batches oks k now (b # bs) log =
     (let (seqs, log1) = append_batch (oks k) now b log;
          (more, log2) = append_batches oks (Suc k) now bs log1
      in (seqs @ more, log2))"

definition appendWorkspaceEventBatch ::
  "(nat \<Rightarrow> bool) \<Rightarrow> sec \<Rightarrow> (id \<times> wevent_input) list \<Rightarrow> wevent_row list \<Rightarrow> int option list \<times> wevent_row list" where
  "appendWorkspaceEventBatch oks now inputs log =
     append_batches oks 0 now (pages WORKSPACE_EVENT_APPEND_BATCH_SIZE inputs) log"

definition appendWorkspaceEvents ::
  "(nat \<Rightarrow> bool) \<Rightarrow> sec \<Rightarrow> id \<Rightarrow> wevent_input list \<Rightarrow> wevent_row list \<Rightarrow> int option list \<times> wevent_row list" where
  "appendWorkspaceEvents oks now ws inputs log = appendWorkspaceEventBatch oks now (map (Pair ws) inputs) log"

subsection \<open>Listing\<close>

definition parsePayload :: "(string \<Rightarrow> json option) \<Rightarrow> string \<Rightarrow> (string \<times> json) list" where
  "parsePayload parse raw = (case parse raw of Some (JObj kvs) \<Rightarrow> kvs | _ \<Rightarrow> [])"

definition wevent_view_of :: "(string \<Rightarrow> json option) \<Rightarrow> wevent_row \<Rightarrow> wevent_view" where
  "wevent_view_of parse e =
     \<lparr>wv_seq = we_seq e, wv_type = we_type e, wv_channel_id = we_channelId e,
      wv_payload = parsePayload parse (we_payload e), wv_created_at = we_createdAt e\<rparr>"

definition list_limit :: "int option \<Rightarrow> nat" where
  "list_limit limit = nat (min (max 1 (case limit of None \<Rightarrow> WORKSPACE_EVENT_LIST_DEFAULT_LIMIT | Some l \<Rightarrow> l)) WORKSPACE_EVENT_LIST_MAX_LIMIT)"

definition events_after :: "wevent_row list \<Rightarrow> id \<Rightarrow> int \<Rightarrow> wevent_row list" where
  "events_after log ws since = filter (\<lambda>e. we_ws e = ws \<and> since < we_seq e) log"

definition listWorkspaceEvents ::
  "(string \<Rightarrow> json option) \<Rightarrow> wevent_row list \<Rightarrow> id \<Rightarrow> int option \<Rightarrow> int option \<Rightarrow> wevent_view list \<times> int" where
  "listWorkspaceEvents parse log ws since limit =
     (let since = max 0 (case since of None \<Rightarrow> 0 | Some s \<Rightarrow> s)
      in (map (wevent_view_of parse) (order_limit we_seq (list_limit limit) (events_after log ws since)), max_seq log ws))"

subsection \<open>Append, stamp and publish\<close>

text \<open>\<open>{ ...payload, seq }\<close>: the last property of a name wins, in the place of the first.\<close>

definition with_prop :: "string \<Rightarrow> json \<Rightarrow> (string \<times> json) list \<Rightarrow> (string \<times> json) list" where
  "with_prop k v kvs = (if k \<in> fst ` set kvs then map (\<lambda>(k', v'). (k', if k' = k then v else v')) kvs else kvs @ [(k, v)])"

definition seq_json :: "int \<Rightarrow> json" where
  "seq_json s = JNum (if s < 0 then ''-'' @ show_dec (nat (- s)) else show_dec (nat s))"

definition stamp :: "int option \<Rightarrow> (string \<times> json) list \<Rightarrow> (string \<times> json) list" where
  "stamp s payload = (case s of None \<Rightarrow> payload | Some s \<Rightarrow> with_prop ''seq'' (seq_json s) payload)"

text \<open>The frames handed to \<open>publishToWorkspaceStream\<close>, with their workspace; a failed publish is only reported.\<close>

definition appendAndPublishWorkspaceEvent ::
  "bool \<Rightarrow> sec \<Rightarrow> id \<Rightarrow> wevent_input \<Rightarrow> wevent_row list \<Rightarrow> (id \<times> (string \<times> json) list) list \<times> wevent_row list" where
  "appendAndPublishWorkspaceEvent ok now ws input log =
     (let (s, log') = appendWorkspaceEvent ok now ws input log in ([(ws, stamp s (wi_payload input))], log'))"

text \<open>\<open>holds\<close> is the predicate of the INSERT, evaluated on the rest of the database at that instant.\<close>

definition appendAndPublishWorkspaceEventWhen ::
  "bool \<Rightarrow> bool \<Rightarrow> sec \<Rightarrow> id \<Rightarrow> wevent_input \<Rightarrow> wevent_row list
   \<Rightarrow> bool \<times> (id \<times> (string \<times> json) list) list \<times> wevent_row list" where
  "appendAndPublishWorkspaceEventWhen ok holds now ws input log =
     (if \<not> ok \<or> \<not> holds then (False, [], log)
      else let (s, log') = buildWorkspaceEventWrite now ws input log
           in (True, [(ws, stamp (Some s) (wi_payload input))], log'))"

definition appendAndPublishWorkspaceEventBatch ::
  "(nat \<Rightarrow> bool) \<Rightarrow> sec \<Rightarrow> (id \<times> wevent_input) list \<Rightarrow> wevent_row list
   \<Rightarrow> (id \<times> (string \<times> json) list) list \<times> wevent_row list" where
  "appendAndPublishWorkspaceEventBatch oks now events log =
     (let (seqs, log') = appendWorkspaceEventBatch oks now events log
      in (map (\<lambda>((ws, input), s). (ws, stamp s (wi_payload input))) (zip events seqs), log'))"

definition appendAndPublishWorkspaceEvents ::
  "(nat \<Rightarrow> bool) \<Rightarrow> sec \<Rightarrow> id \<Rightarrow> wevent_input list \<Rightarrow> wevent_row list
   \<Rightarrow> (id \<times> (string \<times> json) list) list \<times> wevent_row list" where
  "appendAndPublishWorkspaceEvents oks now ws inputs log =
     appendAndPublishWorkspaceEventBatch oks now (map (Pair ws) inputs) log"
subsection \<open>A batch is its events, one by one\<close>

lemma bump_apply: "bump w seen ws = seen ws + (if ws = w then 1 else 0)"
  by (simp add: bump_def)

lemma seqs_of_append [simp]: "seqs_of (log @ rows) ws = seqs_of log ws @ seqs_of rows ws"
  by (simp add: seqs_of_def)

lemma seqs_of_Nil [simp]: "seqs_of [] ws = []"
  by (simp add: seqs_of_def)

lemma event_row_seq [simp]: "we_seq (event_row_of now ws s i) = s"
  by (simp add: event_row_of_def)

lemma seqs_of_row [simp]:
  "seqs_of (event_row_of now ws' s i # rows) ws = (if ws' = ws then [s] else []) @ seqs_of rows ws"
  by (simp add: seqs_of_def event_row_of_def)

lemma max_seq_ge: "s \<in> set (seqs_of log ws) \<Longrightarrow> s \<le> max_seq log ws"
  by (auto simp: max_seq_def)

lemma max_seq_in: "seqs_of log ws \<noteq> [] \<Longrightarrow> max_seq log ws \<in> set (seqs_of log ws)"
  unfolding max_seq_def using Max_in [of "set (seqs_of log ws)"] by simp

lemma max_seq_snoc:
  "max_seq (log @ [event_row_of now ws (max_seq log ws + 1) i]) ws' = max_seq log ws' + (if ws = ws' then 1 else 0)"
proof (cases "ws = ws' \<and> seqs_of log ws' \<noteq> []")
  case True
  then have "Max (insert (max_seq log ws + 1) (set (seqs_of log ws))) = max (max_seq log ws + 1) (max_seq log ws)"
    by (subst Max_insert) (auto simp: max_seq_def)
  then show ?thesis using True by (simp add: max_seq_def [of "log @ _"])
qed (auto simp: max_seq_def)

definition rows_from :: "sec \<Rightarrow> (id \<Rightarrow> int) \<Rightarrow> (id \<Rightarrow> int) \<Rightarrow> (id \<times> wevent_input) list \<Rightarrow> wevent_row list" where
  "rows_from now base seen batch =
     map (\<lambda>(ws, input, ord). event_row_of now ws (base ws + ord) input) (ranked seen batch)"

lemma rows_from_simps [simp]:
  "rows_from now base seen [] = []"
  "rows_from now base seen ((ws, i) # rest) =
     event_row_of now ws (base ws + (seen ws + 1)) i # rows_from now base (bump ws seen) rest"
  by (simp_all add: rows_from_def)

lemma batch_rows_from: "batch_rows now batch log = rows_from now (max_seq log) (\<lambda>_. 0) batch"
  by (simp add: batch_rows_def rows_from_def)

lemma length_rows_from [simp]: "length (rows_from now base seen batch) = length batch"
  by (induction batch arbitrary: seen) auto

lemma rows_from_above: "s \<in> set (seqs_of (rows_from now base seen batch) ws) \<Longrightarrow> base ws + seen ws < s"
proof (induction batch arbitrary: seen)
  case (Cons p batch)
  obtain w i where p: "p = (w, i)" by fastforce
  then show ?case
    using Cons.prems Cons.IH [of "bump w seen"] bump_apply [of w seen ws] by (cases "w = ws") auto
qed simp

lemma rows_from_sorted: "sorted (seqs_of (rows_from now base seen batch) ws)"
proof (induction batch arbitrary: seen)
  case (Cons p batch)
  obtain w i where p: "p = (w, i)" by fastforce
  show ?case
    using Cons.IH [of "bump w seen"] rows_from_above [of _ now base "bump w seen" batch ws] bump_apply [of w seen ws]
    by (cases "w = ws") (auto simp: p less_imp_le)
qed simp

lemma hand_out_rows: "hand_out (seqs_of (rows_from now base seen batch)) batch = map (Some \<circ> we_seq) (rows_from now base seen batch)"
proof (induction batch arbitrary: seen)
  case (Cons p batch)
  obtain w i where p: "p = (w, i)" by fastforce
  let ?rest = "rows_from now base (bump w seen) batch" and ?s = "base w + (seen w + 1)"
  have q: "(\<lambda>ws. seqs_of (event_row_of now w ?s i # ?rest) ws)(w := seqs_of ?rest w) = seqs_of ?rest"
    by (rule ext) simp
  show ?case
    using Cons.IH [of "bump w seen"] q by (simp add: p)
qed simp

text \<open>The reference: each event in a statement of its own.\<close>

fun append_each :: "sec \<Rightarrow> (id \<times> wevent_input) list \<Rightarrow> wevent_row list \<Rightarrow> int option list \<times> wevent_row list" where
  "append_each now [] log = ([], log)"
| "append_each now ((ws, input) # rest) log =
     (let (s, log1) = appendWorkspaceEvent True now ws input log; (ss, log2) = append_each now rest log1 in (s # ss, log2))"

lemma append_each_append:
  "append_each now (xs @ ys) log =
     (let (a, log1) = append_each now xs log; (b, log2) = append_each now ys log1 in (a @ b, log2))"
  by (induction xs arbitrary: log) (auto split: prod.splits)

lemma append_each_rows:
  assumes "\<And>ws. max_seq log ws = base ws + seen ws"
  shows "append_each now batch log = (map (Some \<circ> we_seq) (rows_from now base seen batch), log @ rows_from now base seen batch)"
  using assms
proof (induction batch arbitrary: log seen)
  case (Cons p batch)
  obtain w i where p: "p = (w, i)" by fastforce
  let ?row = "event_row_of now w (max_seq log w + 1) i"
  have "\<And>ws. max_seq (log @ [?row]) ws = base ws + (bump w seen) ws"
    unfolding max_seq_snoc bump_apply using Cons.prems by simp
  note rest = Cons.IH [OF this]
  show ?case
    using rest Cons.prems [of w]
    by (simp add: p appendWorkspaceEvent_def buildWorkspaceEventWrite_def nextSeqSql_def Let_def add.assoc)
qed simp

lemma append_batch_each: "append_batch True now batch log = append_each now batch log"
proof -
  have "(\<lambda>ws. sort (seqs_of (batch_rows now batch log) ws)) = seqs_of (batch_rows now batch log)"
    by (rule ext) (simp add: batch_rows_from sorted_sort_id rows_from_sorted)
  then show ?thesis
    unfolding append_batch_def Let_def
    by (simp add: batch_rows_from hand_out_rows append_each_rows [where base = "max_seq log" and seen = "\<lambda>_. 0"])
qed

lemma append_batches_each:
  "(\<And>j. oks j) \<Longrightarrow> append_batches oks k now bs log = append_each now (concat bs) log"
  by (induction bs arbitrary: k log) (simp_all add: append_batch_each append_each_append split: prod.splits)

lemma length_append_batch: "length (fst (append_batch ok now batch log)) = length batch"
proof -
  have "length (hand_out q b) = length b" for q b
    by (induction b arbitrary: q) (auto split: list.splits)
  then show ?thesis by (simp add: append_batch_def Let_def)
qed

lemma length_append_batches: "length (fst (append_batches oks k now bs log)) = length (concat bs)"
proof (induction bs arbitrary: k log)
  case (Cons b bs)
  show ?case
    using Cons.IH [of "Suc k" "snd (append_batch (oks k) now b log)"] length_append_batch [of "oks k" now b log]
    by (auto simp: Let_def split_beta)
qed simp

text \<open>C22: A batch append is the same as appending its events one at a time: it gives every event the number that a
  statement of its own would have given it and leaves the same log, however the batch is cut into statements and
  whichever workspaces its events belong to. If statements fail, the answer still has one place for each event.\<close>
theorem batch_is_one_by_one:
  "appendWorkspaceEventBatch (\<lambda>_. True) now inputs log = append_each now inputs log
   \<and> (\<forall>oks. length (fst (appendWorkspaceEventBatch oks now inputs log)) = length inputs)"
proof -
  have "concat (pages WORKSPACE_EVENT_APPEND_BATCH_SIZE inputs) = inputs"
    by (rule concat_pages) (simp add: WORKSPACE_EVENT_APPEND_BATCH_SIZE_def)
  then show ?thesis
    unfolding appendWorkspaceEventBatch_def by (simp add: append_batches_each length_append_batches)
qed

end
