(* ===== verification/Retention.thy ===== *)
theory Retention
  imports Mailbox WorkspaceEvents Snowflake "HOL-Library.Option_ord"
begin

text \<open>
  Bounded, resumable retention (\<open>engine/boundedRetention.ts\<close>, \<open>engine/retention.ts\<close>). One run examines pages of at
  most \<open>limit\<close> rows of five tables, in the order of a key, resuming behind the last row it examined and up to a high
  mark taken when the traversal of the table began; a row of the page is deleted when it is eligible and older than
  the policy of its workspace allows, and the DELETE tests the eligibility again. The state of the scan is stored
  after every page. Times to live are whole days; the clock readings that the time budget is tested against are an
  argument, one reading per step.
\<close>

subsection \<open>Settings\<close>

text \<open>\<open>None\<close>: the property is absent; \<open>Some None\<close>: it is null.\<close>

record retention_settings =
  message_ttl_days :: "int option option"
  delivery_ttl_days :: "int option option"
  message_log_ttl_days :: "int option option"
  workspace_event_ttl_days :: "int option option"

record retention_defaults =
  messageTtlDays :: "int option"
  deliveryTtlDays :: "int option"
  messageLogTtlDays :: "int option"
  workspaceEventTtlDays :: "int option"

text \<open>The defaults with \<open>opts.defaults\<close> spread over them, an absent property keeping the default.\<close>

definition DAY_MS :: int where "DAY_MS = 86400000"

definition effective_defaults :: "retention_settings \<Rightarrow> retention_defaults" where
  "effective_defaults opts =
     \<lparr>messageTtlDays = (case message_ttl_days opts of None \<Rightarrow> None | Some t \<Rightarrow> t),
      deliveryTtlDays = (case delivery_ttl_days opts of None \<Rightarrow> Some 90 | Some t \<Rightarrow> t),
      messageLogTtlDays = (case message_log_ttl_days opts of None \<Rightarrow> Some 90 | Some t \<Rightarrow> t),
      workspaceEventTtlDays = (case workspace_event_ttl_days opts of None \<Rightarrow> Some 30 | Some t \<Rightarrow> t)\<rparr>"

definition boundedInteger :: "int option \<Rightarrow> int \<Rightarrow> int \<Rightarrow> int" where
  "boundedInteger v fallback maximum = (case v of None \<Rightarrow> fallback | Some n \<Rightarrow> max 1 (min maximum n))"

subsection \<open>The store\<close>

record log_row =
  ml_id :: id
  ml_ws :: id
  ml_messageId :: id

record workspace_policy =
  wp_id :: id
  wp_retention :: "retention_settings option"

text \<open>A value of a key: SQLite sorts numbers before text.\<close>

datatype keyval = KInt int | KText string

instantiation keyval :: linorder
begin

fun less_eq_keyval :: "keyval \<Rightarrow> keyval \<Rightarrow> bool" where
  "less_eq_keyval (KInt a) (KInt b) \<longleftrightarrow> a \<le> b"
| "less_eq_keyval (KInt _) (KText _) \<longleftrightarrow> True"
| "less_eq_keyval (KText _) (KInt _) \<longleftrightarrow> False"
| "less_eq_keyval (KText s) (KText t) \<longleftrightarrow> s \<le> t"

definition less_keyval :: "keyval \<Rightarrow> keyval \<Rightarrow> bool" where
  "less_keyval a b \<longleftrightarrow> a \<le> b \<and> \<not> b \<le> a"

instance
proof
  fix a b c :: keyval
  show "a < b \<longleftrightarrow> a \<le> b \<and> \<not> b \<le> a" by (simp add: less_keyval_def)
  show "a \<le> a" by (cases a) auto
  show "a \<le> b \<Longrightarrow> b \<le> c \<Longrightarrow> a \<le> c" by (cases a; cases b; cases c) auto
  show "a \<le> b \<Longrightarrow> b \<le> a \<Longrightarrow> a = b" by (cases a; cases b) auto
  show "a \<le> b \<or> b \<le> a" by (cases a; cases b) auto
qed

end

type_synonym key = "keyval list"

datatype rtable = RMessages | RDeliveries | RMessageLogs | RWorkspaceEvents | RReadReceipts

text \<open>The state of the scan: the next table, and for a table under traversal the last key examined and the high mark.\<close>

record scan_state =
  sc_next :: nat
  sc_positions :: "rtable \<Rightarrow> key option"
  sc_highs :: "rtable \<Rightarrow> key option"

text \<open>The saved document is \<open>None\<close> when there is none or its text does not parse.\<close>

record store =
  st_db :: db
  st_logs :: "log_row list"
  st_events :: "wevent_row list"
  st_workspaces :: "workspace_policy list"
  st_cursor :: "scan_state option"

subsection \<open>Deleting rows\<close>

text \<open>Foreign keys: the deliveries, logs and receipts of a message go with it.\<close>

definition remove_messages :: "(message_row \<Rightarrow> bool) \<Rightarrow> store \<Rightarrow> store" where
  "remove_messages P st =
     (let db = st_db st; gone = m_id ` set (filter P (messages db))
      in st\<lparr>st_db := db\<lparr>messages := filter (\<lambda>m. \<not> P m) (messages db),
                        deliveries := filter (\<lambda>d. d_messageId d \<notin> gone) (deliveries db),
                        readReceipts := filter (\<lambda>r. rr_messageId r \<notin> gone) (readReceipts db)\<rparr>,
            st_logs := filter (\<lambda>l. ml_messageId l \<notin> gone) (st_logs st)\<rparr>)"

definition remove_deliveries :: "(delivery_row \<Rightarrow> bool) \<Rightarrow> store \<Rightarrow> store" where
  "remove_deliveries P st = st\<lparr>st_db := (st_db st)\<lparr>deliveries := filter (\<lambda>d. \<not> P d) (deliveries (st_db st))\<rparr>\<rparr>"

definition remove_logs :: "(log_row \<Rightarrow> bool) \<Rightarrow> store \<Rightarrow> store" where
  "remove_logs P st = st\<lparr>st_logs := filter (\<lambda>l. \<not> P l) (st_logs st)\<rparr>"

definition remove_events :: "(wevent_row \<Rightarrow> bool) \<Rightarrow> store \<Rightarrow> store" where
  "remove_events P st = st\<lparr>st_events := filter (\<lambda>e. \<not> P e) (st_events st)\<rparr>"

definition remove_receipts :: "(read_receipt \<Rightarrow> bool) \<Rightarrow> store \<Rightarrow> store" where
  "remove_receipts P st = st\<lparr>st_db := (st_db st)\<lparr>readReceipts := filter (\<lambda>r. \<not> P r) (readReceipts (st_db st))\<rparr>\<rparr>"

subsection \<open>The five tables\<close>

text \<open>
  An entry of \<open>tables\<close>. \<open>rt_guard\<close> is the condition of the DELETE (and, but for deliveries, of the candidate
  read), \<open>rt_scanned\<close> the predicate of the scan, \<open>rt_same\<close> the identity in the DELETE.
\<close>

record 'r table_config =
  rt_rows :: "store \<Rightarrow> 'r list"
  rt_remove :: "('r \<Rightarrow> bool) \<Rightarrow> store \<Rightarrow> store"
  rt_keys :: "'r \<Rightarrow> key"
  rt_width :: nat
  rt_snowflake :: bool
  rt_row_id :: "'r \<Rightarrow> id"
  rt_created :: "'r \<Rightarrow> sec"
  rt_ws :: "'r \<Rightarrow> id"
  rt_setting :: "(retention_settings \<Rightarrow> int option option) option"
  rt_fallback :: "retention_defaults \<Rightarrow> int option"
  rt_scanned :: "'r \<Rightarrow> bool"
  rt_eligible :: "store \<Rightarrow> 'r \<Rightarrow> bool"
  rt_guard :: "store \<Rightarrow> 'r \<Rightarrow> bool"
  rt_same :: "'r \<Rightarrow> 'r \<Rightarrow> bool"

definition no_replies :: "store \<Rightarrow> message_row \<Rightarrow> bool" where
  "no_replies st m \<longleftrightarrow> \<not> list_ex (\<lambda>r. m_threadId r = Some (m_id m)) (messages (st_db st))"

definition not_newest :: "store \<Rightarrow> wevent_row \<Rightarrow> bool" where
  "not_newest st e \<longleftrightarrow> list_ex (\<lambda>hw. we_ws hw = we_ws e \<and> we_seq hw > we_seq e) (st_events st)"

definition orphaned :: "store \<Rightarrow> read_receipt \<Rightarrow> bool" where
  "orphaned st r \<longleftrightarrow> \<not> list_ex (\<lambda>m. m_id m = rr_messageId r) (messages (st_db st))"

definition over :: "delivery_row \<Rightarrow> bool" where
  "over d \<longleftrightarrow> d_status d \<in> {Acked, Failed, DeadLettered}"

definition messages_table :: "message_row table_config" where
  "messages_table =
     \<lparr>rt_rows = (\<lambda>st. messages (st_db st)), rt_remove = remove_messages,
      rt_keys = (\<lambda>m. [KInt (int (length (m_id m))), KText (m_id m)]), rt_width = 2, rt_snowflake = True,
      rt_row_id = m_id, rt_created = m_createdAt, rt_ws = m_ws, rt_setting = Some message_ttl_days,
      rt_fallback = messageTtlDays, rt_scanned = (\<lambda>_. True), rt_eligible = no_replies, rt_guard = no_replies,
      rt_same = (\<lambda>c m. m_id c = m_id m)\<rparr>"

definition deliveries_table :: "delivery_row table_config" where
  "deliveries_table =
     \<lparr>rt_rows = (\<lambda>st. deliveries (st_db st)), rt_remove = remove_deliveries,
      rt_keys = (\<lambda>d. [KInt (d_createdAt d), KText (d_id d)]), rt_width = 2, rt_snowflake = False,
      rt_row_id = d_id, rt_created = d_createdAt, rt_ws = d_ws, rt_setting = Some delivery_ttl_days,
      rt_fallback = deliveryTtlDays, rt_scanned = over, rt_eligible = (\<lambda>_ _. True), rt_guard = (\<lambda>_. over),
      rt_same = (\<lambda>c d. d_id c = d_id d)\<rparr>"

definition message_logs_table :: "log_row table_config" where
  "message_logs_table =
     \<lparr>rt_rows = st_logs, rt_remove = remove_logs,
      rt_keys = (\<lambda>l. [KInt (int (length (ml_id l))), KText (ml_id l)]), rt_width = 2, rt_snowflake = True,
      rt_row_id = ml_id, rt_created = (\<lambda>_. 0), rt_ws = ml_ws, rt_setting = Some message_log_ttl_days,
      rt_fallback = messageLogTtlDays, rt_scanned = (\<lambda>_. True), rt_eligible = (\<lambda>_ _. True), rt_guard = (\<lambda>_ _. True),
      rt_same = (\<lambda>c l. ml_id c = ml_id l)\<rparr>"

definition workspace_events_table :: "wevent_row table_config" where
  "workspace_events_table =
     \<lparr>rt_rows = st_events, rt_remove = remove_events,
      rt_keys = (\<lambda>e. [KInt (we_createdAt e), KText (we_ws e), KInt (we_seq e)]), rt_width = 3, rt_snowflake = False,
      rt_row_id = we_ws, rt_created = we_createdAt, rt_ws = we_ws, rt_setting = Some workspace_event_ttl_days,
      rt_fallback = workspaceEventTtlDays, rt_scanned = (\<lambda>_. True), rt_eligible = not_newest, rt_guard = not_newest,
      rt_same = (\<lambda>c e. we_ws c = we_ws e \<and> we_seq c = we_seq e)\<rparr>"

definition read_receipts_table :: "read_receipt table_config" where
  "read_receipts_table =
     \<lparr>rt_rows = (\<lambda>st. readReceipts (st_db st)), rt_remove = remove_receipts,
      rt_keys = (\<lambda>r. [KText (rr_messageId r), KText (rr_agentId r)]), rt_width = 2, rt_snowflake = False,
      rt_row_id = rr_messageId, rt_created = (\<lambda>_. 0), rt_ws = (\<lambda>_. []), rt_setting = None,
      rt_fallback = (\<lambda>_. None), rt_scanned = (\<lambda>_. True), rt_eligible = orphaned, rt_guard = orphaned,
      rt_same = (\<lambda>c r. rr_messageId c = rr_messageId r \<and> rr_agentId c = rr_agentId r)\<rparr>"
subsection \<open>One page\<close>

definition positive :: "int option list \<Rightarrow> int list" where
  "positive ttls = filter (\<lambda>t. 0 < t) (concat (map (\<lambda>t. case t of None \<Rightarrow> [] | Some n \<Rightarrow> [n]) ttls))"

definition least :: "int list \<Rightarrow> int option" where
  "least ns = (case ns of [] \<Rightarrow> None | n # rest \<Rightarrow> Some (foldl min n rest))"

text \<open>\<open>MIN(CASE WHEN setting > 0 THEN setting END)\<close> over the workspaces.\<close>

definition minimum_setting :: "(retention_settings \<Rightarrow> int option option) \<Rightarrow> store \<Rightarrow> int option" where
  "minimum_setting setting st =
     least (positive (map (\<lambda>w. case wp_retention w of None \<Rightarrow> None
                                | Some s \<Rightarrow> (case setting s of None \<Rightarrow> None | Some t \<Rightarrow> t)) (st_workspaces st)))"

definition lower_bound_text :: "ms \<Rightarrow> string" where
  "lower_bound_text cutoff = show_dec (nat (snowflakeIdLowerBound cutoff))"

text \<open>\<open>w.retention\<close> of the LEFT JOIN with the workspace of the row.\<close>

definition retention_of :: "store \<Rightarrow> id \<Rightarrow> retention_settings option" where
  "retention_of st ws = (case first_row (filter (\<lambda>w. wp_id w = ws) (st_workspaces st)) of None \<Rightarrow> None | Some w \<Rightarrow> wp_retention w)"

definition row_ttl :: "'r table_config \<Rightarrow> (retention_settings \<Rightarrow> int option option) \<Rightarrow> retention_defaults \<Rightarrow> store \<Rightarrow> 'r \<Rightarrow> int option" where
  "row_ttl cfg setting defaults st r =
     (case (case retention_of st (rt_ws cfg r) of None \<Rightarrow> None | Some s \<Rightarrow> setting s) of
        None \<Rightarrow> rt_fallback cfg defaults | Some t \<Rightarrow> t)"

definition older_than :: "'r table_config \<Rightarrow> ms \<Rightarrow> 'r \<Rightarrow> bool" where
  "older_than cfg cutoff r \<longleftrightarrow>
     (if rt_snowflake cfg
      then (let bound = lower_bound_text cutoff; i = rt_row_id cfg r
            in length i < length bound \<or> (length i = length bound \<and> i < bound))
      else rt_created cfg r * 1000 < cutoff)"

definition row_expired :: "'r table_config \<Rightarrow> retention_defaults \<Rightarrow> ms \<Rightarrow> store \<Rightarrow> 'r \<Rightarrow> bool" where
  "row_expired cfg defaults now st r \<longleftrightarrow>
     rt_eligible cfg st r \<and>
     (case rt_setting cfg of
        None \<Rightarrow> True
      | Some setting \<Rightarrow>
          (case row_ttl cfg setting defaults st r of
             None \<Rightarrow> False
           | Some ttl \<Rightarrow> 0 < ttl \<and> older_than cfg (now - ttl * DAY_MS) r))"

text \<open>The WHERE clause of the candidate page.\<close>

definition coarse_cutoff :: "'r table_config \<Rightarrow> ms \<Rightarrow> int option \<Rightarrow> 'r \<Rightarrow> bool" where
  "coarse_cutoff cfg now ttl r \<longleftrightarrow>
     (case ttl of
        None \<Rightarrow> True
      | Some t \<Rightarrow>
          if rt_snowflake cfg
          then (let bound = lower_bound_text (now - t * DAY_MS); i = rt_row_id cfg r
                in length i < length bound \<or> (length i = length bound \<and> i < bound))
          else rt_created cfg r < - ((- (now - t * DAY_MS)) div 1000))"

definition after_cursor :: "'r table_config \<Rightarrow> key option \<Rightarrow> 'r \<Rightarrow> bool" where
  "after_cursor cfg cursor r \<longleftrightarrow>
     (case cursor of None \<Rightarrow> True | Some k \<Rightarrow> length k = rt_width cfg \<longrightarrow> k < rt_keys cfg r)"

definition below_high :: "'r table_config \<Rightarrow> key option \<Rightarrow> 'r \<Rightarrow> bool" where
  "below_high cfg high r \<longleftrightarrow>
     (case high of None \<Rightarrow> True | Some k \<Rightarrow> length k = rt_width cfg \<longrightarrow> rt_keys cfg r \<le> k)"

definition candidate_page :: "'r table_config \<Rightarrow> ms \<Rightarrow> int option \<Rightarrow> key option \<Rightarrow> key option \<Rightarrow> nat \<Rightarrow> store \<Rightarrow> 'r list" where
  "candidate_page cfg now ttl cursor high limit st =
     order_limit (rt_keys cfg) limit
       (filter (\<lambda>r. rt_scanned cfg r \<and> coarse_cutoff cfg now ttl r \<and> after_cursor cfg cursor r \<and> below_high cfg high r)
         (rt_rows cfg st))"

text \<open>One DELETE ... RETURNING: the rows with the identity of a candidate that satisfy the guard now.\<close>

definition doomed :: "'r table_config \<Rightarrow> 'r list \<Rightarrow> store \<Rightarrow> 'r \<Rightarrow> bool" where
  "doomed cfg chunk st r \<longleftrightarrow> list_ex (\<lambda>c. rt_same cfg c r) chunk \<and> rt_guard cfg st r"

definition delete_chunk :: "'r table_config \<Rightarrow> 'r list \<Rightarrow> store \<Rightarrow> nat \<times> store" where
  "delete_chunk cfg chunk st =
     (length (filter (doomed cfg chunk st) (rt_rows cfg st)), rt_remove cfg (doomed cfg chunk st) st)"

fun delete_chunks :: "'r table_config \<Rightarrow> 'r list list \<Rightarrow> store \<Rightarrow> nat \<times> store" where
  "delete_chunks cfg [] st = (0, st)"
| "delete_chunks cfg (c # cs) st =
     (let (n, st) = delete_chunk cfg c st; (m, st) = delete_chunks cfg cs st in (n + m, st))"

definition highest_key :: "'r table_config \<Rightarrow> store \<Rightarrow> key option" where
  "highest_key cfg st =
     (case map (rt_keys cfg) (filter (rt_scanned cfg) (rt_rows cfg st)) of
        [] \<Rightarrow> None | k # ks \<Rightarrow> Some (foldl max k ks))"

text \<open>The body of the loop for one table: rows deleted, whether the traversal is over, the state, the store.\<close>

definition table_step ::
  "'r table_config \<Rightarrow> rtable \<Rightarrow> retention_defaults \<Rightarrow> ms \<Rightarrow> nat \<Rightarrow> int option \<Rightarrow> scan_state \<Rightarrow> store
   \<Rightarrow> nat \<times> bool \<times> scan_state \<times> store" where
  "table_step cfg name defaults now limit minimum state st =
     (let ttls = (if rt_setting cfg = None then [] else positive [rt_fallback cfg defaults, minimum])
      in if rt_setting cfg \<noteq> None \<and> ttls = []
         then (0, True, state\<lparr>sc_positions := (sc_positions state)(name := None), sc_highs := (sc_highs state)(name := None)\<rparr>, st)
         else
           let high = (case sc_highs state name of None \<Rightarrow> highest_key cfg st | Some k \<Rightarrow> Some k);
               page = candidate_page cfg now (least ttls) (sc_positions state name) high limit st;
               removable = filter (row_expired cfg defaults now st) page;
               (deleted, st') = delete_chunks cfg (pages 40 removable) st;
               over = length page < limit \<or> (page \<noteq> [] \<and> Some (rt_keys cfg (last page)) = high)
           in (deleted, over,
               (if over
                then state\<lparr>sc_positions := (sc_positions state)(name := None), sc_highs := (sc_highs state)(name := None)\<rparr>
                else state\<lparr>sc_positions := (sc_positions state)(name := Some (rt_keys cfg (last page))),
                           sc_highs := (sc_highs state)(name := high)\<rparr>),
               st'))"

subsection \<open>The run\<close>

definition table_names :: "rtable list" where
  "table_names = [RMessages, RDeliveries, RMessageLogs, RWorkspaceEvents, RReadReceipts]"

definition minimum_of :: "store \<Rightarrow> rtable \<Rightarrow> int option" where
  "minimum_of st name =
     (case name of RMessages \<Rightarrow> minimum_setting message_ttl_days st
      | RDeliveries \<Rightarrow> minimum_setting delivery_ttl_days st
      | RMessageLogs \<Rightarrow> minimum_setting message_log_ttl_days st
      | RWorkspaceEvents \<Rightarrow> minimum_setting workspace_event_ttl_days st
      | RReadReceipts \<Rightarrow> None)"

definition step_table ::
  "rtable \<Rightarrow> retention_defaults \<Rightarrow> ms \<Rightarrow> nat \<Rightarrow> int option \<Rightarrow> scan_state \<Rightarrow> store \<Rightarrow> nat \<times> bool \<times> scan_state \<times> store" where
  "step_table name defaults now limit minimum state st =
     (case name of
        RMessages \<Rightarrow> table_step messages_table name defaults now limit minimum state st
      | RDeliveries \<Rightarrow> table_step deliveries_table name defaults now limit minimum state st
      | RMessageLogs \<Rightarrow> table_step message_logs_table name defaults now limit minimum state st
      | RWorkspaceEvents \<Rightarrow> table_step workspace_events_table name defaults now limit minimum state st
      | RReadReceipts \<Rightarrow> table_step read_receipts_table name defaults now limit minimum state st)"

record prune_run =
  pr_state :: scan_state
  pr_finished :: "rtable list"
  pr_result :: "rtable \<Rightarrow> nat"
  pr_store :: store

text \<open>
  The loop, \<open>steps\<close> iterations at most; \<open>in_budget k\<close> is \<open>Date.now() - started < budget\<close> at the \<open>k\<close>-th test. A
  table that is finished is skipped; the state is saved after every page.
\<close>

fun prune_loop ::
  "retention_defaults \<Rightarrow> ms \<Rightarrow> nat \<Rightarrow> (rtable \<Rightarrow> int option) \<Rightarrow> (nat \<Rightarrow> bool) \<Rightarrow> nat \<Rightarrow> nat \<Rightarrow> prune_run \<Rightarrow> prune_run" where
  "prune_loop defaults now limit minimums in_budget k 0 run = run"
| "prune_loop defaults now limit minimums in_budget k (Suc steps) run =
     (if \<not> in_budget k then run
      else
        let name = table_names ! sc_next (pr_state run);
            state = (pr_state run)\<lparr>sc_next := (sc_next (pr_state run) + 1) mod length table_names\<rparr>
        in if name \<in> set (pr_finished run)
           then prune_loop defaults now limit minimums in_budget (Suc k) steps (run\<lparr>pr_state := state\<rparr>)
           else
             let (deleted, over, state', st') = step_table name defaults now limit (minimums name) state (pr_store run);
                 run' = \<lparr>pr_state = state', pr_finished = (if over then name # pr_finished run else pr_finished run),
                         pr_result = (pr_result run)(name := pr_result run name + deleted),
                         pr_store = st'\<lparr>st_cursor := Some state'\<rparr>\<rparr>
             in if length (pr_finished run') = length table_names then run'
                else prune_loop defaults now limit minimums in_budget (Suc k) steps run')"

definition initial_state :: scan_state where
  "initial_state = \<lparr>sc_next = 0, sc_positions = (\<lambda>_. None), sc_highs = (\<lambda>_. None)\<rparr>"

text \<open>\<open>stateSchema.safeParse\<close>: the saved table must be one of the five.\<close>

definition load_state :: "store \<Rightarrow> scan_state" where
  "load_state st =
     (case st_cursor st of None \<Rightarrow> initial_state | Some s \<Rightarrow> if sc_next s \<le> 4 then s else initial_state)"

record prune_options =
  po_batchLimit :: "int option"
  po_maxBatches :: "int option"
  po_now :: ms
  po_defaults :: retention_settings

definition pruneBounded :: "prune_options \<Rightarrow> (nat \<Rightarrow> bool) \<Rightarrow> store \<Rightarrow> (rtable \<Rightarrow> nat) \<times> store" where
  "pruneBounded opts in_budget st =
     (let limit = nat (boundedInteger (po_batchLimit opts) 200 200);
          rounds = nat (boundedInteger (po_maxBatches opts) 5 5);
          run = prune_loop (effective_defaults (po_defaults opts)) (po_now opts) limit (minimum_of st) in_budget 0
                  (rounds * length table_names)
                  \<lparr>pr_state = load_state st, pr_finished = [], pr_result = (\<lambda>_. 0), pr_store = st\<rparr>
      in (pr_result run, pr_store run))"
subsection \<open>The boundary that clients are told (\<open>retention.ts\<close>)\<close>

datatype retention_source = WorkspaceOverride | DeploymentDefault

datatype effective_retention =
    Unknown string
  | NeverPrune retention_source
  | Window int ms retention_source

text \<open>\<open>deployment\<close>: \<open>None\<close> when the host configured nothing, \<open>Some None\<close> when it configured null.\<close>

definition resolveEffectiveMessageRetention :: "store \<Rightarrow> id \<Rightarrow> int option option \<Rightarrow> ms \<Rightarrow> effective_retention" where
  "resolveEffectiveMessageRetention st ws deployment now =
     (case first_row (filter (\<lambda>w. wp_id w = ws) (st_workspaces st)) of
        None \<Rightarrow> Unknown ''workspace_unknown''
      | Some w \<Rightarrow>
          let workspaceTtl = (case wp_retention w of None \<Rightarrow> None | Some s \<Rightarrow> message_ttl_days s);
              source = (if workspaceTtl = None then DeploymentDefault else WorkspaceOverride)
          in case (if workspaceTtl = None then deployment else workspaceTtl) of
               None \<Rightarrow> Unknown ''boundary_unavailable''
             | Some None \<Rightarrow> NeverPrune source
             | Some (Some ttl) \<Rightarrow> if ttl \<le> 0 then NeverPrune source else Window ttl (now - ttl * DAY_MS) source)"

definition atOrAfterSnowflake :: "id \<Rightarrow> ms \<Rightarrow> bool" where
  "atOrAfterSnowflake column cutoff \<longleftrightarrow>
     (let bound = lower_bound_text cutoff in length bound < length column \<or> (length column = length bound \<and> bound \<le> column))"

definition afterSnowflake :: "id \<Rightarrow> id \<Rightarrow> bool" where
  "afterSnowflake column cursor \<longleftrightarrow> length cursor < length column \<or> (length column = length cursor \<and> cursor < column)"

subsection \<open>What a run may remove\<close>

definition due :: "'r table_config \<Rightarrow> retention_defaults \<Rightarrow> ms \<Rightarrow> store \<Rightarrow> 'r \<Rightarrow> bool" where
  "due cfg defaults now st r \<longleftrightarrow>
     (case rt_setting cfg of
        None \<Rightarrow> True
      | Some setting \<Rightarrow> \<exists>ttl. row_ttl cfg setting defaults st r = Some ttl \<and> 0 < ttl \<and> older_than cfg (now - ttl * DAY_MS) r)"

lemma row_expired_due: "row_expired cfg defaults now st r \<Longrightarrow> due cfg defaults now st r"
  by (auto simp: row_expired_def due_def split: option.splits)

lemma due_workspaces: "st_workspaces st' = st_workspaces st \<Longrightarrow> due cfg defaults now st' r = due cfg defaults now st r"
  by (simp add: due_def row_ttl_def retention_of_def split: option.splits)

definition ev_key :: "wevent_row \<Rightarrow> id \<times> int" where
  "ev_key e = (we_ws e, we_seq e)"

definition rr_key :: "read_receipt \<Rightarrow> id \<times> id" where
  "rr_key r = (rr_messageId r, rr_agentId r)"

definition store_ok :: "store \<Rightarrow> bool" where
  "store_ok st \<longleftrightarrow> mb_inv (st_db st) \<and> distinct (map ml_id (st_logs st)) \<and> distinct (map ev_key (st_events st))
     \<and> distinct (map rr_key (readReceipts (st_db st)))"

definition message_ids :: "store \<Rightarrow> id set" where
  "message_ids st = m_id ` set (messages (st_db st))"

text \<open>Each table: rows are only removed, and a removed row was due (or went with its message).\<close>

definition frame_kept :: "store \<Rightarrow> store \<Rightarrow> bool" where
  "frame_kept st st' \<longleftrightarrow> st_workspaces st' = st_workspaces st
   \<and> st_db st' = (st_db st)\<lparr>messages := messages (st_db st'), deliveries := deliveries (st_db st'), readReceipts := readReceipts (st_db st')\<rparr>"

definition messages_pruned :: "retention_defaults \<Rightarrow> ms \<Rightarrow> store \<Rightarrow> store \<Rightarrow> bool" where
  "messages_pruned defaults now st st' \<longleftrightarrow> set (messages (st_db st')) \<subseteq> set (messages (st_db st))
   \<and> (\<forall>m \<in> set (messages (st_db st)) - set (messages (st_db st')).
        due messages_table defaults now st m \<and> (\<forall>r \<in> set (messages (st_db st')). m_threadId r \<noteq> Some (m_id m)))"

definition deliveries_pruned :: "retention_defaults \<Rightarrow> ms \<Rightarrow> store \<Rightarrow> store \<Rightarrow> bool" where
  "deliveries_pruned defaults now st st' \<longleftrightarrow> set (deliveries (st_db st')) \<subseteq> set (deliveries (st_db st))
   \<and> (\<forall>d \<in> set (deliveries (st_db st)) - set (deliveries (st_db st')).
        over d \<and> due deliveries_table defaults now st d \<or> d_messageId d \<in> message_ids st - message_ids st')"

definition logs_pruned :: "retention_defaults \<Rightarrow> ms \<Rightarrow> store \<Rightarrow> store \<Rightarrow> bool" where
  "logs_pruned defaults now st st' \<longleftrightarrow> set (st_logs st') \<subseteq> set (st_logs st)
   \<and> (\<forall>l \<in> set (st_logs st) - set (st_logs st').
        due message_logs_table defaults now st l \<or> ml_messageId l \<in> message_ids st - message_ids st')"

definition events_pruned :: "retention_defaults \<Rightarrow> ms \<Rightarrow> store \<Rightarrow> store \<Rightarrow> bool" where
  "events_pruned defaults now st st' \<longleftrightarrow> set (st_events st') \<subseteq> set (st_events st)
   \<and> (\<forall>e \<in> set (st_events st) - set (st_events st').
        due workspace_events_table defaults now st e \<and> (\<exists>hw \<in> set (st_events st'). we_ws hw = we_ws e \<and> we_seq e < we_seq hw))"

definition receipts_pruned :: "store \<Rightarrow> store \<Rightarrow> bool" where
  "receipts_pruned st st' \<longleftrightarrow> set (readReceipts (st_db st')) \<subseteq> set (readReceipts (st_db st))
   \<and> (\<forall>r \<in> set (readReceipts (st_db st)) - set (readReceipts (st_db st')). rr_messageId r \<notin> message_ids st')"

lemmas parts_pruned = messages_pruned_def deliveries_pruned_def logs_pruned_def events_pruned_def receipts_pruned_def

definition pruned :: "retention_defaults \<Rightarrow> ms \<Rightarrow> store \<Rightarrow> store \<Rightarrow> bool" where
  "pruned defaults now st st' \<longleftrightarrow> frame_kept st st' \<and> messages_pruned defaults now st st' \<and> deliveries_pruned defaults now st st'
   \<and> logs_pruned defaults now st st' \<and> events_pruned defaults now st st' \<and> receipts_pruned st st'"

lemma pruned_refl: "pruned defaults now st st"
  by (simp add: pruned_def frame_kept_def parts_pruned)

lemma ids_mono: "messages_pruned defaults now st st' \<Longrightarrow> message_ids st' \<subseteq> message_ids st"
  by (auto simp: messages_pruned_def message_ids_def)

lemma frame_trans: "frame_kept a b \<Longrightarrow> frame_kept b c \<Longrightarrow> frame_kept a c"
  unfolding frame_kept_def by (cases "st_db a"; cases "st_db b"; cases "st_db c") simp

lemma events_trans:
  assumes a: "events_pruned defaults now st1 st2" and b: "events_pruned defaults now st2 st3"
    and ws: "st_workspaces st2 = st_workspaces st1"
  shows "events_pruned defaults now st1 st3"
  unfolding events_pruned_def
proof (intro conjI ballI)
  show "set (st_events st3) \<subseteq> set (st_events st1)" using a b unfolding events_pruned_def by blast
  fix e assume e: "e \<in> set (st_events st1) - set (st_events st3)"
  show "due workspace_events_table defaults now st1 e"
    using a b e due_workspaces [OF ws, of workspace_events_table] unfolding events_pruned_def by blast
  have later: "\<exists>h \<in> set (st_events st3). we_ws h = we_ws x \<and> we_seq x < we_seq h" if "x \<in> set (st_events st2)" "x \<notin> set (st_events st3)" for x
    using b that unfolding events_pruned_def by blast
  show "\<exists>h \<in> set (st_events st3). we_ws h = we_ws e \<and> we_seq e < we_seq h"
  proof (cases "e \<in> set (st_events st2)")
    case True
    with e later show ?thesis by blast
  next
    case False
    then obtain h where h: "h \<in> set (st_events st2)" "we_ws h = we_ws e" "we_seq e < we_seq h"
      using a e unfolding events_pruned_def by blast
    show ?thesis
    proof (cases "h \<in> set (st_events st3)")
      case True
      with h show ?thesis by blast
    next
      case False
      from later [OF h(1) this] h(2,3) show ?thesis by fastforce
    qed
  qed
qed

lemma pruned_trans:
  assumes a: "pruned defaults now st1 st2" and b: "pruned defaults now st2 st3"
  shows "pruned defaults now st1 st3"
proof -
  have ws: "st_workspaces st2 = st_workspaces st1" using a by (simp add: pruned_def frame_kept_def)
  note same = due_workspaces [OF ws]
  have ids: "message_ids st2 \<subseteq> message_ids st1" "message_ids st3 \<subseteq> message_ids st2"
    using a b ids_mono unfolding pruned_def by blast+
  have m: "messages_pruned defaults now st1 st3"
    using a b same [of messages_table] unfolding pruned_def messages_pruned_def by blast
  have d: "deliveries_pruned defaults now st1 st3"
    using a b ids same [of deliveries_table] unfolding pruned_def deliveries_pruned_def by blast
  have l: "logs_pruned defaults now st1 st3"
    using a b ids same [of message_logs_table] unfolding pruned_def logs_pruned_def by blast
  have r: "receipts_pruned st1 st3"
    using a b ids unfolding pruned_def receipts_pruned_def by blast
  show ?thesis
    using a b m d l r events_trans [OF _ _ ws] frame_trans unfolding pruned_def by blast
qed

lemma mb_inv_pruned:
  assumes inv: "mb_inv db" and eq: "db' = db\<lparr>messages := ms, deliveries := ds, readReceipts := rs\<rparr>"
    and sub: "distinct (map m_id ms)" "distinct (map d_id ds)" "distinct (map (\<lambda>d. (d_messageId d, d_agentId d)) ds)"
      "distinct (map (\<lambda>d. (d_agentId d, d_seq d)) ds)" "set ds \<subseteq> set (deliveries db)"
    and parents: "\<And>d m. d \<in> set ds \<Longrightarrow> m \<in> set (messages db) \<Longrightarrow> m_id m = d_messageId d \<Longrightarrow> m \<in> set ms"
  shows "mb_inv db'"
proof -
  have "row_ok db' d" if "d \<in> set ds" for d
  proof -
    have "row_ok db d" using inv that sub(5) unfolding mb_inv_def by blast
    then show ?thesis using parents [OF that] unfolding row_ok_def eq by auto
  qed
  then show ?thesis using inv sub unfolding mb_inv_def eq by simp
qed

text \<open>What the engine needs of a table to prune it, whatever its columns are.\<close>

locale retention_table =
  fixes cfg :: "'r table_config"
  assumes remove_rows: "rt_rows cfg (rt_remove cfg P st) = filter (\<lambda>r. \<not> P r) (rt_rows cfg st)"
    and identity: "store_ok st \<Longrightarrow> c \<in> set (rt_rows cfg st) \<Longrightarrow> r \<in> set (rt_rows cfg st) \<Longrightarrow> rt_same cfg c r \<Longrightarrow> c = r"
    and removal: "store_ok st \<Longrightarrow> (\<And>r. r \<in> set (rt_rows cfg st) \<Longrightarrow> P r \<Longrightarrow> due cfg defaults now st r \<and> rt_guard cfg st r)
      \<Longrightarrow> pruned defaults now st (rt_remove cfg P st) \<and> store_ok (rt_remove cfg P st)"
begin

lemma chunk:
  assumes ok: "store_ok st" and same: "\<And>c r. c \<in> set chunk \<Longrightarrow> r \<in> set (rt_rows cfg st) \<Longrightarrow> rt_same cfg c r \<Longrightarrow> due cfg defaults now st r"
    and del: "delete_chunk cfg chunk st = (n, st')"
  shows "pruned defaults now st st'" "store_ok st'" "set (rt_rows cfg st') \<subseteq> set (rt_rows cfg st)"
proof -
  have st': "st' = rt_remove cfg (doomed cfg chunk st) st" using del by (simp add: delete_chunk_def)
  have "due cfg defaults now st r \<and> rt_guard cfg st r" if "r \<in> set (rt_rows cfg st)" "doomed cfg chunk st r" for r
    using that same by (auto simp: doomed_def list_ex_iff)
  from removal [OF ok this]
  show "pruned defaults now st st'" "store_ok st'" unfolding st' by blast+
  show "set (rt_rows cfg st') \<subseteq> set (rt_rows cfg st)" by (simp add: st' remove_rows)
qed

lemma chunks:
  assumes "store_ok st" "\<And>c r. c \<in> set (concat cs) \<Longrightarrow> r \<in> set (rt_rows cfg st) \<Longrightarrow> rt_same cfg c r \<Longrightarrow> due cfg defaults now st r"
    and "delete_chunks cfg cs st = (n, st')"
  shows "pruned defaults now st st' \<and> store_ok st'"
  using assms
proof (induction cs arbitrary: st n)
  case Nil
  then show ?case by (simp add: pruned_refl)
next
  case (Cons c cs)
  obtain k st1 where 1: "delete_chunk cfg c st = (k, st1)" by fastforce
  obtain k' where 2: "delete_chunks cfg cs st1 = (k', st')" using Cons.prems(3) 1 by (auto split: prod.splits)
  have due: "due cfg defaults now st r" if "x \<in> set c" "r \<in> set (rt_rows cfg st)" "rt_same cfg x r" for x r
    using Cons.prems(2) that by auto
  have step: "pruned defaults now st st1" "store_ok st1" "set (rt_rows cfg st1) \<subseteq> set (rt_rows cfg st)"
    by (rule chunk [OF Cons.prems(1) due 1]; assumption)+
  have ws: "st_workspaces st1 = st_workspaces st" using step(1) by (simp add: pruned_def frame_kept_def)
  have due1: "due cfg defaults now st1 r" if "x \<in> set (concat cs)" "r \<in> set (rt_rows cfg st1)" "rt_same cfg x r" for x r
  proof -
    have "x \<in> set (concat (c # cs))" "r \<in> set (rt_rows cfg st)" using that step(3) by auto
    from Cons.prems(2) [OF this that(3)] show ?thesis by (simp add: due_workspaces [OF ws])
  qed
  have "pruned defaults now st1 st' \<and> store_ok st'"
    by (rule Cons.IH [OF step(2) _ 2]) (rule due1; assumption)
  then show ?case using pruned_trans [OF step(1)] by blast
qed

lemma step:
  assumes "store_ok st" "table_step cfg name defaults now limit minimum state st = (n, fin, state', st')"
  shows "pruned defaults now st st' \<and> store_ok st'"
proof (cases "st' = st")
  case True
  with assms(1) show ?thesis by (simp add: pruned_refl)
next
  case False
  define high where "high = (case sc_highs state name of None \<Rightarrow> highest_key cfg st | Some k \<Rightarrow> Some k)"
  define ttls where "ttls = (if rt_setting cfg = None then [] else positive [rt_fallback cfg defaults, minimum])"
  define page where "page = candidate_page cfg now (least ttls) (sc_positions state name) high limit st"
  define rem where "rem = filter (row_expired cfg defaults now st) page"
  have del: "delete_chunks cfg (pages 40 rem) st = (n, st')"
    using assms(2) False unfolding table_step_def Let_def high_def [symmetric] ttls_def [symmetric] page_def [symmetric] rem_def [symmetric]
    by (auto split: prod.splits if_splits)
  have "set page \<subseteq> set (rt_rows cfg st)"
    unfolding page_def candidate_page_def using set_order_limit by fastforce
  then have "due cfg defaults now st r" if "c \<in> set (concat (pages 40 rem))" "r \<in> set (rt_rows cfg st)" "rt_same cfg c r" for c r
  proof -
    have "c \<in> set rem" using that(1) concat_pages [of 40 rem] by simp
    then have "c \<in> set (rt_rows cfg st)" "due cfg defaults now st c"
      using \<open>set page \<subseteq> _\<close> row_expired_due unfolding rem_def by auto
    with identity [OF assms(1) _ that(2,3)] show ?thesis by simp
  qed
  from chunks [OF assms(1) this del] show ?thesis .
qed

end

subsection \<open>The five tables meet the contract\<close>

lemma store_ok_D:
  assumes "store_ok st"
  shows "mb_inv (st_db st)" "distinct (map ml_id (st_logs st))" "distinct (map ev_key (st_events st))"
    "distinct (map rr_key (readReceipts (st_db st)))"
  using assms by (simp_all add: store_ok_def)

lemma distinct_key_eq: "distinct (map f xs) \<Longrightarrow> x \<in> set xs \<Longrightarrow> y \<in> set xs \<Longrightarrow> f x = f y \<Longrightarrow> x = y"
  by (simp add: distinct_map inj_on_def)

lemmas distinct_filter_key = distinct_map_filter

lemma remove_messages_pruned:
  assumes ok: "store_ok st" and P: "\<And>m. m \<in> set (messages (st_db st)) \<Longrightarrow> P m \<Longrightarrow> due messages_table defaults now st m \<and> no_replies st m"
  shows "pruned defaults now st (remove_messages P st) \<and> store_ok (remove_messages P st)"
proof -
  let ?db = "st_db st"
  let ?gone = "m_id ` set (filter P (messages ?db))"
  let ?st = "remove_messages P st"
  note inv = store_ok_D [OF ok]
  have ids: "message_ids ?st = message_ids st - ?gone"
    using mb_inv_distinct(2) [OF inv(1)] by (auto simp: remove_messages_def message_ids_def Let_def dest: distinct_key_eq)
  have gone: "?gone \<subseteq> message_ids st" by (auto simp: message_ids_def)
  have parents: "m \<in> set (filter (\<lambda>m. \<not> P m) (messages ?db))"
    if "d \<in> set (filter (\<lambda>d. d_messageId d \<notin> ?gone) (deliveries ?db))" "m \<in> set (messages ?db)" "m_id m = d_messageId d" for d m
    using that by (simp add: image_iff) metis
  have "mb_inv (st_db ?st)"
  proof (rule mb_inv_pruned [OF inv(1), where ms = "filter (\<lambda>m. \<not> P m) (messages ?db)"
        and ds = "filter (\<lambda>d. d_messageId d \<notin> ?gone) (deliveries ?db)"
        and rs = "filter (\<lambda>r. rr_messageId r \<notin> ?gone) (readReceipts ?db)"])
    fix d m assume "d \<in> set (filter (\<lambda>d. d_messageId d \<notin> ?gone) (deliveries ?db))" "m \<in> set (messages ?db)" "m_id m = d_messageId d"
    then show "m \<in> set (filter (\<lambda>m. \<not> P m) (messages ?db))" by (rule parents)
  qed (use mb_inv_distinct [OF inv(1)] in \<open>auto simp: remove_messages_def Let_def intro: distinct_map_filter\<close>)
  then have ok': "store_ok ?st"
    using inv by (auto simp: store_ok_def remove_messages_def Let_def intro: distinct_map_filter)
  have "messages_pruned defaults now st ?st"
    using P by (auto simp: messages_pruned_def remove_messages_def Let_def no_replies_def list_ex_iff)
  moreover have "deliveries_pruned defaults now st ?st" "logs_pruned defaults now st ?st" "receipts_pruned st ?st"
    unfolding deliveries_pruned_def logs_pruned_def receipts_pruned_def ids using gone by (auto simp: remove_messages_def Let_def)
  moreover have "frame_kept st ?st" "events_pruned defaults now st ?st"
    by (simp_all add: frame_kept_def events_pruned_def remove_messages_def Let_def)
  ultimately show ?thesis using ok' by (simp add: pruned_def)
qed

lemma remove_deliveries_pruned:
  assumes ok: "store_ok st" and P: "\<And>d. d \<in> set (deliveries (st_db st)) \<Longrightarrow> P d \<Longrightarrow> due deliveries_table defaults now st d \<and> over d"
  shows "pruned defaults now st (remove_deliveries P st) \<and> store_ok (remove_deliveries P st)"
proof -
  let ?st = "remove_deliveries P st"
  note inv = store_ok_D [OF ok]
  have "mb_inv (st_db ?st)"
    by (rule mb_inv_pruned [OF inv(1), where ms = "messages (st_db st)" and rs = "readReceipts (st_db st)"
        and ds = "filter (\<lambda>d. \<not> P d) (deliveries (st_db st))"])
      (use mb_inv_distinct [OF inv(1)] in \<open>auto simp: remove_deliveries_def intro: distinct_map_filter\<close>)
  then have "store_ok ?st" using inv by (simp add: store_ok_def remove_deliveries_def)
  moreover have "pruned defaults now st ?st"
    using P by (auto simp: pruned_def frame_kept_def parts_pruned remove_deliveries_def)
  ultimately show ?thesis by blast
qed

lemma remove_logs_pruned:
  assumes ok: "store_ok st" and P: "\<And>l. l \<in> set (st_logs st) \<Longrightarrow> P l \<Longrightarrow> due message_logs_table defaults now st l"
  shows "pruned defaults now st (remove_logs P st) \<and> store_ok (remove_logs P st)"
  using P store_ok_D [OF ok]
  by (auto simp: pruned_def frame_kept_def parts_pruned remove_logs_def store_ok_def intro: distinct_map_filter)

lemma remove_events_pruned:
  assumes ok: "store_ok st" and P: "\<And>e. e \<in> set (st_events st) \<Longrightarrow> P e \<Longrightarrow> due workspace_events_table defaults now st e \<and> not_newest st e"
  shows "pruned defaults now st (remove_events P st) \<and> store_ok (remove_events P st)"
proof -
  let ?st = "remove_events P st"
  note inv = store_ok_D [OF ok]
  have top: "\<exists>h \<in> set (st_events ?st). we_ws h = we_ws e \<and> we_seq e < we_seq h" if e: "e \<in> set (st_events st)" "P e" for e
  proof -
    let ?S = "seqs_of (st_events st) (we_ws e)"
    have "we_seq e \<in> set ?S" using e by (auto simp: seqs_of_def)
    then have "max_seq (st_events st) (we_ws e) \<in> set ?S" by (intro max_seq_in) auto
    then obtain h where h: "h \<in> set (st_events st)" "we_ws h = we_ws e" "we_seq h = max_seq (st_events st) (we_ws e)"
      by (auto simp: seqs_of_def)
    have "\<not> not_newest st h"
      using h max_seq_ge [of _ "st_events st" "we_ws h"] by (force simp: not_newest_def list_ex_iff seqs_of_def)
    then have "\<not> P h" using P h(1) by blast
    moreover obtain x where "x \<in> set (st_events st)" "we_ws x = we_ws e" "we_seq e < we_seq x"
      using P [OF e] by (auto simp: not_newest_def list_ex_iff)
    then have "we_seq e < we_seq h" using h(3) max_seq_ge [of "we_seq x" "st_events st" "we_ws e"] by (force simp: seqs_of_def)
    ultimately show ?thesis using h by (auto simp: remove_events_def)
  qed
  have "events_pruned defaults now st ?st"
    using P top by (auto simp: events_pruned_def remove_events_def)
  then show ?thesis
    using inv by (auto simp: pruned_def frame_kept_def messages_pruned_def deliveries_pruned_def logs_pruned_def receipts_pruned_def
        remove_events_def store_ok_def intro: distinct_map_filter)
qed

lemma remove_receipts_pruned:
  assumes ok: "store_ok st" and P: "\<And>r. r \<in> set (readReceipts (st_db st)) \<Longrightarrow> P r \<Longrightarrow> orphaned st r"
  shows "pruned defaults now st (remove_receipts P st) \<and> store_ok (remove_receipts P st)"
proof -
  let ?st = "remove_receipts P st"
  note inv = store_ok_D [OF ok]
  have "mb_inv (st_db ?st)"
    by (rule mb_inv_pruned [OF inv(1), where ms = "messages (st_db st)" and ds = "deliveries (st_db st)"
        and rs = "filter (\<lambda>r. \<not> P r) (readReceipts (st_db st))"])
      (use mb_inv_distinct [OF inv(1)] in \<open>auto simp: remove_receipts_def\<close>)
  then have "store_ok ?st" using inv by (auto simp: store_ok_def remove_receipts_def intro: distinct_map_filter)
  moreover have "receipts_pruned st ?st"
    using P by (fastforce simp: receipts_pruned_def remove_receipts_def orphaned_def list_ex_iff message_ids_def image_iff)
  then have "pruned defaults now st ?st"
    by (auto simp: pruned_def frame_kept_def messages_pruned_def deliveries_pruned_def logs_pruned_def events_pruned_def remove_receipts_def)
  ultimately show ?thesis by blast
qed

lemma same_identity:
  assumes "store_ok st"
  shows "c \<in> set (messages (st_db st)) \<Longrightarrow> m \<in> set (messages (st_db st)) \<Longrightarrow> m_id c = m_id m \<Longrightarrow> c = m"
    "d \<in> set (deliveries (st_db st)) \<Longrightarrow> e \<in> set (deliveries (st_db st)) \<Longrightarrow> d_id d = d_id e \<Longrightarrow> d = e"
    "k \<in> set (st_logs st) \<Longrightarrow> l \<in> set (st_logs st) \<Longrightarrow> ml_id k = ml_id l \<Longrightarrow> k = l"
    "v \<in> set (st_events st) \<Longrightarrow> w \<in> set (st_events st) \<Longrightarrow> we_ws v = we_ws w \<Longrightarrow> we_seq v = we_seq w \<Longrightarrow> v = w"
    "r \<in> set (readReceipts (st_db st)) \<Longrightarrow> s \<in> set (readReceipts (st_db st)) \<Longrightarrow> rr_messageId r = rr_messageId s
       \<Longrightarrow> rr_agentId r = rr_agentId s \<Longrightarrow> r = s"
proof -
  note inv = store_ok_D [OF assms]
  note mb = mb_inv_distinct [OF inv(1)]
  show "c \<in> set (messages (st_db st)) \<Longrightarrow> m \<in> set (messages (st_db st)) \<Longrightarrow> m_id c = m_id m \<Longrightarrow> c = m"
    by (rule distinct_key_eq [OF mb(2)])
  show "d \<in> set (deliveries (st_db st)) \<Longrightarrow> e \<in> set (deliveries (st_db st)) \<Longrightarrow> d_id d = d_id e \<Longrightarrow> d = e"
    by (rule distinct_key_eq [OF mb(3)])
  show "k \<in> set (st_logs st) \<Longrightarrow> l \<in> set (st_logs st) \<Longrightarrow> ml_id k = ml_id l \<Longrightarrow> k = l"
    by (rule distinct_key_eq [OF inv(2)])
  show "v \<in> set (st_events st) \<Longrightarrow> w \<in> set (st_events st) \<Longrightarrow> we_ws v = we_ws w \<Longrightarrow> we_seq v = we_seq w \<Longrightarrow> v = w"
    by (rule distinct_key_eq [OF inv(3)]) (simp_all add: ev_key_def)
  show "r \<in> set (readReceipts (st_db st)) \<Longrightarrow> s \<in> set (readReceipts (st_db st)) \<Longrightarrow> rr_messageId r = rr_messageId s
       \<Longrightarrow> rr_agentId r = rr_agentId s \<Longrightarrow> r = s"
    by (rule distinct_key_eq [OF inv(4)]) (simp_all add: rr_key_def)
qed

interpretation messages_tbl: retention_table messages_table
proof (unfold_locales, goal_cases)
  case (2 st c r) then show ?case by (simp add: messages_table_def same_identity(1))
next
  case (3 st P defaults now) then show ?case
    using remove_messages_pruned [of st P defaults now] by (simp add: messages_table_def)
qed (simp add: messages_table_def remove_messages_def Let_def)

interpretation deliveries_tbl: retention_table deliveries_table
proof (unfold_locales, goal_cases)
  case (2 st c r) then show ?case by (simp add: deliveries_table_def same_identity(2))
next
  case (3 st P defaults now) then show ?case
    using remove_deliveries_pruned [of st P defaults now] by (simp add: deliveries_table_def)
qed (simp add: deliveries_table_def remove_deliveries_def)

interpretation logs_tbl: retention_table message_logs_table
proof (unfold_locales, goal_cases)
  case (2 st c r) then show ?case by (simp add: message_logs_table_def same_identity(3))
next
  case (3 st P defaults now) then show ?case
    using remove_logs_pruned [of st P defaults now] by (simp add: message_logs_table_def)
qed (simp add: message_logs_table_def remove_logs_def)

interpretation events_tbl: retention_table workspace_events_table
proof (unfold_locales, goal_cases)
  case (2 st c r) then show ?case by (simp add: workspace_events_table_def same_identity(4))
next
  case (3 st P defaults now) then show ?case
    using remove_events_pruned [of st P defaults now] by (simp add: workspace_events_table_def)
qed (simp add: workspace_events_table_def remove_events_def)

interpretation receipts_tbl: retention_table read_receipts_table
proof (unfold_locales, goal_cases)
  case (2 st c r) then show ?case by (simp add: read_receipts_table_def same_identity(5))
next
  case (3 st P defaults now) then show ?case
    using remove_receipts_pruned [of st P defaults now] by (simp add: read_receipts_table_def)
qed (simp add: read_receipts_table_def remove_receipts_def)

lemma step_table_pruned:
  "store_ok st \<Longrightarrow> step_table name defaults now limit minimum state st = (n, fin, state', st') \<Longrightarrow>
   pruned defaults now st st' \<and> store_ok st'"
  unfolding step_table_def
  by (cases name; simp only: rtable.case)
    (erule (1) messages_tbl.step deliveries_tbl.step logs_tbl.step events_tbl.step receipts_tbl.step)+

lemma cursor_irrelevant [simp]:
  "pruned defaults now st (st'\<lparr>st_cursor := c\<rparr>) = pruned defaults now st st'" "store_ok (st\<lparr>st_cursor := c\<rparr>) = store_ok st"
  by (simp_all add: pruned_def frame_kept_def parts_pruned message_ids_def store_ok_def)

lemma prune_loop_pruned:
  "store_ok (pr_store run) \<Longrightarrow>
   pruned defaults now (pr_store run) (pr_store (prune_loop defaults now limit minimums in_budget k steps run))
   \<and> store_ok (pr_store (prune_loop defaults now limit minimums in_budget k steps run))"
proof (induction steps arbitrary: k run)
  case (Suc steps)
  define state where "state = (pr_state run)\<lparr>sc_next := (sc_next (pr_state run) + 1) mod length table_names\<rparr>"
  define name where "name = table_names ! sc_next (pr_state run)"
  obtain n fin state' st' where step: "step_table name defaults now limit (minimums name) state (pr_store run) = (n, fin, state', st')"
    by (metis prod_cases4)
  note ok = step_table_pruned [OF Suc.prems step]
  define run' where "run' = \<lparr>pr_state = state', pr_finished = (if fin then name # pr_finished run else pr_finished run),
        pr_result = (pr_result run)(name := pr_result run name + n), pr_store = st'\<lparr>st_cursor := Some state'\<rparr>\<rparr>"
  have run': "pruned defaults now (pr_store run) (pr_store run')" "store_ok (pr_store run')"
    using ok by (simp_all add: run'_def)
  have "pruned defaults now (pr_store run') x \<Longrightarrow> pruned defaults now (pr_store run) x" for x
    using pruned_trans [OF run'(1)] .
  then show ?case
    using Suc.IH [of "run\<lparr>pr_state := state\<rparr>" "Suc k"] Suc.IH [OF run'(2), of "Suc k"] Suc.prems run' pruned_refl
    unfolding prune_loop.simps Let_def state_def [symmetric] name_def [symmetric] step prod.case run'_def [symmetric]
    by (auto split: if_splits)
qed (simp add: pruned_refl)

end
