(* ===== verification/RetentionProps.thy ===== *)
theory RetentionProps
  imports Retention
begin

text \<open>
  What a retention run does: \<open>retention_is_safe\<close> (it removes nothing that a policy or another row still needs),
  \<open>retention_completes\<close> (with room and time for every table, nothing that was due at its start is left), and
  \<open>event_numbers_are_fresh\<close> (no sequence number of the event log is ever given out twice, however appends and runs
  are interleaved).
\<close>

subsection \<open>Safety\<close>

lemma pruned_max_seq:
  assumes "pruned defaults now st st'"
  shows "max_seq (st_events st') ws = max_seq (st_events st) ws"
proof (cases "seqs_of (st_events st) ws = []")
  case True
  then have "seqs_of (st_events st') ws = []"
    using assms by (auto simp: pruned_def events_pruned_def seqs_of_def filter_empty_conv)
  with True show ?thesis by (simp add: max_seq_def)
next
  case False
  note sub = assms [unfolded pruned_def events_pruned_def]
  have in': "s \<in> set (seqs_of (st_events st) ws)" if "s \<in> set (seqs_of (st_events st') ws)" for s
    using sub that by (auto simp: seqs_of_def)
  obtain h where h: "h \<in> set (st_events st)" "we_ws h = ws" "we_seq h = max_seq (st_events st) ws"
    using max_seq_in [OF False] by (auto simp: seqs_of_def)
  have "h \<in> set (st_events st')"
  proof (rule ccontr)
    assume "h \<notin> set (st_events st')"
    then obtain x where "x \<in> set (st_events st')" "we_ws x = ws" "we_seq h < we_seq x" using sub h by blast
    then have "we_seq x \<in> set (seqs_of (st_events st) ws)" "max_seq (st_events st) ws < we_seq x"
      using in' [of "we_seq x"] h(3) by (auto simp: seqs_of_def)
    then show False using max_seq_ge by fastforce
  qed
  then have top: "max_seq (st_events st) ws \<in> set (seqs_of (st_events st') ws)" using h by (force simp: seqs_of_def)
  then have "max_seq (st_events st') ws \<in> set (seqs_of (st_events st') ws)" by (intro max_seq_in) auto
  then show ?thesis using max_seq_ge [OF top] max_seq_ge [OF in'] by fastforce
qed

lemma pruneBounded_pruned:
  assumes "store_ok st" "pruneBounded opts in_budget st = (result, st')"
  shows "pruned (effective_defaults (po_defaults opts)) (po_now opts) st st' \<and> store_ok st'"
  using prune_loop_pruned [of "\<lparr>pr_state = load_state st, pr_finished = [], pr_result = (\<lambda>_. 0), pr_store = st\<rparr>"] assms
  by (auto simp: pruneBounded_def Let_def)

text \<open>C9: A retention run, from any saved cursor (missing, stale or wrong), with any options and however early its time
  is up, removes only this: a message older than the positive time to live of its workspace that no remaining message
  replies to; a settled delivery past its time to live, or the deliveries of a removed message; a message log past its time to
  live, or the logs of a removed message; an event of the log
  past its time to live that is not the newest of its workspace; a receipt whose message is gone. So the numbering of
  every event log and all invariants of the mailbox survive it, and agents, channels and policies are untouched.\<close>
theorem retention_is_safe:
  assumes "store_ok st" "pruneBounded opts in_budget st = (result, st')"
    and "defaults = effective_defaults (po_defaults opts)" "now = po_now opts"
  shows "store_ok st' \<and> mb_inv (st_db st') \<and> agents (st_db st') = agents (st_db st)
    \<and> channelMembers (st_db st') = channelMembers (st_db st) \<and> st_workspaces st' = st_workspaces st
    \<and> (\<forall>ws. max_seq (st_events st') ws = max_seq (st_events st) ws)
    \<and> (\<forall>m \<in> set (messages (st_db st)) - set (messages (st_db st')).
         (\<exists>ttl > 0. row_ttl messages_table message_ttl_days defaults st m = Some ttl
            \<and> older_than messages_table (now - ttl * DAY_MS) m)
         \<and> (\<forall>r \<in> set (messages (st_db st')). m_threadId r \<noteq> Some (m_id m)))
    \<and> (\<forall>d \<in> set (deliveries (st_db st)) - set (deliveries (st_db st')).
         (d_status d \<in> {Acked, Failed, DeadLettered}
            \<and> (\<exists>ttl > 0. row_ttl deliveries_table delivery_ttl_days defaults st d = Some ttl
                 \<and> d_createdAt d * 1000 < now - ttl * DAY_MS))
         \<or> d_messageId d \<in> message_ids st - message_ids st')
    \<and> (\<forall>l \<in> set (st_logs st) - set (st_logs st').
         (\<exists>ttl > 0. row_ttl message_logs_table message_log_ttl_days defaults st l = Some ttl
            \<and> older_than message_logs_table (now - ttl * DAY_MS) l)
         \<or> ml_messageId l \<in> message_ids st - message_ids st')
    \<and> (\<forall>e \<in> set (st_events st) - set (st_events st').
         (\<exists>ttl > 0. row_ttl workspace_events_table workspace_event_ttl_days defaults st e = Some ttl
            \<and> we_createdAt e * 1000 < now - ttl * DAY_MS)
         \<and> (\<exists>hw \<in> set (st_events st'). we_ws hw = we_ws e \<and> we_seq e < we_seq hw))
    \<and> (\<forall>r \<in> set (readReceipts (st_db st)) - set (readReceipts (st_db st')). rr_messageId r \<notin> message_ids st')"
proof -
  have p: "pruned defaults now st st'" "store_ok st'"
    using pruneBounded_pruned [OF assms(1,2)] assms(3,4) by simp_all
  note parts = p(1) [unfolded pruned_def frame_kept_def]
  have m: "\<And>m. due messages_table defaults now st m \<longleftrightarrow>
      (\<exists>ttl > 0. row_ttl messages_table message_ttl_days defaults st m = Some ttl \<and> older_than messages_table (now - ttl * DAY_MS) m)"
    by (auto simp: due_def messages_table_def)
  have d: "\<And>d. due deliveries_table defaults now st d \<longleftrightarrow>
      (\<exists>ttl > 0. row_ttl deliveries_table delivery_ttl_days defaults st d = Some ttl \<and> d_createdAt d * 1000 < now - ttl * DAY_MS)"
    by (auto simp: due_def deliveries_table_def older_than_def)
  have l: "\<And>l. due message_logs_table defaults now st l \<longleftrightarrow>
      (\<exists>ttl > 0. row_ttl message_logs_table message_log_ttl_days defaults st l = Some ttl
        \<and> older_than message_logs_table (now - ttl * DAY_MS) l)"
    by (auto simp: due_def message_logs_table_def)
  have e: "\<And>e. due workspace_events_table defaults now st e \<longleftrightarrow>
      (\<exists>ttl > 0. row_ttl workspace_events_table workspace_event_ttl_days defaults st e = Some ttl \<and> we_createdAt e * 1000 < now - ttl * DAY_MS)"
    by (auto simp: due_def workspace_events_table_def older_than_def)
  have db: "agents (st_db st') = agents (st_db st)" "channelMembers (st_db st') = channelMembers (st_db st)"
    by (subst conjunct2 [OF conjunct1 [OF parts]], simp)+
  show ?thesis
    using parts p(2) store_ok_D(1) [OF p(2)] db pruned_max_seq [OF p(1)]
    by (auto simp: parts_pruned m d l e over_def)
qed
subsection \<open>Decimal text in the order of its numbers\<close>

text \<open>\<open>(length(id), id)\<close> compares decimal texts as numbers.\<close>

definition len_less :: "string \<Rightarrow> string \<Rightarrow> bool" where
  "len_less i b \<longleftrightarrow> length i < length b \<or> (length i = length b \<and> i < b)"

lemma len_less_trans: "len_less i b \<Longrightarrow> len_less b c \<Longrightarrow> len_less i c"
  by (auto simp: len_less_def)

lemma less_snoc: "length xs = length ys \<Longrightarrow> xs < ys \<Longrightarrow> xs @ as < ys @ (bs :: 'a::linorder list)"
  by (induction xs ys rule: list_induct2) auto

lemma less_same_prefix: "as < bs \<Longrightarrow> xs @ as < xs @ (bs :: 'a::linorder list)"
  by (induction xs) auto

lemma dec_digit_less: "m < n \<Longrightarrow> n < 10 \<Longrightarrow> dec_digit m < dec_digit n"
  by (simp add: less_char_def of_char_dec_digit)

lemma show_dec_acc_out: "show_dec_acc n (xs @ out) = show_dec_acc n xs @ out"
proof (induction n xs rule: show_dec_acc.induct)
  case (1 n xs)
  show ?case
  proof (cases "n < 10")
    case False
    then show ?thesis using 1 by (simp add: show_dec_acc.simps [of n])
  qed (simp add: show_dec_acc.simps [of n])
qed

lemma show_dec_snoc: "\<not> n < 10 \<Longrightarrow> show_dec n = show_dec (n div 10) @ [dec_digit (n mod 10)]"
  using show_dec_acc_out [of "n div 10" "[]" "[dec_digit (n mod 10)]"] by (simp add: show_dec_def show_dec_acc.simps [of n])

lemma show_dec_digit: "n < 10 \<Longrightarrow> show_dec n = [dec_digit n]"
  unfolding show_dec_def by (subst show_dec_acc.simps) simp

lemma show_dec_less: "m < n \<Longrightarrow> len_less (show_dec m) (show_dec n)"
proof (induction n arbitrary: m rule: less_induct)
  case (less n)
  have pos: "show_dec k \<noteq> []" for k
    by (cases "k < 10") (simp_all add: show_dec_digit show_dec_snoc)
  have "m div 10 < n div 10 \<or> (m div 10 = n div 10 \<and> m mod 10 < n mod 10)"
    using less.prems div_le_mono [of m n 10] div_mult_mod_eq [of m 10] div_mult_mod_eq [of n 10] by linarith
  then consider "n < 10" | "m < 10" "\<not> n < 10" | "\<not> m < 10" "m div 10 < n div 10" | "\<not> m < 10" "m div 10 = n div 10" "m mod 10 < n mod 10"
    by blast
  then show ?case
  proof cases
    case 1
    then show ?thesis using less.prems by (simp add: show_dec_digit len_less_def dec_digit_less)
  next
    case 2
    then show ?thesis using pos [of "n div 10"] by (simp add: show_dec_digit show_dec_snoc len_less_def)
  next
    case 3
    then have n: "\<not> n < 10" "n div 10 < n" using less.prems by auto
    from less.IH [OF n(2) 3(2)] show ?thesis
      using less_snoc [of "show_dec (m div 10)" "show_dec (n div 10)"] by (auto simp: show_dec_snoc [OF n(1)] show_dec_snoc [OF 3(1)] len_less_def)
  next
    case 4
    then have n: "\<not> n < 10" using less.prems by simp
    have "dec_digit (m mod 10) < dec_digit (n mod 10)" by (rule dec_digit_less) (use 4 in simp_all)
    then show ?thesis
      using 4(2) less_same_prefix [of "[dec_digit (m mod 10)]" "[dec_digit (n mod 10)]" "show_dec (n div 10)"]
      by (simp add: show_dec_snoc [OF n] show_dec_snoc [OF 4(1)] len_less_def)
  qed
qed

lemma lower_bound_text_mono: "a \<le> b \<Longrightarrow> lower_bound_text a = lower_bound_text b \<or> len_less (lower_bound_text a) (lower_bound_text b)"
proof -
  assume "a \<le> b"
  then have "snowflakeIdLowerBound a \<le> snowflakeIdLowerBound b"
    by (simp add: snowflakeIdLowerBound_def push_bit_eq_mult mult_right_mono)
  then have "nat (snowflakeIdLowerBound a) \<le> nat (snowflakeIdLowerBound b)" by (rule nat_mono)
  then show ?thesis
    unfolding lower_bound_text_def using show_dec_less le_neq_implies_less by metis
qed

lemma older_coarse:
  assumes "older_than cfg (now - ttl * DAY_MS) r" "t \<le> ttl"
  shows "coarse_cutoff cfg now (Some t) r"
proof -
  have le: "now - ttl * DAY_MS \<le> now - t * DAY_MS" using assms(2) by (simp add: DAY_MS_def)
  show ?thesis
  proof (cases "rt_snowflake cfg")
    case True
    with assms(1) have "len_less (rt_row_id cfg r) (lower_bound_text (now - ttl * DAY_MS))"
      by (simp add: older_than_def len_less_def Let_def)
    then have "len_less (rt_row_id cfg r) (lower_bound_text (now - t * DAY_MS))"
      using lower_bound_text_mono [OF le] len_less_trans by metis
    with True show ?thesis by (simp add: coarse_cutoff_def len_less_def Let_def)
  next
    case False
    with assms(1) have "rt_created cfg r * 1000 < now - t * DAY_MS" using le by (simp add: older_than_def)
    then have "rt_created cfg r < - ((- (now - t * DAY_MS)) div 1000)" by linarith
    with False show ?thesis by (simp add: coarse_cutoff_def)
  qed
qed
subsection \<open>A traversal examines every row\<close>

lemma least_le: "t \<in> set ts \<Longrightarrow> \<exists>m. least ts = Some m \<and> m \<le> t"
proof -
  have le: "foldl min a ts \<le> a \<and> (\<forall>t \<in> set ts. foldl min a ts \<le> t)" for a :: int and ts
  proof (induction ts arbitrary: a)
    case (Cons x ts)
    from Cons [of "min a x"] show ?case by auto
  qed simp
  assume "t \<in> set ts"
  then show ?thesis using le by (cases ts) (auto simp: least_def)
qed

lemma in_positive: "t \<in> set (positive xs) \<longleftrightarrow> 0 < t \<and> Some t \<in> set xs"
  by (force simp: positive_def split: option.splits)

lemma foldl_max_ge: "k = a \<or> k \<in> set ks \<Longrightarrow> k \<le> foldl max a (ks :: 'a::linorder list)"
proof (induction ks arbitrary: a k)
  case (Cons x ks)
  have ge: "max a x \<le> foldl max (max a x) ks" by (rule Cons.IH) simp
  from Cons.prems consider "k \<le> max a x" | "k \<in> set ks" by auto
  then show ?case
  proof cases
    case 1
    from order_trans [OF this ge] show ?thesis by simp
  next
    case 2
    then have "k \<le> foldl max (max a x) ks" by (intro Cons.IH) simp
    then show ?thesis by simp
  qed
qed simp

lemma highest_key_ge: "r \<in> set (rt_rows cfg st) \<Longrightarrow> rt_scanned cfg r \<Longrightarrow> below_high cfg (highest_key cfg st) r"
proof -
  assume "r \<in> set (rt_rows cfg st)" "rt_scanned cfg r"
  then have in': "rt_keys cfg r \<in> set (map (rt_keys cfg) (filter (rt_scanned cfg) (rt_rows cfg st)))" by simp
  then obtain k ks where ks: "map (rt_keys cfg) (filter (rt_scanned cfg) (rt_rows cfg st)) = k # ks"
    by (cases "map (rt_keys cfg) (filter (rt_scanned cfg) (rt_rows cfg st))") auto
  then have "rt_keys cfg r \<le> foldl max k ks" using in' foldl_max_ge [of "rt_keys cfg r" k ks] by (simp only: ks set_simps) blast
  then show ?thesis by (simp add: highest_key_def below_high_def ks)
qed

text \<open>The minimum over the workspaces that a run of the table is given.\<close>

definition run_minimum :: "'r table_config \<Rightarrow> store \<Rightarrow> int option" where
  "run_minimum cfg st = (case rt_setting cfg of None \<Rightarrow> None | Some setting \<Rightarrow> minimum_setting setting st)"

definition run_ttls :: "'r table_config \<Rightarrow> retention_defaults \<Rightarrow> store \<Rightarrow> int list" where
  "run_ttls cfg defaults st = (if rt_setting cfg = None then [] else positive [rt_fallback cfg defaults, run_minimum cfg st])"

lemma minimum_le:
  assumes "w \<in> set (st_workspaces st)" "wp_retention w = Some s" "setting s = Some (Some ttl)" "0 < ttl"
  shows "\<exists>m. minimum_setting setting st = Some m \<and> 0 < m \<and> m \<le> ttl"
proof -
  let ?xs = "map (\<lambda>w. case wp_retention w of None \<Rightarrow> None | Some s \<Rightarrow> (case setting s of None \<Rightarrow> None | Some t \<Rightarrow> t)) (st_workspaces st)"
  have "Some ttl \<in> set ?xs" using assms by force
  then have "ttl \<in> set (positive ?xs)" using assms(4) by (simp add: in_positive)
  then obtain m where m: "least (positive ?xs) = Some m" "m \<le> ttl" using least_le by blast
  have "foldl min a ts \<in> set (a # ts)" for a :: int and ts
  proof (induction ts arbitrary: a)
    case (Cons x ts)
    from Cons [of "min a x"] show ?case by (auto simp: min_def split: if_splits)
  qed simp
  then have "m \<in> set (positive ?xs)" using m(1) by (cases "positive ?xs") (auto simp: least_def)
  then show ?thesis using m by (auto simp: in_positive minimum_setting_def)
qed

lemma due_coarse:
  assumes "due cfg defaults now st r"
  shows "(rt_setting cfg = None \<or> run_ttls cfg defaults st \<noteq> []) \<and> coarse_cutoff cfg now (least (run_ttls cfg defaults st)) r"
proof (cases "rt_setting cfg")
  case None
  then show ?thesis by (simp add: run_ttls_def least_def coarse_cutoff_def)
next
  case (Some setting)
  then obtain ttl where ttl: "row_ttl cfg setting defaults st r = Some ttl" "0 < ttl" "older_than cfg (now - ttl * DAY_MS) r"
    using assms by (auto simp: due_def)
  have "\<exists>t \<in> set (run_ttls cfg defaults st). t \<le> ttl"
  proof (cases "case retention_of st (rt_ws cfg r) of None \<Rightarrow> None | Some s \<Rightarrow> setting s")
    case None
    then have "rt_fallback cfg defaults = Some ttl" using ttl(1) by (simp add: row_ttl_def)
    then show ?thesis using ttl(2) Some by (auto simp: run_ttls_def in_positive)
  next
    case (Some t)
    then obtain s where s: "retention_of st (rt_ws cfg r) = Some s" "setting s = Some (Some ttl)"
      using ttl(1) by (auto simp: row_ttl_def split: option.splits)
    then obtain w where "w \<in> set (st_workspaces st)" "wp_retention w = Some s"
    proof (cases "first_row (filter (\<lambda>w. wp_id w = rt_ws cfg r) (st_workspaces st))")
      case (Some w)
      from first_row_Some [OF this] have "w \<in> set (st_workspaces st)" by simp
      with that [of w] s(1) Some show ?thesis by (simp add: retention_of_def)
    qed (use s(1) in \<open>simp add: retention_of_def\<close>)
    from minimum_le [of w st s setting, OF this s(2) ttl(2)] show ?thesis
      using \<open>rt_setting cfg = Some setting\<close> by (auto simp: run_ttls_def run_minimum_def in_positive)
  qed
  then obtain t where t: "t \<in> set (run_ttls cfg defaults st)" "t \<le> ttl" by blast
  obtain m where m: "least (run_ttls cfg defaults st) = Some m" "m \<le> ttl" using least_le [OF t(1)] t(2) by auto
  show ?thesis using t(1) m older_coarse [OF ttl(3) m(2)] by auto
qed
text \<open>What a traversal needs beyond the contract of removal: keys tell rows apart, and rows stay eligible.\<close>

locale retention_scan = retention_table cfg for cfg :: "'r table_config" +
  assumes same_refl: "rt_same cfg r r"
    and rows_distinct: "store_ok st \<Longrightarrow> distinct (rt_rows cfg st)"
    and width: "length (rt_keys cfg r) = rt_width cfg"
    and key_inj: "store_ok st \<Longrightarrow> r \<in> set (rt_rows cfg st) \<Longrightarrow> s \<in> set (rt_rows cfg st) \<Longrightarrow> rt_keys cfg r = rt_keys cfg s \<Longrightarrow> r = s"
    and shrink: "pruned defaults now st st' \<Longrightarrow> set (rt_rows cfg st') \<subseteq> set (rt_rows cfg st)"
    and stays_eligible: "pruned defaults now st st' \<Longrightarrow> rt_scanned cfg r \<Longrightarrow> rt_eligible cfg st r
      \<Longrightarrow> rt_eligible cfg st' r \<and> rt_guard cfg st' r"

definition swept :: "'r table_config \<Rightarrow> retention_defaults \<Rightarrow> ms \<Rightarrow> store \<Rightarrow> store \<Rightarrow> bool" where
  "swept cfg defaults now st0 st \<longleftrightarrow>
     (\<forall>r \<in> set (rt_rows cfg st). \<not> (rt_scanned cfg r \<and> due cfg defaults now st0 r \<and> rt_eligible cfg st0 r))"

text \<open>
  After \<open>k\<close> pages of a run that began at \<open>st0\<close>: there are \<open>k * limit\<close> rows up to the position. If the run began
  without a saved position (\<open>fresh\<close>), every one of them was examined; a saved position may be any key, even one of another width.
\<close>

definition ended :: "rtable \<Rightarrow> scan_state \<Rightarrow> bool" where
  "ended name state \<longleftrightarrow> sc_positions state name = None \<and> sc_highs state name = None"

definition scanning ::
  "bool \<Rightarrow> 'r table_config \<Rightarrow> rtable \<Rightarrow> retention_defaults \<Rightarrow> ms \<Rightarrow> nat \<Rightarrow> store \<Rightarrow> nat \<Rightarrow> scan_state \<Rightarrow> store \<Rightarrow> bool" where
  "scanning fresh cfg name defaults now limit st0 k state st \<longleftrightarrow>
     (case sc_positions state name of
        None \<Rightarrow> k = 0 \<and> (fresh \<longrightarrow> sc_highs state name = None)
      | Some p \<Rightarrow> (length p = rt_width cfg \<or> \<not> fresh \<and> k = 0) \<and> k * limit \<le> card {r \<in> set (rt_rows cfg st0). rt_keys cfg r \<le> p}
          \<and> (fresh \<longrightarrow> (\<forall>r \<in> set (rt_rows cfg st). rt_scanned cfg r \<longrightarrow> below_high cfg (sc_highs state name) r)
          \<and> (\<forall>r \<in> set (rt_rows cfg st). rt_scanned cfg r \<and> due cfg defaults now st0 r \<and> rt_eligible cfg st0 r \<longrightarrow> p < rt_keys cfg r)))"

lemma scanning_mono:
  "scanning fresh cfg name defaults now limit st0 k state st \<Longrightarrow> set (rt_rows cfg st') \<subseteq> set (rt_rows cfg st) \<Longrightarrow>
   sc_positions state' name = sc_positions state name \<Longrightarrow> sc_highs state' name = sc_highs state name \<Longrightarrow>
   scanning fresh cfg name defaults now limit st0 k state' st'"
  unfolding scanning_def by (simp split: option.splits) blast

lemma scanning_bound:
  assumes "scanning fresh cfg name defaults now limit st0 k state st" "length (rt_rows cfg st0) < k * limit"
  shows False
proof -
  have "card {r \<in> set (rt_rows cfg st0). rt_keys cfg r \<le> p} \<le> length (rt_rows cfg st0)" for p
    by (rule order_trans [OF card_mono card_length]) auto
  then have "k * limit \<le> length (rt_rows cfg st0)"
    using assms(1) by (auto simp: scanning_def split: option.splits intro: order_trans)
  with assms(2) show False by simp
qed

lemma table_step_others:
  assumes "table_step cfg name defaults now limit minimum state st = (n, fin, state', st')" "other \<noteq> name"
  shows "sc_positions state' other = sc_positions state other" "sc_highs state' other = sc_highs state other"
    "sc_next state' = sc_next state"
  using assms by (auto simp: table_step_def Let_def split: prod.splits if_splits)

context retention_scan begin

lemma chunks_clear:
  assumes "store_ok st" "pruned defaults now st0 st" "delete_chunks cfg cs st = (n, st')"
    and "\<And>c r. c \<in> set (concat cs) \<Longrightarrow> r \<in> set (rt_rows cfg st) \<Longrightarrow> rt_same cfg c r \<Longrightarrow> due cfg defaults now st r"
    and "r \<in> set (concat cs)" "rt_scanned cfg r" "rt_eligible cfg st0 r"
  shows "r \<notin> set (rt_rows cfg st')"
  using assms(1-5)
proof (induction cs arbitrary: st n)
  case (Cons c cs)
  obtain k st1 where 1: "delete_chunk cfg c st = (k, st1)" by fastforce
  obtain k' where 2: "delete_chunks cfg cs st1 = (k', st')" using Cons.prems(3) 1 by (auto split: prod.splits)
  have due: "due cfg defaults now st s" if "x \<in> set c" "s \<in> set (rt_rows cfg st)" "rt_same cfg x s" for x s
    using Cons.prems(4) that by auto
  have step: "pruned defaults now st st1" "store_ok st1" "set (rt_rows cfg st1) \<subseteq> set (rt_rows cfg st)"
    by (rule chunk [OF Cons.prems(1) due 1]; assumption)+
  have ws: "st_workspaces st1 = st_workspaces st" using step(1) by (simp add: pruned_def frame_kept_def)
  have due1: "due cfg defaults now st1 s" if "x \<in> set (concat cs)" "s \<in> set (rt_rows cfg st1)" "rt_same cfg x s" for x s
  proof -
    have "x \<in> set (concat (c # cs))" "s \<in> set (rt_rows cfg st)" using that step(3) by auto
    from Cons.prems(4) [OF this that(3)] show ?thesis by (simp add: due_workspaces [OF ws])
  qed
  note p1 = pruned_trans [OF Cons.prems(2) step(1)]
  show ?case
  proof (cases "r \<in> set (concat cs)")
    case True
    show ?thesis by (rule Cons.IH [OF step(2) p1 2 _ True]) (rule due1; assumption)
  next
    case False
    then have "r \<in> set c" using Cons.prems(5) by simp
    moreover have "rt_guard cfg st r" using stays_eligible [OF Cons.prems(2) assms(6,7)] by simp
    ultimately have "doomed cfg c st r" using same_refl by (auto simp: doomed_def list_ex_iff)
    then have "r \<notin> set (rt_rows cfg st1)" using 1 by (auto simp: delete_chunk_def remove_rows)
    moreover have "pruned defaults now st1 st' \<and> store_ok st'"
      by (rule chunks [OF step(2) _ 2]) (rule due1; assumption)
    ultimately show ?thesis using shrink by blast
  qed
qed simp

lemma page_step:
  assumes ok: "store_ok st0" "store_ok st" and p: "pruned defaults now st0 st" and limit: "0 < limit"
    and scan: "scanning fresh cfg name defaults now limit st0 k state st"
    and step: "table_step cfg name defaults now limit (run_minimum cfg st0) state st = (n, fin, state', st')"
  shows "if fin then (fresh \<longrightarrow> swept cfg defaults now st0 st') \<and> ended name state' else scanning fresh cfg name defaults now limit st0 (Suc k) state' st'"
proof -
  have ws: "st_workspaces st = st_workspaces st0" using p by (simp add: pruned_def frame_kept_def)
  note due0 = due_workspaces [OF ws, of cfg defaults now]
  define ttls where "ttls = run_ttls cfg defaults st0"
  have ttls: "(if rt_setting cfg = None then [] else positive [rt_fallback cfg defaults, run_minimum cfg st0]) = ttls"
    by (simp add: ttls_def run_ttls_def)
  have coarse: "(rt_setting cfg = None \<or> ttls \<noteq> []) \<and> coarse_cutoff cfg now (least ttls) r" if "due cfg defaults now st0 r" for r
    using due_coarse [OF that] by (simp add: ttls_def)
  note step' = step [unfolded table_step_def ttls Let_def]
  show ?thesis
  proof (cases "rt_setting cfg \<noteq> None \<and> ttls = []")
    case True
    then have "fin" "st' = st" "ended name state'" using step' by (auto simp: ended_def)
    moreover have "\<not> due cfg defaults now st0 r" for r using coarse [of r] True by auto
    ultimately show ?thesis by (simp add: swept_def)
  next
    case False
    define high where "high = (case sc_highs state name of None \<Rightarrow> highest_key cfg st | Some k \<Rightarrow> Some k)"
    define cand where "cand = filter (\<lambda>r. rt_scanned cfg r \<and> coarse_cutoff cfg now (least ttls) r
        \<and> after_cursor cfg (sc_positions state name) r \<and> below_high cfg high r) (rt_rows cfg st)"
    define page where "page = order_limit (rt_keys cfg) limit cand"
    define rem where "rem = filter (row_expired cfg defaults now st) page"
    have page_eq: "candidate_page cfg now (least ttls) (sc_positions state name) high limit st = page"
      by (simp add: candidate_page_def page_def cand_def)
    obtain m st1 where del: "delete_chunks cfg (pages 40 rem) st = (m, st1)" by fastforce
    have fin: "fin = (length page < limit \<or> (page \<noteq> [] \<and> Some (rt_keys cfg (last page)) = high))" and st': "st' = st1"
      and state': "\<not> fin \<Longrightarrow> sc_positions state' name = Some (rt_keys cfg (last page)) \<and> sc_highs state' name = high"
      and end': "fin \<Longrightarrow> ended name state'"
      using step' False unfolding high_def [symmetric] page_eq rem_def [symmetric] del prod.case by (auto simp: ended_def split: if_splits)
    have sub: "set page \<subseteq> set cand" "set cand \<subseteq> set (rt_rows cfg st)"
      unfolding page_def by (rule set_order_limit) (simp add: cand_def)
    have due_same: "due cfg defaults now st r" if "c \<in> set (concat (pages 40 rem))" "r \<in> set (rt_rows cfg st)" "rt_same cfg c r" for c r
    proof -
      have "c \<in> set rem" using that(1) concat_pages [of 40 rem] by simp
      then have "c \<in> set (rt_rows cfg st)" "due cfg defaults now st c" using sub row_expired_due unfolding rem_def by auto
      with identity [OF ok(2) _ that(2,3)] show ?thesis by simp
    qed
    have next': "pruned defaults now st st1 \<and> store_ok st1" by (rule chunks [OF ok(2) _ del]) (rule due_same; assumption)
    have rows1: "set (rt_rows cfg st1) \<subseteq> set (rt_rows cfg st)" using shrink next' by blast
    have rows0: "set (rt_rows cfg st) \<subseteq> set (rt_rows cfg st0)" using shrink p by blast
    let ?due = "\<lambda>r. rt_scanned cfg r \<and> due cfg defaults now st0 r \<and> rt_eligible cfg st0 r"
    have high: "below_high cfg high r" if fresh "r \<in> set (rt_rows cfg st)" "rt_scanned cfg r" for r
      using scan that highest_key_ge [of r cfg st] by (auto simp: scanning_def high_def split: option.splits)
    have in_cand: "r \<in> set cand" if r: fresh "r \<in> set (rt_rows cfg st)" "?due r" for r
      using scan r coarse [of r] high [of r]
      by (auto simp: cand_def after_cursor_def scanning_def split: option.splits)
    have page_cleared: "r \<notin> set (rt_rows cfg st1)" if r: "r \<in> set page" "?due r" for r
    proof (rule chunks_clear [OF ok(2) p del])
      have "row_expired cfg defaults now st r"
        using r(2) stays_eligible [OF p, of r] due0 [of r] by (auto simp: row_expired_def due_def split: option.splits)
      then show "r \<in> set (concat (pages 40 rem))" using r(1) concat_pages [of 40 rem] by (simp add: rem_def)
    qed (use r due_same in blast)+
    have after: "rt_keys cfg x < rt_keys cfg r" if "r \<in> set cand" "r \<notin> set page" "x \<in> set page" for r x
    proof -
      have "rt_keys cfg x \<le> rt_keys cfg r" using order_limit_least [of x "rt_keys cfg" limit cand r] that by (simp add: page_def)
      moreover have "x \<noteq> r" "x \<in> set (rt_rows cfg st)" "r \<in> set (rt_rows cfg st)" using that sub by auto
      then have "rt_keys cfg x \<noteq> rt_keys cfg r" using key_inj [OF ok(2)] by blast
      ultimately show ?thesis by simp
    qed
    have left: "r \<in> set cand - set page" if fresh "r \<in> set (rt_rows cfg st1)" "?due r" for r
      using that in_cand rows1 page_cleared by blast
    show ?thesis
    proof (cases fin)
      case True
      have "False" if r: fresh "r \<in> set (rt_rows cfg st1)" "?due r" for r
      proof (cases "length page < limit")
        case True
        then have "length cand \<le> limit" by (simp add: page_def length_order_limit min_def split: if_splits)
        then have "set page = set cand" unfolding page_def by (rule order_limit_all)
        then show False using left [OF r] by simp
      next
        case False
        then have l: "page \<noteq> []" "high = Some (rt_keys cfg (last page))" using \<open>fin\<close> fin by auto
        have "below_high cfg high r" using high r rows1 by blast
        then have "rt_keys cfg r \<le> rt_keys cfg (last page)" using l width by (simp add: below_high_def)
        then show False using after [of r "last page"] left [OF r] l(1) by fastforce
      qed
      then show ?thesis using True st' end' by (auto simp: swept_def)
    next
      case False
      then have "\<not> length page < limit" using fin by blast
      moreover have "length page \<le> limit" by (simp add: page_def length_order_limit)
      ultimately have len: "length page = limit" by simp
      with limit have ne: "page \<noteq> []" by auto
      let ?p = "rt_keys cfg (last page)"
      have top: "rt_keys cfg x \<le> ?p" if "x \<in> set page" for x
      proof -
        define b l where "b = butlast page" and "l = last page"
        have page_eq: "page = b @ [l]" using ne by (simp add: b_def l_def)
        have "sorted (map (rt_keys cfg) page)" unfolding page_def by (rule order_limit_sorted)
        then have "\<forall>y \<in> set b. rt_keys cfg y \<le> rt_keys cfg l" unfolding page_eq by (simp add: sorted_append)
        moreover have "x \<in> set b \<or> x = l" using that unfolding page_eq by auto
        ultimately show ?thesis unfolding l_def [symmetric] by auto
      qed
      have "distinct cand" using rows_distinct [OF ok(2)] by (simp add: cand_def)
      then have page_card: "card (set page) = limit"
        using len distinct_card [of page] by (simp add: page_def order_limit_def)
      define A where "A = (case sc_positions state name of None \<Rightarrow> {}
        | Some p \<Rightarrow> if length p = rt_width cfg then {r \<in> set (rt_rows cfg st0). rt_keys cfg r \<le> p} else {})"
      have A: "finite A" "k * limit \<le> card A" "A \<subseteq> set (rt_rows cfg st0)" "A \<inter> set page = {}"
        using scan sub(1) by (auto simp: A_def scanning_def cand_def after_cursor_def width split: option.splits if_splits)
      have A_le: "rt_keys cfg r \<le> ?p" if "r \<in> A" for r
      proof -
        obtain q where q: "sc_positions state name = Some q" "rt_keys cfg r \<le> q" "length q = rt_width cfg"
          using \<open>r \<in> A\<close> by (auto simp: A_def split: option.splits if_splits)
        have "last page \<in> set cand" using sub(1) ne by auto
        then have "q < ?p" using q by (auto simp: cand_def after_cursor_def)
        with q(2) show ?thesis by simp
      qed
      have "A \<union> set page \<subseteq> {r \<in> set (rt_rows cfg st0). rt_keys cfg r \<le> ?p}" using A_le A(3) top sub rows0 by auto
      then have "card (A \<union> set page) \<le> card {r \<in> set (rt_rows cfg st0). rt_keys cfg r \<le> ?p}" by (intro card_mono) auto
      then have card: "Suc k * limit \<le> card {r \<in> set (rt_rows cfg st0). rt_keys cfg r \<le> ?p}"
        using A page_card by (simp add: card_Un_disjoint)
      have "?p < rt_keys cfg r" if fresh "r \<in> set (rt_rows cfg st1)" "?due r" for r
        using after [of r "last page"] left [OF that] ne by simp
      then show ?thesis
        using False st' state' [OF False] card high rows1 width by (auto simp: scanning_def)
    qed
  qed
qed

end

lemma pruned_parts:
  assumes "pruned defaults now st st'"
  shows "set (messages (st_db st')) \<subseteq> set (messages (st_db st))" "set (deliveries (st_db st')) \<subseteq> set (deliveries (st_db st))"
    "set (st_logs st') \<subseteq> set (st_logs st)" "set (st_events st') \<subseteq> set (st_events st)"
    "set (readReceipts (st_db st')) \<subseteq> set (readReceipts (st_db st))"
  using assms by (simp_all add: pruned_def parts_pruned)

lemma not_newest_stays: "pruned defaults now st st' \<Longrightarrow> not_newest st e \<Longrightarrow> not_newest st' e"
  using pruned_max_seq [of defaults now st st' "we_ws e"]
proof -
  assume p: "pruned defaults now st st'" and n: "not_newest st e"
  then obtain hw where hw: "hw \<in> set (st_events st)" "we_ws hw = we_ws e" "we_seq e < we_seq hw" by (auto simp: not_newest_def list_ex_iff)
  show ?thesis
  proof (cases "hw \<in> set (st_events st')")
    case True
    with hw show ?thesis by (auto simp: not_newest_def list_ex_iff)
  next
    case False
    then obtain h where "h \<in> set (st_events st')" "we_ws h = we_ws hw" "we_seq hw < we_seq h"
      using p hw(1) unfolding pruned_def events_pruned_def by blast
    with hw show ?thesis by (auto simp: not_newest_def list_ex_iff intro!: bexI [of _ h])
  qed
qed

lemma store_rows_distinct:
  assumes "store_ok st"
  shows "distinct (messages (st_db st))" "distinct (deliveries (st_db st))" "distinct (st_logs st)" "distinct (st_events st)"
    "distinct (readReceipts (st_db st))"
  using store_ok_D [OF assms] mb_inv_distinct(2,3) [of "st_db st"] by (simp_all add: distinct_map)

interpretation messages_scan: retention_scan messages_table
proof (unfold_locales, goal_cases)
  case (4 st r s) then show ?case by (simp add: messages_table_def same_identity(1))
next
  case (6 defaults now st st' r) then show ?case using pruned_parts(1) [OF 6(1)] by (auto simp: messages_table_def no_replies_def list_ex_iff)
qed (auto simp: messages_table_def simp: store_rows_distinct dest: pruned_parts [THEN subsetD])

interpretation deliveries_scan: retention_scan deliveries_table
proof (unfold_locales, goal_cases)
  case (4 st r s) then show ?case by (simp add: deliveries_table_def same_identity(2))
qed (auto simp: deliveries_table_def simp: store_rows_distinct dest: pruned_parts [THEN subsetD])

interpretation logs_scan: retention_scan message_logs_table
proof (unfold_locales, goal_cases)
  case (4 st r s) then show ?case by (simp add: message_logs_table_def same_identity(3))
qed (auto simp: message_logs_table_def simp: store_rows_distinct dest: pruned_parts [THEN subsetD])

interpretation events_scan: retention_scan workspace_events_table
proof (unfold_locales, goal_cases)
  case (4 st r s) then show ?case by (simp add: workspace_events_table_def same_identity(4))
next
  case (6 defaults now st st' r) then show ?case using not_newest_stays [OF 6(1)] by (simp add: workspace_events_table_def)
qed (auto simp: workspace_events_table_def simp: store_rows_distinct dest: pruned_parts [THEN subsetD])

interpretation receipts_scan: retention_scan read_receipts_table
proof (unfold_locales, goal_cases)
  case (4 st r s) then show ?case by (simp add: read_receipts_table_def same_identity(5))
next
  case (6 defaults now st st' r) then show ?case using pruned_parts(1) [OF 6(1)] by (auto simp: read_receipts_table_def orphaned_def list_ex_iff)
qed (auto simp: read_receipts_table_def simp: store_rows_distinct dest: pruned_parts [THEN subsetD])
subsection \<open>A run with room for every table\<close>

definition swept_name :: "rtable \<Rightarrow> retention_defaults \<Rightarrow> ms \<Rightarrow> store \<Rightarrow> store \<Rightarrow> bool" where
  "swept_name name defaults now st0 st =
     (case name of RMessages \<Rightarrow> swept messages_table defaults now st0 st
      | RDeliveries \<Rightarrow> swept deliveries_table defaults now st0 st
      | RMessageLogs \<Rightarrow> swept message_logs_table defaults now st0 st
      | RWorkspaceEvents \<Rightarrow> swept workspace_events_table defaults now st0 st
      | RReadReceipts \<Rightarrow> swept read_receipts_table defaults now st0 st)"

definition scanning_name ::
  "bool \<Rightarrow> rtable \<Rightarrow> retention_defaults \<Rightarrow> ms \<Rightarrow> nat \<Rightarrow> store \<Rightarrow> nat \<Rightarrow> scan_state \<Rightarrow> store \<Rightarrow> bool" where
  "scanning_name fresh name defaults now limit st0 k state st =
     (case name of RMessages \<Rightarrow> scanning fresh messages_table name defaults now limit st0 k state st
      | RDeliveries \<Rightarrow> scanning fresh deliveries_table name defaults now limit st0 k state st
      | RMessageLogs \<Rightarrow> scanning fresh message_logs_table name defaults now limit st0 k state st
      | RWorkspaceEvents \<Rightarrow> scanning fresh workspace_events_table name defaults now limit st0 k state st
      | RReadReceipts \<Rightarrow> scanning fresh read_receipts_table name defaults now limit st0 k state st)"

definition table_size :: "store \<Rightarrow> rtable \<Rightarrow> nat" where
  "table_size st name =
     (case name of RMessages \<Rightarrow> length (messages (st_db st)) | RDeliveries \<Rightarrow> length (deliveries (st_db st))
      | RMessageLogs \<Rightarrow> length (st_logs st) | RWorkspaceEvents \<Rightarrow> length (st_events st)
      | RReadReceipts \<Rightarrow> length (readReceipts (st_db st)))"

lemma scanning_name_bound:
  "scanning_name fresh name defaults now limit st0 k state st \<Longrightarrow> table_size st0 name < k * limit \<Longrightarrow> False"
  by (cases name)
    (auto simp: scanning_name_def table_size_def messages_table_def deliveries_table_def message_logs_table_def
      workspace_events_table_def read_receipts_table_def dest!: scanning_bound)

lemma rows_shrink:
  assumes "pruned defaults now st st'"
  shows "set (rt_rows messages_table st') \<subseteq> set (rt_rows messages_table st)"
    "set (rt_rows deliveries_table st') \<subseteq> set (rt_rows deliveries_table st)"
    "set (rt_rows message_logs_table st') \<subseteq> set (rt_rows message_logs_table st)"
    "set (rt_rows workspace_events_table st') \<subseteq> set (rt_rows workspace_events_table st)"
    "set (rt_rows read_receipts_table st') \<subseteq> set (rt_rows read_receipts_table st)"
  using messages_scan.shrink [OF assms] deliveries_scan.shrink [OF assms] logs_scan.shrink [OF assms]
    events_scan.shrink [OF assms] receipts_scan.shrink [OF assms] by blast+

lemma scanning_name_mono:
  assumes "scanning_name fresh name defaults now limit st0 k state st" "pruned d n st st'"
    "sc_positions state' name = sc_positions state name" "sc_highs state' name = sc_highs state name"
  shows "scanning_name fresh name defaults now limit st0 k state' st'"
  using assms(1,3,4) rows_shrink [OF assms(2)] unfolding scanning_name_def
  by (cases name) (auto elim!: scanning_mono)

lemma swept_name_mono:
  assumes "swept_name name defaults now st0 st" "pruned d n st st'"
  shows "swept_name name defaults now st0 st'"
  using assms(1) rows_shrink [OF assms(2)] unfolding swept_name_def swept_def by (cases name) (simp_all, blast+)

lemma step_table_scan:
  assumes "store_ok st0" "store_ok st" "pruned defaults now st0 st" "0 < limit"
    and "scanning_name fresh name defaults now limit st0 k state st"
    and "step_table name defaults now limit (minimum_of st0 name) state st = (n, fin, state', st')"
  shows "if fin then (fresh \<longrightarrow> swept_name name defaults now st0 st') \<and> ended name state' else scanning_name fresh name defaults now limit st0 (Suc k) state' st'"
proof -
  have min: "minimum_of st0 RMessages = run_minimum messages_table st0" "minimum_of st0 RDeliveries = run_minimum deliveries_table st0"
    "minimum_of st0 RMessageLogs = run_minimum message_logs_table st0"
    "minimum_of st0 RWorkspaceEvents = run_minimum workspace_events_table st0"
    "minimum_of st0 RReadReceipts = run_minimum read_receipts_table st0"
    by (simp_all add: minimum_of_def run_minimum_def messages_table_def deliveries_table_def message_logs_table_def
        workspace_events_table_def read_receipts_table_def)
  note facts = assms(1-4)
  show ?thesis
  proof (cases name)
    case RMessages
    with assms(5,6) show ?thesis
      using messages_scan.page_step [OF facts] by (simp add: swept_name_def scanning_name_def step_table_def min)
  next
    case RDeliveries
    with assms(5,6) show ?thesis
      using deliveries_scan.page_step [OF facts] by (simp add: swept_name_def scanning_name_def step_table_def min)
  next
    case RMessageLogs
    with assms(5,6) show ?thesis
      using logs_scan.page_step [OF facts] by (simp add: swept_name_def scanning_name_def step_table_def min)
  next
    case RWorkspaceEvents
    with assms(5,6) show ?thesis
      using events_scan.page_step [OF facts] by (simp add: swept_name_def scanning_name_def step_table_def min)
  next
    case RReadReceipts
    with assms(5,6) show ?thesis
      using receipts_scan.page_step [OF facts] by (simp add: swept_name_def scanning_name_def step_table_def min)
  qed
qed

lemma step_table_others:
  assumes step: "step_table name defaults now limit minimum state st = (n, fin, state', st')" and other: "other \<noteq> name"
  shows "sc_positions state' other = sc_positions state other" "sc_highs state' other = sc_highs state other"
    "sc_next state' = sc_next state"
proof -
  have "sc_positions state' other = sc_positions state other \<and> sc_highs state' other = sc_highs state other \<and> sc_next state' = sc_next state"
  proof (cases name)
    case RMessages
    with step have "table_step messages_table name defaults now limit minimum state st = (n, fin, state', st')" by (simp add: step_table_def)
    from table_step_others [OF this other] show ?thesis by blast
  next
    case RDeliveries
    with step have "table_step deliveries_table name defaults now limit minimum state st = (n, fin, state', st')" by (simp add: step_table_def)
    from table_step_others [OF this other] show ?thesis by blast
  next
    case RMessageLogs
    with step have "table_step message_logs_table name defaults now limit minimum state st = (n, fin, state', st')" by (simp add: step_table_def)
    from table_step_others [OF this other] show ?thesis by blast
  next
    case RWorkspaceEvents
    with step have "table_step workspace_events_table name defaults now limit minimum state st = (n, fin, state', st')" by (simp add: step_table_def)
    from table_step_others [OF this other] show ?thesis by blast
  next
    case RReadReceipts
    with step have "table_step read_receipts_table name defaults now limit minimum state st = (n, fin, state', st')" by (simp add: step_table_def)
    from table_step_others [OF this other] show ?thesis by blast
  qed
  then show "sc_positions state' other = sc_positions state other" "sc_highs state' other = sc_highs state other"
    "sc_next state' = sc_next state" by blast+
qed

text \<open>How often the first \<open>j\<close> iterations came to table \<open>i\<close>, beginning at table \<open>start\<close>.\<close>

fun visits :: "nat \<Rightarrow> nat \<Rightarrow> nat \<Rightarrow> nat" where
  "visits start 0 i = 0"
| "visits start (Suc j) i = visits start j i + (if (start + j) mod 5 = i then 1 else 0)"

lemma visits_rounds: "i < 5 \<Longrightarrow> visits start (5 * r) i = r"
proof (induction r)
  case (Suc r)
  define a where "a = (start + 5 * r) mod 5"
  have five: "5 * Suc r = Suc (Suc (Suc (Suc (Suc (5 * r)))))" by simp
  have a: "a = 0 \<or> a = 1 \<or> a = 2 \<or> a = 3 \<or> a = 4" unfolding a_def by presburger
  have m: "(start + Suc (5 * r)) mod 5 = (a + 1) mod 5" "(start + Suc (Suc (5 * r))) mod 5 = (a + 2) mod 5"
    "(start + Suc (Suc (Suc (5 * r)))) mod 5 = (a + 3) mod 5" "(start + Suc (Suc (Suc (Suc (5 * r))))) mod 5 = (a + 4) mod 5"
    unfolding a_def by presburger+
  have i: "i = 0 \<or> i = 1 \<or> i = 2 \<or> i = 3 \<or> i = 4" using Suc.prems by linarith
  have "(if a = i then 1 else 0) + (if (a + 1) mod 5 = i then 1 else 0) + (if (a + 2) mod 5 = i then 1 else 0)
      + (if (a + 3) mod 5 = i then 1 else 0) + (if (a + 4) mod 5 = i then 1 else 0) = (1 :: nat)"
    using a i by (elim disjE) simp_all
  moreover have "visits start (5 * Suc r) i = visits start (5 * r) i + ((if a = i then 1 else 0) + (if (a + 1) mod 5 = i then 1 else 0)
      + (if (a + 2) mod 5 = i then 1 else 0) + (if (a + 3) mod 5 = i then 1 else 0) + (if (a + 4) mod 5 = i then 1 else 0))"
    unfolding five visits.simps m a_def [symmetric] by linarith
  ultimately show ?case using Suc by linarith
qed simp

text \<open>How far a table has come: its traversal is over, or it has had \<open>k\<close> pages.\<close>

definition tracked ::
  "bool \<Rightarrow> retention_defaults \<Rightarrow> ms \<Rightarrow> nat \<Rightarrow> store \<Rightarrow> nat \<Rightarrow> rtable list \<Rightarrow> scan_state \<Rightarrow> store \<Rightarrow> rtable \<Rightarrow> bool" where
  "tracked fresh defaults now limit st0 k finished state st name \<longleftrightarrow>
     (if name \<in> set finished then (fresh \<longrightarrow> swept_name name defaults now st0 st) \<and> ended name state
      else scanning_name fresh name defaults now limit st0 k state st)"

lemma tracked_later:
  assumes "tracked fresh defaults now limit st0 k finished state st name" "pruned d n st st'"
    "sc_positions state' name = sc_positions state name" "sc_highs state' name = sc_highs state name"
    "name \<in> set finished' \<longleftrightarrow> name \<in> set finished"
  shows "tracked fresh defaults now limit st0 k finished' state' st' name"
  using assms swept_name_mono [OF _ assms(2)] scanning_name_mono [OF _ assms(2-4)] by (simp add: tracked_def ended_def split: if_splits)

text \<open>The document that is saved, once a table was finished, has the positions of the run.\<close>

definition saved :: "prune_run \<Rightarrow> bool" where
  "saved run \<longleftrightarrow> (\<exists>s. st_cursor (pr_store run) = Some s
     \<and> sc_positions s = sc_positions (pr_state run) \<and> sc_highs s = sc_highs (pr_state run))"

definition progress :: "bool \<Rightarrow> nat \<Rightarrow> retention_defaults \<Rightarrow> ms \<Rightarrow> nat \<Rightarrow> store \<Rightarrow> nat \<Rightarrow> prune_run \<Rightarrow> bool" where
  "progress fresh start defaults now limit st0 j run \<longleftrightarrow>
     sc_next (pr_state run) = (start + j) mod 5 \<and> distinct (pr_finished run) \<and> (pr_finished run \<noteq> [] \<longrightarrow> saved run)
   \<and> pruned defaults now st0 (pr_store run) \<and> store_ok (pr_store run)
   \<and> (\<forall>i < 5. tracked fresh defaults now limit st0 (visits start j i) (pr_finished run) (pr_state run) (pr_store run) (table_names ! i))"

lemma table_names_inj: "i < 5 \<Longrightarrow> j < 5 \<Longrightarrow> table_names ! i = table_names ! j \<longleftrightarrow> i = j"
  by (rule nth_eq_iff_index_eq) (simp_all add: table_names_def)

lemma all_names: "\<exists>i < 5. table_names ! i = name"
proof -
  have "name \<in> set table_names" by (cases name) (simp_all add: table_names_def)
  then obtain i where "i < length table_names" "table_names ! i = name" unfolding in_set_conv_nth by blast
  then show ?thesis by (intro exI [of _ i]) (simp add: table_names_def)
qed
lemma progress_step:
  assumes ok: "store_ok st0" "0 < limit" and pr: "progress fresh start defaults now limit st0 j run"
    and name: "name = table_names ! sc_next (pr_state run)"
    and state: "state = (pr_state run)\<lparr>sc_next := (sc_next (pr_state run) + 1) mod length table_names\<rparr>"
  shows "name \<in> set (pr_finished run) \<Longrightarrow> progress fresh start defaults now limit st0 (Suc j) (run\<lparr>pr_state := state\<rparr>)"
    and "name \<notin> set (pr_finished run) \<Longrightarrow>
      step_table name defaults now limit (minimum_of st0 name) state (pr_store run) = (n, fin, state', st') \<Longrightarrow>
      progress fresh start defaults now limit st0 (Suc j)
        \<lparr>pr_state = state', pr_finished = (if fin then name # pr_finished run else pr_finished run),
         pr_result = (pr_result run)(name := pr_result run name + n), pr_store = st'\<lparr>st_cursor := Some state'\<rparr>\<rparr>"
proof -
  note pr' = pr [unfolded progress_def]
  let ?i = "(start + j) mod 5" and ?v = "visits start"
  have i: "?i < 5" "name = table_names ! ?i" using pr' name by simp_all
  have next': "sc_next state = (start + Suc j) mod 5" using pr' by (simp add: state table_names_def mod_Suc_eq)
  have same: "sc_positions state = sc_positions (pr_state run)" "sc_highs state = sc_highs (pr_state run)" by (simp_all add: state)
  have tab: "tracked fresh defaults now limit st0 (?v j i) (pr_finished run) state (pr_store run) (table_names ! i)" if "i < 5" for i
    using pr' that tracked_later [OF _ pruned_refl, of fresh defaults now limit st0 "?v j i" "pr_finished run" "pr_state run" "pr_store run"
        "table_names ! i" state "pr_finished run"] same by simp
  have other: "?v (Suc j) i = ?v j i" if "i \<noteq> ?i" for i using that by simp
  show "progress fresh start defaults now limit st0 (Suc j) (run\<lparr>pr_state := state\<rparr>)" if fin: "name \<in> set (pr_finished run)"
    unfolding progress_def
  proof (intro conjI allI impI)
    fix i :: nat assume i5: "i < 5"
    have "?v (Suc j) i = ?v j i" if "table_names ! i \<notin> set (pr_finished run)"
      using that fin i(2) by (intro other) auto
    with tab [OF i5] show "tracked fresh defaults now limit st0 (?v (Suc j) i) (pr_finished (run\<lparr>pr_state := state\<rparr>))
        (pr_state (run\<lparr>pr_state := state\<rparr>)) (pr_store (run\<lparr>pr_state := state\<rparr>)) (table_names ! i)"
      by (auto simp: tracked_def simp del: visits.simps)
  qed (use pr' next' same in \<open>auto simp: saved_def\<close>)
  assume nfin: "name \<notin> set (pr_finished run)"
    and step: "step_table name defaults now limit (minimum_of st0 name) state (pr_store run) = (n, fin, state', st')"
  have inv: "pruned defaults now st0 (pr_store run)" "store_ok (pr_store run)" using pr' by blast+
  have st': "pruned defaults now (pr_store run) st'" "store_ok st'" using step_table_pruned [OF inv(2) step] by blast+
  have p0: "pruned defaults now st0 st'" by (rule pruned_trans [OF inv(1) st'(1)])
  have here: "scanning_name fresh name defaults now limit st0 (?v j ?i) state (pr_store run)"
    using tab [OF i(1)] nfin i(2) by (simp add: tracked_def)
  have after: "if fin then (fresh \<longrightarrow> swept_name name defaults now st0 st') \<and> ended name state'
      else scanning_name fresh name defaults now limit st0 (?v (Suc j) ?i) state' st'"
    using step_table_scan [OF ok(1) inv(2,1) ok(2) here step] by simp
  have cursor: "pruned defaults now st' (st'\<lparr>st_cursor := Some state'\<rparr>)" using pruned_refl [of defaults now st'] by simp
  let ?fin = "if fin then name # pr_finished run else pr_finished run"
  have all: "tracked fresh defaults now limit st0 (?v (Suc j) i) ?fin state' (st'\<lparr>st_cursor := Some state'\<rparr>) (table_names ! i)"
    if i5: "i < 5" for i
  proof (cases "i = ?i")
    case True
    have "tracked fresh defaults now limit st0 (?v (Suc j) i) ?fin state' st' (table_names ! i)"
      using after nfin i(2) True by (cases fin) (auto simp: tracked_def simp del: visits.simps)
    then show ?thesis by (rule tracked_later [OF _ cursor]) simp_all
  next
    case False
    then have ne: "table_names ! i \<noteq> name" using table_names_inj [OF i5 i(1)] i(2) by simp
    note oth = step_table_others [OF step ne]
    show ?thesis unfolding other [OF False]
      by (rule tracked_later [OF tracked_later [OF tab [OF i5] st'(1) oth(1,2) refl] cursor refl refl]) (use ne in auto)
  qed
  have "sc_next state' = (start + Suc j) mod 5"
    using step_table_others(3) [OF step, of "if name = RMessages then RDeliveries else RMessages"] next' by (auto split: if_splits)
  then show "progress fresh start defaults now limit st0 (Suc j)
        \<lparr>pr_state = state', pr_finished = ?fin, pr_result = (pr_result run)(name := pr_result run name + n),
         pr_store = st'\<lparr>st_cursor := Some state'\<rparr>\<rparr>"
    unfolding progress_def using pr' nfin p0 st'(2) all by (simp add: saved_def del: visits.simps)
qed

lemma progress_done:
  assumes "progress fresh start defaults now limit st0 j run" "length (pr_finished run) = length table_names"
  shows "name \<in> set (pr_finished run)"
proof -
  have "card (set (pr_finished run)) = 5"
    using assms distinct_card [of "pr_finished run"] by (simp add: progress_def table_names_def)
  moreover have all: "x \<in> set table_names" for x by (cases x) (simp_all add: table_names_def)
  moreover have "card (set table_names) = 5" by (simp add: table_names_def)
  ultimately have "set (pr_finished run) = set table_names" by (intro card_subset_eq) auto
  then show ?thesis using all by simp
qed

lemma prune_loop_progress:
  assumes ok: "store_ok st0" "0 < limit" and budget: "\<And>k. in_budget k"
    and room: "\<And>name. table_size st0 name < rounds * limit"
    and pr: "progress fresh start defaults now limit st0 j run" and steps: "j + steps = 5 * rounds"
  shows "\<exists>j run'. run' = prune_loop defaults now limit (minimum_of st0) in_budget k steps run
    \<and> progress fresh start defaults now limit st0 j run' \<and> (\<forall>name. name \<in> set (pr_finished run'))"
  using pr steps
proof (induction steps arbitrary: j k run)
  case 0
  then have j: "j = 5 * rounds" by simp
  have "name \<in> set (pr_finished run)" for name
  proof -
    obtain i where i: "i < 5" "table_names ! i = name" using all_names by blast
    have "\<not> scanning_name fresh name defaults now limit st0 rounds (pr_state run) (pr_store run)"
      using scanning_name_bound room by blast
    then show ?thesis
      using 0(1) i visits_rounds [OF i(1), of start rounds] unfolding progress_def j by (auto simp: tracked_def split: if_splits)
  qed
  then show ?case using 0 by auto
next
  case (Suc steps)
  define state where "state = (pr_state run)\<lparr>sc_next := (sc_next (pr_state run) + 1) mod length table_names\<rparr>"
  define nm where "nm = table_names ! sc_next (pr_state run)"
  obtain n fin state' st' where step: "step_table nm defaults now limit (minimum_of st0 nm) state (pr_store run) = (n, fin, state', st')"
    by (metis prod_cases4)
  define run' where "run' = \<lparr>pr_state = state', pr_finished = (if fin then nm # pr_finished run else pr_finished run),
        pr_result = (pr_result run)(nm := pr_result run nm + n), pr_store = st'\<lparr>st_cursor := Some state'\<rparr>\<rparr>"
  note ps = progress_step [OF ok Suc.prems(1) nm_def state_def]
  have s: "Suc j + steps = 5 * rounds" using Suc.prems(2) by simp
  have skip: "nm \<in> set (pr_finished run) \<Longrightarrow> ?case"
    using Suc.IH [OF ps(1) s] budget [of k]
    unfolding prune_loop.simps Let_def state_def [symmetric] nm_def [symmetric] by simp
  have page: "nm \<notin> set (pr_finished run) \<Longrightarrow> ?case"
    using Suc.IH [OF ps(2) [OF _ step, folded run'_def] s] ps(2) [OF _ step, folded run'_def]
      progress_done [OF ps(2) [OF _ step, folded run'_def]] budget [of k]
    unfolding prune_loop.simps Let_def state_def [symmetric] nm_def [symmetric] step prod.case run'_def [symmetric]
    by auto
  show ?case using skip page by blast
qed

text \<open>The room and the time that a run has for every table.\<close>

definition has_room :: "prune_options \<Rightarrow> store \<Rightarrow> bool" where
  "has_room opts st \<longleftrightarrow> (\<forall>name. table_size st name
     < nat (boundedInteger (po_maxBatches opts) 5 5) * nat (boundedInteger (po_batchLimit opts) 200 200))"

lemma run_with_room:
  assumes ok: "store_ok st" and time: "\<forall>k. in_budget k" and room: "has_room opts st"
    and run: "pruneBounded opts in_budget st = (result, st')" and fresh: "fresh \<longleftrightarrow> (\<forall>name. ended name (load_state st))"
  shows "(\<exists>s. st_cursor st' = Some s \<and> (\<forall>name. ended name s))
    \<and> (fresh \<longrightarrow> swept_name name (effective_defaults (po_defaults opts)) (po_now opts) st st')"
proof -
  let ?rounds = "nat (boundedInteger (po_maxBatches opts) 5 5)" and ?limit = "nat (boundedInteger (po_batchLimit opts) 200 200)"
  let ?defaults = "effective_defaults (po_defaults opts)" and ?now = "po_now opts" and ?start = "sc_next (load_state st)"
  let ?run = "\<lparr>pr_state = load_state st, pr_finished = [], pr_result = (\<lambda>_. 0), pr_store = st\<rparr>"
  have limit: "0 < ?limit" by (auto simp: boundedInteger_def split: option.splits)
  have "?start < 5" by (auto simp: load_state_def initial_state_def split: option.splits)
  then have start: "progress fresh ?start ?defaults ?now ?limit st 0 ?run"
    using ok fresh by (auto simp: progress_def tracked_def ended_def pruned_refl scanning_name_def scanning_def split: rtable.splits option.splits)
  have steps: "0 + ?rounds * length table_names = 5 * ?rounds" by (simp add: table_names_def)
  have "\<exists>j run'. run' = prune_loop ?defaults ?now ?limit (minimum_of st) in_budget 0 (?rounds * length table_names) ?run
      \<and> progress fresh ?start ?defaults ?now ?limit st j run' \<and> (\<forall>name. name \<in> set (pr_finished run'))"
    by (rule prune_loop_progress [OF ok limit _ _ start steps]) (use time room in \<open>auto simp: has_room_def\<close>)
  then obtain j run' where run': "run' = prune_loop ?defaults ?now ?limit (minimum_of st) in_budget 0 (?rounds * length table_names) ?run"
    "progress fresh ?start ?defaults ?now ?limit st j run'" "\<forall>name. name \<in> set (pr_finished run')" by blast
  have st': "st' = pr_store run'" using run run'(1) unfolding pruneBounded_def Let_def by (metis snd_conv)
  have all: "ended name (pr_state run') \<and> (fresh \<longrightarrow> swept_name name ?defaults ?now st (pr_store run'))" for name
  proof -
    obtain i where "i < 5" "table_names ! i = name" using all_names by blast
    then show ?thesis using run'(2,3) unfolding progress_def tracked_def by auto
  qed
  have "pr_finished run' \<noteq> []" using run'(3) by (metis empty_iff list.set(1))
  then have "saved run'" using run'(2) by (simp add: progress_def)
  then show ?thesis using all unfolding st' saved_def ended_def by metis
qed

text \<open>C3: Whatever cursor was saved (none, one in the middle of a table, or a useless one), two runs that have room for the rows
  of every table in their batches and time for their pages leave nothing behind: the first brings every traversal to
  its end, and after the second, with any writes in between, there is no message past its time to live that had no
  reply when that run began, no settled delivery and no log past theirs, no event past its own but the newest, no
  receipt without its message. The first run alone does so if it finds no traversal begun. No row is skipped at the
  border of two pages.\<close>
theorem retention_completes:
  assumes "store_ok st0" "\<forall>k. in_budget0 k" "has_room opts0 st0" "pruneBounded opts0 in_budget0 st0 = (result0, st1)"
    and "st_cursor st = st_cursor st1 \<or> st_cursor st = None"
    and "store_ok st" "\<forall>k. in_budget k" "has_room opts st" "pruneBounded opts in_budget st = (result, st')"
    and "defaults = effective_defaults (po_defaults opts)" "now = po_now opts"
  shows "(\<forall>m \<in> set (messages (st_db st')). no_replies st m \<longrightarrow> \<not> due messages_table defaults now st m)
    \<and> (\<forall>d \<in> set (deliveries (st_db st')). over d \<longrightarrow> \<not> due deliveries_table defaults now st d)
    \<and> (\<forall>l \<in> set (st_logs st'). \<not> due message_logs_table defaults now st l)
    \<and> (\<forall>e \<in> set (st_events st'). not_newest st e \<longrightarrow> \<not> due workspace_events_table defaults now st e)
    \<and> (\<forall>r \<in> set (readReceipts (st_db st')). \<not> orphaned st r)"
proof -
  have "\<exists>s. st_cursor st1 = Some s \<and> (\<forall>name. ended name s)" using run_with_room [OF assms(1-4) refl] by blast
  then have fresh: "True \<longleftrightarrow> (\<forall>name. ended name (load_state st))"
    using assms(5) by (auto simp: load_state_def ended_def initial_state_def)
  have "swept_name name defaults now st st'" for name
    using run_with_room [OF assms(6-9) fresh] assms(10,11) by simp
  from this [of RMessages] this [of RDeliveries] this [of RMessageLogs] this [of RWorkspaceEvents] this [of RReadReceipts]
  show ?thesis
    by (simp add: swept_name_def swept_def messages_table_def deliveries_table_def message_logs_table_def workspace_events_table_def
        read_receipts_table_def due_def) blast
qed
subsection \<open>Numbers of the event log\<close>

definition issued :: "(id \<times> wevent_input) list \<Rightarrow> int option list \<Rightarrow> (id \<times> int) list" where
  "issued inputs seqs = concat (map (\<lambda>((ws, _), s). case s of None \<Rightarrow> [] | Some x \<Rightarrow> [(ws, x)]) (zip inputs seqs))"

text \<open>The store and the numbers given out so far, under appends of every kind and retention runs in any order.\<close>

inductive log_run :: "store \<Rightarrow> (id \<times> int) list \<Rightarrow> store \<Rightarrow> bool" for st0 where
  start: "log_run st0 [] st0"
| append: "log_run st0 nums st \<Longrightarrow> appendWorkspaceEvent ok now ws input (st_events st) = (s, evs) \<Longrightarrow>
    log_run st0 (nums @ issued [(ws, input)] [s]) (st\<lparr>st_events := evs\<rparr>)"
| guarded: "log_run st0 nums st \<Longrightarrow> appendAndPublishWorkspaceEventWhen ok holds now ws input (st_events st) = (fin, frames, evs) \<Longrightarrow>
    log_run st0 (nums @ (if fin then [(ws, nextSeqSql (st_events st) ws)] else [])) (st\<lparr>st_events := evs\<rparr>)"
| batch: "log_run st0 nums st \<Longrightarrow> appendWorkspaceEventBatch oks now inputs (st_events st) = (seqs, evs) \<Longrightarrow>
    log_run st0 (nums @ issued inputs seqs) (st\<lparr>st_events := evs\<rparr>)"
| prune: "log_run st0 nums st \<Longrightarrow> pruneBounded opts in_budget st = (result, st') \<Longrightarrow> log_run st0 nums st'"

definition grows :: "wevent_row list \<Rightarrow> (id \<times> int) list \<Rightarrow> wevent_row list \<Rightarrow> bool" where
  "grows evs nums evs' \<longleftrightarrow> distinct nums \<and> (\<forall>(ws, s) \<in> set nums. max_seq evs ws < s \<and> s \<le> max_seq evs' ws)
     \<and> (\<forall>ws. max_seq evs ws \<le> max_seq evs' ws) \<and> (distinct (map ev_key evs) \<longrightarrow> distinct (map ev_key evs'))"

lemma grows_refl: "grows evs [] evs"
  by (simp add: grows_def)

lemma grows_trans:
  assumes "grows a xs b" "grows b ys c"
  shows "grows a (xs @ ys) c"
proof -
  have "set xs \<inter> set ys = {}" using assms unfolding grows_def by fastforce
  moreover have "max_seq a ws < s \<and> s \<le> max_seq c ws" if "(ws, s) \<in> set xs \<union> set ys" for ws s
    using assms that unfolding grows_def by (fastforce intro: order_trans le_less_trans)
  moreover have "max_seq a ws \<le> max_seq c ws" for ws using assms unfolding grows_def by (blast intro: order_trans)
  ultimately show ?thesis using assms unfolding grows_def by auto
qed

lemma grows_one: "grows evs [(ws, nextSeqSql evs ws)] (evs @ [event_row_of now ws (nextSeqSql evs ws) input])"
proof -
  have "ev_key e \<noteq> (ws, max_seq evs ws + 1)" if "e \<in> set evs" for e
    using that max_seq_ge [of "we_seq e" evs ws] by (force simp: ev_key_def seqs_of_def)
  moreover have "ev_key (event_row_of now ws s input) = (ws, s)" for s by (simp add: ev_key_def event_row_of_def)
  ultimately show ?thesis
    unfolding grows_def nextSeqSql_def max_seq_snoc by (auto, metis)
qed

lemma grows_append: "appendWorkspaceEvent ok now ws input evs = (s, evs') \<Longrightarrow> grows evs (issued [(ws, input)] [s]) evs'"
  using grows_one [of evs ws now input] grows_refl
  by (auto simp: appendWorkspaceEvent_def buildWorkspaceEventWrite_def Let_def issued_def split: if_splits)

lemma issued_append: "length xs = length ss \<Longrightarrow> issued (xs @ ys) (ss @ ts) = issued xs ss @ issued ys ts"
  by (simp add: issued_def)

lemma grows_each: "append_each now inputs evs = (seqs, evs') \<Longrightarrow> grows evs (issued inputs seqs) evs' \<and> length seqs = length inputs"
proof (induction inputs arbitrary: evs evs' seqs)
  case (Cons p rest)
  obtain ws input where p: "p = (ws, input)" by fastforce
  obtain s log1 where 1: "appendWorkspaceEvent True now ws input evs = (s, log1)" by fastforce
  obtain ss log2 where 2: "append_each now rest log1 = (ss, log2)" by fastforce
  have eq: "seqs = [s] @ ss" "evs' = log2" using Cons.prems by (simp_all add: p 1 2)
  show ?case
    using grows_trans [OF grows_append [OF 1]] Cons.IH [OF 2] issued_append [of "[p]" "[s]" rest ss] by (simp add: eq p)
qed (simp add: grows_refl issued_def)

lemma issued_none: "issued batch (map (\<lambda>_. None) batch) = []"
  by (induction batch) (auto simp: issued_def)

lemma grows_batches:
  "append_batches oks k now bs evs = (seqs, evs') \<Longrightarrow> grows evs (issued (concat bs) seqs) evs' \<and> length seqs = length (concat bs)"
proof (induction bs arbitrary: k evs evs' seqs)
  case (Cons b bs)
  obtain s log1 where 1: "append_batch (oks k) now b evs = (s, log1)" by fastforce
  obtain ss log2 where 2: "append_batches oks (Suc k) now bs log1 = (ss, log2)" by fastforce
  have eq: "seqs = s @ ss" "evs' = log2" using Cons.prems by (simp_all add: 1 2)
  have "grows evs (issued b s) log1 \<and> length s = length b"
  proof (cases "oks k")
    case True
    then show ?thesis using 1 grows_each by (simp add: append_batch_each)
  next
    case False
    then have "s = map (\<lambda>_. None) b" "log1 = evs" using 1 by (simp_all add: append_batch_def)
    then show ?thesis by (simp add: issued_none grows_refl)
  qed
  then show ?case using grows_trans [of evs "issued b s" log1] Cons.IH [OF 2] issued_append [of b s "concat bs" ss] by (simp add: eq)
qed (simp add: grows_refl issued_def)

lemma grows_batch: "appendWorkspaceEventBatch oks now inputs evs = (seqs, evs') \<Longrightarrow> grows evs (issued inputs seqs) evs'"
  using grows_batches [of oks 0 now "pages WORKSPACE_EVENT_APPEND_BATCH_SIZE inputs" evs seqs evs']
    concat_pages [of WORKSPACE_EVENT_APPEND_BATCH_SIZE inputs]
  by (simp add: appendWorkspaceEventBatch_def WORKSPACE_EVENT_APPEND_BATCH_SIZE_def)

lemma store_ok_events:
  "store_ok st \<Longrightarrow> grows (st_events st) nums evs \<Longrightarrow> store_ok (st\<lparr>st_events := evs\<rparr>)"
  by (auto simp: store_ok_def grows_def)

lemma log_run_grows: "log_run st0 nums st \<Longrightarrow> store_ok st0 \<Longrightarrow> store_ok st \<and> grows (st_events st0) nums (st_events st)"
proof (induction rule: log_run.induct)
  case (append nums st ok now ws input s evs)
  then show ?case by (auto intro: grows_trans store_ok_events grows_append)
next
  case (guarded nums st ok holds now ws input d frames evs)
  have g: "grows (st_events st) (if d then [(ws, nextSeqSql (st_events st) ws)] else []) evs"
    using guarded.hyps(2) grows_one [of "st_events st" ws now input] grows_refl
    by (auto simp: appendAndPublishWorkspaceEventWhen_def buildWorkspaceEventWrite_def Let_def split: if_splits)
  show ?case using guarded grows_trans [OF _ g, of "st_events st0" nums] store_ok_events [OF _ g] by simp
next
  case (batch nums st oks now inputs seqs evs)
  then show ?case by (auto intro: grows_trans store_ok_events grows_batch)
next
  case (prune nums st opts in_budget result st')
  then have ok: "store_ok st" "grows (st_events st0) nums (st_events st)" by simp_all
  note p = pruneBounded_pruned [OF ok(1) prune.hyps(2)]
  have "distinct (map ev_key (st_events st'))" using p store_ok_D(3) by blast
  then have "grows (st_events st) [] (st_events st')" using pruned_max_seq [OF conjunct1 [OF p]] by (simp add: grows_def)
  from grows_trans [OF ok(2) this] p show ?case by simp
qed (simp add: grows_refl)

text \<open>C14: A number of the event log is never given out twice in a workspace, in any interleaving of appends that succeed
  or fail, guarded appends, batches over several workspaces and retention runs; each is above every number the log held
  at the start and no larger than the newest event that the log still holds.\<close>
theorem event_numbers_are_fresh:
  assumes "store_ok st0" "log_run st0 nums st"
  shows "distinct nums \<and> (\<forall>(ws, s) \<in> set nums. max_seq (st_events st0) ws < s \<and> s \<le> max_seq (st_events st) ws)"
  using log_run_grows [OF assms(2,1)] by (simp add: grows_def)

subsection \<open>Witnesses\<close>

definition ex_wevent :: "int \<Rightarrow> wevent_row" where
  "ex_wevent s = \<lparr>we_ws = ''w'', we_seq = s, we_type = ''t'', we_channelId = None, we_payload = ''{}'', we_createdAt = 0\<rparr>"

definition ex_store :: store where
  "ex_store =
     \<lparr>st_db = \<lparr>agents = [], deliveries = [], messages = [], channelMembers = [], dmConversations = [], dmParticipants = [],
               readReceipts = [\<lparr>rr_messageId = ''m'', rr_agentId = ''a'', rr_readAt = 0\<rparr>], agentNodeBindings = [], nodes = [],
               nodeProviders = [], actions = [], invocations = []\<rparr>,
      st_logs = [], st_events = [ex_wevent 1, ex_wevent 2], st_workspaces = [\<lparr>wp_id = ''w'', wp_retention = None\<rparr>], st_cursor = None\<rparr>"

definition ex_prune :: prune_options where
  "ex_prune = \<lparr>po_batchLimit = None, po_maxBatches = Some 2, po_now = 100 * DAY_MS,
     po_defaults = \<lparr>message_ttl_days = None, delivery_ttl_days = None, message_log_ttl_days = None, workspace_event_ttl_days = None\<rparr>\<rparr>"

lemma ex_store_ok: "store_ok ex_store"
  by (simp add: store_ok_def mb_inv_def ex_store_def ex_wevent_def ev_key_def)

lemma ex_max: "max_seq (st_events ex_store) ''w'' = 2"
  by (simp add: max_seq_def seqs_of_def ex_store_def ex_wevent_def)

theorem retention_is_safe_witness:
  "max_seq (st_events (snd (pruneBounded ex_prune (\<lambda>_. True) ex_store))) ''w'' = 2
   \<and> mb_inv (st_db (snd (pruneBounded ex_prune (\<lambda>_. True) ex_store)))"
  using retention_is_safe [OF ex_store_ok prod.collapse [symmetric] refl refl, of ex_prune "\<lambda>_. True"] ex_max by metis

definition ex_cursor_store :: store where
  "ex_cursor_store = ex_store\<lparr>st_cursor := Some \<lparr>sc_next = 3,
     sc_positions = (\<lambda>name. if name = RWorkspaceEvents then Some [KInt 9, KText ''w'', KInt 9] else None), sc_highs = (\<lambda>_. None)\<rparr>\<rparr>"

text \<open>The first run begins past the row that is due; the second removes it.\<close>

theorem retention_completes_witness:
  "\<exists>st1. st1 = snd (pruneBounded ex_prune (\<lambda>_. True) ex_cursor_store)
   \<and> ex_wevent 1 \<notin> set (st_events (snd (pruneBounded ex_prune (\<lambda>_. True) (ex_store\<lparr>st_cursor := st_cursor st1\<rparr>))))"
proof (intro exI conjI)
  let ?st1 = "snd (pruneBounded ex_prune (\<lambda>_. True) ex_cursor_store)"
  let ?st = "ex_store\<lparr>st_cursor := st_cursor ?st1\<rparr>"
  have ok: "store_ok ex_cursor_store" "store_ok ?st" using ex_store_ok by (simp_all add: store_ok_def ex_cursor_store_def)
  have room: "has_room ex_prune ex_cursor_store" "has_room ex_prune ?st"
    by (simp_all add: has_room_def table_size_def ex_cursor_store_def ex_store_def ex_prune_def boundedInteger_def split: rtable.split)
  note all = retention_completes [OF ok(1) _ room(1) prod.collapse [symmetric] _ ok(2) _ room(2) prod.collapse [symmetric] refl refl,
      of "\<lambda>_. True" "\<lambda>_. True"]
  have "not_newest ?st (ex_wevent 1)" by (simp add: not_newest_def ex_store_def ex_wevent_def)
  moreover have "due workspace_events_table (effective_defaults (po_defaults ex_prune)) (po_now ex_prune) ?st (ex_wevent 1)"
    by (simp add: due_def workspace_events_table_def row_ttl_def retention_of_def ex_store_def ex_wevent_def ex_prune_def
        effective_defaults_def older_than_def DAY_MS_def)
  ultimately show "ex_wevent 1 \<notin> set (st_events (snd (pruneBounded ex_prune (\<lambda>_. True) ?st)))" using all by (simp) blast
qed simp

theorem event_numbers_are_fresh_witness:
  "\<exists>st. log_run ex_store [(''w'', 3)] st \<and> max_seq (st_events ex_store) ''w'' < 3 \<and> 3 \<le> max_seq (st_events st) ''w''"
proof -
  let ?in = "\<lparr>wi_type = ''t'', wi_channelId = None, wi_payload = []\<rparr>"
  have "appendWorkspaceEvent True 0 ''w'' ?in (st_events ex_store)
      = (Some 3, st_events ex_store @ [event_row_of 0 ''w'' 3 ?in])"
    by (simp add: appendWorkspaceEvent_def buildWorkspaceEventWrite_def nextSeqSql_def ex_max)
  from log_run.append [OF log_run.start this]
  have run: "log_run ex_store [(''w'', 3)] (ex_store\<lparr>st_events := st_events ex_store @ [event_row_of 0 ''w'' 3 ?in]\<rparr>)"
    by (simp add: issued_def)
  from event_numbers_are_fresh [OF ex_store_ok run] run show ?thesis by auto
qed

end
