(* ===== verification/EventId.thy ===== *)
theory EventId
  imports Json "HOL-Library.Word"
begin

unbundle bit_operations_syntax

text \<open>
  Stable event identifiers (\<open>engine/event-id.ts\<close>): the parts that name an event are trimmed, printed as a JSON array
  and hashed to four 32-bit words (\<open>Math.imul\<close> is multiplication on words, \<open>>>>\<close> is \<open>drop_bit\<close>), which are printed
  as a UUID with the version and variant bits set. \<open>stable_id_is_a_uuid\<close>: every identifier has the form of a UUID of
  version 5.
\<close>

type_synonym w32 = "32 word"
type_synonym hash_state = "w32 \<times> w32 \<times> w32 \<times> w32"

subsection \<open>The hash\<close>

definition hash_init :: hash_state where
  "hash_init = (0xdeadbeef, 0x41c6ce57, 0xc0decafe, 0x9e3779b9)"

definition hash_char :: "char \<Rightarrow> hash_state \<Rightarrow> hash_state" where
  "hash_char c = (\<lambda>(h1, h2, h3, h4).
     let code = word_of_nat (of_char c)
     in ((h1 XOR code) * 2654435761, (h2 XOR code) * 1597334677, (h3 XOR code) * 2246822507, (h4 XOR code) * 3266489909))"

definition avalanche :: "w32 \<Rightarrow> w32 \<Rightarrow> w32" where
  "avalanche h k = ((h XOR drop_bit 16 h) * 2246822507) XOR ((k XOR drop_bit 13 k) * 3266489909)"

definition hash_final :: "hash_state \<Rightarrow> hash_state" where
  "hash_final = (\<lambda>(h1, h2, h3, h4).
     let h1 = avalanche h1 h2; h2 = avalanche h2 h3; h3 = avalanche h3 h4; h4 = avalanche h4 h1 in (h1, h2, h3, h4))"

definition hashStringParts :: "string list \<Rightarrow> w32 list" where
  "hashStringParts parts =
     (let (h1, h2, h3, h4) = hash_final (fold hash_char (ser (JArr (map JStr parts))) hash_init) in [h1, h2, h3, h4])"

subsection \<open>Printing\<close>

definition word_bytes :: "w32 \<Rightarrow> nat list" where
  "word_bytes w = map (\<lambda>s. unat (drop_bit s w AND 0xff)) [24, 16, 8, 0]"

definition uuid_bytes :: "w32 list \<Rightarrow> nat list" where
  "uuid_bytes words =
     (let bytes = take 16 (concat (map word_bytes words))
      in bytes[6 := (bytes ! 6 AND 0x0f) OR 0x50, 8 := (bytes ! 8 AND 0x3f) OR 0x80])"

definition hex_char :: "nat \<Rightarrow> char" where
  "hex_char d = ''0123456789abcdef'' ! (d mod 16)"

text \<open>\<open>byte.toString(16).padStart(2, '0')\<close>\<close>

definition hex_byte :: "nat \<Rightarrow> string" where
  "hex_byte b = [hex_char (b div 16), hex_char b]"

definition formatUuidFromWords :: "w32 list \<Rightarrow> string" where
  "formatUuidFromWords words =
     (let hex = concat (map hex_byte (uuid_bytes words))
      in join ''-'' [substr 0 8 hex, substr 8 4 hex, substr 12 4 hex, substr 16 4 hex, substr 20 12 hex])"

definition stableRelaycastEventId :: "string option list \<Rightarrow> string" where
  "stableRelaycastEventId parts =
     (let normalized = filter (\<lambda>p. p \<noteq> []) (map trim (List.map_filter id parts))
      in if normalized = [] then formatUuidFromWords (hashStringParts [''relaycast'', '' empty-event ''])
         else formatUuidFromWords (hashStringParts (''relaycast'' # normalized)))"
subsection \<open>Every identifier is a UUID\<close>

definition is_hex_char :: "char \<Rightarrow> bool" where
  "is_hex_char c \<longleftrightarrow> c \<in> set ''0123456789abcdef''"

text \<open>Eight, four, four, four and twelve hexadecimal digits; the version digit is 5, the variant one of 8, 9, a, b.\<close>

definition uuid_v5 :: "string \<Rightarrow> bool" where
  "uuid_v5 s \<longleftrightarrow> map length (split_on CHR ''-'' s) = [8, 4, 4, 4, 12] \<and> list_all (list_all is_hex_char) (split_on CHR ''-'' s)
     \<and> s ! 14 = CHR ''5'' \<and> s ! 19 \<in> set ''89ab''"

lemma lower_hex_ok: "is_hex_char (hex_char d)"
proof -
  have "hex_char d \<in> set ''0123456789abcdef''" unfolding hex_char_def by (rule nth_mem) simp
  then show ?thesis by (simp only: is_hex_char_def)
qed

lemma lower_hex_no_dash: "hex_char d \<noteq> CHR ''-''"
  using lower_hex_ok [of d] by (auto simp: is_hex_char_def)

lemma version_nibble: "((b :: nat) AND 0x0f OR 0x50) div 16 mod 16 = 5"
proof -
  have "((b AND 0x0f) OR 0x50) div 16 = (b AND 0x0f) div 16 OR 0x50 div 16"
    using drop_bit_or [of 4 "b AND 0x0f" "0x50 :: nat"] by (simp add: drop_bit_eq_div)
  moreover have "(b AND 0x0f) div 16 = 0" using take_bit_eq_mask [of 4 b] by (simp add: mask_eq_exp_minus_1 take_bit_eq_mod)
  ultimately show ?thesis by simp
qed

lemma variant_nibble: "((b :: nat) AND 0x3f OR 0x80) div 16 mod 16 \<in> {8, 9, 10, 11}"
proof -
  define x where "x = (b AND 0x3f) div 16"
  have "((b AND 0x3f) OR 0x80) div 16 = x OR 8"
    using drop_bit_or [of 4 "b AND 0x3f" "0x80 :: nat"] by (simp add: drop_bit_eq_div x_def)
  moreover have "x < 4" using take_bit_eq_mask [of 6 b] by (simp add: mask_eq_exp_minus_1 take_bit_eq_mod x_def)
  then have "x = 0 \<or> x = 1 \<or> x = 2 \<or> x = 3" by auto
  ultimately show ?thesis by auto
qed

lemma uuid_of_bytes:
  assumes "b6 div 16 mod 16 = 5" "b8 div 16 mod 16 \<in> {8, 9, 10, 11 :: nat}"
    "hex = concat (map hex_byte [b0, b1, b2, b3, b4, b5, b6, b7, b8, b9, b10, b11, b12, b13, b14, b15])"
  shows "uuid_v5 (join ''-'' [substr 0 8 hex, substr 8 4 hex, substr 12 4 hex, substr 16 4 hex, substr 20 12 hex])"
proof -
  have parts: "split_on CHR ''-'' (join ''-'' [substr 0 8 hex, substr 8 4 hex, substr 12 4 hex, substr 16 4 hex, substr 20 12 hex])
      = [substr 0 8 hex, substr 8 4 hex, substr 12 4 hex, substr 16 4 hex, substr 20 12 hex]"
    by (rule split_on_join) (auto simp: assms(3) hex_byte_def substr_def lower_hex_no_dash [symmetric] dest: sym)
  have "hex_char (b6 div 16) = CHR ''5''" using assms(1) by (simp add: hex_char_def)
  moreover have "hex_char (b8 div 16) \<in> set ''89ab''" using assms(2) by (auto simp: hex_char_def)
  moreover have "list_all (list_all is_hex_char) [substr 0 8 hex, substr 8 4 hex, substr 12 4 hex, substr 16 4 hex, substr 20 12 hex]"
    by (simp add: assms(3) hex_byte_def substr_def lower_hex_ok)
  ultimately show ?thesis
    unfolding uuid_v5_def parts by (simp add: assms(3) hex_byte_def substr_def)
qed

lemma uuid_v5_format: "length words = 4 \<Longrightarrow> uuid_v5 (formatUuidFromWords words)"
proof -
  assume "length words = 4"
  then obtain a b c d where w: "words = [a, b, c, d]" by (auto simp: length_Suc_conv eval_nat_numeral)
  let ?b = "\<lambda>s w. unat (drop_bit s w AND 0xff :: w32)"
  have "uuid_bytes words = [?b 24 a, ?b 16 a, ?b 8 a, ?b 0 a, ?b 24 b, ?b 16 b, ?b 8 b AND 0x0f OR 0x50, ?b 0 b,
     ?b 24 c AND 0x3f OR 0x80, ?b 16 c, ?b 8 c, ?b 0 c, ?b 24 d, ?b 16 d, ?b 8 d, ?b 0 d]"
    by (simp add: w uuid_bytes_def word_bytes_def Let_def)
  then show ?thesis
    unfolding formatUuidFromWords_def Let_def by (simp only: uuid_of_bytes [OF version_nibble variant_nibble refl])
qed

lemma dropWhile_head: "dropWhile P s = x # t \<Longrightarrow> \<not> P x"
  by (induction s) (auto split: if_splits)

lemma dropWhile_stop: "\<not> P x \<Longrightarrow> dropWhile P (s @ [x]) = dropWhile P s @ [x]"
  by (induction s) auto

lemma dropWhile_stop_again: "\<not> P x \<Longrightarrow> dropWhile P (dropWhile P s @ [x]) = dropWhile P s @ [x]"
  by (induction s) auto

lemma trim_trim [simp]: "trim (trim s) = trim s"
proof (cases "dropWhile is_ws s")
  case Nil
  then have "trim s = []" by (simp only: trim_def rev.simps dropWhile.simps)
  then show ?thesis by (simp only:) (simp add: trim_def)
next
  case (Cons x t)
  then have x: "\<not> is_ws x" by (rule dropWhile_head)
  then show ?thesis by (simp add: trim_def Cons x dropWhile_stop [where P = is_ws] dropWhile_stop_again [where P = is_ws])
qed

text \<open>C20: Whatever parts name an event, even none, its stable identifier is well formed: a lower-case UUID in five
  groups of hexadecimal digits with version 5 and the variant of RFC 4122, and it is unchanged by blanks around the
  parts and by parts that are missing or blank.\<close>
theorem stable_id_is_a_uuid:
  "uuid_v5 (stableRelaycastEventId parts)
    \<and> stableRelaycastEventId (map (map_option trim) parts) = stableRelaycastEventId parts
    \<and> stableRelaycastEventId (parts @ [None]) = stableRelaycastEventId parts"
proof (intro conjI)
  have "length (hashStringParts ps) = 4" for ps by (simp add: hashStringParts_def split: prod.splits)
  then show "uuid_v5 (stableRelaycastEventId parts)"
    unfolding stableRelaycastEventId_def Let_def by (auto intro: uuid_v5_format)
  have "map trim (List.map_filter id (map (map_option trim) parts)) = map trim (List.map_filter id parts)"
    by (induction parts) (auto simp: List.map_filter_simps split: option.splits)
  then show "stableRelaycastEventId (map (map_option trim) parts) = stableRelaycastEventId parts"
    by (simp only: stableRelaycastEventId_def)
  have "List.map_filter id (parts @ [None]) = List.map_filter id parts"
    by (induction parts) (auto simp: List.map_filter_simps split: option.splits)
  then show "stableRelaycastEventId (parts @ [None]) = stableRelaycastEventId parts"
    by (simp only: stableRelaycastEventId_def)
qed

end
