(* ===== verification/WsTransform.thy ===== *)
theory WsTransform
  imports EventId WorkspaceEvents
begin

text \<open>
  From an internal event to the event that clients and observers see (\<open>engine/wsTransform.ts\<close>). An object is the list
  of its properties in insertion order; a property whose value is \<open>undefined\<close> is absent. An event's \<open>id\<close> is a string or
  absent.
\<close>

record ws_event =
  wse_type :: string
  wse_workspace_id :: id
  wse_channel_id :: "string option"
  wse_data :: "(string \<times> json) list"
  wse_timestamp :: string

subsection \<open>Reading properties\<close>

type_synonym obj = "(string \<times> json) list"

definition str_prop :: "obj \<Rightarrow> string \<Rightarrow> string option" where
  "str_prop ob k = (case map_of ob k of Some (JStr s) \<Rightarrow> Some s | _ \<Rightarrow> None)"

text \<open>The properties of a value that should be an object: none of any other value.\<close>

definition props_of :: "json option \<Rightarrow> obj" where
  "props_of v = (case v of Some (JObj kvs) \<Rightarrow> kvs | _ \<Rightarrow> [])"

text \<open>\<open>a ?? b\<close>\<close>

definition nullish_json :: "json option \<Rightarrow> json option \<Rightarrow> json option" where
  "nullish_json a b = (case a of None \<Rightarrow> b | Some JNull \<Rightarrow> b | Some v \<Rightarrow> Some v)"

fun json_truthy :: "json option \<Rightarrow> bool" where
  "json_truthy None = False"
| "json_truthy (Some JNull) = False"
| "json_truthy (Some (JBool b)) = b"
| "json_truthy (Some (JNum n)) = (n \<noteq> ''0'')"
| "json_truthy (Some (JStr s)) = (s \<noteq> [])"
| "json_truthy (Some (JArr xs)) = True"
| "json_truthy (Some (JObj kvs)) = True"

definition given :: "string \<Rightarrow> json option \<Rightarrow> obj" where
  "given k v = (case v of None \<Rightarrow> [] | Some j \<Rightarrow> [(k, j)])"

text \<open>\<open>...(d.key ? {key: d.key} : {})\<close>\<close>

definition when_truthy :: "string \<Rightarrow> json option \<Rightarrow> obj" where
  "when_truthy k v = (if json_truthy v then given k v else [])"

definition spread :: "obj \<Rightarrow> obj \<Rightarrow> obj" where
  "spread base extra = foldl (\<lambda>acc (k, v). with_prop k v acc) base extra"

definition stable_id :: "json option \<Rightarrow> json" where
  "stable_id v = JStr (stableRelaycastEventId [case v of Some (JStr s) \<Rightarrow> Some s | _ \<Rightarrow> None])"

definition nonempty_items :: "json option \<Rightarrow> bool" where
  "nonempty_items v = (case v of Some (JArr xs) \<Rightarrow> xs \<noteq> [] | Some (JStr s) \<Rightarrow> s \<noteq> [] | _ \<Rightarrow> False)"

definition is_record :: "json option \<Rightarrow> bool" where
  "is_record v = (case v of Some (JObj _) \<Rightarrow> True | _ \<Rightarrow> False)"

subsection \<open>The cases\<close>

definition created_at_of :: "ws_event \<Rightarrow> obj" where
  "created_at_of event =
     [(''created_at'', JStr (case str_prop (wse_data event) ''created_at'' of Some s \<Rightarrow> s | None \<Rightarrow> wse_timestamp event))]"

definition channel_id_of :: "ws_event \<Rightarrow> obj" where
  "channel_id_of event = when_truthy ''channel_id'' (map_option JStr (wse_channel_id event))"

definition agent_ref :: "obj \<Rightarrow> json" where
  "agent_ref d =
     (let agentId = (case str_prop d ''agent_id'' of Some s \<Rightarrow> Some s | None \<Rightarrow> str_prop d ''subject_agent_id'')
      in JObj (when_truthy ''id'' (map_option JStr agentId) @ given ''name'' (map_of d ''agent_name'')))"

definition message_author :: "obj \<Rightarrow> obj" where
  "message_author d =
     given ''id'' (map_of d ''id'') @ given ''agent_id'' (map_of d ''agent_id'') @ given ''agent_name'' (map_of d ''from_name'')"

text \<open>\<open>message.created\<close>, \<open>message.updated\<close> and \<open>thread.reply\<close>.\<close>

definition message_created_event :: "ws_event \<Rightarrow> obj" where
  "message_created_event event =
     (let d = wse_data event
      in [(''id'', stable_id (map_of d ''id'')), (''type'', JStr ''message.created'')] @ created_at_of event @ channel_id_of event
         @ given ''channel'' (map_of d ''channel_name'')
         @ [(''message'', JObj (message_author d @ given ''text'' (map_of d ''text'')
             @ given ''attachments'' (nullish_json (map_of d ''attachments'') (Some (JArr [])))
             @ given ''injection_mode'' (map_of d ''injection_mode'')
             @ (if is_record (map_of d ''metadata'') then given ''metadata'' (map_of d ''metadata'') else [])))])"

definition message_updated_event :: "ws_event \<Rightarrow> obj" where
  "message_updated_event event =
     (let d = wse_data event
      in [(''type'', JStr ''message.updated'')] @ created_at_of event @ channel_id_of event
         @ given ''channel'' (map_of d ''channel_name'')
         @ [(''message'', JObj (message_author d @ given ''text'' (map_of d ''text'')))])"

definition thread_reply_event :: "ws_event \<Rightarrow> obj" where
  "thread_reply_event event =
     (let d = wse_data event
      in [(''id'', stable_id (map_of d ''id'')), (''type'', JStr ''thread.reply'')] @ created_at_of event @ channel_id_of event
         @ when_truthy ''conversation_id'' (map_of d ''conversation_id'')
         @ given ''channel'' (map_of d ''channel_name'') @ given ''parent_id'' (map_of d ''thread_id'')
         @ [(''message'', JObj (message_author d
             @ given ''agent_address'' (map_option JStr (str_prop d ''agent_address'')) @ given ''text'' (map_of d ''text'')))])"

definition reaction_event :: "ws_event \<Rightarrow> obj" where
  "reaction_event event =
     (let d = wse_data event
      in [(''type'', JStr ''message.reacted'')] @ created_at_of event @ channel_id_of event
         @ when_truthy ''channel'' (map_of d ''channel_name'')
         @ when_truthy ''conversation_id'' (map_of d ''conversation_id'')
         @ given ''message_id'' (map_of d ''message_id'') @ given ''emoji'' (map_of d ''emoji'')
         @ when_truthy ''agent_id'' (map_of d ''agent_id'') @ given ''agent_name'' (map_of d ''agent_name'')
         @ given ''action'' (nullish_json (map_of d ''action'') (Some (JStr ''added''))))"

text \<open>\<open>dm.received\<close> falls back to \<open>from_agent_id\<close> and \<open>from_name\<close>, \<open>group_dm.received\<close> only to the latter.\<close>

definition dm_event :: "string \<Rightarrow> (obj \<Rightarrow> obj \<Rightarrow> json option) \<Rightarrow> (obj \<Rightarrow> obj) \<Rightarrow> ws_event \<Rightarrow> obj" where
  "dm_event type author address event =
     (let d = wse_data event; msg = props_of (map_of d ''message'');
          injectionMode = nullish_json (map_of msg ''injection_mode'') (map_of d ''injection_mode'');
          attachments = nullish_json (nullish_json (map_of msg ''attachments'') (map_of d ''attachments'')) (Some (JArr []))
      in [(''id'', stable_id (nullish_json (map_of msg ''id'') (map_of d ''id''))), (''type'', JStr type)] @ created_at_of event
         @ given ''conversation_id'' (map_of d ''conversation_id'')
         @ [(''message'', JObj (given ''id'' (nullish_json (map_of msg ''id'') (map_of d ''id''))
             @ given ''agent_id'' (author msg d)
             @ given ''agent_name'' (nullish_json (map_of msg ''agent_name'') (map_of d ''from_name''))
             @ address msg
             @ given ''text'' (nullish_json (map_of msg ''text'') (map_of d ''text''))
             @ when_truthy ''injection_mode'' injectionMode
             @ (if nonempty_items attachments then given ''attachments'' attachments else [])))])"

definition dm_received_event :: "ws_event \<Rightarrow> obj" where
  "dm_received_event = dm_event ''dm.received''
     (\<lambda>msg d. nullish_json (nullish_json (map_of msg ''agent_id'') (map_of d ''from_agent_id'')) (map_of d ''agent_id''))
     (\<lambda>msg. given ''agent_address'' (map_option JStr (str_prop msg ''agent_address'')))"

definition group_dm_received_event :: "ws_event \<Rightarrow> obj" where
  "group_dm_received_event = dm_event ''group_dm.received''
     (\<lambda>msg d. nullish_json (map_of msg ''agent_id'') (map_of d ''agent_id'')) (\<lambda>msg. [])"

definition status_event :: "ws_event \<Rightarrow> json option \<Rightarrow> obj" where
  "status_event event status =
     [(''type'', JStr (wse_type event))] @ created_at_of event @ [(''agent'', agent_ref (wse_data event))] @ given ''status'' status"

text \<open>\<open>channel.created\<close> and \<open>channel.updated\<close>; \<open>channel.archived\<close>.\<close>

definition channel_event :: "ws_event \<Rightarrow> obj" where
  "channel_event event =
     (let d = wse_data event
      in [(''type'', JStr (wse_type event))] @ created_at_of event
         @ (if json_truthy (map_option JStr (wse_channel_id event)) \<or> json_truthy (map_of d ''id'')
            then given ''channel_id'' (nullish_json (map_option JStr (wse_channel_id event)) (map_of d ''id'')) else [])
         @ [(''channel'', JObj (given ''name'' (nullish_json (map_of d ''channel_name'') (map_of d ''name''))
             @ given ''topic'' (nullish_json (map_of d ''topic'') (Some JNull))))])"

definition channel_archived_event :: "ws_event \<Rightarrow> obj" where
  "channel_archived_event event =
     [(''type'', JStr ''channel.archived'')] @ created_at_of event @ channel_id_of event
       @ [(''channel'', JObj (given ''name'' (map_of (wse_data event) ''channel_name'')))]"

definition member_event :: "ws_event \<Rightarrow> obj" where
  "member_event event =
     (let d = wse_data event
      in [(''type'', JStr (wse_type event))] @ created_at_of event @ channel_id_of event
         @ given ''channel'' (map_of d ''channel_name'') @ when_truthy ''agent_id'' (map_of d ''agent_id'')
         @ given ''agent_name'' (map_of d ''agent_name''))"

definition message_read_event :: "ws_event \<Rightarrow> obj" where
  "message_read_event event =
     (let d = wse_data event
      in [(''type'', JStr ''message.read'')] @ created_at_of event @ channel_id_of event
         @ given ''message_id'' (map_of d ''message_id'')
         @ when_truthy ''conversation_id'' (map_of d ''conversation_id'')
         @ when_truthy ''agent_id'' (map_of d ''agent_id'') @ given ''agent_name'' (map_of d ''agent_name'')
         @ given ''read_at'' (map_of d ''read_at''))"

definition file_uploaded_event :: "ws_event \<Rightarrow> obj" where
  "file_uploaded_event event =
     (let d = wse_data event
      in [(''type'', JStr ''file.uploaded'')] @ created_at_of event @ when_truthy ''agent_id'' (map_of d ''agent_id'')
         @ [(''file'', JObj (given ''file_id'' (nullish_json (map_of d ''file_id'') (map_of d ''id''))
             @ given ''filename'' (map_of d ''filename'')
             @ given ''uploaded_by'' (nullish_json (map_of d ''uploaded_by'') (map_of d ''agent_id''))))])"

definition webhook_received_event :: "ws_event \<Rightarrow> obj" where
  "webhook_received_event event =
     (let d = wse_data event
      in [(''type'', JStr ''webhook.received'')] @ created_at_of event @ channel_id_of event
         @ given ''webhook_id'' (map_of d ''webhook_id'') @ given ''channel'' (map_of d ''channel'')
         @ [(''message'', JObj (given ''id'' (map_of d ''message_id'') @ given ''text'' (map_of d ''text'')
             @ given ''source'' (nullish_json (map_of d ''source'') (Some JNull))
             @ given ''author'' (nullish_json (map_of d ''author'') (Some JNull))))])"

definition other_event :: "ws_event \<Rightarrow> obj" where
  "other_event event = spread (spread [(''type'', JStr (wse_type event))] (wse_data event)) (created_at_of event)"

definition transformForClient :: "ws_event \<Rightarrow> obj" where
  "transformForClient event =
     (let type = wse_type event
      in if type = ''message.created'' then message_created_event event
         else if type = ''message.updated'' then message_updated_event event
         else if type = ''thread.reply'' then thread_reply_event event
         else if type = ''message.reacted'' then reaction_event event
         else if type = ''dm.received'' then dm_received_event event
         else if type = ''group_dm.received'' then group_dm_received_event event
         else if type = ''agent.status.active'' then status_event event (Some (JStr ''active''))
         else if type = ''agent.status.offline'' then status_event event (Some (JStr ''offline''))
         else if type = ''agent.status.changed'' then status_event event (map_of (wse_data event) ''status'')
         else if type = ''agent.status.idle'' then status_event event (Some (JStr ''idle''))
         else if type = ''agent.status.blocked'' then status_event event (Some (JStr ''blocked''))
         else if type = ''agent.status.waiting'' then status_event event (Some (JStr ''waiting''))
         else if type = ''channel.created'' \<or> type = ''channel.updated'' then channel_event event
         else if type = ''channel.archived'' then channel_archived_event event
         else if type = ''member.joined'' \<or> type = ''member.left'' then member_event event
         else if type = ''message.read'' then message_read_event event
         else if type = ''file.uploaded'' then file_uploaded_event event
         else if type = ''webhook.received'' then webhook_received_event event
         else other_event event)"

end
