(* ===== verification/Channels.thy ===== *)
theory Channels
  imports Schema WsTransform
begin

text \<open>
  Channels and their members (\<open>engine/channel.ts\<close>, \<open>engine/cache.ts\<close>, tables \<open>channels\<close> and \<open>channel_members\<close>, the release
  of an agent in \<open>engine/agent.ts\<close> as far as it touches them). A channel named \<open>agent-events-<id>\<close> is the delivery route
  of one agent's subscriptions. The definitions are the operations, each run by itself; \<open>ChannelProps\<close> interleaves their
  statements. The cache is the module's map from keys to entries.
\<close>

subsection \<open>Tables and cache\<close>

record channel_row =
  ch_id :: id
  ch_ws :: id
  ch_name :: string
  ch_channelType :: int
  ch_topic :: "string option"
  ch_metadata :: "obj option"
  ch_createdBy :: "id option"
  ch_createdAt :: sec
  ch_isArchived :: bool

record member_row = channel_member +
  cm_role :: string
  cm_joinedAt :: sec

record member_view =
  mv_agent_id :: id
  mv_agent_name :: string
  mv_role :: string
  mv_joined_at :: sec
  mv_is_muted :: bool

record channel_view =
  cv_id :: id
  cv_name :: string
  cv_topic :: "string option"
  cv_metadata :: obj
  cv_members :: "member_view list"
  cv_member_count :: nat
  cv_created_at :: sec
  cv_is_archived :: bool

record cache_entry =
  ce_data :: channel_view
  ce_expiresAt :: ms

record channel_db =
  cd_channels :: "channel_row list"
  cd_members :: "member_row list"
  cd_agents :: "agent_row list"
  cd_cache :: "string \<rightharpoonup> cache_entry"

definition DEFAULT_TTL :: int where "DEFAULT_TTL = 60000"

definition channelCacheKey :: "id \<Rightarrow> string \<Rightarrow> string" where
  "channelCacheKey workspaceId name = ''cache:ch:'' @ workspaceId @ '':'' @ name"

definition getCachedChannel :: "ms \<Rightarrow> id \<Rightarrow> string \<Rightarrow> channel_db \<Rightarrow> channel_view option \<times> channel_db" where
  "getCachedChannel now workspaceId name db =
     (let key = channelCacheKey workspaceId name
      in case cd_cache db key of None \<Rightarrow> (None, db)
         | Some entry \<Rightarrow>
             if now > ce_expiresAt entry then (None, db\<lparr>cd_cache := (cd_cache db)(key := None)\<rparr>)
             else (Some (ce_data entry), db))"

definition setCachedChannel :: "ms \<Rightarrow> id \<Rightarrow> string \<Rightarrow> channel_view \<Rightarrow> channel_db \<Rightarrow> channel_db" where
  "setCachedChannel now workspaceId name data db =
     db\<lparr>cd_cache := (cd_cache db)(channelCacheKey workspaceId name \<mapsto> \<lparr>ce_data = data, ce_expiresAt = now + DEFAULT_TTL\<rparr>)\<rparr>"

definition invalidateChannelCache :: "id \<Rightarrow> string \<Rightarrow> channel_db \<Rightarrow> channel_db" where
  "invalidateChannelCache workspaceId name db = db\<lparr>cd_cache := (cd_cache db)(channelCacheKey workspaceId name := None)\<rparr>"

subsection \<open>Queries\<close>

definition SUBSCRIPTION_CHANNEL_PREFIX :: string where "SUBSCRIPTION_CHANNEL_PREFIX = ''agent-events-''"

definition find_channel :: "channel_db \<Rightarrow> id \<Rightarrow> string \<Rightarrow> channel_row option" where
  "find_channel db workspaceId name = first_row (filter (\<lambda>c. ch_ws c = workspaceId \<and> ch_name c = name) (cd_channels db))"

definition membership :: "channel_db \<Rightarrow> id \<Rightarrow> id \<Rightarrow> member_row option" where
  "membership db channelId agentId =
     first_row (filter (\<lambda>m. cm_channelId m = channelId \<and> cm_agentId m = agentId) (cd_members db))"

text \<open>The members of a channel joined with their agents.\<close>

definition member_views :: "channel_db \<Rightarrow> id \<Rightarrow> member_view list" where
  "member_views db channelId =
     concat (map (\<lambda>m. map (\<lambda>a. \<lparr>mv_agent_id = cm_agentId m, mv_agent_name = a_name a, mv_role = cm_role m,
           mv_joined_at = cm_joinedAt m, mv_is_muted = cm_isMuted m\<rparr>)
         (filter (\<lambda>a. a_id a = cm_agentId m) (cd_agents db)))
       (filter (\<lambda>m. cm_channelId m = channelId) (cd_members db)))"

definition some_list :: "'a list option \<Rightarrow> 'a list" where
  "some_list x = (case x of None \<Rightarrow> [] | Some l \<Rightarrow> l)"

definition view_channel :: "channel_db \<Rightarrow> channel_row \<Rightarrow> channel_view" where
  "view_channel db c =
     (let members = member_views db (ch_id c)
      in \<lparr>cv_id = ch_id c, cv_name = ch_name c, cv_topic = ch_topic c, cv_metadata = some_list (ch_metadata c),
          cv_members = members, cv_member_count = length members, cv_created_at = ch_createdAt c,
          cv_is_archived = ch_isArchived c\<rparr>)"

text \<open>\<open>metadata.subscription_agent_id\<close> must be a non-empty string, and name this agent.\<close>

definition assertSubscriptionRecipient :: "channel_row \<Rightarrow> id \<Rightarrow> coded option" where
  "assertSubscriptionRecipient c agentId =
     (if \<not> starts_with SUBSCRIPTION_CHANNEL_PREFIX (ch_name c) then None
      else case str_prop (some_list (ch_metadata c)) ''subscription_agent_id'' of
        None \<Rightarrow> Some (codedError ''subscription_recipient_only'' 403)
      | Some r \<Rightarrow> if r = [] \<or> r \<noteq> agentId then Some (codedError ''subscription_recipient_only'' 403) else None)"

definition getChannel :: "ms \<Rightarrow> id \<Rightarrow> string \<Rightarrow> channel_db \<Rightarrow> channel_view option \<times> channel_db" where
  "getChannel now workspaceId name db =
     (let cacheable = \<not> starts_with SUBSCRIPTION_CHANNEL_PREFIX name;
          (cached, db) = (if cacheable then getCachedChannel now workspaceId name db else (None, db))
      in case cached of Some v \<Rightarrow> (Some v, db)
         | None \<Rightarrow> (case find_channel db workspaceId name of
               None \<Rightarrow> (None, db)
             | Some c \<Rightarrow>
                 let result = view_channel db c
                 in (Some result, if cacheable then setCachedChannel now workspaceId name result db else db)))"

definition getMembers :: "id \<Rightarrow> string \<Rightarrow> channel_db \<Rightarrow> coded + member_view list" where
  "getMembers workspaceId channelName db =
     (case find_channel db workspaceId channelName of
        None \<Rightarrow> Inl (codedError ''channel_not_found'' 404) | Some c \<Rightarrow> Inr (member_views db (ch_id c)))"

definition getMutedMemberIds :: "id \<Rightarrow> string \<Rightarrow> channel_db \<Rightarrow> id list" where
  "getMutedMemberIds workspaceId channelName db =
     (case find_channel db workspaceId channelName of
        None \<Rightarrow> []
      | Some c \<Rightarrow> map cm_agentId (filter (\<lambda>m. cm_channelId m = ch_id c \<and> cm_isMuted m) (cd_members db)))"

subsection \<open>Listing\<close>

definition MEMBER_COUNT_CHUNK :: nat where "MEMBER_COUNT_CHUNK = 90"

record channel_summary =
  cs_id :: id
  cs_name :: string
  cs_topic :: "string option"
  cs_metadata :: obj
  cs_member_count :: nat
  cs_created_at :: sec
  cs_is_archived :: bool

text \<open>One statement: \<open>SELECT channel_id, count(*) ... WHERE channel_id IN (chunk) GROUP BY channel_id\<close>.\<close>

definition count_chunk :: "member_row list \<Rightarrow> id list \<Rightarrow> (id \<times> nat) list" where
  "count_chunk members chunk =
     (let rows = filter (\<lambda>m. cm_channelId m \<in> set chunk) members
      in map (\<lambda>c. (c, length (filter (\<lambda>m. cm_channelId m = c) rows))) (uniq (map cm_channelId rows)))"

text \<open>\<open>for (const row of counts) memberCountMap.set(row.channelId, row.count)\<close>, chunk after chunk.\<close>

definition member_count_map :: "member_row list \<Rightarrow> id list \<Rightarrow> id \<rightharpoonup> nat" where
  "member_count_map members channelIds =
     foldl (\<lambda>mp chunk. foldl (\<lambda>mp (c, n). mp(c \<mapsto> n)) mp (count_chunk members chunk)) Map.empty
       (pages MEMBER_COUNT_CHUNK channelIds)"

definition listChannels :: "id \<Rightarrow> bool \<Rightarrow> channel_db \<Rightarrow> channel_summary list" where
  "listChannels workspaceId includeArchived db =
     (let rows = (if includeArchived then filter (\<lambda>c. ch_ws c = workspaceId \<and> ch_channelType c = 0) (cd_channels db)
                  else filter (\<lambda>c. ch_ws c = workspaceId \<and> ch_channelType c = 0 \<and> \<not> ch_isArchived c) (cd_channels db))
      in if rows = [] then []
         else let counts = member_count_map (cd_members db) (map ch_id rows)
              in map (\<lambda>c. \<lparr>cs_id = ch_id c, cs_name = ch_name c, cs_topic = ch_topic c,
                    cs_metadata = some_list (ch_metadata c),
                    cs_member_count = (case counts (ch_id c) of None \<Rightarrow> 0 | Some n \<Rightarrow> n),
                    cs_created_at = ch_createdAt c, cs_is_archived = ch_isArchived c\<rparr>) rows)"

subsection \<open>Statements\<close>

text \<open>\<open>INSERT INTO channels ... ON CONFLICT DO NOTHING\<close>: the primary key and the unique \<open>(workspace_id, name)\<close>.\<close>

definition insert_channel :: "channel_row \<Rightarrow> channel_db \<Rightarrow> channel_db" where
  "insert_channel c db =
     (if list_ex (\<lambda>x. ch_id x = ch_id c \<or> (ch_ws x = ch_ws c \<and> ch_name x = ch_name c)) (cd_channels db) then db
      else db\<lparr>cd_channels := cd_channels db @ [c]\<rparr>)"

definition member_of :: "sec \<Rightarrow> id \<Rightarrow> id \<Rightarrow> string \<Rightarrow> member_row" where
  "member_of now channelId agentId role =
     \<lparr>cm_channelId = channelId, cm_agentId = agentId, cm_lastReadId = None, cm_isMuted = False,
      cm_role = role, cm_joinedAt = now\<rparr>"

text \<open>\<open>INSERT INTO channel_members ... ON CONFLICT DO NOTHING\<close> on the primary key \<open>(channel_id, agent_id)\<close>.\<close>

definition insert_member :: "member_row \<Rightarrow> channel_db \<Rightarrow> channel_db" where
  "insert_member m db =
     (if membership db (cm_channelId m) (cm_agentId m) \<noteq> None then db else db\<lparr>cd_members := cd_members db @ [m]\<rparr>)"

text \<open>\<open>INSERT INTO channel_members SELECT channel, id, role FROM agents WHERE ... ON CONFLICT DO NOTHING\<close>\<close>

definition insert_member_select :: "sec \<Rightarrow> id \<Rightarrow> string \<Rightarrow> (agent_row \<Rightarrow> bool) \<Rightarrow> channel_db \<Rightarrow> channel_db" where
  "insert_member_select now channelId role P db =
     fold (\<lambda>a. insert_member (member_of now channelId (a_id a) role)) (filter P (cd_agents db)) db"

definition delete_member :: "id \<Rightarrow> id \<Rightarrow> channel_db \<Rightarrow> channel_db" where
  "delete_member channelId agentId db =
     db\<lparr>cd_members := filter (\<lambda>m. \<not> (cm_channelId m = channelId \<and> cm_agentId m = agentId)) (cd_members db)\<rparr>"

definition set_muted :: "id \<Rightarrow> id \<Rightarrow> bool \<Rightarrow> channel_db \<Rightarrow> channel_db" where
  "set_muted channelId agentId muted db =
     db\<lparr>cd_members := upd_where (\<lambda>m. cm_channelId m = channelId \<and> cm_agentId m = agentId)
          (\<lambda>m. m\<lparr>cm_isMuted := muted\<rparr>) (cd_members db)\<rparr>"

definition update_channel_row :: "id \<Rightarrow> (channel_row \<Rightarrow> channel_row) \<Rightarrow> channel_db \<Rightarrow> channel_db" where
  "update_channel_row channelId f db = db\<lparr>cd_channels := upd_where (\<lambda>c. ch_id c = channelId) f (cd_channels db)\<rparr>"

text \<open>A member of the channel whose agent is live (\<open>... INNER JOIN agents ... status != 'released' LIMIT 1\<close>).\<close>

definition live_recipient :: "id \<Rightarrow> (agent_row \<Rightarrow> bool) \<Rightarrow> channel_db \<Rightarrow> bool" where
  "live_recipient channelId P db \<longleftrightarrow>
     list_ex (\<lambda>m. cm_channelId m = channelId \<and> list_ex (\<lambda>a. a_id a = cm_agentId m \<and> P a) (cd_agents db)) (cd_members db)"
subsection \<open>Operations\<close>

definition name_char :: "char \<Rightarrow> bool" where
  "name_char c \<longleftrightarrow> is_dec c \<or> (97 \<le> (of_char c :: nat) \<and> (of_char c :: nat) \<le> 122)"

text \<open>\<open>/^[a-z0-9][a-z0-9-]*$/\<close>\<close>

definition valid_channel_name :: "string \<Rightarrow> bool" where
  "valid_channel_name s = (case s of [] \<Rightarrow> False | c # r \<Rightarrow> name_char c \<and> list_all (\<lambda>d. name_char d \<or> d = CHR ''-'') r)"

record create_channel_data =
  cc_name :: string
  cc_topic :: "string option"
  cc_metadata :: "obj option"

record created_channel =
  nc_id :: id
  nc_name :: string
  nc_topic :: "string option"
  nc_metadata :: obj
  nc_created_by :: "id option"
  nc_created_at :: sec
  nc_member_count :: nat

definition createChannel ::
  "ms \<Rightarrow> id \<Rightarrow> id \<Rightarrow> create_channel_data \<Rightarrow> id option \<Rightarrow> channel_db \<Rightarrow> (coded + created_channel) \<times> channel_db" where
  "createChannel now freshId workspaceId data creatorAgentId db =
     (if starts_with SUBSCRIPTION_CHANNEL_PREFIX (cc_name data) then (Inl (codedError ''reserved_channel_name'' 400), db)
      else if \<not> valid_channel_name (cc_name data) then (Inl (codedError ''invalid_channel_name'' 400), db)
      else if find_channel db workspaceId (cc_name data) \<noteq> None then (Inl (codedError ''channel_already_exists'' 409), db)
      else let channel = \<lparr>ch_id = freshId, ch_ws = workspaceId, ch_name = cc_name data, ch_channelType = 0,
                 ch_topic = cc_topic data, ch_metadata = Some (some_list (cc_metadata data)),
                 ch_createdBy = creatorAgentId, ch_createdAt = toSec now, ch_isArchived = False\<rparr>;
               db = db\<lparr>cd_channels := cd_channels db @ [channel]\<rparr>;
               db = (case truthy creatorAgentId of None \<Rightarrow> db
                     | Some a \<Rightarrow> db\<lparr>cd_members := cd_members db @ [member_of (toSec now) freshId a ''owner'']\<rparr>)
           in (Inr \<lparr>nc_id = ch_id channel, nc_name = ch_name channel, nc_topic = ch_topic channel,
                  nc_metadata = some_list (ch_metadata channel), nc_created_by = ch_createdBy channel,
                  nc_created_at = ch_createdAt channel, nc_member_count = (if truthy creatorAgentId \<noteq> None then 1 else 0)\<rparr>, db))"

record channel_updates =
  cu_topic :: "string option option"
  cu_metadata :: "obj option"

datatype update_result = NoChannel | Unchanged "channel_view option" | Updated channel_row

definition set_channel :: "channel_updates \<Rightarrow> channel_row \<Rightarrow> channel_row" where
  "set_channel u c =
     c\<lparr>ch_topic := (case cu_topic u of None \<Rightarrow> ch_topic c | Some t \<Rightarrow> t),
       ch_metadata := (case cu_metadata u of None \<Rightarrow> ch_metadata c | Some m \<Rightarrow> Some m)\<rparr>"

definition updateChannel ::
  "ms \<Rightarrow> id \<Rightarrow> string \<Rightarrow> channel_updates \<Rightarrow> channel_db \<Rightarrow> (coded + update_result) \<times> channel_db" where
  "updateChannel now workspaceId name updates db =
     (case find_channel db workspaceId name of None \<Rightarrow> (Inr NoChannel, db)
      | Some channel \<Rightarrow>
          if ch_isArchived channel then (Inl (codedError ''channel_archived'' 400), db)
          else if starts_with SUBSCRIPTION_CHANNEL_PREFIX name \<and> cu_metadata updates \<noteq> None
            then (Inl (codedError ''subscription_metadata_immutable'' 403), db)
          else if cu_topic updates = None \<and> cu_metadata updates = None
            then (let (v, db) = getChannel now workspaceId name db in (Inr (Unchanged v), db))
          else let db' = update_channel_row (ch_id channel) (set_channel updates) db
               in (Inr (Updated (set_channel updates channel)), invalidateChannelCache workspaceId name db'))"

definition archiveChannel :: "id \<Rightarrow> string \<Rightarrow> channel_db \<Rightarrow> (coded + bool) \<times> channel_db" where
  "archiveChannel workspaceId name db =
     (if name = ''general'' then (Inl (codedError ''cannot_archive_general'' 400), db)
      else case find_channel db workspaceId name of None \<Rightarrow> (Inr False, db)
      | Some channel \<Rightarrow>
          (Inr True, invalidateChannelCache workspaceId name
             (update_channel_row (ch_id channel) (\<lambda>c. c\<lparr>ch_isArchived := True\<rparr>) db)))"

definition insertLiveSubscriptionMember :: "sec \<Rightarrow> id \<Rightarrow> id \<Rightarrow> id \<Rightarrow> channel_db \<Rightarrow> coded option \<times> channel_db" where
  "insertLiveSubscriptionMember now workspaceId channelId agentId db =
     (let db = insert_member_select now channelId ''member''
                 (\<lambda>a. a_id a = agentId \<and> a_ws a = workspaceId \<and> a_status a \<noteq> ''released'') db
      in (if live_recipient channelId (\<lambda>a. a_id a = agentId \<and> a_status a \<noteq> ''released'') db then None
          else Some (codedError ''agent_not_found'' 404), db))"

text \<open>The insert that a join and an invitation share.\<close>

definition add_member :: "ms \<Rightarrow> id \<Rightarrow> channel_row \<Rightarrow> id \<Rightarrow> channel_db \<Rightarrow> coded option \<times> channel_db" where
  "add_member now workspaceId channel agentId db =
     (if starts_with SUBSCRIPTION_CHANNEL_PREFIX (ch_name channel)
      then insertLiveSubscriptionMember (toSec now) workspaceId (ch_id channel) agentId db
      else (None, db\<lparr>cd_members := cd_members db @ [member_of (toSec now) (ch_id channel) agentId ''member'']\<rparr>))"

text \<open>The result is \<open>already_member\<close>.\<close>

definition joinChannel :: "ms \<Rightarrow> id \<Rightarrow> string \<Rightarrow> id \<Rightarrow> channel_db \<Rightarrow> (coded + bool) \<times> channel_db" where
  "joinChannel now workspaceId channelName agentId db =
     (case find_channel db workspaceId channelName of None \<Rightarrow> (Inl (codedError ''channel_not_found'' 404), db)
      | Some channel \<Rightarrow>
          if ch_isArchived channel then (Inl (codedError ''channel_archived'' 400), db)
          else case assertSubscriptionRecipient channel agentId of Some e \<Rightarrow> (Inl e, db)
          | None \<Rightarrow>
              if membership db (ch_id channel) agentId \<noteq> None then (Inr True, db)
              else case add_member now workspaceId channel agentId db of
                (Some e, db) \<Rightarrow> (Inl e, db)
              | (None, db) \<Rightarrow> (Inr False, invalidateChannelCache workspaceId channelName db))"

definition leaveChannel :: "id \<Rightarrow> string \<Rightarrow> id \<Rightarrow> channel_db \<Rightarrow> (coded + unit) \<times> channel_db" where
  "leaveChannel workspaceId channelName agentId db =
     (case find_channel db workspaceId channelName of None \<Rightarrow> (Inl (codedError ''channel_not_found'' 404), db)
      | Some channel \<Rightarrow> (Inr (), invalidateChannelCache workspaceId channelName (delete_member (ch_id channel) agentId db)))"

definition inviteAgent :: "ms \<Rightarrow> id \<Rightarrow> string \<Rightarrow> id \<Rightarrow> string \<Rightarrow> channel_db \<Rightarrow> (coded + unit) \<times> channel_db" where
  "inviteAgent now workspaceId channelName inviterAgentId inviteeAgentName db =
     (case find_channel db workspaceId channelName of None \<Rightarrow> (Inl (codedError ''channel_not_found'' 404), db)
      | Some channel \<Rightarrow>
          if ch_isArchived channel then (Inl (codedError ''channel_archived'' 400), db)
          else if membership db (ch_id channel) inviterAgentId = None then (Inl (codedError ''not_a_member'' 403), db)
          else case first_row (filter (\<lambda>a. a_ws a = workspaceId \<and> a_name a = inviteeAgentName) (cd_agents db)) of
            None \<Rightarrow> (Inl (codedError ''agent_not_found'' 404), db)
          | Some invitee \<Rightarrow>
              (case assertSubscriptionRecipient channel (a_id invitee) of Some e \<Rightarrow> (Inl e, db)
               | None \<Rightarrow>
                   if membership db (ch_id channel) (a_id invitee) \<noteq> None then (Inr (), db)
                   else case add_member now workspaceId channel (a_id invitee) db of
                     (Some e, db) \<Rightarrow> (Inl e, db)
                   | (None, db) \<Rightarrow> (Inr (), invalidateChannelCache workspaceId channelName db)))"

text \<open>\<open>muteChannel\<close> and \<open>unmuteChannel\<close>.\<close>

definition change_mute :: "bool \<Rightarrow> id \<Rightarrow> string \<Rightarrow> id \<Rightarrow> channel_db \<Rightarrow> (coded + bool) \<times> channel_db" where
  "change_mute muted workspaceId channelName agentId db =
     (case find_channel db workspaceId channelName of None \<Rightarrow> (Inl (codedError ''channel_not_found'' 404), db)
      | Some channel \<Rightarrow>
          if membership db (ch_id channel) agentId = None then (Inl (codedError ''not_a_member'' 403), db)
          else (Inr muted, invalidateChannelCache workspaceId channelName (set_muted (ch_id channel) agentId muted db)))"

definition muteChannel :: "id \<Rightarrow> string \<Rightarrow> id \<Rightarrow> channel_db \<Rightarrow> (coded + bool) \<times> channel_db" where
  "muteChannel = change_mute True"

definition unmuteChannel :: "id \<Rightarrow> string \<Rightarrow> id \<Rightarrow> channel_db \<Rightarrow> (coded + bool) \<times> channel_db" where
  "unmuteChannel = change_mute False"

text \<open>\<open>ensureAgentSubscriptionChannel\<close>; the row read back is absent only if the fresh identifier was taken.\<close>

definition subscription_channel :: "sec \<Rightarrow> id \<Rightarrow> id \<Rightarrow> id \<Rightarrow> channel_row" where
  "subscription_channel now freshId workspaceId agentId =
     \<lparr>ch_id = freshId, ch_ws = workspaceId, ch_name = SUBSCRIPTION_CHANNEL_PREFIX @ agentId, ch_channelType = 0, ch_topic = None,
      ch_metadata = Some [(''subscription_agent_id'', JStr agentId)], ch_createdBy = None, ch_createdAt = now, ch_isArchived = False\<rparr>"

definition foreign_member :: "channel_db \<Rightarrow> id \<Rightarrow> id \<Rightarrow> bool" where
  "foreign_member db channelId agentId \<longleftrightarrow>
     list_ex (\<lambda>m. cm_channelId m = channelId \<and> cm_agentId m \<noteq> agentId) (cd_members db)"

definition ensureAgentSubscriptionChannel ::
  "ms \<Rightarrow> id \<Rightarrow> id \<Rightarrow> string \<Rightarrow> channel_db \<Rightarrow> (coded + channel_view option) \<times> channel_db" where
  "ensureAgentSubscriptionChannel now freshId workspaceId agentName db =
     (case first_row (filter (\<lambda>a. a_ws a = workspaceId \<and> a_name a = agentName) (cd_agents db)) of
        None \<Rightarrow> (Inl (codedError ''agent_not_found'' 404), db)
      | Some agent \<Rightarrow>
          if a_status agent = ''released'' then (Inl (codedError ''agent_not_found'' 404), db)
          else let name = SUBSCRIPTION_CHANNEL_PREFIX @ a_id agent;
                   db = insert_channel (subscription_channel (toSec now) freshId workspaceId (a_id agent)) db
               in case find_channel db workspaceId name of None \<Rightarrow> (Inl (codedError ''internal_error'' 500), db)
                  | Some channel \<Rightarrow>
                      (case assertSubscriptionRecipient channel (a_id agent) of Some e \<Rightarrow> (Inl e, db)
                       | None \<Rightarrow>
                           if ch_isArchived channel then (Inl (codedError ''channel_archived'' 409), db)
                           else if foreign_member db (ch_id channel) (a_id agent)
                             then (Inl (codedError ''subscription_channel_conflict'' 409), db)
                           else let live = (\<lambda>a. a_id a = a_id agent \<and> a_name a = agentName \<and> a_status a \<noteq> ''released'');
                                    db = insert_member_select (toSec now) (ch_id channel) ''owner'' live db
                                in if \<not> live_recipient (ch_id channel) live db then (Inl (codedError ''agent_not_found'' 404), db)
                                   else let (v, db) = getChannel now workspaceId name (invalidateChannelCache workspaceId name db)
                                        in (Inr v, db)))"

subsection \<open>Release of an agent\<close>

definition RELEASED_NAME_MARKER :: string where "RELEASED_NAME_MARKER = ''#released-''"

definition releasedAgentName :: "string \<Rightarrow> id \<Rightarrow> string" where
  "releasedAgentName name agentId = name @ RELEASED_NAME_MARKER @ agentId"

text \<open>The part of the atomic unit of \<open>deleteAgent\<close> that writes agents and channel members, and the invalidations after it.\<close>

definition release_agent :: "sec \<Rightarrow> agent_row \<Rightarrow> channel_db \<Rightarrow> channel_db" where
  "release_agent now agent db =
     db\<lparr>cd_agents := upd_where (\<lambda>a. a_id a = a_id agent)
          (\<lambda>a. a\<lparr>a_name := releasedAgentName (a_name agent) (a_id agent), a_status := ''released'',
               a_locationType := ''self_connected'', a_locationNodeId := None,
               a_lastSeen := now\<rparr>) (cd_agents db),
        cd_members := filter (\<lambda>m. cm_agentId m \<noteq> a_id agent) (cd_members db)\<rparr>"

definition deleteAgent :: "ms \<Rightarrow> id \<Rightarrow> string \<Rightarrow> channel_db \<Rightarrow> bool \<times> channel_db" where
  "deleteAgent now workspaceId name db =
     (case first_row (filter (\<lambda>a. a_ws a = workspaceId \<and> a_name a = name) (cd_agents db)) of
        None \<Rightarrow> (False, db)
      | Some agent \<Rightarrow>
          let removed = map cm_channelId (filter (\<lambda>m. cm_agentId m = a_id agent) (cd_members db));
              joined = map ch_name (filter (\<lambda>c. ch_ws c = workspaceId \<and> ch_id c \<in> set removed) (cd_channels db))
          in (True, fold (invalidateChannelCache workspaceId) joined (release_agent (toSec now) agent db)))"

subsection \<open>Member counts\<close>

lemma fold_upd: "foldl (\<lambda>mp (c, n). mp(c \<mapsto> n)) mp xs = mp ++ map_of (rev xs)"
  by (induction xs arbitrary: mp) (auto simp: map_add_def fun_eq_iff split: option.splits)

definition members_of :: "member_row list \<Rightarrow> id \<Rightarrow> nat" where
  "members_of members c = length (filter (\<lambda>m. cm_channelId m = c) members)"

lemma map_of_rev_graph: "map_of (rev (map (\<lambda>c. (c, g c)) xs)) c = (if c \<in> set xs then Some (g c) else None)"
  by (simp add: rev_map map_of_map_restrict restrict_map_def)

lemma count_chunk_value:
  "map_of (rev (count_chunk members chunk)) c =
     (if c \<in> set chunk \<and> members_of members c > 0 then Some (members_of members c) else None)"
proof -
  let ?rows = "filter (\<lambda>m. cm_channelId m \<in> set chunk) members"
  have mem: "c \<in> set (map cm_channelId ?rows) \<longleftrightarrow> c \<in> set chunk \<and> members_of members c > 0"
    by (auto simp: members_of_def filter_empty_conv)
  have val: "length (filter (\<lambda>m. cm_channelId m = c) ?rows) = members_of members c" if "c \<in> set chunk"
    using that by (auto simp: members_of_def intro: arg_cong [where f = length] filter_cong)
  show ?thesis unfolding count_chunk_def Let_def map_of_rev_graph set_uniq using mem val by auto
qed

lemma member_count_pages:
  "foldl (\<lambda>mp chunk. foldl (\<lambda>mp (c, n). mp(c \<mapsto> n)) mp (count_chunk members chunk)) mp ps c =
     (if c \<in> set (concat ps) \<and> members_of members c > 0 then Some (members_of members c) else mp c)"
  by (induction ps arbitrary: mp) (auto simp: fold_upd count_chunk_value map_add_def)

lemma member_count_map_value:
  "member_count_map members ids c = (if c \<in> set ids \<and> members_of members c > 0 then Some (members_of members c) else None)"
  unfolding member_count_map_def member_count_pages
  by (simp add: concat_pages MEMBER_COUNT_CHUNK_def del: set_concat)

text \<open>Reading the members in statements of ninety channels each gives every listed channel the number of its members,
  and the list is the unarchived (or all) ordinary channels of the workspace, in table order.\<close>

lemma listChannels_eq:
  "listChannels workspaceId includeArchived db =
     map (\<lambda>c. \<lparr>cs_id = ch_id c, cs_name = ch_name c, cs_topic = ch_topic c, cs_metadata = some_list (ch_metadata c),
         cs_member_count = members_of (cd_members db) (ch_id c), cs_created_at = ch_createdAt c, cs_is_archived = ch_isArchived c\<rparr>)
       (filter (\<lambda>c. ch_ws c = workspaceId \<and> ch_channelType c = 0 \<and> (includeArchived \<or> \<not> ch_isArchived c)) (cd_channels db))"
proof -
  let ?rows = "filter (\<lambda>c. ch_ws c = workspaceId \<and> ch_channelType c = 0 \<and> (includeArchived \<or> \<not> ch_isArchived c)) (cd_channels db)"
  have rows: "(if includeArchived then filter (\<lambda>c. ch_ws c = workspaceId \<and> ch_channelType c = 0) (cd_channels db)
      else filter (\<lambda>c. ch_ws c = workspaceId \<and> ch_channelType c = 0 \<and> \<not> ch_isArchived c) (cd_channels db)) = ?rows"
    by simp
  have "(case member_count_map (cd_members db) (map ch_id ?rows) (ch_id c) of None \<Rightarrow> 0 | Some n \<Rightarrow> n) = members_of (cd_members db) (ch_id c)"
    if "c \<in> set ?rows" for c
    using that unfolding member_count_map_value set_map by auto
  then show ?thesis unfolding listChannels_def rows Let_def by (auto intro: map_cong)
qed

end
