(* ===== verification/ChannelProps.thy ===== *)
theory ChannelProps
  imports Channels
begin

text \<open>
  What the channel operations keep. \<open>cache_is_transparent\<close>: after any sequence of the operations of \<open>engine/channel.ts\<close> and
  of \<open>deleteAgent\<close> a read through the cache gives what a read of the tables gives. \<open>cache_answers_are_recent\<close>: whatever writes
  the tables, with or without an invalidation and in any interleaving, an answer of the cache is at most a minute older
  than the read that filled it. \<open>subscription_channels_stay_private\<close>: in any interleaving of the statements
  of joins, invitations, subscriptions, releases and the rest, the only member of a subscription channel is the agent
  it is named after, and that agent is not released.
\<close>

subsection \<open>Keys\<close>

definition plain :: "string \<Rightarrow> bool" where
  "plain ws \<longleftrightarrow> CHR '':'' \<notin> set ws"

lemma key_inj: "plain ws \<Longrightarrow> plain ws' \<Longrightarrow> channelCacheKey ws name = channelCacheKey ws' name' \<Longrightarrow> ws = ws' \<and> name = name'"
proof -
  assume p: "plain ws" "plain ws'" and eq: "channelCacheKey ws name = channelCacheKey ws' name'"
  have "split_on CHR '':'' (ws @ CHR '':'' # name) = ws # split_on CHR '':'' name"
    "split_on CHR '':'' (ws' @ CHR '':'' # name') = ws' # split_on CHR '':'' name'"
    using p by (auto simp: plain_def intro: split_on_append_no_sep)
  moreover have "ws @ CHR '':'' # name = ws' @ CHR '':'' # name'" using eq by (simp add: channelCacheKey_def)
  ultimately show ?thesis by (metis append_same_eq list.inject same_append_eq)
qed

definition channel_keys :: "channel_db \<Rightarrow> bool" where
  "channel_keys db \<longleftrightarrow> distinct (map ch_id (cd_channels db)) \<and> distinct (map (\<lambda>c. (ch_ws c, ch_name c)) (cd_channels db))"

lemma find_channel_Some: "find_channel db ws name = Some c \<Longrightarrow> c \<in> set (cd_channels db) \<and> ch_ws c = ws \<and> ch_name c = name"
  unfolding find_channel_def by (drule first_row_Some) simp

lemma find_channel_eq:
  assumes "channel_keys db" "c \<in> set (cd_channels db)"
  shows "find_channel db (ch_ws c) (ch_name c) = Some c"
proof -
  have "distinct (map (\<lambda>c. (ch_ws c, ch_name c)) (cd_channels db))" using assms(1) by (simp add: channel_keys_def)
  from first_row_key [OF this assms(2)] show ?thesis by (simp add: find_channel_def)
qed

lemma same_id: "channel_keys db \<Longrightarrow> c \<in> set (cd_channels db) \<Longrightarrow> d \<in> set (cd_channels db) \<Longrightarrow> ch_id c = ch_id d \<Longrightarrow> c = d"
  by (auto simp: channel_keys_def distinct_map inj_on_def)

subsection \<open>Coherence of the cache\<close>

text \<open>Every cached entry is the view of the row; subscription channels are not cached.\<close>

definition coherent :: "channel_db \<Rightarrow> bool" where
  "coherent db \<longleftrightarrow> (\<forall>ws name e. plain ws \<longrightarrow> cd_cache db (channelCacheKey ws name) = Some e \<longrightarrow>
     \<not> starts_with SUBSCRIPTION_CHANNEL_PREFIX name
     \<and> (\<exists>c. find_channel db ws name = Some c \<and> ce_data e = view_channel db c))"

text \<open>An agent is a member only of channels of its own workspace.\<close>

definition members_local :: "channel_db \<Rightarrow> bool" where
  "members_local db \<longleftrightarrow> (\<forall>m \<in> set (cd_members db). \<forall>c \<in> set (cd_channels db). \<forall>a \<in> set (cd_agents db).
     cm_channelId m = ch_id c \<longrightarrow> cm_agentId m = a_id a \<longrightarrow> ch_ws c = a_ws a)"

definition channel_inv :: "channel_db \<Rightarrow> bool" where
  "channel_inv db \<longleftrightarrow> channel_keys db \<and> distinct (map a_id (cd_agents db)) \<and> members_local db \<and> coherent db"

lemma view_cong:
  "cd_agents db' = cd_agents db \<Longrightarrow>
   filter (\<lambda>m. cm_channelId m = ch_id c) (cd_members db') = filter (\<lambda>m. cm_channelId m = ch_id c) (cd_members db) \<Longrightarrow>
   view_channel db' c = view_channel db c"
  by (simp add: view_channel_def member_views_def Let_def)

lemma coherentD:
  assumes "coherent db" "plain ws" "cd_cache db (channelCacheKey ws name) = Some e"
  obtains c where "find_channel db ws name = Some c" "ce_data e = view_channel db c" "\<not> starts_with SUBSCRIPTION_CHANNEL_PREFIX name"
  using assms unfolding coherent_def by blast

text \<open>A write that leaves every channel that is still cached as it was.\<close>

lemma coherent_frame:
  assumes "coherent db"
    and "\<And>ws name e c. plain ws \<Longrightarrow> \<not> starts_with SUBSCRIPTION_CHANNEL_PREFIX name \<Longrightarrow> cd_cache db' (channelCacheKey ws name) = Some e
      \<Longrightarrow> find_channel db ws name = Some c \<Longrightarrow> find_channel db' ws name = Some c \<and> view_channel db' c = view_channel db c"
    and "\<And>key e. cd_cache db' key = Some e \<Longrightarrow> cd_cache db key = Some e"
  shows "coherent db'"
  unfolding coherent_def
proof (intro allI impI)
  fix ws name e assume p: "plain ws" "cd_cache db' (channelCacheKey ws name) = Some e"
  obtain c where c: "find_channel db ws name = Some c" "ce_data e = view_channel db c" "\<not> starts_with SUBSCRIPTION_CHANNEL_PREFIX name"
    using coherentD [OF assms(1) p(1) assms(3) [OF p(2)]] by blast
  then show "\<not> starts_with SUBSCRIPTION_CHANNEL_PREFIX name \<and> (\<exists>c. find_channel db' ws name = Some c \<and> ce_data e = view_channel db' c)"
    using assms(2) [OF p(1) c(3) p(2) c(1)] by auto
qed

lemma invalidate_simps [simp]:
  "cd_channels (invalidateChannelCache ws name db) = cd_channels db" "cd_members (invalidateChannelCache ws name db) = cd_members db"
  "cd_agents (invalidateChannelCache ws name db) = cd_agents db"
  "find_channel (invalidateChannelCache ws name db) w n = find_channel db w n"
  "view_channel (invalidateChannelCache ws name db) c = view_channel db c"
  by (simp_all add: invalidateChannelCache_def find_channel_def view_channel_def member_views_def Let_def)

lemma invalidate_cache: "cd_cache (invalidateChannelCache ws name db) key = Some e \<longleftrightarrow> key \<noteq> channelCacheKey ws name \<and> cd_cache db key = Some e"
  by (simp add: invalidateChannelCache_def)

text \<open>Reading through a coherent cache.\<close>

lemma getChannel_live:
  assumes "coherent db" "plain ws"
  shows "fst (getChannel now ws name db) = map_option (view_channel db) (find_channel db ws name)"
proof (cases "starts_with SUBSCRIPTION_CHANNEL_PREFIX name \<or> cd_cache db (channelCacheKey ws name) = None")
  case True
  then show ?thesis by (auto simp: getChannel_def getCachedChannel_def Let_def split: option.splits)
next
  case False
  then obtain e where e: "cd_cache db (channelCacheKey ws name) = Some e" by auto
  have drop: "find_channel (db\<lparr>cd_cache := m\<rparr>) ws name = find_channel db ws name" "view_channel (db\<lparr>cd_cache := m\<rparr>) c = view_channel db c" for m c
    by (simp_all add: find_channel_def view_channel_def member_views_def Let_def)
  obtain c where "find_channel db ws name = Some c" "ce_data e = view_channel db c" using coherentD [OF assms e] by blast
  then show ?thesis using False e by (simp add: getChannel_def getCachedChannel_def Let_def drop)
qed

lemma getChannel_coherent:
  assumes "coherent db" "plain ws"
  shows "coherent (snd (getChannel now ws name db))"
proof -
  have get: "coherent (snd (getCachedChannel now ws name db))"
    using assms(1) by (auto simp: getCachedChannel_def Let_def coherent_def find_channel_def view_channel_def member_views_def
        split: option.splits)
  have same: "find_channel (snd (getCachedChannel now ws name db)) w n = find_channel db w n"
    "view_channel (snd (getCachedChannel now ws name db)) c = view_channel db c" for w n c
    by (simp_all add: getCachedChannel_def Let_def find_channel_def view_channel_def member_views_def split: option.splits)
  have set: "coherent (setCachedChannel now ws name (view_channel d c) d)"
    if "coherent d" "find_channel d ws name = Some c" "\<not> starts_with SUBSCRIPTION_CHANNEL_PREFIX name" for d c
  proof -
    have eq: "find_channel (setCachedChannel now ws name v d) w n = find_channel d w n"
      "view_channel (setCachedChannel now ws name v d) x = view_channel d x" for v w n x
      by (simp_all add: setCachedChannel_def find_channel_def view_channel_def member_views_def Let_def)
    show ?thesis unfolding coherent_def eq
    proof (intro allI impI)
      fix w n e assume w: "plain w" "cd_cache (setCachedChannel now ws name (view_channel d c) d) (channelCacheKey w n) = Some e"
      show "\<not> starts_with SUBSCRIPTION_CHANNEL_PREFIX n \<and> (\<exists>c. find_channel d w n = Some c \<and> ce_data e = view_channel d c)"
      proof (cases "channelCacheKey w n = channelCacheKey ws name")
        case True
        then have "w = ws" "n = name" using key_inj [OF w(1) assms(2)] by blast+
        then show ?thesis using w(2) that by (auto simp: setCachedChannel_def)
      next
        case False
        then have "cd_cache d (channelCacheKey w n) = Some e" using w(2) by (simp add: setCachedChannel_def)
        then show ?thesis using that(1) w(1) unfolding coherent_def by blast
      qed
    qed
  qed
  have cached: "coherent (setCachedChannel now ws name (view_channel db c) (snd (getCachedChannel now ws name db)))"
    if "find_channel db ws name = Some c" "\<not> starts_with SUBSCRIPTION_CHANNEL_PREFIX name" for c
    using set [OF get _ that(2), of c] same that(1) by simp
  show ?thesis
    using get assms(1) same cached
    by (auto simp: getChannel_def Let_def split: option.splits prod.splits)
qed
subsection \<open>Every operation keeps the invariant\<close>

text \<open>The contract of an operation on the channels, under a condition on its arguments.\<close>

locale channel_op =
  fixes run :: "channel_db \<Rightarrow> channel_db" and pre :: "channel_db \<Rightarrow> bool"
  assumes keeps: "channel_inv db \<Longrightarrow> pre db \<Longrightarrow> channel_inv (run db)"
begin

lemma read_after:
  assumes "channel_inv db" "pre db" "plain ws"
  shows "fst (getChannel now ws name (run db)) = map_option (view_channel (run db)) (find_channel (run db) ws name)"
  using keeps [OF assms(1,2)] assms(3) by (simp add: channel_inv_def getChannel_live)

end

definition in_workspace :: "id \<Rightarrow> id \<Rightarrow> channel_db \<Rightarrow> bool" where
  "in_workspace ws agentId db \<longleftrightarrow> (\<forall>a \<in> set (cd_agents db). a_id a = agentId \<longrightarrow> a_ws a = ws)"

lemma one_channel:
  assumes inv: "channel_inv db" and c0: "find_channel db ws name = Some c0" and "plain ws"
    and chans: "cd_channels db' = upd_where (\<lambda>c. ch_id c = ch_id c0) f (cd_channels db)"
    and f: "\<And>c. ch_id (f c) = ch_id c" "\<And>c. ch_ws (f c) = ch_ws c" "\<And>c. ch_name (f c) = ch_name c"
    and agents: "cd_agents db' = cd_agents db"
    and members: "\<And>i. i \<noteq> ch_id c0 \<Longrightarrow> filter (\<lambda>m. cm_channelId m = i) (cd_members db') = filter (\<lambda>m. cm_channelId m = i) (cd_members db)"
    and new: "\<And>m. m \<in> set (cd_members db') \<Longrightarrow> cm_channelId m = ch_id c0 \<Longrightarrow> in_workspace ws (cm_agentId m) db"
    and cache: "\<And>key e. cd_cache db' key = Some e \<Longrightarrow> cd_cache db key = Some e
        \<and> (key \<noteq> channelCacheKey ws name \<or> starts_with SUBSCRIPTION_CHANNEL_PREFIX name)"
  shows "channel_inv db'"
proof -
  have keys: "channel_keys db" "channel_keys db'" using inv by (simp_all add: channel_inv_def channel_keys_def chans map_upd_where f)
  have c0': "c0 \<in> set (cd_channels db)" "ch_ws c0 = ws" "ch_name c0 = name" using find_channel_Some [OF c0] by auto
  have "members_local db'"
    unfolding members_local_def
  proof (intro ballI impI)
    fix m c a assume m: "m \<in> set (cd_members db')" "c \<in> set (cd_channels db')" "a \<in> set (cd_agents db')"
      "cm_channelId m = ch_id c" "cm_agentId m = a_id a"
    from m(2) obtain d where d: "d \<in> set (cd_channels db)" "ch_id c = ch_id d" "ch_ws c = ch_ws d"
      by (auto simp: chans f elim!: in_upd_whereE)
    show "ch_ws c = a_ws a"
    proof (cases "ch_id d = ch_id c0")
      case True
      then have "d = c0" using same_id [OF keys(1) d(1) c0'(1)] by simp
      then show ?thesis using new [OF m(1)] m(3-5) d c0' by (auto simp: in_workspace_def agents)
    next
      case False
      then have "m \<in> set (filter (\<lambda>m. cm_channelId m = ch_id d) (cd_members db))"
        unfolding members [OF False, symmetric] using m(1,4) d(2) by simp
      then show ?thesis using inv d m(3-5) by (auto simp: channel_inv_def members_local_def agents)
    qed
  qed
  moreover have "coherent db'"
  proof (rule coherent_frame [of db])
    fix w n e c assume w: "plain w" "\<not> starts_with SUBSCRIPTION_CHANNEL_PREFIX n" "cd_cache db' (channelCacheKey w n) = Some e"
      "find_channel db w n = Some c"
    have "(w, n) \<noteq> (ws, name)" using cache [OF w(3)] w(2) by auto
    then have "c \<noteq> c0" using find_channel_Some [OF w(4)] c0' by auto
    then have ne: "ch_id c \<noteq> ch_id c0" using same_id [OF keys(1) _ c0'(1)] find_channel_Some [OF w(4)] by blast
    then have "c \<in> set (cd_channels db')" using find_channel_Some [OF w(4)] by (auto simp: chans set_upd_where)
    then show "find_channel db' w n = Some c \<and> view_channel db' c = view_channel db c"
      using find_channel_eq [OF keys(2)] find_channel_Some [OF w(4)] view_cong [OF agents members [OF ne]] by fastforce
  qed (use inv cache in \<open>auto simp: channel_inv_def\<close>)
  ultimately show ?thesis using keys(2) inv by (simp add: channel_inv_def agents)
qed

text \<open>The same for an operation that writes the members only.\<close>

lemma one_channel_members:
  assumes "channel_inv db" "find_channel db ws name = Some c0" "plain ws"
    "cd_channels db' = cd_channels db" "cd_agents db' = cd_agents db"
    "\<And>i. i \<noteq> ch_id c0 \<Longrightarrow> filter (\<lambda>m. cm_channelId m = i) (cd_members db') = filter (\<lambda>m. cm_channelId m = i) (cd_members db)"
    "\<And>m. m \<in> set (cd_members db') \<Longrightarrow> cm_channelId m = ch_id c0 \<Longrightarrow> in_workspace ws (cm_agentId m) db"
    "\<And>key e. cd_cache db' key = Some e \<Longrightarrow> cd_cache db key = Some e
        \<and> (key \<noteq> channelCacheKey ws name \<or> starts_with SUBSCRIPTION_CHANNEL_PREFIX name)"
  shows "channel_inv db'"
  by (rule one_channel [OF assms(1-3), where f = "\<lambda>c. c"]) (use assms(4-) in \<open>auto simp: upd_where_def\<close>)

lemma member_in_workspace:
  assumes "channel_inv db" "c \<in> set (cd_channels db)" "m \<in> set (cd_members db)" "cm_channelId m = ch_id c"
  shows "in_workspace (ch_ws c) (cm_agentId m) db"
  using assms by (fastforce simp: channel_inv_def members_local_def in_workspace_def)

lemma channel_member_in_workspace:
  assumes "channel_inv db" "find_channel db ws name = Some c" "m \<in> set (cd_members db)" "cm_channelId m = ch_id c"
  shows "in_workspace ws (cm_agentId m) db"
  using member_in_workspace [OF assms(1) _ assms(3,4)] find_channel_Some [OF assms(2)] by auto

interpretation leave_op: channel_op "\<lambda>db. snd (leaveChannel ws name agentId db)" "\<lambda>_. plain ws" for ws name agentId
proof
  fix db assume inv: "channel_inv db" and p: "plain ws"
  show "channel_inv (snd (leaveChannel ws name agentId db))"
  proof (cases "find_channel db ws name")
    case (Some c)
    have "channel_inv (invalidateChannelCache ws name (delete_member (ch_id c) agentId db))"
      by (rule one_channel_members [OF inv Some p])
        (auto simp: delete_member_def invalidate_cache filter_filter intro: channel_member_in_workspace [OF inv Some] filter_cong)
    then show ?thesis by (simp add: leaveChannel_def Some)
  qed (simp add: leaveChannel_def inv)
qed
interpretation mute_op: channel_op "\<lambda>db. snd (change_mute muted ws name agentId db)" "\<lambda>_. plain ws" for muted ws name agentId
proof
  fix db assume inv: "channel_inv db" and p: "plain ws"
  show "channel_inv (snd (change_mute muted ws name agentId db))"
  proof (cases "find_channel db ws name")
    case (Some c)
    have other: "filter (\<lambda>m. cm_channelId m = i) (upd_where (\<lambda>m. cm_channelId m = ch_id c \<and> cm_agentId m = agentId)
        (\<lambda>m. m\<lparr>cm_isMuted := muted\<rparr>) ms) = filter (\<lambda>m. cm_channelId m = i) ms" if "i \<noteq> ch_id c" for i and ms :: "member_row list"
      using that by (induction ms) auto
    have "channel_inv (invalidateChannelCache ws name (set_muted (ch_id c) agentId muted db))"
      by (rule one_channel_members [OF inv Some p])
        (auto simp: set_muted_def invalidate_cache other elim!: in_upd_whereE intro: channel_member_in_workspace [OF inv Some])
    then show ?thesis using inv by (simp add: change_mute_def Some)
  qed (simp add: change_mute_def inv)
qed

interpretation archive_op: channel_op "\<lambda>db. snd (archiveChannel ws name db)" "\<lambda>_. plain ws" for ws name
proof
  fix db assume inv: "channel_inv db" and p: "plain ws"
  show "channel_inv (snd (archiveChannel ws name db))"
  proof (cases "find_channel db ws name")
    case (Some c)
    have "channel_inv (invalidateChannelCache ws name (update_channel_row (ch_id c) (\<lambda>c. c\<lparr>ch_isArchived := True\<rparr>) db))"
      by (rule one_channel [OF inv Some p, where f = "\<lambda>c. c\<lparr>ch_isArchived := True\<rparr>"])
        (auto simp: update_channel_row_def invalidate_cache intro: channel_member_in_workspace [OF inv Some])
    then show ?thesis using inv by (simp add: archiveChannel_def Some)
  qed (simp add: archiveChannel_def inv)
qed

lemma getChannel_inv: "channel_inv db \<Longrightarrow> plain ws \<Longrightarrow> channel_inv (snd (getChannel now ws name db))"
proof -
  assume inv: "channel_inv db" and p: "plain ws"
  have "cd_channels (snd (getChannel now ws name db)) = cd_channels db" "cd_members (snd (getChannel now ws name db)) = cd_members db"
    "cd_agents (snd (getChannel now ws name db)) = cd_agents db"
    by (simp_all add: getChannel_def getCachedChannel_def setCachedChannel_def Let_def split: option.splits prod.splits if_splits)
  then show ?thesis using inv getChannel_coherent [of db ws now name] p by (simp add: channel_inv_def channel_keys_def members_local_def)
qed

interpretation read_op: channel_op "\<lambda>db. snd (getChannel now ws name db)" "\<lambda>_. plain ws" for now ws name
  by unfold_locales (rule getChannel_inv)

interpretation update_op: channel_op "\<lambda>db. snd (updateChannel now ws name updates db)" "\<lambda>_. plain ws" for now ws name updates
proof
  fix db assume inv: "channel_inv db" and p: "plain ws"
  show "channel_inv (snd (updateChannel now ws name updates db))"
  proof (cases "find_channel db ws name")
    case (Some c)
    have "channel_inv (invalidateChannelCache ws name (update_channel_row (ch_id c) (set_channel updates) db))"
      by (rule one_channel [OF inv Some p, where f = "set_channel updates"])
        (auto simp: update_channel_row_def invalidate_cache set_channel_def intro: channel_member_in_workspace [OF inv Some])
    then show ?thesis using inv getChannel_inv [OF inv p, of now name] by (auto simp: updateChannel_def Some split: prod.splits)
  qed (simp add: updateChannel_def inv)
qed

lemma insert_member_select_shape:
  "\<exists>new. insert_member_select now c role P db = db\<lparr>cd_members := cd_members db @ new\<rparr>
     \<and> (\<forall>m \<in> set new. cm_channelId m = c \<and> (\<exists>a \<in> set (cd_agents db). P a \<and> cm_agentId m = a_id a))"
proof -
  have "\<exists>new. fold (\<lambda>a. insert_member (member_of now c (a_id a) role)) as db = db\<lparr>cd_members := cd_members db @ new\<rparr>
     \<and> (\<forall>m \<in> set new. cm_channelId m = c \<and> (\<exists>a \<in> set as. cm_agentId m = a_id a))" for as db
  proof (induction as arbitrary: db)
    case (Cons a as)
    let ?m = "member_of now c (a_id a) role" and ?rest = "fold (\<lambda>a. insert_member (member_of now c (a_id a) role)) as"
    obtain new where new: "?rest (insert_member ?m db) = (insert_member ?m db)\<lparr>cd_members := cd_members (insert_member ?m db) @ new\<rparr>"
      "\<forall>m \<in> set new. cm_channelId m = c \<and> (\<exists>a \<in> set as. cm_agentId m = a_id a)"
      using Cons.IH by blast
    consider "insert_member ?m db = db" | "insert_member ?m db = db\<lparr>cd_members := cd_members db @ [?m]\<rparr>"
      unfolding insert_member_def by metis
    then show ?case
    proof cases
      case 1
      show ?thesis using new unfolding fold_simps 1 by (intro exI [of _ new]) auto
    next
      case 2
      show ?thesis using new unfolding fold_simps 2 by (intro exI [of _ "?m # new"]) (auto simp: member_of_def)
    qed
  qed (auto intro: exI [of _ "[]"])
  from this [of "filter P (cd_agents db)" db] show ?thesis unfolding insert_member_select_def by fastforce
qed

text \<open>The insert of a join or an invitation.\<close>

lemma add_member_inv:
  assumes "channel_inv db" "find_channel db ws name = Some c" "plain ws" "in_workspace ws agentId db"
    and "add_member now ws c agentId db = (e, db')"
  shows "e = None \<Longrightarrow> channel_inv (invalidateChannelCache ws name db')" "e \<noteq> None \<Longrightarrow> channel_inv db'"
proof -
  have "\<exists>new. db' = db\<lparr>cd_members := cd_members db @ new\<rparr>
     \<and> (\<forall>m \<in> set new. cm_channelId m = ch_id c \<and> in_workspace ws (cm_agentId m) db)"
  proof (cases "starts_with SUBSCRIPTION_CHANNEL_PREFIX (ch_name c)")
    case True
    obtain new where "insert_member_select (toSec now) (ch_id c) ''member''
          (\<lambda>a. a_id a = agentId \<and> a_ws a = ws \<and> a_status a \<noteq> ''released'') db = db\<lparr>cd_members := cd_members db @ new\<rparr>"
      "\<forall>m \<in> set new. cm_channelId m = ch_id c \<and> cm_agentId m = agentId"
      using insert_member_select_shape [of "toSec now" "ch_id c" "''member''"
          "\<lambda>a. a_id a = agentId \<and> a_ws a = ws \<and> a_status a \<noteq> ''released''" db] by auto
    then show ?thesis using assms(4,5) True
      by (intro exI [of _ new]) (auto simp: add_member_def insertLiveSubscriptionMember_def Let_def)
  next
    case False
    then show ?thesis using assms(4,5) by (auto simp: add_member_def member_of_def)
  qed
  then obtain new where new: "db' = db\<lparr>cd_members := cd_members db @ new\<rparr>"
    "\<And>m. m \<in> set new \<Longrightarrow> cm_channelId m = ch_id c \<and> in_workspace ws (cm_agentId m) db" by blast
  have other: "filter (\<lambda>m. cm_channelId m = i) new = []" if "i \<noteq> ch_id c" for i using new(2) that by (auto simp: filter_empty_conv)
  show "e = None \<Longrightarrow> channel_inv (invalidateChannelCache ws name db')"
    by (rule one_channel_members [OF assms(1-3)])
      (use new(2) in \<open>auto simp: new(1) invalidate_cache other intro: channel_member_in_workspace [OF assms(1,2)]\<close>)
  assume "e \<noteq> None"
  then have "starts_with SUBSCRIPTION_CHANNEL_PREFIX name"
    using assms(5) find_channel_Some [OF assms(2)] by (auto simp: add_member_def split: if_splits)
  then show "channel_inv db'"
    by (intro one_channel_members [OF assms(1-3)])
      (use new(2) in \<open>auto simp: new(1) other intro: channel_member_in_workspace [OF assms(1,2)]\<close>)
qed

interpretation join_op: channel_op "\<lambda>db. snd (joinChannel now ws name agentId db)"
  "\<lambda>db. plain ws \<and> in_workspace ws agentId db" for now ws name agentId
proof
  fix db assume inv: "channel_inv db" and p: "plain ws \<and> in_workspace ws agentId db"
  show "channel_inv (snd (joinChannel now ws name agentId db))"
  proof (cases "find_channel db ws name")
    case (Some c)
    then show ?thesis
      using inv p add_member_inv [OF inv Some, of agentId now] by (auto simp: joinChannel_def split: option.splits prod.splits)
  qed (simp add: joinChannel_def inv)
qed

lemma found_agent_in_workspace:
  assumes "channel_inv db" "first_row (filter (\<lambda>a. a_ws a = ws \<and> a_name a = n) (cd_agents db)) = Some a"
  shows "in_workspace ws (a_id a) db"
  using first_row_Some [OF assms(2)] assms(1) by (auto simp: in_workspace_def channel_inv_def distinct_map inj_on_def)

interpretation invite_op: channel_op "\<lambda>db. snd (inviteAgent now ws name inviter invitee db)" "\<lambda>_. plain ws" for now ws name inviter invitee
proof
  fix db assume inv: "channel_inv db" and p: "plain ws"
  show "channel_inv (snd (inviteAgent now ws name inviter invitee db))"
  proof (cases "find_channel db ws name")
    case (Some c)
    then show ?thesis
      using inv p add_member_inv [OF inv Some p found_agent_in_workspace [OF inv]]
      by (auto simp: inviteAgent_def split: option.splits prod.splits)
  qed (simp add: inviteAgent_def inv)
qed

text \<open>A new channel, with a fresh identifier, and possibly its first member.\<close>

lemma new_channel_inv:
  assumes inv: "channel_inv db" and fresh: "find_channel db (ch_ws c) (ch_name c) = None"
    "\<And>d. d \<in> set (cd_channels db) \<Longrightarrow> ch_id d \<noteq> ch_id c" "\<And>m. m \<in> set (cd_members db) \<Longrightarrow> cm_channelId m \<noteq> ch_id c"
    and new: "\<And>m. m \<in> set new \<Longrightarrow> cm_channelId m = ch_id c \<and> in_workspace (ch_ws c) (cm_agentId m) db"
  shows "channel_inv (db\<lparr>cd_channels := cd_channels db @ [c], cd_members := cd_members db @ new\<rparr>)" (is "channel_inv ?db'")
proof -
  have none: "\<And>d. d \<in> set (cd_channels db) \<Longrightarrow> \<not> (ch_ws d = ch_ws c \<and> ch_name d = ch_name c)"
    using fresh(1) by (auto simp: find_channel_def first_row_None filter_empty_conv)
  have keys: "channel_keys ?db'" using inv fresh(2) none by (fastforce simp: channel_inv_def channel_keys_def)
  have "filter (\<lambda>m. cm_channelId m = ch_id d) new = []" if "d \<in> set (cd_channels db)" for d
    using new fresh(2) [OF that] by (auto simp: filter_empty_conv)
  then have "view_channel ?db' d = view_channel db d" if "find_channel db w n = Some d" for w n d
    using find_channel_Some [OF that] by (intro view_cong) auto
  moreover have "find_channel ?db' w n = Some d" if "find_channel db w n = Some d" for w n d
    using that by (simp add: find_channel_def first_row_def split: list.splits)
  ultimately have "coherent ?db'"
  proof (intro coherent_frame [of db ?db'])
    show "coherent db" using inv by (simp add: channel_inv_def)
  qed simp_all
  moreover have "members_local ?db'"
    unfolding members_local_def
  proof (intro ballI impI)
    fix m d a assume m: "m \<in> set (cd_members ?db')" "d \<in> set (cd_channels ?db')" "a \<in> set (cd_agents ?db')"
      "cm_channelId m = ch_id d" "cm_agentId m = a_id a"
    show "ch_ws d = a_ws a"
    proof (cases "m \<in> set new")
      case True
      then have "d = c" using new [OF True] m(2,4) fresh(2) by auto
      then show ?thesis using new [OF True] m(3,5) by (simp add: in_workspace_def)
    next
      case False
      then have "m \<in> set (cd_members db)" "d \<in> set (cd_channels db)" using m fresh(3) by auto
      then show ?thesis using inv m(3-5) by (simp add: channel_inv_def members_local_def)
    qed
  qed
  ultimately show ?thesis using keys inv by (simp add: channel_inv_def)
qed

definition fresh_channel :: "id \<Rightarrow> channel_db \<Rightarrow> bool" where
  "fresh_channel i db \<longleftrightarrow> i \<notin> ch_id ` set (cd_channels db) \<and> i \<notin> cm_channelId ` set (cd_members db)"

interpretation create_op: channel_op "\<lambda>db. snd (createChannel now freshId ws data creator db)"
  "\<lambda>db. plain ws \<and> fresh_channel freshId db \<and> (\<forall>a. creator = Some a \<longrightarrow> in_workspace ws a db)" for now freshId ws data creator
proof
  fix db assume inv: "channel_inv db"
    and p: "plain ws \<and> fresh_channel freshId db \<and> (\<forall>a. creator = Some a \<longrightarrow> in_workspace ws a db)"
  let ?c = "\<lparr>ch_id = freshId, ch_ws = ws, ch_name = cc_name data, ch_channelType = 0, ch_topic = cc_topic data,
     ch_metadata = Some (some_list (cc_metadata data)), ch_createdBy = creator, ch_createdAt = toSec now, ch_isArchived = False\<rparr>"
  let ?new = "case truthy creator of None \<Rightarrow> [] | Some a \<Rightarrow> [member_of (toSec now) freshId a ''owner'']"
  have "channel_inv (db\<lparr>cd_channels := cd_channels db @ [?c], cd_members := cd_members db @ ?new\<rparr>)"
    if "find_channel db ws (cc_name data) = None"
    by (rule new_channel_inv [OF inv])
      (use that p in \<open>auto simp: fresh_channel_def member_of_def truthy_def split: option.splits list.splits\<close>)
  then show "channel_inv (snd (createChannel now freshId ws data creator db))"
    using inv by (auto simp: createChannel_def Let_def split: option.splits)
qed
lemma insert_select_inv:
  assumes "channel_inv db" "find_channel db ws name = Some c" "plain ws" "starts_with SUBSCRIPTION_CHANNEL_PREFIX name"
    and "\<And>a. a \<in> set (cd_agents db) \<Longrightarrow> P a \<Longrightarrow> in_workspace ws (a_id a) db"
  shows "channel_inv (insert_member_select now (ch_id c) role P db)"
proof -
  obtain new where new: "insert_member_select now (ch_id c) role P db = db\<lparr>cd_members := cd_members db @ new\<rparr>"
    "\<And>m. m \<in> set new \<Longrightarrow> cm_channelId m = ch_id c \<and> in_workspace ws (cm_agentId m) db"
    using insert_member_select_shape [of now "ch_id c" role P db] assms(5) by metis
  have other: "filter (\<lambda>m. cm_channelId m = i) new = []" if "i \<noteq> ch_id c" for i using new(2) that by (auto simp: filter_empty_conv)
  show ?thesis unfolding new(1)
    by (rule one_channel_members [OF assms(1-3)])
      (use new(2) assms(4) in \<open>auto simp: other intro: channel_member_in_workspace [OF assms(1,2)]\<close>)
qed

lemma insert_channel_inv:
  assumes inv: "channel_inv db" and fresh: "fresh_channel (ch_id c) db"
  shows "channel_inv (insert_channel c db)"
proof (cases "list_ex (\<lambda>x. ch_id x = ch_id c \<or> (ch_ws x = ch_ws c \<and> ch_name x = ch_name c)) (cd_channels db)")
  case False
  then have "find_channel db (ch_ws c) (ch_name c) = None"
    by (auto simp: find_channel_def first_row_None filter_empty_conv list_ex_iff)
  moreover have "\<And>d. d \<in> set (cd_channels db) \<Longrightarrow> ch_id d \<noteq> ch_id c" "\<And>m. m \<in> set (cd_members db) \<Longrightarrow> cm_channelId m \<noteq> ch_id c"
    using fresh unfolding fresh_channel_def by (metis imageI)+
  ultimately show ?thesis using new_channel_inv [OF inv, of c "[]"] False by (simp add: insert_channel_def)
qed (simp add: insert_channel_def inv)

lemma insert_channel_agents [simp]:
  "cd_agents (insert_channel c db) = cd_agents db" "in_workspace ws a (insert_channel c db) = in_workspace ws a db"
  by (simp_all add: insert_channel_def in_workspace_def)

lemma invalidate_inv: "channel_inv db \<Longrightarrow> channel_inv (invalidateChannelCache ws name db)"
  by (auto simp: channel_inv_def channel_keys_def members_local_def intro: coherent_frame simp: invalidate_cache)

interpretation ensure_op: channel_op "\<lambda>db. snd (ensureAgentSubscriptionChannel now freshId ws agentName db)"
  "\<lambda>db. plain ws \<and> fresh_channel freshId db" for now freshId ws agentName
proof
  fix db assume inv: "channel_inv db" and p: "plain ws \<and> fresh_channel freshId db"
  let ?agent = "first_row (filter (\<lambda>a. a_ws a = ws \<and> a_name a = agentName) (cd_agents db))"
  show "channel_inv (snd (ensureAgentSubscriptionChannel now freshId ws agentName db))"
  proof (cases ?agent)
    case (Some agent)
    let ?c = "subscription_channel (toSec now) freshId ws (a_id agent)" and ?name = "SUBSCRIPTION_CHANNEL_PREFIX @ a_id agent"
    let ?live = "\<lambda>a. a_id a = a_id agent \<and> a_name a = agentName \<and> a_status a \<noteq> ''released''"
    have 1: "channel_inv (insert_channel ?c db)" by (rule insert_channel_inv [OF inv]) (use p in \<open>simp add: subscription_channel_def\<close>)
    have ws: "in_workspace ws (a_id agent) (insert_channel ?c db)" using found_agent_in_workspace [OF inv Some] by simp
    have 2: "channel_inv (insert_member_select (toSec now) (ch_id c) ''owner'' ?live (insert_channel ?c db))"
      if "find_channel (insert_channel ?c db) ws ?name = Some c" for c
      by (rule insert_select_inv [OF 1 that]) (use p ws in auto)
    have 3: "channel_inv (snd (getChannel now ws ?name (invalidateChannelCache ws ?name
        (insert_member_select (toSec now) (ch_id c) ''owner'' ?live (insert_channel ?c db)))))"
      if "find_channel (insert_channel ?c db) ws ?name = Some c" for c
      using getChannel_inv [OF invalidate_inv [OF 2 [OF that]]] p by blast
    show ?thesis
      using inv 1 2 3 by (auto simp: ensureAgentSubscriptionChannel_def Some Let_def split: option.splits prod.splits)
  qed (simp add: ensureAgentSubscriptionChannel_def inv)
qed

subsection \<open>Release\<close>

lemma fold_invalidate:
  "cd_channels (fold (invalidateChannelCache ws) names db) = cd_channels db"
  "cd_members (fold (invalidateChannelCache ws) names db) = cd_members db"
  "cd_agents (fold (invalidateChannelCache ws) names db) = cd_agents db"
  "cd_cache (fold (invalidateChannelCache ws) names db) key = Some e \<longleftrightarrow> key \<notin> channelCacheKey ws ` set names \<and> cd_cache db key = Some e"
  by (induction names arbitrary: db) (auto simp: invalidate_cache)

lemma filter_agent_upd:
  "(\<And>a. a_id (f a) = a_id a) \<Longrightarrow> i \<noteq> k \<Longrightarrow> filter (\<lambda>a. a_id a = i) (upd_where (\<lambda>a. a_id a = k) f as) = filter (\<lambda>a. a_id a = i) as"
  by (induction as) auto

interpretation delete_op: channel_op "\<lambda>db. snd (deleteAgent now ws name db)" "\<lambda>_. plain ws" for now ws name
proof
  fix db assume inv: "channel_inv db" and p: "plain ws"
  show "channel_inv (snd (deleteAgent now ws name db))"
  proof (cases "first_row (filter (\<lambda>a. a_ws a = ws \<and> a_name a = name) (cd_agents db))")
    case (Some agent)
    have agent: "agent \<in> set (cd_agents db)" "a_ws agent = ws" using first_row_Some [OF Some] by auto
    define removed where "removed = map cm_channelId (filter (\<lambda>m. cm_agentId m = a_id agent) (cd_members db))"
    define joined where "joined = map ch_name (filter (\<lambda>c. ch_ws c = ws \<and> ch_id c \<in> set removed) (cd_channels db))"
    define db' where "db' = fold (invalidateChannelCache ws) joined (release_agent (toSec now) agent db)"
    have eq: "snd (deleteAgent now ws name db) = db'"
      by (simp add: deleteAgent_def Some Let_def db'_def joined_def removed_def)
    let ?f = "\<lambda>a :: agent_row. a\<lparr>a_name := releasedAgentName (a_name agent) (a_id agent), a_status := ''released'',
       a_locationType := ''self_connected'', a_locationNodeId := None, a_lastSeen := toSec now\<rparr>"
    have tabs: "cd_channels db' = cd_channels db" "cd_agents db' = upd_where (\<lambda>a. a_id a = a_id agent) ?f (cd_agents db)"
      "cd_members db' = filter (\<lambda>m. cm_agentId m \<noteq> a_id agent) (cd_members db)"
      "\<And>key e. cd_cache db' key = Some e \<longleftrightarrow> key \<notin> channelCacheKey ws ` set joined \<and> cd_cache db key = Some e"
      by (simp_all add: db'_def fold_invalidate release_agent_def)
    have "coherent db'"
    proof (rule coherent_frame [of db])
      fix w n e c assume w: "plain w" "cd_cache db' (channelCacheKey w n) = Some e" "find_channel db w n = Some c"
      note c = find_channel_Some [OF w(3)]
      have absent: "cm_agentId m \<noteq> a_id agent" if "m \<in> set (cd_members db)" "cm_channelId m = ch_id c" for m
      proof
        assume m: "cm_agentId m = a_id agent"
        then have "ch_ws c = ws" using inv that agent c by (auto simp: channel_inv_def members_local_def)
        moreover have "ch_id c \<in> set removed" using m that by (force simp: removed_def)
        ultimately have "ch_name c \<in> set joined" using c by (auto simp: joined_def)
        then show False using w(2) c \<open>ch_ws c = ws\<close> by (auto simp: tabs(4))
      qed
      have "filter (\<lambda>m. cm_channelId m = ch_id c) (cd_members db') = filter (\<lambda>m. cm_channelId m = ch_id c) (cd_members db)"
        using absent by (auto simp: tabs(3) intro: filter_cong)
      moreover have "filter (\<lambda>a. a_id a = cm_agentId m) (cd_agents db') = filter (\<lambda>a. a_id a = cm_agentId m) (cd_agents db)"
        if "m \<in> set (filter (\<lambda>m. cm_channelId m = ch_id c) (cd_members db))" for m
        unfolding tabs(2) by (rule filter_agent_upd) (use absent that in auto)
      ultimately have "member_views db' (ch_id c) = member_views db (ch_id c)"
        unfolding member_views_def by (metis (no_types, lifting) map_cong)
      then show "find_channel db' w n = Some c \<and> view_channel db' c = view_channel db c"
        using w(3) by (simp add: view_channel_def find_channel_def tabs(1))
    qed (use inv tabs(4) in \<open>auto simp: channel_inv_def\<close>)
    moreover have "members_local db'"
      using inv by (auto simp: channel_inv_def members_local_def tabs(1-3) elim!: in_upd_whereE)
    ultimately show ?thesis unfolding eq using inv by (simp add: channel_inv_def channel_keys_def tabs(1,2) map_upd_where)
  qed (simp add: deleteAgent_def inv)
qed

subsection \<open>The cache is transparent\<close>

text \<open>Operations one after the other, in any order, by any callers, with fresh identifiers for new channels and agents that
  act in their own workspace. \<open>release\<close> is the removal of an agent through \<open>deleteAgent\<close>; the two releases that complete an
  invocation in \<open>engine/action.ts\<close> delete memberships and invalidate nothing, and are not among these operations.\<close>

inductive channel_run :: "channel_db \<Rightarrow> channel_db \<Rightarrow> bool" for db0 where
  start: "channel_run db0 db0"
| read: "channel_run db0 db \<Longrightarrow> plain ws \<Longrightarrow> channel_run db0 (snd (getChannel now ws name db))"
| create: "channel_run db0 db \<Longrightarrow> plain ws \<Longrightarrow> fresh_channel i db \<Longrightarrow> (\<And>a. creator = Some a \<Longrightarrow> in_workspace ws a db)
    \<Longrightarrow> channel_run db0 (snd (createChannel now i ws data creator db))"
| update: "channel_run db0 db \<Longrightarrow> plain ws \<Longrightarrow> channel_run db0 (snd (updateChannel now ws name updates db))"
| archive: "channel_run db0 db \<Longrightarrow> plain ws \<Longrightarrow> channel_run db0 (snd (archiveChannel ws name db))"
| join: "channel_run db0 db \<Longrightarrow> plain ws \<Longrightarrow> in_workspace ws agentId db \<Longrightarrow> channel_run db0 (snd (joinChannel now ws name agentId db))"
| leave: "channel_run db0 db \<Longrightarrow> plain ws \<Longrightarrow> channel_run db0 (snd (leaveChannel ws name agentId db))"
| invite: "channel_run db0 db \<Longrightarrow> plain ws \<Longrightarrow> channel_run db0 (snd (inviteAgent now ws name inviter invitee db))"
| mute: "channel_run db0 db \<Longrightarrow> plain ws \<Longrightarrow> channel_run db0 (snd (muteChannel ws name agentId db))"
| unmute: "channel_run db0 db \<Longrightarrow> plain ws \<Longrightarrow> channel_run db0 (snd (unmuteChannel ws name agentId db))"
| subscribe: "channel_run db0 db \<Longrightarrow> plain ws \<Longrightarrow> fresh_channel i db
    \<Longrightarrow> channel_run db0 (snd (ensureAgentSubscriptionChannel now i ws agentName db))"
| release: "channel_run db0 db \<Longrightarrow> plain ws \<Longrightarrow> channel_run db0 (snd (deleteAgent now ws name db))"

lemma channel_run_inv: "channel_run db0 db \<Longrightarrow> channel_inv db0 \<Longrightarrow> channel_inv db"
  by (induction rule: channel_run.induct)
    (auto simp: muteChannel_def unmuteChannel_def
      intro: read_op.keeps create_op.keeps update_op.keeps archive_op.keeps join_op.keeps leave_op.keeps invite_op.keeps mute_op.keeps
        ensure_op.keeps delete_op.keeps)

text \<open>C7: Under the operations of the channel module the cache of channels does not show. From a state whose cache agrees
  with its tables (an empty cache, say), after any sequence of whole operations of channel.ts (create, update, archive,
  join, leave, invite, mute, unmute, subscribe, read) and of removals of agents through deleteAgent, a read that may be
  answered by the cache returns exactly what reading the tables at that moment would: each of these operations
  invalidates every cached channel whose view it changes. Other writers of the tables are not covered: a release that
  completes an invocation deletes memberships without invalidation, and then a cached answer is stale.\<close>
theorem cache_is_transparent:
  assumes "channel_inv db0" "channel_run db0 db" "plain ws"
  shows "fst (getChannel now ws name db) = map_option (view_channel db) (find_channel db ws name)"
  using channel_run_inv [OF assms(2,1)] assms(3) by (simp add: channel_inv_def getChannel_live)
definition ex_member_agent :: agent_row where
  "ex_member_agent = \<lparr>a_id = ''a1'', a_ws = ''w'', a_name = ''bob'', a_type = ''agent'', a_status = ''online'',
     a_locationType = ''self_connected'', a_locationNodeId = None, a_providerName = [], a_resumable = False, a_sessionRef = None,
     a_originNodeId = None, a_ackSeq = 0, a_seq = 0, a_lastSeen = 0, a_statusBefore = None, a_liveRev = 0\<rparr>"

definition ex_channels :: channel_db where
  "ex_channels = \<lparr>cd_channels = [], cd_members = [], cd_agents = [ex_member_agent], cd_cache = Map.empty\<rparr>"

text \<open>A channel is created, read into the cache, and its only member is released: the next read shows no member.\<close>

lemma cache_is_transparent_witness:
  "\<exists>db. channel_run ex_channels db
     \<and> map_option cv_member_count (fst (getChannel 3000 ''w'' ''general'' db)) = Some 0"
proof -
  let ?data = "\<lparr>cc_name = ''general'', cc_topic = None, cc_metadata = None\<rparr>"
  let ?db1 = "snd (createChannel 1000 ''c1'' ''w'' ?data (Some ''a1'') ex_channels)"
  let ?db2 = "snd (getChannel 1500 ''w'' ''general'' ?db1)"
  let ?db = "snd (deleteAgent 2000 ''w'' ''bob'' ?db2)"
  have inv: "channel_inv ex_channels"
    by (simp add: channel_inv_def channel_keys_def members_local_def coherent_def ex_channels_def)
  have p: "plain ''w''" by (simp add: plain_def)
  have 1: "channel_run ex_channels ?db1"
    by (rule channel_run.create [OF channel_run.start p])
      (simp_all add: fresh_channel_def ex_channels_def in_workspace_def ex_member_agent_def)
  have run: "channel_run ex_channels ?db" by (intro channel_run.release channel_run.read p 1)
  from cache_is_transparent [OF inv run p, of 3000 "''general''"] show ?thesis
    by (intro exI [of _ ?db] conjI run)
      (simp add: createChannel_def ex_channels_def SUBSCRIPTION_CHANNEL_PREFIX_def starts_with_def valid_channel_name_def name_char_def
        is_dec_def find_channel_def Let_def truthy_def getChannel_def getCachedChannel_def setCachedChannel_def deleteAgent_def
        ex_member_agent_def release_agent_def view_channel_def member_views_def member_of_def invalidateChannelCache_def some_list_def)
qed

text \<open>A release that deletes the memberships and does not invalidate: the member is still shown.\<close>

definition ex_uncached :: channel_db where
  "ex_uncached = ex_channels\<lparr>cd_channels := [\<lparr>ch_id = ''c1'', ch_ws = ''w'', ch_name = ''ops'', ch_channelType = 0, ch_topic = None,
       ch_metadata = None, ch_createdBy = None, ch_createdAt = 0, ch_isArchived = False\<rparr>],
     cd_members := [member_of 0 ''c1'' ''a1'' ''member'']\<rparr>"

definition ex_cached :: channel_db where
  "ex_cached = snd (getChannel 1000 ''w'' ''ops'' ex_uncached)"

lemma unannounced_release_is_stale:
  "map_option cv_member_count (fst (getChannel 3000 ''w'' ''ops'' (release_agent 2 ex_member_agent ex_cached))) = Some 1
    \<and> cd_members (release_agent 2 ex_member_agent ex_cached) = []"
  by (simp add: ex_cached_def ex_uncached_def ex_channels_def SUBSCRIPTION_CHANNEL_PREFIX_def starts_with_def find_channel_def Let_def getChannel_def
      getCachedChannel_def setCachedChannel_def DEFAULT_TTL_def ex_member_agent_def release_agent_def view_channel_def member_views_def
      member_of_def some_list_def)

subsection \<open>The age of a cached answer\<close>

text \<open>
  A history of states with the clock at each, the latest first. \<open>change\<close> is any write of the tables by anyone, in this
  process or another; the cache loses any entries or none. \<open>fill\<close> is the end of a read that missed: the channel was found
  in one state and its members were read in another, both at most \<open>delta\<close> milliseconds before the entry is set.
\<close>

inductive channel_history :: "int \<Rightarrow> (ms \<times> channel_db) list \<Rightarrow> bool" for delta where
  start: "cd_cache db = Map.empty \<Longrightarrow> channel_history delta [(t, db)]"
| change: "channel_history delta ((t, db) # h) \<Longrightarrow> cd_cache db' \<subseteq>\<^sub>m cd_cache db \<Longrightarrow> channel_history delta ((t', db') # (t, db) # h)"
| fill: "channel_history delta ((t, db) # h) \<Longrightarrow> plain ws \<Longrightarrow> \<not> starts_with SUBSCRIPTION_CHANNEL_PREFIX name
    \<Longrightarrow> (t1, s1) \<in> set ((t, db) # h) \<Longrightarrow> find_channel s1 ws name = Some c \<Longrightarrow> t' \<le> t1 + delta
    \<Longrightarrow> (t2, s2) \<in> set ((t, db) # h) \<Longrightarrow> t' \<le> t2 + delta
    \<Longrightarrow> channel_history delta ((t', setCachedChannel t' ws name (view_channel s2 c) db) # (t, db) # h)"

text \<open>What was read in two states of the history, at clocks not before \<open>since\<close>.\<close>

definition seen_since :: "ms \<Rightarrow> (ms \<times> channel_db) list \<Rightarrow> id \<Rightarrow> string \<Rightarrow> channel_view \<Rightarrow> bool" where
  "seen_since since h ws name v \<longleftrightarrow> (\<exists>t1 s1 t2 s2 c. (t1, s1) \<in> set h \<and> (t2, s2) \<in> set h \<and> since \<le> t1 \<and> since \<le> t2
     \<and> find_channel s1 ws name = Some c \<and> v = view_channel s2 c)"

definition entries_seen :: "int \<Rightarrow> (ms \<times> channel_db) list \<Rightarrow> channel_db \<Rightarrow> bool" where
  "entries_seen delta h db \<longleftrightarrow> (\<forall>ws name e. plain ws \<longrightarrow> cd_cache db (channelCacheKey ws name) = Some e
     \<longrightarrow> seen_since (ce_expiresAt e - 60000 - delta) h ws name (ce_data e))"

lemma entries_seenD:
  assumes "entries_seen delta h db" "plain ws" "cd_cache db (channelCacheKey ws name) = Some e"
    and "since \<le> ce_expiresAt e - 60000 - delta" "set h \<subseteq> set h'"
  shows "seen_since since h' ws name (ce_data e)"
proof -
  have "seen_since (ce_expiresAt e - 60000 - delta) h ws name (ce_data e)" using assms(1-3) by (simp add: entries_seen_def)
  then show ?thesis unfolding seen_since_def by (meson assms(4,5) order_trans subsetD)
qed

lemma history_entries: "channel_history delta h \<Longrightarrow> entries_seen delta h (snd (hd h))"
proof (induction rule: channel_history.induct)
  case (change t db h db' t')
  show ?case unfolding entries_seen_def list.sel snd_conv
  proof (intro allI impI)
    fix ws name e assume ws: "plain ws" and e: "cd_cache db' (channelCacheKey ws name) = Some e"
    have "cd_cache db (channelCacheKey ws name) = Some e" using change.hyps(2) e by (metis domI map_le_def)
    then show "seen_since (ce_expiresAt e - 60000 - delta) ((t', db') # (t, db) # h) ws name (ce_data e)"
      by (intro entries_seenD [OF change.IH [simplified] ws]) auto
  qed
next
  case (fill t db h ws name t1 s1 c t' t2 s2)
  show ?case unfolding entries_seen_def list.sel snd_conv
  proof (intro allI impI)
    fix w n e
    let ?db' = "setCachedChannel t' ws name (view_channel s2 c) db"
    assume w: "plain w" and e: "cd_cache ?db' (channelCacheKey w n) = Some e"
    show "seen_since (ce_expiresAt e - 60000 - delta) ((t', ?db') # (t, db) # h) w n (ce_data e)"
    proof (cases "channelCacheKey w n = channelCacheKey ws name")
      case True
      then have key: "w = ws" "n = name" using key_inj [OF w fill.hyps(2)] by blast+
      have "ce_data e = view_channel s2 c" "ce_expiresAt e - 60000 - delta \<le> t1" "ce_expiresAt e - 60000 - delta \<le> t2"
        using e fill.hyps(6,8) by (auto simp: key setCachedChannel_def DEFAULT_TTL_def)
      then show ?thesis unfolding seen_since_def key using fill.hyps(4,5,7) by (meson list.set_intros(2))
    next
      case False
      then have "cd_cache db (channelCacheKey w n) = Some e" using e by (simp add: setCachedChannel_def)
      then show ?thesis by (intro entries_seenD [OF fill.IH [simplified] w]) auto
    qed
  qed
qed (simp add: entries_seen_def)

lemma getCachedChannel_cases:
  "fst (getCachedChannel now ws name db) = Some v \<longleftrightarrow>
     (\<exists>e. cd_cache db (channelCacheKey ws name) = Some e \<and> now \<le> ce_expiresAt e \<and> v = ce_data e)"
  by (auto simp: getCachedChannel_def Let_def split: option.splits)

lemma getCachedChannel_tables [simp]:
  "find_channel (snd (getCachedChannel now ws name db)) w n = find_channel db w n"
  "view_channel (snd (getCachedChannel now ws name db)) c = view_channel db c"
  "cd_cache (snd (getCachedChannel now ws name db)) \<subseteq>\<^sub>m cd_cache db"
  by (auto simp: getCachedChannel_def Let_def find_channel_def view_channel_def member_views_def map_le_def split: option.splits)

lemma getChannel_answer:
  "fst (getChannel now ws name db) =
     (case if starts_with SUBSCRIPTION_CHANNEL_PREFIX name then None else fst (getCachedChannel now ws name db) of
        Some v \<Rightarrow> Some v | None \<Rightarrow> map_option (view_channel db) (find_channel db ws name))"
  by (auto simp: getChannel_def Let_def split_beta split: option.splits)

text \<open>A whole read is a \<open>change\<close> that drops an expired entry and, if it missed, a \<open>fill\<close> from what it has just read.\<close>

lemma history_read:
  assumes "channel_history delta ((t, db) # h)" "plain ws" "0 \<le> delta"
  shows "\<exists>h'. channel_history delta ((now, snd (getChannel now ws name db)) # h' @ (t, db) # h)"
proof -
  let ?d = "snd (getCachedChannel now ws name db)"
  have looked: "channel_history delta ((now, ?d) # (t, db) # h)"
    by (rule channel_history.change [OF assms(1)]) simp
  have "channel_history delta ((now, setCachedChannel now ws name (view_channel db c) ?d) # (now, ?d) # (t, db) # h)"
    if "find_channel db ws name = Some c" "\<not> starts_with SUBSCRIPTION_CHANNEL_PREFIX name" for c
    using channel_history.fill [OF looked assms(2) that(2), of now ?d c now now ?d] that(1) assms(3) by simp
  moreover have "channel_history delta ((now, db) # (t, db) # h)"
    by (rule channel_history.change [OF assms(1)]) simp
  ultimately show ?thesis
    using looked by (auto simp: getChannel_def Let_def split_beta split: option.splits
        intro: exI [of _ "[]"] exI [of _ "[(now, ?d)]"])
qed

text \<open>C8: No answer of the cache of channels is old. In any history in which anyone writes the tables at any time, with
  invalidation of the cache or without it, and reads that missed fill the cache with what they had read at most delta
  milliseconds before, a read returns the channel and the members as they were at moments at most sixty seconds and
  delta before its own clock; a channel that it says does not exist does not exist now; and a subscription channel is
  always read from the tables as they are now.\<close>
theorem cache_answers_are_recent:
  assumes "channel_history delta ((t, db) # h)" "plain ws" "0 \<le> delta"
  shows "(case fst (getChannel now ws name db) of
       None \<Rightarrow> find_channel db ws name = None
     | Some v \<Rightarrow> seen_since (now - 60000 - delta) ((now, db) # (t, db) # h) ws name v)
    \<and> (starts_with SUBSCRIPTION_CHANNEL_PREFIX name \<longrightarrow>
         fst (getChannel now ws name db) = map_option (view_channel db) (find_channel db ws name))"
proof (intro conjI impI)
  have live: "seen_since (now - 60000 - delta) ((now, db) # (t, db) # h) ws name (view_channel db c)" if "find_channel db ws name = Some c" for c
    unfolding seen_since_def using that assms(3) by (intro exI [of _ now] exI [of _ db] exI [of _ c]) simp
  have cached: "seen_since (now - 60000 - delta) ((now, db) # (t, db) # h) ws name (ce_data e)"
    if "cd_cache db (channelCacheKey ws name) = Some e" "now \<le> ce_expiresAt e" for e
    using that by (intro entries_seenD [OF history_entries [OF assms(1), simplified] assms(2)]) auto
  show "case fst (getChannel now ws name db) of None \<Rightarrow> find_channel db ws name = None
     | Some v \<Rightarrow> seen_since (now - 60000 - delta) ((now, db) # (t, db) # h) ws name v"
    using live cached by (auto simp: getChannel_answer getCachedChannel_cases split: option.splits if_splits)
qed (simp add: getChannel_answer)

text \<open>The stale entry of the release above, sixty seconds on.\<close>

lemma ex_cached_history:
  "\<exists>h. channel_history 0 ((2000, release_agent 2 ex_member_agent ex_cached) # (1000, ex_cached) # h)"
proof -
  have start: "channel_history 0 [(900, ex_uncached)]"
    by (rule channel_history.start) (simp add: ex_uncached_def ex_channels_def)
  obtain h where "channel_history 0 ((1000, ex_cached) # h)"
    using history_read [OF start, of "''w''" 1000 "''ops''"] by (auto simp: plain_def ex_cached_def)
  from channel_history.change [OF this] show ?thesis by (intro exI [of _ h]) (simp add: release_agent_def)
qed

lemma cache_answers_are_recent_witness:
  "\<exists>h v. fst (getChannel 3000 ''w'' ''ops'' (release_agent 2 ex_member_agent ex_cached)) = Some v \<and> cv_member_count v = 1
     \<and> seen_since (3000 - 60000 - 0) h ''w'' ''ops'' v"
proof -
  obtain h where "channel_history 0 ((2000, release_agent 2 ex_member_agent ex_cached) # (1000, ex_cached) # h)"
    using ex_cached_history by blast
  from cache_answers_are_recent [OF this, where ws = "''w''" and now = 3000 and name = "''ops''"]
  have "case fst (getChannel 3000 ''w'' ''ops'' (release_agent 2 ex_member_agent ex_cached)) of None \<Rightarrow> True
     | Some v \<Rightarrow> \<exists>h. seen_since (3000 - 60000 - 0) h ''w'' ''ops'' v"
    by (auto simp: plain_def split: option.splits)
  moreover obtain v where v: "fst (getChannel 3000 ''w'' ''ops'' (release_agent 2 ex_member_agent ex_cached)) = Some v" "cv_member_count v = 1"
    using unannounced_release_is_stale by auto
  ultimately show ?thesis by (auto intro: exI [of _ v])
qed

subsection \<open>Subscription channels stay private\<close>

abbreviation sub_channel :: "channel_row \<Rightarrow> bool" where
  "sub_channel c \<equiv> starts_with SUBSCRIPTION_CHANNEL_PREFIX (ch_name c)"

text \<open>
  Interleaved statements. The list holds the states passed through, the latest first; what a caller read, it may have
  read in any of them. \<open>subscribe\<close> and \<open>own\<close> are the two inserts of \<open>ensureAgentSubscriptionChannel\<close>, \<open>admit\<close> the one of
  \<open>insertLiveSubscriptionMember\<close>, \<open>member\<close> the plain insert of a creation, a join or an invitation, \<open>agents\<close> any other
  write of the agents, none of which makes a tombstone, \<open>cached\<close> any write of the cache. Every operation of \<open>channel_run\<close>
  is such a sequence of statements (\<open>run_traced\<close>).
\<close>

inductive channel_trace :: "channel_db \<Rightarrow> channel_db list \<Rightarrow> bool" for db0 where
  start: "channel_trace db0 [db0]"
| subscribe: "channel_trace db0 (db # h) \<Longrightarrow>
    channel_trace db0 (insert_channel (subscription_channel now i ws agentId) db # db # h)"
| own: "channel_trace db0 (db # h) \<Longrightarrow> s \<in> set (db # h) \<Longrightarrow> find_channel s ws (SUBSCRIPTION_CHANNEL_PREFIX @ agentId) = Some c
    \<Longrightarrow> assertSubscriptionRecipient c agentId = None \<Longrightarrow> channel_trace db0 (insert_member_select now (ch_id c) ''owner''
      (\<lambda>a. a_id a = agentId \<and> a_name a = n \<and> a_status a \<noteq> ''released'') db # db # h)"
| create: "channel_trace db0 (db # h) \<Longrightarrow> \<not> sub_channel c \<Longrightarrow> channel_trace db0 (insert_channel c db # db # h)"
| member: "channel_trace db0 (db # h) \<Longrightarrow> s \<in> set (db # h) \<Longrightarrow> c \<in> set (cd_channels s) \<Longrightarrow> \<not> sub_channel c
    \<Longrightarrow> channel_trace db0 (insert_member (member_of now (ch_id c) agentId role) db # db # h)"
| admit: "channel_trace db0 (db # h) \<Longrightarrow> s \<in> set (db # h) \<Longrightarrow> find_channel s ws name = Some c \<Longrightarrow> sub_channel c
    \<Longrightarrow> assertSubscriptionRecipient c agentId = None \<Longrightarrow> channel_trace db0 (insert_member_select now (ch_id c) ''member''
      (\<lambda>a. a_id a = agentId \<and> a_ws a = ws \<and> a_status a \<noteq> ''released'') db # db # h)"
| leave: "channel_trace db0 (db # h) \<Longrightarrow> channel_trace db0 (delete_member c agentId db # db # h)"
| mute: "channel_trace db0 (db # h) \<Longrightarrow> channel_trace db0 (set_muted c agentId muted db # db # h)"
| update: "channel_trace db0 (db # h) \<Longrightarrow> s \<in> set (db # h) \<Longrightarrow> find_channel s ws name = Some c
    \<Longrightarrow> \<not> (starts_with SUBSCRIPTION_CHANNEL_PREFIX name \<and> cu_metadata updates \<noteq> None)
    \<Longrightarrow> channel_trace db0 (update_channel_row (ch_id c) (set_channel updates) db # db # h)"
| archive: "channel_trace db0 (db # h) \<Longrightarrow> channel_trace db0 (update_channel_row c (\<lambda>c. c\<lparr>ch_isArchived := True\<rparr>) db # db # h)"
| release: "channel_trace db0 (db # h) \<Longrightarrow> channel_trace db0 (release_agent now agent db # db # h)"
| agents: "channel_trace db0 (db # h) \<Longrightarrow> distinct (map a_id as) \<Longrightarrow> (\<And>a. a \<in> set as \<Longrightarrow> a_status a = ''released''
      \<Longrightarrow> \<exists>b \<in> set (cd_agents db). a_id b = a_id a \<and> a_status b = ''released'')
    \<Longrightarrow> channel_trace db0 (db\<lparr>cd_agents := as\<rparr> # db # h)"
| cached: "channel_trace db0 (db # h) \<Longrightarrow> channel_trace db0 (db\<lparr>cd_cache := cache\<rparr> # db # h)"

definition recipient_of :: "channel_row \<Rightarrow> string option" where
  "recipient_of c = str_prop (some_list (ch_metadata c)) ''subscription_agent_id''"

definition live_id :: "id \<Rightarrow> channel_db \<Rightarrow> bool" where
  "live_id i db \<longleftrightarrow> (\<forall>a \<in> set (cd_agents db). a_id a = i \<longrightarrow> a_status a \<noteq> ''released'')"

definition sub_ok :: "channel_row \<Rightarrow> bool" where
  "sub_ok c \<longleftrightarrow> (sub_channel c \<longrightarrow> (\<exists>r. recipient_of c = Some r \<and> ch_name c = SUBSCRIPTION_CHANNEL_PREFIX @ r))"

definition member_ok :: "channel_db \<Rightarrow> member_row \<Rightarrow> bool" where
  "member_ok db m \<longleftrightarrow> (\<exists>c \<in> set (cd_channels db). ch_id c = cm_channelId m
     \<and> (sub_channel c \<longrightarrow> ch_name c = SUBSCRIPTION_CHANNEL_PREFIX @ cm_agentId m \<and> live_id (cm_agentId m) db))"

definition private_inv :: "channel_db \<Rightarrow> bool" where
  "private_inv db \<longleftrightarrow> distinct (map ch_id (cd_channels db)) \<and> distinct (map a_id (cd_agents db)) \<and> list_all sub_ok (cd_channels db) \<and> list_all (member_ok db) (cd_members db)"

text \<open>What survives of a channel that was read earlier.\<close>

definition survives :: "channel_db \<Rightarrow> channel_db \<Rightarrow> bool" where
  "survives s db \<longleftrightarrow> (\<forall>c \<in> set (cd_channels s). \<exists>d \<in> set (cd_channels db). ch_id d = ch_id c \<and> ch_name d = ch_name c)"

lemma survives_refl [simp]: "survives s s"
  by (auto simp: survives_def)

lemma survives_trans: "survives a b \<Longrightarrow> survives b c \<Longrightarrow> survives a c"
  unfolding survives_def by metis

lemma prefix_name [simp]: "starts_with SUBSCRIPTION_CHANNEL_PREFIX (SUBSCRIPTION_CHANNEL_PREFIX @ x)"
  by simp

lemma member_ok_mono:
  assumes "member_ok db m" "set (cd_channels db) \<subseteq> set (cd_channels db')" "live_id (cm_agentId m) db \<Longrightarrow> live_id (cm_agentId m) db'"
  shows "member_ok db' m"
  using assms unfolding member_ok_def by blast

lemma private_insert_channel:
  assumes "private_inv db" "sub_ok c"
  shows "private_inv (insert_channel c db) \<and> survives db (insert_channel c db)"
proof (cases "insert_channel c db = db")
  case False
  then have eq: "insert_channel c db = db\<lparr>cd_channels := cd_channels db @ [c]\<rparr>" "ch_id c \<notin> ch_id ` set (cd_channels db)"
    by (auto simp: insert_channel_def list_ex_iff split: if_splits)
  have "member_ok (db\<lparr>cd_channels := cd_channels db @ [c]\<rparr>) m" if "m \<in> set (cd_members db)" for m
    by (rule member_ok_mono [of db]) (use assms(1) that in \<open>auto simp: private_inv_def list_all_iff live_id_def\<close>)
  then show ?thesis using assms eq by (auto simp: private_inv_def survives_def list_all_iff)
qed (use assms in simp)

lemma private_members:
  assumes "private_inv db" "db' = db\<lparr>cd_members := ms\<rparr>" "\<And>m. m \<in> set ms \<Longrightarrow> member_ok db m"
  shows "private_inv db' \<and> survives db db'"
proof -
  have "member_ok db' m" if "m \<in> set ms" for m
    using assms(3) [OF that] by (simp add: assms(2) member_ok_def live_id_def)
  then show ?thesis using assms(1,2) by (auto simp: private_inv_def survives_def list_all_iff)
qed

lemma member_ok_cong: "cm_channelId m = cm_channelId m' \<Longrightarrow> cm_agentId m = cm_agentId m' \<Longrightarrow> member_ok db m = member_ok db m'"
  by (simp add: member_ok_def)

text \<open>A new member of the channel that was read in an earlier state.\<close>

lemma member_ok_new:
  assumes "survives s db" "c \<in> set (cd_channels s)" "cm_channelId m = ch_id c"
    and "sub_channel c \<Longrightarrow> ch_name c = SUBSCRIPTION_CHANNEL_PREFIX @ cm_agentId m \<and> live_id (cm_agentId m) db"
  shows "member_ok db m"
  using assms unfolding survives_def member_ok_def by metis

lemma private_select:
  assumes "private_inv db" "survives s db" "private_inv s" "c \<in> set (cd_channels s)" "sub_channel c"
    "assertSubscriptionRecipient c agentId = None" "\<And>a. P a \<Longrightarrow> a_id a = agentId \<and> a_status a \<noteq> ''released''"
  shows "private_inv (insert_member_select now (ch_id c) role P db) \<and> survives db (insert_member_select now (ch_id c) role P db)"
proof -
  obtain new where new: "insert_member_select now (ch_id c) role P db = db\<lparr>cd_members := cd_members db @ new\<rparr>"
    "\<And>m. m \<in> set new \<Longrightarrow> cm_channelId m = ch_id c \<and> (\<exists>a \<in> set (cd_agents db). P a \<and> cm_agentId m = a_id a)"
    using insert_member_select_shape [of now "ch_id c" role P db] by metis
  have name: "ch_name c = SUBSCRIPTION_CHANNEL_PREFIX @ agentId"
    using assms(3-6) by (auto simp: private_inv_def list_all_iff sub_ok_def recipient_of_def assertSubscriptionRecipient_def
        split: option.splits if_splits)
  have "member_ok db m" if m: "m \<in> set new" for m
  proof (rule member_ok_new [OF assms(2,4)])
    obtain a where a: "a \<in> set (cd_agents db)" "P a" "cm_agentId m = a_id a" using new(2) [OF m] by blast
    have "live_id (a_id a) db" using a(1) assms(1) assms(7) [OF a(2)] by (auto simp: live_id_def private_inv_def distinct_map inj_on_def)
    then show "ch_name c = SUBSCRIPTION_CHANNEL_PREFIX @ cm_agentId m \<and> live_id (cm_agentId m) db" using name a assms(7) by auto
  qed (use new(2) m in blast)
  then show ?thesis using assms(1) by (intro private_members [OF assms(1) new(1)]) (auto simp: private_inv_def list_all_iff)
qed

lemma private_update:
  assumes "private_inv db" "\<And>c. ch_id (f c) = ch_id c" "\<And>c. ch_name (f c) = ch_name c"
    "\<And>c. c \<in> set (cd_channels db) \<Longrightarrow> ch_id c = i \<Longrightarrow> sub_ok c \<Longrightarrow> sub_ok (f c)"
  shows "private_inv (update_channel_row i f db) \<and> survives db (update_channel_row i f db)"
proof -
  let ?db = "update_channel_row i f db"
  have ex: "\<exists>d \<in> set (cd_channels ?db). ch_id d = ch_id c \<and> ch_name d = ch_name c" if "c \<in> set (cd_channels db)" for c
  proof (cases "ch_id c = i")
    case True
    then have "f c \<in> set (cd_channels ?db)" using that by (auto simp: update_channel_row_def set_upd_where)
    then show ?thesis using assms(2,3) by blast
  next
    case False
    then have "c \<in> set (cd_channels ?db)" using that by (auto simp: update_channel_row_def set_upd_where)
    then show ?thesis by blast
  qed
  then have "survives db ?db" by (auto simp: survives_def)
  moreover have "member_ok ?db m" if "m \<in> set (cd_members db)" for m
  proof -
    have "member_ok db m" using assms(1) that by (simp add: private_inv_def list_all_iff)
    moreover have "live_id x ?db = live_id x db" for x by (simp add: live_id_def update_channel_row_def)
    ultimately show ?thesis using ex unfolding member_ok_def by metis
  qed
  moreover have "sub_ok c" if "c \<in> set (cd_channels ?db)" for c
    using that assms(1,4) by (auto simp: update_channel_row_def private_inv_def list_all_iff elim!: in_upd_whereE)
  moreover have "map ch_id (cd_channels ?db) = map ch_id (cd_channels db)"
    by (simp add: update_channel_row_def map_upd_where assms(2))
  ultimately show ?thesis using assms(1) by (auto simp: private_inv_def list_all_iff update_channel_row_def)
qed

lemma private_agents:
  assumes "private_inv db" "db' = db\<lparr>cd_agents := as, cd_members := filter P (cd_members db)\<rparr>" "distinct (map a_id as)"
    "\<And>m. m \<in> set (cd_members db) \<Longrightarrow> P m \<Longrightarrow> live_id (cm_agentId m) db \<Longrightarrow> live_id (cm_agentId m) db'"
  shows "private_inv db' \<and> survives db db'"
proof -
  have "member_ok db' m" if "m \<in> set (cd_members db)" "P m" for m
    by (rule member_ok_mono [of db]) (use assms that in \<open>auto simp: private_inv_def list_all_iff\<close>)
  then show ?thesis using assms(1-3) by (auto simp: private_inv_def survives_def list_all_iff)
qed

definition trace_ok :: "channel_db list \<Rightarrow> bool" where
  "trace_ok h \<longleftrightarrow> (\<forall>s \<in> set h. private_inv s \<and> survives s (hd h))"

lemma trace_okI: "trace_ok (db # h) \<Longrightarrow> private_inv db' \<and> survives db db' \<Longrightarrow> trace_ok (db' # db # h)"
  unfolding trace_ok_def by (auto intro: survives_trans)

lemma survivor_name:
  assumes "trace_ok (db # h)" "s \<in> set (db # h)" "c \<in> set (cd_channels s)" "d \<in> set (cd_channels db)" "ch_id d = ch_id c"
  shows "ch_name d = ch_name c"
proof -
  have "survives s db" "private_inv db" using assms(1,2) by (auto simp: trace_ok_def)
  then obtain e where "e \<in> set (cd_channels db)" "ch_id e = ch_id c" "ch_name e = ch_name c" using assms(3) by (auto simp: survives_def)
  moreover have "e = d" using calculation assms(4,5) \<open>private_inv db\<close> by (auto simp: private_inv_def distinct_map inj_on_def)
  ultimately show ?thesis by simp
qed

lemma trace_ok_run: "channel_trace db0 h \<Longrightarrow> private_inv db0 \<Longrightarrow> trace_ok h"
proof (induction rule: channel_trace.induct)
  case (subscribe db h now i ws agentId)
  then have ok: "trace_ok (db # h)" by simp
  have "sub_ok (subscription_channel now i ws agentId)"
    by (simp add: sub_ok_def subscription_channel_def recipient_of_def str_prop_def some_list_def)
  then show ?case using private_insert_channel ok by (intro trace_okI [OF ok]) (simp add: trace_ok_def)
next
  case (own db h s ws agentId c now n)
  then have ok: "trace_ok (db # h)" by simp
  have "c \<in> set (cd_channels s)" "sub_channel c" using find_channel_Some [OF own.hyps(3)] by auto
  then show ?case using ok own.hyps by (intro trace_okI [OF ok] private_select [of db s]) (auto simp: trace_ok_def)
next
  case (create db h c)
  then have ok: "trace_ok (db # h)" by simp
  have "sub_ok c" using create.hyps by (simp add: sub_ok_def)
  then show ?case using private_insert_channel ok by (intro trace_okI [OF ok]) (simp add: trace_ok_def)
next
  case (member db h s c now agentId role)
  then have ok: "trace_ok (db # h)" by simp
  then have inv: "private_inv db" "survives s db" using member.hyps by (auto simp: trace_ok_def)
  let ?m = "member_of now (ch_id c) agentId role"
  have new: "member_ok db ?m" by (rule member_ok_new [OF inv(2) member.hyps(3)]) (use member.hyps in \<open>auto simp: member_of_def\<close>)
  have "private_inv (insert_member ?m db) \<and> survives db (insert_member ?m db)"
  proof (cases "insert_member ?m db = db")
    case False
    then have "insert_member ?m db = db\<lparr>cd_members := cd_members db @ [?m]\<rparr>" by (simp add: insert_member_def split: if_splits)
    then show ?thesis using new inv(1) by (intro private_members [OF inv(1)]) (auto simp: private_inv_def list_all_iff)
  qed (simp add: inv(1))
  then show ?case by (rule trace_okI [OF ok])
next
  case (admit db h s ws name c agentId now)
  then have ok: "trace_ok (db # h)" by simp
  have "c \<in> set (cd_channels s)" using find_channel_Some [OF admit.hyps(3)] by auto
  then show ?case using ok admit.hyps by (intro trace_okI [OF ok] private_select [of db s]) (auto simp: trace_ok_def)
next
  case (leave db h c agentId)
  then have ok: "trace_ok (db # h)" by simp
  then have inv: "private_inv db" by (simp add: trace_ok_def)
  show ?case using inv
    by (intro trace_okI [OF ok] private_members [OF inv]) (auto simp: delete_member_def private_inv_def list_all_iff)
next
  case (mute db h c agentId muted)
  then have ok: "trace_ok (db # h)" by simp
  then have inv: "private_inv db" by (simp add: trace_ok_def)
  have "member_ok db m" if "m \<in> set (upd_where (\<lambda>m. cm_channelId m = c \<and> cm_agentId m = agentId) (\<lambda>m. m\<lparr>cm_isMuted := muted\<rparr>) (cd_members db))" for m
    using that inv by (auto simp: private_inv_def list_all_iff elim!: in_upd_whereE intro: member_ok_cong [THEN iffD1, rotated 2])
  then show ?case by (intro trace_okI [OF ok] private_members [OF inv]) (auto simp: set_muted_def)
next
  case (update db h s ws name c updates)
  then have ok: "trace_ok (db # h)" by simp
  then have inv: "private_inv db" by (simp add: trace_ok_def)
  have c: "c \<in> set (cd_channels s)" "ch_name c = name" using find_channel_Some [OF update.hyps(3)] by auto
  have "sub_ok (set_channel updates d)" if "d \<in> set (cd_channels db)" "ch_id d = ch_id c" "sub_ok d" for d
    using survivor_name [OF ok update.hyps(2) c(1) that(1,2)] c(2) that(3) update.hyps(4)
    by (auto simp: sub_ok_def set_channel_def recipient_of_def)
  then show ?case by (intro trace_okI [OF ok] private_update [OF inv]) (auto simp: set_channel_def)
next
  case (archive db h c)
  then have ok: "trace_ok (db # h)" by simp
  then have inv: "private_inv db" by (simp add: trace_ok_def)
  show ?case by (intro trace_okI [OF ok] private_update [OF inv]) (auto simp: sub_ok_def recipient_of_def)
next
  case (release db h now agent)
  then have ok: "trace_ok (db # h)" by simp
  then have inv: "private_inv db" by (simp add: trace_ok_def)
  show ?case using inv
    by (intro trace_okI [OF ok] private_agents [OF inv release_agent_def])
      (auto simp: live_id_def map_upd_where private_inv_def release_agent_def elim!: in_upd_whereE)
next
  case (agents db h as)
  then have ok: "trace_ok (db # h)" by simp
  then have inv: "private_inv db" by (simp add: trace_ok_def)
  have "db\<lparr>cd_agents := as\<rparr> = db\<lparr>cd_agents := as, cd_members := filter (\<lambda>_. True) (cd_members db)\<rparr>" by simp
  from private_agents [OF inv this agents.hyps(2)] show ?case
    using agents.hyps(3) by (intro trace_okI [OF ok]) (fastforce simp: live_id_def)
next
  case (cached db h cache)
  then have ok: "trace_ok (db # h)" by simp
  then have inv: "private_inv db" by (simp add: trace_ok_def)
  have "private_inv (db\<lparr>cd_cache := cache\<rparr>)" using inv by (simp add: private_inv_def member_ok_def live_id_def list_all_iff)
  then show ?case by (intro trace_okI [OF ok]) (auto simp: survives_def)
qed (simp add: trace_ok_def)

text \<open>The operations as sequences of statements.\<close>

definition traced :: "channel_db \<Rightarrow> channel_db \<Rightarrow> bool" where
  "traced db0 db \<longleftrightarrow> (\<exists>h. channel_trace db0 (db # h))"

lemma tracedI:
  "traced db0 db \<Longrightarrow> (\<And>h. channel_trace db0 (db # h) \<Longrightarrow> channel_trace db0 (db' # db # h)) \<Longrightarrow> traced db0 db'"
  unfolding traced_def by blast

lemma traced_cache:
  assumes "traced db0 db" "cd_channels db' = cd_channels db" "cd_members db' = cd_members db" "cd_agents db' = cd_agents db"
  shows "traced db0 db'"
proof -
  have "db' = db\<lparr>cd_cache := cd_cache db'\<rparr>" using assms(2-4) by simp
  then show ?thesis using assms(1) channel_trace.cached [of db0 db _ "cd_cache db'"] unfolding traced_def by metis
qed

lemma traced_steps:
  assumes "traced db0 db"
  shows "traced db0 (insert_channel (subscription_channel now i ws agentId) db)"
    "find_channel db ws (SUBSCRIPTION_CHANNEL_PREFIX @ agentId) = Some c \<Longrightarrow> assertSubscriptionRecipient c agentId = None
      \<Longrightarrow> traced db0 (insert_member_select now (ch_id c) ''owner'' (\<lambda>a. a_id a = agentId \<and> a_name a = n \<and> a_status a \<noteq> ''released'') db)"
    "\<not> sub_channel c \<Longrightarrow> traced db0 (insert_channel c db)"
    "c \<in> set (cd_channels db) \<Longrightarrow> \<not> sub_channel c \<Longrightarrow> traced db0 (insert_member (member_of now (ch_id c) agentId role) db)"
    "find_channel db ws name = Some c \<Longrightarrow> sub_channel c \<Longrightarrow> assertSubscriptionRecipient c agentId = None
      \<Longrightarrow> traced db0 (insert_member_select now (ch_id c) ''member'' (\<lambda>a. a_id a = agentId \<and> a_ws a = ws \<and> a_status a \<noteq> ''released'') db)"
    "traced db0 (delete_member k agentId db)" "traced db0 (set_muted k agentId muted db)"
    "find_channel db ws name = Some c \<Longrightarrow> \<not> (starts_with SUBSCRIPTION_CHANNEL_PREFIX name \<and> cu_metadata updates \<noteq> None)
      \<Longrightarrow> traced db0 (update_channel_row (ch_id c) (set_channel updates) db)"
    "traced db0 (update_channel_row k (\<lambda>c. c\<lparr>ch_isArchived := True\<rparr>) db)" "traced db0 (release_agent now agent db)"
  by (rule tracedI [OF assms], blast intro: channel_trace.intros list.set_intros(1))+

lemma traced_read: "traced db0 db \<Longrightarrow> traced db0 (snd (getChannel now ws name db))"
  by (erule traced_cache) (simp_all add: getChannel_def getCachedChannel_def setCachedChannel_def Let_def split: option.splits prod.splits if_splits)

lemma traced_invalidate: "traced db0 db \<Longrightarrow> traced db0 (invalidateChannelCache ws name db)"
  by (erule traced_cache) (simp_all add: invalidate_cache)

lemma traced_invalidate_all: "traced db0 db \<Longrightarrow> traced db0 (fold (invalidateChannelCache ws) names db)"
  by (erule traced_cache) (simp_all add: fold_invalidate)

lemma traced_add:
  assumes "traced db0 db" "find_channel db ws name = Some c" "assertSubscriptionRecipient c agentId = None" "membership db (ch_id c) agentId = None"
  shows "traced db0 (snd (add_member now ws c agentId db))"
proof (cases "sub_channel c")
  case True
  then show ?thesis using traced_steps(5) [OF assms(1,2) True assms(3)] by (simp add: add_member_def insertLiveSubscriptionMember_def Let_def)
next
  case False
  have "c \<in> set (cd_channels db)" using find_channel_Some [OF assms(2)] by simp
  from traced_steps(4) [OF assms(1) this False, of "toSec now" agentId "''member''"] show ?thesis
    using False assms(4) by (simp add: add_member_def insert_member_def member_of_def)
qed

text \<open>Each operation of a run.\<close>

lemma traced_join:
  assumes "traced db0 db"
  shows "traced db0 (snd (joinChannel now ws name agentId db))"
proof (cases "find_channel db ws name")
  case (Some c)
  show ?thesis
  proof (cases "ch_isArchived c \<or> assertSubscriptionRecipient c agentId \<noteq> None \<or> membership db (ch_id c) agentId \<noteq> None")
    case False
    then have "traced db0 (snd (add_member now ws c agentId db))" using traced_add [OF assms Some] by simp
    then show ?thesis
      using False Some by (auto simp: joinChannel_def intro: traced_invalidate split: prod.splits option.splits)
  qed (use assms Some in \<open>auto simp: joinChannel_def split: option.splits\<close>)
qed (simp add: joinChannel_def assms)

lemma traced_invite:
  assumes "traced db0 db"
  shows "traced db0 (snd (inviteAgent now ws name inviter invitee db))"
proof (cases "find_channel db ws name")
  case (Some c)
  show ?thesis
  proof (cases "first_row (filter (\<lambda>a. a_ws a = ws \<and> a_name a = invitee) (cd_agents db))")
    case found: (Some a)
    show ?thesis
    proof (cases "assertSubscriptionRecipient c (a_id a) \<noteq> None \<or> membership db (ch_id c) (a_id a) \<noteq> None")
      case False
      then have "traced db0 (snd (add_member now ws c (a_id a) db))" using traced_add [OF assms Some] by simp
      then show ?thesis
        using False Some found assms by (auto simp: inviteAgent_def intro: traced_invalidate split: prod.splits option.splits)
    qed (use assms Some found in \<open>auto simp: inviteAgent_def split: option.splits\<close>)
  qed (use assms Some in \<open>simp add: inviteAgent_def\<close>)
qed (simp add: inviteAgent_def assms)

lemma traced_create:
  assumes "traced db0 db" "fresh_channel i db"
  shows "traced db0 (snd (createChannel now i ws data creator db))"
proof (cases "starts_with SUBSCRIPTION_CHANNEL_PREFIX (cc_name data) \<or> \<not> valid_channel_name (cc_name data) \<or> find_channel db ws (cc_name data) \<noteq> None")
  case False
  define c where "c = \<lparr>ch_id = i, ch_ws = ws, ch_name = cc_name data, ch_channelType = 0, ch_topic = cc_topic data,
     ch_metadata = Some (some_list (cc_metadata data)), ch_createdBy = creator, ch_createdAt = toSec now, ch_isArchived = False\<rparr>"
  have sub: "\<not> sub_channel c" using False by (simp add: c_def)
  have "insert_channel c db = db\<lparr>cd_channels := cd_channels db @ [c]\<rparr>"
    using assms(2) False by (auto simp: insert_channel_def c_def fresh_channel_def list_ex_iff find_channel_def first_row_None filter_empty_conv image_iff)
  then have 1: "traced db0 (db\<lparr>cd_channels := cd_channels db @ [c]\<rparr>)" using traced_steps(3) [OF assms(1) sub] by simp
  have "traced db0 (insert_member (member_of (toSec now) (ch_id c) a ''owner'') (db\<lparr>cd_channels := cd_channels db @ [c]\<rparr>))" for a
    by (rule traced_steps(4) [OF 1 _ sub]) simp
  moreover have "membership (db\<lparr>cd_channels := cd_channels db @ [c]\<rparr>) i a = None" for a
    using assms(2) by (auto simp: membership_def fresh_channel_def first_row_None filter_empty_conv image_iff)
  ultimately have 2: "traced db0 (db\<lparr>cd_channels := cd_channels db @ [c], cd_members := cd_members db @ [member_of (toSec now) i a ''owner'']\<rparr>)" for a
    by (simp add: insert_member_def member_of_def c_def)
  show ?thesis using False 1 2 by (auto simp: createChannel_def Let_def c_def split: option.split)
qed (use assms in \<open>auto simp: createChannel_def\<close>)

lemma traced_update:
  assumes "traced db0 db"
  shows "traced db0 (snd (updateChannel now ws name updates db))"
proof (cases "find_channel db ws name")
  case (Some c)
  have "traced db0 (snd (getChannel now ws name db))" by (rule traced_read [OF assms])
  moreover have "traced db0 (invalidateChannelCache ws name (update_channel_row (ch_id c) (set_channel updates) db))"
    if "\<not> (starts_with SUBSCRIPTION_CHANNEL_PREFIX name \<and> cu_metadata updates \<noteq> None)"
    by (intro traced_invalidate traced_steps(8) [OF assms Some that])
  ultimately show ?thesis using assms Some by (auto simp: updateChannel_def Let_def split: prod.splits)
qed (simp add: updateChannel_def assms)

lemma traced_ensure:
  assumes "traced db0 db"
  shows "traced db0 (snd (ensureAgentSubscriptionChannel now i ws agentName db))"
proof (cases "first_row (filter (\<lambda>a. a_ws a = ws \<and> a_name a = agentName) (cd_agents db))")
  case (Some agent)
  let ?name = "SUBSCRIPTION_CHANNEL_PREFIX @ a_id agent" and ?live = "\<lambda>a. a_id a = a_id agent \<and> a_name a = agentName \<and> a_status a \<noteq> ''released''"
  define db1 where "db1 = insert_channel (subscription_channel (toSec now) i ws (a_id agent)) db"
  have 1: "traced db0 db1" unfolding db1_def by (rule traced_steps(1) [OF assms])
  show ?thesis
  proof (cases "find_channel db1 ws ?name")
    case found: (Some c)
    have 2: "traced db0 (insert_member_select (toSec now) (ch_id c) ''owner'' ?live db1)"
      if "assertSubscriptionRecipient c (a_id agent) = None" by (rule traced_steps(2) [OF 1 found that])
    then have "traced db0 (snd (getChannel now ws ?name (invalidateChannelCache ws ?name
        (insert_member_select (toSec now) (ch_id c) ''owner'' ?live db1))))"
      if "assertSubscriptionRecipient c (a_id agent) = None" using that by (intro traced_read traced_invalidate)
    then show ?thesis using 1 2 assms found
      by (auto simp: ensureAgentSubscriptionChannel_def Some Let_def db1_def [symmetric] split: option.splits prod.splits)
  qed (use 1 assms in \<open>simp add: ensureAgentSubscriptionChannel_def Some Let_def db1_def\<close>)
qed (simp add: ensureAgentSubscriptionChannel_def assms)

lemma run_traced: "channel_run db0 db \<Longrightarrow> traced db0 db"
proof (induction rule: channel_run.induct)
  case start
  then show ?case unfolding traced_def using channel_trace.start by blast
next
  case (release db ws now name)
  then show ?case
    unfolding deleteAgent_def Let_def by (auto intro!: traced_invalidate_all traced_steps(10) split: option.split)
qed (auto simp: leaveChannel_def archiveChannel_def muteChannel_def unmuteChannel_def change_mute_def Let_def
    intro: traced_read traced_invalidate traced_steps(6,7,9) traced_join traced_invite traced_create traced_update traced_ensure
    split: option.splits)

text \<open>C6: In any interleaving of the statements of creations, joins, invitations, subscriptions, updates, mutes, leaves
  and releases, where every decision rests on rows read at any earlier moment, and so after any sequence of these
  operations, the channel \<open>agent-events-<id>\<close> never has
  a member other than the agent <id>, and never has that agent as a member once it is released.\<close>
theorem subscription_channels_stay_private:
  assumes "private_inv db0" "channel_trace db0 h \<and> db \<in> set h \<or> channel_run db0 db"
    and "c \<in> set (cd_channels db)" "sub_channel c" "m \<in> set (cd_members db)" "cm_channelId m = ch_id c"
  shows "ch_name c = SUBSCRIPTION_CHANNEL_PREFIX @ cm_agentId m
    \<and> (\<nexists>a. a \<in> set (cd_agents db) \<and> a_id a = cm_agentId m \<and> a_status a = ''released'')"
proof -
  obtain h' where h': "channel_trace db0 h'" "db \<in> set h'"
    using assms(2) run_traced [of db0 db] unfolding traced_def by (metis list.set_intros(1))
  have inv: "private_inv db" using trace_ok_run [OF h'(1) assms(1)] h'(2) by (simp add: trace_ok_def)
  then obtain d where d: "d \<in> set (cd_channels db)" "ch_id d = cm_channelId m"
      "sub_channel d \<longrightarrow> ch_name d = SUBSCRIPTION_CHANNEL_PREFIX @ cm_agentId m \<and> live_id (cm_agentId m) db"
    using assms(5) by (auto simp: private_inv_def list_all_iff member_ok_def)
  moreover have "d = c" using d(1,2) assms(3,6) inv by (auto simp: private_inv_def distinct_map inj_on_def)
  ultimately show ?thesis using assms(4) by (auto simp: live_id_def)
qed
definition ex_route :: channel_row where
  "ex_route = subscription_channel 1 ''c1'' ''w'' ''a1''"

definition ex_owned :: channel_db where
  "ex_owned = insert_member_select 1 ''c1'' ''owner'' (\<lambda>a. a_id a = ''a1'' \<and> a_name a = ''bob'' \<and> a_status a \<noteq> ''released'')
     (insert_channel ex_route ex_channels)"

lemma subscription_channels_stay_private_witness:
  "\<exists>m. m \<in> set (cd_members ex_owned) \<and> ch_name ex_route = SUBSCRIPTION_CHANNEL_PREFIX @ cm_agentId m"
proof -
  let ?db1 = "insert_channel ex_route ex_channels"
  have start: "private_inv ex_channels" by (simp add: private_inv_def ex_channels_def)
  have 1: "channel_trace ex_channels [?db1, ex_channels]" unfolding ex_route_def by (intro channel_trace.subscribe channel_trace.start)
  have found: "find_channel ?db1 ''w'' (SUBSCRIPTION_CHANNEL_PREFIX @ ''a1'') = Some ex_route"
    by (simp add: find_channel_def insert_channel_def ex_channels_def ex_route_def subscription_channel_def)
  have "assertSubscriptionRecipient ex_route ''a1'' = None"
    by (simp add: assertSubscriptionRecipient_def ex_route_def subscription_channel_def some_list_def str_prop_def)
  from channel_trace.own [OF 1 _ found this, of 1 "''bob''"] have 2: "channel_trace ex_channels [ex_owned, ?db1, ex_channels]"
    by (simp add: ex_owned_def ex_route_def subscription_channel_def)
  let ?m = "member_of 1 ''c1'' ''a1'' ''owner''"
  have tabs: "cd_channels ex_owned = [ex_route]" "cd_members ex_owned = [?m]"
    by (simp_all add: ex_owned_def insert_member_select_def insert_channel_def ex_channels_def ex_member_agent_def insert_member_def
        membership_def member_of_def)
  have "ch_name ex_route = SUBSCRIPTION_CHANNEL_PREFIX @ cm_agentId ?m"
    using subscription_channels_stay_private [OF start disjI1 [OF conjI [OF 2]], of ex_owned ex_route ?m]
    by (simp add: tabs member_of_def ex_route_def subscription_channel_def)
  then show ?thesis using tabs(2) by (intro exI [of _ ?m]) simp
qed

end
