(* ===== verification/ObserverTokens.thy ===== *)
theory ObserverTokens
  imports JsString
begin

text \<open>
  Observer tokens (\<open>engine/observerToken.ts\<close>, table \<open>observer_tokens\<close>, scopes in \<open>src/packages/types/src/workspace.ts\<close>):
  read-only credentials of a workspace with scopes and filters. This theory holds the table and its operations, and the
  walk along the causes of an error by which a violated unique index becomes a 409. Parsing an ISO time (\<open>date\<close>), the
  digest of a token (\<open>sha\<close>) and the error object that the database driver throws for a violated index (\<open>driver\<close>) are
  arguments. \<open>name_conflict_exact\<close>: the walk ends on every error graph, cyclic ones included, and finds a matching
  error exactly when one is on the chain. \<open>dead_token_stays_dead\<close>: a token that was revoked or rotated away never
  authenticates again, whatever operations follow.
\<close>

subsection \<open>Scopes and filters\<close>

definition OBSERVER_SCOPES :: "string list" where
  "OBSERVER_SCOPES = [''stream:read'', ''messages:read'', ''threads:read'', ''dms:read'', ''channels:read'', ''search:read'',
     ''agents:read'', ''nodes:read'', ''deliveries:read'', ''activity:read'', ''files:read'', ''reactions:read'']"

record observer_filters =
  of_channel_ids :: "string list option"
  of_channel_names :: "string list option"
  of_include_dms :: "bool option"
  of_dm_conversation_ids :: "string list option"
  of_agent_ids :: "string list option"
  of_event_types :: "string list option"
  of_created_after :: "string option"

definition no_filters :: observer_filters where
  "no_filters = \<lparr>of_channel_ids = None, of_channel_names = None, of_include_dms = None, of_dm_conversation_ids = None,
     of_agent_ids = None, of_event_types = None, of_created_after = None\<rparr>"

text \<open>\<open>...(xs?.length ? {key: [...new Set(xs)]} : {})\<close>\<close>

definition nonempty_list :: "string list option \<Rightarrow> string list option" where
  "nonempty_list xs = (case xs of None \<Rightarrow> None | Some l \<Rightarrow> if l = [] then None else Some (uniq l))"

definition normalizeObserverFilters :: "observer_filters option \<Rightarrow> observer_filters" where
  "normalizeObserverFilters fs =
     (let f = (case fs of None \<Rightarrow> no_filters | Some f \<Rightarrow> f)
      in \<lparr>of_channel_ids = nonempty_list (of_channel_ids f), of_channel_names = nonempty_list (of_channel_names f),
          of_include_dms = Some (of_include_dms f = Some True),
          of_dm_conversation_ids = nonempty_list (of_dm_conversation_ids f),
          of_agent_ids = nonempty_list (of_agent_ids f), of_event_types = nonempty_list (of_event_types f),
          of_created_after = truthy (of_created_after f)\<rparr>)"

lemma nonempty_list_idem [simp]: "nonempty_list (nonempty_list xs) = nonempty_list xs"
proof (cases xs)
  case (Some l)
  then show ?thesis by (cases l) (simp_all add: nonempty_list_def uniq_distinct del: uniq.simps, simp)
qed (simp add: nonempty_list_def)

lemma truthy_idem [simp]: "truthy (truthy x) = truthy x"
  by (simp add: truthy_def split: option.splits list.splits)

lemma normalize_idem: "normalizeObserverFilters (Some (normalizeObserverFilters f)) = normalizeObserverFilters f"
  by (simp add: normalizeObserverFilters_def Let_def)

definition normalizeScopes :: "string list \<Rightarrow> coded + string list" where
  "normalizeScopes scopes =
     (let unique = uniq scopes; invalid = filter (\<lambda>s. s \<notin> set OBSERVER_SCOPES) unique
      in if length invalid > 0 then Inl (codedError ''invalid_request'' 400)
         else if length unique = 0 then Inl (codedError ''invalid_request'' 400) else Inr unique)"

definition publicScopes :: "string list option \<Rightarrow> string list" where
  "publicScopes scopes =
     (let unique = uniq (case scopes of None \<Rightarrow> [] | Some s \<Rightarrow> s) in filter (\<lambda>s. s \<in> set OBSERVER_SCOPES) unique)"

lemma normalizeScopes_public: "normalizeScopes scopes = Inr out \<Longrightarrow> publicScopes (Some out) = out \<and> out \<noteq> []"
  by (auto simp: normalizeScopes_def publicScopes_def Let_def uniq_distinct filter_empty_conv filter_id_conv split: if_splits)

definition parseExpiresAt :: "(string \<Rightarrow> ms option) \<Rightarrow> ms \<Rightarrow> string option \<Rightarrow> coded + ms option" where
  "parseExpiresAt date now v =
     (case v of None \<Rightarrow> Inr None
      | Some s \<Rightarrow> (case date s of
          None \<Rightarrow> Inl (codedError ''invalid_request'' 400)
        | Some t \<Rightarrow> if t \<le> now then Inl (codedError ''invalid_request'' 400) else Inr (Some t)))"

subsection \<open>Recognising a violated unique index\<close>

text \<open>The error objects that exist are a list, a cause is an index into it or something that is not an object.\<close>

datatype err_ref = NotObject | Obj nat

record err_object =
  e_code :: "string option"
  e_message :: "string option"
  e_cause :: err_ref

fun has_substring :: "string \<Rightarrow> string \<Rightarrow> bool" where
  "has_substring s t = (starts_with t s \<or> (case s of [] \<Rightarrow> False | _ # r \<Rightarrow> has_substring r t))"

declare has_substring.simps [simp del]

definition unique_violation :: "err_object \<Rightarrow> bool" where
  "unique_violation candidate \<longleftrightarrow>
     (let message = (case e_message candidate of None \<Rightarrow> [] | Some t \<Rightarrow> t); lowerMessage = toLowerCase message;
          isNameIndexMessage = (has_substring message ''observer_tokens_workspace_name_unique''
            \<or> has_substring message ''observer_tokens.workspace_id, observer_tokens.name'');
          isGenericUniqueViolation = (e_code candidate = Some ''SQLITE_CONSTRAINT_UNIQUE''
            \<or> has_substring lowerMessage ''unique constraint failed''
            \<or> (e_code candidate = Some ''SQLITE_CONSTRAINT'' \<and> has_substring lowerMessage ''unique''))
      in isNameIndexMessage \<or> isGenericUniqueViolation)"

function conflict_walk :: "err_object list \<Rightarrow> nat list \<Rightarrow> err_ref \<Rightarrow> bool" where
  "conflict_walk heap visited NotObject = False"
| "conflict_walk heap visited (Obj i) =
     (if length heap \<le> i then False else if i \<in> set visited then False
      else if unique_violation (heap ! i) then True else conflict_walk heap (i # visited) (e_cause (heap ! i)))"
  by pat_completeness auto

termination
proof (relation "measure (\<lambda>(heap, visited, r). card ({..<length heap} - set visited))")
  fix heap :: "err_object list" and visited i
  assume i: "\<not> length heap \<le> i" "i \<notin> set visited"
  have "card ({..<length heap} - set (i # visited)) < card ({..<length heap} - set visited)"
  proof (rule psubset_card_mono)
    have "i \<in> {..<length heap} - set visited" "i \<notin> {..<length heap} - set (i # visited)" using i by simp_all
    moreover have "{..<length heap} - set (i # visited) \<subseteq> {..<length heap} - set visited" by (simp add: subset_iff)
    ultimately show "{..<length heap} - set (i # visited) \<subset> {..<length heap} - set visited" by blast
  qed simp
  then show "((heap, i # visited, e_cause (heap ! i)), heap, visited, Obj i)
      \<in> measure (\<lambda>(heap, visited, r). card ({..<length heap} - set visited))" by simp
qed simp

definition isObserverTokenNameConflict :: "err_object list \<Rightarrow> err_ref \<Rightarrow> bool" where
  "isObserverTokenNameConflict heap err = conflict_walk heap [] err"

text \<open>The objects on the chain of causes of an error.\<close>

inductive caused_by :: "err_object list \<Rightarrow> err_ref \<Rightarrow> nat \<Rightarrow> bool" for heap where
  here: "i < length heap \<Longrightarrow> caused_by heap (Obj i) i"
| cause: "i < length heap \<Longrightarrow> caused_by heap (e_cause (heap ! i)) j \<Longrightarrow> caused_by heap (Obj i) j"

inductive_simps caused_by_simps: "caused_by heap NotObject j" "caused_by heap (Obj i) j"

lemma caused_by_closed:
  assumes "caused_by heap r j" "r \<in> Obj ` V" "\<And>v. v \<in> V \<Longrightarrow> v < length heap \<Longrightarrow>
     e_cause (heap ! v) \<in> Obj ` V \<or> e_cause (heap ! v) = NotObject"
  shows "j \<in> V"
  using assms(1,2)
proof (induction rule: caused_by.induct)
  case (cause i j)
  then have "e_cause (heap ! i) \<in> Obj ` V \<or> e_cause (heap ! i) = NotObject" using assms(3) by blast
  then show ?case using cause by (auto simp: caused_by_simps)
qed auto

lemma conflict_walk_exact:
  assumes "\<forall>v \<in> set visited. \<not> unique_violation (heap ! v)
     \<and> (e_cause (heap ! v) = r \<or> e_cause (heap ! v) \<in> Obj ` set visited \<or> e_cause (heap ! v) = NotObject)"
  shows "conflict_walk heap visited r \<longleftrightarrow> (\<exists>j. caused_by heap r j \<and> unique_violation (heap ! j))"
  using assms
proof (induction heap visited r rule: conflict_walk.induct)
  case (2 heap visited i)
  show ?case
  proof (cases "i < length heap \<and> i \<notin> set visited \<and> \<not> unique_violation (heap ! i)")
    case True
    then have "conflict_walk heap (i # visited) (e_cause (heap ! i))
       \<longleftrightarrow> (\<exists>j. caused_by heap (e_cause (heap ! i)) j \<and> unique_violation (heap ! j))"
      using 2 by (intro "2.IH") auto
    then show ?thesis using True by (auto simp: caused_by_simps)
  next
    case False
    have "\<not> unique_violation (heap ! j)" if "i \<in> set visited" "caused_by heap (Obj i) j" for j
    proof -
      have "j \<in> set visited" by (rule caused_by_closed [OF that(2)]) (use that(1) "2.prems" in auto)
      then show ?thesis using "2.prems" by blast
    qed
    then show ?thesis using False by (auto simp: caused_by_simps)
  qed
qed (simp add: caused_by_simps)

text \<open>C19: The walk along the causes of a thrown error ends on every error graph, cyclic ones included, and answers true
  exactly when some error on the chain of causes reports a violated unique index: a cycle neither hangs it nor hides
  an error.\<close>
theorem name_conflict_exact:
  "isObserverTokenNameConflict heap err \<longleftrightarrow> (\<exists>j. caused_by heap err j \<and> unique_violation (heap ! j))"
  unfolding isObserverTokenNameConflict_def by (rule conflict_walk_exact) simp
subsection \<open>The table\<close>

datatype observer_status = ObsActive | ObsRevoked

text \<open>What the checks of access look at (\<open>Pick<ObserverToken, 'filters' | 'scopes'>\<close>), and the whole row.\<close>

record observer_grant =
  ot_scopes :: "string list"
  ot_filters :: observer_filters

record observer_row = observer_grant +
  ot_id :: id
  ot_ws :: id
  ot_name :: string
  ot_description :: "string option"
  ot_tokenHash :: string
  ot_status :: observer_status
  ot_expiresAt :: "sec option"
  ot_createdBy :: "id option"
  ot_createdByType :: string
  ot_lastUsedAt :: "sec option"
  ot_createdAt :: sec
  ot_updatedAt :: "sec option"
  ot_revokedAt :: "sec option"

record observer_view =
  ov_id :: id
  ov_name :: string
  ov_description :: "string option"
  ov_scopes :: "string list"
  ov_filters :: observer_filters
  ov_status :: observer_status
  ov_expires_at :: "sec option"
  ov_created_at :: sec
  ov_updated_at :: "sec option"
  ov_revoked_at :: "sec option"
  ov_last_used_at :: "sec option"
  ov_token :: "string option"

definition publicObserverToken :: "observer_row \<Rightarrow> string option \<Rightarrow> observer_view" where
  "publicObserverToken row token =
     \<lparr>ov_id = ot_id row, ov_name = ot_name row, ov_description = ot_description row,
      ov_scopes = publicScopes (Some (ot_scopes row)), ov_filters = normalizeObserverFilters (Some (ot_filters row)),
      ov_status = ot_status row, ov_expires_at = ot_expiresAt row, ov_created_at = ot_createdAt row,
      ov_updated_at = ot_updatedAt row, ov_revoked_at = ot_revokedAt row, ov_last_used_at = ot_lastUsedAt row,
      ov_token = truthy token\<rparr>"

text \<open>The primary key and the two unique indexes; the columns that a violated one reports.\<close>

definition violated_index :: "observer_row list \<Rightarrow> string option" where
  "violated_index rows =
     (if \<not> distinct (map ot_id rows) then Some ''observer_tokens.id''
      else if \<not> distinct (map (\<lambda>r. (ot_ws r, ot_name r)) rows) then Some ''observer_tokens.workspace_id, observer_tokens.name''
      else if \<not> distinct (map ot_tokenHash rows) then Some ''observer_tokens.token_hash'' else None)"

definition unique_keys :: "observer_row list \<Rightarrow> bool" where
  "unique_keys rows \<longleftrightarrow> distinct (map ot_id rows) \<and> distinct (map (\<lambda>r. (ot_ws r, ot_name r)) rows) \<and> distinct (map ot_tokenHash rows)"

lemma violated_index_None [simp]: "violated_index rows = None \<longleftrightarrow> unique_keys rows"
  by (simp add: violated_index_def unique_keys_def)

text \<open>A statement whose result would violate an index is refused; the driver throws an error for it.\<close>

type_synonym driver = "string \<Rightarrow> err_object list \<times> err_ref"
type_synonym 'a checked = "(err_object list \<times> err_ref) + 'a"

datatype observer_error = ObsCoded coded | ObsThrown "err_object list \<times> err_ref"

definition write_checked :: "driver \<Rightarrow> observer_row list \<Rightarrow> observer_row list checked" where
  "write_checked driver rows' = (case violated_index rows' of Some cols \<Rightarrow> Inl (driver cols) | None \<Rightarrow> Inr rows')"

lemma write_checked_Inr [simp]: "write_checked driver rows' = Inr rows2 \<longleftrightarrow> rows2 = rows' \<and> unique_keys rows'"
  using violated_index_None [of rows'] by (auto simp: write_checked_def simp del: violated_index_None split: option.splits)

text \<open>\<open>catch (err) { if (isObserverTokenNameConflict(err)) observerTokenNameConflict(); throw err; }\<close>\<close>

definition observerTokenNameConflict :: observer_error where
  "observerTokenNameConflict = ObsCoded (codedError ''observer_token_name_conflict'' 409)"

definition rethrow_name_conflict :: "err_object list \<times> err_ref \<Rightarrow> observer_error" where
  "rethrow_name_conflict e =
     (if isObserverTokenNameConflict (fst e) (snd e) then observerTokenNameConflict else ObsThrown e)"

subsection \<open>Operations\<close>

record create_token_input =
  ci_name :: string
  ci_description :: "string option"
  ci_scopes :: "string list"
  ci_filters :: "observer_filters option"
  ci_expires_at :: "string option"

text \<open>\<open>token\<close> is the credential that \<open>issueCredential\<close> minted.\<close>

definition createObserverToken ::
  "(string \<Rightarrow> ms option) \<Rightarrow> (string \<Rightarrow> string) \<Rightarrow> driver \<Rightarrow> string \<Rightarrow> string \<Rightarrow> ms \<Rightarrow> id \<Rightarrow> create_token_input
     \<Rightarrow> observer_row list \<Rightarrow> (observer_error + observer_view) \<times> observer_row list" where
  "createObserverToken date sha driver freshId token now workspaceId input rows =
     (case parseExpiresAt date now (ci_expires_at input) of Inl e \<Rightarrow> (Inl (ObsCoded e), rows)
      | Inr expiresAt \<Rightarrow> case normalizeScopes (ci_scopes input) of Inl e \<Rightarrow> (Inl (ObsCoded e), rows)
      | Inr scopes \<Rightarrow>
          let created = \<lparr>ot_scopes = scopes, ot_filters = normalizeObserverFilters (ci_filters input),
                ot_id = ''ot_'' @ freshId, ot_ws = workspaceId, ot_name = ci_name input,
                ot_description = ci_description input, ot_tokenHash = sha token, ot_status = ObsActive,
                ot_expiresAt = map_option toSec expiresAt, ot_createdBy = Some workspaceId,
                ot_createdByType = ''workspace'', ot_lastUsedAt = None, ot_createdAt = toSec now,
                ot_updatedAt = None, ot_revokedAt = None\<rparr>
          in case write_checked driver (rows @ [created]) of
               Inl e \<Rightarrow> (Inl (rethrow_name_conflict e), rows)
             | Inr rows' \<Rightarrow> (Inr (publicObserverToken created (Some token)), rows'))"

definition listObserverTokens :: "observer_row list \<Rightarrow> id \<Rightarrow> observer_view list" where
  "listObserverTokens rows workspaceId = map (\<lambda>r. publicObserverToken r None) (filter (\<lambda>r. ot_ws r = workspaceId) rows)"

definition getObserverToken :: "observer_row list \<Rightarrow> id \<Rightarrow> id \<Rightarrow> observer_view option" where
  "getObserverToken rows workspaceId tid =
     map_option (\<lambda>r. publicObserverToken r None) (first_row (filter (\<lambda>r. ot_ws r = workspaceId \<and> ot_id r = tid) rows))"

text \<open>\<open>WHERE workspace_id = ? AND id = ? AND status = 'active'\<close>\<close>

definition own_active :: "id \<Rightarrow> id \<Rightarrow> observer_row \<Rightarrow> bool" where
  "own_active workspaceId tid r \<longleftrightarrow> ot_ws r = workspaceId \<and> ot_id r = tid \<and> ot_status r = ObsActive"

text \<open>A field that is present in the body is \<open>Some\<close>; \<open>null\<close> is the inner \<open>None\<close>.\<close>

record update_token_input =
  ui_name :: "string option"
  ui_description :: "string option option"
  ui_scopes :: "string list option"
  ui_filters :: "observer_filters option"
  ui_expires_at :: "string option option"

definition update_columns ::
  "ms \<Rightarrow> update_token_input \<Rightarrow> string list option \<Rightarrow> ms option option \<Rightarrow> observer_row \<Rightarrow> observer_row" where
  "update_columns now input scopes expiresAt r =
     r\<lparr>ot_updatedAt := Some (toSec now),
       ot_name := (case ui_name input of None \<Rightarrow> ot_name r | Some n \<Rightarrow> n),
       ot_description := (case ui_description input of None \<Rightarrow> ot_description r | Some d \<Rightarrow> d),
       ot_scopes := (case scopes of None \<Rightarrow> ot_scopes r | Some s \<Rightarrow> s),
       ot_filters := (case ui_filters input of None \<Rightarrow> ot_filters r | Some f \<Rightarrow> normalizeObserverFilters (Some f)),
       ot_expiresAt := (case expiresAt of None \<Rightarrow> ot_expiresAt r | Some e \<Rightarrow> map_option toSec e)\<rparr>"

text \<open>\<open>if (input.scopes !== undefined) update.scopes = normalizeScopes(input.scopes)\<close>, and so for the expiry.\<close>

definition when_given :: "('a \<Rightarrow> coded + 'b) \<Rightarrow> 'a option \<Rightarrow> coded + 'b option" where
  "when_given f x = (case x of None \<Rightarrow> Inr None | Some v \<Rightarrow> (case f v of Inl e \<Rightarrow> Inl e | Inr y \<Rightarrow> Inr (Some y)))"

definition updateObserverToken ::
  "(string \<Rightarrow> ms option) \<Rightarrow> driver \<Rightarrow> ms \<Rightarrow> id \<Rightarrow> id \<Rightarrow> update_token_input \<Rightarrow> observer_row list
     \<Rightarrow> (observer_error + observer_view option) \<times> observer_row list" where
  "updateObserverToken date driver now workspaceId tid input rows =
     (case when_given normalizeScopes (ui_scopes input) of Inl e \<Rightarrow> (Inl (ObsCoded e), rows)
      | Inr scopes \<Rightarrow> case when_given (parseExpiresAt date now) (ui_expires_at input) of Inl e \<Rightarrow> (Inl (ObsCoded e), rows)
      | Inr expiresAt \<Rightarrow>
          let f = update_columns now input scopes expiresAt
          in case write_checked driver (upd_where (own_active workspaceId tid) f rows) of
               Inl e \<Rightarrow> (Inl (rethrow_name_conflict e), rows)
             | Inr rows' \<Rightarrow>
                 (Inr (map_option (\<lambda>r. publicObserverToken r None) (first_row (returning (own_active workspaceId tid) f rows))), rows'))"

definition rotate_columns :: "string \<Rightarrow> ms \<Rightarrow> observer_row \<Rightarrow> observer_row" where
  "rotate_columns hash now r = r\<lparr>ot_tokenHash := hash, ot_updatedAt := Some (toSec now), ot_lastUsedAt := None\<rparr>"

definition rotateObserverToken ::
  "(string \<Rightarrow> string) \<Rightarrow> driver \<Rightarrow> string \<Rightarrow> ms \<Rightarrow> id \<Rightarrow> id \<Rightarrow> observer_row list
     \<Rightarrow> (observer_error + observer_view option) \<times> observer_row list" where
  "rotateObserverToken sha driver token now workspaceId tid rows =
     (let f = rotate_columns (sha token) now
      in case write_checked driver (upd_where (own_active workspaceId tid) f rows) of
           Inl e \<Rightarrow> (Inl (ObsThrown e), rows)
         | Inr rows' \<Rightarrow>
             (Inr (map_option (\<lambda>r. publicObserverToken r (Some token)) (first_row (returning (own_active workspaceId tid) f rows))), rows'))"

definition revoke_columns :: "ms \<Rightarrow> observer_row \<Rightarrow> observer_row" where
  "revoke_columns now r = r\<lparr>ot_status := ObsRevoked, ot_revokedAt := Some (toSec now), ot_updatedAt := Some (toSec now)\<rparr>"

definition revokeObserverToken :: "ms \<Rightarrow> id \<Rightarrow> id \<Rightarrow> observer_row list \<Rightarrow> bool \<times> observer_row list" where
  "revokeObserverToken now workspaceId tid rows =
     (first_row (returning (own_active workspaceId tid) (revoke_columns now) rows) \<noteq> None,
      upd_where (own_active workspaceId tid) (revoke_columns now) rows)"

definition activeObserverTokenCondition :: "ms \<Rightarrow> observer_row \<Rightarrow> bool" where
  "activeObserverTokenCondition now r \<longleftrightarrow>
     ot_status r = ObsActive \<and> (case ot_expiresAt r of None \<Rightarrow> True | Some e \<Rightarrow> e > toSec now)"

definition LAST_USED_DEBOUNCE_MS :: int where "LAST_USED_DEBOUNCE_MS = 30000"

text \<open>The detached UPDATE of \<open>noteObserverTokenUse\<close>: whether it runs, and the statement, which may run at any later time.\<close>

definition notes_use :: "observer_row \<Rightarrow> ms \<Rightarrow> bool" where
  "notes_use row now \<longleftrightarrow> (case ot_lastUsedAt row of None \<Rightarrow> True | Some t \<Rightarrow> now - 1000 * t > LAST_USED_DEBOUNCE_MS)"

definition noteObserverTokenUse :: "observer_row \<Rightarrow> ms \<Rightarrow> observer_row list \<Rightarrow> observer_row list" where
  "noteObserverTokenUse row now rows =
     (if notes_use row now then upd_where (\<lambda>r. ot_id r = ot_id row) (\<lambda>r. r\<lparr>ot_lastUsedAt := Some (toSec now)\<rparr>) rows else rows)"

definition getActiveObserverTokenByHash :: "observer_row list \<Rightarrow> string \<Rightarrow> ms \<Rightarrow> observer_row option" where
  "getActiveObserverTokenByHash rows hash now =
     first_row (filter (\<lambda>r. ot_tokenHash r = hash \<and> activeObserverTokenCondition now r) rows)"
subsection \<open>What every operation promises\<close>

text \<open>\<open>dead_hash\<close>: no active row has the digest. Only an operation that mints a credential brings in a new digest.\<close>

definition dead_hash :: "string \<Rightarrow> observer_row list \<Rightarrow> bool" where
  "dead_hash h rows \<longleftrightarrow> (\<forall>r \<in> set rows. ot_tokenHash r = h \<longrightarrow> ot_status r = ObsRevoked)"

definition hashes :: "observer_row list \<Rightarrow> string set" where
  "hashes rows = ot_tokenHash ` set rows"

locale observer_op =
  fixes run :: "observer_row list \<Rightarrow> observer_row list" and minted :: "string list"
  assumes keeps_unique: "unique_keys rows \<Longrightarrow> unique_keys (run rows)"
    and keeps_dead: "unique_keys rows \<Longrightarrow> dead_hash h rows \<Longrightarrow> h \<notin> set minted \<or> h \<in> hashes rows
      \<Longrightarrow> dead_hash h (run rows) \<and> (h \<in> hashes rows \<longrightarrow> h \<in> hashes (run rows))"
begin

lemma step:
  assumes "unique_keys rows \<and> dead_hash h rows \<and> (h \<in> H \<longrightarrow> h \<in> hashes rows)" "h \<notin> set minted \<or> h \<in> H"
  shows "unique_keys (run rows) \<and> dead_hash h (run rows) \<and> (h \<in> H \<longrightarrow> h \<in> hashes (run rows))"
  using assms keeps_unique [of rows] keeps_dead [of rows h] by blast

end

lemma unique_hash: "unique_keys rows \<Longrightarrow> r \<in> set rows \<Longrightarrow> q \<in> set rows \<Longrightarrow> ot_tokenHash r = ot_tokenHash q \<Longrightarrow> r = q"
  by (auto simp: unique_keys_def distinct_map inj_on_def)

text \<open>A write that leaves the revoked rows alone and keeps the indexes keeps a dead digest dead.\<close>

lemma dead_after_write:
  assumes "unique_keys rows'" "dead_hash h rows" "h \<notin> set minted \<or> h \<in> hashes rows"
    and kept: "\<And>r. r \<in> set rows \<Longrightarrow> ot_status r = ObsRevoked \<Longrightarrow> r \<in> set rows'"
    and from_row: "\<And>r'. r' \<in> set rows' \<Longrightarrow> r' \<in> set rows \<or> ot_tokenHash r' \<in> set minted
        \<or> (\<exists>r \<in> set rows. ot_tokenHash r' = ot_tokenHash r \<and> ot_status r = ObsActive)"
  shows "dead_hash h rows' \<and> (h \<in> hashes rows \<longrightarrow> h \<in> hashes rows')"
proof (rule conjI)
  have stays: "\<exists>r \<in> set rows'. ot_tokenHash r = h \<and> ot_status r = ObsRevoked" if "h \<in> hashes rows"
    using that assms(2) kept by (auto simp: hashes_def dead_hash_def)
  then show "h \<in> hashes rows \<longrightarrow> h \<in> hashes rows'" by (auto simp: hashes_def image_iff) metis
  show "dead_hash h rows'" unfolding dead_hash_def
  proof (intro ballI impI)
    fix r' assume r': "r' \<in> set rows'" "ot_tokenHash r' = h"
    have "r' \<in> set rows \<or> h \<in> set minted" using from_row [OF r'(1)] r'(2) assms(2) by (auto simp: dead_hash_def)
    then show "ot_status r' = ObsRevoked"
    proof
      assume "r' \<in> set rows"
      then show ?thesis using assms(2) r'(2) by (simp add: dead_hash_def)
    next
      assume "h \<in> set minted"
      then obtain q where "q \<in> set rows'" "ot_tokenHash q = h" "ot_status q = ObsRevoked" using assms(3) stays by blast
      then show ?thesis using unique_hash [OF assms(1) r'(1)] r'(2) by auto
    qed
  qed
qed

lemma update_keeps_revoked: "r \<in> set rows \<Longrightarrow> ot_status r = ObsRevoked \<Longrightarrow> r \<in> set (upd_where (own_active ws tid) f rows)"
  by (auto simp: set_upd_where own_active_def)

lemma update_keeps_unique:
  assumes "unique_keys rows" "\<And>r. ot_id (f r) = ot_id r" "\<And>r. ot_ws (f r) = ot_ws r" "\<And>r. ot_name (f r) = ot_name r"
    "\<And>r. ot_tokenHash (f r) = ot_tokenHash r"
  shows "unique_keys (upd_where P f rows)"
  using assms by (simp add: unique_keys_def map_upd_where)

lemma create_cases:
  obtains "snd (createObserverToken date sha driver freshId token now ws input rows) = rows"
  | r where "snd (createObserverToken date sha driver freshId token now ws input rows) = rows @ [r]"
      "ot_tokenHash r = sha token" "unique_keys (rows @ [r])"
  by atomize_elim (auto simp: createObserverToken_def Let_def split: sum.splits)

lemma update_cases:
  obtains "snd (updateObserverToken date driver now ws tid input rows) = rows"
  | scopes expiresAt where "snd (updateObserverToken date driver now ws tid input rows)
      = upd_where (own_active ws tid) (update_columns now input scopes expiresAt) rows"
      "unique_keys (upd_where (own_active ws tid) (update_columns now input scopes expiresAt) rows)"
  by atomize_elim (auto simp: updateObserverToken_def Let_def split: sum.splits)

lemma rotate_cases:
  obtains "snd (rotateObserverToken sha driver token now ws tid rows) = rows"
  | "snd (rotateObserverToken sha driver token now ws tid rows)
      = upd_where (own_active ws tid) (rotate_columns (sha token) now) rows"
      "unique_keys (upd_where (own_active ws tid) (rotate_columns (sha token) now) rows)"
  by atomize_elim (auto simp: rotateObserverToken_def Let_def split: sum.splits)

interpretation create_op: observer_op
  "\<lambda>rows. snd (createObserverToken date sha driver freshId token now ws input rows)" "[sha token]"
  for date sha driver freshId token now ws input
proof
  fix rows h
  assume u: "unique_keys rows"
  show "unique_keys (snd (createObserverToken date sha driver freshId token now ws input rows))"
    by (rule create_cases [of date sha driver freshId token now ws input rows]) (simp_all add: u)
  assume h: "dead_hash h rows" "h \<notin> set [sha token] \<or> h \<in> hashes rows"
  show "dead_hash h (snd (createObserverToken date sha driver freshId token now ws input rows))
      \<and> (h \<in> hashes rows \<longrightarrow> h \<in> hashes (snd (createObserverToken date sha driver freshId token now ws input rows)))"
  proof (rule create_cases [of date sha driver freshId token now ws input rows])
    fix r assume r: "snd (createObserverToken date sha driver freshId token now ws input rows) = rows @ [r]"
      "ot_tokenHash r = sha token" "unique_keys (rows @ [r])"
    show ?thesis unfolding r(1) by (rule dead_after_write [OF r(3) h]) (use r(2) in auto)
  qed (simp add: h)
qed

interpretation update_op: observer_op "\<lambda>rows. snd (updateObserverToken date driver now ws tid input rows)" "[]"
  for date driver now ws tid input
proof
  fix rows h
  assume u: "unique_keys rows"
  show "unique_keys (snd (updateObserverToken date driver now ws tid input rows))"
    by (rule update_cases [of date driver now ws tid input rows]) (simp_all add: u)
  assume h: "dead_hash h rows" "h \<notin> set [] \<or> h \<in> hashes rows"
  show "dead_hash h (snd (updateObserverToken date driver now ws tid input rows))
      \<and> (h \<in> hashes rows \<longrightarrow> h \<in> hashes (snd (updateObserverToken date driver now ws tid input rows)))"
  proof (rule update_cases [of date driver now ws tid input rows])
    fix scopes expiresAt
    assume r: "snd (updateObserverToken date driver now ws tid input rows)
       = upd_where (own_active ws tid) (update_columns now input scopes expiresAt) rows"
      "unique_keys (upd_where (own_active ws tid) (update_columns now input scopes expiresAt) rows)"
    show ?thesis unfolding r(1)
      by (rule dead_after_write [OF r(2) h])
        (auto simp: set_upd_where own_active_def update_columns_def)
  qed (simp add: h)
qed

interpretation rotate_op: observer_op "\<lambda>rows. snd (rotateObserverToken sha driver token now ws tid rows)" "[sha token]"
  for sha driver token now ws tid
proof
  fix rows h
  assume u: "unique_keys rows"
  show "unique_keys (snd (rotateObserverToken sha driver token now ws tid rows))"
    by (rule rotate_cases [of sha driver token now ws tid rows]) (simp_all add: u)
  assume h: "dead_hash h rows" "h \<notin> set [sha token] \<or> h \<in> hashes rows"
  show "dead_hash h (snd (rotateObserverToken sha driver token now ws tid rows))
      \<and> (h \<in> hashes rows \<longrightarrow> h \<in> hashes (snd (rotateObserverToken sha driver token now ws tid rows)))"
  proof (rule rotate_cases [of sha driver token now ws tid rows])
    assume r: "snd (rotateObserverToken sha driver token now ws tid rows)
       = upd_where (own_active ws tid) (rotate_columns (sha token) now) rows"
      "unique_keys (upd_where (own_active ws tid) (rotate_columns (sha token) now) rows)"
    show ?thesis unfolding r(1)
      by (rule dead_after_write [OF r(2) h]) (auto simp: set_upd_where own_active_def rotate_columns_def)
  qed (simp add: h)
qed

interpretation revoke_op: observer_op "\<lambda>rows. snd (revokeObserverToken now ws tid rows)" "[]" for now ws tid
proof
  fix rows h
  assume u: "unique_keys rows"
  show k: "unique_keys (snd (revokeObserverToken now ws tid rows))"
    unfolding revokeObserverToken_def snd_conv by (rule update_keeps_unique [OF u]) (simp_all add: revoke_columns_def)
  assume h: "dead_hash h rows" "h \<notin> set [] \<or> h \<in> hashes rows"
  show "dead_hash h (snd (revokeObserverToken now ws tid rows))
      \<and> (h \<in> hashes rows \<longrightarrow> h \<in> hashes (snd (revokeObserverToken now ws tid rows)))"
    by (rule dead_after_write [OF k h]) (auto simp: revokeObserverToken_def set_upd_where own_active_def revoke_columns_def)
qed

interpretation note_op: observer_op "noteObserverTokenUse row now" "[]" for row now
proof
  fix rows h
  assume u: "unique_keys rows"
  show "unique_keys (noteObserverTokenUse row now rows)"
    unfolding noteObserverTokenUse_def using u by (simp add: update_keeps_unique)
  assume h: "dead_hash h rows" "h \<notin> set [] \<or> h \<in> hashes rows"
  have "hashes (noteObserverTokenUse row now rows) = hashes rows"
    unfolding hashes_def set_map [symmetric] by (simp add: noteObserverTokenUse_def map_upd_where del: set_map)
  moreover have "dead_hash h (noteObserverTokenUse row now rows)"
    using h(1) by (auto simp: dead_hash_def noteObserverTokenUse_def set_upd_where)
  ultimately show "dead_hash h (noteObserverTokenUse row now rows)
      \<and> (h \<in> hashes rows \<longrightarrow> h \<in> hashes (noteObserverTokenUse row now rows))" by simp
qed

subsection \<open>Runs of operations\<close>

text \<open>Any interleaving of the operations of any callers; the list collects the digests of the credentials minted.\<close>

inductive observer_run :: "observer_row list \<Rightarrow> string list \<Rightarrow> observer_row list \<Rightarrow> bool" where
  start: "observer_run rows [] rows"
| create: "observer_run rows minted r1 \<Longrightarrow>
    observer_run rows (minted @ [sha token]) (snd (createObserverToken date sha driver freshId token now ws input r1))"
| update: "observer_run rows minted r1 \<Longrightarrow> observer_run rows minted (snd (updateObserverToken date driver now ws tid input r1))"
| rotate: "observer_run rows minted r1 \<Longrightarrow>
    observer_run rows (minted @ [sha token]) (snd (rotateObserverToken sha driver token now ws tid r1))"
| revoke: "observer_run rows minted r1 \<Longrightarrow> observer_run rows minted (snd (revokeObserverToken now ws tid r1))"
| noted: "observer_run rows minted r1 \<Longrightarrow> observer_run rows minted (noteObserverTokenUse row now r1)"

lemma run_keeps_dead:
  assumes "observer_run rows minted rows'" "unique_keys rows" "dead_hash h rows" "h \<notin> set minted \<or> h \<in> hashes rows"
  shows "unique_keys rows' \<and> dead_hash h rows' \<and> (h \<in> hashes rows \<longrightarrow> h \<in> hashes rows')"
  using assms
proof (induction rule: observer_run.induct)
  case create
  then show ?case by (intro create_op.step) auto
next
  case update
  then show ?case by (intro update_op.step) auto
next
  case rotate
  then show ?case by (intro rotate_op.step) auto
next
  case revoke
  then show ?case by (intro revoke_op.step) auto
next
  case noted
  then show ?case by (intro note_op.step) auto
qed simp

lemma dead_hash_none: "dead_hash h rows \<Longrightarrow> getActiveObserverTokenByHash rows h now = None"
  by (auto simp: getActiveObserverTokenByHash_def first_row_None filter_empty_conv dead_hash_def activeObserverTokenCondition_def)

lemma revoked_is_dead:
  assumes "unique_keys rows" "r \<in> set rows" "own_active ws tid r"
  shows "dead_hash (ot_tokenHash r) (snd (revokeObserverToken now ws tid rows))
    \<and> ot_tokenHash r \<in> hashes (snd (revokeObserverToken now ws tid rows))"
proof (rule conjI)
  have "ot_tokenHash q = ot_tokenHash r \<Longrightarrow> q \<in> set rows \<Longrightarrow> q = r" for q using unique_hash [OF assms(1) _ assms(2)] by blast
  then show "dead_hash (ot_tokenHash r) (snd (revokeObserverToken now ws tid rows))"
    using assms(3) by (auto simp: dead_hash_def revokeObserverToken_def set_upd_where revoke_columns_def)
  have "revoke_columns now r \<in> set (snd (revokeObserverToken now ws tid rows))"
    using assms(2,3) by (auto simp: revokeObserverToken_def set_upd_where)
  then show "ot_tokenHash r \<in> hashes (snd (revokeObserverToken now ws tid rows))"
    by (auto simp: hashes_def revoke_columns_def dest: imageI [of _ _ ot_tokenHash])
qed

lemma rotated_is_dead:
  assumes "unique_keys rows" "r \<in> set rows" "own_active ws tid r" "rotateObserverToken sha driver token now ws tid rows = (Inr v, rows1)"
    "sha token \<noteq> ot_tokenHash r"
  shows "dead_hash (ot_tokenHash r) rows1"
proof -
  have rows1: "rows1 = upd_where (own_active ws tid) (rotate_columns (sha token) now) rows"
    using assms(4) by (auto simp: rotateObserverToken_def Let_def split: sum.splits)
  have "q = r" if "q \<in> set rows" "ot_tokenHash q = ot_tokenHash r" for q using unique_hash [OF assms(1) that(1) assms(2) that(2)] .
  then show ?thesis using assms(3,5) by (auto simp: dead_hash_def rows1 set_upd_where rotate_columns_def)
qed

text \<open>C5: A token that was revoked, or replaced by a rotation, authenticates nobody from then on: whatever creations,
  updates, rotations, revocations and late notes of its last use follow, and whenever it is presented, the lookup of
  its digest finds no row. For a revoked token this holds even if the same secret were minted again, because its row
  still occupies the digest; for a rotated one the secret must not be minted again.\<close>
theorem dead_token_stays_dead:
  assumes "unique_keys rows" "r \<in> set rows" "own_active ws tid r"
    and "(rows1 = snd (revokeObserverToken now ws tid rows))
       \<or> (rotateObserverToken sha driver token now ws tid rows = (Inr v, rows1) \<and> sha token \<noteq> ot_tokenHash r
          \<and> ot_tokenHash r \<notin> set minted)"
    and "observer_run rows1 minted rows2"
  shows "getActiveObserverTokenByHash rows2 (ot_tokenHash r) later = None"
proof (rule dead_hash_none)
  have "unique_keys rows1 \<and> dead_hash (ot_tokenHash r) rows1 \<and> (ot_tokenHash r \<notin> set minted \<or> ot_tokenHash r \<in> hashes rows1)"
    using assms(4)
  proof
    assume "rows1 = snd (revokeObserverToken now ws tid rows)"
    then show ?thesis using revoked_is_dead [OF assms(1-3)] revoke_op.keeps_unique [OF assms(1)] by blast
  next
    assume "rotateObserverToken sha driver token now ws tid rows = (Inr v, rows1) \<and> sha token \<noteq> ot_tokenHash r
          \<and> ot_tokenHash r \<notin> set minted"
    then show ?thesis
      using rotated_is_dead [OF assms(1-3)] rotate_op.keeps_unique [OF assms(1), of sha driver token now ws tid] by auto
  qed
  then show "dead_hash (ot_tokenHash r) rows2" using run_keeps_dead [OF assms(5)] by blast
qed

text \<open>A token created, another rotated and this one revoked: its digest is dead after the name is taken again.\<close>

definition ex_input :: "string \<Rightarrow> create_token_input" where
  "ex_input n = \<lparr>ci_name = n, ci_description = None, ci_scopes = [''stream:read''], ci_filters = None, ci_expires_at = None\<rparr>"

definition ex_driver :: driver where
  "ex_driver cols = ([\<lparr>e_code = None, e_message = Some ''wrapped'', e_cause = Obj 1\<rparr>,
      \<lparr>e_code = None, e_message = Some (''D1_ERROR: UNIQUE constraint failed: '' @ cols), e_cause = Obj 0\<rparr>], Obj 0)"

definition ex_table :: "observer_row list" where
  "ex_table = snd (createObserverToken (\<lambda>_. None) id ex_driver ''1'' ''secret'' 5000 ''w'' (ex_input ''a'') [])"

lemma dead_token_stays_dead_witness:
  "\<exists>r. ex_table = [r] \<and> getActiveObserverTokenByHash ex_table ''secret'' 6000 = Some r
     \<and> getActiveObserverTokenByHash (snd (createObserverToken (\<lambda>_. None) id ex_driver ''2'' ''fresh'' 7000 ''w'' (ex_input ''b'')
         (snd (revokeObserverToken 6000 ''w'' ''ot_1'' ex_table)))) ''secret'' 8000 = None"
proof -
  obtain r where r: "ex_table = [r]" "own_active ''w'' ''ot_1'' r" "ot_tokenHash r = ''secret''" "ot_expiresAt r = None"
    by (simp add: ex_table_def createObserverToken_def Let_def ex_input_def parseExpiresAt_def normalizeScopes_def OBSERVER_SCOPES_def
        write_checked_def violated_index_def own_active_def)
  have "observer_run (snd (revokeObserverToken 6000 ''w'' ''ot_1'' ex_table)) ([] @ [id ''fresh''])
     (snd (createObserverToken (\<lambda>_. None) id ex_driver ''2'' ''fresh'' 7000 ''w'' (ex_input ''b'')
         (snd (revokeObserverToken 6000 ''w'' ''ot_1'' ex_table))))"
    by (intro observer_run.intros)
  moreover have "unique_keys ex_table" "r \<in> set ex_table" by (simp_all add: r unique_keys_def)
  ultimately have "getActiveObserverTokenByHash (snd (createObserverToken (\<lambda>_. None) id ex_driver ''2'' ''fresh'' 7000 ''w''
      (ex_input ''b'') (snd (revokeObserverToken 6000 ''w'' ''ot_1'' ex_table)))) ''secret'' 8000 = None"
    using dead_token_stays_dead [OF _ _ r(2)] r(3) by metis
  moreover have "getActiveObserverTokenByHash ex_table ''secret'' 6000 = Some r"
    using r(2-4) unfolding getActiveObserverTokenByHash_def r(1)
    by (simp add: activeObserverTokenCondition_def own_active_def)
  ultimately show ?thesis using r(1) by blast
qed

subsection \<open>A taken name is a 409\<close>

lemma has_substring_iff: "has_substring s t \<longleftrightarrow> (\<exists>p q. s = p @ t @ q)"
proof (induction s)
  case (Cons c s)
  show ?case
  proof
    assume "has_substring (c # s) t"
    then have "starts_with t (c # s) \<or> has_substring s t" by (subst (asm) has_substring.simps) simp
    then show "\<exists>p q. c # s = p @ t @ q"
      using Cons.IH by (metis append_Cons append_Nil starts_with_iff)
  next
    assume "\<exists>p q. c # s = p @ t @ q"
    then obtain p q where pq: "c # s = p @ t @ q" by blast
    show "has_substring (c # s) t"
    proof (cases p)
      case Nil
      then show ?thesis using pq by (subst has_substring.simps) (simp add: starts_with_iff)
    next
      case (Cons d p')
      then have "has_substring s t" using pq Cons.IH by auto
      then show ?thesis by (subst has_substring.simps) simp
    qed
  qed
qed (subst has_substring.simps, simp add: starts_with_iff)

lemma unique_message: "e_message e = Some (p @ ''UNIQUE constraint failed: '' @ cols) \<Longrightarrow> unique_violation e"
proof -
  assume m: "e_message e = Some (p @ ''UNIQUE constraint failed: '' @ cols)"
  have l: "toLowerCase ''UNIQUE constraint failed: '' = ''unique constraint failed'' @ '': ''" by code_simp
  have "has_substring (toLowerCase (p @ ''UNIQUE constraint failed: '' @ cols)) ''unique constraint failed''"
    unfolding toLowerCase_append l has_substring_iff by (metis append.assoc)
  then show ?thesis by (simp only: unique_violation_def Let_def m option.case) blast
qed

lemma same_name_refused:
  assumes driver: "\<And>cols. \<exists>j p. caused_by (fst (driver cols)) (snd (driver cols)) j
      \<and> e_message (fst (driver cols) ! j) = Some (p @ ''UNIQUE constraint failed: '' @ cols)"
    and "\<not> unique_keys rows'"
  obtains e where "write_checked driver rows' = Inl e" "rethrow_name_conflict e = observerTokenNameConflict"
proof -
  from assms(2) obtain cols where c: "violated_index rows' = Some cols" by (metis violated_index_None option.exhaust)
  have "conflict_walk (fst (driver cols)) [] (snd (driver cols))"
    using driver [of cols] unique_message by (subst conflict_walk_exact) auto
  then show thesis
    using that [of "driver cols"] by (simp add: write_checked_def c rethrow_name_conflict_def isObserverTokenNameConflict_def)
qed

lemma not_unique_names:
  "a \<in> set rows \<Longrightarrow> b \<in> set rows \<Longrightarrow> ot_id a \<noteq> ot_id b \<Longrightarrow> ot_ws a = ot_ws b \<Longrightarrow> ot_name a = ot_name b \<Longrightarrow> \<not> unique_keys rows"
  by (auto simp: unique_keys_def distinct_map inj_on_def)

text \<open>C18: Whatever wrapping the driver puts around the error of a violated index, as long as the report of SQLite is
  somewhere on the chain of causes, a valid creation under a name that the workspace already uses, and a renaming to
  such a name, are answered with the 409 of the API and change nothing.\<close>
theorem taken_name_is_a_409:
  assumes driver: "\<And>cols. \<exists>j p. caused_by (fst (driver cols)) (snd (driver cols)) j
      \<and> e_message (fst (driver cols) ! j) = Some (p @ ''UNIQUE constraint failed: '' @ cols)"
    and "r \<in> set rows" "ot_ws r = ws"
    and "parseExpiresAt date now (ci_expires_at input) = Inr expires" "normalizeScopes (ci_scopes input) = Inr scopes"
    and "ci_name input = ot_name r"
    and "q \<in> set rows" "own_active ws (ot_id q) q" "q \<noteq> r" "distinct (map ot_id rows)"
    and "ui_name changes = Some (ot_name r)" "ui_scopes changes = None" "ui_expires_at changes = None"
  shows "createObserverToken date sha driver freshId token now ws input rows
       = (Inl (ObsCoded (codedError ''observer_token_name_conflict'' 409)), rows)
    \<and> updateObserverToken date driver now ws (ot_id q) changes rows
       = (Inl (ObsCoded (codedError ''observer_token_name_conflict'' 409)), rows)"
proof (rule conjI)
  let ?new = "\<lambda>id. \<lparr>ot_scopes = scopes, ot_filters = normalizeObserverFilters (ci_filters input), ot_id = id,
     ot_ws = ws, ot_name = ci_name input, ot_description = ci_description input, ot_tokenHash = sha token, ot_status = ObsActive,
     ot_expiresAt = map_option toSec expires, ot_createdBy = Some ws, ot_createdByType = ''workspace'', ot_lastUsedAt = None,
     ot_createdAt = toSec now, ot_updatedAt = None, ot_revokedAt = None\<rparr>"
  have "\<not> unique_keys (rows @ [?new (''ot_'' @ freshId)])"
    using assms(2,3,6) by (force simp: unique_keys_def)
  with driver obtain e where "write_checked driver (rows @ [?new (''ot_'' @ freshId)]) = Inl e"
    "rethrow_name_conflict e = observerTokenNameConflict" by (rule same_name_refused)
  then show "createObserverToken date sha driver freshId token now ws input rows
       = (Inl (ObsCoded (codedError ''observer_token_name_conflict'' 409)), rows)"
    by (simp add: createObserverToken_def Let_def assms(4,5) observerTokenNameConflict_def)
  let ?f = "update_columns now changes None None"
  have ids: "ot_id q \<noteq> ot_id r" using assms(2,7,9,10) by (auto simp: distinct_map inj_on_def)
  have "?f q \<in> set (upd_where (own_active ws (ot_id q)) ?f rows)" using assms(7,8) by (auto simp: set_upd_where)
  moreover have "r \<in> set (upd_where (own_active ws (ot_id q)) ?f rows)"
    using assms(2) ids by (auto simp: set_upd_where own_active_def)
  ultimately have "\<not> unique_keys (upd_where (own_active ws (ot_id q)) ?f rows)"
    by (rule not_unique_names) (use ids assms(3,8,11) in \<open>auto simp: update_columns_def own_active_def\<close>)
  with driver obtain e where "write_checked driver (upd_where (own_active ws (ot_id q)) ?f rows) = Inl e"
    "rethrow_name_conflict e = observerTokenNameConflict" by (rule same_name_refused)
  then show "updateObserverToken date driver now ws (ot_id q) changes rows
       = (Inl (ObsCoded (codedError ''observer_token_name_conflict'' 409)), rows)"
    by (simp add: updateObserverToken_def Let_def assms(12,13) when_given_def observerTokenNameConflict_def)
qed

text \<open>Two tokens: a third is created under the name of the first, and the second is renamed to it.\<close>

definition ex_two :: "observer_row list" where
  "ex_two = snd (createObserverToken (\<lambda>_. None) id ex_driver ''2'' ''other'' 5000 ''w'' (ex_input ''b'') ex_table)"

lemma ex_driver_reports:
  "\<exists>j p. caused_by (fst (ex_driver cols)) (snd (ex_driver cols)) j
     \<and> e_message (fst (ex_driver cols) ! j) = Some (p @ ''UNIQUE constraint failed: '' @ cols)"
proof (intro exI conjI)
  show "caused_by (fst (ex_driver cols)) (snd (ex_driver cols)) 1"
    by (auto simp: ex_driver_def intro!: caused_by.intros)
  show "e_message (fst (ex_driver cols) ! 1) = Some (''D1_ERROR: '' @ ''UNIQUE constraint failed: '' @ cols)"
    by (simp add: ex_driver_def)
qed

lemma taken_name_is_a_409_witness:
  "createObserverToken (\<lambda>_. None) id ex_driver ''3'' ''t'' 9000 ''w'' (ex_input ''a'') ex_two
       = (Inl (ObsCoded (codedError ''observer_token_name_conflict'' 409)), ex_two)
   \<and> updateObserverToken (\<lambda>_. None) ex_driver 9000 ''w'' ''ot_2''
        \<lparr>ui_name = Some ''a'', ui_description = None, ui_scopes = None, ui_filters = None, ui_expires_at = None\<rparr> ex_two
       = (Inl (ObsCoded (codedError ''observer_token_name_conflict'' 409)), ex_two)"
proof -
  obtain r q where two: "ex_two = [r, q]" "ot_ws r = ''w''" "ot_name r = ''a''" "ot_id r = ''ot_1''" "ot_id q = ''ot_2''"
      "own_active ''w'' ''ot_2'' q"
    by (simp add: ex_two_def ex_table_def createObserverToken_def Let_def ex_input_def parseExpiresAt_def normalizeScopes_def
        OBSERVER_SCOPES_def write_checked_def violated_index_def own_active_def)
  have "r \<in> set ex_two" "q \<in> set ex_two" "distinct (map ot_id ex_two)" unfolding two(1) using two(4,5) by simp_all
  moreover have "q \<noteq> r" using two(4,5) by auto
  ultimately show ?thesis
    using taken_name_is_a_409 [of ex_driver r ex_two "''w''" "\<lambda>_. None" 9000 "ex_input ''a''" None "[''stream:read'']" q
        "\<lparr>ui_name = Some ''a'', ui_description = None, ui_scopes = None, ui_filters = None, ui_expires_at = None\<rparr>" id "''3''" "''t''"]
    using two(2-) by (simp add: ex_driver_reports [simplified] ex_input_def parseExpiresAt_def normalizeScopes_def OBSERVER_SCOPES_def)
qed

end
