(* ===== verification/ObserverAccess.thy ===== *)
theory ObserverAccess
  imports ObserverTokens WsTransform
begin

text \<open>
  What an observer may see (\<open>observerAllows...\<close> of \<open>engine/observerToken.ts\<close>). An absent observer is a caller that is
  not restricted. \<open>date\<close> is \<open>new Date(text).getTime()\<close>, \<open>None\<close> for an invalid date. \<open>dm_needs_consent\<close>: a
  direct-message event, and any event that names its direct conversation, reaches an observer only with the scope, the
  opt-in and the conversation filter for it; \<open>channel_post_needs_no_consent\<close>: a \<open>message.created\<close> event names none, so a post
  to a direct conversation's channel by its channel name escapes the rule. \<open>narrowing_is_monotone\<close>: a token with fewer scopes
  and tighter filters sees no more, files attached to nothing apart (\<open>unattached_files_not_monotone\<close>).
\<close>

definition hasObserverScope :: "'a observer_grant_scheme \<Rightarrow> string \<Rightarrow> bool" where
  "hasObserverScope ob scope \<longleftrightarrow> scope \<in> set (publicScopes (Some (ot_scopes ob)))"

definition hasAnyObserverScope :: "'a observer_grant_scheme \<Rightarrow> string list \<Rightarrow> bool" where
  "hasAnyObserverScope ob scopes \<longleftrightarrow> list_ex (hasObserverScope ob) scopes"

text \<open>\<open>new Set(values)\<close>, or null for an absent or empty list.\<close>

definition filterList :: "string list option \<Rightarrow> string list option" where
  "filterList values = (case values of None \<Rightarrow> None | Some l \<Rightarrow> if length l > 0 then Some (uniq l) else None)"

definition has_items :: "string list option \<Rightarrow> bool" where
  "has_items xs \<longleftrightarrow> (case xs of None \<Rightarrow> False | Some l \<Rightarrow> length l \<noteq> 0)"

definition hasChannelOrDmFilter :: "observer_filters \<Rightarrow> bool" where
  "hasChannelOrDmFilter f \<longleftrightarrow> has_items (of_channel_ids f) \<or> has_items (of_channel_names f)
     \<or> has_items (of_dm_conversation_ids f) \<or> of_include_dms f = Some True"

definition filters_of :: "'a observer_grant_scheme \<Rightarrow> observer_filters" where
  "filters_of ob = normalizeObserverFilters (Some (ot_filters ob))"

text \<open>\<open>x && ids?.has(x)\<close>\<close>

definition listed :: "string option \<Rightarrow> string list option \<Rightarrow> bool" where
  "listed x ids \<longleftrightarrow> (case truthy x of None \<Rightarrow> False | Some v \<Rightarrow> (case ids of None \<Rightarrow> False | Some l \<Rightarrow> v \<in> set l))"

record channel_ref =
  cr_id :: "string option"
  cr_name :: "string option"
  cr_type :: "int option"

definition observerAllowsChannel :: "'a observer_grant_scheme option \<Rightarrow> channel_ref \<Rightarrow> bool" where
  "observerAllowsChannel observer channel =
     (case observer of None \<Rightarrow> True
      | Some ob \<Rightarrow>
          if cr_type channel \<noteq> None \<and> cr_type channel \<noteq> Some 0 then False
          else let filters = filters_of ob; ids = filterList (of_channel_ids filters); names = filterList (of_channel_names filters)
               in if ids = None \<and> names = None then True
                  else listed (cr_id channel) ids \<or> listed (cr_name channel) names)"

definition observerAllowsConversation :: "'a observer_grant_scheme option \<Rightarrow> string option \<Rightarrow> bool" where
  "observerAllowsConversation observer conversationId =
     (case observer of None \<Rightarrow> True
      | Some ob \<Rightarrow>
          let filters = filters_of ob
          in if \<not> hasObserverScope ob ''dms:read'' then False
             else if of_include_dms filters \<noteq> Some True then False
             else (case filterList (of_dm_conversation_ids filters) of None \<Rightarrow> True
                   | Some ids \<Rightarrow> listed conversationId (Some ids)))"

definition observerAllowsAgent :: "'a observer_grant_scheme option \<Rightarrow> string option \<Rightarrow> bool" where
  "observerAllowsAgent observer agentId =
     (case observer of None \<Rightarrow> True
      | Some ob \<Rightarrow> (case filterList (of_agent_ids (filters_of ob)) of None \<Rightarrow> True | Some ids \<Rightarrow> listed agentId (Some ids)))"

text \<open>\<open>string | Date | number | null | undefined\<close>; a number that is not finite is \<open>TNum None\<close>.\<close>

datatype time_value = TAbsent | TText string | TDate ms | TNum "ms option"

fun timestampMillis :: "(string \<Rightarrow> ms option) \<Rightarrow> time_value \<Rightarrow> ms option" where
  "timestampMillis date TAbsent = None"
| "timestampMillis date (TDate t) = Some t"
| "timestampMillis date (TNum t) = t"
| "timestampMillis date (TText s) = date s"

definition observerAllowsCreatedAt ::
  "(string \<Rightarrow> ms option) \<Rightarrow> 'a observer_grant_scheme option \<Rightarrow> time_value \<Rightarrow> bool" where
  "observerAllowsCreatedAt date observer createdAt =
     (case observer of None \<Rightarrow> True
      | Some ob \<Rightarrow> (case truthy (of_created_after (filters_of ob)) of None \<Rightarrow> True
          | Some cutoff \<Rightarrow> (case (timestampMillis date (TText cutoff), timestampMillis date createdAt) of
                (Some cutoffMs, Some createdMs) \<Rightarrow> createdMs \<ge> cutoffMs | _ \<Rightarrow> False)))"

definition observerAllowsMessage ::
  "(string \<Rightarrow> ms option) \<Rightarrow> 'a observer_grant_scheme option \<Rightarrow> string option \<Rightarrow> time_value \<Rightarrow> bool" where
  "observerAllowsMessage date observer agent_id created_at \<longleftrightarrow>
     observerAllowsAgent observer agent_id \<and> observerAllowsCreatedAt date observer created_at"

record message_resource =
  mo_channel_id :: string
  mo_channel_name :: string
  mo_channel_type :: int
  mo_conversation_id :: "string option"
  mo_agent_id :: string
  mo_created_at :: time_value

definition observerAllowsMessageResource ::
  "(string \<Rightarrow> ms option) \<Rightarrow> 'a observer_grant_scheme option \<Rightarrow> message_resource \<Rightarrow> string option \<Rightarrow> bool" where
  "observerAllowsMessageResource date observer r normalScope =
     (case observer of None \<Rightarrow> True
      | Some ob \<Rightarrow>
          if \<not> observerAllowsMessage date observer (Some (mo_agent_id r)) (mo_created_at r) then False
          else if mo_channel_type r \<noteq> 0 then observerAllowsConversation observer (mo_conversation_id r)
          else if normalScope \<noteq> None \<and> \<not> hasObserverScope ob (the normalScope) then False
          else observerAllowsChannel observer
                 \<lparr>cr_id = Some (mo_channel_id r), cr_name = Some (mo_channel_name r), cr_type = Some (mo_channel_type r)\<rparr>)"

record attachment_ref =
  at_channel_id :: string
  at_channel_name :: string
  at_channel_type :: int
  at_conversation_id :: "string option"

record file_resource =
  fo_id :: string
  fo_uploaded_by_id :: string
  fo_created_at :: time_value
  fo_attachments :: "attachment_ref list"

definition observerAllowsFile ::
  "(string \<Rightarrow> ms option) \<Rightarrow> 'a observer_grant_scheme option \<Rightarrow> file_resource \<Rightarrow> bool" where
  "observerAllowsFile date observer file =
     (case observer of None \<Rightarrow> True
      | Some ob \<Rightarrow>
          if \<not> observerAllowsAgent observer (Some (fo_uploaded_by_id file)) then False
          else if \<not> observerAllowsCreatedAt date observer (fo_created_at file) then False
          else if fo_attachments file = [] then \<not> hasChannelOrDmFilter (filters_of ob)
          else list_ex (\<lambda>a. case truthy (at_conversation_id a) of
                 Some c \<Rightarrow> observerAllowsConversation observer (Some c)
               | None \<Rightarrow> observerAllowsChannel observer
                   \<lparr>cr_id = Some (at_channel_id a), cr_name = Some (at_channel_name a), cr_type = Some (at_channel_type a)\<rparr>)
               (fo_attachments file))"

subsection \<open>Events\<close>

definition first_given :: "'a option \<Rightarrow> 'a option \<Rightarrow> 'a option" where
  "first_given a b = (case a of None \<Rightarrow> b | Some _ \<Rightarrow> a)"

definition eventChannelName :: "obj \<Rightarrow> string option" where
  "eventChannelName event =
     (case str_prop event ''channel'' of Some s \<Rightarrow> Some s | None \<Rightarrow> str_prop (props_of (map_of event ''channel'')) ''name'')"

definition eventAgentId :: "obj \<Rightarrow> string option" where
  "eventAgentId event =
     first_given (str_prop event ''agent_id'') (first_given (str_prop event ''subject_agent_id'')
       (first_given (str_prop (props_of (map_of event ''message'')) ''agent_id'') (str_prop (props_of (map_of event ''agent'')) ''id'')))"

definition eventCreatedAt :: "obj \<Rightarrow> time_value" where
  "eventCreatedAt event =
     (case first_given (str_prop event ''created_at'') (first_given (str_prop event ''timestamp'')
         (str_prop (props_of (map_of event ''message'')) ''created_at'')) of None \<Rightarrow> TAbsent | Some s \<Rightarrow> TText s)"

definition isChannelScopedEventType :: "string \<Rightarrow> bool" where
  "isChannelScopedEventType type \<longleftrightarrow>
     type = ''message.created'' \<or> type = ''message.updated'' \<or> type = ''message.read'' \<or> type = ''message.reacted''
     \<or> type = ''thread.reply'' \<or> type = ''webhook.received'' \<or> starts_with ''member.'' type \<or> starts_with ''channel.'' type"

definition eventRequiredScopes :: "string \<Rightarrow> string list" where
  "eventRequiredScopes type =
     (if type = ''message.created'' \<or> type = ''message.updated'' \<or> type = ''message.read'' \<or> type = ''webhook.received''
      then [''messages:read'']
      else if type = ''thread.reply'' then [''threads:read'']
      else if type = ''message.reacted'' then [''reactions:read'']
      else if type = ''dm.received'' \<or> type = ''group_dm.received'' then [''dms:read'']
      else if type = ''file.uploaded'' then [''files:read'']
      else if starts_with ''agent.status.'' type \<or> type = ''agent.exited'' then [''agents:read'']
      else if starts_with ''member.'' type \<or> starts_with ''channel.'' type then [''channels:read'']
      else if starts_with ''delivery.'' type then [''deliveries:read'']
      else if starts_with ''node.'' type then [''nodes:read''] else [''activity:read''])"

definition observerAllowsAnyEventType :: "'a observer_grant_scheme option \<Rightarrow> string list \<Rightarrow> bool" where
  "observerAllowsAnyEventType observer eventTypes =
     (case observer of None \<Rightarrow> True
      | Some ob \<Rightarrow> (case of_event_types (filters_of ob) of None \<Rightarrow> True
          | Some types \<Rightarrow> if length types = 0 then True else list_ex (\<lambda>t. t \<in> set types) eventTypes))"

definition event_in_place :: "'a observer_grant_scheme option \<Rightarrow> string \<Rightarrow> obj \<Rightarrow> bool" where
  "event_in_place observer type event =
     (let conversationId = str_prop event ''conversation_id'';
          isDm = (conversationId \<noteq> None \<or> type = ''dm.received'' \<or> type = ''group_dm.received'')
      in if isDm then observerAllowsConversation observer conversationId
         else let channelId = str_prop event ''channel_id''; channelName = eventChannelName event;
                  hasChannelContext = (truthy channelId \<noteq> None \<or> truthy channelName \<noteq> None)
              in \<not> ((hasChannelContext \<or> isChannelScopedEventType type)
                   \<and> \<not> observerAllowsChannel observer \<lparr>cr_id = channelId, cr_name = channelName, cr_type = None\<rparr>))"

definition observerAllowsEvent :: "(string \<Rightarrow> ms option) \<Rightarrow> 'a observer_grant_scheme option \<Rightarrow> obj \<Rightarrow> bool" where
  "observerAllowsEvent date observer event =
     (case observer of None \<Rightarrow> True
      | Some ob \<Rightarrow>
          let type = (case str_prop event ''type'' of Some t \<Rightarrow> t | None \<Rightarrow> [])
          in if has_items (of_event_types (filters_of ob)) \<and> type \<notin> set (the (of_event_types (filters_of ob))) then False
             else if \<not> hasAnyObserverScope ob (eventRequiredScopes type) then False
             else if \<not> observerAllowsCreatedAt date observer (eventCreatedAt event) then False
             else if \<not> event_in_place observer type event then False
             else observerAllowsAgent observer (eventAgentId event))"
subsection \<open>What a filter admits\<close>

text \<open>The members of an optional list; an absent or empty list restricts nothing.\<close>

definition items :: "string list option \<Rightarrow> string set" where
  "items xs = (case xs of None \<Rightarrow> {} | Some l \<Rightarrow> set l)"

lemma has_items_iff: "has_items xs \<longleftrightarrow> items xs \<noteq> {}"
  by (simp add: has_items_def items_def split: option.splits)

lemma uniq_Nil_iff [simp]: "uniq xs = [] \<longleftrightarrow> xs = []"
  by (cases xs) simp_all

lemma items_normal [simp]: "items (nonempty_list xs) = items xs" "has_items (nonempty_list xs) = has_items xs"
  by (simp_all add: nonempty_list_def items_def has_items_def split: option.splits)

lemma filterList_None [simp]: "filterList xs = None \<longleftrightarrow> items xs = {}"
  by (simp add: filterList_def items_def split: option.splits)

lemma items_filterList [simp]: "items (filterList xs) = items xs"
  by (simp add: filterList_def items_def split: option.splits)

lemma listed_iff: "listed x ids \<longleftrightarrow> (\<exists>v. truthy x = Some v \<and> v \<in> items ids)"
  by (simp add: listed_def items_def split: option.splits)

lemma case_filterList:
  "(case filterList xs of None \<Rightarrow> True | Some ids \<Rightarrow> listed x (Some ids)) \<longleftrightarrow> items xs = {} \<or> listed x xs"
  by (auto simp: listed_iff items_def filterList_def split: option.splits)

lemma filters_of_sel [simp]:
  "of_channel_ids (filters_of ob) = nonempty_list (of_channel_ids (ot_filters ob))"
  "of_channel_names (filters_of ob) = nonempty_list (of_channel_names (ot_filters ob))"
  "of_include_dms (filters_of ob) = Some (of_include_dms (ot_filters ob) = Some True)"
  "of_dm_conversation_ids (filters_of ob) = nonempty_list (of_dm_conversation_ids (ot_filters ob))"
  "of_agent_ids (filters_of ob) = nonempty_list (of_agent_ids (ot_filters ob))"
  "of_event_types (filters_of ob) = nonempty_list (of_event_types (ot_filters ob))"
  "of_created_after (filters_of ob) = truthy (of_created_after (ot_filters ob))"
  by (simp_all add: filters_of_def normalizeObserverFilters_def Let_def)

lemma hasObserverScope_iff: "hasObserverScope ob scope \<longleftrightarrow> scope \<in> set (ot_scopes ob) \<and> scope \<in> set OBSERVER_SCOPES"
  by (auto simp: hasObserverScope_def publicScopes_def Let_def)

lemma listed_normal [simp]: "listed x (nonempty_list ids) = listed x ids" "listed x (filterList ids) = listed x ids"
  by (simp_all add: listed_iff)

lemma allows_channel_iff:
  "observerAllowsChannel (Some ob) ch \<longleftrightarrow> (cr_type ch = None \<or> cr_type ch = Some 0)
     \<and> (items (of_channel_ids (ot_filters ob)) = {} \<and> items (of_channel_names (ot_filters ob)) = {}
        \<or> listed (cr_id ch) (of_channel_ids (ot_filters ob)) \<or> listed (cr_name ch) (of_channel_names (ot_filters ob)))"
  by (auto simp: observerAllowsChannel_def Let_def)

lemma allows_conversation_iff:
  "observerAllowsConversation (Some ob) c \<longleftrightarrow> ''dms:read'' \<in> set (ot_scopes ob) \<and> of_include_dms (ot_filters ob) = Some True
     \<and> (items (of_dm_conversation_ids (ot_filters ob)) = {} \<or> listed c (of_dm_conversation_ids (ot_filters ob)))"
  by (simp add: observerAllowsConversation_def Let_def case_filterList hasObserverScope_iff OBSERVER_SCOPES_def)

lemma allows_agent_iff:
  "observerAllowsAgent (Some ob) a \<longleftrightarrow> items (of_agent_ids (ot_filters ob)) = {} \<or> listed a (of_agent_ids (ot_filters ob))"
  by (simp add: observerAllowsAgent_def case_filterList)

lemma allows_created_iff:
  "observerAllowsCreatedAt date (Some ob) t \<longleftrightarrow> (case truthy (of_created_after (ot_filters ob)) of None \<Rightarrow> True
     | Some cutoff \<Rightarrow> \<exists>c m. date cutoff = Some c \<and> timestampMillis date t = Some m \<and> c \<le> m)"
  by (auto simp: observerAllowsCreatedAt_def split: option.splits)

lemmas allows_iff = allows_channel_iff allows_conversation_iff allows_agent_iff allows_created_iff

definition event_type :: "obj \<Rightarrow> string" where
  "event_type event = (case str_prop event ''type'' of Some t \<Rightarrow> t | None \<Rightarrow> [])"

lemma allows_event_iff:
  "observerAllowsEvent date (Some ob) event \<longleftrightarrow>
     (items (of_event_types (ot_filters ob)) = {} \<or> event_type event \<in> items (of_event_types (ot_filters ob)))
     \<and> hasAnyObserverScope ob (eventRequiredScopes (event_type event))
     \<and> observerAllowsCreatedAt date (Some ob) (eventCreatedAt event)
     \<and> event_in_place (Some ob) (event_type event) event \<and> observerAllowsAgent (Some ob) (eventAgentId event)"
proof -
  have "has_items (of_event_types (filters_of ob)) \<and> t \<notin> set (the (of_event_types (filters_of ob)))
      \<longleftrightarrow> \<not> (items (of_event_types (ot_filters ob)) = {} \<or> t \<in> items (of_event_types (ot_filters ob)))" for t
    by (auto simp: has_items_def items_def nonempty_list_def split: option.splits)
  then show ?thesis by (simp add: observerAllowsEvent_def event_type_def Let_def del: filters_of_sel)
qed

subsection \<open>Narrower tokens\<close>

definition tighter_list :: "string list option \<Rightarrow> string list option \<Rightarrow> bool" where
  "tighter_list xs ys \<longleftrightarrow> items ys = {} \<or> (items xs \<noteq> {} \<and> items xs \<subseteq> items ys)"

text \<open>\<open>narrower g h\<close>: every scope of \<open>g\<close> is one of \<open>h\<close> and every filter of \<open>h\<close> is in \<open>g\<close> at least as tight.\<close>

definition narrower :: "(string \<Rightarrow> ms option) \<Rightarrow> 'a observer_grant_scheme \<Rightarrow> 'a observer_grant_scheme \<Rightarrow> bool" where
  "narrower date g h \<longleftrightarrow>
     (let f = ot_filters g; k = ot_filters h
      in set (ot_scopes g) \<subseteq> set (ot_scopes h)
         \<and> (items (of_channel_ids k) \<union> items (of_channel_names k) = {}
            \<or> (items (of_channel_ids f) \<union> items (of_channel_names f) \<noteq> {}
               \<and> items (of_channel_ids f) \<subseteq> items (of_channel_ids k) \<and> items (of_channel_names f) \<subseteq> items (of_channel_names k)))
         \<and> (of_include_dms f = Some True \<longrightarrow> of_include_dms k = Some True)
         \<and> tighter_list (of_dm_conversation_ids f) (of_dm_conversation_ids k)
         \<and> tighter_list (of_agent_ids f) (of_agent_ids k) \<and> tighter_list (of_event_types f) (of_event_types k)
         \<and> (case truthy (of_created_after k) of None \<Rightarrow> True
            | Some later \<Rightarrow> (case truthy (of_created_after f) of None \<Rightarrow> False
                | Some earlier \<Rightarrow> \<exists>c d. date later = Some c \<and> date earlier = Some d \<and> c \<le> d)))"

lemma listed_tighter: "tighter_list xs ys \<Longrightarrow> items xs = {} \<or> listed x xs \<Longrightarrow> items ys = {} \<or> listed x ys"
  by (auto simp: tighter_list_def listed_iff)

lemma channel_mono: "narrower date g h \<Longrightarrow> observerAllowsChannel (Some g) c \<Longrightarrow> observerAllowsChannel (Some h) c"
  by (auto simp: allows_iff narrower_def Let_def listed_iff)

lemma conversation_mono: "narrower date g h \<Longrightarrow> observerAllowsConversation (Some g) c \<Longrightarrow> observerAllowsConversation (Some h) c"
  using listed_tighter [of "of_dm_conversation_ids (ot_filters g)" "of_dm_conversation_ids (ot_filters h)" c]
  by (auto simp: allows_iff narrower_def Let_def)

lemma agent_mono: "narrower date g h \<Longrightarrow> observerAllowsAgent (Some g) a \<Longrightarrow> observerAllowsAgent (Some h) a"
  using listed_tighter [of "of_agent_ids (ot_filters g)" "of_agent_ids (ot_filters h)" a]
  by (auto simp: allows_iff narrower_def Let_def)

lemma created_mono: "narrower date g h \<Longrightarrow> observerAllowsCreatedAt date (Some g) t \<Longrightarrow> observerAllowsCreatedAt date (Some h) t"
  by (auto simp: allows_iff narrower_def Let_def split: option.splits)

lemma scope_mono: "narrower date g h \<Longrightarrow> hasObserverScope g s \<Longrightarrow> hasObserverScope h s"
  by (auto simp: hasObserverScope_iff narrower_def Let_def)

lemma in_place_mono: "narrower date g h \<Longrightarrow> event_in_place (Some g) type event \<Longrightarrow> event_in_place (Some h) type event"
  using conversation_mono [of date g h] channel_mono [of date g h] by (auto simp: event_in_place_def Let_def split: if_splits)

lemma file_mono:
  assumes "narrower date g h" "fo_attachments file \<noteq> [] \<or> \<not> hasChannelOrDmFilter (filters_of h)"
    and "observerAllowsFile date (Some g) file"
  shows "observerAllowsFile date (Some h) file"
proof -
  have attached: "list_ex P as \<Longrightarrow> (\<And>a. P a \<Longrightarrow> Q a) \<Longrightarrow> list_ex Q as" for P Q and as :: "attachment_ref list"
    by (auto simp: list_ex_iff)
  show ?thesis
    using assms(2,3) created_mono [OF assms(1)] agent_mono [OF assms(1)]
    by (auto simp: observerAllowsFile_def split: if_splits elim!: attached split: option.splits
        intro: conversation_mono [OF assms(1)] channel_mono [OF assms(1)])
qed

text \<open>C12: Access shrinks with the grant: a token whose scopes are among those of another and whose filters are at least
  as tight (a list that restricts stays a list that restricts) is shown no event, message or conversation that the
  other is not shown, and no file, except for a file attached to no message where the wider token has a filter on
  channels or direct messages (such a token is shown no unattached file).\<close>
theorem narrowing_is_monotone:
  assumes "narrower date g h"
  shows "(observerAllowsEvent date (Some g) event \<longrightarrow> observerAllowsEvent date (Some h) event)
    \<and> (observerAllowsMessageResource date (Some g) resource scope \<longrightarrow> observerAllowsMessageResource date (Some h) resource scope)
    \<and> (observerAllowsConversation (Some g) conversation \<longrightarrow> observerAllowsConversation (Some h) conversation)
    \<and> (fo_attachments file \<noteq> [] \<or> \<not> hasChannelOrDmFilter (filters_of h) \<longrightarrow>
         observerAllowsFile date (Some g) file \<longrightarrow> observerAllowsFile date (Some h) file)"
proof (intro conjI impI)
  assume g: "observerAllowsEvent date (Some g) event"
  have "hasAnyObserverScope g scopes \<Longrightarrow> hasAnyObserverScope h scopes" for scopes
    using scope_mono [OF assms] by (auto simp: hasAnyObserverScope_def list_ex_iff)
  moreover have "tighter_list (of_event_types (ot_filters g)) (of_event_types (ot_filters h))"
    using assms by (simp add: narrower_def Let_def)
  ultimately show "observerAllowsEvent date (Some h) event"
    using g created_mono [OF assms] in_place_mono [OF assms] agent_mono [OF assms]
    unfolding allows_event_iff tighter_list_def by blast
next
  assume "observerAllowsMessageResource date (Some g) resource scope"
  then show "observerAllowsMessageResource date (Some h) resource scope"
    using created_mono [OF assms] agent_mono [OF assms] conversation_mono [OF assms] channel_mono [OF assms] scope_mono [OF assms]
    by (auto simp: observerAllowsMessageResource_def observerAllowsMessage_def split: if_splits)
qed (simp_all add: conversation_mono [OF assms] file_mono [OF assms] del: filters_of_sel)

subsection \<open>Direct messages need consent\<close>

text \<open>The types whose client event names the conversation of the internal one.\<close>

definition conversation_types :: "string list" where
  "conversation_types = [''thread.reply'', ''message.reacted'', ''message.read'', ''dm.received'', ''group_dm.received'']"

lemma map_of_given [simp]: "map_of (given k v) k' = (if k' = k then v else None)"
  by (simp add: given_def split: option.splits)

lemma map_of_when_truthy: "map_of (when_truthy k v) k' = (if k' = k \<and> json_truthy v then v else None)"
  by (simp add: when_truthy_def)

lemma transform_cases:
  "wse_type event = ''thread.reply'' \<Longrightarrow> transformForClient event = thread_reply_event event"
  "wse_type event = ''message.reacted'' \<Longrightarrow> transformForClient event = reaction_event event"
  "wse_type event = ''message.read'' \<Longrightarrow> transformForClient event = message_read_event event"
  "wse_type event = ''dm.received'' \<Longrightarrow> transformForClient event = dm_received_event event"
  "wse_type event = ''group_dm.received'' \<Longrightarrow> transformForClient event = group_dm_received_event event"
  by (simp_all add: transformForClient_def)

lemma conversation_of_event:
  assumes "map_of (wse_data event) ''conversation_id'' = Some (JStr c)" "c \<noteq> []"
  shows "map_of (thread_reply_event event) ''conversation_id'' = Some (JStr c)"
    "map_of (reaction_event event) ''conversation_id'' = Some (JStr c)"
    "map_of (message_read_event event) ''conversation_id'' = Some (JStr c)"
    "map_of (dm_event type author address event) ''conversation_id'' = Some (JStr c)"
  by (simp_all add: thread_reply_event_def reaction_event_def message_read_event_def dm_event_def Let_def map_of_when_truthy
      assms channel_id_of_def created_at_of_def map_add_Some_iff map_add_None)

lemma transform_conversation:
  assumes "wse_type event \<in> set conversation_types" "str_prop (wse_data event) ''conversation_id'' = Some c" "c \<noteq> []"
  shows "str_prop (transformForClient event) ''conversation_id'' = Some c"
proof -
  have c: "map_of (wse_data event) ''conversation_id'' = Some (JStr c)"
    using assms(2) by (auto simp: str_prop_def split: option.splits json.splits)
  have "wse_type event = ''thread.reply'' \<or> wse_type event = ''message.reacted'' \<or> wse_type event = ''message.read''
      \<or> wse_type event = ''dm.received'' \<or> wse_type event = ''group_dm.received''"
    using assms(1) by (simp add: conversation_types_def)
  then have "map_of (transformForClient event) ''conversation_id'' = Some (JStr c)"
    by (elim disjE) (simp_all only: transform_cases conversation_of_event [OF c assms(3)] dm_received_event_def group_dm_received_event_def)
  then show ?thesis by (simp add: str_prop_def)
qed

lemma dm_event_props:
  "wse_type event \<in> {''dm.received'', ''group_dm.received''} \<Longrightarrow>
     event_type (transformForClient event) = wse_type event
     \<and> str_prop (transformForClient event) ''conversation_id'' = str_prop (wse_data event) ''conversation_id''"
  by (auto simp: transform_cases dm_received_event_def group_dm_received_event_def dm_event_def event_type_def str_prop_def
      created_at_of_def Let_def map_add_def split: option.splits)

text \<open>C10: A direct-message event, and any other event that a direct conversation produces and that names the
  conversation (a thread reply, a reaction, a read receipt), is shown, in the form sent to observers, to a token only
  if the token has the scope dms:read, has opted in to direct messages, and, where it lists conversations, lists the
  one the event names: no other scope or filter lets it through. A message.created event names no conversation and is
  outside this rule.\<close>
theorem dm_needs_consent:
  assumes "wse_type event \<in> {''dm.received'', ''group_dm.received''}
      \<or> wse_type event \<in> set conversation_types \<and> (\<exists>c. str_prop (wse_data event) ''conversation_id'' = Some c \<and> c \<noteq> [])"
    and "observerAllowsEvent date (Some ob) (transformForClient event)"
  shows "''dms:read'' \<in> set (ot_scopes ob) \<and> of_include_dms (ot_filters ob) = Some True
    \<and> (items (of_dm_conversation_ids (ot_filters ob)) = {}
        \<or> (\<exists>c. str_prop (wse_data event) ''conversation_id'' = Some c \<and> c \<in> items (of_dm_conversation_ids (ot_filters ob))))"
proof -
  have "observerAllowsConversation (Some ob) (str_prop (wse_data event) ''conversation_id'')"
    using assms(1)
  proof
    assume "wse_type event \<in> {''dm.received'', ''group_dm.received''}"
    then show ?thesis using dm_event_props [of event] assms(2) unfolding allows_event_iff
      by (auto simp: event_in_place_def Let_def)
  next
    assume "wse_type event \<in> set conversation_types \<and> (\<exists>c. str_prop (wse_data event) ''conversation_id'' = Some c \<and> c \<noteq> [])"
    then show ?thesis using transform_conversation [of event] assms(2) unfolding allows_event_iff
      by (auto simp: event_in_place_def Let_def)
  qed
  then show ?thesis by (auto simp: allows_conversation_iff listed_iff truthy_def split: list.splits option.splits)
qed

definition ex_read :: ws_event where
  "ex_read = \<lparr>wse_type = ''message.read'', wse_workspace_id = ''w'', wse_channel_id = Some ''c1'',
     wse_data = [(''message_id'', JStr ''m''), (''agent_id'', JStr ''a''), (''conversation_id'', JStr ''d1'')], wse_timestamp = ''t''\<rparr>"

definition ex_grant :: "string list option \<Rightarrow> observer_grant" where
  "ex_grant conversations =
     \<lparr>ot_scopes = [''messages:read'', ''dms:read''],
      ot_filters = no_filters\<lparr>of_include_dms := Some True, of_dm_conversation_ids := conversations\<rparr>\<rparr>"

lemma ex_read_allowed: "observerAllowsEvent (\<lambda>_. None) (Some (ex_grant (Some [''d1'']))) (transformForClient ex_read)"
  by code_simp

lemma dm_needs_consent_witness:
  "observerAllowsEvent (\<lambda>_. None) (Some (ex_grant (Some [''d1'']))) (transformForClient ex_read)
    \<and> ''dms:read'' \<in> set (ot_scopes (ex_grant (Some [''d1''])))"
proof
  show "observerAllowsEvent (\<lambda>_. None) (Some (ex_grant (Some [''d1'']))) (transformForClient ex_read)" by (rule ex_read_allowed)
  then show "''dms:read'' \<in> set (ot_scopes (ex_grant (Some [''d1''])))"
    using dm_needs_consent [where event = ex_read, OF _ ex_read_allowed]
    by (simp add: ex_read_def conversation_types_def str_prop_def)
qed

lemma narrowing_is_monotone_witness:
  "observerAllowsEvent (\<lambda>_. None) (Some (ex_grant None)) (transformForClient ex_read)"
proof -
  have "narrower (\<lambda>_. None) (ex_grant (Some [''d1''])) (ex_grant None)"
    by (simp add: narrower_def Let_def ex_grant_def no_filters_def tighter_list_def items_def truthy_def)
  from narrowing_is_monotone [OF this] show ?thesis using ex_read_allowed by blast
qed

subsection \<open>What the rules let through\<close>

text \<open>The event that \<open>POST /channels/dm-.../messages\<close> of \<open>routes/message.ts\<close> publishes: the route finds the channel by its name,
  whatever its type, and the event names the channel and no conversation.\<close>

definition ex_channel_post :: ws_event where
  "ex_channel_post = \<lparr>wse_type = ''message.created'', wse_workspace_id = ''w'', wse_channel_id = Some ''dmch_1'',
     wse_data = [(''id'', JStr ''m''), (''channel_id'', JStr ''dmch_1''), (''channel_name'', JStr ''dm-1''), (''agent_id'', JStr ''a''),
       (''text'', JStr ''hello'')], wse_timestamp = ''t''\<rparr>"

lemma channel_post_event:
  "event_type (message_created_event event) = ''message.created''"
  "str_prop (message_created_event event) ''conversation_id'' = None"
  by (simp_all add: message_created_event_def event_type_def str_prop_def created_at_of_def channel_id_of_def Let_def
      map_of_when_truthy map_add_def split: option.splits)

text \<open>A token with the scope for channel messages alone, no opt-in and no filters, is shown every \<open>message.created\<close> event,
  those of a direct conversation's channel too.\<close>

lemma channel_post_needs_no_consent:
  "observerAllowsEvent date (Some (\<lparr>ot_scopes = [''messages:read''], ot_filters = no_filters\<rparr> :: observer_grant))
     (transformForClient ex_channel_post)"
proof -
  have "transformForClient ex_channel_post = message_created_event ex_channel_post"
    by (simp add: transformForClient_def ex_channel_post_def)
  then show ?thesis
    by (simp add: allows_event_iff channel_post_event event_in_place_def Let_def allows_iff no_filters_def items_def
        eventRequiredScopes_def hasAnyObserverScope_def hasObserverScope_iff OBSERVER_SCOPES_def truthy_def)
qed

definition ex_file :: file_resource where
  "ex_file = \<lparr>fo_id = ''f'', fo_uploaded_by_id = ''a'', fo_created_at = TText ''t'', fo_attachments = []\<rparr>"

text \<open>Opting in to direct messages hides the files that are attached to nothing.\<close>

lemma unattached_files_not_monotone:
  fixes g h :: observer_grant
  defines "g \<equiv> \<lparr>ot_scopes = [''files:read''], ot_filters = no_filters\<rparr>"
    and "h \<equiv> \<lparr>ot_scopes = [''files:read'', ''dms:read''], ot_filters = no_filters\<lparr>of_include_dms := Some True\<rparr>\<rparr>"
  shows "narrower date g h \<and> observerAllowsFile date (Some g) ex_file \<and> \<not> observerAllowsFile date (Some h) ex_file"
  by (simp add: g_def h_def narrower_def Let_def tighter_list_def items_def no_filters_def truthy_def observerAllowsFile_def
      allows_iff ex_file_def hasChannelOrDmFilter_def has_items_iff nonempty_list_def)

end
