(* ===== verification/ObserverStream.thy ===== *)
theory ObserverStream
  imports ObserverAccess Channels
begin

text \<open>
  Events on their way to observers: the dispatcher (\<open>engine/eventDispatch.ts\<close>) logs and publishes them; an observer reads
  them live, or later from the log (\<open>GET /workspace/events\<close>, \<open>routes/workspace.ts\<close>). A request of the log reads a state of
  it that does not change meanwhile. \<open>page_is_exact\<close>: a page of the log holds exactly the visible rows up to the cursor
  that it returns. \<open>paging_is_complete\<close>: a client that follows the cursor sees every visible row once, in order, and is
  done after finitely many pages. \<open>backfill_covers_live\<close>, \<open>backfill_shows_more\<close>: what is seen live is seen in the log,
  but not the other way round.
\<close>

subsection \<open>The dispatcher\<close>

datatype dispatch_scope = ScopeWorkspace | ScopeChannel id | ScopeAgents "id list" | ScopePresence id

definition NODE_DELIVER_FRAME_EVENT_TYPES :: "string list" where
  "NODE_DELIVER_FRAME_EVENT_TYPES = [''message.created'', ''thread.reply'', ''message.read'', ''message.reacted'',
     ''action.completed'', ''action.failed'', ''action.denied'', ''agent.exited'', ''node.status.online'', ''node.status.offline'']"

datatype frame_kind = FrameDeliver | FrameContext

definition nodeFrameKindFor :: "string \<Rightarrow> frame_kind" where
  "nodeFrameKindFor type = (if type \<in> set NODE_DELIVER_FRAME_EVENT_TYPES then FrameDeliver else FrameContext)"

definition reachesNodeContext :: "string \<Rightarrow> dispatch_scope \<Rightarrow> bool" where
  "reachesNodeContext type scope = (if scope = ScopeWorkspace then False else nodeFrameKindFor type = FrameContext)"

text \<open>The push to the nodes of the audience: what it is resolved against, and its topic for a channel.\<close>

datatype node_push = PushChannel id string | PushAgents "id list" | PushPresence id

fun pushNodeContext :: "dispatch_scope \<Rightarrow> string \<Rightarrow> node_push option" where
  "pushNodeContext (ScopeChannel c) type = Some (PushChannel c (if starts_with ''thread.'' type then ''thread'' else ''channel''))"
| "pushNodeContext (ScopeAgents as) type = Some (PushAgents (uniq as))"
| "pushNodeContext (ScopePresence a) type = Some (PushPresence a)"
| "pushNodeContext ScopeWorkspace type = None"

definition buildEvent :: "string \<Rightarrow> string \<Rightarrow> id \<Rightarrow> obj \<Rightarrow> id option \<Rightarrow> ws_event" where
  "buildEvent nowText type workspaceId data channelId =
     \<lparr>wse_type = type, wse_workspace_id = workspaceId, wse_channel_id = channelId, wse_data = data, wse_timestamp = nowText\<rparr>"

definition scope_channel :: "dispatch_scope \<Rightarrow> id option" where
  "scope_channel scope = (case scope of ScopeChannel c \<Rightarrow> Some c | _ \<Rightarrow> None)"

text \<open>The frames published, the push to nodes, and the log; \<open>ok\<close> as in \<open>WorkspaceEvents\<close>.\<close>

definition publishEvent ::
  "bool \<Rightarrow> sec \<Rightarrow> string \<Rightarrow> id \<Rightarrow> string \<Rightarrow> obj \<Rightarrow> dispatch_scope \<Rightarrow> wevent_row list
     \<Rightarrow> (id \<times> obj) list \<times> node_push option \<times> wevent_row list" where
  "publishEvent ok now nowText workspaceId type data scope evs =
     (let channelId = scope_channel scope;
          payload = transformForClient (buildEvent nowText type workspaceId data channelId);
          (frames, evs') = appendAndPublishWorkspaceEvent ok now workspaceId
             \<lparr>wi_type = type, wi_channelId = channelId, wi_payload = payload\<rparr> evs
      in (frames, if reachesNodeContext type scope then pushNodeContext scope type else None, evs'))"

record scoped_agent_event =
  se_workspaceId :: id
  se_agentId :: id
  se_type :: string
  se_data :: obj

definition publishEventsToAgents ::
  "(nat \<Rightarrow> bool) \<Rightarrow> sec \<Rightarrow> string \<Rightarrow> scoped_agent_event list \<Rightarrow> wevent_row list
     \<Rightarrow> (id \<times> obj) list \<times> scoped_agent_event list \<times> wevent_row list" where
  "publishEventsToAgents oks now nowText events evs =
     (if events = [] then ([], [], evs)
      else let inputs = map (\<lambda>e. (se_workspaceId e, \<lparr>wi_type = se_type e, wi_channelId = None,
                 wi_payload = transformForClient (buildEvent nowText (se_type e) (se_workspaceId e) (se_data e) None)\<rparr>)) events;
               (frames, evs') = appendAndPublishWorkspaceEventBatch oks now inputs evs
           in (frames, filter (\<lambda>e. nodeFrameKindFor (se_type e) = FrameContext) events, evs'))"

subsection \<open>Reading the log\<close>

text \<open>\<open>channelsById.get(event.channel_id)?.name\<close>\<close>

definition channel_name_by_id :: "channel_row list \<Rightarrow> id \<Rightarrow> string option \<Rightarrow> string option" where
  "channel_name_by_id channels workspaceId channelId =
     (case truthy channelId of None \<Rightarrow> None
      | Some i \<Rightarrow> map_option ch_name (first_row (filter (\<lambda>c. ch_ws c = workspaceId \<and> ch_id c = i) channels)))"

definition backfill_event :: "channel_row list \<Rightarrow> id \<Rightarrow> wevent_view \<Rightarrow> obj" where
  "backfill_event channels workspaceId e =
     (let payload = wv_payload e; name = channel_name_by_id channels workspaceId (wv_channel_id e);
          o1 = with_prop ''type'' (JStr (wv_type e)) payload;
          o2 = (case truthy (wv_channel_id e) of None \<Rightarrow> o1 | Some c \<Rightarrow> with_prop ''channel_id'' (JStr c) o1)
      in case truthy name of None \<Rightarrow> o2
         | Some n \<Rightarrow> if str_prop payload ''channel'' = None then with_prop ''channel'' (JStr n) o2 else o2)"

definition filterObserverWorkspaceEvents ::
  "(string \<Rightarrow> ms option) \<Rightarrow> 'a observer_grant_scheme option \<Rightarrow> channel_row list \<Rightarrow> id \<Rightarrow> wevent_view list \<Rightarrow> wevent_view list" where
  "filterObserverWorkspaceEvents date observer channels workspaceId events =
     (if observer = None \<or> events = [] then events
      else filter (\<lambda>e. observerAllowsEvent date observer (backfill_event channels workspaceId e)) events)"

definition SCAN_CAP_ROWS :: nat where "SCAN_CAP_ROWS = 2000"

record event_page =
  ep_events :: "wevent_view list"
  ep_latest_seq :: int
  ep_next_since :: int

text \<open>The loop of the handler; \<open>page\<close> is \<open>listWorkspaceEvents\<close> and \<open>allow\<close> the filter.\<close>

function scan_events ::
  "(int \<Rightarrow> wevent_view list \<times> int) \<Rightarrow> (wevent_view list \<Rightarrow> wevent_view list) \<Rightarrow> nat \<Rightarrow> wevent_view list \<Rightarrow> int \<Rightarrow> int \<Rightarrow> nat \<Rightarrow> event_page" where
  "scan_events page allow limit visible cursor latestSeq scanned =
     (if \<not> (length visible < limit \<and> scanned < SCAN_CAP_ROWS)
      then \<lparr>ep_events = visible, ep_latest_seq = latestSeq, ep_next_since = cursor\<rparr>
      else let (events, latestSeq) = page cursor
           in if length events = 0 then \<lparr>ep_events = visible, ep_latest_seq = latestSeq, ep_next_since = cursor\<rparr>
              else let visible' = visible @ take (limit - length visible) (allow events);
                       cursor' = (if length visible' \<ge> limit then wv_seq (last visible') else wv_seq (last events))
                   in if length visible' \<ge> limit \<or> cursor' \<ge> latestSeq
                      then \<lparr>ep_events = visible', ep_latest_seq = latestSeq, ep_next_since = cursor'\<rparr>
                      else scan_events page allow limit visible' cursor' latestSeq (scanned + length events))"
  by pat_completeness auto
termination
  by (relation "measure (\<lambda>(_, _, _, _, _, _, scanned). SCAN_CAP_ROWS - scanned)") (auto intro!: diff_less_mono2)

declare scan_events.simps [simp del]

definition workspaceEventsPage ::
  "(string \<Rightarrow> ms option) \<Rightarrow> (string \<Rightarrow> json option) \<Rightarrow> 'a observer_grant_scheme option \<Rightarrow> channel_row list \<Rightarrow> wevent_row list \<Rightarrow> id
     \<Rightarrow> nat \<Rightarrow> int \<Rightarrow> event_page" where
  "workspaceEventsPage date parse observer channels evs workspaceId limit since =
     scan_events (\<lambda>cursor. listWorkspaceEvents parse evs workspaceId (Some cursor) (Some (int limit)))
       (filterObserverWorkspaceEvents date observer channels workspaceId) limit [] since 0 0"
subsection \<open>Pages\<close>

text \<open>A list of views in strictly increasing order of their numbers.\<close>

definition ordered :: "wevent_view list \<Rightarrow> bool" where
  "ordered vs \<longleftrightarrow> sorted_wrt (\<lambda>x y. wv_seq x < wv_seq y) vs"

lemma ordered_simps [simp]:
  "ordered []" "ordered (v # vs) \<longleftrightarrow> (\<forall>w \<in> set vs. wv_seq v < wv_seq w) \<and> ordered vs"
  "ordered (xs @ ys) \<longleftrightarrow> ordered xs \<and> ordered ys \<and> (\<forall>x \<in> set xs. \<forall>y \<in> set ys. wv_seq x < wv_seq y)"
  by (auto simp: ordered_def sorted_wrt_append)

lemma ordered_filter: "ordered vs \<Longrightarrow> ordered (filter P vs)"
  by (simp add: ordered_def sorted_wrt_filter)

text \<open>The rows of a strictly increasing list up to its last row, or up to the last of the first k that are allowed.\<close>

lemma upto_last: "ordered vs \<Longrightarrow> vs \<noteq> [] \<Longrightarrow> filter (\<lambda>v. wv_seq v \<le> wv_seq (last vs)) vs = vs"
  by (induction vs rule: rev_induct) (auto simp: filter_id_conv intro: less_imp_le)

lemma upto_take: "ordered vs \<Longrightarrow> x \<in> set (take k vs) \<Longrightarrow> filter (\<lambda>v. wv_seq v \<le> wv_seq x) vs = filter (\<lambda>v. wv_seq v \<le> wv_seq x) (take k vs)"
proof -
  assume "ordered vs" and x: "x \<in> set (take k vs)"
  then have "ordered (take k vs @ drop k vs)" by simp
  then have "\<forall>y \<in> set (drop k vs). wv_seq x < wv_seq y" unfolding ordered_simps using x by blast
  then have "filter (\<lambda>v. wv_seq v \<le> wv_seq x) (drop k vs) = []" by (auto simp: filter_empty_conv)
  moreover have "filter (\<lambda>v. wv_seq v \<le> wv_seq x) (take k vs @ drop k vs)
      = filter (\<lambda>v. wv_seq v \<le> wv_seq x) (take k vs) @ filter (\<lambda>v. wv_seq v \<le> wv_seq x) (drop k vs)"
    by (rule filter_append)
  ultimately show ?thesis by simp
qed

lemma ordered_take: "ordered vs \<Longrightarrow> ordered (take k vs)"
  by (metis append_take_drop_id ordered_simps(3))

lemma upto_kth:
  assumes "ordered vs" "take k (filter A vs) \<noteq> []"
  shows "filter A (filter (\<lambda>v. wv_seq v \<le> wv_seq (last (take k (filter A vs)))) vs) = take k (filter A vs)"
proof -
  have "filter (\<lambda>v. wv_seq v \<le> wv_seq (last (take k (filter A vs)))) (filter A vs) = take k (filter A vs)"
    using upto_take [OF ordered_filter [OF assms(1)] last_in_set [OF assms(2)]]
      upto_last [OF ordered_take [OF ordered_filter [OF assms(1)]] assms(2)] by simp
  then show ?thesis by (simp add: filter_filter conj_commute)
qed

lemma rows_split:
  assumes "ordered vs" "a \<le> b"
  shows "filter (\<lambda>v. a < wv_seq v) vs = filter (\<lambda>v. a < wv_seq v \<and> wv_seq v \<le> b) vs @ filter (\<lambda>v. b < wv_seq v) vs"
  using assms(1)
proof (induction vs)
  case (Cons v vs)
  have "filter (\<lambda>v. a < wv_seq v \<and> wv_seq v \<le> b) vs = []" if "b < wv_seq v"
    using that Cons.prems by (fastforce simp: filter_empty_conv)
  then show ?case using Cons assms(2) by auto
qed simp

text \<open>What a read of the log promises, if its rows are well numbered: the first \<open>limit\<close> of the rows after the cursor.\<close>

locale log_reader =
  fixes page :: "int \<Rightarrow> wevent_view list \<times> int" and rows :: "wevent_view list" and limit :: nat and numbered :: bool
  assumes rows_ordered: "numbered \<Longrightarrow> ordered rows"
    and page_rows: "numbered \<Longrightarrow> fst (page c) = take limit (filter (\<lambda>v. c < wv_seq v) rows)"
    and positive: "0 < limit"
begin

definition between :: "int \<Rightarrow> int \<Rightarrow> wevent_view list" where
  "between a b = filter (\<lambda>v. a < wv_seq v \<and> wv_seq v \<le> b) rows"

lemma between_split: "numbered \<Longrightarrow> a \<le> b \<Longrightarrow> b \<le> c \<Longrightarrow> between a c = between a b @ between b c"
proof -
  assume n: numbered and le: "a \<le> b" "b \<le> c"
  have "filter (\<lambda>v. a < wv_seq v \<and> wv_seq v \<le> c) rows = filter (\<lambda>v. wv_seq v \<le> c) (filter (\<lambda>v. a < wv_seq v) rows)"
    by (simp add: filter_filter conj_commute)
  also have "\<dots> = between a b @ between b c"
    using le unfolding rows_split [OF rows_ordered [OF n] le(1)] by (auto simp: between_def filter_filter intro: filter_cong)
  finally show ?thesis by (simp add: between_def)
qed

lemma page_between:
  assumes numbered "x \<in> set (fst (page c))"
  shows "between c (wv_seq x) = filter (\<lambda>v. wv_seq v \<le> wv_seq x) (fst (page c))"
  using upto_take [OF ordered_filter [OF rows_ordered, of "\<lambda>v. c < wv_seq v"], of x limit] assms
  by (simp add: between_def page_rows filter_filter conj_commute)

lemma page_ordered: "numbered \<Longrightarrow> ordered (fst (page c))"
  by (simp add: page_rows ordered_take ordered_filter rows_ordered)

lemma page_after: "numbered \<Longrightarrow> x \<in> set (fst (page c)) \<Longrightarrow> c < wv_seq x"
  by (auto simp: page_rows dest: in_set_takeD)

text \<open>One turn of the loop: the rows taken from a page are those up to the next cursor that are allowed.\<close>

lemma turn:
  assumes numbered: numbered and "visible = filter A (between since cursor)" "since \<le> cursor" "length visible < limit" "fst (page cursor) \<noteq> []"
    and visible': "visible' = visible @ take (limit - length visible) (filter A (fst (page cursor)))"
    and cursor': "cursor' = (if limit \<le> length visible' then wv_seq (last visible') else wv_seq (last (fst (page cursor))))"
  shows "visible' = filter A (between since cursor') \<and> cursor < cursor' \<and> length visible' \<le> limit"
proof -
  let ?p = "fst (page cursor)"
  have nxt: "filter A (between cursor cursor') = take (limit - length visible) (filter A ?p) \<and> cursor < cursor'"
  proof (cases "limit \<le> length visible'")
    case True
    then have ne: "take (limit - length visible) (filter A ?p) \<noteq> []" using assms(4) visible' by auto
    then have x: "last visible' = last (take (limit - length visible) (filter A ?p))" by (simp add: visible')
    have mem: "last visible' \<in> set ?p" using last_in_set [OF ne] x by (auto dest: in_set_takeD)
    show ?thesis
      using True page_between [OF numbered mem] upto_kth [OF page_ordered [OF numbered] ne] page_after [OF numbered mem] x by (simp add: cursor')
  next
    case False
    have mem: "last ?p \<in> set ?p" using assms(5) by simp
    have "filter A (between cursor cursor') = filter A ?p"
      using False page_between [OF numbered mem] upto_last [OF page_ordered [OF numbered] assms(5)] by (simp add: cursor')
    moreover have "take (limit - length visible) (filter A ?p) = filter A ?p" using False by (simp add: visible' min_def split: if_splits)
    ultimately show ?thesis using page_after [OF numbered mem] False by (simp add: cursor')
  qed
  then have "between since cursor' = between since cursor @ between cursor cursor'" using assms(3) numbered by (intro between_split) auto
  then show ?thesis using nxt assms(2,4) by (simp add: visible')
qed

text \<open>The loop ends with what the filter lets through up to the cursor that it returns, and moves on unless no row is left.\<close>

lemma scan_exact:
  assumes numbered and "visible = filter A (between since cursor)" "since \<le> cursor" "length visible \<le> limit"
    and "p = scan_events page (filter A) limit visible cursor latest scanned"
  shows "ep_events p = filter A (between since (ep_next_since p)) \<and> cursor \<le> ep_next_since p \<and> length (ep_events p) \<le> limit"
  using assms
proof (induction "SCAN_CAP_ROWS - scanned" arbitrary: visible cursor latest scanned p rule: less_induct)
  case less
  show ?case
  proof (cases "length visible < limit \<and> scanned < SCAN_CAP_ROWS \<and> fst (page cursor) \<noteq> []")
    case False
    then have "ep_events p = visible \<and> ep_next_since p = cursor"
      using less.prems(5) by (auto simp: scan_events.simps [of page "filter A" limit visible] split: prod.splits)
    then show ?thesis using less.prems by simp
  next
    case True
    define visible' where "visible' = visible @ take (limit - length visible) (filter A (fst (page cursor)))"
    define cursor' where "cursor' = (if limit \<le> length visible' then wv_seq (last visible') else wv_seq (last (fst (page cursor))))"
    have t: "visible' = filter A (between since cursor') \<and> cursor < cursor' \<and> length visible' \<le> limit"
      by (rule turn [OF less.prems(1-3) _ _ visible'_def cursor'_def]) (use True in auto)
    have p: "p = (if limit \<le> length visible' \<or> snd (page cursor) \<le> cursor'
        then \<lparr>ep_events = visible', ep_latest_seq = snd (page cursor), ep_next_since = cursor'\<rparr>
        else scan_events page (filter A) limit visible' cursor' (snd (page cursor)) (scanned + length (fst (page cursor))))"
      using True unfolding less.prems(5) scan_events.simps [of page "filter A" limit visible] visible'_def [symmetric]
      by (simp add: Let_def case_prod_beta visible'_def [symmetric] cursor'_def)
    show ?thesis
    proof (cases "limit \<le> length visible' \<or> snd (page cursor) \<le> cursor'")
      case False
      have "SCAN_CAP_ROWS - (scanned + length (fst (page cursor))) < SCAN_CAP_ROWS - scanned"
        using True by (intro diff_less_mono2) auto
      from less.hyps [OF this, of visible' cursor' p "snd (page cursor)"] show ?thesis using t less.prems(1,3) False p by auto
    qed (use t p in auto)
  qed
qed

lemma scan_progress:
  assumes numbered: numbered and p: "p = scan_events page (filter A) limit [] since latest 0"
  shows "(\<exists>v \<in> set rows. since < wv_seq v \<and> wv_seq v \<le> ep_next_since p)
    \<or> filter (\<lambda>v. since < wv_seq v) rows = [] \<and> ep_next_since p = since"
proof (cases "fst (page since) = []")
  case True
  then have "ep_next_since p = since"
    unfolding p by (simp add: scan_events.simps [of page "filter A" limit "[]"] case_prod_beta Let_def)
  then show ?thesis using True positive numbered by (simp add: page_rows)
next
  case False
  define visible' where "visible' = take limit (filter A (fst (page since)))"
  define cursor' where "cursor' = (if limit \<le> length visible' then wv_seq (last visible') else wv_seq (last (fst (page since))))"
  have t: "visible' = filter A (between since cursor') \<and> since < cursor' \<and> length visible' \<le> limit"
    by (rule turn [OF numbered, of "[]"]) (use positive False in \<open>auto simp: between_def visible'_def cursor'_def\<close>)
  have "\<exists>x \<in> set (fst (page since)). cursor' = wv_seq x"
  proof (cases "limit \<le> length visible'")
    case True
    then have "visible' \<noteq> []" using positive by auto
    moreover have "set visible' \<subseteq> set (fst (page since))" by (auto simp: visible'_def dest: in_set_takeD)
    ultimately have "last visible' \<in> set (fst (page since))" using last_in_set by blast
    then show ?thesis using True by (auto simp: cursor'_def)
  qed (use False in \<open>auto simp: cursor'_def\<close>)
  then obtain x where x: "x \<in> set rows" "since < wv_seq x" "wv_seq x = cursor'"
    using page_rows [OF numbered] that by (auto dest!: in_set_takeD)
  have q: "p = (if limit \<le> length visible' \<or> snd (page since) \<le> cursor'
        then \<lparr>ep_events = visible', ep_latest_seq = snd (page since), ep_next_since = cursor'\<rparr>
        else scan_events page (filter A) limit visible' cursor' (snd (page since)) (0 + length (fst (page since))))"
    using False positive unfolding p scan_events.simps [of page "filter A" limit "[]"]
    by (simp add: Let_def case_prod_beta visible'_def [symmetric] cursor'_def SCAN_CAP_ROWS_def)
  show ?thesis
  proof (cases "limit \<le> length visible' \<or> snd (page since) \<le> cursor'")
    case False
    then have "cursor' \<le> ep_next_since p"
      using scan_exact [OF numbered, of visible' A since cursor' p "snd (page since)" "0 + length (fst (page since))"] t q by auto
    then show ?thesis using x by auto
  qed (use x q in auto)
qed

end

text \<open>The numbers of a workspace are distinct and positive: its primary key, and how they are allocated.\<close>

definition well_numbered :: "wevent_row list \<Rightarrow> id \<Rightarrow> bool" where
  "well_numbered evs ws \<longleftrightarrow> distinct (seqs_of evs ws) \<and> list_all (\<lambda>s. 0 < s) (seqs_of evs ws)"

definition workspace_rows :: "(string \<Rightarrow> json option) \<Rightarrow> wevent_row list \<Rightarrow> id \<Rightarrow> wevent_view list" where
  "workspace_rows parse evs ws = map (wevent_view_of parse) (sort_key we_seq (filter (\<lambda>e. we_ws e = ws) evs))"

lemma sort_key_filter: "sort_key f (filter P xs) = filter P (sort_key f xs)"
  by (simp add: filter_sort)

lemma ordered_rows: "well_numbered evs ws \<Longrightarrow> ordered (workspace_rows parse evs ws)"
proof -
  assume "well_numbered evs ws"
  then have "distinct (map we_seq (filter (\<lambda>e. we_ws e = ws) evs))" by (simp add: well_numbered_def seqs_of_def)
  then have "distinct (map we_seq (sort_key we_seq (filter (\<lambda>e. we_ws e = ws) evs)))"
    by (metis distinct_map distinct_sort set_sort)
  then have "sorted_wrt (<) (map we_seq (sort_key we_seq (filter (\<lambda>e. we_ws e = ws) evs)))"
    by (simp add: strict_sorted_iff)
  then show ?thesis by (simp add: workspace_rows_def ordered_def sorted_wrt_map wevent_view_of_def)
qed

interpretation log_page: log_reader "\<lambda>cursor. listWorkspaceEvents parse evs ws (Some cursor) (Some (int limit))"
  "workspace_rows parse evs ws" "list_limit (Some (int limit))" "well_numbered evs ws" for parse evs ws limit
proof
  show "0 < list_limit (Some (int limit))" by (simp add: list_limit_def WORKSPACE_EVENT_LIST_MAX_LIMIT_def)
  fix c assume n: "well_numbered evs ws"
  have "(max 0 c < we_seq e) = (c < we_seq e)" if "e \<in> set (filter (\<lambda>e. we_ws e = ws) evs)" for e
    using n that by (auto simp: well_numbered_def seqs_of_def list_all_iff)
  then have "events_after evs ws (max 0 c) = filter (\<lambda>e. c < we_seq e) (filter (\<lambda>e. we_ws e = ws) evs)"
    by (auto simp: events_after_def filter_filter intro: filter_cong)
  then show "fst (listWorkspaceEvents parse evs ws (Some c) (Some (int limit)))
      = take (list_limit (Some (int limit))) (filter (\<lambda>v. c < wv_seq v) (workspace_rows parse evs ws))"
    by (simp add: listWorkspaceEvents_def Let_def order_limit_def workspace_rows_def sort_key_filter
        filter_map comp_def wevent_view_of_def take_map)
qed (rule ordered_rows)

definition visible_to ::
  "(string \<Rightarrow> ms option) \<Rightarrow> 'a observer_grant_scheme option \<Rightarrow> channel_row list \<Rightarrow> id \<Rightarrow> wevent_view \<Rightarrow> bool" where
  "visible_to date observer channels ws e \<longleftrightarrow> observerAllowsEvent date observer (backfill_event channels ws e)"

lemma filter_events_eq: "filterObserverWorkspaceEvents date observer channels ws = filter (visible_to date observer channels ws)"
proof
  fix vs
  have none: "observerAllowsEvent date None e = True" for e by (simp add: observerAllowsEvent_def)
  show "filterObserverWorkspaceEvents date observer channels ws vs = filter (visible_to date observer channels ws) vs"
    by (cases observer) (simp_all add: filterObserverWorkspaceEvents_def visible_to_def [abs_def] none)
qed

lemma page_limit: "1 \<le> limit \<Longrightarrow> limit \<le> 500 \<Longrightarrow> list_limit (Some (int limit)) = limit"
  by (simp add: list_limit_def WORKSPACE_EVENT_LIST_MAX_LIMIT_def)

text \<open>A page of the event log is exact. Whatever the token hides, the events of a page are precisely the visible rows
  between the cursor of the request and the cursor it returns, at most as many as asked for, and the returned cursor
  has passed at least one row, unless none was left: hidden rows neither stall the reader nor make it skip a visible one.\<close>
lemma page_is_exact:
  assumes "well_numbered evs ws" "1 \<le> limit" "limit \<le> 500"
    and "p = workspaceEventsPage date parse observer channels evs ws limit since"
  shows "ep_events p = filter (visible_to date observer channels ws)
         (filter (\<lambda>v. since < wv_seq v \<and> wv_seq v \<le> ep_next_since p) (workspace_rows parse evs ws))
    \<and> length (ep_events p) \<le> limit \<and> since \<le> ep_next_since p
    \<and> ((\<exists>v \<in> set (workspace_rows parse evs ws). since < wv_seq v \<and> wv_seq v \<le> ep_next_since p)
       \<or> filter (\<lambda>v. since < wv_seq v) (workspace_rows parse evs ws) = [] \<and> ep_next_since p = since)"
proof -
  have p: "p = scan_events (\<lambda>cursor. listWorkspaceEvents parse evs ws (Some cursor) (Some (int limit)))
       (filter (visible_to date observer channels ws)) (list_limit (Some (int limit))) [] since 0 0"
    using assms(4) page_limit [OF assms(2,3)] by (simp add: workspaceEventsPage_def filter_events_eq)
  have "[] = filter (visible_to date observer channels ws) (log_page.between parse evs ws since since)"
    by (auto simp: log_page.between_def)
  from log_page.scan_exact [OF assms(1) this order_refl _ p] log_page.scan_progress [OF assms(1) p] show ?thesis
    using page_limit [OF assms(2,3)] by (auto simp: log_page.between_def)
qed

text \<open>A client that asks for page after page, each from the cursor of the last, until the cursor stands still.\<close>

fun follow :: "(int \<Rightarrow> event_page) \<Rightarrow> nat \<Rightarrow> int \<Rightarrow> wevent_view list option" where
  "follow ask 0 since = None"
| "follow ask (Suc n) since =
     (let p = ask since in if ep_next_since p = since then Some (ep_events p)
      else map_option (\<lambda>more. ep_events p @ more) (follow ask n (ep_next_since p)))"

lemma follow_complete:
  assumes "well_numbered evs ws" "1 \<le> limit" "limit \<le> 500"
    and "length (filter (\<lambda>v. since < wv_seq v) (workspace_rows parse evs ws)) < n"
  shows "follow (workspaceEventsPage date parse observer channels evs ws limit) n since
      = Some (filter (visible_to date observer channels ws) (filter (\<lambda>v. since < wv_seq v) (workspace_rows parse evs ws)))"
  using assms(4)
proof (induction n arbitrary: since)
  case (Suc n)
  define p where "p = workspaceEventsPage date parse observer channels evs ws limit since"
  let ?rows = "workspace_rows parse evs ws" and ?V = "visible_to date observer channels ws"
  have page: "ep_events p = filter ?V (filter (\<lambda>v. since < wv_seq v \<and> wv_seq v \<le> ep_next_since p) ?rows)"
    "since \<le> ep_next_since p" "(\<exists>v \<in> set ?rows. since < wv_seq v \<and> wv_seq v \<le> ep_next_since p)
       \<or> filter (\<lambda>v. since < wv_seq v) ?rows = [] \<and> ep_next_since p = since"
    using page_is_exact [OF assms(1-3) p_def] by blast+
  show ?case
  proof (cases "ep_next_since p = since")
    case True
    then have "filter (\<lambda>v. since < wv_seq v) ?rows = []" using page(3) by auto
    moreover have "ep_events p = []" using page(1) True by simp
    ultimately show ?thesis using True by (simp only: follow.simps Let_def p_def [symmetric] if_True filter.simps simp_thms)
  next
    case False
    note split = rows_split [OF ordered_rows [OF assms(1)] page(2), of parse]
    have "filter (\<lambda>v. since < wv_seq v \<and> wv_seq v \<le> ep_next_since p) ?rows \<noteq> []"
      using page(3) False by (auto simp: filter_empty_conv)
    then have "0 < length (filter (\<lambda>v. since < wv_seq v \<and> wv_seq v \<le> ep_next_since p) ?rows)" by simp
    then have "length (filter (\<lambda>v. ep_next_since p < wv_seq v) ?rows) < n"
      using Suc.prems unfolding split length_append by linarith
    from Suc.IH [OF this] show ?thesis using False by (simp add: p_def [symmetric] page(1) split)
  qed
qed simp

text \<open>C2: A client that reads the event log page by page, following the returned cursor, is done after at most one page
  more than there are rows, and has then seen every row that its token may see, once each and in the order of their
  numbers: pages full of hidden rows neither stall it nor make it skip a visible one, and no page exceeds the limit.\<close>
theorem paging_is_complete:
  assumes "well_numbered evs ws" "1 \<le> limit" "limit \<le> 500"
    and "length (filter (\<lambda>v. since < wv_seq v) (workspace_rows parse evs ws)) < n"
  shows "follow (workspaceEventsPage date parse observer channels evs ws limit) n since
      = Some (filter (visible_to date observer channels ws) (filter (\<lambda>v. since < wv_seq v) (workspace_rows parse evs ws)))
    \<and> length (ep_events (workspaceEventsPage date parse observer channels evs ws limit since)) \<le> limit"
  using follow_complete [OF assms] page_is_exact [OF assms(1-3) refl] by blast

definition ex_log_row :: "int \<Rightarrow> wevent_row" where
  "ex_log_row n = \<lparr>we_ws = ''w'', we_seq = n, we_type = ''thread.reply'', we_channelId = Some ''c'', we_payload = ''{}'', we_createdAt = 0\<rparr>"

lemma paging_is_complete_witness:
  "map_option (map wv_seq) (follow (workspaceEventsPage (\<lambda>_. None) (\<lambda>_. None) (None :: observer_grant option) [] [ex_log_row 7, ex_log_row 4] ''w'' 1) 3 0)
    = Some [4, 7]"
proof -
  have "well_numbered [ex_log_row 7, ex_log_row 4] ''w''"
    by (simp add: well_numbered_def seqs_of_def ex_log_row_def)
  moreover have "workspace_rows (\<lambda>_. None) [ex_log_row 7, ex_log_row 4] ''w''
      = [wevent_view_of (\<lambda>_. None) (ex_log_row 4), wevent_view_of (\<lambda>_. None) (ex_log_row 7)]"
    by (simp add: workspace_rows_def ex_log_row_def)
  ultimately show ?thesis
    using paging_is_complete [of "[ex_log_row 7, ex_log_row 4]" "''w''" 1 0 "\<lambda>_. None" 3 "\<lambda>_. None" "None :: observer_grant option" "[]"]
    by (simp add: visible_to_def observerAllowsEvent_def wevent_view_of_def ex_log_row_def)
qed

subsection \<open>Live and from the log\<close>

lemma map_of_with_prop: "map_of (with_prop k v kvs) x = (if x = k then Some v else map_of kvs x)"
proof -
  have other: "map_of (map (\<lambda>(k', v'). (k', if k' = k then v else v')) kvs) x = map_of kvs x" if "x \<noteq> k"
    using that by (induction kvs) auto
  have "map_of (map (\<lambda>(k', v'). (k', if k' = k then v else v')) kvs) k = Some v" if "k \<in> fst ` set kvs"
    using that by (induction kvs) auto
  moreover have "map_of kvs k = None" if "k \<notin> fst ` set kvs" using that by (simp add: map_of_eq_None_iff)
  ultimately show ?thesis using other by (auto simp: with_prop_def map_add_def split: option.split)
qed

lemma str_prop_with_prop:
  "str_prop (with_prop k v kvs) x = (if x = k then (case v of JStr s \<Rightarrow> Some s | _ \<Rightarrow> None) else str_prop kvs x)"
  by (simp add: str_prop_def map_of_with_prop split: json.splits)

lemmas with_prop_simps = map_of_with_prop str_prop_with_prop

text \<open>The number that a frame is stamped with is not among what the checks read.\<close>

lemma allows_stamped: "observerAllowsEvent date observer (stamp s payload) = observerAllowsEvent date observer payload"
proof (cases observer)
  case (Some ob)
  have "event_type (stamp s payload) = event_type payload \<and> eventCreatedAt (stamp s payload) = eventCreatedAt payload
      \<and> eventAgentId (stamp s payload) = eventAgentId payload \<and> eventChannelName (stamp s payload) = eventChannelName payload
      \<and> str_prop (stamp s payload) ''channel_id'' = str_prop payload ''channel_id''
      \<and> str_prop (stamp s payload) ''conversation_id'' = str_prop payload ''conversation_id''"
    by (simp add: stamp_def event_type_def eventCreatedAt_def eventAgentId_def eventChannelName_def with_prop_simps split: option.split)
  then show ?thesis unfolding Some allows_event_iff event_in_place_def by simp
qed (simp add: observerAllowsEvent_def)

text \<open>The types whose client event names the channel of the internal one.\<close>

definition channel_types :: "string list" where
  "channel_types = [''message.created'', ''message.updated'', ''thread.reply'', ''message.reacted'', ''message.read'',
     ''channel.created'', ''channel.updated'', ''channel.archived'', ''member.joined'', ''member.left'', ''webhook.received'']"

lemma channel_of_event:
  assumes "wse_channel_id event = Some c" "c \<noteq> []"
  shows "map_of (message_created_event event) ''channel_id'' = Some (JStr c)"
    "map_of (message_updated_event event) ''channel_id'' = Some (JStr c)"
    "map_of (thread_reply_event event) ''channel_id'' = Some (JStr c)"
    "map_of (reaction_event event) ''channel_id'' = Some (JStr c)"
    "map_of (message_read_event event) ''channel_id'' = Some (JStr c)"
    "map_of (channel_event event) ''channel_id'' = Some (JStr c)"
    "map_of (channel_archived_event event) ''channel_id'' = Some (JStr c)"
    "map_of (member_event event) ''channel_id'' = Some (JStr c)"
    "map_of (webhook_received_event event) ''channel_id'' = Some (JStr c)"
  by (simp_all add: message_created_event_def message_updated_event_def thread_reply_event_def reaction_event_def
      message_read_event_def channel_event_def channel_archived_event_def member_event_def webhook_received_event_def Let_def
      map_of_when_truthy assms channel_id_of_def created_at_of_def nullish_json_def map_add_Some_iff)

lemma type_of_event:
  "map_of (message_created_event event) ''type'' = Some (JStr ''message.created'')"
  "map_of (message_updated_event event) ''type'' = Some (JStr ''message.updated'')"
  "map_of (thread_reply_event event) ''type'' = Some (JStr ''thread.reply'')"
  "map_of (reaction_event event) ''type'' = Some (JStr ''message.reacted'')"
  "map_of (message_read_event event) ''type'' = Some (JStr ''message.read'')"
  "map_of (channel_event event) ''type'' = Some (JStr (wse_type event))"
  "map_of (channel_archived_event event) ''type'' = Some (JStr ''channel.archived'')"
  "map_of (member_event event) ''type'' = Some (JStr (wse_type event))"
  "map_of (webhook_received_event event) ''type'' = Some (JStr ''webhook.received'')"
  by (simp_all add: message_created_event_def message_updated_event_def thread_reply_event_def reaction_event_def
      message_read_event_def channel_event_def channel_archived_event_def member_event_def webhook_received_event_def Let_def
      map_of_when_truthy channel_id_of_def created_at_of_def)

lemma transform_channel_cases:
  "wse_type event = ''message.created'' \<Longrightarrow> transformForClient event = message_created_event event"
  "wse_type event = ''message.updated'' \<Longrightarrow> transformForClient event = message_updated_event event"
  "wse_type event = ''channel.created'' \<Longrightarrow> transformForClient event = channel_event event"
  "wse_type event = ''channel.updated'' \<Longrightarrow> transformForClient event = channel_event event"
  "wse_type event = ''channel.archived'' \<Longrightarrow> transformForClient event = channel_archived_event event"
  "wse_type event = ''member.joined'' \<Longrightarrow> transformForClient event = member_event event"
  "wse_type event = ''member.left'' \<Longrightarrow> transformForClient event = member_event event"
  "wse_type event = ''webhook.received'' \<Longrightarrow> transformForClient event = webhook_received_event event"
  by (simp_all add: transformForClient_def)

lemma transform_channel:
  assumes "wse_type event \<in> set channel_types" "wse_channel_id event = Some c" "c \<noteq> []"
  shows "map_of (transformForClient event) ''channel_id'' = Some (JStr c)
    \<and> map_of (transformForClient event) ''type'' = Some (JStr (wse_type event))"
proof -
  have "wse_type event = ''message.created'' \<or> wse_type event = ''message.updated'' \<or> wse_type event = ''thread.reply''
      \<or> wse_type event = ''message.reacted'' \<or> wse_type event = ''message.read'' \<or> wse_type event = ''channel.created''
      \<or> wse_type event = ''channel.updated'' \<or> wse_type event = ''channel.archived'' \<or> wse_type event = ''member.joined''
      \<or> wse_type event = ''member.left'' \<or> wse_type event = ''webhook.received''"
    using assms(1) by (simp add: channel_types_def)
  then show ?thesis
    by (elim disjE) (simp_all only: transform_cases(1-3) transform_channel_cases channel_of_event [OF assms(2,3)] type_of_event simp_thms)
qed

lemma backfill_reads:
  assumes "str_prop payload ''type'' = Some (wv_type e)" "str_prop payload ''channel_id'' = wv_channel_id e" "wv_payload e = payload"
    and "truthy (wv_channel_id e) \<noteq> None"
  shows "event_type (backfill_event channels ws e) = event_type payload"
    "str_prop (backfill_event channels ws e) ''channel_id'' = str_prop payload ''channel_id''"
    "eventCreatedAt (backfill_event channels ws e) = eventCreatedAt payload"
    "eventAgentId (backfill_event channels ws e) = eventAgentId payload"
    "str_prop (backfill_event channels ws e) ''conversation_id'' = str_prop payload ''conversation_id''"
  using assms by (auto simp: backfill_event_def Let_def event_type_def eventCreatedAt_def eventAgentId_def with_prop_simps truthy_def
      split: option.split list.splits)

lemma backfill_name:
  assumes "wv_payload e = payload"
    and "eventChannelName payload = None \<or> eventChannelName payload = channel_name_by_id channels ws (wv_channel_id e)"
  shows "eventChannelName payload = None \<or> eventChannelName (backfill_event channels ws e) = eventChannelName payload"
  using assms by (auto simp: backfill_event_def Let_def eventChannelName_def with_prop_simps truthy_def
      split: option.splits list.splits)

text \<open>The row of the log that holds an event. Its payload is stored as JSON text and parsed when it is read
  (\<open>parsePayload\<close>); here it is the value that was written.\<close>

definition logged :: "int \<Rightarrow> sec \<Rightarrow> ws_event \<Rightarrow> wevent_view" where
  "logged s now event =
     \<lparr>wv_seq = s, wv_type = wse_type event, wv_channel_id = wse_channel_id event, wv_payload = transformForClient event, wv_created_at = now\<rparr>"

lemma in_place_more_names:
  assumes "event_in_place (Some ob) type live" "truthy (str_prop live ''channel_id'') \<noteq> None"
    and "str_prop later ''channel_id'' = str_prop live ''channel_id''" "str_prop later ''conversation_id'' = str_prop live ''conversation_id''"
    and "eventChannelName live = None \<or> eventChannelName later = eventChannelName live"
  shows "event_in_place (Some ob) type later"
  using assms by (auto simp: event_in_place_def Let_def allows_channel_iff listed_iff truthy_def split: if_splits option.splits list.splits)

text \<open>C11: The log hides nothing that was shown live: a channel event (a message, an edit, a thread reply, a reaction, a read
  receipt, a change of the channel or of its members) whose stamped frame passes the checks of the live stream passes
  them as a row of the log too, for every token; and where the frame itself names the channel, the two checks
  agree.\<close>
theorem backfill_covers_live:
  assumes "wse_type event \<in> set channel_types" "wse_channel_id event = Some c" "c \<noteq> []"
    and "eventChannelName (transformForClient event) = None
      \<or> eventChannelName (transformForClient event) = channel_name_by_id channels ws (Some c)"
  shows "(observerAllowsEvent date observer (stamp seq (transformForClient event))
       \<longrightarrow> visible_to date observer channels ws (logged s now event))
    \<and> (eventChannelName (transformForClient event) \<noteq> None
       \<longrightarrow> visible_to date observer channels ws (logged s now event)
         = observerAllowsEvent date observer (stamp seq (transformForClient event)))"
proof (cases observer)
  case (Some ob)
  let ?live = "transformForClient event" and ?later = "backfill_event channels ws (logged s now event)"
  have ids: "str_prop ?live ''type'' = Some (wv_type (logged s now event))"
    "str_prop ?live ''channel_id'' = wv_channel_id (logged s now event)" "truthy (str_prop ?live ''channel_id'') \<noteq> None"
    using transform_channel [OF assms(1-3)] assms(2,3) by (auto simp: logged_def str_prop_def truthy_def split: list.splits)
  note same = backfill_reads [OF ids(1,2) _ ids(3)[unfolded ids(2)], of channels ws]
  have name: "eventChannelName ?live = None \<or> eventChannelName ?later = eventChannelName ?live"
    by (rule backfill_name) (use assms(2,4) in \<open>simp_all add: logged_def\<close>)
  have covers: "observerAllowsEvent date (Some ob) ?live \<Longrightarrow> observerAllowsEvent date (Some ob) ?later"
    using in_place_more_names [of ob "event_type ?live" ?live ?later] ids(3) name same unfolding allows_event_iff
    by (simp add: logged_def)
  have "observerAllowsEvent date (Some ob) ?later = observerAllowsEvent date (Some ob) ?live" if "eventChannelName ?live \<noteq> None"
    using name that same unfolding allows_event_iff event_in_place_def by (simp add: logged_def)
  then show ?thesis using covers by (auto simp: Some visible_to_def allows_stamped)
qed (simp add: visible_to_def observerAllowsEvent_def)

definition ex_name_grant :: observer_grant where
  "ex_name_grant = \<lparr>ot_scopes = [''messages:read''], ot_filters = no_filters\<lparr>of_channel_names := Some [''general'']\<rparr>\<rparr>"

definition ex_message :: "string \<Rightarrow> obj \<Rightarrow> ws_event" where
  "ex_message type extra = \<lparr>wse_type = type, wse_workspace_id = ''w'', wse_channel_id = Some ''c1'',
     wse_data = [(''id'', JStr ''m1''), (''agent_id'', JStr ''a1'')] @ extra, wse_timestamp = ''t''\<rparr>"

definition ex_stored_channel :: channel_row where
  "ex_stored_channel = \<lparr>ch_id = ''c1'', ch_ws = ''w'', ch_name = ''general'', ch_channelType = 0, ch_topic = None, ch_metadata = None,
     ch_createdBy = None, ch_createdAt = 0, ch_isArchived = False\<rparr>"

lemma backfill_covers_live_witness:
  "visible_to (\<lambda>_. None) (Some ex_name_grant) [ex_stored_channel] ''w''
     (logged 3 0 (ex_message ''message.created'' [(''channel_name'', JStr ''general'')]))"
proof -
  let ?event = "ex_message ''message.created'' [(''channel_name'', JStr ''general'')]"
  have "eventChannelName (transformForClient ?event) = channel_name_by_id [ex_stored_channel] ''w'' (Some ''c1'')"
    by code_simp
  moreover have "observerAllowsEvent (\<lambda>_. None) (Some ex_name_grant) (stamp (Some 3) (transformForClient ?event))"
    by code_simp
  ultimately show ?thesis
    using backfill_covers_live [of ?event "''c1''" "[ex_stored_channel]" "''w''" "\<lambda>_. None" "Some ex_name_grant" "Some 3" 3 0]
    by (simp add: ex_message_def channel_types_def)
qed

text \<open>The converse fails: a read receipt carries the id of its channel but not its name, so that a token with a list of
  channel names is not shown it live, while the read of the log looks the name up and shows it.\<close>

lemma backfill_shows_more:
  "\<not> observerAllowsEvent (\<lambda>_. None) (Some ex_name_grant) (stamp (Some 3) (transformForClient (ex_message ''message.read'' [])))
    \<and> visible_to (\<lambda>_. None) (Some ex_name_grant) [ex_stored_channel] ''w'' (logged 3 0 (ex_message ''message.read'' []))"
  by code_simp

end
