(* ===== verification/Spec2Isabelle.thy ===== *)
theory Spec2Isabelle
  imports TokenKind DeliveryOutcomes MailboxSteps InvocationSlots Idempotency Snowflake WebhookSteps EventWorker RetentionProps ChannelProps ObserverStream
begin

text \<open>
  A verification library for relaycast, a messaging and dispatch relay for agents. The program is a server in
  TypeScript over a SQL database (SQLite or D1): agents of a workspace send messages to channels, groups and
  each other; nodes host agents and run the actions that others invoke; every recipient has a durable mailbox.
  All sources named below are under \<open>src/packages/engine/src/\<close> unless they say otherwise.

  \<^bold>\<open>How code becomes definitions\<close>

  A table is a list of records (\<open>Schema\<close>, one record per table of \<open>db/schema.ts\<close> with the columns that the
  modelled operations use), the database a record of tables. A SQL statement is a function on it: a WHERE clause
  is a predicate on rows, an UPDATE is \<open>upd_where\<close>, RETURNING is \<open>returning\<close>, a query without ORDER BY gives the
  rows in table order, and \<open>first_row\<close> is the row that \<open>const [row] = await ...\<close> takes. The triggers of the
  migrations are part of the statements that fire them. A function of the engine is a HOL function on that state
  with the guards, early returns and error codes of the code; errors are values of a sum (\<open>coded\<close>: code and HTTP
  status, without the message text). Instants are milliseconds (\<open>ms\<close>) or, in columns of mode \<open>timestamp\<close>, whole
  seconds (\<open>toSec\<close> floors, as the column encoder does). A fresh identifier and the clock are arguments.
  Where another request may run between two statements and it matters, the operation is split at its awaits
  (\<open>MailboxSteps\<close>, \<open>Replay\<close>, \<open>Idempotency\<close>) or its committing statement carries every condition of the code
  and is a step of its own (\<open>InvocationSteps\<close>).

  \<^bold>\<open>Parts, theories and what their lemmas show\<close>

  \<^item> \<open>Prelude\<close>, \<open>JsString\<close>: row updates, paging, stable sorting, decimal text, \<open>trim\<close>; facts used everywhere.
  \<^item> \<open>Crc32\<close>, \<open>Credentials\<close>, \<open>TokenKind\<close> (\<open>src/packages/types/src/credentials.ts\<close>, \<open>auth/credentials.ts\<close>,
    \<open>auth/tokenKind.ts\<close>): encoding, parsing and masking of credentials, the requirement check of routes. Round
    trips, detection of every single changed character by the CRC, and that the mask hides the secret.
  \<^item> \<open>Json\<close> (\<open>canonicalJson\<close> of \<open>engine/action.ts\<close> and its copies): equal text exactly for equal values.
  \<^item> \<open>Mailbox\<close>, \<open>DeliveryPolicy\<close>, \<open>AtomicWrites\<close>, \<open>DeliveryWrites\<close>, \<open>DeliveryOutcomes\<close>, \<open>DeliveryOps\<close>, \<open>DeliverySpec\<close>,
    \<open>DeliverySweeps\<close>, \<open>Replay\<close>, \<open>MailboxSteps\<close> (\<open>engine/deliveryWrites.ts\<close>, \<open>engine/delivery.ts\<close>,
    \<open>engine/receipt.ts\<close>, \<open>engine/message.ts\<close>, \<open>engine/workspaceDeliveryPolicy.ts\<close>, \<open>ports/database.ts\<close>): the
    mailbox. A send inserts one delivery per recipient under the depth limits and numbers it; recipients
    acknowledge, fail, defer or read; sweeps expire; a reconnecting node replays its backlog. \<open>Mailbox\<close> holds the
    invariant \<open>mb_inv\<close> and the locale \<open>mailbox_op\<close>, the contract of every operation that only settles or requeues
    rows, interpreted on each of them; \<open>DeliverySpec\<close> gives the effect of each operation on the abstract mailbox.
    \<open>MailboxSteps\<close> runs them in any interleaving, chunked acknowledgements included.
  \<^item> \<open>Liveness\<close>, \<open>Placement\<close>, \<open>NodeProvider\<close> (\<open>engine/nodeLiveness.ts\<close>, \<open>engine/placement.ts\<close>,
    \<open>engine/nodeProvider.ts\<close>, migration 0071): which node is alive, which node gets a spawn and how its slot is
    reserved, the providers of a node, the actions they materialise and who owns the workspace name of an action.
  \<^item> \<open>Invocations\<close>, \<open>InvocationOps\<close>, \<open>TaskInvocation\<close> (\<open>engine/action.ts\<close>, \<open>engine/invocationClaim.ts\<close>,
    \<open>engine/taskInvocation.ts\<close>): the life of an action invocation, each UPDATE with its compare-and-swap
    conditions; tasks with worker generations and deadlines. \<open>InvocationWrites\<close> holds the statements by which releases,
    the refresh of an action, the deletion of a node (\<open>engine/node.ts\<close>) and the socket owner
    (\<open>adapters/node/realtime.ts\<close>) write invocations. \<open>InvocationSteps\<close> is the state machine over all of
    them (\<open>inv_step\<close>; outcomes are final, an exclusive claim has one winner), except the error path of an inventory
    snapshot, which is shown to reopen a finished invocation; \<open>InvocationSlots\<close> counts the agent
    slots that rows hold against the counters of the nodes, for the three operations that return them.
  \<^item> \<open>KvStore\<close>, \<open>Idempotency\<close> (\<open>ports/kv.ts\<close>, \<open>adapters/node/kv.ts\<close>, \<open>adapters/actor/kv.ts\<close>,
    \<open>middleware/idempotency.ts\<close>): the locale \<open>kv_store\<close> is what a client may rely on, interpreted on both
    adapters; \<open>runIdempotent\<close> is verified on any store that may fail, and its retries on the contract.
  \<^item> \<open>Snowflake\<close> (\<open>engine/snowflake.ts\<close>): identifiers, with 32-bit hashing of the worker name.
  \<^item> \<open>Ssrf\<close>, \<open>StandardWebhook\<close> (\<open>lib/ssrf.ts\<close>, \<open>adapters/node/ssrf-fetch.ts\<close>, \<open>lib/standardWebhook.ts\<close>): which
    addresses an outgoing request may reach, with the IPv4 and IPv6 parsers on words and the classification of
    every address as a set of ranges; signatures of webhooks and what their verification accepts.
  \<^item> \<open>EventOutbox\<close>, \<open>Webhooks\<close>, \<open>WebhookSteps\<close>, \<open>WebhookPasses\<close>, \<open>EventWorker\<close> (\<open>engine/eventSubscription.ts\<close>,
    \<open>engine/eventQueue.ts\<close>, \<open>engine/eventDelivery.ts\<close>, \<open>adapters/node/event-queue.ts\<close>): events wait in an outbox,
    are leased and fan out to one delivery per matching subscription; a delivery is leased, sent, and settled as
    delivered, retried or dead. \<open>WebhookSteps\<close> runs workers, replays and new events in any interleaving (leases
    fence a late settlement, a settled delivery is final unless it is replayed); \<open>WebhookPasses\<close> follows one
    delivery until it is settled; \<open>EventWorker\<close> is the poll of the in-process worker.
  \<^item> \<open>WorkspaceEvents\<close> (\<open>engine/workspaceEvents.ts\<close>): the numbered event log of a workspace; appending a batch is
    appending its events one after the other. \<open>Retention\<close>, \<open>RetentionProps\<close> (\<open>engine/boundedRetention.ts\<close>,
    \<open>engine/retention.ts\<close>): a retention run prunes five tables in rounds of bounded batches. The locale
    \<open>retention_table\<close> is what pruning one table promises, interpreted on the five; \<open>retention_scan\<close> adds what a scan
    with room for the backlog achieves. Nothing younger than its cutoff is lost, an event that a cursor may still
    ask for keeps its number, and from any saved cursor two runs with enough room leave nothing that was due before
    the second.
  \<^item> \<open>EventId\<close>, \<open>WsTransform\<close>, \<open>ObserverStream\<close> (\<open>engine/event-id.ts\<close>, \<open>engine/wsTransform.ts\<close>,
    \<open>engine/eventDispatch.ts\<close>, the log read of \<open>routes/workspace.ts\<close>): the form in which clients see an event, with
    its identifier, a hash on 32-bit words written as a UUID; its dispatch to the log, the stream and the nodes; and
    the pages in which an observer reads the log. The locale \<open>log_reader\<close> is what a read of the log promises the
    paging loop. A page never skips a visible row, a reader that follows the cursor sees all of them and ends, and
    what a token sees live it sees in the log.
  \<^item> \<open>ObserverTokens\<close>, \<open>ObserverAccess\<close> (\<open>engine/observerToken.ts\<close>): creation, update, rotation, revocation and lookup
    of read-only tokens, and what each may see. The locale \<open>observer_op\<close> is the contract of every operation: a token
    value that stopped working never works again. Access is monotone in the grant (files attached to nothing apart),
    and an event that names its direct conversation needs a scope, an opt-in and the conversation; a post to the
    conversation's channel by the channel's name does not name it (\<open>channel_post_needs_no_consent\<close>).
  \<^item> \<open>Channels\<close>, \<open>ChannelProps\<close> (\<open>engine/channel.ts\<close>, \<open>engine/cache.ts\<close>, the removal of an agent in \<open>engine/agent.ts\<close>):
    channels, members, and the in-process cache of channels. The locale \<open>channel_op\<close> is interpreted on every operation:
    after any of them the cache answers what the tables hold. Two releases in \<open>engine/action.ts\<close> delete members and do
    not invalidate; whatever writes the tables, a cached answer is at most a minute older than the read that filled it.
    A subscription channel has no member but its recipient.

  \<^bold>\<open>Bounds and fuel\<close>

  \<open>deliver_until\<close> runs the delivery pass a given number of times: seven are enough for a new event, the attempts
  left and two for any other delivery. \<open>poll\<close> of \<open>EventWorker\<close> is recursion on the readings of the clock. A retention
  run takes five steps a round for the rounds it is configured with; \<open>retention_completes\<close> says how much room a
  backlog needs. \<open>follow\<close> of \<open>ObserverStream\<close>, the client that asks for page after page, takes a number of pages, and one more
  than there are rows is enough. No other definition uses fuel. Loops over rows are recursion on the rows read; the wait for the next millisecond in
  \<open>Snowflake\<close> is recursion on the readings of the clock, and a call that has not returned yet is \<open>None\<close>; the drain
  of expired deliveries is proved to end after the number of batches that the backlog needs. Integers of the code
  are JavaScript numbers far below \<open>2 ^ 53\<close> or SQLite integers and are unbounded here; CRC and FNV run on 32-bit
  words.

  \<^bold>\<open>Assumed of code that is not here\<close>

  The host's liveness authority, policy resolver, socket registry and collation are arguments, and so are the
  digest and the JSON text of an idempotency record, the platform's URL parser, HMAC, SHA-256, \<open>toISOString\<close>,
  \<open>fetch\<close> and name resolution for webhooks, the parse of the JSON payload of an event, and the test of the time
  budget before each step of a retention run, the reading of a date (\<open>date\<close>), the hash of a token and the error object that
  the database driver throws for a violated index (\<open>driver\<close>); each theorem states what it needs of them and has a witness
  with a concrete one.

  \<^bold>\<open>Not modelled\<close>

  The orchestration around sockets in \<open>engine/action.ts\<close> (\<open>dispatchNodeInvocation\<close>, \<open>drainNodeInvocations\<close>, the
  candidate loop of \<open>rescheduleNodeInvocation\<close>, \<open>invokeAction\<close>, spawn and release dispatch), action registration
  and deletion, and the completion of a release, beyond the statements of \<open>InvocationWrites\<close>; \<open>engine/node.ts\<close> (enrollment,
  registration, inventory) beyond two of its statements; the grouped query of a heartbeat's manifest and \<open>runAtomic\<close> on D1,
  which has no interactive transaction (a claim of a slot is one step here); directories;
  the queries for the resource of a message or file of an observer; the rest of \<open>engine/agent.ts\<close>; interleavings of two
  channel operations at their awaits; the paged recovery by row id and the pruning of agents in
  \<open>engine/agentRetention.ts\<close> and \<open>engine/rowidRetention.ts\<close>; the timer of the event worker; the HTTP routes, realtime adapters, SDKs and the
  A2A gateway. Frame payloads, notifications and logging are I/O and appear only where a result depends on them.
\<close>

end
